(* ===== verification/Prelude.thy ===== *)
theory Prelude
  imports Main "HOL-Library.Sublist"
begin

text \<open>
  What every component of the development shares: the ways the C programs stop
  (\<open>fault\<close>), results that are a fault or a value, C strings in fixed arrays
  (\<open>strcpy\<close>, \<open>sprintf\<close>, \<open>atol\<close>), the linear searches and the removals of the first
  match that the servers write as loops over linked lists, and the collections that
  the component proofs draw on.
\<close>

named_theorems result_simps \<open>unfolding of results, guards and C string operations\<close>
named_theorems list_ops \<open>facts on searches and removals in the servers' lists\<close>

section \<open>Faults and results\<close>

text \<open>
  \<open>Exit\<close> is a call of \<open>exit\<close>; the others are undefined behaviour of C that the code
  can reach: a NULL pointer followed, a freed node read, a string copied past its array,
  an array indexed out of its bounds, an indeterminate value used, a division by zero or a signed
  number that overflows (\<open>Bad_Arith\<close>). \<open>No_Return\<close> is a wait for
  input that never comes, or a loop that never ends.
\<close>

datatype fault =
    Exit int
  | Null_Deref
  | Use_After_Free
  | Buffer_Overflow
  | Out_Of_Bounds
  | Uninit_Read
  | Bad_Arith
  | No_Return

type_synonym 'a result = "fault + 'a"

definition rbind :: "'a result \<Rightarrow> ('a \<Rightarrow> 'b result) \<Rightarrow> 'b result" where
  "rbind r f = (case r of Inl e \<Rightarrow> Inl e | Inr x \<Rightarrow> f x)"

definition guard :: "fault \<Rightarrow> bool \<Rightarrow> unit result" where
  "guard e b = (if b then Inr () else Inl e)"

lemma rbind_simps [simp]:
  "rbind (Inl e) f = Inl e"
  "rbind (Inr x) f = f x"
  by (simp_all add: rbind_def)

lemma rbind_eq_Inr [result_simps]:
  "rbind r f = Inr y \<longleftrightarrow> (\<exists>x. r = Inr x \<and> f x = Inr y)"
  by (cases r) simp_all

lemma rbind_eq_Inl:
  "rbind r f = Inl e \<longleftrightarrow> r = Inl e \<or> (\<exists>x. r = Inr x \<and> f x = Inl e)"
  by (cases r) simp_all

lemma rbind_assoc: "rbind (rbind r f) g = rbind r (\<lambda>x. rbind (f x) g)"
  by (cases r) simp_all

lemma guard_eq_Inr [result_simps]: "guard e b = Inr x \<longleftrightarrow> b"
  by (simp add: guard_def)

lemma guard_simps [simp]: "guard e True = Inr ()" "guard e False = Inl e"
  by (simp_all add: guard_def)

fun rfold :: "('a \<Rightarrow> 's \<Rightarrow> 's result) \<Rightarrow> 'a list \<Rightarrow> 's \<Rightarrow> 's result" where
  "rfold f [] s = Inr s"
| "rfold f (x # xs) s = rbind (f x s) (rfold f xs)"

lemma rfold_append: "rfold f (xs @ ys) s = rbind (rfold f xs s) (rfold f ys)"
  by (induction xs arbitrary: s) (simp_all add: rbind_def split: sum.splits)

lemma rfold_invariant:
  assumes "rfold f xs s = Inr s'" and "P s"
    and "\<And>x s s'. x \<in> set xs \<Longrightarrow> P s \<Longrightarrow> f x s = Inr s' \<Longrightarrow> P s'"
  shows "P s'"
  using assms
proof (induction xs arbitrary: s)
  case Nil
  then show ?case by simp
next
  case (Cons x xs)
  from Cons.prems(1) obtain t where "f x s = Inr t" and "rfold f xs t = Inr s'"
    by (auto simp: result_simps)
  moreover from this have "P t" using Cons.prems by auto
  ultimately show ?case using Cons.IH Cons.prems(3) by auto
qed

section \<open>C strings\<close>

text \<open>
  A \<open>char\<close> array that holds a C string is modelled by the string before its NUL byte.
  Copying a string into an array of \<open>cap\<close> bytes needs room for the NUL as well.
\<close>

definition fits :: "nat \<Rightarrow> string \<Rightarrow> bool" where
  "fits cap s \<longleftrightarrow> length s < cap"

definition strcpy :: "nat \<Rightarrow> string \<Rightarrow> string result" where
  "strcpy cap src = (if fits cap src then Inr src else Inl Buffer_Overflow)"

definition sprintf :: "nat \<Rightarrow> string \<Rightarrow> string result" where
  "sprintf cap text = (if fits cap text then Inr text else Inl Buffer_Overflow)"

text \<open>Single quotes around an argument, as the SQL format strings have them.\<close>

definition quoted :: "string \<Rightarrow> string" where
  "quoted s = CHR 0x27 # s @ [CHR 0x27]"

lemma strcpy_eq_Inr [result_simps]: "strcpy cap s = Inr t \<longleftrightarrow> fits cap s \<and> t = s"
  by (auto simp: strcpy_def)

lemma sprintf_eq_Inr [result_simps]: "sprintf cap s = Inr t \<longleftrightarrow> fits cap s \<and> t = s"
  by (auto simp: sprintf_def)

lemma strcpy_fits [simp]: "fits cap s \<Longrightarrow> strcpy cap s = Inr s"
  by (simp add: strcpy_def)

lemma sprintf_fits [simp]: "fits cap s \<Longrightarrow> sprintf cap s = Inr s"
  by (simp add: sprintf_def)

lemma fits_mono: "fits m s \<Longrightarrow> m \<le> n \<Longrightarrow> fits n s"
  by (simp add: fits_def)

lemma length_quoted [simp]: "length (quoted s) = length s + 2"
  by (simp add: quoted_def)

definition newline :: char where
  "newline = CHR 0x0A"

text \<open>Decimal digits of a number, as \<open>%d\<close> prints them.\<close>

fun dec_nat :: "nat \<Rightarrow> string" where
  "dec_nat n = (if n < 10 then [char_of (48 + n)]
    else dec_nat (n div 10) @ [char_of (48 + n mod 10)])"

definition dec :: "int \<Rightarrow> string" where
  "dec i = (if i < 0 then CHR ''-'' # dec_nat (nat (- i)) else dec_nat (nat i))"

declare dec_nat.simps [simp del]

text \<open>\<open>atol\<close>: leading blanks, an optional sign, the digits up to the first other character.\<close>

fun digits_value :: "nat \<Rightarrow> string \<Rightarrow> nat" where
  "digits_value acc [] = acc"
| "digits_value acc (c # cs) =
     (if of_char c \<ge> (48::nat) \<and> of_char c \<le> (57::nat)
      then digits_value (10 * acc + (of_char c - 48)) cs else acc)"

fun atol :: "string \<Rightarrow> int" where
  "atol (c # cs) =
     (if c = CHR '' '' \<or> c = CHR 0x09 \<or> c = CHR 0x0A then atol cs
      else if c = CHR ''-'' then - int (digits_value 0 cs)
      else if c = CHR ''+'' then int (digits_value 0 cs)
      else int (digits_value 0 (c # cs)))"
| "atol [] = 0"

text \<open>What fits an \<open>int\<close>; the conversion of a wider or an unsigned number to \<open>int\<close>.\<close>

definition int32 :: "int \<Rightarrow> bool" where
  "int32 i \<longleftrightarrow> - 2147483648 \<le> i \<and> i < 2147483648"

definition low_int :: "int \<Rightarrow> int" where
  "low_int i = (i + 2147483648) mod 4294967296 - 2147483648"

lemma low_int_id: "int32 i \<Longrightarrow> low_int i = i"
  unfolding low_int_def int32_def by (subst mod_pos_pos_trivial) auto

lemma low_int_range: "int32 (low_int i)"
proof -
  have "0 \<le> (i + 2147483648) mod 4294967296" "(i + 2147483648) mod 4294967296 < 4294967296" by simp_all
  then show ?thesis unfolding low_int_def int32_def by linarith
qed

text \<open>
  A number read into a \<open>long\<close> stops at its ends (\<open>strtol\<close>); \<open>atoi\<close>, \<open>%d\<close> of \<open>scanf\<close> and a \<open>long\<close> that is assigned to
  an \<open>int\<close> keep its low 32 bits.
\<close>

definition long_to_int :: "int \<Rightarrow> int" where
  "long_to_int v = low_int (max (- (2 ^ 63)) (min (2 ^ 63 - 1) v))"

definition atoi :: "string \<Rightarrow> int" where
  "atoi s = long_to_int (atol s)"

lemma long_to_int_id [simp]: "int32 i \<Longrightarrow> long_to_int i = i"
  using low_int_id [of i] by (simp add: long_to_int_def int32_def max_def min_def)

lemma long_to_int_range: "int32 (long_to_int i)"
  by (simp add: long_to_int_def low_int_range)

section \<open>Searches and removals in lists\<close>

text \<open>The first element that satisfies a predicate, as the search loops with a flag find it.\<close>

fun find_first :: "('a \<Rightarrow> bool) \<Rightarrow> 'a list \<Rightarrow> 'a option" where
  "find_first p [] = None"
| "find_first p (x # xs) = (if p x then Some x else find_first p xs)"

text \<open>Unlinking the first element that satisfies a predicate.\<close>

fun remove_first :: "('a \<Rightarrow> bool) \<Rightarrow> 'a list \<Rightarrow> 'a list" where
  "remove_first p [] = []"
| "remove_first p (x # xs) = (if p x then xs else x # remove_first p xs)"

text \<open>Writing a field of the first element that satisfies a predicate.\<close>

fun update_first :: "('a \<Rightarrow> bool) \<Rightarrow> ('a \<Rightarrow> 'a) \<Rightarrow> 'a list \<Rightarrow> 'a list" where
  "update_first p f [] = []"
| "update_first p f (x # xs) = (if p x then f x # xs else x # update_first p f xs)"

lemma find_first_None [list_ops]: "find_first p xs = None \<longleftrightarrow> (\<forall>x \<in> set xs. \<not> p x)"
  by (induction xs) auto

lemma find_first_Some: "find_first p xs = Some x \<Longrightarrow> x \<in> set xs \<and> p x"
  by (induction xs) (auto split: if_splits)

lemma find_first_append [list_ops]:
  "find_first p (xs @ ys) = (case find_first p xs of None \<Rightarrow> find_first p ys | Some x \<Rightarrow> Some x)"
  by (induction xs) auto

lemma find_first_not_None: "find_first p xs \<noteq> None \<longleftrightarrow> (\<exists>x \<in> set xs. p x)"
  by (induction xs) auto

lemma find_first_unique:
  assumes "distinct (map k xs)" and "x \<in> set xs" and "p x" and "\<And>y. p y \<Longrightarrow> k y = k x"
  shows "find_first p xs = Some x"
  using assms
proof (induction xs)
  case Nil
  then show ?case by simp
next
  case (Cons y ys)
  show ?case
  proof (cases "p y")
    case True
    then have "k y = k x" by (rule Cons.prems(4))
    then have "y = x" using Cons.prems(1,2) by (auto simp: image_iff)
    with True show ?thesis by simp
  next
    case False
    with Cons.prems(2,3) have "x \<in> set ys" by auto
    from Cons.prems(1) have "distinct (map k ys)" by simp
    from Cons.IH [OF this \<open>x \<in> set ys\<close> Cons.prems(3,4)] False
    show ?thesis by simp
  qed
qed

lemma set_remove_first [list_ops]: "set (remove_first p xs) \<subseteq> set xs"
  by (induction xs) auto

lemma remove_first_id [list_ops]: "\<forall>x \<in> set xs. \<not> p x \<Longrightarrow> remove_first p xs = xs"
  by (induction xs) auto

lemma subseq_remove_first: "subseq (remove_first p xs) xs"
  by (induction xs) auto

lemma distinct_map_remove_first: "distinct (map k xs) \<Longrightarrow> distinct (map k (remove_first p xs))"
  by (induction xs) (auto dest!: subsetD [OF set_remove_first])

lemma remove_first_mem: "x \<in> set xs \<Longrightarrow> \<not> p x \<Longrightarrow> x \<in> set (remove_first p xs)"
  by (induction xs) auto

lemma remove_first_gone:
  assumes "distinct (map k xs)" and "\<And>x y. p x \<Longrightarrow> p y \<Longrightarrow> k x = k y"
  shows "\<forall>x \<in> set (remove_first p xs). \<not> p x"
  using assms
proof (induction xs)
  case Nil
  then show ?case by simp
next
  case (Cons y ys)
  show ?case
  proof (cases "p y")
    case True
    have "\<not> p x" if "x \<in> set ys" for x
    proof
      assume "p x"
      with True have "k x = k y" using Cons.prems(2) by blast
      with that have "k y \<in> k ` set ys" by (metis image_eqI)
      with Cons.prems(1) show False by simp
    qed
    with True show ?thesis by simp
  next
    case False
    from Cons.prems(1) have "distinct (map k ys)" by simp
    from Cons.IH [OF this Cons.prems(2)] False show ?thesis by simp
  qed
qed

lemma map_update_first: "(\<And>x. k (f x) = k x) \<Longrightarrow> map k (update_first p f xs) = map k xs"
  by (induction xs) auto

lemma length_update_first [simp]: "length (update_first p f xs) = length xs"
  by (induction xs) auto

lemma set_update_first: "set (update_first p f xs) \<subseteq> set xs \<union> f ` set xs"
  by (induction xs) auto

lemma update_first_id [list_ops]: "\<forall>x \<in> set xs. \<not> p x \<Longrightarrow> update_first p f xs = xs"
  by (induction xs) auto

lemma find_first_update_first_same:
  "(\<And>x. p (f x) = p x) \<Longrightarrow> find_first p (update_first p f xs) = map_option f (find_first p xs)"
  by (induction xs) auto

lemma find_first_update_first_other:
  "(\<And>x. q (f x) = q x) \<Longrightarrow> (\<And>x. p x \<Longrightarrow> \<not> q x)
   \<Longrightarrow> find_first q (update_first p f xs) = find_first q xs"
  by (induction xs) auto

lemma find_first_remove_first_other:
  "(\<And>x. p x \<Longrightarrow> \<not> q x) \<Longrightarrow> find_first q (remove_first p xs) = find_first q xs"
  by (induction xs) auto

lemma filter_remove_first_other:
  "(\<And>x. p x \<Longrightarrow> \<not> q x) \<Longrightarrow> filter q (remove_first p xs) = filter q xs"
  by (induction xs) auto

lemma last_take_nth: "0 < i \<Longrightarrow> i \<le> length xs \<Longrightarrow> last (take i xs) = xs ! (i - 1)"
  by (cases i) (auto simp: take_Suc_conv_app_nth)


section \<open>Numbers printed and read\<close>

lemma digits_value_dec_nat: "digits_value a (dec_nat n @ cs) = digits_value (a * 10 ^ length (dec_nat n) + n) cs"
proof (induction n arbitrary: a cs rule: dec_nat.induct)
  case (1 n)
  have d: "of_char (char_of (48 + m) :: char) = (48 + m :: nat)" if "m < 10" for m :: nat
    using that by simp
  show ?case
  proof (cases "n < 10")
    case True
    with d [of n] show ?thesis by (simp add: dec_nat.simps [of n] algebra_simps)
  next
    case False
    have "n mod 10 \<le> 9" using mod_less_divisor [of 10 n] by linarith
    with False 1 d [of "n mod 10"] show ?thesis
      by (simp add: dec_nat.simps [of n] algebra_simps)
  qed
qed

lemma dec_nat_cons: "\<exists>(k::nat) ds. k < 10 \<and> dec_nat n = char_of (48 + k) # ds"
proof (induction n rule: dec_nat.induct)
  case (1 n)
  then show ?case by (cases "n < 10") (auto simp: dec_nat.simps [of n])
qed

lemma digit_not_sign:
  fixes k :: nat
  assumes "k < 10"
  shows "char_of (48 + k) \<notin> {CHR '' '', CHR 0x09, CHR 0x0A, CHR ''-'', CHR ''+''}"
proof -
  have "k \<in> {0, 1, 2, 3, 4, 5, 6, 7, 8, 9}" using assms by auto
  then show ?thesis by (auto simp: char_of_def)
qed

lemma atol_dec: "atol (dec i) = i"
proof (cases "i < 0")
  case True
  then show ?thesis using digits_value_dec_nat [of 0 "nat (- i)" "[]"] by (simp add: dec_def)
next
  case False
  obtain k :: nat and ds where "k < 10" "dec_nat (nat i) = char_of (48 + k) # ds"
    using dec_nat_cons by blast
  with False digit_not_sign [of k] digits_value_dec_nat [of 0 "nat i" "[]"]
  show ?thesis by (simp add: dec_def del: digits_value.simps(2))
qed

lemma atoi_dec [simp]: "int32 i \<Longrightarrow> atoi (dec i) = i"
  by (simp add: atoi_def atol_dec)

end
