(* ===== verification/Chat_Msg.thy ===== *)
theory Chat_Msg
  imports Prelude
begin

text \<open>
  The packet and the table rows of the chat room in \<open>Code/huqingwei/chat_room/chat.h\<close>,
  and the list nodes of \<open>epoll.c\<close>. Every \<open>char\<close> array is the C string it holds; the
  predicates \<open>wf_...\<close> say that each string is terminated inside its array. A client and
  the server exchange whole packets of type \<open>MSG\<close>.
\<close>

section \<open>The packet\<close>

record yonghu_infor =
  name :: string
  login_id :: string
  nickname :: string
  sex :: string
  password :: string
  telephone :: string

record group_infor =
  group_name :: string
  group_owner :: string
  member_num :: int

record MSG =
  user_infor :: yonghu_infor
  to_name :: string
  to_group_name :: string
  from_name :: string
  time_str :: string
  group_of :: group_infor
  news :: string
  file_len :: int
  once_len :: int
  file_path :: string
  file_name :: string
  send_end :: int
  friend_num :: int
  friend_name :: string
  cmd :: int
  msg_type :: char

definition wf_yonghu :: "yonghu_infor \<Rightarrow> bool" where
  "wf_yonghu u \<longleftrightarrow> fits 20 (name u) \<and> fits 20 (login_id u) \<and> fits 20 (nickname u)
     \<and> fits 5 (sex u) \<and> fits 20 (password u) \<and> fits 30 (telephone u)"

definition wf_group_infor :: "group_infor \<Rightarrow> bool" where
  "wf_group_infor g \<longleftrightarrow> fits 20 (group_name g) \<and> fits 20 (group_owner g)"

definition wf_MSG :: "MSG \<Rightarrow> bool" where
  "wf_MSG m \<longleftrightarrow> wf_yonghu (user_infor m) \<and> fits 20 (to_name m) \<and> fits 20 (to_group_name m)
     \<and> fits 20 (from_name m) \<and> fits 30 (time_str m) \<and> wf_group_infor (group_of m)
     \<and> fits 1024 (news m) \<and> fits 200 (file_path m) \<and> fits 256 (file_name m)
     \<and> fits 20 (friend_name m)"

text \<open>A zeroed packet, as \<open>memset(&message, 0, sizeof(message))\<close> leaves it.\<close>

definition zero_yonghu :: yonghu_infor where
  "zero_yonghu = \<lparr>name = [], login_id = [], nickname = [], sex = [], password = [], telephone = []\<rparr>"

definition zero_MSG :: MSG where
  "zero_MSG = \<lparr>user_infor = zero_yonghu, to_name = [], to_group_name = [], from_name = [],
     time_str = [], group_of = \<lparr>group_name = [], group_owner = [], member_num = 0\<rparr>,
     news = [], file_len = 0, once_len = 0, file_path = [], file_name = [], send_end = 0,
     friend_num = 0, friend_name = [], cmd = 0, msg_type = CHR 0x00\<rparr>"

section \<open>Rows of the tables and nodes of the lists\<close>

record mysql_user =
  u_name :: string
  u_nickname :: string
  u_sex :: string
  u_passworld :: string
  u_telephone :: string

record mysql_user_groups =
  g_name :: string
  g_owner :: string

record mysql_friend =
  f_friendname :: string
  f_username :: string
  f_type :: int
  f_status :: int

record mysql_group_relationship =
  r_group_name :: string
  r_user_name :: string
  r_type :: int

record user_date =
  d_name :: string
  d_socket :: int

text \<open>
  The nodes \<open>to_group_name\<close> that a handler does not write keep what \<open>malloc\<close> returned:
  \<open>None\<close> stands for such indeterminate bytes.
\<close>

record request_node =
  q_from_name :: string
  q_to_name :: string
  q_to_group_name :: "string option"
  q_type :: char

definition wf_user :: "mysql_user \<Rightarrow> bool" where
  "wf_user u \<longleftrightarrow> fits 20 (u_name u) \<and> fits 20 (u_nickname u) \<and> fits 2 (u_sex u)
     \<and> fits 20 (u_passworld u) \<and> fits 30 (u_telephone u)"

definition wf_group :: "mysql_user_groups \<Rightarrow> bool" where
  "wf_group g \<longleftrightarrow> fits 20 (g_name g) \<and> fits 20 (g_owner g)"

definition wf_friend :: "mysql_friend \<Rightarrow> bool" where
  "wf_friend f \<longleftrightarrow> fits 20 (f_friendname f) \<and> fits 20 (f_username f)"

definition wf_relation :: "mysql_group_relationship \<Rightarrow> bool" where
  "wf_relation r \<longleftrightarrow> fits 20 (r_group_name r) \<and> fits 20 (r_user_name r)"

definition wf_date :: "user_date \<Rightarrow> bool" where
  "wf_date d \<longleftrightarrow> fits 20 (d_name d)"

definition wf_request :: "request_node \<Rightarrow> bool" where
  "wf_request q \<longleftrightarrow> fits 20 (q_from_name q) \<and> fits 20 (q_to_name q)
     \<and> (case q_to_group_name q of None \<Rightarrow> True | Some g \<Rightarrow> fits 20 g)"

lemmas wf_defs = wf_yonghu_def wf_group_infor_def wf_MSG_def wf_user_def wf_group_def
  wf_friend_def wf_relation_def wf_date_def wf_request_def

lemma wf_zero_MSG [simp]: "wf_MSG zero_MSG"
  by (simp add: wf_defs zero_MSG_def zero_yonghu_def fits_def)

end
