(* ===== verification/Server_State.thy ===== *)
theory Server_State
  imports Chat_Msg
begin

text \<open>
  The state of the server in \<open>Code/huqingwei/chat_room/epoll.c\<close>: its global lists, the
  queries it has sent to MySQL, the packets it has sent to its clients and the bytes its
  clients still have to deliver. MySQL is outside the repository: whether a connection can
  be made and whether a query fails are parameters of the model (\<open>mysql_env\<close>). The lists
  are lists here; \<open>Node_Heap\<close> shows that the pointer routines compute these functions.
\<close>

section \<open>State\<close>

text \<open>What a \<open>send\<close> hands to the network: a packet, or the raw bytes of a file frame.\<close>

datatype outgoing = Packet MSG | Frame string

record server =
  head_user :: "mysql_user list"
  head_friends :: "mysql_friend list"
  head_user_groups :: "mysql_user_groups list"
  head_group_relationship :: "mysql_group_relationship list"
  head :: "user_date list"
  head_request :: "request_node list"
  connections :: nat
  queries :: "(nat \<times> string) list"
  sent :: "(int \<times> outgoing) list"
  inbox :: "int \<Rightarrow> string list"

text \<open>
  \<open>init_fails n\<close>: the n-th connection cannot be set up. \<open>query_fails qs q\<close>: MySQL returns
  non-zero for the query \<open>q\<close> (with the connection it goes through) after the queries \<open>qs\<close>.
\<close>

record mysql_env =
  init_fails :: "nat \<Rightarrow> bool"
  query_fails :: "(nat \<times> string) list \<Rightarrow> nat \<times> string \<Rightarrow> bool"

definition mysql_works :: "mysql_env \<Rightarrow> bool" where
  "mysql_works env \<longleftrightarrow> (\<forall>n. \<not> init_fails env n) \<and> (\<forall>qs q. \<not> query_fails env qs q)"

definition connect_mysql :: "mysql_env \<Rightarrow> server \<Rightarrow> (nat \<times> server) result" where
  "connect_mysql env s =
     (let c = Suc (connections s)
      in if init_fails env c then Inl (Exit 1) else Inr (c, s\<lparr>connections := c\<rparr>))"

definition mysql_real_query :: "mysql_env \<Rightarrow> nat \<Rightarrow> string \<Rightarrow> server \<Rightarrow> bool \<times> server" where
  "mysql_real_query env h str s =
     (query_fails env (queries s) (h, str), s\<lparr>queries := queries s @ [(h, str)]\<rparr>)"

text \<open>The handlers' idiom: run a query and \<open>exit(1)\<close> when it fails.\<close>

definition query_or_exit :: "mysql_env \<Rightarrow> nat \<Rightarrow> string \<Rightarrow> server \<Rightarrow> server result" where
  "query_or_exit env h str s =
     (case mysql_real_query env h str s of (ret, s') \<Rightarrow> if ret then Inl (Exit 1) else Inr s')"

text \<open>\<open>sprintf\<close> into a buffer of \<open>cap\<close> bytes, then the query.\<close>

definition run_sql :: "mysql_env \<Rightarrow> nat \<Rightarrow> nat \<Rightarrow> string \<Rightarrow> server \<Rightarrow> server result" where
  "run_sql env h cap text s = rbind (sprintf cap text) (\<lambda>str. query_or_exit env h str s)"

definition send :: "int \<Rightarrow> MSG \<Rightarrow> server \<Rightarrow> server" where
  "send fd m s = s\<lparr>sent := sent s @ [(fd, Packet m)]\<rparr>"

text \<open>\<open>message->cmd = c; send(conn_fd, message, sizeof(MSG), 0);\<close>\<close>

definition reply :: "int \<Rightarrow> MSG \<Rightarrow> int \<Rightarrow> server \<Rightarrow> server" where
  "reply fd m c s = send fd (m\<lparr>cmd := c\<rparr>) s"

section \<open>What the loops look for\<close>

definition is_user :: "string \<Rightarrow> mysql_user \<Rightarrow> bool" where
  "is_user n u \<longleftrightarrow> u_name u = n"

definition is_friend :: "string \<Rightarrow> string \<Rightarrow> mysql_friend \<Rightarrow> bool" where
  "is_friend f u r \<longleftrightarrow> f_friendname r = f \<and> f_username r = u"

definition is_group :: "string \<Rightarrow> mysql_user_groups \<Rightarrow> bool" where
  "is_group g r \<longleftrightarrow> g_name r = g"

definition in_group :: "string \<Rightarrow> string \<Rightarrow> mysql_group_relationship \<Rightarrow> bool" where
  "in_group g u r \<longleftrightarrow> r_group_name r = g \<and> r_user_name r = u"

definition is_online :: "string \<Rightarrow> user_date \<Rightarrow> bool" where
  "is_online n d \<longleftrightarrow> d_name d = n"

definition find_online :: "string \<Rightarrow> server \<Rightarrow> user_date option" where
  "find_online n s = find_first (is_online n) (head s)"

section \<open>New nodes\<close>

definition new_friend :: "string \<Rightarrow> string \<Rightarrow> int \<Rightarrow> int \<Rightarrow> mysql_friend result" where
  "new_friend f u ty st =
     rbind (strcpy 20 f) (\<lambda>f'. rbind (strcpy 20 u) (\<lambda>u'.
       Inr \<lparr>f_friendname = f', f_username = u', f_type = ty, f_status = st\<rparr>))"

definition new_relation :: "string \<Rightarrow> string \<Rightarrow> int \<Rightarrow> mysql_group_relationship result" where
  "new_relation g u ty =
     rbind (strcpy 20 g) (\<lambda>g'. rbind (strcpy 20 u) (\<lambda>u'.
       Inr \<lparr>r_group_name = g', r_user_name = u', r_type = ty\<rparr>))"

definition new_request :: "string \<Rightarrow> string \<Rightarrow> string option \<Rightarrow> char \<Rightarrow> request_node result" where
  "new_request from to grp ty =
     rbind (strcpy 20 from) (\<lambda>f. rbind (strcpy 20 to) (\<lambda>t.
       (case grp of
          None \<Rightarrow> Inr \<lparr>q_from_name = f, q_to_name = t, q_to_group_name = None, q_type = ty\<rparr>
        | Some g \<Rightarrow> rbind (strcpy 20 g) (\<lambda>g'.
            Inr \<lparr>q_from_name = f, q_to_name = t, q_to_group_name = Some g', q_type = ty\<rparr>))))"

text \<open>Appending a request to \<open>head_request\<close>, as every handler that finds no receiver does.\<close>

definition queue_request ::
  "string \<Rightarrow> string \<Rightarrow> string option \<Rightarrow> char \<Rightarrow> server \<Rightarrow> server result" where
  "queue_request from to grp ty s =
     rbind (new_request from to grp ty) (\<lambda>q. Inr (s\<lparr>head_request := head_request s @ [q]\<rparr>))"

section \<open>Well-formed states and growing logs\<close>

definition friend_key :: "mysql_friend \<Rightarrow> string \<times> string" where
  "friend_key r = (f_friendname r, f_username r)"

text \<open>
  Names are keys of the users and the groups, pairs of names are keys of the friendships,
  whose status is 0 or 1; every group has its owner among its members; every string fits its array.
\<close>

definition keys_ok :: "mysql_user list \<Rightarrow> mysql_friend list \<Rightarrow> mysql_user_groups list \<Rightarrow> bool" where
  "keys_ok us fs gs \<longleftrightarrow> distinct (map u_name us) \<and> distinct (map friend_key fs)
     \<and> (\<forall>f \<in> set fs. f_status f \<in> {0, 1}) \<and> distinct (map g_name gs)"

definition owners_ok ::
  "mysql_user_groups list \<Rightarrow> mysql_group_relationship list \<Rightarrow> bool" where
  "owners_ok gs rs \<longleftrightarrow> (\<forall>g \<in> set gs. \<exists>r \<in> set rs. in_group (g_name g) (g_owner g) r)"

definition lists_wf ::
  "mysql_user list \<Rightarrow> mysql_friend list \<Rightarrow> mysql_user_groups list \<Rightarrow> mysql_group_relationship list
   \<Rightarrow> user_date list \<Rightarrow> request_node list \<Rightarrow> bool" where
  "lists_wf us fs gs rs ds qs \<longleftrightarrow> keys_ok us fs gs \<and> owners_ok gs rs
     \<and> (\<forall>u \<in> set us. wf_user u) \<and> (\<forall>f \<in> set fs. wf_friend f) \<and> (\<forall>g \<in> set gs. wf_group g)
     \<and> (\<forall>r \<in> set rs. wf_relation r) \<and> (\<forall>d \<in> set ds. wf_date d) \<and> (\<forall>q \<in> set qs. wf_request q)"

definition server_wf :: "server \<Rightarrow> bool" where
  "server_wf s \<longleftrightarrow> lists_wf (head_user s) (head_friends s) (head_user_groups s)
     (head_group_relationship s) (head s) (head_request s)"

lemmas lists_wf_defs = lists_wf_def keys_ok_def owners_ok_def
lemmas server_wf_defs = server_wf_def lists_wf_defs

text \<open>
  Server states are ordered by their logs: a later state has at least the queries, the packets
  and the connections of an earlier one. Different states can have the same logs.
\<close>

instantiation server_ext :: (type) preorder
begin

definition less_eq_server_ext :: "'a server_ext \<Rightarrow> 'a server_ext \<Rightarrow> bool" where
  "less_eq_server_ext s t \<longleftrightarrow> prefix (queries s) (queries t) \<and> prefix (sent s) (sent t)
     \<and> connections s \<le> connections t"

definition less_server_ext :: "'a server_ext \<Rightarrow> 'a server_ext \<Rightarrow> bool" where
  "less_server_ext s t \<longleftrightarrow> s \<le> t \<and> \<not> t \<le> (s :: 'a server_ext)"

instance
  by standard (auto simp: less_eq_server_ext_def less_server_ext_def)

end

definition grows :: "server \<Rightarrow> server \<Rightarrow> bool" where
  "grows s s' \<longleftrightarrow> s \<le> s'"

lemma grows_iff:
  "grows s s' \<longleftrightarrow> prefix (queries s) (queries s') \<and> prefix (sent s) (sent s')
     \<and> connections s \<le> connections s'"
  by (simp add: grows_def less_eq_server_ext_def)

lemma grows_refl [simp, intro]: "grows s s"
  by (simp add: grows_def)

lemma grows_trans: "grows s t \<Longrightarrow> grows t u \<Longrightarrow> grows s u"
  unfolding grows_def by (rule order_trans)

section \<open>Facts on the primitives\<close>

lemma is_preds [list_ops]:
  "is_user n u = (u_name u = n)" "is_group g r = (g_name r = g)"
  "is_online n d = (d_name d = n)"
  by (auto simp: is_user_def is_group_def is_online_def)

lemma connect_mysql_eq_Inr [result_simps]:
  "connect_mysql env s = Inr (c, s') \<longleftrightarrow>
     \<not> init_fails env c \<and> c = Suc (connections s) \<and> s' = s\<lparr>connections := c\<rparr>"
  by (auto simp: connect_mysql_def Let_def)

lemma query_or_exit_eq_Inr [result_simps]:
  "query_or_exit env h str s = Inr s' \<longleftrightarrow>
     \<not> query_fails env (queries s) (h, str) \<and> s' = s\<lparr>queries := queries s @ [(h, str)]\<rparr>"
  by (auto simp: query_or_exit_def mysql_real_query_def)

lemma run_sql_eq_Inr [result_simps]:
  "run_sql env h cap text s = Inr s' \<longleftrightarrow>
     fits cap text \<and> \<not> query_fails env (queries s) (h, text)
     \<and> s' = s\<lparr>queries := queries s @ [(h, text)]\<rparr>"
  by (auto simp: run_sql_def result_simps)

lemma run_sql_ok [simp]:
  "fits cap text \<Longrightarrow> \<not> query_fails env (queries s) (h, text)
   \<Longrightarrow> run_sql env h cap text s = Inr (s\<lparr>queries := queries s @ [(h, text)]\<rparr>)"
  by (simp add: run_sql_eq_Inr)

lemma mysql_works_simps:
  assumes "mysql_works env"
  shows "connect_mysql env s = Inr (Suc (connections s), s\<lparr>connections := Suc (connections s)\<rparr>)"
    and "fits cap text \<Longrightarrow> run_sql env h cap text s = Inr (s\<lparr>queries := queries s @ [(h, text)]\<rparr>)"
  using assms by (auto simp: mysql_works_def connect_mysql_def)

lemma new_friend_eq_Inr [result_simps]:
  "new_friend f u ty st = Inr r \<longleftrightarrow> fits 20 f \<and> fits 20 u
     \<and> r = \<lparr>f_friendname = f, f_username = u, f_type = ty, f_status = st\<rparr>"
  by (auto simp: new_friend_def result_simps)

lemma new_relation_eq_Inr [result_simps]:
  "new_relation g u ty = Inr r \<longleftrightarrow> fits 20 g \<and> fits 20 u
     \<and> r = \<lparr>r_group_name = g, r_user_name = u, r_type = ty\<rparr>"
  by (auto simp: new_relation_def result_simps)

lemma queue_request_eq_Inr [result_simps]:
  "queue_request from to grp ty s = Inr s' \<longleftrightarrow>
     fits 20 from \<and> fits 20 to \<and> (case grp of None \<Rightarrow> True | Some g \<Rightarrow> fits 20 g)
     \<and> s' = s\<lparr>head_request := head_request s @
         [\<lparr>q_from_name = from, q_to_name = to, q_to_group_name = grp, q_type = ty\<rparr>]\<rparr>"
  by (auto simp: queue_request_def new_request_def result_simps split: option.splits)

lemma send_simps [simp]:
  "head_user (send fd m s) = head_user s"
  "head_friends (send fd m s) = head_friends s"
  "head_user_groups (send fd m s) = head_user_groups s"
  "head_group_relationship (send fd m s) = head_group_relationship s"
  "head (send fd m s) = head s"
  "head_request (send fd m s) = head_request s"
  "connections (send fd m s) = connections s"
  "queries (send fd m s) = queries s"
  "inbox (send fd m s) = inbox s"
  "sent (send fd m s) = sent s @ [(fd, Packet m)]"
  by (simp_all add: send_def)

lemma find_online_send [simp]: "find_online n (send fd m s) = find_online n s"
  by (simp add: find_online_def)

lemma server_wf_send [simp]: "server_wf (send fd m s) = server_wf s"
  by (simp add: server_wf_defs)

lemma server_wf_reply [simp]: "server_wf (reply fd m c s) = server_wf s"
  by (simp add: reply_def)

lemma server_wf_log [simp]:
  "server_wf (s\<lparr>queries := qs\<rparr>) = server_wf s" "server_wf (s\<lparr>connections := c\<rparr>) = server_wf s"
  "server_wf (s\<lparr>sent := ps\<rparr>) = server_wf s" "server_wf (s\<lparr>inbox := b\<rparr>) = server_wf s"
  by (simp_all add: server_wf_defs)


lemma grows_send: "grows s t \<Longrightarrow> grows s (send fd m t)"
  by (auto simp: grows_iff)

lemma grows_reply: "grows s t \<Longrightarrow> grows s (reply fd m c t)"
  by (simp add: reply_def grows_send)

section \<open>Updates that keep a state well-formed\<close>

named_theorems wf_intros \<open>one list of the state changes, the others stay\<close>

lemma wf_add_user [wf_intros]:
  "lists_wf us fs gs rs ds qs \<Longrightarrow> wf_user u \<Longrightarrow> \<forall>v \<in> set us. u_name v \<noteq> u_name u
   \<Longrightarrow> lists_wf (us @ [u]) fs gs rs ds qs"
  by (auto simp: lists_wf_defs)

lemma wf_add_friend [wf_intros]:
  "lists_wf us fs gs rs ds qs \<Longrightarrow> wf_friend r \<Longrightarrow> f_status r \<in> {0, 1}
   \<Longrightarrow> \<forall>v \<in> set fs. friend_key v \<noteq> friend_key r \<Longrightarrow> lists_wf us (fs @ [r]) gs rs ds qs"
  by (auto simp: lists_wf_defs)

lemma wf_remove_friend [wf_intros]:
  "lists_wf us fs gs rs ds qs \<Longrightarrow> lists_wf us (remove_first P fs) gs rs ds qs"
  by (auto simp: lists_wf_defs distinct_map_remove_first dest: subsetD [OF set_remove_first])

lemma wf_friend_status [simp]: "wf_friend (r\<lparr>f_status := st\<rparr>) = wf_friend r"
  by (simp add: wf_friend_def)

lemma friend_key_status [simp]: "friend_key (r\<lparr>f_status := st\<rparr>) = friend_key r"
  by (simp add: friend_key_def)

lemma is_friend_status [simp]: "is_friend f u (r\<lparr>f_status := st\<rparr>) = is_friend f u r"
  by (simp add: is_friend_def)

lemma wf_friend_status_update [wf_intros]:
  "lists_wf us fs gs rs ds qs \<Longrightarrow> st \<in> {0, 1}
   \<Longrightarrow> lists_wf us (update_first P (f_status_update (\<lambda>_. st)) fs) gs rs ds qs"
  by (auto simp: lists_wf_defs map_update_first dest!: subsetD [OF set_update_first])

lemma wf_add_relation [wf_intros]:
  "lists_wf us fs gs rs ds qs \<Longrightarrow> wf_relation r \<Longrightarrow> lists_wf us fs gs (rs @ [r]) ds qs"
  by (auto simp: lists_wf_defs)

lemma wf_remove_relation:
  assumes "lists_wf us fs gs rs ds qs"
    and "\<And>g. g \<in> set gs \<Longrightarrow> \<not> (g_name g = gn \<and> g_owner g = un)"
  shows "lists_wf us fs gs (remove_first (in_group gn un) rs) ds qs"
proof -
  have "\<exists>r \<in> set (remove_first (in_group gn un) rs). in_group (g_name g) (g_owner g) r"
    if g: "g \<in> set gs" for g
  proof -
    from assms(1) g obtain r where "r \<in> set rs" "in_group (g_name g) (g_owner g) r"
      by (auto simp: lists_wf_defs)
    moreover from this(2) assms(2) [OF g] have "\<not> in_group gn un r" by (auto simp: in_group_def)
    ultimately show ?thesis by (auto dest: remove_first_mem)
  qed
  with assms(1) show ?thesis
    by (auto simp: lists_wf_defs dest: subsetD [OF set_remove_first])
qed

lemma wf_relation_type [simp]: "wf_relation (r\<lparr>r_type := t\<rparr>) = wf_relation r"
  by (simp add: wf_relation_def)

lemma in_group_type [simp]: "in_group g u (r\<lparr>r_type := t\<rparr>) = in_group g u r"
  by (simp add: in_group_def)

lemma update_first_mem:
  "x \<in> set xs \<Longrightarrow> x \<in> set (update_first P f xs) \<or> f x \<in> set (update_first P f xs)"
  by (induction xs) auto

lemma wf_relation_type_update [wf_intros]:
  assumes "lists_wf us fs gs rs ds qs"
  shows "lists_wf us fs gs (update_first P (r_type_update (\<lambda>_. t)) rs) ds qs"
proof -
  have "\<exists>r \<in> set (update_first P (r_type_update (\<lambda>_. t)) rs). in_group (g_name g) (g_owner g) r"
    if "g \<in> set gs" for g
  proof -
    from assms that obtain r where "r \<in> set rs" "in_group (g_name g) (g_owner g) r"
      by (auto simp: lists_wf_defs)
    then show ?thesis using update_first_mem [of r _ P "r_type_update (\<lambda>_. t)"]
      by (metis in_group_type)
  qed
  with assms show ?thesis by (auto simp: lists_wf_defs dest!: subsetD [OF set_update_first])
qed

lemma wf_add_group:
  assumes "lists_wf us fs gs rs ds qs" and "wf_group g" and "wf_relation r"
    and "in_group (g_name g) (g_owner g) r" and "\<forall>h \<in> set gs. g_name h \<noteq> g_name g"
  shows "lists_wf us fs (gs @ [g]) (rs @ [r]) ds qs"
  using assms by (auto simp: lists_wf_defs)

lemma wf_remove_group:
  assumes "lists_wf us fs gs rs ds qs"
  shows "lists_wf us fs (remove_first (is_group gn) gs)
           (filter (\<lambda>r. r_group_name r \<noteq> gn) rs) ds qs"
proof -
  let ?gs = "remove_first (is_group gn) gs" and ?rs = "filter (\<lambda>r. r_group_name r \<noteq> gn) rs"
  from assms have "distinct (map g_name gs)" by (simp add: lists_wf_defs)
  then have gone: "\<forall>g \<in> set ?gs. \<not> is_group gn g"
    by (rule remove_first_gone) (simp add: is_group_def)
  have sub: "set ?gs \<subseteq> set gs" by (rule set_remove_first)
  have "owners_ok ?gs ?rs"
    unfolding owners_ok_def
  proof
    fix g assume g: "g \<in> set ?gs"
    with sub have "g \<in> set gs" by blast
    with assms obtain r where "r \<in> set rs" "in_group (g_name g) (g_owner g) r"
      by (auto simp: lists_wf_defs)
    moreover from gone g have "g_name g \<noteq> gn" by (auto simp: is_group_def)
    ultimately show "\<exists>r \<in> set ?rs. in_group (g_name g) (g_owner g) r"
      by (auto simp: in_group_def)
  qed
  moreover have "keys_ok us fs ?gs" using assms
    by (auto simp: lists_wf_def keys_ok_def distinct_map_remove_first)
  ultimately show ?thesis using assms sub by (auto simp: lists_wf_def)
qed

lemma wf_add_online [wf_intros]:
  "lists_wf us fs gs rs ds qs \<Longrightarrow> wf_date d \<Longrightarrow> lists_wf us fs gs rs (ds @ [d]) qs"
  by (auto simp: lists_wf_defs)

lemma wf_del_online:
  "lists_wf us fs gs rs ds qs \<Longrightarrow> set ds' \<subseteq> set ds \<Longrightarrow> lists_wf us fs gs rs ds' qs"
  by (auto simp: lists_wf_defs)

lemma wf_add_request [wf_intros]:
  "lists_wf us fs gs rs ds qs \<Longrightarrow> wf_request q \<Longrightarrow> lists_wf us fs gs rs ds (qs @ [q])"
  by (auto simp: lists_wf_defs)

section \<open>The contract of a request handler\<close>

text \<open>
  Every handler of \<open>chuli_request\<close> keeps the state well-formed and only appends to the
  logs. What follows for a sequence of requests is proved once, here.
\<close>

locale request_handler =
  fixes handle :: "int \<Rightarrow> MSG \<Rightarrow> server \<Rightarrow> server result"
  assumes keeps_wf: "server_wf s \<Longrightarrow> handle fd m s = Inr s' \<Longrightarrow> server_wf s'"
    and logs_grow: "handle fd m s = Inr s' \<Longrightarrow> grows s s'"
begin

lemma requests_keep_wf:
  assumes "rfold (\<lambda>(fd, m). handle fd m) rs s = Inr s'" and "server_wf s"
  shows "server_wf s'"
  by (rule rfold_invariant [OF assms(1), where P = server_wf]) (auto intro: keeps_wf assms(2))

lemma requests_grow:
  assumes "rfold (\<lambda>(fd, m). handle fd m) rs s = Inr s'"
  shows "grows s s'"
  by (rule rfold_invariant [OF assms, where P = "grows s"]) (auto intro: grows_trans logs_grow)

text \<open>Nothing that was sent or queried before is lost or reordered.\<close>

lemma requests_keep_sent:
  assumes "rfold (\<lambda>(fd, m). handle fd m) rs s = Inr s'"
  shows "take (length (sent s)) (sent s') = sent s"
  using requests_grow [OF assms] by (auto simp: grows_iff prefix_def)

end

end
