(* ===== verification/Server_Demo.thy ===== *)
theory Server_Demo
  imports Server_State
begin

text \<open>
  A small concrete server on which the properties of the components are instantiated: two
  users, ann and bob, and a group; a MySQL that never fails.
\<close>

text \<open>A server with two registered users and one waiting request, for concrete instances.\<close>

definition ann :: mysql_user where
  "ann = \<lparr>u_name = ''ann'', u_nickname = ''a'', u_sex = ''f'', u_passworld = ''pw'', u_telephone = ''123''\<rparr>"

definition bob :: mysql_user where
  "bob = \<lparr>u_name = ''bob'', u_nickname = ''b'', u_sex = ''m'', u_passworld = ''qw'', u_telephone = ''456''\<rparr>"

definition demo_server :: server where
  "demo_server = \<lparr>head_user = [ann, bob], head_friends = [], head_user_groups = [],
     head_group_relationship = [], head = [],
     head_request = [\<lparr>q_from_name = ''bob'', q_to_name = ''ann'', q_to_group_name = None, q_type = CHR ''f''\<rparr>],
     connections = 0, queries = [], sent = [], inbox = (\<lambda>_. [])\<rparr>"

definition working_mysql :: mysql_env where
  "working_mysql = \<lparr>init_fails = (\<lambda>_. False), query_fails = (\<lambda>_ _. False)\<rparr>"

definition demo_infor :: "string \<Rightarrow> string \<Rightarrow> yonghu_infor" where
  "demo_infor n p = zero_yonghu\<lparr>name := n, sex := ''f'', password := p, telephone := ''123''\<rparr>"

definition demo_packet :: "int \<Rightarrow> string \<Rightarrow> string \<Rightarrow> MSG" where
  "demo_packet c n p = zero_MSG\<lparr>cmd := c, user_infor := demo_infor n p\<rparr>"

text \<open>Both online; bob has asked ann for a friendship.\<close>

definition chat_server :: server where
  "chat_server = demo_server\<lparr>
     head := [\<lparr>d_name = ''ann'', d_socket = 4\<rparr>, \<lparr>d_name = ''bob'', d_socket = 5\<rparr>],
     head_friends := [\<lparr>f_friendname = ''ann'', f_username = ''bob'', f_type = 1, f_status = 0\<rparr>],
     head_user_groups := [\<lparr>g_name = ''grp'', g_owner = ''ann''\<rparr>],
     head_group_relationship := [\<lparr>r_group_name = ''grp'', r_user_name = ''ann'', r_type = 1\<rparr>,
       \<lparr>r_group_name = ''grp'', r_user_name = ''bob'', r_type = 3\<rparr>],
     head_request := []\<rparr>"

definition chat_packet :: "int \<Rightarrow> string \<Rightarrow> string \<Rightarrow> string \<Rightarrow> MSG" where
  "chat_packet c from to grp = zero_MSG\<lparr>cmd := c, from_name := from, to_name := to,
     to_group_name := grp, news := ''hi''\<rparr>"

lemmas demo_defs = demo_server_def ann_def bob_def demo_packet_def demo_infor_def zero_MSG_def
  zero_yonghu_def working_mysql_def chat_server_def chat_packet_def

lemma working_mysql_works [simp]: "mysql_works working_mysql"
  by (simp add: mysql_works_def working_mysql_def)

lemma demo_server_wf: "server_wf demo_server"
  by (simp add: demo_defs server_wf_defs wf_defs fits_def)

lemma chat_server_wf: "server_wf chat_server"
  by (simp add: demo_defs server_wf_defs wf_defs fits_def friend_key_def in_group_def)

lemma wf_chat_packet:
  "length from < 20 \<Longrightarrow> length to < 20 \<Longrightarrow> length grp < 20 \<Longrightarrow> wf_MSG (chat_packet c from to grp)"
  by (simp add: demo_defs wf_defs fits_def)

end
