(* ===== verification/Server_Account.thy ===== *)
theory Server_Account
  imports Server_Demo
begin

text \<open>
  The account requests of \<open>epoll.c\<close>: registration, login with the delivery of the requests
  that waited for the user, and the recovery of a forgotten password.
\<close>

section \<open>Registration\<close>

definition sql_insert_user :: "mysql_user \<Rightarrow> string" where
  "sql_insert_user u = ''insert into user values(NULL, '' @ quoted (u_name u) @ '','' @
     quoted (u_nickname u) @ '','' @ quoted (u_sex u) @ '','' @ quoted (u_passworld u) @ '','' @
     quoted (u_telephone u) @ '')''"

text \<open>The new node: five \<open>strcpy\<close> from the packet, \<open>u_sex\<close> being an array of two bytes.\<close>

definition reg_node :: "yonghu_infor \<Rightarrow> mysql_user result" where
  "reg_node i =
     rbind (strcpy 20 (name i)) (\<lambda>n.
     rbind (strcpy 20 (nickname i)) (\<lambda>k.
     rbind (strcpy 2 (sex i)) (\<lambda>x.
     rbind (strcpy 20 (password i)) (\<lambda>p.
     rbind (strcpy 30 (telephone i)) (\<lambda>t.
       Inr \<lparr>u_name = n, u_nickname = k, u_sex = x, u_passworld = p, u_telephone = t\<rparr>)))))"

definition reg :: "mysql_env \<Rightarrow> int \<Rightarrow> MSG \<Rightarrow> server \<Rightarrow> server result" where
  "reg env client_fd m s =
     rbind (reg_node (user_infor m)) (\<lambda>user.
       if find_first (is_user (u_name user)) (head_user s) \<noteq> None
       then Inr (reply client_fd m (-1) s)
       else
         (let s1 = s\<lparr>head_user := head_user s @ [user]\<rparr>
          in rbind (run_sql env 0 1024 (sql_insert_user user) s1) (\<lambda>s2.
               Inr (reply client_fd m 1001 s2))))"

section \<open>Login\<close>

text \<open>
  The packet a waiting request is delivered in: only some of the fields are written, the
  others keep what the login packet had. A field that the node never received is
  indeterminate. Other types send nothing.
\<close>

definition offline_message :: "request_node \<Rightarrow> MSG \<Rightarrow> MSG option result" where
  "offline_message q m =
     (let g = (case q_to_group_name q of None \<Rightarrow> Inl Uninit_Read | Some g \<Rightarrow> Inr g);
          both = m\<lparr>from_name := q_from_name q, to_name := q_to_name q\<rparr>
      in if q_type q = CHR ''f'' then Inr (Some (both\<lparr>cmd := 14\<rparr>))
         else if q_type q = CHR ''y'' then Inr (Some (both\<lparr>cmd := 311\<rparr>))
         else if q_type q = CHR ''n'' then Inr (Some (both\<lparr>cmd := 312\<rparr>))
         else if q_type q = CHR ''g'' then Inr (Some (both\<lparr>cmd := 23\<rparr>))
         else if q_type q = CHR ''o'' then
           rbind g (\<lambda>gn. Inr (Some (m\<lparr>from_name := q_from_name q, to_group_name := gn, cmd := 321\<rparr>)))
         else if q_type q = CHR ''x'' then
           rbind g (\<lambda>gn. Inr (Some (both\<lparr>to_group_name := gn, cmd := 322\<rparr>)))
         else if q_type q = CHR ''q'' then
           rbind g (\<lambda>gn. Inr (Some (both\<lparr>to_group_name := gn, cmd := 24\<rparr>)))
         else Inr None)"

text \<open>The loop over \<open>head_request\<close>: one packet, changed in place, serves every delivery.\<close>

fun send_offline :: "int \<Rightarrow> request_node list \<Rightarrow> MSG \<Rightarrow> server \<Rightarrow> server result" where
  "send_offline fd [] m s = Inr s"
| "send_offline fd (q # qs) m s =
     (if q_to_name q = name (user_infor m)
      then rbind (offline_message q m) (\<lambda>r.
             case r of None \<Rightarrow> send_offline fd qs m s
                     | Some m' \<Rightarrow> send_offline fd qs m' (send fd m' s))
      else send_offline fd qs m s)"

definition credentials :: "yonghu_infor \<Rightarrow> mysql_user \<Rightarrow> bool" where
  "credentials i u \<longleftrightarrow> u_name u = name i \<and> u_passworld u = password i"

definition login :: "mysql_env \<Rightarrow> int \<Rightarrow> MSG \<Rightarrow> server \<Rightarrow> server result" where
  "login env client_fd m s =
     (case find_first (credentials (user_infor m)) (head_user s) of
        None \<Rightarrow> Inr (reply client_fd m (-2) s)
      | Some _ \<Rightarrow>
          rbind (strcpy 20 (name (user_infor m))) (\<lambda>n.
            let m1 = m\<lparr>cmd := 1002\<rparr>;
                s1 = s\<lparr>head := head s @ [\<lparr>d_name = n, d_socket = client_fd\<rparr>]\<rparr>;
                s2 = send client_fd m1 s1
            in send_offline client_fd (head_request s2) m1 s2))"

section \<open>Forgotten passwords\<close>

definition forget_password :: "mysql_env \<Rightarrow> int \<Rightarrow> MSG \<Rightarrow> server \<Rightarrow> server result" where
  "forget_password env conn_fd m s =
     (let i = user_infor m
      in if find_first (is_user (name i)) (head_user s) = None
         then Inr (reply conn_fd m 1 s)
         else
           (case find_first (\<lambda>u. u_name u = name i \<and> u_telephone u = telephone i) (head_user s) of
              None \<Rightarrow> Inr (reply conn_fd m 2 s)
            | Some current \<Rightarrow>
                rbind (strcpy 20 (u_telephone current)) (\<lambda>p.
                  Inr (send conn_fd (m\<lparr>cmd := 3, user_infor := i\<lparr>password := p\<rparr>\<rparr>) s))))"

section \<open>The handlers meet their contract\<close>

lemma reg_node_eq_Inr [result_simps]:
  "reg_node i = Inr u \<longleftrightarrow>
     fits 20 (name i) \<and> fits 20 (nickname i) \<and> fits 2 (sex i) \<and> fits 20 (password i)
     \<and> fits 30 (telephone i)
     \<and> u = \<lparr>u_name = name i, u_nickname = nickname i, u_sex = sex i, u_passworld = password i,
           u_telephone = telephone i\<rparr>"
  by (auto simp: reg_node_def result_simps)

lemma sql_insert_user_fits: "wf_user u \<Longrightarrow> fits 1024 (sql_insert_user u)"
  by (auto simp: sql_insert_user_def wf_user_def fits_def)

interpretation reg_handler: request_handler "reg env" for env
proof unfold_locales
  fix s fd m s'
  assume "server_wf s" and "reg env fd m s = Inr s'"
  then show "server_wf s'"
    by (auto simp: reg_def result_simps list_ops wf_user_def server_wf_def reply_def Let_def
        intro!: wf_intros split: if_splits)
next
  fix s fd m s'
  assume "reg env fd m s = Inr s'"
  then show "grows s s'"
    by (auto simp: reg_def result_simps grows_iff reply_def Let_def split: if_splits)
qed

lemma send_offline_frame:
  "send_offline fd qs m s = Inr s' \<Longrightarrow> \<exists>ms. s' = s\<lparr>sent := sent s @ ms\<rparr>"
proof (induction fd qs m s rule: send_offline.induct)
  case (1 fd m s)
  then show ?case by (auto intro!: exI [of _ "[]"])
next
  case (2 fd q qs m s)
  then show ?case
    by (fastforce simp: result_simps send_def split: if_splits option.splits)
qed

interpretation login_handler: request_handler "login env" for env
proof unfold_locales
  fix s fd m s'
  assume "server_wf s" and "login env fd m s = Inr s'"
  then show "server_wf s'"
    by (auto simp: login_def result_simps Let_def wf_date_def send_def server_wf_def reply_def
        intro!: wf_intros dest!: send_offline_frame split: option.splits)
next
  fix s fd m s'
  assume "login env fd m s = Inr s'"
  then show "grows s s'"
    by (auto simp: login_def result_simps Let_def grows_iff reply_def
        dest!: send_offline_frame split: option.splits)
qed

interpretation forget_handler: request_handler "forget_password env" for env
proof unfold_locales
  fix s fd m s'
  assume "server_wf s" and "forget_password env fd m s = Inr s'"
  then show "server_wf s'"
    by (auto simp: forget_password_def result_simps Let_def split: if_splits option.splits)
next
  fix s fd m s'
  assume "forget_password env fd m s = Inr s'"
  then show "grows s s'"
    by (auto simp: forget_password_def result_simps Let_def grows_iff reply_def
        split: if_splits option.splits)
qed

section \<open>Properties of registration and login\<close>

lemma credentials_fit:
  assumes "server_wf s" and "find_first (credentials i) (head_user s) = Some u"
  shows "fits 20 (name i)"
  using assms find_first_Some [OF assms(2)]
  by (auto simp: server_wf_defs wf_user_def credentials_def)

text \<open>
  Every outcome of a registration whose packet is well formed. A \<open>sex\<close> of more than one byte
  overruns the two bytes of \<open>u_sex\<close>; a taken name is refused with -1 and nothing changes; a new
  name is stored, inserted into the table with a query that fits its buffer, and confirmed
  with 1001; when MySQL refuses the query the server exits.
\<close>

theorem reg_outcome:
  assumes "wf_yonghu (user_infor m)"
  shows "reg env fd m s =
    (let i = user_infor m;
         u = \<lparr>u_name = name i, u_nickname = nickname i, u_sex = sex i, u_passworld = password i,
              u_telephone = telephone i\<rparr>
     in if \<not> fits 2 (sex i) then Inl Buffer_Overflow
        else if \<exists>v \<in> set (head_user s). u_name v = name i
        then Inr (s\<lparr>sent := sent s @ [(fd, Packet (m\<lparr>cmd := -1\<rparr>))]\<rparr>)
        else if query_fails env (queries s) (0, sql_insert_user u) then Inl (Exit 1)
        else Inr (s\<lparr>head_user := head_user s @ [u], queries := queries s @ [(0, sql_insert_user u)],
                    sent := sent s @ [(fd, Packet (m\<lparr>cmd := 1001\<rparr>))]\<rparr>))"
proof -
  let ?u = "\<lparr>u_name = name (user_infor m), u_nickname = nickname (user_infor m),
    u_sex = sex (user_infor m), u_passworld = password (user_infor m),
    u_telephone = telephone (user_infor m)\<rparr>"
  show ?thesis
  proof (cases "fits 2 (sex (user_infor m))")
    case False
    then show ?thesis using assms
      by (simp add: reg_def reg_node_def wf_yonghu_def strcpy_def)
  next
    case True
    then have node: "reg_node (user_infor m) = Inr ?u" "wf_user ?u"
      using assms by (auto simp: reg_node_def wf_yonghu_def wf_user_def)
    note fit = sql_insert_user_fits [OF node(2)]
    have taken: "find_first (is_user (name (user_infor m))) (head_user s) = None
        \<longleftrightarrow> \<not> (\<exists>v \<in> set (head_user s). u_name v = name (user_infor m))"
      by (auto simp: find_first_None is_user_def)
    show ?thesis
    proof (cases "\<exists>v \<in> set (head_user s). u_name v = name (user_infor m)")
      case old: True
      with True node(1) taken show ?thesis by (simp add: reg_def reply_def send_def Let_def)
    next
      case new: False
      with True node(1) taken fit show ?thesis
        by (simp add: reg_def reply_def send_def Let_def run_sql_def query_or_exit_def
            mysql_real_query_def)
    qed
  qed
qed

theorem reg_outcome_witness:
  "reg working_mysql 5 (demo_packet 1 ''ann'' ''x'') demo_server
   = Inr (demo_server\<lparr>sent := [(5, Packet (demo_packet (-1) ''ann'' ''x''))]\<rparr>)"
  using reg_outcome [of "demo_packet 1 ''ann'' ''x''" working_mysql 5 demo_server]
  by (simp add: demo_defs wf_defs fits_def)

text \<open>
  Who has just been registered can log in with the same name and password: the login finds
  the new user, answers 1002 and lists the connection as online before anything else is sent.
\<close>

theorem reg_then_login:
  assumes "reg env fd m s = Inr s1" and "\<forall>v \<in> set (head_user s). u_name v \<noteq> name (user_infor m)"
    and "name (user_infor m') = name (user_infor m)"
    and "password (user_infor m') = password (user_infor m)"
  shows "login env fd' m' s1 = send_offline fd' (head_request s) (m'\<lparr>cmd := 1002\<rparr>)
    (s1\<lparr>head := head s @ [\<lparr>d_name = name (user_infor m), d_socket = fd'\<rparr>],
        sent := sent s1 @ [(fd', Packet (m'\<lparr>cmd := 1002\<rparr>))]\<rparr>)"
proof -
  have "find_first (credentials (user_infor m')) (head_user s1) \<noteq> None"
    using assms by (auto simp: reg_def result_simps list_ops Let_def reply_def find_first_not_None
        credentials_def split: if_splits)
  moreover have "fits 20 (name (user_infor m))" "head s1 = head s" "head_request s1 = head_request s"
    using assms by (auto simp: reg_def result_simps list_ops Let_def reply_def split: if_splits)
  ultimately show ?thesis using assms(3)
    by (auto simp: login_def Let_def send_def)
qed

theorem reg_then_login_witness:
  "\<exists>s1. reg working_mysql 5 (demo_packet 1 ''eve'' ''x'') demo_server = Inr s1
    \<and> login working_mysql 6 (demo_packet 2 ''eve'' ''x'') s1
      = Inr (s1\<lparr>head := [\<lparr>d_name = ''eve'', d_socket = 6\<rparr>],
          sent := sent s1 @ [(6, Packet (demo_packet 1002 ''eve'' ''x''))]\<rparr>)"
proof -
  obtain s1 where s1: "reg working_mysql 5 (demo_packet 1 ''eve'' ''x'') demo_server = Inr s1"
    by (simp add: demo_defs reg_def reg_node_def fits_def is_user_def Let_def run_sql_def
        sprintf_def sql_insert_user_def quoted_def query_or_exit_def mysql_real_query_def)
  from reg_then_login [OF s1, of "demo_packet 2 ''eve'' ''x''" 6] s1
  show ?thesis by (simp add: demo_defs)
qed

section \<open>Properties of the delivery at login\<close>

text \<open>The command a waiting request is delivered with.\<close>

definition offline_cmd :: "char \<Rightarrow> int option" where
  "offline_cmd ty =
     map_of [(CHR ''f'', 14), (CHR ''y'', 311), (CHR ''n'', 312), (CHR ''g'', 23),
             (CHR ''o'', 321), (CHR ''x'', 322), (CHR ''q'', 24)] ty"

text \<open>The handlers that queue a request of these types also store the group.\<close>

definition has_its_group :: "request_node \<Rightarrow> bool" where
  "has_its_group q \<longleftrightarrow> (q_type q \<in> {CHR ''o'', CHR ''x'', CHR ''q''} \<longrightarrow> q_to_group_name q \<noteq> None)"

definition waiting_for :: "string \<Rightarrow> request_node list \<Rightarrow> request_node list" where
  "waiting_for n qs = filter (\<lambda>q. q_to_name q = n \<and> offline_cmd (q_type q) \<noteq> None) qs"

lemma offline_message_cases:
  assumes "has_its_group q"
  shows "case offline_cmd (q_type q) of
      None \<Rightarrow> offline_message q m = Inr None
    | Some c \<Rightarrow> \<exists>m'. offline_message q m = Inr (Some m') \<and> from_name m' = q_from_name q
        \<and> cmd m' = c \<and> user_infor m' = user_infor m"
  using assms by (auto simp: offline_cmd_def offline_message_def has_its_group_def Let_def)

lemma send_offline_waiting:
  assumes "\<forall>q \<in> set qs. has_its_group q" and "name (user_infor m) = n"
  shows "\<exists>ms. send_offline fd qs m s = Inr (s\<lparr>sent := sent s @ map (\<lambda>p. (fd, Packet p)) ms\<rparr>)
    \<and> map (\<lambda>p. (from_name p, Some (cmd p))) ms
      = map (\<lambda>q. (q_from_name q, offline_cmd (q_type q))) (waiting_for n qs)"
  using assms
proof (induction qs arbitrary: m s)
  case Nil
  then show ?case by (simp add: waiting_for_def)
next
  case (Cons q qs)
  have cases: "case offline_cmd (q_type q) of
      None \<Rightarrow> offline_message q m = Inr None
    | Some c \<Rightarrow> \<exists>m'. offline_message q m = Inr (Some m') \<and> from_name m' = q_from_name q
        \<and> cmd m' = c \<and> user_infor m' = user_infor m"
    using Cons.prems(1) by (intro offline_message_cases) simp
  show ?case
  proof (cases "q_to_name q = n \<and> offline_cmd (q_type q) \<noteq> None")
    case False
    then have "send_offline fd (q # qs) m s = send_offline fd qs m s"
      using cases Cons.prems by auto
    moreover have "waiting_for n (q # qs) = waiting_for n qs" using False by (simp add: waiting_for_def)
    ultimately show ?thesis using Cons by simp
  next
    case True
    then obtain m' where m': "offline_message q m = Inr (Some m')" "from_name m' = q_from_name q"
      "Some (cmd m') = offline_cmd (q_type q)" "user_infor m' = user_infor m"
      using cases by auto
    from Cons.IH [of m' "send fd m' s"] Cons.prems m'(4) obtain ms where
      "send_offline fd qs m' (send fd m' s)
        = Inr ((send fd m' s)\<lparr>sent := sent (send fd m' s) @ map (\<lambda>p. (fd, Packet p)) ms\<rparr>)"
      "map (\<lambda>p. (from_name p, Some (cmd p))) ms
        = map (\<lambda>q. (q_from_name q, offline_cmd (q_type q))) (waiting_for n qs)" by auto
    then show ?thesis using True m' Cons.prems(2)
      by (auto simp: send_def waiting_for_def intro!: exI [of _ "m' # ms"])
  qed
qed

lemma login_sends_waiting:
  assumes "server_wf s" and "\<forall>q \<in> set (head_request s). has_its_group q"
    and "find_first (credentials (user_infor m)) (head_user s) \<noteq> None"
  shows "\<exists>ms. login env fd m s = Inr (s\<lparr>
      head := head s @ [\<lparr>d_name = name (user_infor m), d_socket = fd\<rparr>],
      sent := sent s @ (fd, Packet (m\<lparr>cmd := 1002\<rparr>)) # map (\<lambda>p. (fd, Packet p)) ms\<rparr>)
    \<and> map (\<lambda>p. (from_name p, Some (cmd p))) ms
      = map (\<lambda>q. (q_from_name q, offline_cmd (q_type q)))
          (waiting_for (name (user_infor m)) (head_request s))"
proof -
  obtain u where u: "find_first (credentials (user_infor m)) (head_user s) = Some u"
    using assms(3) by blast
  let ?s = "send fd (m\<lparr>cmd := 1002\<rparr>)
    (s\<lparr>head := head s @ [\<lparr>d_name = name (user_infor m), d_socket = fd\<rparr>]\<rparr>)"
  from send_offline_waiting [OF assms(2), of "m\<lparr>cmd := 1002\<rparr>" "name (user_infor m)" fd ?s]
  obtain ms where "send_offline fd (head_request s) (m\<lparr>cmd := 1002\<rparr>) ?s
      = Inr (?s\<lparr>sent := sent ?s @ map (\<lambda>p. (fd, Packet p)) ms\<rparr>)"
    "map (\<lambda>p. (from_name p, Some (cmd p))) ms = map (\<lambda>q. (q_from_name q, offline_cmd (q_type q)))
       (waiting_for (name (user_infor m)) (head_request s))" by auto
  then show ?thesis using u credentials_fit [OF assms(1) u]
    by (auto simp: login_def Let_def send_def)
qed

text \<open>
  C6: A login with the right name and password delivers, after the answer 1002, every request
  that waits under this name, in the order in which they were queued and each with its
  sender and command, and nothing else. The queue itself stays as it is: the next login of the
  same user delivers all of them again.
\<close>

theorem login_delivers_waiting:
  assumes "server_wf s" and "\<forall>q \<in> set (head_request s). has_its_group q"
    and "\<exists>u \<in> set (head_user s). u_name u = name (user_infor m) \<and> u_passworld u = password (user_infor m)"
  shows "\<exists>s' ms. login env fd m s = Inr s' \<and> head_request s' = head_request s
    \<and> sent s' = sent s @ (fd, Packet (m\<lparr>cmd := 1002\<rparr>)) # map (\<lambda>p. (fd, Packet p)) ms
    \<and> map (\<lambda>p. (from_name p, Some (cmd p))) ms
      = map (\<lambda>q. (q_from_name q, offline_cmd (q_type q)))
          (waiting_for (name (user_infor m)) (head_request s))"
proof -
  from assms(3) have "find_first (credentials (user_infor m)) (head_user s) \<noteq> None"
    unfolding find_first_not_None by (simp add: credentials_def)
  from login_sends_waiting [OF assms(1,2) this, of env fd] show ?thesis by fastforce
qed

theorem login_delivers_waiting_witness:
  "\<exists>s' m1. login working_mysql 4 (demo_packet 2 ''ann'' ''pw'') demo_server = Inr s'
    \<and> head_request s' = head_request demo_server \<and> from_name m1 = ''bob'' \<and> cmd m1 = 14
    \<and> sent s' = [(4, Packet (demo_packet 1002 ''ann'' ''pw'')), (4, Packet m1)]"
proof -
  let ?m = "demo_packet 2 ''ann'' ''pw''"
  let ?q = "\<lparr>q_from_name = ''bob'', q_to_name = ''ann'', q_to_group_name = None, q_type = CHR ''f''\<rparr>"
  have reqs: "head_request demo_server = [?q]" "sent demo_server = []"
    by (simp_all add: demo_server_def)
  have A: "\<forall>q \<in> set (head_request demo_server). has_its_group q"
    by (simp add: reqs has_its_group_def)
  have B: "\<exists>u \<in> set (head_user demo_server).
      u_name u = name (user_infor ?m) \<and> u_passworld u = password (user_infor ?m)"
    by (simp add: demo_defs)
  have C: "map (\<lambda>q. (q_from_name q, offline_cmd (q_type q)))
      (waiting_for (name (user_infor ?m)) (head_request demo_server)) = [(''bob'', Some 14)]"
    by (simp add: reqs waiting_for_def offline_cmd_def demo_packet_def demo_infor_def)
  obtain s' ms where *: "login working_mysql 4 ?m demo_server = Inr s'"
    "head_request s' = head_request demo_server"
    "sent s' = (4, Packet (?m\<lparr>cmd := 1002\<rparr>)) # map (\<lambda>p. (4, Packet p)) ms"
    "map (\<lambda>p. (from_name p, Some (cmd p))) ms = [(''bob'', Some 14)]"
    using login_delivers_waiting [OF demo_server_wf A B, of working_mysql 4,
      unfolded C reqs(2) append_Nil] by (elim exE conjE) (rule that; assumption)
  from *(4) obtain m1 where "ms = [m1]" by (cases ms) auto
  with * show ?thesis by (auto simp: demo_packet_def)
qed

text \<open>
  Without matching credentials a login changes nothing and is answered with -2.
\<close>

theorem login_refused:
  assumes "\<forall>u \<in> set (head_user s). u_name u \<noteq> name (user_infor m) \<or> u_passworld u \<noteq> password (user_infor m)"
  shows "login env fd m s = Inr (s\<lparr>sent := sent s @ [(fd, Packet (m\<lparr>cmd := -2\<rparr>))]\<rparr>)"
proof -
  from assms have "find_first (credentials (user_infor m)) (head_user s) = None"
    by (auto simp: find_first_None credentials_def)
  then show ?thesis by (simp add: login_def reply_def send_def)
qed

theorem login_refused_witness:
  "login working_mysql 4 (demo_packet 2 ''ann'' ''no'') demo_server
   = Inr (demo_server\<lparr>sent := [(4, Packet (demo_packet (-2) ''ann'' ''no''))]\<rparr>)"
  using login_refused [of demo_server "demo_packet 2 ''ann'' ''no''" working_mysql 4]
  by (simp add: demo_defs)

text \<open>
  The recovery of a password answers with the telephone number in the password field, never
  with the password: in a well-formed server, the right name and number are answered with 3 and
  the number itself, and a number of 20 bytes or more overruns the field.
\<close>

theorem forget_password_sends_telephone:
  assumes "server_wf s" and "u \<in> set (head_user s)" and "u_name u = name (user_infor m)"
    and "u_telephone u = telephone (user_infor m)"
  shows "forget_password env fd m s =
    (if fits 20 (u_telephone u)
     then Inr (s\<lparr>sent := sent s @ [(fd, Packet (m\<lparr>cmd := 3,
            user_infor := (user_infor m)\<lparr>password := u_telephone u\<rparr>\<rparr>))]\<rparr>)
     else Inl Buffer_Overflow)"
proof -
  let ?p = "\<lambda>v. u_name v = name (user_infor m) \<and> u_telephone v = telephone (user_infor m)"
  have "find_first (is_user (name (user_infor m))) (head_user s) \<noteq> None"
    unfolding find_first_not_None is_user_def using assms(2,3) by blast
  moreover have "find_first ?p (head_user s) = Some u"
    by (rule find_first_unique [where k = u_name]) (use assms in \<open>auto simp: server_wf_defs\<close>)
  ultimately show ?thesis by (auto simp: forget_password_def Let_def send_def strcpy_def)
qed

theorem forget_password_sends_telephone_witness:
  "forget_password working_mysql 4 (demo_packet 0 ''ann'' []) demo_server
   = Inr (demo_server\<lparr>sent := [(4, Packet (demo_packet 3 ''ann'' ''123''))]\<rparr>)"
  using forget_password_sends_telephone [OF demo_server_wf, of ann "demo_packet 0 ''ann'' []"
      working_mysql 4] by (simp add: demo_defs fits_def)

end
