(* ===== verification/Server_Friend.thy ===== *)
theory Server_Friend
  imports Server_Demo
begin

text \<open>
  The friendship requests of \<open>epoll.c\<close>: listing friends, private chat, asking for, granting,
  refusing and ending a friendship. A row \<open>(f, u)\<close> of \<open>head_friends\<close> says that \<open>u\<close> has \<open>f\<close>
  as a friend; its status is 0 while a request is pending or after the other side ended it.
\<close>

section \<open>Query texts\<close>

definition sql_insert_friend :: "string \<Rightarrow> string \<Rightarrow> string \<Rightarrow> string" where
  "sql_insert_friend f u tail =
     ''insert into friend values(NULL,'' @ quoted f @ '','' @ quoted u @ tail"

definition sql_friend_where :: "string \<Rightarrow> string \<Rightarrow> string" where
  "sql_friend_where f u = '' where f_friendname = '' @ quoted f @ '' and f_username = '' @ quoted u"

definition sql_delete_friend :: "string \<Rightarrow> string \<Rightarrow> string" where
  "sql_delete_friend f u = ''delete from friend'' @ sql_friend_where f u"

definition sql_friend_status :: "string \<Rightarrow> string \<Rightarrow> string \<Rightarrow> string" where
  "sql_friend_status st f u = ''update friend set status = '' @ st @ sql_friend_where f u"

definition sql_chat_record :: "MSG \<Rightarrow> string \<Rightarrow> string" where
  "sql_chat_record m status = ''insert into chat_record values(NULL,'' @ quoted (news m) @ '','' @
     quoted (to_name m) @ '','' @ quoted (from_name m) @ '','' @ status @ '','' @
     quoted (time_str m) @ '')''"

section \<open>Listing friends\<close>

definition my_friend_row :: "MSG \<Rightarrow> mysql_friend \<Rightarrow> bool" where
  "my_friend_row m r \<longleftrightarrow> f_username r = name (user_infor m) \<and> f_status r = 1"

text \<open>The loop that sends one packet per friend; \<open>friend_name\<close> is overwritten each time.\<close>

fun send_friends :: "int \<Rightarrow> mysql_friend list \<Rightarrow> MSG \<Rightarrow> server \<Rightarrow> server" where
  "send_friends fd [] m s = s"
| "send_friends fd (r # rs) m s =
     (if my_friend_row m r
      then (let m' = m\<lparr>friend_name := f_friendname r\<rparr> in send_friends fd rs m' (send fd m' s))
      else send_friends fd rs m s)"

definition all_friends :: "mysql_env \<Rightarrow> int \<Rightarrow> MSG \<Rightarrow> server \<Rightarrow> server result" where
  "all_friends env client_fd m s =
     (if find_first (my_friend_row m) (head_friends s) = None
      then Inr (reply client_fd m 111 s)
      else Inr (send_friends client_fd (head_friends s) m s))"

text \<open>
  The second loop of \<open>online_friend\<close> runs over a copy of the caller's friends. \<open>flag\<close> is
  reset for every friend, so after the loop it speaks of the last one only.
\<close>

fun send_online :: "int \<Rightarrow> mysql_friend list \<Rightarrow> bool \<Rightarrow> MSG \<Rightarrow> server \<Rightarrow> bool \<times> MSG \<times> server" where
  "send_online fd [] flag m s = (flag, m, s)"
| "send_online fd (r # rs) flag m s =
     (if my_friend_row m r \<and> find_online (f_friendname r) s \<noteq> None
      then (let m' = m\<lparr>friend_name := f_friendname r\<rparr>
            in send_online fd rs True m' (send fd m' s))
      else send_online fd rs False m s)"

definition online_friend :: "mysql_env \<Rightarrow> int \<Rightarrow> MSG \<Rightarrow> server \<Rightarrow> server result" where
  "online_friend env client_fd m s =
     (if find_first (my_friend_row m) (head_friends s) = None
      then Inr (reply client_fd m 121 s)
      else
        (case send_online client_fd (filter (my_friend_row m) (head_friends s)) True m s of
           (flag, m', s') \<Rightarrow> Inr (if flag then s' else reply client_fd m' 122 s')))"

section \<open>Private chat\<close>

definition private_chat :: "mysql_env \<Rightarrow> int \<Rightarrow> MSG \<Rightarrow> server \<Rightarrow> server result" where
  "private_chat env conn_fd m s =
     rbind (connect_mysql env s) (\<lambda>(h, s1).
       if find_first (is_friend (to_name m) (from_name m)) (head_friends s1) = None
       then Inr (reply conn_fd m 130 s1)
       else if find_first (is_friend (from_name m) (to_name m)) (head_friends s1) = None
       then Inr (reply conn_fd m 131 s1)
       else
         (case find_online (to_name m) s1 of
            None \<Rightarrow> run_sql env h 4096 (sql_chat_record m ''0'') s1
          | Some d \<Rightarrow>
              rbind (run_sql env h 4096 (sql_chat_record m ''1'') s1) (\<lambda>s2.
                Inr (send (d_socket d) m s2))))"

section \<open>Asking for a friendship\<close>

text \<open>The part of \<open>add_friend\<close> after the checks: a new row, then the request itself.\<close>

definition add_friend_row :: "mysql_env \<Rightarrow> MSG \<Rightarrow> server \<Rightarrow> server result" where
  "add_friend_row env m s =
     rbind (run_sql env 0 1024 (sql_insert_friend (to_name m) (from_name m) '', 1, 0)'') s) (\<lambda>s1.
     rbind (new_friend (to_name m) (from_name m) 1 0) (\<lambda>r.
       let s2 = s1\<lparr>head_friends := head_friends s1 @ [r]\<rparr>
       in case find_online (to_name m) s2 of
            None \<Rightarrow> queue_request (from_name m) (to_name m) None (CHR ''f'') s2
          | Some d \<Rightarrow> Inr (send (d_socket d) m s2)))"

definition add_friend :: "mysql_env \<Rightarrow> int \<Rightarrow> MSG \<Rightarrow> server \<Rightarrow> server result" where
  "add_friend env conn_fd m s =
     (if to_name m = from_name m then Inr (reply conn_fd m 149 s)
      else if find_first (is_user (to_name m)) (head_user s) = None
      then Inr (reply conn_fd m 141 s)
      else
        (case find_first (is_friend (to_name m) (from_name m)) (head_friends s) of
           None \<Rightarrow> add_friend_row env m s
         | Some r \<Rightarrow>
             if f_status r = 1 then Inr (reply conn_fd m 140 s)
             else if f_status r = 0 then
               (case find_online (to_name m) s of
                  None \<Rightarrow> Inl Null_Deref
                | Some d \<Rightarrow> Inr (send (d_socket d) m s))
             else add_friend_row env m s))"

section \<open>Ending a friendship\<close>

definition delete_friend :: "mysql_env \<Rightarrow> int \<Rightarrow> MSG \<Rightarrow> server \<Rightarrow> server result" where
  "delete_friend env conn_fd m s =
     (case find_first (is_friend (to_name m) (from_name m)) (head_friends s) of
        None \<Rightarrow> Inr (reply conn_fd m 150 s)
      | Some r \<Rightarrow>
          rbind (run_sql env 0 1024 (sql_delete_friend (to_name m) (from_name m)) s) (\<lambda>s1.
            let s2 = s1\<lparr>head_friends :=
                  remove_first (is_friend (to_name m) (from_name m)) (head_friends s1)\<rparr>
            in if f_status r = 0 then Inr (send conn_fd m s2)
               else
                 rbind (run_sql env 0 1024
                     (sql_friend_status ''0'' (from_name m) (to_name m)) s2) (\<lambda>s3.
                   if find_first (is_friend (from_name m) (to_name m)) (head_friends s3) = None
                   then Inl Null_Deref
                   else
                     Inr (send conn_fd m (s3\<lparr>head_friends :=
                       update_first (is_friend (from_name m) (to_name m))
                         (f_status_update (\<lambda>_. 0)) (head_friends s3)\<rparr>)))))"

section \<open>Answering a request\<close>

text \<open>
  The accepting side's own row \<open>(from_name, to_name)\<close>: inserted with status 1, or set to 1.
\<close>

definition accept_row :: "mysql_env \<Rightarrow> MSG \<Rightarrow> server \<Rightarrow> server result" where
  "accept_row env m s =
     (if find_first (is_friend (from_name m) (to_name m)) (head_friends s) = None
      then
        rbind (run_sql env 0 200 (sql_insert_friend (from_name m) (to_name m) '',1,1)'') s) (\<lambda>s1.
        rbind (new_friend (from_name m) (to_name m) 1 1) (\<lambda>r.
          Inr (s1\<lparr>head_friends := head_friends s1 @ [r]\<rparr>)))
      else
        rbind (run_sql env 0 200 (sql_friend_status ''1'' (from_name m) (to_name m)) s) (\<lambda>s1.
          Inr (s1\<lparr>head_friends := update_first (is_friend (from_name m) (to_name m))
                 (f_status_update (\<lambda>_. 1)) (head_friends s1)\<rparr>)))"

definition deal_friend_request_y :: "mysql_env \<Rightarrow> int \<Rightarrow> MSG \<Rightarrow> server \<Rightarrow> server result" where
  "deal_friend_request_y env conn_fd m s =
     rbind (accept_row env m s) (\<lambda>s1.
     rbind (run_sql env 0 200 (sql_friend_status ''1'' (to_name m) (from_name m)) s1) (\<lambda>s2.
       if find_first (is_friend (to_name m) (from_name m)) (head_friends s2) = None
       then Inl Null_Deref
       else
         (let s3 = s2\<lparr>head_friends := update_first (is_friend (to_name m) (from_name m))
                        (f_status_update (\<lambda>_. 1)) (head_friends s2)\<rparr>
          in case find_online (from_name m) s3 of
               None \<Rightarrow> queue_request (from_name m) (to_name m) None (CHR ''y'') s3
             | Some d \<Rightarrow> Inr (send (d_socket d) m s3))))"

definition deal_friend_request_n :: "mysql_env \<Rightarrow> int \<Rightarrow> MSG \<Rightarrow> server \<Rightarrow> server result" where
  "deal_friend_request_n env conn_fd m s =
     rbind (run_sql env 0 200 (sql_delete_friend (to_name m) (from_name m)) s) (\<lambda>s1.
       let s2 = s1\<lparr>head_friends :=
                     remove_first (is_friend (to_name m) (from_name m)) (head_friends s1)\<rparr>
       in case find_online (from_name m) s2 of
            None \<Rightarrow> queue_request (from_name m) (to_name m) None (CHR ''n'') s2
          | Some d \<Rightarrow> Inr (send (d_socket d) m s2))"

section \<open>The handlers meet their contract\<close>

lemma send_friends_eq:
  "send_friends fd rs m s = s\<lparr>sent := sent s @ map (\<lambda>r. (fd, Packet (m\<lparr>friend_name := f_friendname r\<rparr>)))
     (filter (my_friend_row m) rs)\<rparr>"
proof (induction fd rs m s rule: send_friends.induct)
  case (1 fd m s)
  then show ?case by simp
next
  case (2 fd r rs m s)
  have "my_friend_row (m\<lparr>friend_name := x\<rparr>) = my_friend_row m" for x
    by (auto simp: my_friend_row_def fun_eq_iff)
  with 2 show ?case by (simp add: Let_def send_def)
qed

lemma send_online_frame:
  "send_online fd rs flag m s = (flag', m', s') \<Longrightarrow> \<exists>ps. s' = s\<lparr>sent := sent s @ ps\<rparr>"
proof (induction fd rs flag m s rule: send_online.induct)
  case (1 fd flag m s)
  then show ?case by (auto intro!: exI [of _ "[]"])
next
  case (2 fd r rs flag m s)
  then show ?case by (fastforce simp: send_def Let_def split: if_splits)
qed

interpretation all_friends_handler: request_handler "all_friends env" for env
proof unfold_locales
  fix s fd m s'
  assume "all_friends env fd m s = Inr s'"
  then show "server_wf s \<Longrightarrow> server_wf s'" and "grows s s'"
    by (auto simp: all_friends_def send_friends_eq grows_iff reply_def split: if_splits)
qed

interpretation online_friend_handler: request_handler "online_friend env" for env
proof unfold_locales
  fix s fd m s'
  assume "online_friend env fd m s = Inr s'"
  then show "server_wf s \<Longrightarrow> server_wf s'" and "grows s s'"
    by (auto simp: online_friend_def grows_iff reply_def dest!: send_online_frame
        split: if_splits prod.splits)
qed

interpretation private_chat_handler: request_handler "private_chat env" for env
proof unfold_locales
  fix s fd m s'
  assume "private_chat env fd m s = Inr s'"
  then show "server_wf s \<Longrightarrow> server_wf s'" and "grows s s'"
    by (auto simp: private_chat_def result_simps grows_iff reply_def
        split: if_splits option.splits)
qed

lemma no_such_friend:
  "find_first (is_friend f u) fs = None \<longleftrightarrow> (\<forall>r \<in> set fs. friend_key r \<noteq> (f, u))"
  by (auto simp: find_first_None is_friend_def friend_key_def)

lemma friend_status_0_or_1:
  "server_wf s \<Longrightarrow> find_first P (head_friends s) = Some r \<Longrightarrow> f_status r \<noteq> 1 \<Longrightarrow> f_status r = 0"
  by (auto simp: server_wf_defs dest: find_first_Some)

lemma add_friend_row_ok:
  assumes "add_friend_row env m s = Inr s'"
  shows "server_wf s \<Longrightarrow> find_first (is_friend (to_name m) (from_name m)) (head_friends s) = None
         \<Longrightarrow> server_wf s'" and "grows s s'"
  using assms
  by (auto simp: add_friend_row_def result_simps Let_def grows_iff no_such_friend wf_friend_def
      friend_key_def wf_request_def server_wf_def intro!: wf_intros split: option.splits)

interpretation add_friend_handler: request_handler "add_friend env" for env
proof unfold_locales
  fix s fd m s'
  assume "add_friend env fd m s = Inr s'"
  then show "server_wf s \<Longrightarrow> server_wf s'" and "grows s s'"
    using add_friend_row_ok [of env m s s'] friend_status_0_or_1 [of s]
    by (auto simp: add_friend_def grows_send grows_reply split: if_splits option.splits)
qed

interpretation delete_friend_handler: request_handler "delete_friend env" for env
proof unfold_locales
  fix s fd m s'
  assume "delete_friend env fd m s = Inr s'"
  then show "server_wf s \<Longrightarrow> server_wf s'" and "grows s s'"
    by (auto simp: delete_friend_def result_simps Let_def server_wf_def grows_iff reply_def
        intro!: wf_intros split: if_splits option.splits)
qed

lemma accept_row_ok:
  assumes "accept_row env m s = Inr s'"
  shows "server_wf s \<Longrightarrow> server_wf s'" and "grows s s'"
  using assms
  by (auto simp: accept_row_def result_simps Let_def grows_iff no_such_friend wf_friend_def
      friend_key_def server_wf_def intro!: wf_intros split: if_splits)

interpretation friend_y_handler: request_handler "deal_friend_request_y env" for env
proof unfold_locales
  fix s fd m s'
  assume "deal_friend_request_y env fd m s = Inr s'"
  then obtain t where t: "accept_row env m s = Inr t"
    and step: "deal_friend_request_y env fd m s = Inr s'"
    by (auto simp: deal_friend_request_y_def result_simps)
  from step t have "server_wf t \<Longrightarrow> server_wf s'" and "grows t s'"
    by (auto simp: deal_friend_request_y_def result_simps Let_def server_wf_def grows_iff
        wf_request_def intro!: wf_intros split: if_splits option.splits)
  with accept_row_ok [OF t] show "server_wf s \<Longrightarrow> server_wf s'" and "grows s s'"
    by (auto intro: grows_trans)
qed

interpretation friend_n_handler: request_handler "deal_friend_request_n env" for env
proof unfold_locales
  fix s fd m s'
  assume "deal_friend_request_n env fd m s = Inr s'"
  then show "server_wf s \<Longrightarrow> server_wf s'" and "grows s s'"
    by (auto simp: deal_friend_request_n_def result_simps Let_def server_wf_def grows_iff
        wf_request_def intro!: wf_intros split: option.splits)
qed

section \<open>Properties of friendships\<close>

lemma friend_sql_fits:
  assumes "fits 20 f" and "fits 20 u"
  shows "fits 1024 (sql_insert_friend f u '', 1, 0)'')" "fits 200 (sql_insert_friend f u '',1,1)'')"
    "fits 1024 (sql_delete_friend f u)" "fits 200 (sql_delete_friend f u)"
    "fits 1024 (sql_friend_status ''0'' f u)" "fits 200 (sql_friend_status ''1'' f u)"
  using assms
  by (auto simp: fits_def sql_insert_friend_def sql_delete_friend_def sql_friend_where_def
      sql_friend_status_def)

lemma chat_record_fits: "wf_MSG m \<Longrightarrow> length st = 1 \<Longrightarrow> fits 4096 (sql_chat_record m st)"
  by (simp add: wf_MSG_def fits_def sql_chat_record_def)

text \<open>The status \<open>u\<close> has for its friend \<open>f\<close>, when it has a row.\<close>

definition row_status :: "string \<Rightarrow> string \<Rightarrow> mysql_friend list \<Rightarrow> int option" where
  "row_status f u fs = map_option f_status (find_first (is_friend f u) fs)"

lemma row_status_None: "find_first (is_friend f u) fs = None \<longleftrightarrow> row_status f u fs = None"
  by (simp add: row_status_def)

lemma row_status_Some: "row_status f u fs = Some st \<Longrightarrow>
    \<exists>r. find_first (is_friend f u) fs = Some r \<and> f_status r = st"
  by (auto simp: row_status_def)

lemma is_friend_other: "f \<noteq> u \<Longrightarrow> is_friend f u r \<Longrightarrow> \<not> is_friend u f r"
  by (auto simp: is_friend_def)

lemma row_status_set:
  "row_status f u (update_first (is_friend f u) (f_status_update (\<lambda>_. st)) fs)
   = map_option (\<lambda>_. st) (row_status f u fs)"
  by (simp add: row_status_def find_first_update_first_same option.map_comp comp_def)

lemma row_status_set_other:
  "f \<noteq> u \<Longrightarrow> row_status f u (update_first (is_friend u f) (f_status_update (\<lambda>_. st)) fs)
   = row_status f u fs"
  using find_first_update_first_other [of "is_friend f u" "f_status_update (\<lambda>_. st)" "is_friend u f"]
    is_friend_other [of u f] by (simp add: row_status_def)

lemma row_status_add:
  "row_status f u (fs @ [\<lparr>f_friendname = f', f_username = u', f_type = ty, f_status = st\<rparr>])
   = (case row_status f u fs of Some x \<Rightarrow> Some x
      | None \<Rightarrow> if f' = f \<and> u' = u then Some st else None)"
  by (auto simp: row_status_def find_first_append is_friend_def split: option.splits)

lemma row_status_remove:
  assumes "distinct (map friend_key fs)"
  shows "row_status f u (remove_first (is_friend f u) fs) = None"
proof -
  have "\<forall>x \<in> set (remove_first (is_friend f u) fs). \<not> is_friend f u x"
    by (rule remove_first_gone [where k = friend_key])
      (use assms in \<open>auto simp: is_friend_def friend_key_def\<close>)
  then show ?thesis by (simp add: row_status_def find_first_None)
qed

lemma row_status_remove_other:
  "f \<noteq> u \<Longrightarrow> row_status f u (remove_first (is_friend u f) fs) = row_status f u fs"
  using find_first_remove_first_other [of "is_friend u f" "is_friend f u"] is_friend_other [of u f]
  by (simp add: row_status_def)

lemmas row_status_simps = row_status_set row_status_set_other row_status_add row_status_remove_other

text \<open>What the two halves of a friendship do when MySQL answers and the packets are well formed.\<close>

lemma add_friend_new:
  assumes "mysql_works env" and "wf_MSG m" and "to_name m \<noteq> from_name m"
    and "find_first (is_user (to_name m)) (head_user s) \<noteq> None"
    and "row_status (to_name m) (from_name m) (head_friends s) = None"
  shows "\<exists>s'. add_friend env fd m s = Inr s' \<and> head_user s' = head_user s \<and> head s' = head s
    \<and> head_friends s' = head_friends s @ [\<lparr>f_friendname = to_name m, f_username = from_name m,
        f_type = 1, f_status = 0\<rparr>]
    \<and> head_request s' = (if find_online (to_name m) s = None
        then head_request s @ [\<lparr>q_from_name = from_name m, q_to_name = to_name m,
          q_to_group_name = None, q_type = CHR ''f''\<rparr>] else head_request s)"
  using assms friend_sql_fits [of "to_name m" "from_name m"]
  by (auto simp: add_friend_def add_friend_row_def mysql_works_simps wf_MSG_def new_friend_eq_Inr
      row_status_None [symmetric] new_friend_def queue_request_def new_request_def
      find_online_def Let_def
      split: option.splits)

lemma accept_friend:
  assumes "mysql_works env" and "wf_MSG m" and "to_name m \<noteq> from_name m"
    and "row_status (to_name m) (from_name m) (head_friends s) \<noteq> None"
  shows "\<exists>s'. deal_friend_request_y env fd m s = Inr s'
    \<and> row_status (to_name m) (from_name m) (head_friends s') = Some 1
    \<and> row_status (from_name m) (to_name m) (head_friends s') = Some 1"
proof -
  have names: "fits 20 (from_name m)" "fits 20 (to_name m)" using assms(2) by (auto simp: wf_MSG_def)
  obtain s1 where s1: "accept_row env m s = Inr s1" "head s1 = head s"
      "row_status (from_name m) (to_name m) (head_friends s1) = Some 1"
      "row_status (to_name m) (from_name m) (head_friends s1)
        = row_status (to_name m) (from_name m) (head_friends s)"
    using assms names friend_sql_fits [of "from_name m" "to_name m"]
    by (cases "row_status (from_name m) (to_name m) (head_friends s)")
      (auto simp: accept_row_def mysql_works_simps row_status_None new_friend_def row_status_simps)
  let ?fs = "update_first (is_friend (to_name m) (from_name m)) (f_status_update (\<lambda>_. 1)) (head_friends s1)"
  have "\<exists>s'. deal_friend_request_y env fd m s = Inr s' \<and> head_friends s' = ?fs"
    using assms names s1(1,4) friend_sql_fits [of "to_name m" "from_name m"]
    by (auto simp: deal_friend_request_y_def mysql_works_simps row_status_None queue_request_def
        new_request_def Let_def split: option.splits)
  then show ?thesis using s1 assms(3,4) by (auto simp: row_status_simps)
qed



text \<open>
  A second request to someone who is offline crashes the server: the first is recorded and
  queued, the second finds the pending row and follows the NULL pointer of the search for the
  receiver's connection.
\<close>

theorem ask_twice_offline:
  assumes "mysql_works env" and "wf_MSG m" and "to_name m \<noteq> from_name m"
    and "\<exists>u \<in> set (head_user s). u_name u = to_name m"
    and "row_status (to_name m) (from_name m) (head_friends s) = None"
    and "find_online (to_name m) s = None"
    and "to_name m' = to_name m" and "from_name m' = from_name m"
  shows "\<exists>s1. add_friend env fd m s = Inr s1
    \<and> head_request s1 = head_request s @ [\<lparr>q_from_name = from_name m, q_to_name = to_name m,
        q_to_group_name = None, q_type = CHR ''f''\<rparr>]
    \<and> add_friend env fd' m' s1 = Inl Null_Deref"
proof -
  have u: "find_first (is_user (to_name m)) (head_user s) \<noteq> None"
    unfolding find_first_not_None is_user_def using assms(4) by blast
  from add_friend_new [OF assms(1,2,3) u assms(5), of fd] obtain s1
    where s1: "add_friend env fd m s = Inr s1" "head_user s1 = head_user s" "head s1 = head s"
      "row_status (to_name m) (from_name m) (head_friends s1) = Some 0"
      "head_request s1 = head_request s @ [\<lparr>q_from_name = from_name m, q_to_name = to_name m,
        q_to_group_name = None, q_type = CHR ''f''\<rparr>]"
    using assms(5,6) by (fastforce simp: row_status_simps)
  from row_status_Some [OF s1(4)] obtain r
    where "find_first (is_friend (to_name m) (from_name m)) (head_friends s1) = Some r" "f_status r = 0"
    by blast
  with s1 u assms have "add_friend env fd' m' s1 = Inl Null_Deref"
    by (auto simp: add_friend_def find_online_def)
  with s1 show ?thesis by blast
qed

theorem ask_twice_offline_witness:
  "\<exists>s1. add_friend working_mysql 5 (chat_packet 14 ''bob'' ''ann'' []) demo_server = Inr s1
    \<and> add_friend working_mysql 5 (chat_packet 14 ''bob'' ''ann'' []) s1 = Inl Null_Deref"
  using ask_twice_offline [OF working_mysql_works wf_chat_packet [of "''bob''" "''ann''" "[]" 14],
      of demo_server "chat_packet 14 ''bob'' ''ann'' []" 5 5]
  by (auto simp: demo_defs row_status_def find_online_def)

text \<open>
  Between two users who each have the other's row a private message always leaves a record
  on a fresh connection to MySQL. When the receiver is online the record is marked as read and
  the very packet goes to the receiver's connection; otherwise it is marked unread and nothing
  is sent. The connection is never closed: every message costs one.
\<close>

theorem private_chat_delivers:
  assumes "mysql_works env" and "wf_MSG m"
    and "row_status (to_name m) (from_name m) (head_friends s) \<noteq> None"
    and "row_status (from_name m) (to_name m) (head_friends s) \<noteq> None"
  shows "private_chat env fd m s =
    (let h = Suc (connections s)
     in case find_online (to_name m) s of
          None \<Rightarrow> Inr (s\<lparr>connections := h, queries := queries s @ [(h, sql_chat_record m ''0'')]\<rparr>)
        | Some d \<Rightarrow> Inr (s\<lparr>connections := h, queries := queries s @ [(h, sql_chat_record m ''1'')],
            sent := sent s @ [(d_socket d, Packet m)]\<rparr>))"
  using assms chat_record_fits [of m "''0''"] chat_record_fits [of m "''1''"]
  by (auto simp: private_chat_def mysql_works_simps row_status_None find_online_def Let_def send_def
      split: option.splits)

definition friends_server :: server where
  "friends_server = chat_server\<lparr>head_friends :=
     [\<lparr>f_friendname = ''ann'', f_username = ''bob'', f_type = 1, f_status = 1\<rparr>,
      \<lparr>f_friendname = ''bob'', f_username = ''ann'', f_type = 1, f_status = 1\<rparr>]\<rparr>"

lemma friends_server_rows:
  "row_status ''ann'' ''bob'' (head_friends friends_server) = Some 1"
  "row_status ''bob'' ''ann'' (head_friends friends_server) = Some 1"
  by (simp_all add: friends_server_def row_status_def is_friend_def)

theorem private_chat_delivers_witness:
  "private_chat working_mysql 5 (chat_packet 13 ''bob'' ''ann'' []) friends_server
   = Inr (friends_server\<lparr>connections := 1,
       queries := [(1, sql_chat_record (chat_packet 13 ''bob'' ''ann'' []) ''1'')],
       sent := [(4, Packet (chat_packet 13 ''bob'' ''ann'' []))]\<rparr>)"
  using private_chat_delivers [OF working_mysql_works wf_chat_packet [of "''bob''" "''ann''" "[]" 13],
      of friends_server 5] friends_server_rows
  by (simp add: demo_defs friends_server_def find_online_def is_online_def)

text \<open>
  Ending a friendship is one-sided. The caller's row goes, the other side's row stays with
  status 0; afterwards a private message from either side is refused, with 130 to the one who
  ended it and 131 to the other.
\<close>

theorem delete_friend_one_sided:
  assumes "mysql_works env" and "wf_MSG m" and "server_wf s" and "to_name m \<noteq> from_name m"
    and "row_status (to_name m) (from_name m) (head_friends s) = Some 1"
    and "row_status (from_name m) (to_name m) (head_friends s) \<noteq> None"
    and "from_name p = from_name m" and "to_name p = to_name m"
    and "from_name q = to_name m" and "to_name q = from_name m"
  shows "\<exists>s'. delete_friend env fd m s = Inr s'
    \<and> row_status (to_name m) (from_name m) (head_friends s') = None
    \<and> row_status (from_name m) (to_name m) (head_friends s') = Some 0
    \<and> private_chat env fd p s' = Inr (reply fd p 130 (s'\<lparr>connections := Suc (connections s')\<rparr>))
    \<and> private_chat env fd' q s' = Inr (reply fd' q 131 (s'\<lparr>connections := Suc (connections s')\<rparr>))"
proof -
  let ?a = "from_name m" and ?b = "to_name m"
  let ?fs = "remove_first (is_friend ?b ?a) (head_friends s)"
  let ?gs = "update_first (is_friend ?a ?b) (f_status_update (\<lambda>_. 0)) ?fs"
  have names: "fits 20 ?a" "fits 20 ?b" using assms(2) by (auto simp: wf_MSG_def)
  have "distinct (map friend_key (head_friends s))" using assms(3) by (simp add: server_wf_defs)
  then have fs: "row_status ?b ?a ?fs = None" "row_status ?a ?b ?fs \<noteq> None"
    using row_status_remove row_status_remove_other [of ?a ?b] assms(4,6) by auto
  then have gs: "row_status ?b ?a ?gs = None" "row_status ?a ?b ?gs = Some 0"
    using assms(4) by (auto simp: row_status_simps)
  obtain r where r: "find_first (is_friend ?b ?a) (head_friends s) = Some r" "f_status r = 1"
    using row_status_Some [OF assms(5)] by blast
  obtain s' where s': "delete_friend env fd m s = Inr s'" "head_friends s' = ?gs"
    using r fs(2) friend_sql_fits [of ?b ?a] friend_sql_fits [of ?a ?b] names
    by (auto simp: delete_friend_def mysql_works_simps [OF assms(1)] row_status_None Let_def)
  from gs have "find_first (is_friend ?b ?a) (head_friends s') = None"
    "find_first (is_friend ?a ?b) (head_friends s') \<noteq> None"
    by (simp_all add: s'(2) row_status_None)
  with s' gs assms(7-10) show ?thesis
    by (auto simp: private_chat_def mysql_works_simps [OF assms(1)])
qed

theorem delete_friend_one_sided_witness:
  "\<exists>s'. delete_friend working_mysql 5 (chat_packet 15 ''bob'' ''ann'' []) friends_server = Inr s'
    \<and> row_status ''ann'' ''bob'' (head_friends s') = None
    \<and> row_status ''bob'' ''ann'' (head_friends s') = Some 0
    \<and> private_chat working_mysql 4 (chat_packet 13 ''ann'' ''bob'' []) s'
      = Inr (reply 4 (chat_packet 13 ''ann'' ''bob'' []) 131 (s'\<lparr>connections := Suc (connections s')\<rparr>))"
proof -
  have "server_wf friends_server"
    by (simp add: friends_server_def demo_defs server_wf_defs wf_defs fits_def friend_key_def in_group_def)
  from delete_friend_one_sided [OF working_mysql_works wf_chat_packet [of "''bob''" "''ann''" "[]" 15]
      this, of "chat_packet 13 ''bob'' ''ann'' []" "chat_packet 13 ''ann'' ''bob'' []" 5 4]
    friends_server_rows
  show ?thesis by (auto simp: chat_packet_def)
qed

text \<open>
  Granting a request and then refusing a repetition of it breaks the pair of rows: the
  refusal removes the row of the one who asked, whatever its status, and when the other side
  later ends the friendship the server follows a NULL pointer.
\<close>

theorem grant_then_refuse_crash:
  assumes "mysql_works env" and "wf_MSG m" and "server_wf s" and "to_name m \<noteq> from_name m"
    and "row_status (to_name m) (from_name m) (head_friends s) = Some 1"
    and "row_status (from_name m) (to_name m) (head_friends s) = Some 1"
    and "from_name q = to_name m" and "to_name q = from_name m"
  shows "\<exists>s'. deal_friend_request_n env fd m s = Inr s'
    \<and> row_status (to_name m) (from_name m) (head_friends s') = None
    \<and> row_status (from_name m) (to_name m) (head_friends s') = Some 1
    \<and> delete_friend env fd q s' = Inl Null_Deref"
proof -
  let ?a = "from_name m" and ?b = "to_name m"
  let ?fs = "remove_first (is_friend ?b ?a) (head_friends s)"
  have names: "fits 20 ?a" "fits 20 ?b" using assms(2) by (auto simp: wf_MSG_def)
  have "distinct (map friend_key (head_friends s))" using assms(3) by (simp add: server_wf_defs)
  then have fs: "row_status ?b ?a ?fs = None" "row_status ?a ?b ?fs = Some 1"
    using row_status_remove row_status_remove_other [of ?a ?b] assms(4,6) by auto
  have "\<exists>s'. deal_friend_request_n env fd m s = Inr s' \<and> head_friends s' = ?fs"
    using friend_sql_fits [of ?b ?a] names
    by (auto simp: deal_friend_request_n_def mysql_works_simps [OF assms(1)] queue_request_def
        new_request_def Let_def split: option.splits)
  then obtain s' where s': "deal_friend_request_n env fd m s = Inr s'" "head_friends s' = ?fs"
    by blast
  obtain r where "find_first (is_friend ?a ?b) (head_friends s') = Some r" "f_status r = 1"
    using row_status_Some [OF fs(2)] s'(2) by auto
  moreover have "find_first (is_friend ?b ?a) (remove_first (is_friend ?a ?b) (head_friends s')) = None"
    using row_status_remove_other [of ?b ?a] fs(1) assms(4) by (simp add: s'(2) row_status_None)
  ultimately have "delete_friend env fd q s' = Inl Null_Deref"
    using assms(7,8) friend_sql_fits [of ?a ?b] friend_sql_fits [of ?b ?a] names
    by (simp add: delete_friend_def mysql_works_simps [OF assms(1)] Let_def)
  with s' fs show ?thesis by auto
qed

theorem grant_then_refuse_crash_witness:
  "\<exists>s'. deal_friend_request_n working_mysql 4 (chat_packet 312 ''bob'' ''ann'' []) friends_server = Inr s'
    \<and> delete_friend working_mysql 4 (chat_packet 15 ''ann'' ''bob'' []) s' = Inl Null_Deref"
proof -
  have "server_wf friends_server"
    by (simp add: friends_server_def demo_defs server_wf_defs wf_defs fits_def friend_key_def in_group_def)
  from grant_then_refuse_crash [OF working_mysql_works wf_chat_packet [of "''bob''" "''ann''" "[]" 312]
      this, of "chat_packet 15 ''ann'' ''bob'' []" 4] friends_server_rows
  show ?thesis by (auto simp: chat_packet_def)
qed

lemma send_online_eq:
  assumes "\<forall>r \<in> set rs. my_friend_row m r"
  shows "send_online fd rs flag m s =
    (let on = filter (\<lambda>r. find_online (f_friendname r) s \<noteq> None) rs
     in (if rs = [] then flag else find_online (f_friendname (last rs)) s \<noteq> None,
         if on = [] then m else m\<lparr>friend_name := f_friendname (last on)\<rparr>,
         s\<lparr>sent := sent s @ map (\<lambda>r. (fd, Packet (m\<lparr>friend_name := f_friendname r\<rparr>))) on\<rparr>))"
  using assms
proof (induction rs arbitrary: flag m s)
  case Nil
  then show ?case by simp
next
  case (Cons r rs)
  have "my_friend_row (m\<lparr>friend_name := x\<rparr>) = my_friend_row m" for x
    by (auto simp: my_friend_row_def fun_eq_iff)
  with Cons show ?case by (auto simp: Let_def send_def find_online_def)
qed

text \<open>
  Asking for the friends online sends one packet for every confirmed friend of the caller
  who is online, in the order of the list. The answer 122, which tells the client that nobody is
  online, follows exactly when the last friend of the list is offline, even after other
  friends have been sent.
\<close>

theorem online_friend_sends:
  assumes "friends = filter (my_friend_row m) (head_friends s)" and "friends \<noteq> []"
    and "on = filter (\<lambda>r. find_online (f_friendname r) s \<noteq> None) friends"
  shows "\<exists>m'. online_friend env fd m s = Inr (s\<lparr>sent := sent s
      @ map (\<lambda>r. (fd, Packet (m\<lparr>friend_name := f_friendname r\<rparr>))) on
      @ (if find_online (f_friendname (last friends)) s = None then [(fd, Packet (m'\<lparr>cmd := 122\<rparr>))] else [])\<rparr>)"
proof -
  have some: "find_first (my_friend_row m) (head_friends s) \<noteq> None"
    unfolding find_first_not_None using assms(1,2) by (auto simp: filter_empty_conv)
  have "\<forall>r \<in> set friends. my_friend_row m r" using assms(1) by simp
  from send_online_eq [OF this, of fd True s] obtain m' where
    "send_online fd friends True m s = (find_online (f_friendname (last friends)) s \<noteq> None, m',
       s\<lparr>sent := sent s @ map (\<lambda>r. (fd, Packet (m\<lparr>friend_name := f_friendname r\<rparr>))) on\<rparr>)"
    using assms(2) by (simp only: Let_def assms(3) if_False)
  then have "online_friend env fd m s
      = Inr (if find_online (f_friendname (last friends)) s \<noteq> None
          then s\<lparr>sent := sent s @ map (\<lambda>r. (fd, Packet (m\<lparr>friend_name := f_friendname r\<rparr>))) on\<rparr>
          else reply fd m' 122
            (s\<lparr>sent := sent s @ map (\<lambda>r. (fd, Packet (m\<lparr>friend_name := f_friendname r\<rparr>))) on\<rparr>))"
    using some by (simp only: online_friend_def assms(1) [symmetric] if_False prod.case)
  then show ?thesis by (cases "find_online (f_friendname (last friends)) s") (auto simp: reply_def send_def)
qed

theorem online_friend_sends_witness:
  "online_friend working_mysql 4 (demo_packet 12 ''ann'' []) friends_server
    = Inr (friends_server\<lparr>sent := [(4, Packet ((demo_packet 12 ''ann'' [])\<lparr>friend_name := ''bob''\<rparr>))]\<rparr>)"
  using online_friend_sends [OF refl _ refl, of "demo_packet 12 ''ann'' []" friends_server working_mysql 4]
  by (simp add: my_friend_row_def demo_defs friends_server_def find_online_def is_online_def)

end
