(* ===== verification/Node_Heap.thy ===== *)
theory Node_Heap
  imports Prelude
begin

text \<open>
  The singly linked lists of \<open>epoll.c\<close> and \<open>client1.c\<close> as they are in memory: nodes in a
  store, a head pointer, and the loops that walk, append, unlink and free. A pointer is
  \<open>nat option\<close> with \<open>None\<close> for NULL; reading through a pointer to no node is a fault. A
  loop that follows a cycle does not return, so the walks are partial functions. The last
  sections relate each routine to a function on the list that the chain of nodes holds.
\<close>

section \<open>The store\<close>

datatype 'a node = Node (node_item: 'a) (node_next: "nat option")

text \<open>\<open>brk\<close> is the next address \<open>malloc\<close> hands out: addresses are never used twice.\<close>

record 'a mem =
  cells :: "nat \<Rightarrow> 'a node option"
  brk :: nat

definition empty_mem :: "'a mem" where
  "empty_mem = \<lparr>cells = (\<lambda>_. None), brk = 0\<rparr>"

definition malloc :: "'a mem \<Rightarrow> 'a node \<Rightarrow> nat \<times> 'a mem" where
  "malloc m n = (brk m, m\<lparr>cells := (cells m)(brk m := Some n), brk := Suc (brk m)\<rparr>)"

definition store :: "nat \<Rightarrow> 'a node \<Rightarrow> 'a mem \<Rightarrow> 'a mem" where
  "store a n m = m\<lparr>cells := (cells m)(a := Some n)\<rparr>"

definition free :: "nat \<Rightarrow> 'a mem \<Rightarrow> 'a mem" where
  "free a m = m\<lparr>cells := (cells m)(a := None)\<rparr>"

definition deref :: "'a mem \<Rightarrow> nat option \<Rightarrow> 'a node result" where
  "deref m p = (case p of None \<Rightarrow> Inl Null_Deref
     | Some a \<Rightarrow> (case cells m a of None \<Rightarrow> Inl Use_After_Free | Some n \<Rightarrow> Inr n))"

definition set_next :: "nat \<Rightarrow> nat option \<Rightarrow> 'a mem \<Rightarrow> 'a mem result" where
  "set_next a q m = rbind (deref m (Some a)) (\<lambda>n. Inr (store a (Node (node_item n) q) m))"

section \<open>The routines\<close>

text \<open>\<open>while(current->next != NULL) current = current->next;\<close>\<close>

partial_function (option) walk_end :: "'a mem \<Rightarrow> nat \<Rightarrow> nat result option" where
  "walk_end m a =
     (case deref m (Some a) of
        Inl e \<Rightarrow> Some (Inl e)
      | Inr n \<Rightarrow> (case node_next n of None \<Rightarrow> Some (Inr a) | Some b \<Rightarrow> walk_end m b))"

text \<open>The loop body shared by \<open>charu_list\<close> and \<open>weicha_list\<close>: link a node after the last one.\<close>

definition link_last :: "nat option \<Rightarrow> nat \<Rightarrow> 'a mem \<Rightarrow> (nat option \<times> 'a mem) result option" where
  "link_last phead a m =
     (case phead of
        None \<Rightarrow> Some (Inr (Some a, m))
      | Some b \<Rightarrow>
          (case walk_end m b of
             None \<Rightarrow> None
           | Some (Inl e) \<Rightarrow> Some (Inl e)
           | Some (Inr c) \<Rightarrow>
               Some (rbind (set_next c (Some a) m) (\<lambda>m'. Inr (Some b, m')))))"

text \<open>\<open>charu_list\<close>: allocate, fill in, then link after the last node.\<close>

definition charu_list_mem ::
  "'a \<Rightarrow> nat option \<times> 'a mem \<Rightarrow> (nat option \<times> 'a mem) result option" where
  "charu_list_mem date s =
     (case s of (head, m) \<Rightarrow>
        (case malloc m (Node date None) of (new_node, m') \<Rightarrow> link_last head new_node m'))"

text \<open>\<open>weicha_list\<close>: the node is the caller's, already filled in with a NULL successor.\<close>

definition weicha_list_mem ::
  "nat \<Rightarrow> nat option \<times> 'a mem \<Rightarrow> (nat option \<times> 'a mem) result option" where
  "weicha_list_mem new_node s = (case s of (phead, m) \<Rightarrow> link_last phead new_node m)"

text \<open>
  The search of \<open>del_node\<close>: stops at the first node whose item matches, but never looks at
  the item of the last node. Returns \<open>prev\<close> and \<open>current\<close>.
\<close>

partial_function (option) del_search ::
  "('a \<Rightarrow> bool) \<Rightarrow> 'a mem \<Rightarrow> nat \<Rightarrow> nat \<Rightarrow> (nat \<times> nat) result option" where
  "del_search p m prev current =
     (case deref m (Some current) of
        Inl e \<Rightarrow> Some (Inl e)
      | Inr n \<Rightarrow>
          (case node_next n of
             None \<Rightarrow> Some (Inr (prev, current))
           | Some b \<Rightarrow>
               if p (node_item n) then Some (Inr (prev, current)) else del_search p m current b))"

definition del_node_mem ::
  "('a \<Rightarrow> bool) \<Rightarrow> nat option \<times> 'a mem \<Rightarrow> (nat option \<times> 'a mem) result option" where
  "del_node_mem p s =
     (case s of (head, m) \<Rightarrow>
        (case head of
           None \<Rightarrow> Some (Inr (head, m))
         | Some h \<Rightarrow>
             (case del_search p m h h of
                None \<Rightarrow> None
              | Some (Inl e) \<Rightarrow> Some (Inl e)
              | Some (Inr (prev, current)) \<Rightarrow>
                  Some (rbind (deref m (Some current)) (\<lambda>n.
                    if prev = h then Inr (node_next n, free current m)
                    else rbind (set_next prev (node_next n) m) (\<lambda>m'.
                      Inr (head, free current m')))))))"

text \<open>
  The removal loop of \<open>delete_friend\<close>, \<open>quit_group\<close> and \<open>break_group\<close>: unlink the first
  match; the node is freed only when it is the head.
\<close>

partial_function (option) unlink_mem ::
  "('a \<Rightarrow> bool) \<Rightarrow> nat option \<Rightarrow> nat option \<Rightarrow> nat option \<Rightarrow> 'a mem
   \<Rightarrow> (nat option \<times> 'a mem) result option" where
  "unlink_mem p head temp current m =
     (case current of
        None \<Rightarrow> Some (Inr (head, m))
      | Some c \<Rightarrow>
          (case deref m current of
             Inl e \<Rightarrow> Some (Inl e)
           | Inr n \<Rightarrow>
               if p (node_item n) then
                 (if head = current then Some (Inr (node_next n, free c m))
                  else (case temp of
                     None \<Rightarrow> Some (Inl Uninit_Read)
                   | Some t \<Rightarrow> Some (rbind (set_next t (node_next n) m) (\<lambda>m'. Inr (head, m')))))
               else unlink_mem p head current (node_next n) m))"

text \<open>
  The loop of \<open>break_group\<close> over the relations: it walks the list with \<open>current\<close> and, at
  every match, unlinks the first match of the list by the loop above, then reads the
  successor of \<open>current\<close>.
\<close>

partial_function (option) break_loop_mem ::
  "('a \<Rightarrow> bool) \<Rightarrow> nat option \<Rightarrow> nat option \<Rightarrow> 'a mem \<Rightarrow> (nat option \<times> 'a mem) result option" where
  "break_loop_mem p head current m =
     (case current of
        None \<Rightarrow> Some (Inr (head, m))
      | Some c \<Rightarrow>
          (case deref m current of
             Inl e \<Rightarrow> Some (Inl e)
           | Inr n \<Rightarrow>
               (case (if p (node_item n) then unlink_mem p head None head m
                      else Some (Inr (head, m))) of
                  None \<Rightarrow> None
                | Some (Inl e) \<Rightarrow> Some (Inl e)
                | Some (Inr (head', m')) \<Rightarrow>
                    (case deref m' current of
                       Inl e \<Rightarrow> Some (Inl e)
                     | Inr n' \<Rightarrow> break_loop_mem p head' (node_next n') m'))))"

text \<open>\<open>free_list\<close>: free the head until it is NULL.\<close>

partial_function (option) free_list_mem ::
  "nat option \<Rightarrow> 'a mem \<Rightarrow> (nat option \<times> 'a mem) result option" where
  "free_list_mem phead m =
     (case phead of
        None \<Rightarrow> Some (Inr (None, m))
      | Some a \<Rightarrow>
          (case deref m phead of
             Inl e \<Rightarrow> Some (Inl e)
           | Inr n \<Rightarrow> free_list_mem (node_next n) (free a m)))"

text \<open>
  The client's \<open>del_head\<close> receives the head pointer by value: it frees the node and
  assigns the successor to its own parameter, so the caller's pointer is unchanged.
\<close>

definition del_head_mem :: "nat option \<times> 'a mem \<Rightarrow> (nat option \<times> 'a mem) result" where
  "del_head_mem s =
     (case s of (phead, m) \<Rightarrow>
        rbind (deref m phead) (\<lambda>n.
          (case phead of None \<Rightarrow> Inl Null_Deref | Some a \<Rightarrow> Inr (phead, free a m))))"

section \<open>Chains\<close>

text \<open>
  \<open>chain m p as xs\<close>: following the nodes from \<open>p\<close> visits the addresses \<open>as\<close>, which hold
  the items \<open>xs\<close>, and ends at NULL. \<open>seg m p as xs q\<close> is the same up to the pointer \<open>q\<close>.
\<close>

fun seg :: "'a mem \<Rightarrow> nat option \<Rightarrow> nat list \<Rightarrow> 'a list \<Rightarrow> nat option \<Rightarrow> bool" where
  "seg m p [] xs q \<longleftrightarrow> xs = [] \<and> p = q"
| "seg m p (a # as) xs q \<longleftrightarrow>
     p = Some a \<and> (\<exists>x ys r. xs = x # ys \<and> cells m a = Some (Node x r) \<and> seg m r as ys q)"

definition chain :: "'a mem \<Rightarrow> nat option \<Rightarrow> nat list \<Rightarrow> 'a list \<Rightarrow> bool" where
  "chain m p as xs \<longleftrightarrow> seg m p as xs None \<and> distinct as"

text \<open>Every allocated address lies below \<open>brk\<close>.\<close>

definition mem_ok :: "'a mem \<Rightarrow> bool" where
  "mem_ok m \<longleftrightarrow> (\<forall>a. cells m a \<noteq> None \<longrightarrow> a < brk m)"

lemma deref_simps [simp]:
  "deref m None = Inl Null_Deref"
  "cells m a = None \<Longrightarrow> deref m (Some a) = Inl Use_After_Free"
  "cells m a = Some n \<Longrightarrow> deref m (Some a) = Inr n"
  by (simp_all add: deref_def)

lemma cells_store [simp]: "cells (store a n m) = (cells m)(a := Some n)"
  by (simp add: store_def)

lemma cells_free [simp]: "cells (free a m) = (cells m)(a := None)"
  by (simp add: free_def)

lemma brk_simps [simp]: "brk (store a n m) = brk m" "brk (free a m) = brk m"
  by (simp_all add: store_def free_def)

lemma set_next_simp [simp]:
  "cells m a = Some (Node x r) \<Longrightarrow> set_next a q m = Inr (store a (Node x q) m)"
  by (simp add: set_next_def)

lemma seg_append:
  "seg m p (as @ bs) xs q \<longleftrightarrow>
     (\<exists>ys zs r. xs = ys @ zs \<and> seg m p as ys r \<and> seg m r bs zs q)"
proof (induction as arbitrary: p xs)
  case Nil
  then show ?case by auto
next
  case (Cons a as)
  then show ?case by (auto simp: Cons_eq_append_conv) blast+
qed

lemma seg_length: "seg m p as xs q \<Longrightarrow> length as = length xs"
  by (induction as arbitrary: p xs) auto

lemma seg_cells: "seg m p as xs q \<Longrightarrow> a \<in> set as \<Longrightarrow> cells m a \<noteq> None"
  by (induction as arbitrary: p xs) auto

lemma seg_cong:
  "(\<And>a. a \<in> set as \<Longrightarrow> cells m' a = cells m a) \<Longrightarrow> seg m' p as xs q = seg m p as xs q"
  by (induction as arbitrary: p xs) auto

lemma seg_store [simp]: "a \<notin> set as \<Longrightarrow> seg (store a n m) p as xs q = seg m p as xs q"
  by (rule seg_cong) auto

lemma seg_free [simp]: "a \<notin> set as \<Longrightarrow> seg (free a m) p as xs q = seg m p as xs q"
  by (rule seg_cong) auto

lemma seg_nth:
  "seg m p as xs q \<Longrightarrow> i < length as \<Longrightarrow>
   \<exists>r. cells m (as ! i) = Some (Node (xs ! i) r) \<and> seg m r (drop (Suc i) as) (drop (Suc i) xs) q"
proof (induction as arbitrary: p xs i)
  case Nil
  then show ?case by simp
next
  case (Cons a as)
  then show ?case by (cases i) auto
qed

lemma seg_take:
  "seg m p as xs q \<Longrightarrow> i < length as \<Longrightarrow> seg m p (take i as) (take i xs) (Some (as ! i))"
proof (induction as arbitrary: p xs i)
  case Nil
  then show ?case by simp
next
  case (Cons a as)
  then show ?case by (cases i) auto
qed

lemma chain_head: "chain m p as xs \<Longrightarrow> p = (case as of [] \<Rightarrow> None | a # _ \<Rightarrow> Some a)"
  by (cases as) (auto simp: chain_def)

lemma mem_ok_empty [simp]: "mem_ok empty_mem"
  by (simp add: mem_ok_def empty_mem_def)

lemma mem_ok_malloc: "mem_ok m \<Longrightarrow> malloc m n = (a, m') \<Longrightarrow> mem_ok m'"
  by (auto simp: mem_ok_def malloc_def less_Suc_eq split: if_splits)

lemma mem_ok_store: "mem_ok m \<Longrightarrow> cells m a \<noteq> None \<Longrightarrow> mem_ok (store a n m)"
  by (auto simp: mem_ok_def split: if_splits)

lemma mem_ok_free: "mem_ok m \<Longrightarrow> mem_ok (free a m)"
  by (auto simp: mem_ok_def split: if_splits)

section \<open>Appending\<close>

lemma walk_end_seg: "seg m (Some a) as xs None \<Longrightarrow> walk_end m a = Some (Inr (last as))"
proof (induction as arbitrary: a xs)
  case Nil
  then show ?case by simp
next
  case (Cons b as)
  then obtain x ys r where b: "b = a" "xs = x # ys" "cells m a = Some (Node x r)"
    "seg m r as ys None" by auto
  show ?case
  proof (cases r)
    case None
    with b have "as = []" by (cases as) auto
    with b None show ?thesis by (simp add: walk_end.simps)
  next
    case (Some c)
    with b have "as \<noteq> []" by auto
    with b Some Cons.IH [of c ys] show ?thesis by (simp add: walk_end.simps [of m a])
  qed
qed

lemma seg_relink:
  assumes "seg m p (as @ [c]) (xs @ [x]) q" and "distinct (as @ [c])"
  shows "seg (store c (Node x r) m) p (as @ [c]) (xs @ [x]) r"
proof -
  have len: "length as = length xs" using seg_length [OF assms(1)] by simp
  from assms(1) obtain ys zs t where "xs @ [x] = ys @ zs" "seg m p as ys t" "seg m t [c] zs q"
    by (auto simp: seg_append)
  moreover from this have "length ys = length xs" using len seg_length by metis
  ultimately have "seg m p as xs t" "t = Some c" by auto
  with assms(2) show ?thesis by (auto simp: seg_append)
qed

lemma link_last_chain:
  assumes ch: "chain m p as xs" and new: "cells m a = Some (Node x None)" "a \<notin> set as"
    and ok: "mem_ok m"
  shows "\<exists>p' m'. link_last p a m = Some (Inr (p', m')) \<and> chain m' p' (as @ [a]) (xs @ [x])
           \<and> mem_ok m' \<and> brk m' = brk m"
proof (cases "as = []")
  case True
  with ch new ok show ?thesis by (auto simp: link_last_def chain_def)
next
  case False
  from ch have sg: "seg m p as xs None" and di: "distinct as" by (auto simp: chain_def)
  from False obtain b bs where as: "as = b # bs" by (cases as) auto
  with sg have p: "p = Some b" by auto
  have ne: "xs \<noteq> []" using seg_length [OF sg] False by auto
  let ?c = "last as" and ?y = "last xs"
  have split: "as = butlast as @ [?c]" "xs = butlast xs @ [?y]" using False ne by auto
  have "length as - 1 < length as" using False by simp
  from seg_nth [OF sg this] obtain r where r: "cells m ?c = Some (Node ?y r)"
    using False ne seg_length [OF sg] by (auto simp: last_conv_nth)
  let ?m = "store ?c (Node ?y (Some a)) m"
  have "seg ?m p as xs (Some a)"
    using seg_relink [of m p "butlast as" ?c "butlast xs" ?y None "Some a"] sg di split by simp
  moreover have "seg ?m (Some a) [a] [x] None"
    using new False by (cases "a = ?c") auto
  ultimately have "seg ?m p (as @ [a]) (xs @ [x]) None"
    by (auto simp: seg_append simp del: seg.simps)
  then have "chain ?m p (as @ [a]) (xs @ [x])" using di new by (auto simp: chain_def)
  moreover have "link_last p a m = Some (Inr (p, ?m))"
    using p walk_end_seg [of m b as xs] sg r by (simp add: link_last_def)
  moreover have "mem_ok ?m" using mem_ok_store [OF ok, of ?c] r by simp
  ultimately show ?thesis by auto
qed

lemma chain_malloc:
  assumes "chain m p as xs" and "mem_ok m" and "malloc m (Node x None) = (a, m')"
  shows "chain m' p as xs" "cells m' a = Some (Node x None)" "a \<notin> set as" "mem_ok m'"
proof -
  from assms(3) have a: "a = brk m"
    and m': "m' = m\<lparr>cells := (cells m)(brk m := Some (Node x None)), brk := Suc (brk m)\<rparr>"
    by (auto simp: malloc_def)
  show "cells m' a = Some (Node x None)" using a m' by simp
  show fresh: "a \<notin> set as"
  proof
    assume "a \<in> set as"
    with assms(1) have "cells m a \<noteq> None" unfolding chain_def by (metis seg_cells)
    with assms(2) a show False by (auto simp: mem_ok_def)
  qed
  have "seg m' p as xs None = seg m p as xs None"
    by (rule seg_cong) (use fresh a m' in auto)
  then show "chain m' p as xs" using assms(1) by (simp add: chain_def)
  show "mem_ok m'" using mem_ok_malloc [OF assms(2,3)] .
qed

lemma charu_list_mem_chain:
  assumes "chain m p as xs" and "mem_ok m"
  shows "\<exists>p' m' a. charu_list_mem x (p, m) = Some (Inr (p', m'))
           \<and> chain m' p' (as @ [a]) (xs @ [x]) \<and> mem_ok m'"
proof -
  obtain a m1 where ma: "malloc m (Node x None) = (a, m1)" by (cases "malloc m (Node x None)")
  from chain_malloc [OF assms this]
  have "chain m1 p as xs" "cells m1 a = Some (Node x None)" "a \<notin> set as" "mem_ok m1" .
  from link_last_chain [OF this] ma show ?thesis by (auto simp: charu_list_mem_def)
qed

section \<open>Unlinking\<close>

lemma seg_last_cell:
  assumes "seg m p as xs q" and "as \<noteq> []"
  shows "cells m (last as) = Some (Node (last xs) q)"
  using assms
proof (induction as arbitrary: p xs)
  case Nil
  then show ?case by simp
next
  case (Cons a as)
  then obtain x ys r where xs: "xs = x # ys" "cells m a = Some (Node x r)" "seg m r as ys q"
    by auto
  show ?case
  proof (cases "as = []")
    case True
    with xs show ?thesis by simp
  next
    case False
    with xs seg_length [OF xs(3)] have "ys \<noteq> []" by auto
    with False xs Cons.IH [OF xs(3) False] show ?thesis by simp
  qed
qed

text \<open>Redirecting the last node of a segment.\<close>

lemma seg_redirect:
  assumes "seg m p as xs q" and "as \<noteq> []" and "distinct as"
  shows "seg (store (last as) (Node (last xs) r) m) p as xs r"
proof -
  from assms(1,2) have "xs \<noteq> []" using seg_length by fastforce
  then have "as = butlast as @ [last as]" "xs = butlast xs @ [last xs]" using assms(2) by simp_all
  with assms(1,3) seg_relink [of m p "butlast as" "last as" "butlast xs" "last xs" q r]
  show ?thesis by simp
qed

text \<open>
  What the removal loop does from any point of the list: \<open>pre\<close> are the addresses already
  passed, \<open>rest\<close> those still ahead.
\<close>

lemma unlink_mem_seg:
  assumes "seg m p pre ys current" and "seg m current rest zs None" and "distinct (pre @ rest)"
    and "pre \<noteq> [] \<Longrightarrow> temp = Some (last pre)" and "mem_ok m"
  shows "\<exists>p' m' as'. unlink_mem P p temp current m = Some (Inr (p', m'))
           \<and> chain m' p' as' (ys @ remove_first P zs) \<and> set as' \<subseteq> set (pre @ rest) \<and> mem_ok m'"
  using assms
proof (induction rest arbitrary: pre ys current zs temp)
  case Nil
  then have "chain m p pre ys" by (simp add: chain_def)
  with Nil show ?case by (auto simp: unlink_mem.simps)
next
  case (Cons c rest)
  then obtain z zs' r where z: "zs = z # zs'" "current = Some c" "cells m c = Some (Node z r)"
    "seg m r rest zs' None" by auto
  show ?case
  proof (cases "P z")
    case True
    show ?thesis
    proof (cases "pre = []")
      case True
      with Cons.prems z have "p = Some c" "ys = []" by auto
      moreover have "chain (free c m) r rest zs'"
        using z(4) Cons.prems(3) by (simp add: chain_def)
      ultimately show ?thesis
        using z \<open>P z\<close> True mem_ok_free [OF Cons.prems(5)]
        by (auto simp: unlink_mem.simps)
    next
      case False
      let ?t = "last pre"
      from Cons.prems(1) z have hd: "p \<noteq> Some c"
        using False Cons.prems(3) by (cases pre) auto
      have cell: "cells m ?t = Some (Node (last ys) (Some c))"
        using seg_last_cell [OF Cons.prems(1) False] z by simp
      let ?m = "store ?t (Node (last ys) r) m"
      have "seg ?m p pre ys r" using seg_redirect [OF Cons.prems(1) False] Cons.prems(3) by simp
      moreover have "?t \<notin> set rest" using False Cons.prems(3) by (metis Int_iff last_in_set
        distinct_append list.set_intros(2) empty_iff)
      then have "seg ?m r rest zs' None" using z(4) by simp
      ultimately have "chain ?m p (pre @ rest) (ys @ zs')"
        using Cons.prems(3) by (auto simp: chain_def seg_append)
      moreover have "mem_ok ?m" using mem_ok_store [OF Cons.prems(5)] cell by simp
      moreover have "unlink_mem P p temp current m = Some (Inr (p, ?m))"
        using z \<open>P z\<close> hd Cons.prems(4) False cell by (simp add: unlink_mem.simps)
      ultimately show ?thesis using z \<open>P z\<close> by auto
    qed
  next
    case False
    have "seg m p (pre @ [c]) (ys @ [z]) r" using Cons.prems(1) z by (auto simp: seg_append)
    from Cons.IH [OF this z(4), of current] Cons.prems(3,5) z(2)
    obtain p' m' as' where "unlink_mem P p current r m = Some (Inr (p', m'))"
      "chain m' p' as' ((ys @ [z]) @ remove_first P zs')" "set as' \<subseteq> set (pre @ c # rest)"
      "mem_ok m'" by auto
    with z False show ?thesis by (auto simp: unlink_mem.simps [of P p temp "Some c" m])
  qed
qed

lemma unlink_mem_chain:
  assumes "chain m p as xs" and "mem_ok m"
  shows "\<exists>p' m' as'. unlink_mem P p temp p m = Some (Inr (p', m'))
           \<and> chain m' p' as' (remove_first P xs) \<and> set as' \<subseteq> set as \<and> mem_ok m'"
  using unlink_mem_seg [of m p "[]" "[]" p as xs temp P] assms by (auto simp: chain_def)

section \<open>The loop of \<open>break_group\<close>\<close>

text \<open>
  On the list: when the first item matches, its node is the head, it is freed and then
  read; otherwise every match is unlinked.
\<close>

definition break_loop :: "('a \<Rightarrow> bool) \<Rightarrow> 'a list \<Rightarrow> 'a list result" where
  "break_loop P xs =
     (case xs of
        [] \<Rightarrow> Inr []
      | x # _ \<Rightarrow> if P x then Inl Use_After_Free else Inr (filter (\<lambda>y. \<not> P y) xs))"

lemma remove_first_prefix:
  "\<forall>y \<in> set ys. \<not> P y \<Longrightarrow> remove_first P (ys @ zs) = ys @ remove_first P zs"
  by (induction ys) auto

lemma unlink_mem_after:
  assumes pre: "seg m p pre ys (Some c)" "pre \<noteq> []" and c: "cells m c = Some (Node z r)"
    and rest: "seg m r rest zs None" and di: "distinct (pre @ c # rest)"
    and no: "\<forall>y \<in> set ys. \<not> P y" and z: "P z"
  shows "unlink_mem P p temp p m = Some (Inr (p, store (last pre) (Node (last ys) r) m))"
proof -
  have last: "cells m (last pre) = Some (Node (last ys) (Some c))"
    using seg_last_cell [OF pre] by simp
  have hd: "p \<noteq> Some c" using pre di by (cases pre) auto
  have walk: "unlink_mem P p t q m = Some (Inr (p, store (last pre) (Node (last ys) r) m))"
    if "seg m q bs vs (Some c)" "bs \<noteq> []" "last bs = last pre" "last vs = last ys"
      "\<forall>y \<in> set vs. \<not> P y" for t q bs vs
    using that
  proof (induction bs arbitrary: t q vs)
    case Nil
    then show ?case by simp
  next
    case (Cons b bs)
    then obtain v vs' q' where v: "vs = v # vs'" "q = Some b" "cells m b = Some (Node v q')"
      "seg m q' bs vs' (Some c)" by auto
    show ?case
    proof (cases "bs = []")
      case True
      with v Cons.prems have "q' = Some c" "b = last pre" by auto
      then show ?thesis using v Cons.prems z c hd last
        by (simp add: unlink_mem.simps [of P p t] unlink_mem.simps [of P p _ "Some c"])
    next
      case False
      with v seg_length [OF v(4)] have "vs' \<noteq> []" by auto
      with False v Cons.prems Cons.IH [OF v(4) False, of q]
      show ?thesis by (simp add: unlink_mem.simps [of P p t])
    qed
  qed
  show ?thesis using walk [OF pre(1,2)] no by simp
qed

lemma break_loop_mem_seg:
  assumes "seg m p pre ys current" and "seg m current rest zs None" and "distinct (pre @ rest)"
    and "pre \<noteq> []" and "\<forall>y \<in> set ys. \<not> P y" and "mem_ok m"
  shows "\<exists>m' as'. break_loop_mem P p current m = Some (Inr (p, m'))
           \<and> chain m' p as' (ys @ filter (\<lambda>y. \<not> P y) zs) \<and> mem_ok m'"
  using assms
proof (induction rest arbitrary: pre ys current zs m)
  case Nil
  then have "chain m p pre ys" by (simp add: chain_def)
  with Nil show ?case by (auto simp: break_loop_mem.simps)
next
  case (Cons c rest)
  then obtain z zs' r where z: "zs = z # zs'" "current = Some c" "cells m c = Some (Node z r)"
    "seg m r rest zs' None" by auto
  show ?case
  proof (cases "P z")
    case True
    let ?t = "last pre" and ?m = "store (last pre) (Node (last ys) r) m"
    have un: "unlink_mem P p None p m = Some (Inr (p, ?m))"
      using unlink_mem_after [of m p pre ys c z r rest zs' P None] Cons.prems z True by simp
    have t: "?t \<in> set pre" using Cons.prems(4) by simp
    have "?t \<noteq> c" "?t \<notin> set rest" using t Cons.prems(3) by auto
    then have "cells ?m c = Some (Node z r)" "seg ?m r rest zs' None" using z by simp_all
    moreover have "seg ?m p pre ys r"
      using seg_redirect [OF Cons.prems(1) Cons.prems(4)] Cons.prems(3) by simp
    moreover have "mem_ok ?m"
      using mem_ok_store [OF Cons.prems(6)] seg_cells [OF Cons.prems(1) t] by simp
    ultimately obtain m' as' where "break_loop_mem P p r ?m = Some (Inr (p, m'))"
      "chain m' p as' (ys @ filter (\<lambda>y. \<not> P y) zs')" "mem_ok m'"
      using Cons.IH [of ?m pre ys r zs'] Cons.prems(3,4,5) by auto
    with z True un \<open>cells ?m c = Some (Node z r)\<close> show ?thesis
      by (auto simp: break_loop_mem.simps [of P p "Some c" m])
  next
    case False
    have "seg m p (pre @ [c]) (ys @ [z]) r" using Cons.prems(1) z by (auto simp: seg_append)
    from Cons.IH [OF this z(4)] Cons.prems(3,5,6) False
    obtain m' as' where "break_loop_mem P p r m = Some (Inr (p, m'))"
      "chain m' p as' ((ys @ [z]) @ filter (\<lambda>y. \<not> P y) zs')" "mem_ok m'" by auto
    with z False show ?thesis
      by (auto simp: break_loop_mem.simps [of P p "Some c" m])
  qed
qed

lemma break_loop_mem_chain:
  assumes "chain m p as xs" and "mem_ok m"
  shows "case break_loop P xs of
      Inl e \<Rightarrow> break_loop_mem P p p m = Some (Inl e)
    | Inr ys \<Rightarrow> \<exists>m' as'. break_loop_mem P p p m = Some (Inr (p, m')) \<and> chain m' p as' ys
        \<and> mem_ok m'"
proof (cases xs)
  case Nil
  with assms show ?thesis
    by (cases as) (auto simp: break_loop_def break_loop_mem.simps chain_def intro!: exI [of _ "[]"])
next
  case (Cons x xs')
  with assms(1) obtain a as' r where a: "as = a # as'" "p = Some a" "cells m a = Some (Node x r)"
    "seg m r as' xs' None" by (cases as) (auto simp: chain_def)
  show ?thesis
  proof (cases "P x")
    case True
    have "unlink_mem P p None p m = Some (Inr (r, free a m))"
      using a True by (simp add: unlink_mem.simps)
    then have "break_loop_mem P p p m = Some (Inl Use_After_Free)"
      using a True by (simp add: break_loop_mem.simps)
    then show ?thesis using Cons True by (simp add: break_loop_def)
  next
    case False
    have "seg m p [a] [x] r" using a by simp
    from break_loop_mem_seg [OF this a(4), of P] assms a False
    obtain m' bs where "break_loop_mem P p r m = Some (Inr (p, m'))"
      "chain m' p bs (x # filter (\<lambda>y. \<not> P y) xs')" "mem_ok m'" by (auto simp: chain_def)
    with a Cons False show ?thesis
      by (auto simp: break_loop_def break_loop_mem.simps [of P "Some a" "Some a" m])
  qed
qed

section \<open>Freeing a list\<close>

lemma free_list_mem_seg:
  assumes "seg m p as xs None" and "distinct as"
  shows "\<exists>m'. free_list_mem p m = Some (Inr (None, m'))
    \<and> (\<forall>a. cells m' a = (if a \<in> set as then None else cells m a))"
  using assms
proof (induction as arbitrary: m p xs)
  case Nil
  then show ?case by (auto simp: free_list_mem.simps)
next
  case (Cons a as)
  then obtain x ys r where a: "p = Some a" "cells m a = Some (Node x r)" "seg m r as ys None"
    by auto
  from a(3) Cons.prems(2) have "seg (free a m) r as ys None" by simp
  from Cons.IH [OF this] Cons.prems(2) obtain m' where
    "free_list_mem r (free a m) = Some (Inr (None, m'))"
    "\<forall>b. cells m' b = (if b \<in> set as then None else cells (free a m) b)" by auto
  with a show ?case by (auto simp: free_list_mem.simps [of "Some a" m])
qed

section \<open>Removing an online user\<close>

text \<open>
  On the list: \<open>stop_index\<close> is where the search of \<open>del_node\<close> stops (the first match before
  the last element, else the last element). The branch \<open>prev == head\<close> also covers the
  second element, and then both of the first two leave the list.
\<close>

fun stop_index :: "('a \<Rightarrow> bool) \<Rightarrow> 'a list \<Rightarrow> nat" where
  "stop_index p (x # y # zs) = (if p x then 0 else Suc (stop_index p (y # zs)))"
| "stop_index p xs = 0"

definition del_node :: "('a \<Rightarrow> bool) \<Rightarrow> 'a list \<Rightarrow> 'a list" where
  "del_node p xs =
     (let i = stop_index p xs
      in if i \<le> 1 then drop (Suc i) xs else take i xs @ drop (Suc i) xs)"

lemma stop_index_less: "xs \<noteq> [] \<Longrightarrow> stop_index p xs < length xs"
  by (induction p xs rule: stop_index.induct) auto

lemma set_del_node: "set (del_node p xs) \<subseteq> set xs"
  by (auto simp: del_node_def Let_def dest: in_set_takeD in_set_dropD split: if_splits)

lemma del_search_seg:
  assumes "seg m (Some c) as xs None"
  shows "del_search p m prev c = Some (Inr
    (if stop_index p xs = 0 then prev else as ! (stop_index p xs - 1), as ! stop_index p xs))"
  using assms
proof (induction as arbitrary: c xs prev)
  case Nil
  then show ?case by simp
next
  case (Cons a as)
  then obtain x ys r where x: "a = c" "xs = x # ys" "cells m c = Some (Node x r)"
    "seg m r as ys None" by auto
  show ?case
  proof (cases r)
    case None
    with x(4) have "as = []" "ys = []" by (cases as, auto)+
    with x None show ?thesis by (simp add: del_search.simps)
  next
    case (Some b)
    with x(4) obtain as' y ys' where as: "as = b # as'" "ys = y # ys'"
      by (cases as) auto
    show ?thesis
    proof (cases "p x")
      case True
      with x Some as show ?thesis by (simp add: del_search.simps)
    next
      case False
      with x Some as Cons.IH [of b ys c] show ?thesis
        by (auto simp: del_search.simps [of p m prev c] nth_Cons' split: if_splits)
    qed
  qed
qed

lemma del_node_mem_chain:
  assumes ch: "chain m h as xs" and ok: "mem_ok m"
  shows "\<exists>h' m' as'. del_node_mem p (h, m) = Some (Inr (h', m'))
    \<and> chain m' h' as' (del_node p xs) \<and> mem_ok m'"
proof (cases as)
  case Nil
  with ch have "h = None" "xs = []" by (auto simp: chain_def)
  with ok show ?thesis by (auto simp: del_node_mem_def del_node_def chain_def intro!: exI [of _ "[]"])
next
  case (Cons a as')
  let ?i = "stop_index p xs"
  from ch have sg: "seg m h as xs None" and di: "distinct as" by (auto simp: chain_def)
  from sg Cons have h: "h = Some a" and ne: "xs \<noteq> []" by auto
  have i: "?i < length as" using stop_index_less [OF ne] seg_length [OF sg] by simp
  obtain r where c: "cells m (as ! ?i) = Some (Node (xs ! ?i) r)"
    and rest: "seg m r (drop (Suc ?i) as) (drop (Suc ?i) xs) None" using seg_nth [OF sg i] by blast
  have search: "del_search p m a a =
      Some (Inr (if ?i = 0 then a else as ! (?i - 1), as ! ?i))"
    using del_search_seg [of m a as xs p a] sg h by simp
  have notin: "as ! ?i \<notin> set (drop (Suc ?i) as)" "as ! ?i \<notin> set (take ?i as)"
    using id_take_nth_drop [OF i] di by (metis distinct.simps(2) distinct_append)
      (metis id_take_nth_drop [OF i] di distinct_append disjoint_iff list.set_intros(1))
  let ?m = "free (as ! ?i) m"
  show ?thesis
  proof (cases "?i \<le> 1")
    case True
    then have "(if ?i = 0 then a else as ! (?i - 1)) = a" using Cons by (auto simp: le_Suc_eq)
    then have "del_node_mem p (h, m) = Some (Inr (r, ?m))"
      using search h c by (simp add: del_node_mem_def)
    moreover have "chain ?m r (drop (Suc ?i) as) (del_node p xs)"
      using rest notin True di by (simp add: chain_def del_node_def Let_def)
    ultimately show ?thesis using mem_ok_free [OF ok] by blast
  next
    case False
    let ?t = "as ! (?i - 1)" and ?y = "xs ! (?i - 1)"
    have ta: "?t \<noteq> a" using False i di Cons by (auto simp: nth_eq_iff_index_eq nth_Cons')
    have tk: "take ?i as \<noteq> []" "last (take ?i as) = ?t" "last (take ?i xs) = ?y"
      using False i seg_length [OF sg] by (auto simp: last_take_nth)
    let ?m1 = "store ?t (Node ?y r) m"
    have s1: "seg m h (take ?i as) (take ?i xs) (Some (as ! ?i))" using seg_take [OF sg i] .
    have cell: "cells m ?t = Some (Node ?y (Some (as ! ?i)))"
      using seg_last_cell [OF s1 tk(1)] tk by simp
    have s2: "seg ?m1 h (take ?i as) (take ?i xs) r"
      using seg_redirect [OF s1 tk(1)] di tk by simp
    have t_in: "?t \<in> set (take ?i as)" using tk by (metis last_in_set)
    have t_out: "?t \<notin> set (drop (Suc ?i) as)" "?t \<noteq> as ! ?i"
      using t_in notin(2) set_take_disj_set_drop_if_distinct [OF di, of ?i "Suc ?i"] by auto
    have "seg (free (as ! ?i) ?m1) h (take ?i as @ drop (Suc ?i) as)
        (take ?i xs @ drop (Suc ?i) xs) None"
      using s2 rest notin t_out by (auto simp: seg_append)
    then have "chain (free (as ! ?i) ?m1) h (take ?i as @ drop (Suc ?i) as) (del_node p xs)"
      using False di set_take_disj_set_drop_if_distinct [OF di, of ?i "Suc ?i"]
      by (simp add: chain_def del_node_def Let_def)
    moreover have "del_node_mem p (h, m) = Some (Inr (h, free (as ! ?i) ?m1))"
      using search h c ta False cell by (simp add: del_node_mem_def)
    moreover have "mem_ok (free (as ! ?i) ?m1)"
      using mem_ok_free [OF mem_ok_store [OF ok, of ?t]] cell by simp
    ultimately show ?thesis by blast
  qed
qed

section \<open>The interface of an append-only list\<close>

text \<open>
  A caller that only appends relies on one law: after \<open>ins x\<close> the list holds one more
  item, at its end. \<open>holds l xs\<close> says that the representation \<open>l\<close> stands for \<open>xs\<close>.
\<close>

fun insert_all :: "('a \<Rightarrow> 'l \<Rightarrow> 'l result option) \<Rightarrow> 'a list \<Rightarrow> 'l \<Rightarrow> 'l result option" where
  "insert_all ins [] l = Some (Inr l)"
| "insert_all ins (x # xs) l =
     (case ins x l of
        None \<Rightarrow> None
      | Some (Inl e) \<Rightarrow> Some (Inl e)
      | Some (Inr l') \<Rightarrow> insert_all ins xs l')"

locale append_list =
  fixes holds :: "'l \<Rightarrow> 'a list \<Rightarrow> bool"
    and ins :: "'a \<Rightarrow> 'l \<Rightarrow> 'l result option"
  assumes ins_holds: "holds l xs \<Longrightarrow> \<exists>l'. ins x l = Some (Inr l') \<and> holds l' (xs @ [x])"
begin

lemma insert_all_holds:
  "holds l xs \<Longrightarrow> \<exists>l'. insert_all ins ys l = Some (Inr l') \<and> holds l' (xs @ ys)"
proof (induction ys arbitrary: l xs)
  case Nil
  then show ?case by simp
next
  case (Cons y ys)
  from ins_holds [OF Cons.prems, of y] obtain l1
    where "ins y l = Some (Inr l1)" "holds l1 (xs @ [y])" by blast
  with Cons.IH [of l1 "xs @ [y]"] show ?case by auto
qed

end

text \<open>A head pointer and its store stand for a list when the nodes form a chain.\<close>

definition list_in_mem :: "nat option \<times> 'a mem \<Rightarrow> 'a list \<Rightarrow> bool" where
  "list_in_mem s xs \<longleftrightarrow> (case s of (p, m) \<Rightarrow> mem_ok m \<and> (\<exists>as. chain m p as xs))"

lemma list_in_mem_empty [simp]: "list_in_mem (None, empty_mem) []"
  by (auto simp: list_in_mem_def chain_def intro!: exI [of _ "[]"])

interpretation charu: append_list list_in_mem charu_list_mem
proof unfold_locales
  fix l :: "nat option \<times> 'a mem" and xs x
  assume "list_in_mem l xs"
  then obtain p m as where "l = (p, m)" "mem_ok m" "chain m p as xs"
    by (auto simp: list_in_mem_def)
  with charu_list_mem_chain [of m p as xs x]
  show "\<exists>l'. charu_list_mem x l = Some (Inr l') \<and> list_in_mem l' (xs @ [x])"
    by (auto simp: list_in_mem_def)
qed

text \<open>
  How the handlers call \<open>weicha_list\<close>: allocate a node, fill it in, set its successor to
  NULL, then pass it on.
\<close>

definition push_node :: "'a \<Rightarrow> nat option \<times> 'a mem \<Rightarrow> (nat option \<times> 'a mem) result option" where
  "push_node x s =
     (case s of (phead, m) \<Rightarrow>
        (case malloc m (Node x None) of (new_node, m') \<Rightarrow> weicha_list_mem new_node (phead, m')))"

interpretation weicha: append_list list_in_mem push_node
proof unfold_locales
  fix l :: "nat option \<times> 'a mem" and xs x
  assume "list_in_mem l xs"
  moreover have "push_node x l = charu_list_mem x l"
    by (cases l) (simp add: push_node_def charu_list_mem_def weicha_list_mem_def)
  ultimately show "\<exists>l'. push_node x l = Some (Inr l') \<and> list_in_mem l' (xs @ [x])"
    using charu.ins_holds [of l xs x] by simp
qed

text \<open>
  The row loops of \<open>read_mysql_user\<close> and its siblings keep the last node in \<open>current\<close>, which
  has no value before the first row.
\<close>

definition row_insert ::
  "'a \<Rightarrow> nat option \<times> nat option \<times> 'a mem \<Rightarrow> (nat option \<times> nat option \<times> 'a mem) result option" where
  "row_insert x s =
     (case s of (phead, current, m) \<Rightarrow>
        (case malloc m (Node x None) of (a, m') \<Rightarrow>
           Some (case phead of
                   None \<Rightarrow> Inr (Some a, Some a, m')
                 | Some h \<Rightarrow>
                     (case current of
                        None \<Rightarrow> Inl Uninit_Read
                      | Some c \<Rightarrow> rbind (set_next c (Some a) m') (\<lambda>m''.
                          Inr (phead, Some a, m''))))))"

definition rows_in_mem :: "nat option \<times> nat option \<times> 'a mem \<Rightarrow> 'a list \<Rightarrow> bool" where
  "rows_in_mem s xs \<longleftrightarrow> (case s of (p, current, m) \<Rightarrow>
     mem_ok m \<and> (\<exists>as. chain m p as xs \<and> (as \<noteq> [] \<longrightarrow> current = Some (last as))))"

lemma row_insert_holds:
  assumes "rows_in_mem s xs"
  shows "\<exists>s'. row_insert x s = Some (Inr s') \<and> rows_in_mem s' (xs @ [x])"
proof -
  obtain p current m where s: "s = (p, current, m)" by (cases s)
  with assms obtain as where ok: "mem_ok m" and ch: "chain m p as xs"
    and cur: "as \<noteq> [] \<longrightarrow> current = Some (last as)" by (auto simp: rows_in_mem_def)
  obtain a m1 where ma: "malloc m (Node x None) = (a, m1)" by (cases "malloc m (Node x None)")
  from chain_malloc [OF ch ok ma]
  have m1: "chain m1 p as xs" "cells m1 a = Some (Node x None)" "a \<notin> set as" "mem_ok m1" .
  show ?thesis
  proof (cases "as = []")
    case True
    with m1 s ma show ?thesis
      by (auto simp: row_insert_def rows_in_mem_def chain_def intro!: exI [of _ "[a]"])
  next
    case False
    from m1(1) have sg: "seg m1 p as xs None" "distinct as" by (auto simp: chain_def)
    from seg_last_cell [OF sg(1) False] have c: "cells m1 (last as) = Some (Node (last xs) None)" .
    let ?m = "store (last as) (Node (last xs) (Some a)) m1"
    have "seg ?m p as xs (Some a)" using seg_redirect [OF sg(1) False sg(2)] .
    moreover have "last as \<noteq> a" using False m1(3) by auto
    ultimately have "chain ?m p (as @ [a]) (xs @ [x])"
      using m1(2,3) sg(2) by (auto simp: chain_def seg_append)
    moreover have "mem_ok ?m" using mem_ok_store [OF m1(4)] c by simp
    moreover obtain h where "p = Some h" using sg False by (cases as) auto
    ultimately show ?thesis using s ma cur False c
      by (auto simp: row_insert_def rows_in_mem_def intro!: exI [of _ "as @ [a]"])
  qed
qed

interpretation rows: append_list rows_in_mem row_insert
  by unfold_locales (rule row_insert_holds)

section \<open>Properties\<close>

lemma stop_index_at:
  "\<forall>a \<in> set as. \<not> P a \<Longrightarrow> P x \<or> bs = [] \<Longrightarrow> stop_index P (as @ x # bs) = length as"
proof (induction as)
  case Nil
  then show ?case by (cases bs) auto
next
  case (Cons a as)
  then show ?case by (cases as) auto
qed

lemma del_node_at:
  "\<forall>a \<in> set as. \<not> P a \<Longrightarrow> P x \<or> bs = [] \<Longrightarrow>
     del_node P (as @ x # bs) = (if length as = 1 then bs else as @ bs)"
  by (auto simp: del_node_def stop_index_at Let_def le_Suc_eq)

text \<open>
  C15: The pointer routine that takes a user off the online list computes, on every chain of
  nodes, what \<open>del_node\<close> computes on the list: the elements before the first match (or before
  the last element when nothing matches) and those after it, except that when that element is
  the second of the list the first one is lost with it.
\<close>

theorem del_node_removes:
  assumes "chain m h ns (as @ x # bs)" and "mem_ok m"
    and "\<forall>a \<in> set as. \<not> P a" and "P x \<or> bs = []"
  shows "\<exists>h' m' ns'. del_node_mem P (h, m) = Some (Inr (h', m')) \<and> mem_ok m'
    \<and> chain m' h' ns' (if length as = 1 then bs else as @ bs)"
  using del_node_mem_chain [OF assms(1,2), of P] del_node_at [OF assms(3,4)] by auto

definition two_nodes :: "nat mem" where
  "two_nodes = \<lparr>cells = [0 \<mapsto> Node 7 (Some 1), 1 \<mapsto> Node 8 None], brk = 2\<rparr>"

lemma two_nodes_ok: "chain two_nodes (Some 0) [0, 1] [7, 8]" "mem_ok two_nodes"
  by (auto simp: two_nodes_def chain_def mem_ok_def)

theorem del_node_removes_witness:
  "\<exists>h' m' ns'. del_node_mem (\<lambda>x. x = 8) (Some 0, two_nodes) = Some (Inr (h', m'))
     \<and> mem_ok m' \<and> chain m' h' ns' []"
  using del_node_removes [of two_nodes "Some 0" "[0, 1]" "[7]" 8 "[]" "\<lambda>x. x = 8"] two_nodes_ok
  by simp

text \<open>
  C14: The three ways of appending agree with the list: from the empty list, inserting any items
  with \<open>charu_list\<close>, with \<open>weicha_list\<close> or with the row loops of the start-up builds a chain of
  exactly these items in this order, and no insertion fails or runs forever.
\<close>

theorem appends_build_list:
  "(\<exists>h m ns. insert_all charu_list_mem xs (None, empty_mem) = Some (Inr (h, m)) \<and> chain m h ns xs)
   \<and> (\<exists>h m ns. insert_all push_node xs (None, empty_mem) = Some (Inr (h, m)) \<and> chain m h ns xs)
   \<and> (\<exists>h c m ns. insert_all row_insert xs (None, None, empty_mem) = Some (Inr (h, c, m)) \<and> chain m h ns xs)"
proof -
  have "rows_in_mem (None, None, empty_mem) []"
    by (auto simp: rows_in_mem_def chain_def intro!: exI [of _ "[]"])
  from rows.insert_all_holds [OF this, of xs]
    charu.insert_all_holds [OF list_in_mem_empty, of xs]
    weicha.insert_all_holds [OF list_in_mem_empty, of xs]
  show ?thesis by (simp add: list_in_mem_def rows_in_mem_def) blast
qed

text \<open>
  The loop of \<open>break_group\<close> over the relations. When the first node of the list belongs to
  the dissolved group the loop reads a node after \<open>free\<close>; otherwise it leaves exactly the
  nodes of the other groups, in order.
\<close>

theorem break_loop_outcome:
  assumes "chain m h ns xs" and "mem_ok m"
  shows "if xs \<noteq> [] \<and> P (hd xs) then break_loop_mem P h h m = Some (Inl Use_After_Free)
    else (\<exists>h' m' ns'. break_loop_mem P h h m = Some (Inr (h', m'))
      \<and> chain m' h' ns' (filter (\<lambda>x. \<not> P x) xs) \<and> mem_ok m')"
  using break_loop_mem_chain [OF assms, of P] by (cases xs) (auto simp: break_loop_def)

theorem break_loop_outcome_witness:
  "break_loop_mem (\<lambda>x. x = 7) (Some 0) (Some 0) two_nodes = Some (Inl Use_After_Free)"
  using break_loop_outcome [OF two_nodes_ok, of "\<lambda>x. x = 7"] by simp

text \<open>
  \<open>free_list\<close> returns every node of its list to the allocator, once, touches no other
  address, and leaves the head NULL.
\<close>

theorem free_list_frees:
  assumes "chain m h ns xs"
  shows "\<exists>m'. free_list_mem h m = Some (Inr (None, m'))
    \<and> cells m' = (\<lambda>a. if a \<in> set ns then None else cells m a)"
  using free_list_mem_seg [of m h ns xs] assms by (auto simp: chain_def fun_eq_iff)

theorem free_list_frees_witness:
  "\<exists>m'. free_list_mem (Some 0) two_nodes = Some (Inr (None, m')) \<and> cells m' = (\<lambda>a. None)"
  using free_list_frees [OF two_nodes_ok(1)] by (force simp: two_nodes_def)

end
