(* ===== verification/Server_Group.thy ===== *)
theory Server_Group
  imports Server_Demo Node_Heap
begin

text \<open>
  The group requests of \<open>epoll.c\<close>: viewing, chatting, joining, leaving, members, dissolving,
  managers and creating. A relation \<open>(g, u, t)\<close> says that \<open>u\<close> is in the group \<open>g\<close> as its
  owner (1), a manager (2) or a member (3).
\<close>

section \<open>Query texts\<close>

definition sql_group_record :: "MSG \<Rightarrow> string \<Rightarrow> string" where
  "sql_group_record m status = ''insert into group_record values(NULL,'' @ quoted (news m) @ '','' @
     quoted (to_name m) @ '','' @ quoted (from_name m) @ '','' @ quoted (to_group_name m) @ '','' @
     status @ '','' @ quoted (time_str m) @ '')''"

definition sql_insert_relation :: "string \<Rightarrow> string \<Rightarrow> string \<Rightarrow> string" where
  "sql_insert_relation g u ty =
     ''insert into group_relationship values('' @ quoted g @ '','' @ quoted u @ '','' @ ty @ '')''"

definition sql_relation_where :: "string \<Rightarrow> string \<Rightarrow> string" where
  "sql_relation_where g u = '' where group_name = '' @ quoted g @ '' and user_name = '' @ quoted u"

definition sql_delete_relation :: "string \<Rightarrow> string \<Rightarrow> string" where
  "sql_delete_relation g u = ''delete from group_relationship'' @ sql_relation_where g u"

definition sql_delete_group :: "string \<Rightarrow> string" where
  "sql_delete_group g = ''delete from user_groups where name = '' @ quoted g"

definition sql_delete_members :: "string \<Rightarrow> string" where
  "sql_delete_members g = ''delete from group_relationship where group_name = '' @ quoted g"

definition sql_set_manager :: "string \<Rightarrow> string \<Rightarrow> string" where
  "sql_set_manager g u = ''update group_relationship set user_type = 2'' @ sql_relation_where g u"

definition sql_insert_group :: "string \<Rightarrow> string \<Rightarrow> string" where
  "sql_insert_group g u = ''insert into user_groups values('' @ quoted g @ '','' @ quoted u @ '')''"

section \<open>Viewing the groups of a user\<close>

fun send_groups ::
  "int \<Rightarrow> mysql_group_relationship list \<Rightarrow> bool \<Rightarrow> MSG \<Rightarrow> server \<Rightarrow> bool \<times> MSG \<times> server" where
  "send_groups fd [] flag m s = (flag, m, s)"
| "send_groups fd (r # rs) flag m s =
     (if r_user_name r = name (user_infor m)
      then (let m' = m\<lparr>group_of := (group_of m)\<lparr>group_name := r_group_name r\<rparr>\<rparr>
            in send_groups fd rs True m' (send fd m' s))
      else send_groups fd rs flag m s)"

definition view_group :: "mysql_env \<Rightarrow> int \<Rightarrow> MSG \<Rightarrow> server \<Rightarrow> server result" where
  "view_group env conn_fd m s =
     (case send_groups conn_fd (head_group_relationship s) False m s of
        (flag, m', s') \<Rightarrow> Inr (if flag then s' else reply conn_fd m' 211 s'))"

section \<open>Group chat\<close>

text \<open>
  The loop over the members: the packet is changed in place, so \<open>to_name\<close> keeps the last
  receiver. Every member but the sender gets a record, a member online also the packet.
\<close>

fun public_loop ::
  "mysql_env \<Rightarrow> nat \<Rightarrow> mysql_group_relationship list \<Rightarrow> MSG \<Rightarrow> server \<Rightarrow> server result" where
  "public_loop env h [] m s = Inr s"
| "public_loop env h (r # rs) m s =
     (if r_group_name r = to_group_name m then
        if r_user_name r = from_name m then public_loop env h rs m s
        else
          (let m' = m\<lparr>to_name := r_user_name r\<rparr>
           in case find_online (r_user_name r) s of
                None \<Rightarrow> rbind (run_sql env h 4096 (sql_group_record m' ''0'') s)
                          (public_loop env h rs m')
              | Some d \<Rightarrow> rbind (run_sql env h 4096 (sql_group_record m' ''1'') s) (\<lambda>s1.
                            public_loop env h rs m' (send (d_socket d) m' s1)))
      else public_loop env h rs m s)"

definition public_chat :: "mysql_env \<Rightarrow> int \<Rightarrow> MSG \<Rightarrow> server \<Rightarrow> server result" where
  "public_chat env conn_fd m s =
     rbind (connect_mysql env s) (\<lambda>(h, s1).
       if find_first (in_group (to_group_name m) (from_name m)) (head_group_relationship s1) = None
       then Inr (reply conn_fd m 220 s1)
       else public_loop env h (head_group_relationship s1) m s1)"

section \<open>Joining and leaving\<close>

definition add_group :: "mysql_env \<Rightarrow> int \<Rightarrow> MSG \<Rightarrow> server \<Rightarrow> server result" where
  "add_group env conn_fd m s =
     (if find_first (in_group (to_group_name m) (from_name m)) (head_group_relationship s) \<noteq> None
      then Inr (reply conn_fd m 230 s)
      else
        (case find_first (is_group (to_group_name m)) (head_user_groups s) of
           None \<Rightarrow> Inr (reply conn_fd m 231 s)
         | Some g \<Rightarrow>
             (let m' = m\<lparr>to_name := g_owner g\<rparr>
              in case find_online (to_name m') s of
                   None \<Rightarrow> queue_request (from_name m') (to_name m') None (CHR ''g'') s
                 | Some d \<Rightarrow> Inr (send (d_socket d) m' s))))"

definition quit_group :: "mysql_env \<Rightarrow> int \<Rightarrow> MSG \<Rightarrow> server \<Rightarrow> server result" where
  "quit_group env conn_fd m s =
     (case find_first (is_group (to_group_name m)) (head_user_groups s) of
        None \<Rightarrow> Inr (reply conn_fd m 240 s)
      | Some g \<Rightarrow>
          if g_owner g = from_name m then Inr (reply conn_fd m 241 s)
          else
            (let m' = m\<lparr>to_name := g_owner g\<rparr>
             in if find_first (in_group (to_group_name m') (from_name m'))
                     (head_group_relationship s) = None
                then Inr (reply conn_fd m' 242 s)
                else
                  rbind (run_sql env 0 200
                      (sql_delete_relation (to_group_name m') (from_name m')) s) (\<lambda>s1.
                    let s2 = s1\<lparr>head_group_relationship :=
                          remove_first (in_group (to_group_name m') (from_name m'))
                            (head_group_relationship s1)\<rparr>;
                        s3 = reply conn_fd m' 243 s2
                    in case find_online (to_name m') s3 of
                         None \<Rightarrow> queue_request (from_name m') (to_name m')
                                   (Some (to_group_name m')) (CHR ''q'') s3
                       | Some d \<Rightarrow> Inr (reply (d_socket d) m' 24 s3))))"

section \<open>Members, dissolving, managers\<close>

fun send_members :: "int \<Rightarrow> mysql_group_relationship list \<Rightarrow> MSG \<Rightarrow> server \<Rightarrow> server" where
  "send_members fd [] m s = s"
| "send_members fd (r # rs) m s =
     (if r_group_name r = to_group_name m
      then (let m' = m\<lparr>to_name := r_user_name r, friend_num := r_type r\<rparr>
            in send_members fd rs m' (send fd m' s))
      else send_members fd rs m s)"

definition view_group_member :: "mysql_env \<Rightarrow> int \<Rightarrow> MSG \<Rightarrow> server \<Rightarrow> server result" where
  "view_group_member env conn_fd m s =
     (if find_first (is_group (to_group_name m)) (head_user_groups s) = None
      then Inr (reply conn_fd m 2510 s)
      else if find_first (in_group (to_group_name m) (from_name m)) (head_group_relationship s) = None
      then Inr (reply conn_fd m 2511 s)
      else Inr (send_members conn_fd (head_group_relationship s) m s))"

definition break_group :: "mysql_env \<Rightarrow> int \<Rightarrow> MSG \<Rightarrow> server \<Rightarrow> server result" where
  "break_group env conn_fd m s =
     (case find_first (is_group (to_group_name m)) (head_user_groups s) of
        None \<Rightarrow> Inr (reply conn_fd m 2520 s)
      | Some g \<Rightarrow>
          if g_owner g \<noteq> from_name m then Inr (reply conn_fd m 2521 s)
          else
            rbind (run_sql env 0 200 (sql_delete_group (to_group_name m)) s) (\<lambda>s1.
              let s2 = s1\<lparr>head_user_groups :=
                           remove_first (is_group (to_group_name m)) (head_user_groups s1)\<rparr>
              in rbind (run_sql env 0 200 (sql_delete_members (to_group_name m)) s2) (\<lambda>s3.
                 rbind (break_loop (\<lambda>r. r_group_name r = to_group_name m)
                     (head_group_relationship s3)) (\<lambda>rs.
                   Inr (send conn_fd m (s3\<lparr>head_group_relationship := rs\<rparr>))))))"

text \<open>
  \<open>set_manager\<close> prints the type of the node its first search stopped at before it tests
  whether the search found one; after a search without a match that node is NULL.
\<close>

definition is_owner_row :: "string \<Rightarrow> string \<Rightarrow> mysql_group_relationship \<Rightarrow> bool" where
  "is_owner_row g u r \<longleftrightarrow> in_group g u r \<and> r_type r = 1"

definition set_manager :: "mysql_env \<Rightarrow> int \<Rightarrow> MSG \<Rightarrow> server \<Rightarrow> server result" where
  "set_manager env conn_fd m s =
     (let found = find_first (is_owner_row (to_group_name m) (from_name m))
                    (head_group_relationship s)
      in rbind (case found of None \<Rightarrow> Inl Null_Deref | Some r \<Rightarrow> Inr (r_type r)) (\<lambda>_.
           if found = None then Inr (reply conn_fd m 2530 s)
           else if find_first (in_group (to_group_name m) (to_name m)) (head_group_relationship s) = None
           then Inr (reply conn_fd m 2531 s)
           else
             rbind (run_sql env 0 200 (sql_set_manager (to_group_name m) (to_name m)) s) (\<lambda>s1.
               Inr (send conn_fd m (s1\<lparr>head_group_relationship :=
                 update_first (in_group (to_group_name m) (to_name m))
                   (r_type_update (\<lambda>_. 2)) (head_group_relationship s1)\<rparr>)))))"

section \<open>Answering a request to join\<close>

text \<open>The result of the insertion into \<open>group_relationship\<close> is ignored here.\<close>

definition deal_group_request_y :: "mysql_env \<Rightarrow> int \<Rightarrow> MSG \<Rightarrow> server \<Rightarrow> server result" where
  "deal_group_request_y env conn_fd m s =
     rbind (sprintf 200 (sql_insert_relation (to_group_name m) (from_name m) ''3'')) (\<lambda>str.
       let s1 = snd (mysql_real_query env 0 str s)
       in rbind (new_relation (to_group_name m) (from_name m) 3) (\<lambda>r.
            let s2 = s1\<lparr>head_group_relationship := head_group_relationship s1 @ [r]\<rparr>
            in case find_online (from_name m) s2 of
                 None \<Rightarrow> queue_request (from_name m) (to_group_name m)
                           (Some (to_group_name m)) (CHR ''o'') s2
               | Some d \<Rightarrow> Inr (send (d_socket d) m s2)))"

definition deal_group_request_n :: "mysql_env \<Rightarrow> int \<Rightarrow> MSG \<Rightarrow> server \<Rightarrow> server result" where
  "deal_group_request_n env conn_fd m s =
     (case find_online (from_name m) s of
        None \<Rightarrow> queue_request (from_name m) (to_group_name m) (Some (to_group_name m)) (CHR ''x'') s
      | Some d \<Rightarrow> Inr (send (d_socket d) m s))"

section \<open>Creating a group\<close>

definition create_group :: "mysql_env \<Rightarrow> int \<Rightarrow> MSG \<Rightarrow> server \<Rightarrow> server result" where
  "create_group env conn_fd m s =
     (let gn = group_name (group_of m); ow = group_owner (group_of m)
      in if find_first (is_group gn) (head_user_groups s) \<noteq> None
         then Inr (reply conn_fd m 50 s)
         else
           rbind (run_sql env 0 4096 (sql_insert_group gn ow) s) (\<lambda>s1.
           rbind (strcpy 20 gn) (\<lambda>gn'. rbind (strcpy 20 ow) (\<lambda>ow'.
             let s2 = s1\<lparr>head_user_groups := head_user_groups s1 @ [\<lparr>g_name = gn', g_owner = ow'\<rparr>]\<rparr>
             in rbind (run_sql env 0 4096 (sql_insert_relation gn ow ''1'') s2) (\<lambda>s3.
                rbind (new_relation gn ow 1) (\<lambda>r.
                  Inr (send conn_fd m (s3\<lparr>head_group_relationship :=
                    head_group_relationship s3 @ [r]\<rparr>))))))))"

section \<open>The handlers meet their contract\<close>

lemma send_groups_frame:
  "send_groups fd rs flag m s = (flag', m', s') \<Longrightarrow> \<exists>ps. s' = s\<lparr>sent := sent s @ ps\<rparr>"
proof (induction fd rs flag m s rule: send_groups.induct)
  case (1 fd flag m s)
  then show ?case by (auto intro!: exI [of _ "[]"])
next
  case (2 fd r rs flag m s)
  then show ?case by (fastforce simp: send_def Let_def split: if_splits)
qed

lemma send_members_eq:
  "send_members fd rs m s = s\<lparr>sent := sent s @
     map (\<lambda>r. (fd, Packet (m\<lparr>to_name := r_user_name r, friend_num := r_type r\<rparr>)))
       (filter (\<lambda>r. r_group_name r = to_group_name m) rs)\<rparr>"
  by (induction fd rs m s rule: send_members.induct) (simp_all add: Let_def send_def)

lemma public_loop_frame:
  "public_loop env h rs m s = Inr s' \<Longrightarrow>
   \<exists>qs ps. s' = s\<lparr>queries := queries s @ qs, sent := sent s @ ps\<rparr>"
proof (induction rs arbitrary: m s)
  case Nil
  then show ?case by (auto intro!: exI [of _ "[]"])
next
  case (Cons r rs)
  let ?m = "m\<lparr>to_name := r_user_name r\<rparr>"
  show ?case
  proof (cases "r_group_name r = to_group_name m \<and> r_user_name r \<noteq> from_name m")
    case False
    with Cons show ?thesis by (auto split: if_splits)
  next
    case True
    show ?thesis
    proof (cases "find_online (r_user_name r) s")
      case None
      let ?q = "(h, sql_group_record ?m ''0'')"
      from True None Cons.prems
      have "public_loop env h rs ?m (s\<lparr>queries := queries s @ [?q]\<rparr>) = Inr s'"
        by (auto simp: result_simps Let_def)
      from Cons.IH [OF this] show ?thesis by auto
    next
      case (Some d)
      let ?q = "(h, sql_group_record ?m ''1'')"
      from True Some Cons.prems
      have "public_loop env h rs ?m (send (d_socket d) ?m (s\<lparr>queries := queries s @ [?q]\<rparr>)) = Inr s'"
        by (auto simp: result_simps Let_def)
      from Cons.IH [OF this] show ?thesis by (auto simp: send_def)
    qed
  qed
qed

interpretation view_group_handler: request_handler "view_group env" for env
proof unfold_locales
  fix s fd m s'
  assume "view_group env fd m s = Inr s'"
  then show "server_wf s \<Longrightarrow> server_wf s'" and "grows s s'"
    by (auto simp: view_group_def grows_iff reply_def dest!: send_groups_frame
        split: if_splits prod.splits)
qed

interpretation public_chat_handler: request_handler "public_chat env" for env
proof unfold_locales
  fix s fd m s'
  assume "public_chat env fd m s = Inr s'"
  then show "server_wf s \<Longrightarrow> server_wf s'" and "grows s s'"
    by (auto simp: public_chat_def result_simps grows_iff reply_def server_wf_def
        dest!: public_loop_frame split: if_splits)
qed

interpretation add_group_handler: request_handler "add_group env" for env
proof unfold_locales
  fix s fd m s'
  assume "add_group env fd m s = Inr s'"
  then show "server_wf s \<Longrightarrow> server_wf s'" and "grows s s'"
    by (auto simp: add_group_def result_simps grows_iff reply_def server_wf_def wf_request_def
        Let_def intro!: wf_intros split: if_splits option.splits)
qed

lemma owner_of_group:
  assumes "lists_wf us fs gs rs ds qs" and "find_first (is_group gn) gs = Some g"
    and "h \<in> set gs" and "g_name h = gn"
  shows "h = g"
  using find_first_unique [of g_name gs h "is_group gn"] assms
  by (auto simp: lists_wf_defs is_group_def)

interpretation quit_group_handler: request_handler "quit_group env" for env
proof unfold_locales
  fix s fd m s'
  assume "quit_group env fd m s = Inr s'"
  then show "server_wf s \<Longrightarrow> server_wf s'" and "grows s s'"
    by (auto simp: quit_group_def result_simps grows_iff reply_def server_wf_def wf_request_def
        Let_def dest: owner_of_group intro!: wf_intros wf_remove_relation
        split: if_splits option.splits)
qed

interpretation view_member_handler: request_handler "view_group_member env" for env
proof unfold_locales
  fix s fd m s'
  assume "view_group_member env fd m s = Inr s'"
  then show "server_wf s \<Longrightarrow> server_wf s'" and "grows s s'"
    by (auto simp: view_group_member_def send_members_eq grows_iff reply_def server_wf_def
        split: if_splits)
qed

lemma break_loop_filter: "break_loop P xs = Inr ys \<Longrightarrow> ys = filter (\<lambda>x. \<not> P x) xs"
  by (auto simp: break_loop_def split: list.splits if_splits)

interpretation break_group_handler: request_handler "break_group env" for env
proof unfold_locales
  fix s fd m s'
  assume "break_group env fd m s = Inr s'"
  then show "server_wf s \<Longrightarrow> server_wf s'" and "grows s s'"
    by (auto simp: break_group_def result_simps grows_iff reply_def server_wf_def Let_def
        dest!: break_loop_filter intro!: wf_remove_group split: if_splits option.splits)
qed

interpretation set_manager_handler: request_handler "set_manager env" for env
proof unfold_locales
  fix s fd m s'
  assume "set_manager env fd m s = Inr s'"
  then show "server_wf s \<Longrightarrow> server_wf s'" and "grows s s'"
    by (auto simp: set_manager_def result_simps grows_iff reply_def server_wf_def Let_def
        intro!: wf_intros split: if_splits option.splits)
qed

interpretation group_y_handler: request_handler "deal_group_request_y env" for env
proof unfold_locales
  fix s fd m s'
  assume "deal_group_request_y env fd m s = Inr s'"
  then show "server_wf s \<Longrightarrow> server_wf s'" and "grows s s'"
    by (auto simp: deal_group_request_y_def mysql_real_query_def result_simps grows_iff
        server_wf_def wf_request_def wf_relation_def Let_def intro!: wf_intros split: option.splits)
qed

interpretation group_n_handler: request_handler "deal_group_request_n env" for env
proof unfold_locales
  fix s fd m s'
  assume "deal_group_request_n env fd m s = Inr s'"
  then show "server_wf s \<Longrightarrow> server_wf s'" and "grows s s'"
    by (auto simp: deal_group_request_n_def result_simps grows_iff server_wf_def wf_request_def
        intro!: wf_intros split: option.splits)
qed

interpretation create_group_handler: request_handler "create_group env" for env
proof unfold_locales
  fix s fd m s'
  assume "create_group env fd m s = Inr s'"
  then show "server_wf s \<Longrightarrow> server_wf s'" and "grows s s'"
    by (auto simp: create_group_def result_simps grows_iff reply_def server_wf_def Let_def
        wf_group_def wf_relation_def in_group_def list_ops intro!: wf_add_group split: if_splits)
qed

section \<open>Properties of group chat\<close>

lemma group_record_fits:
  "wf_MSG m \<Longrightarrow> length st = 1 \<Longrightarrow> fits 20 u \<Longrightarrow> fits 4096 (sql_group_record (m\<lparr>to_name := u\<rparr>) st)"
  by (simp add: wf_MSG_def fits_def sql_group_record_def)

text \<open>The members a group message is meant for.\<close>

definition receivers :: "MSG \<Rightarrow> mysql_group_relationship list \<Rightarrow> mysql_group_relationship list" where
  "receivers m rs = filter (\<lambda>r. r_group_name r = to_group_name m \<and> r_user_name r \<noteq> from_name m) rs"

definition record_of :: "nat \<Rightarrow> MSG \<Rightarrow> server \<Rightarrow> mysql_group_relationship \<Rightarrow> nat \<times> string" where
  "record_of h m s r = (h, sql_group_record (m\<lparr>to_name := r_user_name r\<rparr>)
     (if find_online (r_user_name r) s = None then ''0'' else ''1''))"

definition copies_to :: "MSG \<Rightarrow> server \<Rightarrow> mysql_group_relationship \<Rightarrow> (int \<times> outgoing) list" where
  "copies_to m s r = (case find_online (r_user_name r) s of
     None \<Rightarrow> [] | Some d \<Rightarrow> [(d_socket d, Packet (m\<lparr>to_name := r_user_name r\<rparr>))])"

lemma public_loop_eq:
  assumes "mysql_works env" and "wf_MSG m" and "\<forall>r \<in> set rs. wf_relation r"
  shows "public_loop env h rs m s = Inr (s\<lparr>
      queries := queries s @ map (record_of h m s) (receivers m rs),
      sent := sent s @ concat (map (copies_to m s) (receivers m rs))\<rparr>)"
  using assms(2,3)
proof (induction rs arbitrary: m s)
  case Nil
  then show ?case by (simp add: receivers_def)
next
  case (Cons r rs)
  let ?m = "m\<lparr>to_name := r_user_name r\<rparr>"
  have u: "fits 20 (r_user_name r)" using Cons.prems(2) by (simp add: wf_relation_def)
  then have wf: "wf_MSG ?m" "\<forall>r \<in> set rs. wf_relation r" using Cons.prems by (auto simp: wf_MSG_def)
  have same: "receivers ?m rs = receivers m rs" "record_of h ?m = record_of h m"
    "copies_to ?m = copies_to m"
    by (auto simp: receivers_def record_of_def copies_to_def fun_eq_iff split: option.splits)
  have frame: "record_of h m (t\<lparr>queries := qs, sent := ps\<rparr>) = record_of h m t"
    "copies_to m (t\<lparr>queries := qs, sent := ps\<rparr>) = copies_to m t"
    "record_of h m (t\<lparr>queries := qs\<rparr>) = record_of h m t"
    "copies_to m (t\<lparr>queries := qs\<rparr>) = copies_to m t" for t qs ps
    by (auto simp: record_of_def copies_to_def find_online_def fun_eq_iff)
  show ?case
  proof (cases "r_group_name r = to_group_name m \<and> r_user_name r \<noteq> from_name m")
    case False
    then have "public_loop env h (r # rs) m s = public_loop env h rs m s"
      "receivers m (r # rs) = receivers m rs" by (auto simp: receivers_def)
    with Cons.IH [OF Cons.prems(1) wf(2)] show ?thesis by simp
  next
    case True
    then have rec: "receivers m (r # rs) = r # receivers m rs" by (simp add: receivers_def)
    show ?thesis
    proof (cases "find_online (r_user_name r) s")
      case None
      with True Cons.IH [OF wf, of "s\<lparr>queries := queries s @ [(h, sql_group_record ?m ''0'')]\<rparr>"] rec same
        group_record_fits [OF Cons.prems(1) _ u, of "''0''"] frame
      show ?thesis by (simp add: mysql_works_simps [OF assms(1)] record_of_def [of h m s r]
            copies_to_def [of m s r])
    next
      case (Some d)
      with True Cons.IH [OF wf, of "send (d_socket d) ?m
          (s\<lparr>queries := queries s @ [(h, sql_group_record ?m ''1'')]\<rparr>)"] rec same
        group_record_fits [OF Cons.prems(1) _ u, of "''1''"] frame
      show ?thesis by (simp add: mysql_works_simps [OF assms(1)] record_of_def [of h m s r]
            copies_to_def [of m s r] send_def Let_def)
    qed
  qed
qed

text \<open>
  C9: A message to a group by one of its members leaves one record for every other member, in
  the order of the relations and on one fresh connection, marked read for the members online
  and unread for the others; every member online, and nobody else, is sent the packet with
  the own name as receiver.
\<close>

theorem public_chat_reaches_members:
  assumes "mysql_works env" and "wf_MSG m" and "server_wf s"
    and "\<exists>r \<in> set (head_group_relationship s). r_group_name r = to_group_name m \<and> r_user_name r = from_name m"
  shows "public_chat env fd m s =
    (let h = Suc (connections s);
         rs = filter (\<lambda>r. r_group_name r = to_group_name m \<and> r_user_name r \<noteq> from_name m)
                (head_group_relationship s)
     in Inr (s\<lparr>connections := h,
          queries := queries s @ map (\<lambda>r. (h, sql_group_record (m\<lparr>to_name := r_user_name r\<rparr>)
             (if find_online (r_user_name r) s = None then ''0'' else ''1''))) rs,
          sent := sent s @ concat (map (\<lambda>r. case find_online (r_user_name r) s of
             None \<Rightarrow> [] | Some d \<Rightarrow> [(d_socket d, Packet (m\<lparr>to_name := r_user_name r\<rparr>))]) rs)\<rparr>))"
proof -
  let ?s = "s\<lparr>connections := Suc (connections s)\<rparr>"
  have "find_first (in_group (to_group_name m) (from_name m)) (head_group_relationship s) \<noteq> None"
    unfolding find_first_not_None in_group_def using assms(4) by blast
  moreover have "\<forall>r \<in> set (head_group_relationship s). wf_relation r"
    using assms(3) by (simp add: server_wf_defs)
  from public_loop_eq [OF assms(1,2) this, of "Suc (connections s)" ?s]
  have "public_loop env (Suc (connections s)) (head_group_relationship s) m ?s = Inr (?s\<lparr>
      queries := queries s @ map (record_of (Suc (connections s)) m ?s)
        (receivers m (head_group_relationship s)),
      sent := sent s @ concat (map (copies_to m ?s) (receivers m (head_group_relationship s)))\<rparr>)"
    by simp
  moreover have "record_of (Suc (connections s)) m ?s = (\<lambda>r. (Suc (connections s),
      sql_group_record (m\<lparr>to_name := r_user_name r\<rparr>)
        (if find_online (r_user_name r) s = None then ''0'' else ''1'')))"
    "copies_to m ?s = (\<lambda>r. case find_online (r_user_name r) s of
      None \<Rightarrow> [] | Some d \<Rightarrow> [(d_socket d, Packet (m\<lparr>to_name := r_user_name r\<rparr>))])"
    by (auto simp: record_of_def copies_to_def find_online_def fun_eq_iff)
  ultimately show ?thesis
    by (auto simp: public_chat_def mysql_works_simps [OF assms(1)] Let_def receivers_def)
qed

theorem public_chat_reaches_members_witness:
  "public_chat working_mysql 4 (chat_packet 22 ''ann'' [] ''grp'') chat_server
   = Inr (chat_server\<lparr>connections := 1,
       queries := [(1, sql_group_record (chat_packet 22 ''ann'' ''bob'' ''grp'') ''1'')],
       sent := [(5, Packet (chat_packet 22 ''ann'' ''bob'' ''grp''))]\<rparr>)"
  using public_chat_reaches_members [OF working_mysql_works
      wf_chat_packet [of "''ann''" "[]" "''grp''" 22] chat_server_wf, of 4]
  by (simp add: demo_defs find_online_def is_online_def)

section \<open>Properties of membership\<close>

lemma group_sql_fits:
  assumes "fits 20 g" and "fits 20 u"
  shows "fits 200 (sql_insert_relation g u ''3'')" "fits 4096 (sql_insert_relation g u ''1'')"
    "fits 200 (sql_delete_relation g u)" "fits 200 (sql_delete_group g)"
    "fits 200 (sql_delete_members g)" "fits 200 (sql_set_manager g u)"
    "fits 4096 (sql_insert_group g u)"
  using assms
  by (auto simp: fits_def sql_insert_relation_def sql_delete_relation_def sql_relation_where_def
      sql_delete_group_def sql_delete_members_def sql_set_manager_def sql_insert_group_def)

lemma wf_MSG_names: "wf_MSG m \<Longrightarrow> fits 20 (from_name m)" "wf_MSG m \<Longrightarrow> fits 20 (to_name m)"
  "wf_MSG m \<Longrightarrow> fits 20 (to_group_name m)"
  by (simp_all add: wf_MSG_def)

text \<open>
  Creating a group with a new name makes the group and its owner's relation, so that the
  new group satisfies the invariant at once, and echoes the packet; a name that is taken is
  answered with 50 and nothing changes.
\<close>

theorem create_group_outcome:
  assumes "mysql_works env" and "wf_MSG m"
  shows "create_group env fd m s =
    (let gn = group_name (group_of m); ow = group_owner (group_of m)
     in if \<exists>g \<in> set (head_user_groups s). g_name g = gn then Inr (reply fd m 50 s)
        else Inr (s\<lparr>head_user_groups := head_user_groups s @ [\<lparr>g_name = gn, g_owner = ow\<rparr>],
            head_group_relationship := head_group_relationship s @
              [\<lparr>r_group_name = gn, r_user_name = ow, r_type = 1\<rparr>],
            queries := queries s @ [(0, sql_insert_group gn ow), (0, sql_insert_relation gn ow ''1'')],
            sent := sent s @ [(fd, Packet m)]\<rparr>))"
proof -
  let ?g = "group_name (group_of m)" and ?o = "group_owner (group_of m)"
  have taken: "find_first (is_group ?g) (head_user_groups s) = None
      \<longleftrightarrow> \<not> (\<exists>g \<in> set (head_user_groups s). g_name g = ?g)"
    by (auto simp: find_first_None is_group_def)
  have names: "fits 20 ?g" "fits 20 ?o" using assms(2) by (auto simp: wf_MSG_def wf_group_infor_def)
  show ?thesis
  proof (cases "\<exists>g \<in> set (head_user_groups s). g_name g = ?g")
    case True
    with taken show ?thesis by (simp add: create_group_def Let_def)
  next
    case False
    with taken names group_sql_fits [OF names] show ?thesis
      by (simp add: create_group_def Let_def mysql_works_simps [OF assms(1)] new_relation_def send_def)
  qed
qed

theorem create_group_outcome_witness:
  "create_group working_mysql 4 (zero_MSG\<lparr>group_of := \<lparr>group_name = ''grp'', group_owner = ''bob'',
      member_num = 0\<rparr>\<rparr>) chat_server
   = Inr (reply 4 (zero_MSG\<lparr>group_of := \<lparr>group_name = ''grp'', group_owner = ''bob'',
      member_num = 0\<rparr>\<rparr>) 50 chat_server)"
  using create_group_outcome [OF working_mysql_works, of "zero_MSG\<lparr>group_of := \<lparr>group_name = ''grp'',
      group_owner = ''bob'', member_num = 0\<rparr>\<rparr>" 4 chat_server]
  by (simp add: demo_defs wf_defs fits_def Let_def)

text \<open>
  Leaving a group removes the first relation of the caller with it and no other, confirms
  with 243, and tells the owner with 24, on the connection or in the queue with the group's
  name; so the caller, when in the group once, is in it no more.
\<close>

theorem quit_group_removes_member:
  assumes "mysql_works env" and "wf_MSG m" and "server_wf s"
    and "find_first (is_group (to_group_name m)) (head_user_groups s) = Some g"
    and "g_owner g \<noteq> from_name m"
    and "\<exists>r \<in> set (head_group_relationship s). in_group (to_group_name m) (from_name m) r"
  shows "\<exists>s'. quit_group env fd m s = Inr s'
    \<and> head_group_relationship s' = remove_first (in_group (to_group_name m) (from_name m))
        (head_group_relationship s)
    \<and> sent s' = sent s @ (fd, Packet (m\<lparr>to_name := g_owner g, cmd := 243\<rparr>)) #
        (case find_online (g_owner g) s of None \<Rightarrow> []
         | Some d \<Rightarrow> [(d_socket d, Packet (m\<lparr>to_name := g_owner g, cmd := 24\<rparr>))])
    \<and> head_request s' = head_request s @
        (case find_online (g_owner g) s of Some _ \<Rightarrow> []
         | None \<Rightarrow> [\<lparr>q_from_name = from_name m, q_to_name = g_owner g,
             q_to_group_name = Some (to_group_name m), q_type = CHR ''q''\<rparr>])"
proof -
  have "find_first (in_group (to_group_name m) (from_name m)) (head_group_relationship s) \<noteq> None"
    unfolding find_first_not_None using assms(6) by blast
  moreover have "fits 20 (g_owner g)"
    using assms(3) find_first_Some [OF assms(4)] by (auto simp: server_wf_defs wf_group_def)
  ultimately show ?thesis
    using assms(4,5) group_sql_fits [of "to_group_name m" "from_name m"] wf_MSG_names [OF assms(2)]
    by (auto simp: quit_group_def mysql_works_simps [OF assms(1)] Let_def reply_def find_online_def
        queue_request_def new_request_def split: option.splits)
qed

theorem quit_group_removes_member_witness:
  "\<exists>s'. quit_group working_mysql 5 (chat_packet 24 ''bob'' [] ''grp'') chat_server = Inr s'
    \<and> head_group_relationship s' = [\<lparr>r_group_name = ''grp'', r_user_name = ''ann'', r_type = 1\<rparr>]"
  using quit_group_removes_member [OF working_mysql_works
      wf_chat_packet [of "''bob''" "[]" "''grp''" 24] chat_server_wf, of "\<lparr>g_name = ''grp'', g_owner = ''ann''\<rparr>" 5]
  by (simp add: demo_defs is_group_def in_group_def) blast

text \<open>
  Dissolving a group by its owner removes the group and all its relations and leaves every
  other relation in place, unless the very first relation of the list belongs to the group: then
  the loop reads a node it has freed.
\<close>

theorem break_group_outcome:
  assumes "mysql_works env" and "wf_MSG m"
    and "find_first (is_group (to_group_name m)) (head_user_groups s) = Some g"
    and "g_owner g = from_name m"
  shows "break_group env fd m s =
    (let gn = to_group_name m; rs = head_group_relationship s
     in if rs \<noteq> [] \<and> r_group_name (hd rs) = gn then Inl Use_After_Free
        else Inr (s\<lparr>head_user_groups := remove_first (is_group gn) (head_user_groups s),
               head_group_relationship := filter (\<lambda>r. r_group_name r \<noteq> gn) rs,
               queries := queries s @ [(0, sql_delete_group gn), (0, sql_delete_members gn)],
               sent := sent s @ [(fd, Packet m)]\<rparr>))"
proof -
  have "break_loop (\<lambda>r. r_group_name r = to_group_name m) (head_group_relationship s)
    = (if head_group_relationship s \<noteq> [] \<and> r_group_name (hd (head_group_relationship s)) = to_group_name m
       then Inl Use_After_Free
       else Inr (filter (\<lambda>r. r_group_name r \<noteq> to_group_name m) (head_group_relationship s)))"
    by (cases "head_group_relationship s") (simp_all add: break_loop_def)
  then show ?thesis
    using assms(3,4) group_sql_fits(4,5) [OF wf_MSG_names(3) [OF assms(2)] wf_MSG_names(1) [OF assms(2)]]
    by (simp add: break_group_def mysql_works_simps [OF assms(1)] Let_def send_def)
qed

theorem break_group_outcome_witness:
  "break_group working_mysql 4 (chat_packet 252 ''ann'' [] ''grp'') chat_server = Inl Use_After_Free"
  using break_group_outcome [OF working_mysql_works wf_chat_packet [of "''ann''" "[]" "''grp''" 252],
      of chat_server "\<lparr>g_name = ''grp'', g_owner = ''ann''\<rparr>" 4]
  by (simp add: demo_defs is_group_def Let_def)

text \<open>
  Granting a request to join never looks whether the user is in the group already: after two
  grants the user is in it twice, and every later message of the group reaches a user online
  twice.
\<close>

theorem join_granted_twice:
  assumes "mysql_works env" and "server_wf s" and "wf_MSG m" and "wf_MSG p"
    and "find_online (from_name m) s = Some d" and "to_group_name p = to_group_name m"
    and "from_name p \<noteq> from_name m"
    and "\<exists>r \<in> set (head_group_relationship s). r_group_name r = to_group_name p \<and> r_user_name r = from_name p"
  shows "\<exists>s1 s2 s3 before copy. deal_group_request_y env fd m s = Inr s1
    \<and> deal_group_request_y env fd m s1 = Inr s2 \<and> public_chat env fd' p s2 = Inr s3
    \<and> sent s3 = before @ [copy, copy] \<and> copy = (d_socket d, Packet (p\<lparr>to_name := from_name m\<rparr>))"
proof -
  let ?r = "\<lparr>r_group_name = to_group_name m, r_user_name = from_name m, r_type = 3\<rparr>"
  note names = wf_MSG_names [OF assms(3)]
  have grant: "\<exists>t'. deal_group_request_y env fd m t = Inr t' \<and> head t' = head t
      \<and> head_group_relationship t' = head_group_relationship t @ [?r]"
    if "head t = head s" for t
    using that assms(5) group_sql_fits(1) [OF names(3) names(1)] names
    by (auto simp: deal_group_request_y_def mysql_real_query_def Let_def new_relation_def
        find_online_def)
  obtain s1 where s1: "deal_group_request_y env fd m s = Inr s1" "head s1 = head s"
    "head_group_relationship s1 = head_group_relationship s @ [?r]" using grant by blast
  obtain s2 where s2: "deal_group_request_y env fd m s1 = Inr s2" "head s2 = head s"
    "head_group_relationship s2 = head_group_relationship s @ [?r, ?r]" using grant [of s1] s1 by auto
  have on: "find_online (from_name m) (s2\<lparr>connections := n\<rparr>) = Some d" for n
    using assms(5) s2(2) by (simp add: find_online_def)
  have rec: "receivers p (head_group_relationship s2)
      = receivers p (head_group_relationship s) @ [?r, ?r]"
    using s2(3) assms(6,7) by (simp add: receivers_def)
  have "\<forall>r \<in> set (head_group_relationship s2). wf_relation r"
    using assms(2) s2(3) names by (auto simp: server_wf_defs wf_relation_def)
  from public_loop_eq [OF assms(1,4) this, of "Suc (connections s2)" "s2\<lparr>connections := Suc (connections s2)\<rparr>"]
  have loop: "\<exists>s3 before. public_loop env (Suc (connections s2)) (head_group_relationship s2) p
      (s2\<lparr>connections := Suc (connections s2)\<rparr>) = Inr s3
      \<and> sent s3 = before @ [(d_socket d, Packet (p\<lparr>to_name := from_name m\<rparr>)),
          (d_socket d, Packet (p\<lparr>to_name := from_name m\<rparr>))]"
    using rec on by (simp add: copies_to_def)
  have "find_first (in_group (to_group_name p) (from_name p)) (head_group_relationship s2) \<noteq> None"
    unfolding find_first_not_None in_group_def using assms(8) s2(3) by auto
  with loop have "\<exists>s3 before. public_chat env fd' p s2 = Inr s3 \<and> sent s3 = before @
      [(d_socket d, Packet (p\<lparr>to_name := from_name m\<rparr>)), (d_socket d, Packet (p\<lparr>to_name := from_name m\<rparr>))]"
    by (auto simp: public_chat_def mysql_works_simps [OF assms(1)])
  with s1(1) s2(1) show ?thesis by blast
qed

theorem join_granted_twice_witness:
  "\<exists>s1 s2 s3 before copy.
      deal_group_request_y working_mysql 4 (chat_packet 321 ''bob'' ''ann'' ''grp'') chat_server = Inr s1
    \<and> deal_group_request_y working_mysql 4 (chat_packet 321 ''bob'' ''ann'' ''grp'') s1 = Inr s2
    \<and> public_chat working_mysql 4 (chat_packet 22 ''ann'' [] ''grp'') s2 = Inr s3
    \<and> sent s3 = before @ [copy, copy]"
  using join_granted_twice [OF working_mysql_works chat_server_wf
      wf_chat_packet [of "''bob''" "''ann''" "''grp''" 321]
      wf_chat_packet [of "''ann''" "[]" "''grp''" 22], of "\<lparr>d_name = ''bob'', d_socket = 5\<rparr>" 4 4]
  by (simp add: demo_defs find_online_def is_online_def) blast

text \<open>
  An owner who names itself manager stops being the owner of the relations: no relation of
  the group with the owner's name has type 1 any more, and from then on every request of the
  owner to name a manager crashes the server.
\<close>

theorem set_manager_self:
  assumes "mysql_works env" and "wf_MSG m" and "to_name m = from_name m"
    and "filter (in_group (to_group_name m) (from_name m)) (head_group_relationship s) = [r]"
    and "r_type r = 1"
    and "from_name p = from_name m" and "to_group_name p = to_group_name m"
  shows "\<exists>s'. set_manager env fd m s = Inr s' \<and> set_manager env fd' p s' = Inl Null_Deref"
proof -
  let ?P = "in_group (to_group_name m) (from_name m)"
  let ?rs = "head_group_relationship s"
  have "set (filter ?P ?rs) = {r}" using assms(4) by simp
  then have r: "r \<in> set ?rs" "?P r" by auto
  then have some: "find_first ?P ?rs \<noteq> None"
    "find_first (is_owner_row (to_group_name m) (from_name m)) ?rs \<noteq> None"
    unfolding find_first_not_None is_owner_row_def using assms(5) by blast+
  let ?rs' = "update_first ?P (r_type_update (\<lambda>_. 2)) ?rs"
  have upd: "filter Q (update_first Q (r_type_update (\<lambda>_. 2)) xs) = [x\<lparr>r_type := 2\<rparr>]"
    if "filter Q xs = [x]" "\<And>y. Q (y\<lparr>r_type := 2\<rparr>) = Q y" for Q xs and x :: mysql_group_relationship
    using that by (induction xs) (auto split: if_splits)
  have "filter ?P ?rs' = [r\<lparr>r_type := 2\<rparr>]"
    by (rule upd [OF assms(4)]) simp
  then have "set (filter ?P ?rs') = {r\<lparr>r_type := 2\<rparr>}" by simp
  then have "\<forall>x \<in> set ?rs'. ?P x \<longrightarrow> x = r\<lparr>r_type := 2\<rparr>" by auto
  then have none: "find_first (is_owner_row (to_group_name m) (from_name m)) ?rs' = None"
    by (auto simp: find_first_None is_owner_row_def)
  obtain s' where s': "set_manager env fd m s = Inr s'" "head_group_relationship s' = ?rs'"
    using some assms(3) group_sql_fits(6) [of "to_group_name m" "from_name m"] wf_MSG_names [OF assms(2)]
    by (auto simp: set_manager_def mysql_works_simps [OF assms(1)] Let_def)
  with none assms(6,7) have "set_manager env fd' p s' = Inl Null_Deref"
    by (simp add: set_manager_def)
  with s' show ?thesis by blast
qed

theorem set_manager_self_witness:
  "\<exists>s'. set_manager working_mysql 4 (chat_packet 253 ''ann'' ''ann'' ''grp'') chat_server = Inr s'
    \<and> set_manager working_mysql 4 (chat_packet 253 ''ann'' ''bob'' ''grp'') s' = Inl Null_Deref"
  using set_manager_self [OF working_mysql_works wf_chat_packet [of "''ann''" "''ann''" "''grp''" 253],
      of chat_server "\<lparr>r_group_name = ''grp'', r_user_name = ''ann'', r_type = 1\<rparr>"
        "chat_packet 253 ''ann'' ''bob'' ''grp''" 4 4]
  by (simp add: demo_defs in_group_def)

end
