(* ===== verification/Chat_Wire.thy ===== *)
theory Chat_Wire
  imports Chat_Msg
begin

text \<open>
  The bytes of a packet and how they arrive. A packet travels as the memory image of
  \<open>struct msg\<close> (x86-64 layout: \<open>char\<close> arrays one after the other, \<open>struct group\<close> and the
  integers aligned to four bytes, little endian). TCP keeps the order of the bytes but not
  the packet boundaries, so one \<open>recv\<close> returns some of the next bytes. A byte is a \<open>char\<close>.
\<close>

section \<open>The memory image\<close>

definition MSG_size :: nat where
  "MSG_size = 1776"

definition enc_str :: "nat \<Rightarrow> string \<Rightarrow> string" where
  "enc_str n s = take n s @ replicate (n - length s) (CHR 0x00)"

definition byte_of :: "int \<Rightarrow> nat \<Rightarrow> char" where
  "byte_of i k = char_of (nat (i div 256 ^ k mod 256))"

definition enc_int :: "int \<Rightarrow> string" where
  "enc_int i = [byte_of i 0, byte_of i 1, byte_of i 2, byte_of i 3]"

definition encode_MSG :: "MSG \<Rightarrow> string" where
  "encode_MSG m =
     enc_str 20 (name (user_infor m)) @ enc_str 20 (login_id (user_infor m)) @
     enc_str 20 (nickname (user_infor m)) @ enc_str 5 (sex (user_infor m)) @
     enc_str 20 (password (user_infor m)) @ enc_str 30 (telephone (user_infor m)) @
     enc_str 20 (to_name m) @ enc_str 20 (to_group_name m) @ enc_str 20 (from_name m) @
     enc_str 33 (time_str m) @
     enc_str 20 (group_name (group_of m)) @ enc_str 20 (group_owner (group_of m)) @
     enc_int (member_num (group_of m)) @
     enc_str 1024 (news m) @ enc_int (file_len m) @ enc_int (once_len m) @
     enc_str 200 (file_path m) @ enc_str 256 (file_name m) @ enc_int (send_end m) @
     enc_int (friend_num m) @ enc_str 20 (friend_name m) @ enc_int (cmd m) @
     enc_str 4 [msg_type m]"

text \<open>The fields that the file transfer reads back from the image.\<close>

definition news_bytes :: "string \<Rightarrow> string" where
  "news_bytes frame = take 1024 (drop 252 frame)"

definition once_len_bytes :: "string \<Rightarrow> nat" where
  "once_len_bytes frame = of_char (frame ! 1280) + 256 * of_char (frame ! 1281)"

text \<open>\<open>htons\<close> and \<open>ntohs\<close> swap the two bytes of a 16-bit value on a little-endian machine.\<close>

definition swap16 :: "nat \<Rightarrow> nat" where
  "swap16 n = 256 * (n mod 256) + n div 256 mod 256"

definition htons :: "nat \<Rightarrow> nat" where
  "htons n = swap16 n"

definition ntohs :: "nat \<Rightarrow> nat" where
  "ntohs n = swap16 n"

definition chunk_len :: "string \<Rightarrow> nat" where
  "chunk_len frame = ntohs (once_len_bytes frame)"

lemma length_enc_str [simp]: "length (enc_str n s) = n"
  by (simp add: enc_str_def)

lemma length_enc_int [simp]: "length (enc_int i) = 4"
  by (simp add: enc_int_def)

lemma length_encode_MSG [simp]: "length (encode_MSG m) = MSG_size"
  by (simp add: encode_MSG_def MSG_size_def)

lemma encode_MSG_nonempty [simp]: "encode_MSG m \<noteq> []"
proof
  assume "encode_MSG m = []"
  then have "length (encode_MSG m) = 0" by (simp only: list.size)
  then show False by (simp add: MSG_size_def)
qed

lemma swap16_eq: "a < 256 \<Longrightarrow> b < 256 \<Longrightarrow> swap16 (256 * a + b) = 256 * b + a"
  by (simp add: swap16_def)

lemma ntohs_htons:
  assumes "n < 65536"
  shows "ntohs (htons n) = n"
proof -
  let ?a = "n div 256" and ?b = "n mod 256"
  have ab: "?a < 256" "?b < 256" "256 * ?a + ?b = n" using assms by auto
  then have "swap16 n = 256 * ?b + ?a" using swap16_eq [of ?a ?b] by simp
  with ab show ?thesis using swap16_eq [of ?b ?a] by (simp add: htons_def ntohs_def)
qed

lemma htons_less: "htons n < 65536"
proof -
  have "n mod 256 < 256" "n div 256 mod 256 < 256" by auto
  then show ?thesis unfolding htons_def swap16_def by linarith
qed

lemma news_bytes_encode: "news_bytes (encode_MSG m) = enc_str 1024 (news m)"
  by (simp add: news_bytes_def encode_MSG_def)

lemma once_len_bytes_encode:
  assumes "once_len m = int n" and "n < 65536"
  shows "once_len_bytes (encode_MSG m) = n"
proof -
  have "encode_MSG m ! 1280 = byte_of (once_len m) 0" "encode_MSG m ! 1281 = byte_of (once_len m) 1"
    by (simp_all add: encode_MSG_def nth_append enc_int_def)
  moreover have "of_char (byte_of (int n) 0) = n mod 256"
    by (simp add: byte_of_def nat_mod_distrib)
  moreover have "of_char (byte_of (int n) 1) = n div 256"
    using assms(2) by (simp add: byte_of_def nat_mod_distrib nat_div_distrib)
  ultimately show ?thesis using assms(1) by (simp add: once_len_bytes_def)
qed

section \<open>Reading a packet out of its image\<close>

text \<open>
  The C string that starts at an offset, up to the next NUL byte (in a later array when its own
  has none), and the two's-complement integer of four bytes.
\<close>

definition cstr_at :: "nat \<Rightarrow> string \<Rightarrow> string" where
  "cstr_at off img = takeWhile (\<lambda>c. c \<noteq> CHR 0x00) (drop off img)"

definition dec_int :: "string \<Rightarrow> int" where
  "dec_int b =
     (let v = of_char (b ! 0) + 256 * of_char (b ! 1) + 65536 * of_char (b ! 2)
              + 16777216 * of_char (b ! 3)
      in if v < 2147483648 then v else v - 4294967296)"

definition int_at :: "nat \<Rightarrow> string \<Rightarrow> int" where
  "int_at off img = dec_int (take 4 (drop off img))"

definition decode_MSG :: "string \<Rightarrow> MSG" where
  "decode_MSG b = \<lparr>user_infor = \<lparr>name = cstr_at 0 b, login_id = cstr_at 20 b,
       nickname = cstr_at 40 b, sex = cstr_at 60 b, password = cstr_at 65 b,
       telephone = cstr_at 85 b\<rparr>,
     to_name = cstr_at 115 b, to_group_name = cstr_at 135 b, from_name = cstr_at 155 b,
     time_str = cstr_at 175 b,
     group_of = \<lparr>group_name = cstr_at 208 b, group_owner = cstr_at 228 b,
       member_num = int_at 248 b\<rparr>,
     news = cstr_at 252 b, file_len = int_at 1276 b, once_len = int_at 1280 b,
     file_path = cstr_at 1284 b, file_name = cstr_at 1484 b, send_end = int_at 1740 b,
     friend_num = int_at 1744 b, friend_name = cstr_at 1748 b, cmd = int_at 1768 b,
     msg_type = b ! 1772\<rparr>"

text \<open>What the image can hold: strings without NUL that fit, 32-bit integers.\<close>

definition cstring :: "nat \<Rightarrow> string \<Rightarrow> bool" where
  "cstring n s \<longleftrightarrow> fits n s \<and> CHR 0x00 \<notin> set s"

definition wire_ok :: "MSG \<Rightarrow> bool" where
  "wire_ok m \<longleftrightarrow>
     cstring 20 (name (user_infor m)) \<and> cstring 20 (login_id (user_infor m)) \<and>
     cstring 20 (nickname (user_infor m)) \<and> cstring 5 (sex (user_infor m)) \<and>
     cstring 20 (password (user_infor m)) \<and> cstring 30 (telephone (user_infor m)) \<and>
     cstring 20 (to_name m) \<and> cstring 20 (to_group_name m) \<and> cstring 20 (from_name m) \<and>
     cstring 30 (time_str m) \<and> cstring 20 (group_name (group_of m)) \<and>
     cstring 20 (group_owner (group_of m)) \<and> cstring 1024 (news m) \<and>
     cstring 200 (file_path m) \<and> cstring 256 (file_name m) \<and> cstring 20 (friend_name m) \<and>
     int32 (member_num (group_of m)) \<and> int32 (file_len m) \<and> int32 (once_len m) \<and>
     int32 (send_end m) \<and> int32 (friend_num m) \<and> int32 (cmd m)"

lemma cstring_mono: "cstring m s \<Longrightarrow> m \<le> n \<Longrightarrow> cstring n s"
  by (auto simp: cstring_def intro: fits_mono)

lemma takeWhile_enc_str:
  assumes "cstring n s"
  shows "takeWhile (\<lambda>c. c \<noteq> CHR 0x00) (enc_str n s @ rest) = s"
proof -
  obtain k where k: "n = Suc (length s + k)"
    using assms less_iff_Suc_add [of "length s" n] by (auto simp: cstring_def fits_def)
  have "takeWhile (\<lambda>c. c \<noteq> CHR 0x00) s = s"
    using assms by (auto simp: cstring_def)
  moreover have "\<forall>c \<in> set s. c \<noteq> CHR 0x00" using assms by (auto simp: cstring_def)
  ultimately show ?thesis by (simp add: enc_str_def k takeWhile_append)
qed

lemma takeWhile_enc_str_end:
  "cstring n s \<Longrightarrow> takeWhile (\<lambda>c. c \<noteq> CHR 0x00) (enc_str n s) = s"
  using takeWhile_enc_str [of n s "[]"] by simp

lemma of_char_byte_of: "(of_char (byte_of i k) :: int) = i div 256 ^ k mod 256"
proof -
  have "nat (i div 256 ^ k mod 256) < 256" by (simp add: nat_less_iff)
  then have "(of_char (byte_of i k) :: nat) = nat (i div 256 ^ k mod 256)"
    by (simp add: byte_of_def)
  moreover have "(of_char c :: int) = int (of_char c)" for c :: char
    by (rule of_nat_of_char [symmetric])
  ultimately show ?thesis by simp
qed

lemma byte_values:
  "(of_char (byte_of i 0) :: int) = i mod 256"
  "(of_char (byte_of i 1) :: int) = i div 256 mod 256"
  "(of_char (byte_of i 2) :: int) = i div 65536 mod 256"
  "(of_char (byte_of i 3) :: int) = i div 16777216 mod 256"
  by (simp_all add: of_char_byte_of)

lemma base_256: "i mod 256 + 256 * (i div 256 mod 256) + 65536 * (i div 65536 mod 256)
    + 16777216 * (i div 16777216 mod 256) = (i :: int) mod 4294967296"
proof -
  have "i mod 4294967296 = 16777216 * (i div 16777216 mod 256) + i mod 16777216"
    using zmod_zmult2_eq [of 256 i 16777216] by simp
  moreover have "i mod 16777216 = 65536 * (i div 65536 mod 256) + i mod 65536"
    using zmod_zmult2_eq [of 256 i 65536] by simp
  moreover have "i mod 65536 = 256 * (i div 256 mod 256) + i mod 256"
    using zmod_zmult2_eq [of 256 i 256] by simp
  ultimately show ?thesis by linarith
qed

lemma dec_int_enc_int:
  assumes "int32 i"
  shows "dec_int (enc_int i) = i"
proof -
  have v: "dec_int (enc_int i) = (if w < 2147483648 then w else w - 4294967296)"
    if "of_char (byte_of i 0) + 256 * of_char (byte_of i 1)
      + 65536 * of_char (byte_of i 2) + 16777216 * of_char (byte_of i 3) = w" for w
    using that by (simp add: dec_int_def enc_int_def)
  have "of_char (byte_of i 0) + 256 * of_char (byte_of i 1)
      + 65536 * of_char (byte_of i 2) + 16777216 * of_char (byte_of i 3) = i mod 4294967296"
    unfolding byte_values by (rule base_256)
  from v [OF this]
  have "dec_int (enc_int i) = (if i mod 4294967296 < 2147483648 then i mod 4294967296
      else i mod 4294967296 - 4294967296)" .
  moreover have "i mod 4294967296 = (if 0 \<le> i then i else i + 4294967296)"
    using assms mod_pos_pos_trivial [of i 4294967296]
      mod_pos_pos_trivial [of "i + 4294967296" 4294967296] mod_add_self2 [of i 4294967296]
    unfolding int32_def by auto
  ultimately show ?thesis using assms by (cases "0 \<le> i") (auto simp: int32_def)
qed

lemma take_enc_int: "take 4 (enc_int i @ rest) = enc_int i" "take 4 (enc_int i) = enc_int i"
  by (simp_all add: enc_int_def)

lemma msg_type_encode: "encode_MSG m ! 1772 = msg_type m"
proof -
  have "drop 1772 (encode_MSG m) = enc_str 4 [msg_type m]" by (simp add: encode_MSG_def)
  then show ?thesis by (intro nth_via_drop) (simp add: enc_str_def)
qed

lemma packet_encoding:
  assumes "wire_ok m"
  shows "decode_MSG (encode_MSG m) = m"
proof -
  note ok = assms [unfolded wire_ok_def]
  have t: "cstring 33 (time_str m)" using ok by (auto intro: cstring_mono)
  have strings: "cstr_at 0 (encode_MSG m) = name (user_infor m)"
    "cstr_at 20 (encode_MSG m) = login_id (user_infor m)"
    "cstr_at 40 (encode_MSG m) = nickname (user_infor m)"
    "cstr_at 60 (encode_MSG m) = sex (user_infor m)"
    "cstr_at 65 (encode_MSG m) = password (user_infor m)"
    "cstr_at 85 (encode_MSG m) = telephone (user_infor m)"
    "cstr_at 115 (encode_MSG m) = to_name m" "cstr_at 135 (encode_MSG m) = to_group_name m"
    "cstr_at 155 (encode_MSG m) = from_name m" "cstr_at 175 (encode_MSG m) = time_str m"
    "cstr_at 208 (encode_MSG m) = group_name (group_of m)"
    "cstr_at 228 (encode_MSG m) = group_owner (group_of m)"
    "cstr_at 252 (encode_MSG m) = news m" "cstr_at 1284 (encode_MSG m) = file_path m"
    "cstr_at 1484 (encode_MSG m) = file_name m" "cstr_at 1748 (encode_MSG m) = friend_name m"
    using ok t by (simp_all add: cstr_at_def encode_MSG_def takeWhile_enc_str)
  have ints: "int_at 248 (encode_MSG m) = member_num (group_of m)"
    "int_at 1276 (encode_MSG m) = file_len m" "int_at 1280 (encode_MSG m) = once_len m"
    "int_at 1740 (encode_MSG m) = send_end m" "int_at 1744 (encode_MSG m) = friend_num m"
    "int_at 1768 (encode_MSG m) = cmd m"
    using ok by (simp_all add: int_at_def encode_MSG_def take_enc_int dec_int_enc_int)
  show ?thesis by (simp add: decode_MSG_def strings ints msg_type_encode)
qed

section \<open>Receiving\<close>

text \<open>
  A connection is the list of byte runs that successive calls of \<open>recv\<close> can return; a call
  that asks for fewer bytes leaves the rest for the next. After the last run the peer has
  closed the connection and \<open>recv\<close> returns 0.
\<close>

fun recv :: "nat \<Rightarrow> string list \<Rightarrow> string \<times> string list" where
  "recv n [] = ([], [])"
| "recv n (seg # segs) =
     (if length seg \<le> n then (seg, segs) else (take n seg, drop n seg # segs))"

lemma recv_bytes: "recv n segs = (got, rest) \<Longrightarrow> concat segs = got @ concat rest \<and> length got \<le> n"
  by (cases segs) (auto split: if_splits)

lemma recv_nonempty:
  "recv n segs = (got, rest) \<Longrightarrow> [] \<notin> set segs \<Longrightarrow> 0 < n
   \<Longrightarrow> [] \<notin> set rest \<and> (got = [] \<longleftrightarrow> segs = [])"
  by (cases segs) (auto split: if_splits)

lemma recv_shorter:
  "(got, rest) = recv n segs \<Longrightarrow> got \<noteq> [] \<Longrightarrow>
     length (concat rest) < length (concat segs)"
  using recv_bytes [of n segs got rest] by simp

end
