(* ===== verification/Server_File.thy ===== *)
theory Server_File
  imports Server_Demo Chat_Wire
begin

text \<open>
  The file transfer of \<open>epoll.c\<close>: \<open>get_file_name\<close> and \<open>send_file\<close>, which announces the file
  to the receiver and then relays whole frames from the sender's connection until a frame
  with a short chunk.
\<close>

section \<open>The file name\<close>

text \<open>
  \<open>for(j = len-1; file_path[j-1] != '/'; j--);\<close> reads \<open>file_path[j-1]\<close> for \<open>j\<close> going down; with no
  slash before the last character it reads in front of the array.
\<close>

fun last_slash :: "string \<Rightarrow> nat \<Rightarrow> nat result" where
  "last_slash path 0 = Inl Out_Of_Bounds"
| "last_slash path (Suc j) =
     (if path ! j = CHR ''/'' then Inr (Suc j) else last_slash path j)"

definition get_file_name :: "string \<Rightarrow> string result" where
  "get_file_name path =
     rbind (last_slash path (length path - 1)) (\<lambda>j.
       strcpy 256 (drop j path))"

section \<open>The relay loop\<close>

text \<open>
  \<open>buf\<close> holds the \<open>sum\<close> bytes of the frame received so far. The result is the frames sent on
  and the input left. A complete frame with no receiver online follows a NULL pointer.
\<close>

function relay :: "int option \<Rightarrow> string \<Rightarrow> string list \<Rightarrow> (string list \<times> string list) result" where
  "relay target buf segs =
     (case recv (MSG_size - length buf) segs of (got, rest) \<Rightarrow>
        if got = [] then Inr ([], rest)
        else
          (let buf' = buf @ got
           in if length buf' = MSG_size then
                (case target of
                   None \<Rightarrow> Inl Null_Deref
                 | Some _ \<Rightarrow>
                     if chunk_len buf' < 1024 then Inr ([buf'], rest)
                     else rbind (relay target [] rest) (\<lambda>(fs, r). Inr (buf' # fs, r)))
              else relay target buf' rest))"
  by pat_completeness auto
termination
  by (relation "measure (\<lambda>(target, buf, segs). length (concat segs))")
    (auto dest: recv_shorter)

declare relay.simps [simp del]

definition send_frames :: "int \<Rightarrow> string list \<Rightarrow> server \<Rightarrow> server" where
  "send_frames fd fs s = s\<lparr>sent := sent s @ map (\<lambda>f. (fd, Frame f)) fs\<rparr>"

definition send_file :: "mysql_env \<Rightarrow> int \<Rightarrow> MSG \<Rightarrow> server \<Rightarrow> server result" where
  "send_file env conn_fd m s =
     rbind (get_file_name (file_path m)) (\<lambda>p.
     rbind (strcpy 256 p) (\<lambda>n.
       let m' = m\<lparr>file_name := n\<rparr>;
           target = map_option d_socket (find_online (to_name m') s);
           s1 = (case target of None \<Rightarrow> s | Some fd \<Rightarrow> send fd m' s)
       in rbind (relay target [] (inbox s1 conn_fd)) (\<lambda>(fs, rest).
            let s2 = s1\<lparr>inbox := (inbox s1)(conn_fd := rest)\<rparr>
            in Inr (case target of None \<Rightarrow> s2 | Some fd \<Rightarrow> send_frames fd fs s2))))"

interpretation send_file_handler: request_handler "send_file env" for env
proof unfold_locales
  fix s fd m s'
  assume "send_file env fd m s = Inr s'"
  then show "server_wf s \<Longrightarrow> server_wf s'" and "grows s s'"
    by (auto simp: send_file_def result_simps Let_def grows_iff server_wf_def send_frames_def
        split: option.splits)
qed

section \<open>The relay on the byte stream\<close>

text \<open>What the relay does, said of the bytes alone: cut into frames, stop after a short one.\<close>

function relay_stream :: "int option \<Rightarrow> string \<Rightarrow> (string list \<times> string) result" where
  "relay_stream target bs =
     (if length bs < MSG_size then Inr ([], [])
      else
        (case target of
           None \<Rightarrow> Inl Null_Deref
         | Some _ \<Rightarrow>
             if chunk_len (take MSG_size bs) < 1024
             then Inr ([take MSG_size bs], drop MSG_size bs)
             else rbind (relay_stream target (drop MSG_size bs)) (\<lambda>(fs, r).
                    Inr (take MSG_size bs # fs, r))))"
  by pat_completeness auto
termination
  by (relation "measure (\<lambda>(target, bs). length bs)") (auto simp: MSG_size_def)

declare relay_stream.simps [simp del]

lemma relay_stream_simps:
  "length bs < MSG_size \<Longrightarrow> relay_stream target bs = Inr ([], [])"
  "length f = MSG_size \<Longrightarrow> relay_stream None (f @ bs) = Inl Null_Deref"
  "length f = MSG_size \<Longrightarrow> chunk_len f < 1024 \<Longrightarrow> relay_stream (Some fd) (f @ bs) = Inr ([f], bs)"
  "length f = MSG_size \<Longrightarrow> \<not> chunk_len f < 1024 \<Longrightarrow> relay_stream (Some fd) (f @ bs) =
     rbind (relay_stream (Some fd) bs) (\<lambda>(fs, r). Inr (f # fs, r))"
  by (simp_all add: relay_stream.simps)

text \<open>
  However TCP cuts the stream, the relay sends the same frames and leaves the same bytes.
\<close>

lemma relay_relay_stream:
  assumes "[] \<notin> set segs" and "length buf < MSG_size"
  shows "map_sum (\<lambda>e. e) (\<lambda>(fs, r). (fs, concat r)) (relay target buf segs)
         = relay_stream target (buf @ concat segs)"
  using assms
proof (induction target buf segs rule: relay.induct)
  case (1 target buf segs)
  obtain got rest where rv: "recv (MSG_size - length buf) segs = (got, rest)"
    by (cases "recv (MSG_size - length buf) segs")
  note bytes = recv_bytes [OF rv]
  have ne: "[] \<notin> set rest" "got = [] \<longleftrightarrow> segs = []"
    using recv_nonempty [OF rv] 1(3,4) by auto
  show ?case
  proof (cases "got = []")
    case True
    then have "relay target buf segs = Inr ([], rest)" using rv by (simp add: relay.simps)
    with True ne bytes 1(4) show ?thesis by (simp add: relay_stream_simps)
  next
    case False
    let ?b = "buf @ got"
    have split: "buf @ concat segs = ?b @ concat rest" using bytes by simp
    show ?thesis
    proof (cases "length ?b = MSG_size")
      case full: True
      show ?thesis
      proof (cases target)
        case None
        with rv False full split show ?thesis
          by (simp add: relay.simps [of None buf segs] relay_stream_simps(2) [OF full]
              del: append_assoc)
      next
        case (Some fd)
        have IH: "\<not> chunk_len ?b < 1024 \<Longrightarrow>
            map_sum (\<lambda>e. e) (\<lambda>(fs, r). (fs, concat r)) (relay target [] rest)
            = relay_stream target ([] @ concat rest)"
          using 1(1) [OF rv [symmetric] False refl full Some] ne 1(3,4)
          by (simp add: MSG_size_def)
        show ?thesis
        proof (cases "chunk_len ?b < 1024")
          case True
          with rv False full Some split show ?thesis
            by (simp add: relay.simps [of "Some fd" buf segs] relay_stream_simps(3) [OF full]
                del: append_assoc)
        next
          case short: False
          with IH [OF short, symmetric] rv False full Some split show ?thesis
            by (cases "relay (Some fd) [] rest")
              (auto simp: relay.simps [of "Some fd" buf segs] relay_stream_simps(4) [OF full]
                simp del: append_assoc)
        qed
      qed
    next
      case part: False
      have "length ?b < MSG_size" using part conjunct2 [OF bytes] 1(4) unfolding length_append
        by linarith
      with 1(2) [OF rv [symmetric] False refl part] ne(1) rv False part split
      show ?thesis by (simp add: relay.simps [of target buf segs] del: append_assoc)
    qed
  qed
qed

section \<open>Properties of the file transfer\<close>

lemma last_slash_cases:
  assumes "k \<le> length path"
  shows "if CHR ''/'' \<in> set (take k path)
    then \<exists>j. last_slash path k = Inr (Suc j) \<and> j < k \<and> path ! j = CHR ''/''
      \<and> CHR ''/'' \<notin> set (drop (Suc j) (take k path))
    else last_slash path k = Inl Out_Of_Bounds"
  using assms
proof (induction k)
  case 0
  then show ?case by simp
next
  case (Suc k)
  have tk: "take (Suc k) path = take k path @ [path ! k]"
    using Suc.prems by (simp add: take_Suc_conv_app_nth)
  show ?case
  proof (cases "path ! k = CHR ''/''")
    case True
    then show ?thesis using Suc.prems by (auto simp: tk)
  next
    case False
    with Suc show ?thesis by (fastforce simp: tk split: if_splits)
  qed
qed

text \<open>
  The name of a file is what follows the last slash that is not the final byte of the path.
  A path without one makes the search run in front of the array.
\<close>

theorem get_file_name_result:
  assumes "fits 256 path"
  shows "if CHR ''/'' \<in> set (butlast path)
    then \<exists>dir base. path = dir @ CHR ''/'' # base \<and> base \<noteq> [] \<and> CHR ''/'' \<notin> set (butlast base)
      \<and> get_file_name path = Inr base
    else get_file_name path = Inl Out_Of_Bounds"
proof -
  note cases = last_slash_cases [of "length path - 1" path]
  show ?thesis
  proof (cases "CHR ''/'' \<in> set (butlast path)")
    case False
    with cases show ?thesis by (simp add: get_file_name_def butlast_conv_take)
  next
    case True
    then obtain j where j: "last_slash path (length path - 1) = Inr (Suc j)" "j < length path - 1"
      "path ! j = CHR ''/''" "CHR ''/'' \<notin> set (drop (Suc j) (butlast path))"
      using cases by (auto simp: butlast_conv_take)
    let ?base = "drop (Suc j) path"
    have "path = take j path @ CHR ''/'' # ?base"
      using j(2,3) id_take_nth_drop [of j path] by simp
    moreover have "?base \<noteq> []" "CHR ''/'' \<notin> set (butlast ?base)"
      using j(2,4) by (auto simp: butlast_drop)
    moreover have "get_file_name path = Inr ?base"
      using j(1) assms by (simp add: get_file_name_def fits_def)
    ultimately show ?thesis using True by (simp only: if_True) blast
  qed
qed

theorem get_file_name_result_witness:
  "\<exists>dir base. ''a/bc'' = dir @ CHR ''/'' # base \<and> CHR ''/'' \<notin> set (butlast base)
    \<and> get_file_name ''a/bc'' = Inr base"
  using get_file_name_result [of "''a/bc''"] by (auto simp: fits_def)

text \<open>
  C11: The relay of a file does not depend on how TCP cuts the stream: for the same bytes, cut
  into any non-empty runs, the same frames go out, in the same order, and the same bytes are left.
\<close>

theorem relay_any_segmentation:
  assumes "[] \<notin> set segs" and "[] \<notin> set segs'" and "concat segs = concat segs'"
  shows "map_sum (\<lambda>e. e) (\<lambda>(fs, r). (fs, concat r)) (relay target [] segs)
       = map_sum (\<lambda>e. e) (\<lambda>(fs, r). (fs, concat r)) (relay target [] segs')"
  using relay_relay_stream [OF assms(1), of "[]" target] relay_relay_stream [OF assms(2), of "[]" target]
    assms(3) by (simp add: MSG_size_def)

theorem relay_any_segmentation_witness:
  "map_sum (\<lambda>e. e) (\<lambda>(fs, r). (fs, concat r)) (relay (Some 3) [] [''ab'', ''c''])
   = map_sum (\<lambda>e. e) (\<lambda>(fs, r). (fs, concat r)) (relay (Some 3) [] [''a'', ''bc''])"
  using relay_any_segmentation [of "[''ab'', ''c'']" "[''a'', ''bc'']" "Some 3"] by simp

text \<open>A frame that carries a full chunk, and one that ends the transfer.\<close>

definition full_frame :: "string \<Rightarrow> bool" where
  "full_frame f \<longleftrightarrow> length f = MSG_size \<and> \<not> chunk_len f < 1024"

definition last_frame :: "string \<Rightarrow> bool" where
  "last_frame f \<longleftrightarrow> length f = MSG_size \<and> chunk_len f < 1024"

lemma relay_stream_frames:
  assumes "\<forall>f \<in> set fs. full_frame f"
  shows "relay_stream (Some fd) (concat fs @ bs)
    = rbind (relay_stream (Some fd) bs) (\<lambda>(gs, r). Inr (fs @ gs, r))"
  using assms
proof (induction fs)
  case Nil
  then show ?case by (cases "relay_stream (Some fd) bs") auto
next
  case (Cons f fs)
  then show ?case
    by (cases "relay_stream (Some fd) bs")
      (auto simp: full_frame_def relay_stream_simps(4) [of f fd "concat fs @ bs"])
qed

lemma relay_frames:
  assumes "[] \<notin> set segs" and "concat segs = concat fs @ f @ bs"
    and "\<forall>g \<in> set fs. full_frame g" and "last_frame f"
  shows "\<exists>rest. relay (Some fd) [] segs = Inr (fs @ [f], rest) \<and> concat rest = bs"
proof -
  have "relay_stream (Some fd) (concat segs) = Inr (fs @ [f], bs)"
    using assms relay_stream_frames [OF assms(3), of fd "f @ bs"] relay_stream_simps(3) [of f fd bs]
    by (simp add: last_frame_def)
  with relay_relay_stream [OF assms(1), of "[]" "Some fd"]
  show ?thesis by (cases "relay (Some fd) [] segs") (auto simp: MSG_size_def)
qed

lemma send_file_online:
  assumes "get_file_name (file_path m) = Inr n"
    and "find_online (to_name m) s = Some d"
    and "relay (Some (d_socket d)) [] (inbox s fd) = Inr (fs, rest)"
  shows "send_file env fd m s = Inr (s\<lparr>inbox := (inbox s)(fd := rest),
    sent := sent s @ (d_socket d, Packet (m\<lparr>file_name := n\<rparr>)) # map (\<lambda>f. (d_socket d, Frame f)) fs\<rparr>)"
proof -
  have "fits 256 n" using assms(1) by (auto simp: get_file_name_def result_simps)
  with assms show ?thesis
    by (simp add: send_file_def Let_def send_frames_def send_def)
qed

text \<open>
  With the receiver online, a transfer announces the file under its name and passes on every
  frame up to the first short one, whole and in order; what the sender sends afterwards stays
  for the next request.
\<close>

theorem send_file_passes_frames:
  assumes "get_file_name (file_path m) = Inr n"
    and "find_online (to_name m) s = Some d" and "[] \<notin> set (inbox s fd)"
    and "concat (inbox s fd) = concat fs @ f @ bs"
    and "\<forall>g \<in> set fs. full_frame g" and "last_frame f"
  shows "\<exists>s'. send_file env fd m s = Inr s' \<and> concat (inbox s' fd) = bs
    \<and> sent s' = sent s @ (d_socket d, Packet (m\<lparr>file_name := n\<rparr>)) #
        map (\<lambda>g. (d_socket d, Frame g)) (fs @ [f])"
proof -
  obtain rest where "relay (Some (d_socket d)) [] (inbox s fd) = Inr (fs @ [f], rest)"
    "concat rest = bs" using relay_frames [OF assms(3-6)] by blast
  with send_file_online [OF assms(1,2) this(1)] show ?thesis by simp
qed

definition demo_frame :: "nat \<Rightarrow> string" where
  "demo_frame n = encode_MSG (zero_MSG\<lparr>once_len := int (htons n)\<rparr>)"

lemma chunk_len_demo_frame: "n < 65536 \<Longrightarrow> chunk_len (demo_frame n) = n"
  using htons_less [of n]
  by (simp add: demo_frame_def chunk_len_def once_len_bytes_encode ntohs_htons)

lemma length_demo_frame: "length (demo_frame n) = MSG_size"
  by (simp add: demo_frame_def)

definition demo_transfer :: "string list \<Rightarrow> server" where
  "demo_transfer segs = chat_server\<lparr>inbox := (\<lambda>_. [])(5 := segs)\<rparr>"

definition demo_file_packet :: MSG where
  "demo_file_packet = (chat_packet 6 ''bob'' ''ann'' [])\<lparr>file_path := ''a/b''\<rparr>"

lemma demo_file_name: "get_file_name (file_path demo_file_packet) = Inr ''b''"
  by (simp add: demo_file_packet_def get_file_name_def fits_def)

lemma demo_find_online:
  "find_online (to_name demo_file_packet) (demo_transfer segs) = Some \<lparr>d_name = ''ann'', d_socket = 4\<rparr>"
  by (simp add: demo_file_packet_def demo_transfer_def demo_defs find_online_def is_online_def)

lemma demo_frame_nonempty: "demo_frame n \<noteq> []"
  by (simp add: demo_frame_def)

theorem send_file_passes_frames_witness:
  "\<exists>s'. send_file working_mysql 5 demo_file_packet (demo_transfer [demo_frame 7]) = Inr s'
    \<and> concat (inbox s' 5) = [] \<and> sent s' = [(4, Packet (demo_file_packet\<lparr>file_name := ''b''\<rparr>)),
        (4, Frame (demo_frame 7))]"
proof -
  have "inbox (demo_transfer [demo_frame 7]) 5 = [demo_frame 7]"
    "sent (demo_transfer [demo_frame 7]) = []" by (simp_all add: demo_transfer_def demo_defs)
  moreover have "last_frame (demo_frame 7)"
    using length_demo_frame [of 7] chunk_len_demo_frame [of 7] by (auto simp: last_frame_def)
  ultimately show ?thesis
    using send_file_passes_frames [OF demo_file_name demo_find_online, of "[demo_frame 7]" 5 "[]"
        "demo_frame 7" "[]" working_mysql] demo_frame_nonempty [of 7] by simp
qed

text \<open>
  A file whose length is a multiple of 1024 has no short frame, and the transfer does not end
  with it: the next packet of the sender, whatever it asks for, is taken for one more frame and
  passed on to the receiver instead of being handled.
\<close>

theorem send_file_swallows_packet:
  assumes "get_file_name (file_path m) = Inr n"
    and "find_online (to_name m) s = Some d" and "[] \<notin> set (inbox s fd)"
    and "concat (inbox s fd) = concat fs @ encode_MSG p @ bs"
    and "\<forall>g \<in> set fs. full_frame g" and "once_len p = 0"
  shows "\<exists>s'. send_file env fd m s = Inr s' \<and> concat (inbox s' fd) = bs
    \<and> sent s' = sent s @ (d_socket d, Packet (m\<lparr>file_name := n\<rparr>)) #
        map (\<lambda>g. (d_socket d, Frame g)) fs @ [(d_socket d, Frame (encode_MSG p))]"
proof -
  have "last_frame (encode_MSG p)"
    using once_len_bytes_encode [of p 0] assms(6)
    by (simp add: last_frame_def chunk_len_def ntohs_def swap16_def)
  from relay_frames [OF assms(3,4,5) this] obtain rest
    where "relay (Some (d_socket d)) [] (inbox s fd) = Inr (fs @ [encode_MSG p], rest)"
      "concat rest = bs" by blast
  with send_file_online [OF assms(1,2) this(1)] show ?thesis by simp
qed

theorem send_file_swallows_packet_witness:
  "\<exists>s'. send_file working_mysql 5 demo_file_packet
      (demo_transfer [demo_frame 1024, encode_MSG (demo_packet 11 ''bob'' [])]) = Inr s'
    \<and> sent s' = [(4, Packet (demo_file_packet\<lparr>file_name := ''b''\<rparr>)), (4, Frame (demo_frame 1024)),
        (4, Frame (encode_MSG (demo_packet 11 ''bob'' [])))]"
proof -
  let ?p = "demo_packet 11 ''bob'' []"
  let ?s = "demo_transfer [demo_frame 1024, encode_MSG ?p]"
  have s: "inbox ?s 5 = [demo_frame 1024, encode_MSG ?p]" "sent ?s = []"
    by (simp_all add: demo_transfer_def chat_server_def demo_server_def)
  then have "[] \<notin> set (inbox ?s 5)" "concat (inbox ?s 5) = concat [demo_frame 1024] @ encode_MSG ?p @ []"
    using demo_frame_nonempty [of 1024] encode_MSG_nonempty [of ?p, symmetric] by auto
  moreover have "\<forall>g \<in> set [demo_frame 1024]. full_frame g"
    using length_demo_frame [of 1024] chunk_len_demo_frame [of 1024] by (auto simp: full_frame_def)
  moreover have "once_len ?p = 0" by (simp add: demo_packet_def zero_MSG_def)
  ultimately show ?thesis
    using send_file_swallows_packet [OF demo_file_name demo_find_online, of _ 5 "[demo_frame 1024]" ?p "[]"
        working_mysql] s(2) by fastforce
qed

text \<open>
  When the receiver is not online, the first complete frame makes the server follow the NULL
  pointer of the search; with less than a frame on the connection nothing is sent at all.
\<close>

theorem send_file_offline:
  assumes "get_file_name (file_path m) = Inr n"
    and "find_online (to_name m) s = None" and "[] \<notin> set (inbox s fd)"
  shows "if MSG_size \<le> length (concat (inbox s fd)) then send_file env fd m s = Inl Null_Deref
    else \<exists>s'. send_file env fd m s = Inr s' \<and> sent s' = sent s \<and> concat (inbox s' fd) = []"
proof -
  have "fits 256 n" using assms(1) by (auto simp: get_file_name_def result_simps)
  moreover have "relay_stream None (concat (inbox s fd))
    = (if MSG_size \<le> length (concat (inbox s fd)) then Inl Null_Deref else Inr ([], []))"
    by (simp add: relay_stream.simps)
  ultimately show ?thesis
    using relay_relay_stream [OF assms(3), of "[]" None] assms(1,2)
    by (cases "relay None [] (inbox s fd)")
      (auto simp: send_file_def Let_def find_online_def MSG_size_def split: if_splits)
qed

theorem send_file_offline_witness:
  "send_file working_mysql 4 (demo_file_packet\<lparr>to_name := ''eve''\<rparr>)
     (chat_server\<lparr>inbox := (\<lambda>_. [])(4 := [demo_frame 7])\<rparr>) = Inl Null_Deref"
  using send_file_offline [of "demo_file_packet\<lparr>to_name := ''eve''\<rparr>" "''b''"
      "chat_server\<lparr>inbox := (\<lambda>_. [])(4 := [demo_frame 7])\<rparr>" 4 working_mysql]
    demo_file_name demo_frame_nonempty [of 7] length_demo_frame [of 7]
  by (simp add: demo_defs find_online_def is_online_def)

end
