(* ===== verification/Mysql_Rows.thy ===== *)
theory Mysql_Rows
  imports Prelude
begin

text \<open>
  Rows of MySQL result sets, as both chat servers read them: a row is the list of its columns,
  a NULL column being \<open>None\<close>; a column is copied into a \<open>char\<close> array or converted by \<open>atoi\<close>.
\<close>

section \<open>Rows\<close>

type_synonym row = "string option list"

definition column :: "row \<Rightarrow> nat \<Rightarrow> string result" where
  "column r i =
     (if i < length r
      then (case r ! i of None \<Rightarrow> Inl Null_Deref | Some c \<Rightarrow> Inr c)
      else Inl Out_Of_Bounds)"

definition copy_column :: "nat \<Rightarrow> row \<Rightarrow> nat \<Rightarrow> string result" where
  "copy_column cap r i = rbind (column r i) (strcpy cap)"

definition int_column :: "row \<Rightarrow> nat \<Rightarrow> int result" where
  "int_column r i = rbind (column r i) (\<lambda>c. Inr (atoi c))"

fun read_rows :: "(row \<Rightarrow> 'a result) \<Rightarrow> row list \<Rightarrow> 'a list result" where
  "read_rows f [] = Inr []"
| "read_rows f (r # rs) = rbind (f r) (\<lambda>x. rbind (read_rows f rs) (\<lambda>xs. Inr (x # xs)))"

end
