(* ===== verification/Server_Load.thy ===== *)
theory Server_Load
  imports Server_Demo Node_Heap Mysql_Rows
begin

text \<open>
  Reading the four tables when \<open>epoll.c\<close> starts (\<open>read_mysql_user\<close> and its siblings). The
  result set of a query that failed is NULL, and \<open>mysql_fetch_row\<close> follows it.
\<close>

text \<open>\<open>select * from\<close> a table on the global connection: a failure is printed, not handled.\<close>

definition select_all :: "mysql_env \<Rightarrow> string \<Rightarrow> row list \<Rightarrow> server \<Rightarrow> (row list \<times> server) result" where
  "select_all env table rs s =
     (case mysql_real_query env 0 (''select * from '' @ table) s of
        (ret, s') \<Rightarrow> if ret then Inl Null_Deref else Inr (rs, s'))"

section \<open>The four tables\<close>

definition user_of_row :: "row \<Rightarrow> mysql_user result" where
  "user_of_row r =
     rbind (copy_column 20 r 1) (\<lambda>n.
     rbind (copy_column 20 r 2) (\<lambda>k.
     rbind (copy_column 2 r 3) (\<lambda>x.
     rbind (copy_column 20 r 4) (\<lambda>p.
     rbind (copy_column 30 r 5) (\<lambda>t.
       Inr \<lparr>u_name = n, u_nickname = k, u_sex = x, u_passworld = p, u_telephone = t\<rparr>)))))"

definition read_mysql_user :: "mysql_env \<Rightarrow> row list \<Rightarrow> server \<Rightarrow> server result" where
  "read_mysql_user env tab s =
     rbind (select_all env ''user'' tab s) (\<lambda>(rs, s1).
     rbind (read_rows user_of_row rs) (\<lambda>us. Inr (s1\<lparr>head_user := us\<rparr>)))"

definition friend_of_row :: "row \<Rightarrow> mysql_friend result" where
  "friend_of_row r =
     rbind (copy_column 20 r 1) (\<lambda>f.
     rbind (copy_column 20 r 2) (\<lambda>u.
     rbind (int_column r 3) (\<lambda>ty.
     rbind (int_column r 4) (\<lambda>st.
       Inr \<lparr>f_friendname = f, f_username = u, f_type = ty, f_status = st\<rparr>))))"

definition read_mysql_friend :: "mysql_env \<Rightarrow> row list \<Rightarrow> server \<Rightarrow> server result" where
  "read_mysql_friend env tab s =
     rbind (select_all env ''friend'' tab s) (\<lambda>(rs, s1).
     rbind (read_rows friend_of_row rs) (\<lambda>fs. Inr (s1\<lparr>head_friends := fs\<rparr>)))"

definition group_of_row :: "row \<Rightarrow> mysql_user_groups result" where
  "group_of_row r =
     rbind (copy_column 20 r 0) (\<lambda>n.
     rbind (copy_column 20 r 1) (\<lambda>w. Inr \<lparr>g_name = n, g_owner = w\<rparr>))"

definition read_mysql_user_groups :: "mysql_env \<Rightarrow> row list \<Rightarrow> server \<Rightarrow> server result" where
  "read_mysql_user_groups env tab s =
     rbind (select_all env ''user_groups'' tab s) (\<lambda>(rs, s1).
     rbind (read_rows group_of_row rs) (\<lambda>gs. Inr (s1\<lparr>head_user_groups := gs\<rparr>)))"

definition relation_of_row :: "row \<Rightarrow> mysql_group_relationship result" where
  "relation_of_row r =
     rbind (copy_column 20 r 0) (\<lambda>g.
     rbind (copy_column 20 r 1) (\<lambda>u.
     rbind (int_column r 2) (\<lambda>ty. Inr \<lparr>r_group_name = g, r_user_name = u, r_type = ty\<rparr>)))"

definition read_mysql_group_relationship :: "mysql_env \<Rightarrow> row list \<Rightarrow> server \<Rightarrow> server result" where
  "read_mysql_group_relationship env tab s =
     rbind (select_all env ''group_relationship'' tab s) (\<lambda>(rs, s1).
     rbind (read_rows relation_of_row rs) (\<lambda>gs. Inr (s1\<lparr>head_group_relationship := gs\<rparr>)))"

record tables =
  user_table :: "row list"
  friend_table :: "row list"
  groups_table :: "row list"
  relation_table :: "row list"

definition load_tables :: "mysql_env \<Rightarrow> tables \<Rightarrow> server \<Rightarrow> server result" where
  "load_tables env t s =
     rbind (read_mysql_user env (user_table t) s) (\<lambda>s1.
     rbind (read_mysql_friend env (friend_table t) s1) (\<lambda>s2.
     rbind (read_mysql_user_groups env (groups_table t) s2) (\<lambda>s3.
       read_mysql_group_relationship env (relation_table t) s3)))"

section \<open>What is loaded\<close>

lemma select_all_eq_Inr [result_simps]:
  "select_all env table rs s = Inr p \<longleftrightarrow>
     \<not> query_fails env (queries s) (0, ''select * from '' @ table)
     \<and> p = (rs, s\<lparr>queries := queries s @ [(0, ''select * from '' @ table)]\<rparr>)"
  by (auto simp: select_all_def mysql_real_query_def)

lemma read_rows_set:
  "read_rows f rs = Inr xs \<Longrightarrow> x \<in> set xs \<Longrightarrow> \<exists>r. f r = Inr x"
  by (induction rs arbitrary: xs) (auto simp: result_simps)

lemma wf_of_rows:
  "user_of_row r = Inr u \<Longrightarrow> wf_user u"
  "friend_of_row r = Inr f \<Longrightarrow> wf_friend f"
  "group_of_row r = Inr g \<Longrightarrow> wf_group g"
  "relation_of_row r = Inr x \<Longrightarrow> wf_relation x"
  by (auto simp: user_of_row_def friend_of_row_def group_of_row_def relation_of_row_def
      copy_column_def result_simps wf_defs)

lemma load_tables_wf_rows:
  assumes "load_tables env t s = Inr s'"
  shows "\<forall>u \<in> set (head_user s'). wf_user u" "\<forall>f \<in> set (head_friends s'). wf_friend f"
    "\<forall>g \<in> set (head_user_groups s'). wf_group g"
    "\<forall>r \<in> set (head_group_relationship s'). wf_relation r"
  using assms
  by (auto simp: load_tables_def result_simps read_mysql_user_def read_mysql_friend_def
      read_mysql_user_groups_def read_mysql_group_relationship_def
      dest!: read_rows_set intro: wf_of_rows)

lemma load_tables_fresh:
  assumes "load_tables env t s = Inr s'"
  shows "head s' = head s" "head_request s' = head_request s"
  using assms
  by (auto simp: load_tables_def result_simps read_mysql_user_def read_mysql_friend_def
      read_mysql_user_groups_def read_mysql_group_relationship_def)

end
