(* ===== verification/Server_Main.thy ===== *)
theory Server_Main
  imports Server_Account Server_Friend Server_Group Server_File Server_Load
begin

text \<open>
  The dispatcher \<open>chuli_request\<close> and the event loop of \<open>main\<close> in \<open>epoll.c\<close>. An event is one
  entry of the array that \<open>epoll_wait\<close> fills. The local variable \<open>message\<close> is not cleared
  between events: whatever bytes \<open>recv\<close> does not overwrite are a part of the event (\<open>stale\<close>).
\<close>

section \<open>The dispatcher\<close>

definition chuli_request :: "mysql_env \<Rightarrow> int \<Rightarrow> MSG \<Rightarrow> server \<Rightarrow> server result" where
  "chuli_request env conn_fd m s =
     (if cmd m = 0 then forget_password env conn_fd m s
      else if cmd m = 1 then reg env conn_fd m s
      else if cmd m = 2 then login env conn_fd m s
      else if cmd m = 11 then all_friends env conn_fd m s
      else if cmd m = 12 then online_friend env conn_fd m s
      else if cmd m = 13 then private_chat env conn_fd m s
      else if cmd m = 14 then add_friend env conn_fd m s
      else if cmd m = 15 then delete_friend env conn_fd m s
      else if cmd m = 21 then view_group env conn_fd m s
      else if cmd m = 22 then public_chat env conn_fd m s
      else if cmd m = 23 then add_group env conn_fd m s
      else if cmd m = 24 then quit_group env conn_fd m s
      else if cmd m = 251 then view_group_member env conn_fd m s
      else if cmd m = 252 then break_group env conn_fd m s
      else if cmd m = 253 then set_manager env conn_fd m s
      else if cmd m = 311 then deal_friend_request_y env conn_fd m s
      else if cmd m = 312 then deal_friend_request_n env conn_fd m s
      else if cmd m = 321 then deal_group_request_y env conn_fd m s
      else if cmd m = 322 then deal_group_request_n env conn_fd m s
      else if cmd m = 5 then create_group env conn_fd m s
      else if cmd m = 6 then send_file env conn_fd m s
      else Inr s)"

section \<open>The event loop\<close>

datatype event =
    New_Connection int "string list"
  | Not_Readable int
  | Readable int string
  | Recv_Failed int string

record reactor =
  srv :: server
  tree :: "int list"
  server_close :: bool

text \<open>\<open>del_node(fd)\<close> on the list of online users.\<close>

definition drop_online :: "int \<Rightarrow> server \<Rightarrow> server" where
  "drop_online fd s = s\<lparr>head := del_node (\<lambda>d. d_socket d = fd) (head s)\<rparr>"

text \<open>
  A client that closed its connection is taken off the list and off the tree, and the
  message is handled all the same.
\<close>

fun handle_event :: "mysql_env \<Rightarrow> event \<Rightarrow> reactor \<Rightarrow> reactor result" where
  "handle_event env (New_Connection cfd segs) r =
     Inr (r\<lparr>tree := cfd # tree r, srv := (srv r)\<lparr>inbox := (inbox (srv r))(cfd := segs)\<rparr>\<rparr>)"
| "handle_event env (Not_Readable fd) r = Inr r"
| "handle_event env (Readable fd stale) r =
     (case recv MSG_size (inbox (srv r) fd) of (got, rest) \<Rightarrow>
        let message = decode_MSG (got @ drop (length got) stale);
            s1 = (srv r)\<lparr>inbox := (inbox (srv r))(fd := rest)\<rparr>;
            r1 = (if got = []
                  then r\<lparr>srv := drop_online fd s1, tree := filter (\<lambda>t. t \<noteq> fd) (tree r)\<rparr>
                  else r\<lparr>srv := s1\<rparr>)
        in rbind (chuli_request env fd message (srv r1)) (\<lambda>s2. Inr (r1\<lparr>srv := s2\<rparr>)))"
| "handle_event env (Recv_Failed fd stale) r =
     rbind (chuli_request env fd (decode_MSG stale) (srv r)) (\<lambda>s2. Inr (r\<lparr>srv := s2\<rparr>))"

text \<open>
  One round of \<open>epoll_wait\<close>: its events, and whether SIGINT has arrived by its end
  (\<open>headler\<close>). When the rounds run out the server is waiting.
\<close>

type_synonym round = "event list \<times> bool"

definition headler :: "reactor \<Rightarrow> reactor" where
  "headler r = r\<lparr>server_close := True\<rparr>"

definition free_lists :: "server \<Rightarrow> server" where
  "free_lists s = s\<lparr>head_user := [], head_friends := [], head_user_groups := [],
     head_group_relationship := []\<rparr>"

fun event_loop :: "mysql_env \<Rightarrow> round list \<Rightarrow> reactor \<Rightarrow> reactor result" where
  "event_loop env [] r = Inr r"
| "event_loop env ((es, signalled) # rounds) r =
     rbind (rfold (handle_event env) es r) (\<lambda>r1.
       let r2 = (if signalled then headler r1 else r1)
       in if server_close r2 then Inr (r2\<lparr>srv := free_lists (srv r2)\<rparr>)
          else event_loop env rounds r2)"

definition initial_server :: server where
  "initial_server = \<lparr>head_user = [], head_friends = [], head_user_groups = [],
     head_group_relationship = [], head = [], head_request = [], connections = 0,
     queries = [], sent = [], inbox = (\<lambda>_. [])\<rparr>"

text \<open>Start-up: the global connection, then the tables; \<open>lfd\<close> is the listening socket.\<close>

definition start_server :: "mysql_env \<Rightarrow> tables \<Rightarrow> int \<Rightarrow> reactor result" where
  "start_server env t lfd =
     (if init_fails env 0 then Inl (Exit 1)
      else rbind (load_tables env t initial_server) (\<lambda>s.
             Inr \<lparr>srv = s, tree = [lfd], server_close = False\<rparr>))"

definition main_loop :: "mysql_env \<Rightarrow> tables \<Rightarrow> int \<Rightarrow> round list \<Rightarrow> reactor result" where
  "main_loop env t lfd rounds = rbind (start_server env t lfd) (event_loop env rounds)"

section \<open>The dispatcher meets the contract of a handler\<close>

lemmas handlers_wf = forget_handler.keeps_wf reg_handler.keeps_wf login_handler.keeps_wf
  all_friends_handler.keeps_wf online_friend_handler.keeps_wf private_chat_handler.keeps_wf
  add_friend_handler.keeps_wf delete_friend_handler.keeps_wf view_group_handler.keeps_wf
  public_chat_handler.keeps_wf add_group_handler.keeps_wf quit_group_handler.keeps_wf
  view_member_handler.keeps_wf break_group_handler.keeps_wf set_manager_handler.keeps_wf
  friend_y_handler.keeps_wf friend_n_handler.keeps_wf group_y_handler.keeps_wf
  group_n_handler.keeps_wf create_group_handler.keeps_wf send_file_handler.keeps_wf

lemmas handlers_grow = forget_handler.logs_grow reg_handler.logs_grow login_handler.logs_grow
  all_friends_handler.logs_grow online_friend_handler.logs_grow private_chat_handler.logs_grow
  add_friend_handler.logs_grow delete_friend_handler.logs_grow view_group_handler.logs_grow
  public_chat_handler.logs_grow add_group_handler.logs_grow quit_group_handler.logs_grow
  view_member_handler.logs_grow break_group_handler.logs_grow set_manager_handler.logs_grow
  friend_y_handler.logs_grow friend_n_handler.logs_grow group_y_handler.logs_grow
  group_n_handler.logs_grow create_group_handler.logs_grow send_file_handler.logs_grow

interpretation chuli: request_handler "chuli_request env" for env
proof unfold_locales
  fix s fd m s'
  assume "server_wf s" and "chuli_request env fd m s = Inr s'"
  then show "server_wf s'"
    unfolding chuli_request_def by (auto split: if_splits dest: handlers_wf)
next
  fix s fd m s'
  assume "chuli_request env fd m s = Inr s'"
  then show "grows s s'"
    unfolding chuli_request_def by (auto split: if_splits dest: handlers_grow)
qed

section \<open>Reachable states\<close>

text \<open>The kernel reports events only of descriptors on the tree.\<close>

fun event_fd :: "event \<Rightarrow> int option" where
  "event_fd (New_Connection cfd segs) = None"
| "event_fd (Not_Readable fd) = Some fd"
| "event_fd (Readable fd stale) = Some fd"
| "event_fd (Recv_Failed fd stale) = Some fd"

inductive server_step :: "mysql_env \<Rightarrow> reactor \<Rightarrow> event \<Rightarrow> reactor \<Rightarrow> bool" for env where
  handle: "handle_event env e r = Inr r' \<Longrightarrow> (\<And>fd. event_fd e = Some fd \<Longrightarrow> fd \<in> set (tree r))
    \<Longrightarrow> server_step env r e r'"

inductive server_reach :: "mysql_env \<Rightarrow> reactor \<Rightarrow> reactor \<Rightarrow> bool" for env r0 where
  start: "server_reach env r0 r0"
| step: "server_reach env r0 r \<Longrightarrow> server_step env r e r' \<Longrightarrow> server_reach env r0 r'"

inductive_cases server_step_E: "server_step env r e r'"
inductive_simps server_step_iff: "server_step env r e r'"

lemma server_wf_inbox_fun [simp]: "server_wf (s\<lparr>inbox := f\<rparr>) = server_wf s"
  by (simp add: server_wf_defs)

lemma drop_online_wf: "server_wf s \<Longrightarrow> server_wf (drop_online fd s)"
  by (auto simp: server_wf_def drop_online_def intro: wf_del_online [OF _ set_del_node])

lemma handle_event_wf:
  "handle_event env e r = Inr r' \<Longrightarrow> server_wf (srv r) \<Longrightarrow> server_wf (srv r')"
  by (cases e) (auto simp: result_simps Let_def drop_online_wf
      split: prod.splits if_splits dest!: chuli.keeps_wf [rotated])

lemma server_step_wf: "server_step env r e r' \<Longrightarrow> server_wf (srv r) \<Longrightarrow> server_wf (srv r')"
  by (auto elim!: server_step_E intro: handle_event_wf)

lemma grows_drop_online [simp]: "grows s (drop_online fd s\<lparr>inbox := f\<rparr>)"
  by (simp add: grows_iff drop_online_def)

lemma grows_inbox: "grows (s\<lparr>inbox := f\<rparr>) t = grows s t" "grows s (t\<lparr>inbox := f\<rparr>) = grows s t"
  "grows (drop_online fd s) t = grows s t"
  by (simp_all add: grows_iff drop_online_def)

lemma handle_event_grows: "handle_event env e r = Inr r' \<Longrightarrow> grows (srv r) (srv r')"
  by (cases e) (auto simp: result_simps Let_def grows_inbox
      split: prod.splits if_splits dest!: chuli.logs_grow)

lemma handle_event_close: "handle_event env e r = Inr r' \<Longrightarrow> server_close r' = server_close r"
  by (cases e) (auto simp: result_simps Let_def split: prod.splits if_splits)

lemma server_wf_free_lists: "server_wf s \<Longrightarrow> server_wf (free_lists s)"
  by (auto simp: server_wf_defs free_lists_def)

lemma event_loop_wf:
  "event_loop env rounds r = Inr r' \<Longrightarrow> server_wf (srv r) \<Longrightarrow> server_wf (srv r')"
proof (induction env rounds r rule: event_loop.induct)
  case (1 env r)
  then show ?case by simp
next
  case (2 env es signalled rounds r)
  from "2.prems"(1) obtain r1 where r1: "rfold (handle_event env) es r = Inr r1"
    by (auto simp: result_simps)
  have wf1: "server_wf (srv r1)"
    by (rule rfold_invariant [OF r1, where P = "\<lambda>r. server_wf (srv r)"])
      (auto intro: handle_event_wf "2.prems"(2))
  have "server_wf (srv (if signalled then headler r1 else r1))" using wf1 by (simp add: headler_def)
  with 2 r1 show ?case
    by (auto simp: Let_def server_wf_free_lists split: if_splits)
qed

section \<open>Properties of the event loop\<close>

lemma readable_data:
  assumes "recv MSG_size (inbox (srv r) fd) = (got, rest)" and "got \<noteq> []"
  shows "handle_event env (Readable fd stale) r =
    rbind (chuli_request env fd (decode_MSG (got @ drop (length got) stale))
        ((srv r)\<lparr>inbox := (inbox (srv r))(fd := rest)\<rparr>))
      (\<lambda>s'. Inr (r\<lparr>srv := s'\<rparr>))"
  using assms by (simp add: Let_def)

lemma server_reach_wf: "server_reach env r0 r \<Longrightarrow> server_wf (srv r0) \<Longrightarrow> server_wf (srv r)"
  by (induction rule: server_reach.induct) (auto intro: server_step_wf)

lemma server_reach_grows: "server_reach env r0 r \<Longrightarrow> grows (srv r0) (srv r)"
proof (induction rule: server_reach.induct)
  case start
  then show ?case by simp
next
  case (step r e r')
  from step.hyps(2) have "handle_event env e r = Inr r'" by (auto elim: server_step_E)
  with step.IH show ?case by (blast intro: grows_trans handle_event_grows)
qed

lemma start_loaded:
  assumes "start_server env t lfd = Inr r0"
    and "keys_ok (head_user (srv r0)) (head_friends (srv r0)) (head_user_groups (srv r0))"
    and "owners_ok (head_user_groups (srv r0)) (head_group_relationship (srv r0))"
  shows "server_wf (srv r0)"
proof -
  from assms(1) have l: "load_tables env t initial_server = Inr (srv r0)"
    by (auto simp: start_server_def result_simps split: if_splits)
  with load_tables_wf_rows [OF l] load_tables_fresh [OF l] assms(2,3) show ?thesis
    by (simp add: server_wf_def lists_wf_def initial_server_def)
qed

text \<open>
  C1: The server's invariant. A server that has loaded its tables, and found in them unique user
  names and group names, one row for a pair of friends, each status 0 or 1, and every group's owner
  among its members, stays consistent in every state it can reach, whatever its clients send, in
  whatever pieces and order, whenever they connect, disconnect or fail, and whichever queries fail:
  all this still holds, and every string fits its array. And from any state it reaches to any later
  one, the packets sent and the queries made only grow at their ends: what was sent and what was
  recorded is never changed.
\<close>

theorem reachable_server_consistent:
  assumes "start_server env t lfd = Inr r0"
    and "keys_ok (head_user (srv r0)) (head_friends (srv r0)) (head_user_groups (srv r0))"
    and "owners_ok (head_user_groups (srv r0)) (head_group_relationship (srv r0))"
    and "server_reach env r0 r" and "server_reach env r r'"
  shows "server_wf (srv r')
    \<and> prefix (sent (srv r)) (sent (srv r')) \<and> prefix (queries (srv r)) (queries (srv r'))"
  using server_reach_wf [OF assms(5) server_reach_wf [OF assms(4) start_loaded [OF assms(1-3)]]]
    server_reach_grows [OF assms(5)]
  by (simp add: grows_iff)

text \<open>The tables of \<open>chat_server\<close>.\<close>

definition chat_tables :: tables where
  "chat_tables = \<lparr>
     user_table = [[Some ''4'', Some ''ann'', Some ''a'', Some ''f'', Some ''pw'', Some ''123''],
       [Some ''7'', Some ''bob'', Some ''b'', Some ''m'', Some ''qw'', Some ''456'']],
     friend_table = [[Some ''2'', Some ''ann'', Some ''bob'', Some ''1'', Some ''0'']],
     groups_table = [[Some ''grp'', Some ''ann'']],
     relation_table = [[Some ''grp'', Some ''ann'', Some ''1''], [Some ''grp'', Some ''bob'', Some ''3'']]\<rparr>"

lemma chat_tables_load:
  "\<exists>qs. load_tables working_mysql chat_tables initial_server
    = Inr (chat_server\<lparr>head := [], queries := qs\<rparr>)"
proof -
  have "atoi ''0'' = 0" "atoi ''1'' = 1" "atoi ''3'' = 3" by code_simp+
  then show ?thesis
    by (simp add: load_tables_def chat_tables_def read_mysql_user_def read_mysql_friend_def
        read_mysql_user_groups_def read_mysql_group_relationship_def select_all_def mysql_real_query_def
        user_of_row_def friend_of_row_def group_of_row_def relation_of_row_def column_def copy_column_def
        int_column_def fits_def demo_defs initial_server_def)
qed

lemma demo_packet_wire_ok:
  "cstring 20 n \<Longrightarrow> cstring 20 p \<Longrightarrow> int32 c \<Longrightarrow> wire_ok (demo_packet c n p)"
  by (simp add: demo_defs wire_ok_def cstring_def fits_def int32_def)

theorem reachable_server_consistent_witness:
  "\<exists>r0 (r :: reactor) r'. start_server working_mysql chat_tables 3 = Inr r0
    \<and> server_reach working_mysql r0 r \<and> tree r = [7, 3] \<and> server_reach working_mysql r r'
    \<and> length (sent (srv r')) = 1 \<and> server_wf (srv r') \<and> prefix (sent (srv r)) (sent (srv r'))"
proof -
  from chat_tables_load obtain qs where
    l: "load_tables working_mysql chat_tables initial_server = Inr (chat_server\<lparr>head := [], queries := qs\<rparr>)" ..
  define r0 where "r0 = \<lparr>srv = chat_server\<lparr>head := [], queries := qs\<rparr>, tree = [3], server_close = False\<rparr>"
  have r0: "start_server working_mysql chat_tables 3 = Inr r0"
    by (simp add: start_server_def l r0_def) (simp add: working_mysql_def)
  have ok: "keys_ok (head_user (srv r0)) (head_friends (srv r0)) (head_user_groups (srv r0))"
    "owners_ok (head_user_groups (srv r0)) (head_group_relationship (srv r0))"
    using chat_server_wf by (simp_all add: r0_def server_wf_def lists_wf_def)
  define r where "r = r0\<lparr>tree := 7 # tree r0, srv := (srv r0)\<lparr>inbox := (inbox (srv r0))(7 := [])\<rparr>\<rparr>"
  have "server_step working_mysql r0 (New_Connection 7 []) r"
    by (rule server_step.handle) (simp_all add: r_def)
  then have r: "server_reach working_mysql r0 r"
    by (rule server_reach.step [OF server_reach.start])
  let ?m = "demo_packet 2 ''ann'' ''no''"
  have m: "decode_MSG (encode_MSG ?m) = ?m"
    by (rule packet_encoding, rule demo_packet_wire_ok) (simp_all add: cstring_def fits_def int32_def)
  obtain r' where r': "handle_event working_mysql (Recv_Failed 7 (encode_MSG ?m)) r = Inr r'" "length (sent (srv r')) = 1"
    by (simp add: m chuli_request_def) (auto simp: demo_defs login_def r_def r0_def find_first_None credentials_def send_def reply_def)
  have "server_step working_mysql r (Recv_Failed 7 (encode_MSG ?m)) r'"
    by (rule server_step.handle [OF r'(1)]) (simp add: r_def)
  then have r'': "server_reach working_mysql r r'"
    by (rule server_reach.step [OF server_reach.start])
  have "server_wf (srv r') \<and> prefix (sent (srv r)) (sent (srv r')) \<and> prefix (queries (srv r)) (queries (srv r'))"
    by (rule reachable_server_consistent [OF r0 ok r r''])
  with r0 r r'' r'(2) show ?thesis by (intro exI [of _ r0] exI [of _ r] exI [of _ r']) (simp add: r_def r0_def)
qed

text \<open>
  A packet that arrives in one piece is handled as it was sent, whatever the variable
  \<open>message\<close> held before.
\<close>

theorem whole_packet_handled:
  assumes "wire_ok m" and "inbox (srv r) fd = encode_MSG m # segs" and "length stale = MSG_size"
  shows "handle_event env (Readable fd stale) r =
    rbind (chuli_request env fd m ((srv r)\<lparr>inbox := (inbox (srv r))(fd := segs)\<rparr>))
      (\<lambda>s'. Inr (r\<lparr>srv := s'\<rparr>))"
proof -
  have "recv MSG_size (inbox (srv r) fd) = (encode_MSG m, segs)" using assms(2) by simp
  then show ?thesis using readable_data [of r fd "encode_MSG m" segs env stale] assms(3)
    by (simp add: packet_encoding [OF assms(1)])
qed

definition demo_reactor :: "string list \<Rightarrow> reactor" where
  "demo_reactor segs = \<lparr>srv = chat_server\<lparr>inbox := (\<lambda>_. [])(9 := segs)\<rparr>, tree = [9, 5, 4, 3],
     server_close = False\<rparr>"

theorem whole_packet_handled_witness:
  "handle_event working_mysql (Readable 9 (encode_MSG zero_MSG)) (demo_reactor [encode_MSG (demo_packet 77 [] [])])
   = Inr (demo_reactor [])"
proof -
  have "wire_ok (demo_packet 77 [] [])"
    by (rule demo_packet_wire_ok) (simp_all add: cstring_def fits_def int32_def)
  from whole_packet_handled [OF this, of "demo_reactor [encode_MSG (demo_packet 77 [] [])]" 9 "[]"
      "encode_MSG zero_MSG" working_mysql]
  show ?thesis
    by (simp add: demo_reactor_def chuli_request_def demo_packet_def fun_upd_idem)
qed

text \<open>
  A packet that arrives in two pieces is not put together. When the first piece ends before
  the command, the server acts on the command that the variable \<open>message\<close> held before; the
  second piece stays to be taken for the beginning of another packet.
\<close>

theorem split_packet_misread:
  assumes "inbox (srv r) fd = [take k (encode_MSG m), drop k (encode_MSG m)]"
    and "0 < k" and "k \<le> 1768" and "length stale = MSG_size"
  shows "\<exists>p. cmd p = cmd (decode_MSG stale) \<and> handle_event env (Readable fd stale) r =
    rbind (chuli_request env fd p
        ((srv r)\<lparr>inbox := (inbox (srv r))(fd := [drop k (encode_MSG m)])\<rparr>))
      (\<lambda>s'. Inr (r\<lparr>srv := s'\<rparr>))"
proof -
  let ?got = "take k (encode_MSG m)"
  have k: "length ?got = k" using assms(3) by (simp add: MSG_size_def)
  have "recv MSG_size (inbox (srv r) fd) = (?got, [drop k (encode_MSG m)])"
    using assms(1,3) by (simp add: MSG_size_def)
  moreover have "?got \<noteq> []" using assms(2) by simp
  moreover have "drop 1768 (?got @ drop (length ?got) stale) = drop 1768 stale"
    using assms(3) k by simp
  then have "cmd (decode_MSG (?got @ drop (length ?got) stale)) = cmd (decode_MSG stale)"
    by (simp only: decode_MSG_def int_at_def MSG.simps)
  ultimately show ?thesis using readable_data [of r fd ?got _ env stale] by blast
qed

theorem split_packet_misread_witness:
  "\<exists>p. cmd p = cmd (decode_MSG (encode_MSG (demo_packet 1002 [] [])))
    \<and> handle_event working_mysql (Readable 9 (encode_MSG (demo_packet 1002 [] [])))
        (demo_reactor [take 800 (encode_MSG (demo_packet 2 [] [])), drop 800 (encode_MSG (demo_packet 2 [] []))])
      = rbind (chuli_request working_mysql 9 p
          (srv (demo_reactor [drop 800 (encode_MSG (demo_packet 2 [] []))])))
        (\<lambda>s'. Inr ((demo_reactor [])\<lparr>srv := s'\<rparr>))"
  using split_packet_misread [of "demo_reactor [take 800 (encode_MSG (demo_packet 2 [] [])),
      drop 800 (encode_MSG (demo_packet 2 [] []))]" 9 800 "demo_packet 2 [] []"
      "encode_MSG (demo_packet 1002 [] [])" working_mysql]
  by (simp add: demo_reactor_def)

text \<open>
  When a client closes its connection the server takes it off the tree and then handles the
  old contents of \<open>message\<close> once more in its name. If these are a login with valid
  credentials, the closed descriptor is listed as that user's connection.
\<close>

theorem closed_connection_logged_in:
  assumes "inbox (srv r) fd = []" and "wire_ok m" and "cmd m = 2"
    and "server_wf (srv r)" and "\<forall>q \<in> set (head_request (srv r)). has_its_group q"
    and "\<exists>u \<in> set (head_user (srv r)). u_name u = name (user_infor m) \<and> u_passworld u = password (user_infor m)"
  shows "\<exists>r'. handle_event env (Readable fd (encode_MSG m)) r = Inr r' \<and> fd \<notin> set (tree r')
    \<and> \<lparr>d_name = name (user_infor m), d_socket = fd\<rparr> \<in> set (head (srv r'))"
proof -
  let ?s = "drop_online fd ((srv r)\<lparr>inbox := (inbox (srv r))(fd := [])\<rparr>)"
  have wf: "server_wf ?s" using assms(4) by (simp add: drop_online_wf)
  have "find_first (credentials (user_infor m)) (head_user ?s) \<noteq> None"
    unfolding find_first_not_None credentials_def using assms(6) by (simp add: drop_online_def)
  moreover have "\<forall>q \<in> set (head_request ?s). has_its_group q"
    using assms(5) by (simp add: drop_online_def)
  ultimately obtain s' where s': "login env fd m ?s = Inr s'"
    "\<lparr>d_name = name (user_infor m), d_socket = fd\<rparr> \<in> set (head s')"
    using login_sends_waiting [OF wf, of m env fd] by auto
  have "recv MSG_size (inbox (srv r) fd) = ([], [])" using assms(1) by simp
  moreover have "decode_MSG ([] @ drop (length []) (encode_MSG m)) = m"
    using packet_encoding [OF assms(2)] by simp
  ultimately have "handle_event env (Readable fd (encode_MSG m)) r
    = Inr (r\<lparr>srv := s', tree := filter (\<lambda>t. t \<noteq> fd) (tree r)\<rparr>)"
    using s'(1) assms(3) by (simp add: Let_def chuli_request_def)
  with s'(2) show ?thesis by simp
qed

theorem closed_connection_logged_in_witness:
  "\<exists>r'. handle_event working_mysql (Readable 9 (encode_MSG (demo_packet 2 ''ann'' ''pw''))) (demo_reactor [])
      = Inr r' \<and> 9 \<notin> set (tree r') \<and> \<lparr>d_name = ''ann'', d_socket = 9\<rparr> \<in> set (head (srv r'))"
proof -
  have "wire_ok (demo_packet 2 ''ann'' ''pw'')"
    by (rule demo_packet_wire_ok) (simp_all add: cstring_def fits_def int32_def)
  moreover have "server_wf (srv (demo_reactor []))" using chat_server_wf by (simp add: demo_reactor_def)
  ultimately show ?thesis
    using closed_connection_logged_in [of "demo_reactor []" 9 "demo_packet 2 ''ann'' ''pw''" working_mysql]
    by (simp add: demo_reactor_def demo_defs)
qed

text \<open>
  Disconnecting takes the wrong users off the online list. The list loses the user of the
  closed connection, and with a user in second place also the first one; when the connection
  belongs to nobody on the list the last user goes. (The message left in the variable is one
  the dispatcher ignores.)
\<close>

theorem disconnect_removes:
  assumes "inbox (srv r) fd = []" and "cmd (decode_MSG stale) = 1002"
    and "head (srv r) = as @ x # bs" and "\<forall>a \<in> set as. d_socket a \<noteq> fd"
    and "d_socket x = fd \<or> bs = []"
  shows "handle_event env (Readable fd stale) r = Inr (r\<lparr>
      srv := (srv r)\<lparr>head := (if length as = 1 then bs else as @ bs)\<rparr>,
      tree := filter (\<lambda>t. t \<noteq> fd) (tree r)\<rparr>)"
proof -
  have "recv MSG_size (inbox (srv r) fd) = ([], [])" using assms(1) by simp
  moreover have "(inbox (srv r))(fd := []) = inbox (srv r)" using assms(1) by auto
  moreover have "del_node (\<lambda>d. d_socket d = fd) (head (srv r)) = (if length as = 1 then bs else as @ bs)"
    using del_node_at [of as "\<lambda>d. d_socket d = fd" x bs] assms(3-5) by simp
  ultimately show ?thesis
    using assms(2) by (simp add: Let_def chuli_request_def drop_online_def)
qed

theorem disconnect_removes_witness:
  "handle_event working_mysql (Readable 5 (encode_MSG (demo_packet 1002 [] []))) (demo_reactor [])
   = Inr ((demo_reactor [])\<lparr>srv := (srv (demo_reactor []))\<lparr>head := []\<rparr>, tree := [9, 4, 3]\<rparr>)"
proof -
  have "wire_ok (demo_packet 1002 [] [])"
    by (rule demo_packet_wire_ok) (simp_all add: cstring_def fits_def int32_def)
  then have "cmd (decode_MSG (encode_MSG (demo_packet 1002 [] []))) = 1002"
    by (simp add: packet_encoding demo_packet_def)
  from disconnect_removes [OF _ this, of "demo_reactor []" 5 "[\<lparr>d_name = ''ann'', d_socket = 4\<rparr>]"
      "\<lparr>d_name = ''bob'', d_socket = 5\<rparr>" "[]" working_mysql]
  show ?thesis by (simp add: demo_reactor_def chat_server_def)
qed

end
