(* ===== verification/Client_State.thy ===== *)
theory Client_State
  imports Chat_Wire Node_Heap
begin

text \<open>
  The state of the client \<open>Code/huqingwei/chat_room/client1.c\<close> and the operations all its
  dialogues are made of: reading a word or a line from the terminal, sending a packet,
  receiving one. A client operation is a function of the state with three kinds of outcome:
  \<open>None\<close>, it waits for keys that are never typed; a fault; or a value and the next state.
\<close>

section \<open>State and outcomes\<close>

text \<open>
  \<open>keys\<close> is everything the user will type, \<open>incoming\<close> the byte runs the server's connection
  will deliver (after the last it is closed), \<open>out\<close> the packets handed to \<open>send\<close>, \<open>disk\<close> the
  files. The two request lists are a head pointer into a store each. \<open>screen\<close> has, for each
  packet shown, its command and the strings of the packet that are printed.
\<close>

record client =
  myname :: string
  keys :: string
  incoming :: "string list"
  out :: "MSG list"
  ticks :: nat
  head_friend :: "nat option \<times> MSG mem"
  head_group :: "nat option \<times> MSG mem"
  disk :: "string \<Rightarrow> string option"
  screen :: "(int \<times> string list) list"

text \<open>
  What the client relies on outside: whether the n-th \<open>send\<close> is cut short, what \<open>ctime\<close> says
  at the n-th reading, which files cannot be opened for writing, whether the connection ends
  with an error.
\<close>

record client_env =
  short_send :: "nat \<Rightarrow> bool"
  ctime :: "nat \<Rightarrow> string"
  open_fails :: "string \<Rightarrow> bool"
  link_error :: bool

type_synonym 'a run = "client \<Rightarrow> ('a \<times> client) result option"

definition returnc :: "'a \<Rightarrow> 'a run" where
  "returnc x s = Some (Inr (x, s))"

definition failc :: "fault \<Rightarrow> 'a run" where
  "failc e s = Some (Inl e)"

definition bindc :: "'a run \<Rightarrow> ('a \<Rightarrow> 'b run) \<Rightarrow> 'b run" where
  "bindc f g s =
     (case f s of
        None \<Rightarrow> None
      | Some (Inl e) \<Rightarrow> Some (Inl e)
      | Some (Inr (x, s')) \<Rightarrow> g x s')"

definition liftc :: "'a result \<Rightarrow> 'a run" where
  "liftc r s = Some (rbind r (\<lambda>x. Inr (x, s)))"

section \<open>The terminal\<close>

definition isspace :: "char \<Rightarrow> bool" where
  "isspace c \<longleftrightarrow> c = CHR '' '' \<or> (9 \<le> (of_char c :: nat) \<and> (of_char c :: nat) \<le> 13)"

text \<open>\<open>scanf("%s", buf)\<close>: skip blanks, then take the characters up to the next blank.\<close>

definition scan_word :: "string \<Rightarrow> (string \<times> string) option" where
  "scan_word ks =
     (let rest = dropWhile isspace ks; after = dropWhile (\<lambda>c. \<not> isspace c) rest
      in if after = [] then None else Some (takeWhile (\<lambda>c. \<not> isspace c) rest, after))"

definition scanf :: "nat \<Rightarrow> string run" where
  "scanf cap s =
     (case scan_word (keys s) of
        None \<Rightarrow> None
      | Some (w, rest) \<Rightarrow> Some (rbind (strcpy cap w) (\<lambda>w'. Inr (w', s\<lparr>keys := rest\<rparr>))))"

text \<open>\<open>while(getchar() != '\n');\<close>\<close>

definition flush :: "unit run" where
  "flush s =
     (case dropWhile (\<lambda>c. c \<noteq> newline) (keys s) of
        [] \<Rightarrow> None
      | _ # rest \<Rightarrow> Some (Inr ((), s\<lparr>keys := rest\<rparr>)))"

definition getchar :: "unit run" where
  "getchar s = (case keys s of [] \<Rightarrow> None | _ # rest \<Rightarrow> Some (Inr ((), s\<lparr>keys := rest\<rparr>)))"

definition ask :: "nat \<Rightarrow> string run" where
  "ask cap = bindc (scanf cap) (\<lambda>w. bindc flush (\<lambda>_. returnc w))"

section \<open>Operations get no new keys\<close>

text \<open>
  The law every operation obeys, and that lets the menus terminate: the keys left are an end
  of the keys there were, and the packets sent before stay.
\<close>

definition advances :: "client \<Rightarrow> client \<Rightarrow> bool" where
  "advances s s' \<longleftrightarrow> suffix (keys s') (keys s) \<and> prefix (out s) (out s')"

lemma advances_refl [simp, intro]: "advances s s"
  by (simp add: advances_def)

lemma advances_trans: "advances s t \<Longrightarrow> advances t u \<Longrightarrow> advances s u"
  by (auto simp: advances_def intro: suffix_order.trans prefix_order.trans)

lemma advances_length: "advances s s' \<Longrightarrow> length (keys s') \<le> length (keys s)"
  by (simp add: advances_def suffix_length_le)

locale client_op =
  fixes op :: "'a run"
  assumes op_advances: "op s = Some (Inr (x, s')) \<Longrightarrow> advances s s'"
begin

lemma op_keys: "op s = Some (Inr (x, s')) \<Longrightarrow> length (keys s') \<le> length (keys s)"
  using op_advances advances_length by blast

lemma op_keeps_sent: "op s = Some (Inr (x, s')) \<Longrightarrow> take (length (out s)) (out s') = out s"
  using op_advances by (force simp: advances_def prefix_def)

lemma op_then:
  assumes "\<And>y t t'. g y t = Some (Inr (z, t')) \<Longrightarrow> advances t t'"
    and "bindc op g s = Some (Inr (z, s'))"
  shows "advances s s'"
  using assms op_advances
  by (auto simp: bindc_def split: option.splits sum.splits) (metis advances_trans)

end

lemma bindc_eq_Some: "bindc f g s = Some (Inr (y, s')) \<longleftrightarrow>
    (\<exists>x t. f s = Some (Inr (x, t)) \<and> g x t = Some (Inr (y, s')))"
  by (auto simp: bindc_def split: option.splits sum.splits)

lemma bindc_simps [simp]:
  "f s = None \<Longrightarrow> bindc f g s = None"
  "f s = Some (Inl e) \<Longrightarrow> bindc f g s = Some (Inl e)"
  "f s = Some (Inr (x, t)) \<Longrightarrow> bindc f g s = g x t"
  by (simp_all add: bindc_def)

lemma returnc_simp [simp]: "returnc x s = Some (Inr (x, s))"
  by (simp add: returnc_def)

lemma failc_simp [simp]: "failc e s = Some (Inl e)"
  by (simp add: failc_def)

lemma liftc_simps [simp]: "liftc (Inr x) s = Some (Inr (x, s))" "liftc (Inl e) s = Some (Inl e)"
  by (simp_all add: liftc_def)

lemma suffix_dropWhile_trans: "suffix xs ys \<Longrightarrow> suffix (dropWhile P xs) ys"
  using suffix_dropWhile suffix_order.trans by blast

lemma scan_word_suffix: "scan_word ks = Some (w, rest) \<Longrightarrow> suffix rest ks"
  by (auto simp: scan_word_def Let_def suffix_dropWhile_trans suffix_dropWhile split: if_splits)

lemma flush_Some: "flush s = Some (Inr (x, s')) \<Longrightarrow>
    \<exists>rest. s' = s\<lparr>keys := rest\<rparr> \<and> suffix (newline # rest) (keys s)"
proof -
  assume "flush s = Some (Inr (x, s'))"
  then obtain c rest where "dropWhile (\<lambda>c. c \<noteq> newline) (keys s) = c # rest" "s' = s\<lparr>keys := rest\<rparr>"
    by (auto simp: flush_def split: list.splits)
  moreover from this have "c = newline" by (simp add: dropWhile_eq_Cons_conv)
  moreover have "suffix (dropWhile (\<lambda>c. c \<noteq> newline) (keys s)) (keys s)" by (rule suffix_dropWhile)
  ultimately show ?thesis by auto
qed

interpretation scanf_op: client_op "scanf cap" for cap
  by unfold_locales (auto simp: scanf_def advances_def result_simps scan_word_suffix
      split: option.splits)

interpretation flush_op: client_op flush
  by unfold_locales (auto simp: advances_def dest!: flush_Some suffix_ConsD)

interpretation getchar_op: client_op getchar
  by unfold_locales (auto simp: getchar_def advances_def suffix_ConsI split: list.splits)

interpretation return_op: client_op "returnc x" for x
  by unfold_locales simp

interpretation lift_op: client_op "liftc r" for r
  by unfold_locales (auto simp: liftc_def result_simps)

text \<open>Asking for a word always takes at least the newline.\<close>

lemma ask_shorter:
  assumes "ask cap s = Some (Inr (w, s'))"
  shows "length (keys s') < length (keys s)" "advances s s'" "fits cap w" "w \<noteq> []"
    "s' = s\<lparr>keys := keys s'\<rparr>"
proof -
  from assms obtain t where t: "scanf cap s = Some (Inr (w, t))" "flush t = Some (Inr ((), s'))"
    by (auto simp: ask_def bindc_eq_Some)
  from flush_Some [OF t(2)] obtain rest where r: "s' = t\<lparr>keys := rest\<rparr>"
    "suffix (newline # rest) (keys t)" by blast
  from t(1) have tk: "t = s\<lparr>keys := keys t\<rparr>" "fits cap w"
    "scan_word (keys s) = Some (w, keys t)"
    by (auto simp: scanf_def result_simps split: option.splits)
  from suffix_length_le [OF r(2)] suffix_length_le [OF scan_word_suffix [OF tk(3)]] r(1)
  show "length (keys s') < length (keys s)" by simp
  show "advances s s'"
    using scanf_op.op_advances [OF t(1)] flush_op.op_advances [OF t(2)] by (rule advances_trans)
  show "fits cap w" by (rule tk(2))
  obtain c cs where c: "dropWhile isspace (keys s) = c # cs"
    using tk(3) by (cases "dropWhile isspace (keys s)") (auto simp: scan_word_def)
  then have "\<not> isspace c" using hd_dropWhile [of isspace "keys s"] by simp
  with c tk(3) show "w \<noteq> []" by (auto simp: scan_word_def Let_def split: if_splits)
  show "s' = s\<lparr>keys := keys s'\<rparr>" using tk(1) r(1) by (metis client.surjective client.update_convs(2))
qed

interpretation ask_op: client_op "ask cap" for cap
  by unfold_locales (rule ask_shorter(2))

section \<open>Sending, receiving, choosing\<close>

text \<open>\<open>send(conn_fd, &message, sizeof(message), 0)\<close> with the result ignored, and with \<open>my_err\<close>.\<close>

definition send_packet :: "MSG \<Rightarrow> unit run" where
  "send_packet m s = Some (Inr ((), s\<lparr>out := out s @ [m]\<rparr>))"

definition send_or_exit :: "client_env \<Rightarrow> MSG \<Rightarrow> unit run" where
  "send_or_exit env m s =
     (if short_send env (length (out s)) then Some (Inl (Exit 1)) else send_packet m s)"

text \<open>\<open>recv\<close> into a packet: bytes that do not come leave the old ones in place.\<close>

definition recv_packet :: "MSG \<Rightarrow> MSG run" where
  "recv_packet m s =
     (case recv MSG_size (incoming s) of (got, rest) \<Rightarrow>
        Some (Inr (if got = [] then m else decode_MSG (got @ drop (length got) (encode_MSG m)),
                   s\<lparr>incoming := rest\<rparr>)))"

definition my_time :: "client_env \<Rightarrow> string run" where
  "my_time env s = Some (Inr (butlast (ctime env (ticks s)), s\<lparr>ticks := Suc (ticks s)\<rparr>))"

text \<open>The loop every menu opens with: ask until the word is one of the choices.\<close>

function read_choice :: "string list \<Rightarrow> nat \<Rightarrow> string run" where
  "read_choice choices cap s =
     (case ask cap s of
        None \<Rightarrow> None
      | Some (Inl e) \<Rightarrow> Some (Inl e)
      | Some (Inr (w, s')) \<Rightarrow> if w \<in> set choices then Some (Inr (w, s')) else read_choice choices cap s')"
  by pat_completeness auto
termination
  by (relation "measure (\<lambda>(choices, cap, s). length (keys s))") (auto dest: ask_shorter)

declare read_choice.simps [simp del]

interpretation send_op: client_op "send_packet m" for m
  by unfold_locales (auto simp: send_packet_def advances_def)

interpretation send_exit_op: client_op "send_or_exit env m" for env m
  by unfold_locales (auto simp: send_or_exit_def send_packet_def advances_def split: if_splits)

interpretation recv_op: client_op "recv_packet m" for m
  by unfold_locales (auto simp: recv_packet_def advances_def split: prod.splits)

interpretation time_op: client_op "my_time env" for env
  by unfold_locales (auto simp: my_time_def advances_def)

lemma read_choice_result:
  "read_choice choices cap s = Some (Inr (w, s')) \<Longrightarrow>
     w \<in> set choices \<and> length (keys s') < length (keys s) \<and> advances s s'"
proof (induction choices cap s arbitrary: w s' rule: read_choice.induct)
  case (1 choices cap s)
  then obtain v t where v: "ask cap s = Some (Inr (v, t))"
    by (auto simp: read_choice.simps [of choices cap s] split: option.splits sum.splits)
  note a = ask_shorter [OF v]
  show ?case
  proof (cases "v \<in> set choices")
    case True
    with 1(2) v a show ?thesis by (auto simp: read_choice.simps [of choices cap s])
  next
    case False
    with 1(2) v have "read_choice choices cap t = Some (Inr (w, s'))"
      by (simp add: read_choice.simps [of choices cap s])
    with 1(1) [OF v refl refl False] a show ?thesis
      by (auto intro: advances_trans)
  qed
qed

lemma read_choice_frame:
  "read_choice choices cap s = Some (Inr (w, s')) \<Longrightarrow> s' = s\<lparr>keys := keys s'\<rparr>"
proof (induction choices cap s arbitrary: w s' rule: read_choice.induct)
  case (1 choices cap s)
  then obtain v t where v: "ask cap s = Some (Inr (v, t))"
    by (auto simp: read_choice.simps [of choices cap s] split: option.splits sum.splits)
  note frame = ask_shorter(5) [OF v]
  show ?case
  proof (cases "v \<in> set choices")
    case True
    with 1(2) v frame show ?thesis by (simp add: read_choice.simps [of choices cap s])
  next
    case False
    with 1(2) v have "read_choice choices cap t = Some (Inr (w, s'))"
      by (simp add: read_choice.simps [of choices cap s])
    from 1(1) [OF v refl refl False this] have "s' = t\<lparr>keys := keys s'\<rparr>" .
    also have "\<dots> = s\<lparr>keys := keys s'\<rparr>" by (subst frame) simp
    finally show ?thesis .
  qed
qed

interpretation read_choice_op: client_op "read_choice choices cap" for choices cap
  by unfold_locales (simp add: read_choice_result)

lemmas ops_advance = scanf_op.op_advances flush_op.op_advances getchar_op.op_advances
  ask_op.op_advances send_op.op_advances send_exit_op.op_advances recv_op.op_advances
  time_op.op_advances read_choice_op.op_advances lift_op.op_advances

lemma bindc_advances:
  assumes "bindc f g s = Some (Inr (y, s'))"
    and "\<And>x t. f s = Some (Inr (x, t)) \<Longrightarrow> advances s t"
    and "\<And>x t. g x t = Some (Inr (y, s')) \<Longrightarrow> advances t s'"
  shows "advances s s'"
  using assms by (auto simp: bindc_eq_Some intro: advances_trans)

section \<open>Words and lines\<close>

text \<open>What one types for a word: no blanks, not empty; the rest of its line is skipped.\<close>

definition word :: "string \<Rightarrow> bool" where
  "word w \<longleftrightarrow> w \<noteq> [] \<and> (\<forall>c \<in> set w. \<not> isspace c)"

definition line_end :: "string \<Rightarrow> bool" where
  "line_end t \<longleftrightarrow> newline \<notin> set t \<and> (t = [] \<or> isspace (hd t))"

lemma isspace_newline [simp]: "isspace newline"
  by (simp add: isspace_def newline_def)

lemma scan_word_line:
  assumes "word w" and "c = hd (t @ [newline])" and "isspace c"
  shows "scan_word (w @ t @ newline # rest) = Some (w, t @ newline # rest)"
proof -
  obtain x xs where w: "w = x # xs" "\<not> isspace x" using assms(1) by (cases w) (auto simp: word_def)
  have "\<forall>y \<in> set w. \<not> isspace y" using assms(1) by (simp add: word_def)
  moreover obtain ts where "t @ newline # rest = c # ts" using assms(2) by (cases t) auto
  ultimately show ?thesis using w assms(3)
    by (auto simp: scan_word_def Let_def dropWhile_append takeWhile_append)
qed

lemma scanf_line:
  assumes "keys s = w @ t @ newline # rest" and "word w" and "line_end t" and "fits cap w"
  shows "scanf cap s = Some (Inr (w, s\<lparr>keys := t @ newline # rest\<rparr>))"
proof -
  have "isspace (hd (t @ [newline]))" using assms(3) by (cases t) (auto simp: line_end_def)
  from scan_word_line [OF assms(2) refl this] assms(1,4) show ?thesis by (simp add: scanf_def)
qed

lemma ask_line:
  assumes "keys s = w @ t @ newline # rest" and "word w" and "line_end t"
  shows "ask cap s = (if fits cap w then Some (Inr (w, s\<lparr>keys := rest\<rparr>)) else Some (Inl Buffer_Overflow))"
proof (cases "fits cap w")
  case True
  from scanf_line [OF assms True] have "scanf cap s = Some (Inr (w, s\<lparr>keys := t @ newline # rest\<rparr>))" .
  moreover have "dropWhile (\<lambda>c. c \<noteq> newline) (t @ newline # rest) = newline # rest"
    using assms(3) by (auto simp: line_end_def dropWhile_append)
  ultimately show ?thesis using True by (simp add: ask_def flush_def)
next
  case False
  have "isspace (hd (t @ [newline]))" using assms(3) by (cases t) (auto simp: line_end_def)
  from scan_word_line [OF assms(2) refl this] assms(1) False show ?thesis
    by (simp add: ask_def scanf_def strcpy_def bindc_def)
qed

lemma ask_skip:
  assumes "isspace c"
  shows "ask cap (s\<lparr>keys := c # ks\<rparr>) = ask cap (s\<lparr>keys := ks\<rparr>)"
proof -
  have "scan_word (c # ks) = scan_word ks" using assms by (simp add: scan_word_def)
  then show ?thesis by (simp add: ask_def bindc_def scanf_def split: option.split)
qed

end
