(* ===== verification/Client_Requests.thy ===== *)
theory Client_Requests
  imports Client_State
begin

text \<open>
  The dialogues of \<open>client1.c\<close> that send one request: account, friends, groups and chat. Each
  reads its words, checks them against the arrays they are copied to, fills in a packet and
  sends it. Fixed texts on the screen are left out.
\<close>

section \<open>Composing operations\<close>

named_theorems client_ops \<open>operations that advance\<close>

lemma client_op_bindc [client_ops]:
  "client_op f \<Longrightarrow> (\<And>x. client_op (g x)) \<Longrightarrow> client_op (bindc f g)"
  unfolding client_op_def by (blast intro: bindc_advances)

lemma client_op_if [client_ops]: "client_op f \<Longrightarrow> client_op g \<Longrightarrow> client_op (if b then f else g)"
  by simp

lemma client_op_fail [client_ops]: "client_op (failc e)"
  by unfold_locales simp

lemmas [client_ops] = scanf_op.client_op_axioms flush_op.client_op_axioms
  getchar_op.client_op_axioms return_op.client_op_axioms lift_op.client_op_axioms
  ask_op.client_op_axioms send_op.client_op_axioms send_exit_op.client_op_axioms
  recv_op.client_op_axioms time_op.client_op_axioms read_choice_op.client_op_axioms

text \<open>\<open>scanf\<close> into \<open>buf\<close> of \<open>cap\<close> bytes, flush, \<open>strcpy\<close> into a field of \<open>n\<close> bytes.\<close>

definition ask_into :: "nat \<Rightarrow> nat \<Rightarrow> string run" where
  "ask_into cap n = bindc (ask cap) (\<lambda>w. liftc (strcpy n w))"

definition get_myname :: "string run" where
  "get_myname s = Some (Inr (myname s, s))"

definition set_myname :: "string \<Rightarrow> unit run" where
  "set_myname n s = Some (rbind (strcpy 20 n) (\<lambda>n'. Inr ((), s\<lparr>myname := n'\<rparr>)))"

definition show_strings :: "int \<Rightarrow> string list \<Rightarrow> unit run" where
  "show_strings c ts s = Some (Inr ((), s\<lparr>screen := screen s @ [(c, ts)]\<rparr>))"

interpretation ask_into_op: client_op "ask_into cap n" for cap n
  unfolding ask_into_def by (intro client_ops)

interpretation get_myname_op: client_op get_myname
  by unfold_locales (simp add: get_myname_def)

interpretation set_myname_op: client_op "set_myname n" for n
  by unfold_locales (auto simp: set_myname_def advances_def result_simps)

interpretation show_op: client_op "show_strings c ts" for c ts
  by unfold_locales (auto simp: show_strings_def advances_def)

lemmas [client_ops] = ask_into_op.client_op_axioms get_myname_op.client_op_axioms
  set_myname_op.client_op_axioms show_op.client_op_axioms

section \<open>Account\<close>

text \<open>
  \<open>reg\<close> does not clear its packet: \<open>junk\<close> is what the stack holds. A function that ends
  without a \<open>return\<close> has the value \<open>None\<close>.
\<close>

definition client_reg :: "MSG \<Rightarrow> int option run" where
  "client_reg junk =
     bindc (ask_into 256 20) (\<lambda>n.
     bindc (ask_into 256 20) (\<lambda>k.
     bindc (ask_into 256 5) (\<lambda>x.
     bindc (ask_into 256 20) (\<lambda>p.
     bindc (ask_into 256 30) (\<lambda>t.
     let m = junk\<lparr>cmd := 1, user_infor := (user_infor junk)\<lparr>name := n, nickname := k, sex := x,
               password := p, telephone := t\<rparr>\<rparr>
     in bindc (send_packet m) (\<lambda>_.
        bindc (recv_packet m) (\<lambda>r.
          if cmd r = 1001 then bindc getchar (\<lambda>_. returnc (Some 1))
          else if cmd r = -1 then bindc getchar (\<lambda>_. returnc (Some (-1)))
          else returnc None)))))))"

definition client_login :: "int option run" where
  "client_login =
     bindc (ask 256) (\<lambda>n.
     bindc (liftc (strcpy 20 n)) (\<lambda>n.
     bindc (set_myname n) (\<lambda>_.
     bindc (ask_into 256 20) (\<lambda>p.
     let m = zero_MSG\<lparr>cmd := 2, user_infor := zero_yonghu\<lparr>name := n, password := p\<rparr>\<rparr>
     in bindc (send_packet m) (\<lambda>_.
        bindc (recv_packet m) (\<lambda>r.
          if cmd r = 1002 then bindc getchar (\<lambda>_. returnc (Some 1))
          else if cmd r = -2 then bindc getchar (\<lambda>_. returnc (Some (-1)))
          else returnc None))))))"

definition client_forget_password :: "client_env \<Rightarrow> unit run" where
  "client_forget_password env =
     bindc (scanf 200) (\<lambda>a.
     bindc (liftc (strcpy 20 a)) (\<lambda>n.
     bindc (scanf 200) (\<lambda>b.
     bindc (liftc (strcpy 30 b)) (\<lambda>t.
     let m = zero_MSG\<lparr>cmd := 0, user_infor := zero_yonghu\<lparr>name := n, telephone := t\<rparr>\<rparr>
     in bindc (send_or_exit env m) (\<lambda>_.
        bindc (recv_packet m) (\<lambda>r.
        bindc (if cmd r = 3 then show_strings 3 [password (user_infor r)] else returnc ()) (\<lambda>_.
          getchar)))))))"

section \<open>Friends\<close>

definition client_all_friends :: "client_env \<Rightarrow> unit run" where
  "client_all_friends env =
     bindc get_myname (\<lambda>me.
     bindc (send_or_exit env (zero_MSG\<lparr>cmd := 11, user_infor := zero_yonghu\<lparr>name := me\<rparr>\<rparr>)) (\<lambda>_.
       getchar))"

definition client_online_friends :: "client_env \<Rightarrow> unit run" where
  "client_online_friends env =
     bindc get_myname (\<lambda>me.
     bindc (send_or_exit env (zero_MSG\<lparr>cmd := 12, user_infor := zero_yonghu\<lparr>name := me\<rparr>\<rparr>)) (\<lambda>_.
       getchar))"

text \<open>
  The loop shared by \<open>private_chat\<close> (\<open>checked = False\<close>) and \<open>public_chat\<close>: one packet for the
  first word of every line, until a line starts with \<open>quit\<close>.
\<close>

definition send_as :: "client_env \<Rightarrow> bool \<Rightarrow> MSG \<Rightarrow> unit run" where
  "send_as env checked m = (if checked then send_or_exit env m else send_packet m)"

definition chat_line :: "client_env \<Rightarrow> string run" where
  "chat_line env =
     bindc (my_time env) (\<lambda>t. bindc (liftc (strcpy 30 t)) (\<lambda>now. returnc now))"

lemma chat_line_keys: "chat_line env s = Some (Inr (now, s')) \<Longrightarrow> keys s' = keys s"
  by (auto simp: chat_line_def bindc_eq_Some my_time_def liftc_def result_simps)

lemma send_as_keys: "send_as env checked m s = Some (Inr (x, s')) \<Longrightarrow> keys s' = keys s"
  by (auto simp: send_as_def send_or_exit_def send_packet_def split: if_splits)

function chat_loop :: "client_env \<Rightarrow> bool \<Rightarrow> MSG \<Rightarrow> client \<Rightarrow> (unit \<times> client) result option" where
  "chat_loop env checked m s =
     (case chat_line env s of
        None \<Rightarrow> None
      | Some (Inl e) \<Rightarrow> Some (Inl e)
      | Some (Inr (now, s1)) \<Rightarrow>
          (case ask 1024 s1 of
             None \<Rightarrow> None
           | Some (Inl e) \<Rightarrow> Some (Inl e)
           | Some (Inr (w, s2)) \<Rightarrow>
               if w = ''quit'' then Some (Inr ((), s2))
               else
                 (let m' = m\<lparr>time_str := now, news := w\<rparr>
                  in case send_as env checked m' s2 of
                       None \<Rightarrow> None
                     | Some (Inl e) \<Rightarrow> Some (Inl e)
                     | Some (Inr (_, s3)) \<Rightarrow> chat_loop env checked m' s3)))"
  by pat_completeness auto
termination
  by (relation "measure (\<lambda>(env, checked, m, s). length (keys s))")
    (auto dest!: ask_shorter(1) chat_line_keys send_as_keys)

declare chat_loop.simps [simp del]

definition client_private_chat :: "client_env \<Rightarrow> unit run" where
  "client_private_chat env =
     bindc get_myname (\<lambda>me.
     bindc (scanf 1024) (\<lambda>b.
     bindc (liftc (strcpy 20 b)) (\<lambda>to.
     bindc (chat_loop env False (zero_MSG\<lparr>cmd := 13, from_name := me, to_name := to\<rparr>)) (\<lambda>_.
       getchar))))"

definition client_add_friend :: "client_env \<Rightarrow> unit run" where
  "client_add_friend env =
     bindc get_myname (\<lambda>me.
     bindc (ask_into 1024 20) (\<lambda>to.
     bindc (send_or_exit env (zero_MSG\<lparr>cmd := 14, from_name := me, to_name := to\<rparr>)) (\<lambda>_.
       getchar)))"

definition client_delete_friend :: "client_env \<Rightarrow> unit run" where
  "client_delete_friend env =
     bindc get_myname (\<lambda>me.
     bindc (ask_into 200 20) (\<lambda>to.
     bindc (send_or_exit env (zero_MSG\<lparr>cmd := 15, from_name := me, to_name := to\<rparr>)) (\<lambda>_.
       getchar)))"

section \<open>Groups\<close>

definition client_view_group :: "client_env \<Rightarrow> unit run" where
  "client_view_group env =
     bindc get_myname (\<lambda>me.
     bindc (send_or_exit env (zero_MSG\<lparr>cmd := 21, user_infor := zero_yonghu\<lparr>name := me\<rparr>\<rparr>)) (\<lambda>_.
       getchar))"

definition client_public_chat :: "client_env \<Rightarrow> unit run" where
  "client_public_chat env =
     bindc get_myname (\<lambda>me.
     bindc (scanf 1024) (\<lambda>b.
     bindc (liftc (strcpy 20 b)) (\<lambda>g.
     bindc (chat_loop env True (zero_MSG\<lparr>cmd := 22, from_name := me, to_group_name := g\<rparr>)) (\<lambda>_.
       getchar))))"

text \<open>The dialogues that ask for a group and send one packet: \<open>cap\<close> is the size of \<open>buf\<close>.\<close>

definition group_dialogue :: "client_env \<Rightarrow> nat \<Rightarrow> int \<Rightarrow> unit run" where
  "group_dialogue env cap c =
     bindc get_myname (\<lambda>me.
     bindc (ask_into cap 20) (\<lambda>g.
     bindc (send_or_exit env (zero_MSG\<lparr>cmd := c, from_name := me, to_group_name := g\<rparr>)) (\<lambda>_.
       getchar)))"

definition client_add_group :: "client_env \<Rightarrow> unit run" where
  "client_add_group env = group_dialogue env 1024 23"

definition client_quit_group :: "client_env \<Rightarrow> unit run" where
  "client_quit_group env = group_dialogue env 200 24"

definition client_view_group_member :: "client_env \<Rightarrow> unit run" where
  "client_view_group_member env = group_dialogue env 200 251"

definition client_break_group :: "client_env \<Rightarrow> unit run" where
  "client_break_group env = group_dialogue env 200 252"

definition client_set_manager :: "client_env \<Rightarrow> unit run" where
  "client_set_manager env =
     bindc get_myname (\<lambda>me.
     bindc (ask_into 200 20) (\<lambda>g.
     bindc (ask_into 200 20) (\<lambda>to.
     bindc (send_or_exit env
         (zero_MSG\<lparr>cmd := 253, from_name := me, to_group_name := g, to_name := to\<rparr>)) (\<lambda>_.
       getchar))))"

definition client_create_group :: "client_env \<Rightarrow> unit run" where
  "client_create_group env =
     bindc get_myname (\<lambda>me.
     bindc (ask_into 20 20) (\<lambda>g.
     bindc (send_or_exit env (zero_MSG\<lparr>cmd := 5,
         group_of := \<lparr>group_name = g, group_owner = me, member_num = 0\<rparr>\<rparr>)) (\<lambda>_.
       getchar)))"

section \<open>The dialogues advance\<close>

lemma client_op_let [client_ops]: "client_op (f m) \<Longrightarrow> client_op (let x = m in f x)"
  by simp

interpretation reg_op: client_op "client_reg junk" for junk
  unfolding client_reg_def by (intro client_ops)

interpretation login_op: client_op client_login
  unfolding client_login_def by (intro client_ops)

interpretation forget_op: client_op "client_forget_password env" for env
  unfolding client_forget_password_def by (intro client_ops)

interpretation all_friends_op: client_op "client_all_friends env" for env
  unfolding client_all_friends_def by (intro client_ops)

interpretation online_friends_op: client_op "client_online_friends env" for env
  unfolding client_online_friends_def by (intro client_ops)

interpretation send_as_op: client_op "send_as env checked m" for env checked m
  unfolding send_as_def by (intro client_ops)

interpretation chat_line_op: client_op "chat_line env" for env
  unfolding chat_line_def by (intro client_ops)

lemma chat_loop_advances: "chat_loop env checked m s = Some (Inr (x, s')) \<Longrightarrow> advances s s'"
proof (induction env checked m s arbitrary: x s' rule: chat_loop.induct)
  case (1 env checked m s)
  from 1(2) obtain now s1 w s2 where s1: "chat_line env s = Some (Inr (now, s1))"
    and s2: "ask 1024 s1 = Some (Inr (w, s2))"
    by (auto simp: chat_loop.simps [of env checked m s] split: option.splits sum.splits)
  have "advances s s2"
    using chat_line_op.op_advances [OF s1] ask_op.op_advances [OF s2] by (rule advances_trans)
  moreover have "advances s2 s'"
  proof (cases "w = ''quit''")
    case True
    with 1(2) s1 s2 show ?thesis by (simp add: chat_loop.simps [of env checked m s])
  next
    case False
    with 1(2) s1 s2 obtain y s3 where
      s3: "send_as env checked (m\<lparr>time_str := now, news := w\<rparr>) s2 = Some (Inr (y, s3))"
      "chat_loop env checked (m\<lparr>time_str := now, news := w\<rparr>) s3 = Some (Inr (x, s'))"
      by (auto simp: chat_loop.simps [of env checked m s] Let_def split: option.splits sum.splits)
    from 1(1) [OF s1 refl refl s2 refl refl False refl s3(1) refl refl s3(2)]
      send_as_op.op_advances [OF s3(1)]
    show ?thesis by (blast intro: advances_trans)
  qed
  ultimately show ?case by (rule advances_trans)
qed

interpretation chat_loop_op: client_op "chat_loop env checked m" for env checked m
  by unfold_locales (rule chat_loop_advances)

lemmas [client_ops] = chat_loop_op.client_op_axioms

interpretation private_chat_op: client_op "client_private_chat env" for env
  unfolding client_private_chat_def by (intro client_ops)

interpretation add_friend_op: client_op "client_add_friend env" for env
  unfolding client_add_friend_def by (intro client_ops)

interpretation delete_friend_op: client_op "client_delete_friend env" for env
  unfolding client_delete_friend_def by (intro client_ops)

interpretation view_group_op: client_op "client_view_group env" for env
  unfolding client_view_group_def by (intro client_ops)

interpretation public_chat_op: client_op "client_public_chat env" for env
  unfolding client_public_chat_def by (intro client_ops)

interpretation group_dialogue_op: client_op "group_dialogue env cap c" for env cap c
  unfolding group_dialogue_def by (intro client_ops)

interpretation set_manager_op: client_op "client_set_manager env" for env
  unfolding client_set_manager_def by (intro client_ops)

interpretation create_group_op: client_op "client_create_group env" for env
  unfolding client_create_group_def by (intro client_ops)

lemmas [client_ops] = reg_op.client_op_axioms login_op.client_op_axioms forget_op.client_op_axioms
  all_friends_op.client_op_axioms online_friends_op.client_op_axioms
  private_chat_op.client_op_axioms add_friend_op.client_op_axioms delete_friend_op.client_op_axioms
  view_group_op.client_op_axioms public_chat_op.client_op_axioms group_dialogue_op.client_op_axioms
  set_manager_op.client_op_axioms create_group_op.client_op_axioms

section \<open>Properties of the dialogues\<close>

definition typed_lines :: "(string \<times> string) list \<Rightarrow> string" where
  "typed_lines ls = concat (map (\<lambda>(w, t). w @ t @ [newline]) ls)"

lemma word_quit: "word ''quit''"
  by (simp add: word_def isspace_def)

lemma chat_loop_lines:
  assumes "\<forall>(w, t) \<in> set ls. word w \<and> line_end t \<and> fits 1024 w \<and> w \<noteq> ''quit''"
    and "keys s = typed_lines ls @ ''quit'' @ newline # rest"
    and "\<forall>n. fits 30 (butlast (ctime env n))"
  shows "\<exists>s' ps. chat_loop env False m s = Some (Inr ((), s')) \<and> keys s' = rest \<and> out s' = out s @ ps
    \<and> map (\<lambda>p. (cmd p, from_name p, to_name p, news p)) ps
      = map (\<lambda>(w, t). (cmd m, from_name m, to_name m, w)) ls"
  using assms(1,2)
proof (induction ls arbitrary: m s)
  case Nil
  let ?s = "s\<lparr>ticks := Suc (ticks s)\<rparr>"
  have "keys ?s = ''quit'' @ [] @ newline # rest" using Nil(2) by (simp add: typed_lines_def)
  from ask_line [OF this word_quit, of 1024]
  have "ask 1024 ?s = Some (Inr (''quit'', ?s\<lparr>keys := rest\<rparr>))" by (simp add: line_end_def fits_def)
  then show ?case using assms(3)
    by (simp add: chat_loop.simps [of env False m s] chat_line_def my_time_def)
next
  case (Cons l ls)
  obtain w t where l: "l = (w, t)" by (cases l)
  let ?s = "s\<lparr>ticks := Suc (ticks s)\<rparr>" and ?now = "butlast (ctime env (ticks s))"
  let ?m = "m\<lparr>time_str := ?now, news := w\<rparr>"
  let ?s3 = "?s\<lparr>keys := typed_lines ls @ ''quit'' @ newline # rest, out := out s @ [?m]\<rparr>"
  have w: "word w" "line_end t" "fits 1024 w" "w \<noteq> ''quit''" using Cons.prems(1) l by auto
  have "keys ?s = w @ t @ newline # (typed_lines ls @ ''quit'' @ newline # rest)"
    using Cons.prems(2) l by (simp add: typed_lines_def)
  from ask_line [OF this w(1,2), of 1024] w(3)
  have "ask 1024 ?s = Some (Inr (w, ?s\<lparr>keys := typed_lines ls @ ''quit'' @ newline # rest\<rparr>))" by simp
  then have step: "chat_loop env False m s = chat_loop env False ?m ?s3"
    using assms(3) w(4)
    by (simp add: chat_loop.simps [of env False m s] chat_line_def my_time_def send_as_def
        send_packet_def Let_def)
  have "\<forall>(w, t) \<in> set ls. word w \<and> line_end t \<and> fits 1024 w \<and> w \<noteq> ''quit''"
    using Cons.prems(1) by simp
  from Cons.IH [OF this, of ?s3 ?m] obtain s' ps where
    "chat_loop env False ?m ?s3 = Some (Inr ((), s'))" "keys s' = rest" "out s' = out ?s3 @ ps"
    "map (\<lambda>p. (cmd p, from_name p, to_name p, news p)) ps
      = map (\<lambda>(w, t). (cmd m, from_name m, to_name m, w)) ls" by auto
  then show ?case using step l by (intro exI [of _ s'] exI [of _ "?m # ps"]) simp
qed

lemma chat_loop_skip:
  "chat_loop env checked m (s\<lparr>keys := newline # ks\<rparr>) = chat_loop env checked m (s\<lparr>keys := ks\<rparr>)"
proof -
  have a: "ask 1024 ((s\<lparr>ticks := Suc (ticks s)\<rparr>)\<lparr>keys := newline # ks\<rparr>)
      = ask 1024 ((s\<lparr>ticks := Suc (ticks s)\<rparr>)\<lparr>keys := ks\<rparr>)"
    by (rule ask_skip) simp
  have line: "chat_line env (s\<lparr>keys := k\<rparr>) = Some (rbind (strcpy 30 (butlast (ctime env (ticks s))))
      (\<lambda>now. Inr (now, (s\<lparr>ticks := Suc (ticks s)\<rparr>)\<lparr>keys := k\<rparr>)))" for k
    by (cases s; cases "strcpy 30 (butlast (ctime env (ticks s)))")
      (simp_all add: chat_line_def my_time_def bindc_def liftc_def)
  show ?thesis
    using a unfolding chat_loop.simps [of env checked m "s\<lparr>keys := newline # ks\<rparr>"]
      chat_loop.simps [of env checked m "s\<lparr>keys := ks\<rparr>"] line
    by (cases "strcpy 30 (butlast (ctime env (ticks s)))") simp_all
qed

text \<open>
  A private chat sends one packet for every line typed before a line that starts with
  \<open>quit\<close>, in order, all to the same receiver; the packet has only the first word of the line,
  whatever follows a blank is lost.
\<close>

theorem chat_sends_first_words:
  assumes "\<forall>(w, t) \<in> set ls. word w \<and> line_end t \<and> fits 1024 w \<and> w \<noteq> ''quit''"
    and "keys s = to @ newline # typed_lines ls @ ''quit'' @ newline # newline # rest"
    and "word to" and "fits 20 to"
    and "\<forall>n. fits 30 (butlast (ctime env n))"
  shows "\<exists>s' ps. client_private_chat env s = Some (Inr ((), s')) \<and> keys s' = rest
    \<and> out s' = out s @ ps \<and> map (\<lambda>p. (cmd p, from_name p, to_name p, news p)) ps
      = map (\<lambda>(w, t). (13, myname s, to, w)) ls"
proof -
  let ?m = "zero_MSG\<lparr>cmd := 13, from_name := myname s, to_name := to\<rparr>"
  let ?ks = "typed_lines ls @ ''quit'' @ newline # newline # rest"
  have "fits 1024 to" using assms(4) by (rule fits_mono) simp
  with scanf_line [of s to "[]" ?ks 1024] assms(2,3)
  have name: "scanf 1024 s = Some (Inr (to, s\<lparr>keys := newline # ?ks\<rparr>))" by (simp add: line_end_def)
  from chat_loop_lines [OF assms(1) _ assms(5), of "s\<lparr>keys := ?ks\<rparr>" "newline # rest" ?m]
  obtain s' ps where s': "chat_loop env False ?m (s\<lparr>keys := ?ks\<rparr>) = Some (Inr ((), s'))"
    "keys s' = newline # rest" "out s' = out s @ ps"
    "map (\<lambda>p. (cmd p, from_name p, to_name p, news p)) ps = map (\<lambda>(w, t). (13, myname s, to, w)) ls"
    by auto
  have "client_private_chat env s = Some (Inr ((), s'\<lparr>keys := rest\<rparr>))"
    using name assms(4) s'(1,2)
    by (simp add: client_private_chat_def get_myname_def chat_loop_skip getchar_def)
  with s' show ?thesis by (intro exI [of _ "s'\<lparr>keys := rest\<rparr>"] exI [of _ ps]) simp
qed

definition demo_env :: client_env where
  "demo_env = \<lparr>short_send = (\<lambda>_. False), ctime = (\<lambda>_. ''Thu Aug  1 12:00:00 2019'' @ [newline]),
     open_fails = (\<lambda>_. False), link_error = False\<rparr>"

definition demo_client :: "string \<Rightarrow> client" where
  "demo_client ks = \<lparr>myname = ''ann'', keys = ks, incoming = [], out = [], ticks = 0,
     head_friend = (None, empty_mem), head_group = (None, empty_mem), disk = (\<lambda>_. None), screen = []\<rparr>"

theorem chat_sends_first_words_witness:
  "\<exists>s' p. client_private_chat demo_env
      (demo_client (''bob'' @ newline # ''see you'' @ newline # ''quit'' @ [newline, newline])) = Some (Inr ((), s'))
    \<and> out s' = [p] \<and> news p = ''see'' \<and> to_name p = ''bob''"
proof -
  have "\<forall>(w, t) \<in> set [(''see'', '' you'')]. word w \<and> line_end t \<and> fits 1024 w \<and> w \<noteq> ''quit''"
    by (simp add: word_def line_end_def isspace_def newline_def fits_def)
  moreover have "word ''bob''" by (simp add: word_def isspace_def)
  moreover have "\<forall>n. fits 30 (butlast (ctime demo_env n))" by (simp add: demo_env_def fits_def)
  ultimately obtain s' ps where "client_private_chat demo_env
      (demo_client (''bob'' @ newline # ''see you'' @ newline # ''quit'' @ [newline, newline])) = Some (Inr ((), s'))"
    "out s' = ps" "map (\<lambda>p. (cmd p, from_name p, to_name p, news p)) ps = [(13, ''ann'', ''bob'', ''see'')]"
    using chat_sends_first_words [of "[(''see'', '' you'')]"
        "demo_client (''bob'' @ newline # ''see you'' @ newline # ''quit'' @ [newline, newline])" "''bob''" "[]" demo_env]
    by (auto simp: typed_lines_def demo_client_def fits_def)
  then show ?thesis by (cases ps) auto
qed

end
