(* ===== verification/Client_Files.thy ===== *)
theory Client_Files
  imports Client_Requests
begin

text \<open>
  The file transfer of \<open>client1.c\<close>: \<open>send_file\<close> reads the file in chunks of 1024 bytes and
  sends one packet for each; \<open>recv_file\<close> takes packets off the connection until a short one.
\<close>

section \<open>Sending\<close>

text \<open>What successive \<open>read(fd, message.news, 1024)\<close> return for a regular file.\<close>

function chunks :: "string \<Rightarrow> string list" where
  "chunks bs = (if bs = [] then [] else take 1024 bs # chunks (drop 1024 bs))"
  by pat_completeness auto
termination
  by (relation "measure length") auto

declare chunks.simps [simp del]

text \<open>
  The first frame still has the fields of the announcement; the packet is cleared after each.
\<close>

fun frames :: "MSG \<Rightarrow> string list \<Rightarrow> MSG list" where
  "frames m [] = []"
| "frames m (c # cs) = m\<lparr>send_end := 0, news := c, once_len := int (htons (length c))\<rparr> #
     frames (zero_MSG\<lparr>cmd := 6\<rparr>) cs"

fun send_all :: "MSG list \<Rightarrow> unit run" where
  "send_all [] = returnc ()"
| "send_all (m # ms) = bindc (send_packet m) (\<lambda>_. send_all ms)"

text \<open>\<open>int file_len = lseek(...)\<close> keeps the low 32 bits.\<close>

definition to_int32 :: "nat \<Rightarrow> int" where
  "to_int32 n = (let v = int n mod 4294967296 in if v < 2147483648 then v else v - 4294967296)"

definition read_file :: "string \<Rightarrow> string option run" where
  "read_file path s = Some (Inr (disk s path, s))"

text \<open>
  A file that cannot be opened is reported, and then \<open>lseek\<close> on the descriptor -1 ends the
  program.
\<close>

definition client_send_file :: "client_env \<Rightarrow> unit run" where
  "client_send_file env =
     bindc get_myname (\<lambda>me.
     bindc (ask_into 1024 200) (\<lambda>path.
     bindc (ask_into 1024 20) (\<lambda>to.
     let m = zero_MSG\<lparr>cmd := 6, from_name := me, file_path := path, to_name := to\<rparr>
     in bindc (read_file path) (\<lambda>content.
          case content of
            None \<Rightarrow> bindc getchar (\<lambda>_. failc (Exit 1))
          | Some bytes \<Rightarrow>
              if to_int32 (length bytes) = -1 then failc (Exit 1)
              else
                (let m' = m\<lparr>file_len := to_int32 (length bytes)\<rparr>
                 in bindc (send_or_exit env m') (\<lambda>_.
                    bindc (send_all (frames m' (chunks bytes))) (\<lambda>_. getchar)))))))"

section \<open>Receiving\<close>

text \<open>
  The loop of \<open>recv_file\<close>: \<open>buf\<close> holds the bytes of the frame received so far, the result is
  what is written and the input left. \<open>write\<close> of more than the 1024 bytes of \<open>news\<close> reads
  past the array.
\<close>

function recv_frames :: "string \<Rightarrow> string list \<Rightarrow> (string \<times> string list) result" where
  "recv_frames buf segs =
     (case recv (MSG_size - length buf) segs of (got, rest) \<Rightarrow>
        if got = [] then Inr ([], rest)
        else
          (let buf' = buf @ got
           in if length buf' = MSG_size then
                if chunk_len buf' < 1024 then Inr ([], rest)
                else if chunk_len buf' > 1024 then Inl Out_Of_Bounds
                else rbind (recv_frames [] rest) (\<lambda>(w, r). Inr (news_bytes buf' @ w, r))
              else recv_frames buf' rest))"
  by pat_completeness auto
termination
  by (relation "measure (\<lambda>(buf, segs). length (concat segs))") (auto dest: recv_shorter)

declare recv_frames.simps [simp del]

text \<open>The file is opened without truncation: what it held beyond the bytes written stays.\<close>

definition overwrite :: "string \<Rightarrow> string option \<Rightarrow> string" where
  "overwrite w old = w @ drop (length w) (case old of None \<Rightarrow> [] | Some bs \<Rightarrow> bs)"

definition client_recv_file :: "client_env \<Rightarrow> MSG \<Rightarrow> unit run" where
  "client_recv_file env m s =
     (case sprintf 1024 (file_name m) of
        Inl e \<Rightarrow> Some (Inl e)
      | Inr path \<Rightarrow>
          if open_fails env path then Some (Inl (Exit 1))
          else
            Some (rbind (recv_frames [] (incoming s)) (\<lambda>(w, rest).
              Inr ((), s\<lparr>incoming := rest,
                disk := (disk s)(path := Some (overwrite w (disk s path)))\<rparr>))))"

section \<open>Both advance\<close>

lemma send_all_op: "client_op (send_all ms)"
proof (induction ms)
  case Nil
  show ?case by (simp only: send_all.simps) (intro client_ops)
next
  case (Cons m ms)
  show ?case unfolding send_all.simps by (intro client_ops Cons)
qed

interpretation read_file_op: client_op "read_file path" for path
  by unfold_locales (simp add: read_file_def)

lemma client_op_case_option [client_ops]:
  "client_op f \<Longrightarrow> (\<And>x. client_op (g x)) \<Longrightarrow> client_op (case r of None \<Rightarrow> f | Some x \<Rightarrow> g x)"
  by (cases r) auto

interpretation send_file_op: client_op "client_send_file env" for env
  unfolding client_send_file_def Let_def
  by (intro client_ops send_all_op read_file_op.client_op_axioms)

interpretation recv_file_op: client_op "client_recv_file env m" for env m
  by unfold_locales (auto simp: client_recv_file_def advances_def result_simps
      split: sum.splits if_splits)

lemmas [client_ops] = send_file_op.client_op_axioms recv_file_op.client_op_axioms

section \<open>The bytes that arrive\<close>

lemma send_all_eq: "send_all ms s = Some (Inr ((), s\<lparr>out := out s @ ms\<rparr>))"
  by (induction ms arbitrary: s) (simp_all add: send_packet_def)

lemma chunks_Nil [simp]: "chunks [] = []"
  by (simp add: chunks.simps)

lemma concat_chunks: "concat (chunks bs) = bs"
proof (induction bs rule: chunks.induct)
  case (1 bs)
  then show ?case by (cases "bs = []") (simp_all add: chunks.simps [of bs])
qed

lemma chunks_app: "length c = 1024 \<Longrightarrow> chunks (c @ bs) = c # chunks bs"
  by (auto simp: chunks.simps [of "c @ bs"])

lemma chunks_short: "length bs < 1024 \<Longrightarrow> chunks bs = (if bs = [] then [] else [bs])"
  by (cases bs) (simp_all add: chunks.simps [of "[]"] chunks.simps [of "_ # _"])

lemma chunks_lengths: "c \<in> set (chunks bs) \<Longrightarrow> c \<noteq> [] \<and> length c \<le> 1024"
proof (induction bs rule: chunks.induct)
  case (1 bs)
  then show ?case by (cases "bs = []") (auto simp: chunks.simps [of bs])
qed

lemma length_frames [simp]: "length (frames m cs) = length cs"
  by (induction m cs rule: frames.induct) simp_all

text \<open>What a frame carries, read from its bytes.\<close>

lemma frame_fields:
  assumes "length c \<le> 1024"
  shows "chunk_len (encode_MSG (m\<lparr>send_end := 0, news := c, once_len := int (htons (length c))\<rparr>)) = length c"
    and "news_bytes (encode_MSG (m\<lparr>send_end := 0, news := c, once_len := int (htons (length c))\<rparr>)) = enc_str 1024 c"
  using assms htons_less [of "length c"]
  by (simp_all add: chunk_len_def once_len_bytes_encode ntohs_htons news_bytes_encode)

section \<open>Properties of a received file\<close>

lemma recv_frames_frame:
  assumes "length f = MSG_size"
  shows "recv_frames [] (f # segs) =
    (if chunk_len f < 1024 then Inr ([], segs)
     else if chunk_len f > 1024 then Inl Out_Of_Bounds
     else rbind (recv_frames [] segs) (\<lambda>(w, r). Inr (news_bytes f @ w, r)))"
proof -
  have "f \<noteq> []" using assms by (auto simp: MSG_size_def)
  then show ?thesis using assms by (simp add: recv_frames.simps [of "[]" "f # segs"])
qed

lemma recv_frames_sent:
  "recv_frames [] (map encode_MSG (frames m (chunks bytes)))
   = Inr (take (1024 * (length bytes div 1024)) bytes, [])"
proof (induction bytes arbitrary: m rule: chunks.induct)
  case (1 bs)
  show ?case
  proof (cases "length bs < 1024")
    case True
    then show ?thesis
      by (cases "bs = []") (simp_all add: chunks_short recv_frames_frame frame_fields recv_frames.simps [of "[]" "[]"])
  next
    case False
    let ?c = "take 1024 bs" and ?r = "drop 1024 bs"
    have c: "length ?c = 1024" and ne: "bs \<noteq> []" using False by auto
    then have "chunks bs = ?c # chunks ?r" by (simp add: chunks.simps [of bs])
    moreover have "enc_str 1024 ?c = ?c" using c by (simp add: enc_str_def)
    moreover have "length bs div 1024 = Suc (length ?r div 1024)"
      using False by (simp add: le_div_geq)
    moreover have "take (1024 * Suc k) bs = ?c @ take (1024 * k) ?r" for k
      by (simp add: take_add [symmetric] add.commute)
    moreover have "chunk_len (encode_MSG (m\<lparr>send_end := 0, news := ?c, once_len := int (htons 1024)\<rparr>)) = 1024"
      "news_bytes (encode_MSG (m\<lparr>send_end := 0, news := ?c, once_len := int (htons 1024)\<rparr>)) = enc_str 1024 ?c"
      using frame_fields [of ?c m] c by simp_all
    ultimately show ?thesis
      using 1 [OF ne, of "zero_MSG\<lparr>cmd := 6\<rparr>"] c
      by (simp add: recv_frames_frame del: mult_Suc_right)
  qed
qed

text \<open>
  The receiver of a file loses its end: of the packets that \<open>send_file\<close> makes of a file, the
  last short one ends the loop before it is written, so that only the whole multiples of 1024
  bytes arrive. They overwrite the beginning of an existing file of the same name and leave
  the rest of it.
\<close>

theorem received_file_truncated:
  assumes "incoming s = map encode_MSG (frames p (chunks bytes))"
    and "fits 1024 (file_name m)" and "\<not> open_fails env (file_name m)"
  shows "\<exists>s'. client_recv_file env m s = Some (Inr ((), s')) \<and> incoming s' = []
    \<and> disk s' = (disk s)(file_name m \<mapsto>
        take (1024 * (length bytes div 1024)) bytes
          @ drop (1024 * (length bytes div 1024)) (case disk s (file_name m) of None \<Rightarrow> [] | Some old \<Rightarrow> old))"
proof -
  have "min (length bytes) (1024 * (length bytes div 1024)) = 1024 * (length bytes div 1024)"
    by (simp add: min_absorb2)
  then show ?thesis using assms recv_frames_sent [of p bytes]
    by (simp add: client_recv_file_def overwrite_def)
qed

theorem received_file_truncated_witness:
  "\<exists>s'. client_recv_file demo_env (zero_MSG\<lparr>file_name := ''f''\<rparr>)
      ((demo_client [])\<lparr>incoming := map encode_MSG (frames zero_MSG (chunks ''abc'')),
        disk := [''f'' \<mapsto> ''old'']\<rparr>) = Some (Inr ((), s'))
    \<and> disk s' = [''f'' \<mapsto> ''old'']"
  using received_file_truncated [of "(demo_client [])\<lparr>incoming := map encode_MSG (frames zero_MSG (chunks ''abc'')),
      disk := [''f'' \<mapsto> ''old'']\<rparr>" zero_MSG "''abc''" "zero_MSG\<lparr>file_name := ''f''\<rparr>" demo_env]
  by (simp add: demo_env_def fits_def) blast

end
