(* ===== verification/Client_Main.thy ===== *)
theory Client_Main
  imports Client_Files
begin

text \<open>
  The rest of \<open>client1.c\<close>: the requests that wait for an answer (\<open>friend_request\<close>,
  \<open>group_request\<close>), the thread that receives the server's packets (\<open>server_message\<close>), the menus
  and \<open>main\<close>. The thread and the menus share the two request lists; the model interleaves
  whole packets with whole operations of the menus.
\<close>

section \<open>Answering requests\<close>

text \<open>\<open>message = current->request\<close> for the first request; \<open>None\<close> when there is none.\<close>

definition first_request :: "nat option \<times> MSG mem \<Rightarrow> MSG option result" where
  "first_request l =
     (case l of (h, m) \<Rightarrow>
        (case h of
           None \<Rightarrow> Inr None
         | Some _ \<Rightarrow> rbind (deref m h) (\<lambda>n. Inr (Some (node_item n)))))"

definition peek_friend :: "MSG option run" where
  "peek_friend s = liftc (first_request (head_friend s)) s"

definition peek_group :: "MSG option run" where
  "peek_group s = liftc (first_request (head_group s)) s"

definition del_head_friend :: "unit run" where
  "del_head_friend s =
     Some (rbind (del_head_mem (head_friend s)) (\<lambda>l. Inr ((), s\<lparr>head_friend := l\<rparr>)))"

definition del_head_group :: "unit run" where
  "del_head_group s =
     Some (rbind (del_head_mem (head_group s)) (\<lambda>l. Inr ((), s\<lparr>head_group := l\<rparr>)))"

definition friend_request :: "client_env \<Rightarrow> unit run" where
  "friend_request env =
     bindc peek_friend (\<lambda>request.
       case request of
         None \<Rightarrow> getchar
       | Some message \<Rightarrow>
           bindc (show_strings 14 [from_name message]) (\<lambda>_.
           bindc (read_choice [''y'', ''n''] 2) (\<lambda>choice.
           bindc (send_or_exit env (message\<lparr>cmd := (if choice = ''y'' then 311 else 312)\<rparr>)) (\<lambda>_.
           bindc del_head_friend (\<lambda>_.
             getchar)))))"

text \<open>The loop of \<open>group_request\<close> does not skip the rest of the line.\<close>

lemma scanf_shorter:
  assumes "scanf cap s = Some (Inr (w, s'))"
  shows "length (keys s') < length (keys s)"
proof -
  from assms have w: "scan_word (keys s) = Some (w, keys s')"
    by (auto simp: scanf_def result_simps split: option.splits)
  let ?r = "dropWhile isspace (keys s)"
  obtain c cs where c: "?r = c # cs"
    using w by (cases ?r) (auto simp: scan_word_def)
  then have "\<not> isspace c" using hd_dropWhile [of isspace "keys s"] by simp
  then have "length (dropWhile (\<lambda>c. \<not> isspace c) ?r) \<le> length cs"
    using c by (simp add: length_dropWhile_le)
  moreover have "length cs < length (keys s)"
    using c suffix_length_le [OF suffix_dropWhile, of isspace "keys s"] by simp
  ultimately show ?thesis using w by (auto simp: scan_word_def Let_def split: if_splits)
qed

function read_answer :: "client \<Rightarrow> (string \<times> client) result option" where
  "read_answer s =
     (case scanf 2 s of
        None \<Rightarrow> None
      | Some (Inl e) \<Rightarrow> Some (Inl e)
      | Some (Inr (w, s')) \<Rightarrow>
          if w = ''y'' \<or> w = ''n'' then Some (Inr (w, s')) else read_answer s')"
  by pat_completeness auto
termination
  by (relation "measure (\<lambda>s. length (keys s))") (auto dest: scanf_shorter)

declare read_answer.simps [simp del]

definition group_request :: "client_env \<Rightarrow> unit run" where
  "group_request env =
     bindc peek_group (\<lambda>request.
       case request of
         None \<Rightarrow> getchar
       | Some message \<Rightarrow>
           bindc (show_strings 23 [from_name message, to_group_name message]) (\<lambda>_.
           bindc read_answer (\<lambda>choice.
           bindc (send_or_exit env (message\<lparr>cmd := (if choice = ''y'' then 321 else 322)\<rparr>)) (\<lambda>_.
           bindc del_head_group (\<lambda>_.
             getchar)))))"

section \<open>Receiving the server's packets\<close>

text \<open>The strings of the packet that the \<open>printf\<close> calls of its case print; \<open>None\<close>: no case.\<close>

definition shown :: "MSG \<Rightarrow> string list option" where
  "shown m =
     (let c = cmd m
      in if c \<in> {111, 121, 122, 14, 140, 149, 15, 150, 211, 220, 23, 50, 60, 61} then Some []
         else if c = 11 \<or> c = 12 then Some [friend_name m]
         else if c = 13 \<or> c = 22 then Some [time_str m, from_name m, news m]
         else if c = 130 \<or> c = 141 \<or> c = 311 \<or> c = 312 then Some [to_name m]
         else if c = 131 then Some [news m]
         else if c = 21 \<or> c = 5 then Some [group_name (group_of m)]
         else if c \<in> {230, 231, 240, 241, 242, 243, 2510, 2511, 252, 2520, 2521, 2530, 321, 322}
         then Some [to_group_name m]
         else if c = 24 then Some [from_name m, to_group_name m]
         else if c = 251 then (if friend_num m \<in> {1, 2, 3} then Some [to_name m] else None)
         else if c = 253 \<or> c = 2531 then Some [to_group_name m, to_name m]
         else if c = 6 then Some [from_name m]
         else None)"

definition push_friend :: "MSG \<Rightarrow> unit run" where
  "push_friend m s =
     (case charu_list_mem m (head_friend s) of
        None \<Rightarrow> None
      | Some (Inl e) \<Rightarrow> Some (Inl e)
      | Some (Inr l) \<Rightarrow> Some (Inr ((), s\<lparr>head_friend := l\<rparr>)))"

definition push_group :: "MSG \<Rightarrow> unit run" where
  "push_group m s =
     (case charu_list_mem m (head_group s) of
        None \<Rightarrow> None
      | Some (Inl e) \<Rightarrow> Some (Inl e)
      | Some (Inr l) \<Rightarrow> Some (Inr ((), s\<lparr>head_group := l\<rparr>)))"

text \<open>The body of the switch.\<close>

definition handle_message :: "client_env \<Rightarrow> MSG \<Rightarrow> unit run" where
  "handle_message env m =
     bindc (case shown m of None \<Rightarrow> returnc () | Some ts \<Rightarrow> show_strings (cmd m) ts) (\<lambda>_.
       if cmd m = 14 then push_friend m
       else if cmd m = 23 then push_group m
       else if cmd m = 6 then client_recv_file env m
       else returnc ())"

lemma handle_message_incoming:
  "handle_message env m s = Some (Inr (x, s')) \<Longrightarrow>
     length (concat (incoming s')) \<le> length (concat (incoming s))"
proof -
  have shorter: "recv_frames buf segs = Inr (w, rest) \<Longrightarrow> length (concat rest) \<le> length (concat segs)"
    for buf segs w rest
  proof (induction buf segs arbitrary: w rest rule: recv_frames.induct)
    case (1 buf segs)
    obtain got r where g: "recv (MSG_size - length buf) segs = (got, r)"
      by (cases "recv (MSG_size - length buf) segs")
    note less = conjunct1 [OF recv_bytes [OF g]]
    have "length (concat r) \<le> length (concat segs)" using less by simp
    with 1(3) 1(1) [OF g [symmetric]] 1(2) [OF g [symmetric]] g show ?case
      by (fastforce simp: recv_frames.simps [of buf segs] result_simps Let_def split: if_splits)
  qed
  assume "handle_message env m s = Some (Inr (x, s'))"
  then show ?thesis
    by (auto simp: handle_message_def bindc_eq_Some show_strings_def push_friend_def push_group_def
        client_recv_file_def result_simps split: option.splits sum.splits if_splits dest: shorter)
qed

text \<open>
  The thread: receive a packet into a cleared \<open>message\<close>, handle it, again. A closed connection
  ends the thread, an error the program.
\<close>

function server_message :: "client_env \<Rightarrow> client \<Rightarrow> (unit \<times> client) result option" where
  "server_message env s =
     (case recv MSG_size (incoming s) of (got, rest) \<Rightarrow>
        if got = [] then (if link_error env then Some (Inl (Exit 1)) else Some (Inr ((), s)))
        else
          (let message = decode_MSG (got @ drop (length got) (encode_MSG zero_MSG))
           in case handle_message env message (s\<lparr>incoming := rest\<rparr>) of
                None \<Rightarrow> None
              | Some (Inl e) \<Rightarrow> Some (Inl e)
              | Some (Inr (_, s')) \<Rightarrow> server_message env s'))"
  by pat_completeness auto
termination
proof (relation "measure (\<lambda>(env, s). length (concat (incoming s)))", goal_cases)
  case 1
  show ?case by simp
next
  case (2 env s got rest message x2 b y s')
  then have "length (concat rest) < length (concat (incoming s))" by (intro recv_shorter) auto
  moreover have "length (concat (incoming s')) \<le> length (concat rest)"
    using 2 handle_message_incoming [of env message "s\<lparr>incoming := rest\<rparr>" y s'] by simp
  ultimately show ?case by simp
qed

declare server_message.simps [simp del]

section \<open>Everything in the menus advances\<close>

interpretation peek_friend_op: client_op peek_friend
  by unfold_locales (auto simp: peek_friend_def liftc_def result_simps)

interpretation peek_group_op: client_op peek_group
  by unfold_locales (auto simp: peek_group_def liftc_def result_simps)

interpretation del_friend_op: client_op del_head_friend
  by unfold_locales (auto simp: del_head_friend_def result_simps advances_def)

interpretation del_group_op: client_op del_head_group
  by unfold_locales (auto simp: del_head_group_def result_simps advances_def)

lemma read_answer_result:
  "read_answer s = Some (Inr (w, s')) \<Longrightarrow> w \<in> {''y'', ''n''} \<and> advances s s'"
proof (induction s arbitrary: w s' rule: read_answer.induct)
  case (1 s)
  then obtain v t where v: "scanf 2 s = Some (Inr (v, t))"
    by (auto simp: read_answer.simps [of s] split: option.splits sum.splits)
  note a = scanf_op.op_advances [OF v]
  show ?case
  proof (cases "v = ''y'' \<or> v = ''n''")
    case True
    with 1(2) v a show ?thesis by (auto simp: read_answer.simps [of s])
  next
    case False
    with 1(2) v have "read_answer t = Some (Inr (w, s'))" by (simp add: read_answer.simps [of s])
    with 1(1) [OF v refl refl False] a show ?thesis by (auto intro: advances_trans)
  qed
qed

interpretation read_answer_op: client_op read_answer
  by unfold_locales (simp add: read_answer_result)

interpretation friend_request_op: client_op "friend_request env" for env
  unfolding friend_request_def
  by (intro client_ops peek_friend_op.client_op_axioms del_friend_op.client_op_axioms)

interpretation group_request_op: client_op "group_request env" for env
  unfolding group_request_def
  by (intro client_ops peek_group_op.client_op_axioms del_group_op.client_op_axioms
      read_answer_op.client_op_axioms)

lemmas [client_ops] = friend_request_op.client_op_axioms group_request_op.client_op_axioms

section \<open>The menus\<close>

text \<open>
  The loop all menus have: show the menu, read a choice into an array of \<open>cap\<close> bytes, return
  on \<open>0\<close>, otherwise do what the switch says and begin again.
\<close>

partial_function (option) menu_loop ::
  "string list \<Rightarrow> nat \<Rightarrow> (string \<Rightarrow> unit run) \<Rightarrow> client \<Rightarrow> (unit \<times> client) result option" where
  "menu_loop choices cap act s =
     (case read_choice choices cap s of
        None \<Rightarrow> None
      | Some (Inl e) \<Rightarrow> Some (Inl e)
      | Some (Inr (c, s1)) \<Rightarrow>
          if c = ''0'' then Some (Inr ((), s1))
          else
            (case act c s1 of
               None \<Rightarrow> None
             | Some (Inl e) \<Rightarrow> Some (Inl e)
             | Some (Inr (_, s2)) \<Rightarrow> menu_loop choices cap act s2))"

definition my_friend :: "client_env \<Rightarrow> unit run" where
  "my_friend env =
     menu_loop [''1'', ''2'', ''3'', ''4'', ''5'', ''0''] 10 (\<lambda>c.
       if c = ''1'' then client_all_friends env
       else if c = ''2'' then client_online_friends env
       else if c = ''3'' then client_private_chat env
       else if c = ''4'' then client_add_friend env
       else if c = ''5'' then client_delete_friend env
       else returnc ())"

definition manage_group :: "client_env \<Rightarrow> unit run" where
  "manage_group env =
     menu_loop [''1'', ''2'', ''3'', ''4'', ''0''] 10 (\<lambda>c.
       if c = ''1'' then client_view_group_member env
       else if c = ''2'' then client_break_group env
       else if c = ''3'' then client_set_manager env
       else returnc ())"

definition choice_group :: "client_env \<Rightarrow> unit run" where
  "choice_group env =
     menu_loop [''1'', ''2'', ''3'', ''4'', ''0'', ''5''] 10 (\<lambda>c.
       if c = ''1'' then client_view_group env
       else if c = ''2'' then client_public_chat env
       else if c = ''3'' then client_add_group env
       else if c = ''4'' then client_quit_group env
       else if c = ''5'' then manage_group env
       else returnc ())"

definition deal_request :: "client_env \<Rightarrow> unit run" where
  "deal_request env =
     menu_loop [''1'', ''2'', ''3'', ''0''] 10 (\<lambda>c.
       if c = ''1'' then friend_request env
       else if c = ''2'' then group_request env
       else returnc ())"

text \<open>\<open>user_face\<close> leaves its menu with \<open>exit(1)\<close>; its array \<open>choice\<close> has two bytes.\<close>

definition user_face :: "client_env \<Rightarrow> unit run" where
  "user_face env =
     bindc (menu_loop [''1'', ''2'', ''3'', ''4'', ''5'', ''6'', ''0''] 2 (\<lambda>c.
       if c = ''1'' then my_friend env
       else if c = ''2'' then choice_group env
       else if c = ''3'' then deal_request env
       else if c = ''5'' then client_create_group env
       else if c = ''6'' then client_send_file env
       else returnc ())) (\<lambda>_. failc (Exit 1))"

text \<open>
  The first menu, in \<open>main\<close>: it returns after a login the server confirmed. The value of a
  \<open>login\<close> that ends without \<open>return\<close> is compared with 1 all the same.
\<close>

partial_function (option) login_menu :: "MSG \<Rightarrow> client_env \<Rightarrow> client \<Rightarrow> (unit \<times> client) result option" where
  "login_menu junk env s =
     (case read_choice [''1'', ''2'', ''3'', ''0''] 10 s of
        None \<Rightarrow> None
      | Some (Inl e) \<Rightarrow> Some (Inl e)
      | Some (Inr (c, s1)) \<Rightarrow>
          if c = ''0'' then Some (Inl (Exit 1))
          else if c = ''3'' then
            (case bindc (client_forget_password env) (\<lambda>_. getchar) s1 of
               None \<Rightarrow> None
             | Some (Inl e) \<Rightarrow> Some (Inl e)
             | Some (Inr (_, s2)) \<Rightarrow> login_menu junk env s2)
          else if c = ''1'' then
            (case client_reg junk s1 of
               None \<Rightarrow> None
             | Some (Inl e) \<Rightarrow> Some (Inl e)
             | Some (Inr (_, s2)) \<Rightarrow> login_menu junk env s2)
          else
            (case client_login s1 of
               None \<Rightarrow> None
             | Some (Inl e) \<Rightarrow> Some (Inl e)
             | Some (Inr (ret, s2)) \<Rightarrow>
                 (case ret of
                    None \<Rightarrow> Some (Inl Uninit_Read)
                  | Some r \<Rightarrow> if r = 1 then Some (Inr ((), s2)) else login_menu junk env s2)))"

lemma menu_loop_advances:
  assumes "menu_loop choices cap act s = Some (Inr (x, s'))" and "\<And>c. client_op (act c)"
  shows "advances s s'"
  using assms(1)
proof (induction "length (keys s)" arbitrary: s rule: less_induct)
  case less
  obtain c s1 where c: "read_choice choices cap s = Some (Inr (c, s1))"
    using less.prems by (auto simp: menu_loop.simps [of choices cap act s] split: option.splits sum.splits)
  note r = read_choice_result [OF c]
  show ?case
  proof (cases "c = ''0''")
    case True
    with less.prems c r show ?thesis by (simp add: menu_loop.simps [of choices cap act s])
  next
    case False
    with less.prems c obtain y s2 where a: "act c s1 = Some (Inr (y, s2))"
      "menu_loop choices cap act s2 = Some (Inr (x, s'))"
      by (auto simp: menu_loop.simps [of choices cap act s] split: option.splits sum.splits)
    have "advances s1 s2" using assms(2) a(1) by (auto simp: client_op_def)
    with r have "length (keys s2) < length (keys s)" "advances s s2"
      using advances_length by (fastforce intro: advances_trans)+
    with less.hyps [OF this(1) a(2)] show ?thesis by (blast intro: advances_trans)
  qed
qed

lemma client_op_menu [client_ops]:
  "(\<And>c. client_op (act c)) \<Longrightarrow> client_op (menu_loop choices cap act)"
  by unfold_locales (rule menu_loop_advances)

interpretation my_friend_op: client_op "my_friend env" for env
  unfolding my_friend_def by (intro client_ops)

interpretation manage_group_op: client_op "manage_group env" for env
  unfolding manage_group_def client_view_group_member_def client_break_group_def by (intro client_ops)

interpretation choice_group_op: client_op "choice_group env" for env
  unfolding choice_group_def client_add_group_def client_quit_group_def
  by (intro client_ops manage_group_op.client_op_axioms)

interpretation deal_request_op: client_op "deal_request env" for env
  unfolding deal_request_def by (intro client_ops)

interpretation user_face_op: client_op "user_face env" for env
  unfolding user_face_def
  by (intro client_ops my_friend_op.client_op_axioms choice_group_op.client_op_axioms
      deal_request_op.client_op_axioms)

section \<open>The list after an answer\<close>

lemma read_choice_same:
  assumes "read_choice choices cap s = Some (Inr (w, s'))"
  shows "head_friend s' = head_friend s" "out s' = out s"
proof -
  have "head_friend s' = head_friend (s\<lparr>keys := keys s'\<rparr>)"
    "out s' = out (s\<lparr>keys := keys s'\<rparr>)" using read_choice_frame [OF assms] by simp_all
  then show "head_friend s' = head_friend s" "out s' = out s" by simp_all
qed

text \<open>Appending to a list whose first node has been freed.\<close>

lemma dangling_charu:
  assumes "cells m a = None" and "a < brk m"
  shows "charu_list_mem x (Some a, m) = Some (Inl Use_After_Free)"
  using assms by (auto simp: charu_list_mem_def malloc_def link_last_def walk_end.simps [of _ a]
      deref_def)


section \<open>Properties of the answers\<close>

text \<open>
  The answer to a request for friendship frees the request but leaves the list pointing at
  it. The packet is sent with 311 or 312 to the names of the request; from then on the
  request menu reads freed memory, and so does the arrival of the next request.
\<close>

theorem answer_leaves_dangling_list:
  assumes "head_friend s = (Some a, m)" and "cells m a = Some (Node req n)" and "mem_ok m"
    and "friend_request env s = Some (Inr ((), s'))"
  shows "(\<exists>c. c \<in> {311, 312} \<and> out s' = out s @ [req\<lparr>cmd := c\<rparr>])
    \<and> friend_request env s' = Some (Inl Use_After_Free)
    \<and> handle_message env (req'\<lparr>cmd := 14\<rparr>) s' = Some (Inl Use_After_Free)"
proof -
  have first: "first_request (head_friend s) = Inr (Some req)"
    using assms(1,2) by (simp add: first_request_def)
  let ?s1 = "s\<lparr>screen := screen s @ [(14, [from_name req])]\<rparr>"
  from assms(4) first obtain c s2 where c: "read_choice [''y'', ''n''] 2 ?s1 = Some (Inr (c, s2))"
    and rest: "bindc (send_or_exit env (req\<lparr>cmd := (if c = ''y'' then 311 else 312)\<rparr>)) (\<lambda>_.
      bindc del_head_friend (\<lambda>_. getchar)) s2 = Some (Inr ((), s'))"
    by (auto simp: friend_request_def peek_friend_def bindc_eq_Some show_strings_def)
  have s2: "head_friend s2 = head_friend s" "out s2 = out s"
    using read_choice_same [OF c] by auto
  have "out s' = out s @ [req\<lparr>cmd := (if c = ''y'' then 311 else 312)\<rparr>]"
    and s': "head_friend s' = (Some a, free a m)"
    using rest s2 assms(1,2)
    by (auto simp: bindc_eq_Some send_or_exit_def send_packet_def del_head_friend_def
        del_head_mem_def result_simps getchar_def split: if_splits list.splits)
  moreover have "friend_request env s' = Some (Inl Use_After_Free)"
    using s' by (simp add: friend_request_def peek_friend_def first_request_def deref_def bindc_def liftc_def)
  moreover have "handle_message env (req'\<lparr>cmd := 14\<rparr>) s' = Some (Inl Use_After_Free)"
    using s' dangling_charu [of "free a m" a] assms(2,3) by (simp add: handle_message_def shown_def bindc_def
        show_strings_def push_friend_def mem_ok_def)
  ultimately show ?thesis by auto
qed

definition demo_asked :: client where
  "demo_asked = (demo_client (CHR ''y'' # [newline, newline]))\<lparr>head_friend :=
     (Some 0, \<lparr>cells = [0 \<mapsto> Node (zero_MSG\<lparr>from_name := ''bob'', to_name := ''ann''\<rparr>) None], brk = 1\<rparr>)\<rparr>"

theorem answer_leaves_dangling_list_witness:
  "\<exists>s'. friend_request demo_env demo_asked = Some (Inr ((), s'))
    \<and> friend_request demo_env s' = Some (Inl Use_After_Free)"
proof -
  let ?m = "\<lparr>cells = [0 \<mapsto> Node (zero_MSG\<lparr>from_name := ''bob'', to_name := ''ann''\<rparr>) None], brk = 1\<rparr>"
  have l: "head_friend demo_asked = (Some 0, ?m)" by (simp add: demo_asked_def)
  have "word ''y''" by (simp add: word_def isspace_def)
  then have "ask 2 (demo_asked\<lparr>screen := sc\<rparr>) = Some (Inr (''y'', demo_asked\<lparr>screen := sc, keys := [newline]\<rparr>))" for sc
    using ask_line [of "demo_asked\<lparr>screen := sc\<rparr>" "''y''" "[]" "[newline]" 2]
    by (simp add: demo_asked_def demo_client_def line_end_def fits_def)
  then have "\<exists>s'. friend_request demo_env demo_asked = Some (Inr ((), s'))"
    by (simp add: friend_request_def peek_friend_def first_request_def l show_strings_def
        read_choice.simps [of _ _ "demo_asked\<lparr>screen := _\<rparr>"] send_or_exit_def send_packet_def
        demo_env_def del_head_friend_def del_head_mem_def getchar_def bindc_def)
  then obtain s' where s': "friend_request demo_env demo_asked = Some (Inr ((), s'))" by blast
  with answer_leaves_dangling_list [OF l _ _ s', of "zero_MSG\<lparr>from_name := ''bob'', to_name := ''ann''\<rparr>" None]
  show ?thesis by (simp add: mem_ok_def)
qed

end
