(* ===== verification/Thread_Queue.thy ===== *)
theory Thread_Queue
  imports Node_Heap "HOL-Library.Word"
begin

text \<open>
  The queue of the thread pool, \<open>Code/liuting1/lt_thread_pool/queue.c\<close>: a linked list behind a
  sentinel node, with a pointer to its last node and a counter. The data of the sentinel is
  never written, so the item of a node is an option. \<open>size\<close> is a \<open>size_t\<close> of 64 bits.
\<close>

section \<open>The routines\<close>

record 'a queue =
  queue_head :: "nat option"
  queue_end :: nat
  queue_size :: "64 word"
  queue_mem :: "'a option mem"

definition Queue_init :: "'a queue" where
  "Queue_init =
     (case malloc empty_mem (Node None None) of (a, m) \<Rightarrow>
        \<lparr>queue_head = Some a, queue_end = a, queue_size = 0, queue_mem = m\<rparr>)"

definition Queue_push :: "'a \<Rightarrow> 'a queue \<Rightarrow> 'a queue result" where
  "Queue_push data q =
     (case malloc (queue_mem q) (Node (Some data) None) of (qnew, m) \<Rightarrow>
        rbind (set_next (queue_end q) (Some qnew) m) (\<lambda>m'.
          Inr (q\<lparr>queue_end := qnew, queue_size := queue_size q + 1, queue_mem := m'\<rparr>)))"

definition Queue_pop :: "'a queue \<Rightarrow> ('a option \<times> 'a queue) result" where
  "Queue_pop q =
     rbind (deref (queue_mem q) (queue_head q)) (\<lambda>h.
     rbind (deref (queue_mem q) (node_next h)) (\<lambda>p.
     (case (queue_head q, node_next h) of
        (Some a, Some b) \<Rightarrow>
          rbind (set_next a (node_next p) (queue_mem q)) (\<lambda>m.
            Inr (node_item p,
                 q\<lparr>queue_end := (if queue_size q = 1 then a else queue_end q),
                   queue_size := queue_size q - 1, queue_mem := free b m\<rparr>))
      | _ \<Rightarrow> Inl Null_Deref)))"

definition Queue_size :: "'a queue \<Rightarrow> 64 word" where
  "Queue_size q = queue_size q"

text \<open>
  \<open>Queue_destory\<close>: print each node's data through the pointer (\<open>readable\<close>: it may be read), destroy
  it and free the node; the sentinel and the queue itself are not freed. Returns the items
  whose data was destroyed.
\<close>

partial_function (option) destroy_loop ::
  "('a \<Rightarrow> bool) \<Rightarrow> 'a list \<Rightarrow> nat option \<Rightarrow> 'a option mem \<Rightarrow> ('a list \<times> 'a option mem) result option" where
  "destroy_loop readable gone q m =
     (case q of
        None \<Rightarrow> Some (Inr (gone, m))
      | Some b \<Rightarrow>
          (case deref m q of
             Inl e \<Rightarrow> Some (Inl e)
           | Inr n \<Rightarrow>
               (case node_item n of
                  None \<Rightarrow> Some (Inl Uninit_Read)
                | Some x \<Rightarrow>
                    if readable x then destroy_loop readable (gone @ [x]) (node_next n) (free b m)
                    else Some (Inl Null_Deref))))"

definition Queue_destory :: "('a \<Rightarrow> bool) \<Rightarrow> 'a queue \<Rightarrow> ('a list \<times> 'a queue) result option" where
  "Queue_destory readable q =
     (case deref (queue_mem q) (queue_head q) of
        Inl e \<Rightarrow> Some (Inl e)
      | Inr h \<Rightarrow>
          (case destroy_loop readable [] (node_next h) (queue_mem q) of
             None \<Rightarrow> None
           | Some (Inl e) \<Rightarrow> Some (Inl e)
           | Some (Inr (xs, m)) \<Rightarrow> Some (Inr (xs, q\<lparr>queue_head := None, queue_mem := m\<rparr>))))"

section \<open>What a queue stands for\<close>

text \<open>
  The sentinel and the nodes form a chain whose items are indeterminate, then the data; \<open>end\<close>
  points at the last node, and \<open>size\<close> is the length, which stays below \<open>2 ^ 64\<close>.
\<close>

definition queue_holds :: "'a queue \<Rightarrow> 'a list \<Rightarrow> bool" where
  "queue_holds q xs \<longleftrightarrow> mem_ok (queue_mem q) \<and> queue_size q = of_nat (length xs)
     \<and> length xs < 2 ^ 64
     \<and> (\<exists>ns. chain (queue_mem q) (queue_head q) ns (None # map Some xs) \<and> queue_end q = last ns)"

lemma of_nat_64_eq_1: "n < 2 ^ 64 \<Longrightarrow> (of_nat n :: 64 word) = 1 \<longleftrightarrow> n = 1"
  by (simp add: word_unat_eq_iff unat_of_nat)

lemma Queue_init_holds: "queue_holds Queue_init []"
  by (auto simp: queue_holds_def Queue_init_def malloc_def empty_mem_def mem_ok_def chain_def
      intro!: exI [of _ "[0]"])

lemma Queue_push_holds:
  assumes "queue_holds q xs" and "Suc (length xs) < 2 ^ 64"
  shows "\<exists>q'. Queue_push x q = Inr q' \<and> queue_holds q' (xs @ [x])"
proof -
  let ?ys = "None # map Some xs"
  from assms(1) obtain ns where ok: "mem_ok (queue_mem q)"
    and ch: "chain (queue_mem q) (queue_head q) ns ?ys" and e: "queue_end q = last ns"
    by (auto simp: queue_holds_def)
  obtain a m1 where ma: "malloc (queue_mem q) (Node (Some x) None) = (a, m1)"
    by (cases "malloc (queue_mem q) (Node (Some x) None)")
  from chain_malloc [OF ch ok ma]
  have m1: "chain m1 (queue_head q) ns ?ys" "cells m1 a = Some (Node (Some x) None)"
    "a \<notin> set ns" "mem_ok m1" .
  have ne: "ns \<noteq> []" using m1(1) by (auto simp: chain_def)
  from m1(1) have sg: "seg m1 (queue_head q) ns ?ys None" and di: "distinct ns"
    by (auto simp: chain_def)
  from seg_last_cell [OF sg ne] have c: "cells m1 (last ns) = Some (Node (last ?ys) None)" .
  let ?m = "store (last ns) (Node (last ?ys) (Some a)) m1"
  have "seg ?m (queue_head q) ns ?ys (Some a)" using seg_redirect [OF sg ne di] .
  moreover have "last ns \<noteq> a" using ne m1(3) by auto
  ultimately have "chain ?m (queue_head q) (ns @ [a]) (None # map Some (xs @ [x]))"
    using m1(2,3) di by (auto simp: chain_def seg_append)
  moreover have "mem_ok ?m" using mem_ok_store [OF m1(4)] c by simp
  ultimately show ?thesis using assms ma e c
    by (auto simp: Queue_push_def queue_holds_def intro!: exI [of _ "ns @ [a]"])
qed

lemma Queue_pop_holds:
  assumes "queue_holds q (x # xs)"
  shows "\<exists>q'. Queue_pop q = Inr (Some x, q') \<and> queue_holds q' xs"
proof -
  from assms obtain ns where ok: "mem_ok (queue_mem q)"
    and ch: "chain (queue_mem q) (queue_head q) ns (None # Some x # map Some xs)"
    and e: "queue_end q = last ns" and len: "Suc (length xs) < 2 ^ 64"
    and sz: "queue_size q = of_nat (Suc (length xs))"
    by (auto simp: queue_holds_def)
  from ch obtain a b r ns' where ns: "ns = a # b # ns'" "queue_head q = Some a"
    "cells (queue_mem q) a = Some (Node None (Some b))"
    "cells (queue_mem q) b = Some (Node (Some x) r)"
    "seg (queue_mem q) r ns' (map Some xs) None" "distinct ns"
    by (cases ns; cases "tl ns") (auto simp: chain_def)
  let ?m = "free b (store a (Node None r) (queue_mem q))"
  have seg: "seg ?m r ns' (map Some xs) None" using ns(1,5,6) by simp
  have one: "queue_size q = 1 \<longleftrightarrow> xs = []"
    using of_nat_64_eq_1 [OF len] sz by simp
  have pop: "Queue_pop q = Inr (Some x, q\<lparr>queue_end := (if xs = [] then a else queue_end q),
      queue_size := queue_size q - 1, queue_mem := ?m\<rparr>)"
    using ns(2-4) one by (simp add: Queue_pop_def)
  have "chain ?m (Some a) (a # ns') (None # map Some xs)"
    using seg ns(1,6) by (auto simp: chain_def)
  moreover have "mem_ok ?m" using mem_ok_free [OF mem_ok_store [OF ok, of a]] ns(3) by simp
  moreover have "(if xs = [] then a else queue_end q) = last (a # ns')"
    using e ns(1) seg_length [OF seg] by auto
  ultimately show ?thesis using pop ns(2) sz len
    by (auto simp: queue_holds_def)
qed

section \<open>The contract of a queue\<close>

text \<open>
  A client that pushes and pops relies on two laws. The lemma is what the pool needs: what was
  pushed comes out in the order it went in.
\<close>

fun pops :: "('q \<Rightarrow> ('b \<times> 'q) result) \<Rightarrow> nat \<Rightarrow> 'q \<Rightarrow> ('b list \<times> 'q) result" where
  "pops pop 0 q = Inr ([], q)"
| "pops pop (Suc n) q =
     rbind (pop q) (\<lambda>(x, q'). rbind (pops pop n q') (\<lambda>(xs, q''). Inr (x # xs, q'')))"

locale fifo =
  fixes holds :: "'q \<Rightarrow> 'a list \<Rightarrow> bool" and push :: "'a \<Rightarrow> 'q \<Rightarrow> 'q result"
    and pop :: "'q \<Rightarrow> ('a option \<times> 'q) result" and room :: nat
  assumes push_holds: "holds q xs \<Longrightarrow> Suc (length xs) < room \<Longrightarrow>
      \<exists>q'. push x q = Inr q' \<and> holds q' (xs @ [x])"
    and pop_holds: "holds q (x # xs) \<Longrightarrow> \<exists>q'. pop q = Inr (Some x, q') \<and> holds q' xs"
begin

lemma pushes_hold:
  "holds q xs \<Longrightarrow> length xs + length ys < room \<Longrightarrow>
     \<exists>q'. rfold push ys q = Inr q' \<and> holds q' (xs @ ys)"
proof (induction ys arbitrary: q xs)
  case Nil
  then show ?case by simp
next
  case (Cons y ys)
  then obtain q1 where "push y q = Inr q1" "holds q1 (xs @ [y])" using push_holds [of q xs y] by auto
  with Cons.IH [of q1 "xs @ [y]"] Cons.prems show ?case by auto
qed

lemma pops_holds:
  "holds q (ys @ zs) \<Longrightarrow> \<exists>q'. pops pop (length ys) q = Inr (map Some ys, q') \<and> holds q' zs"
proof (induction ys arbitrary: q)
  case Nil
  then show ?case by simp
next
  case (Cons y ys)
  then obtain q1 where "pop q = Inr (Some y, q1)" "holds q1 (ys @ zs)" using pop_holds by fastforce
  with Cons.IH show ?case by fastforce
qed

end

interpretation task_queue: fifo queue_holds Queue_push Queue_pop "2 ^ 64"
  by unfold_locales (auto intro: Queue_push_holds Queue_pop_holds)

lemma queue_empty_iff: "queue_holds q xs \<Longrightarrow> Queue_size q < 1 \<longleftrightarrow> xs = []"
  by (auto simp: queue_holds_def Queue_size_def word_less_nat_alt unat_of_nat)

section \<open>Properties of the queue\<close>

text \<open>
  C17: First in, first out: from a fresh queue, any items pushed (fewer than \<open>2 ^ 64\<close>) come out in
  the same order, no operation fails, and the queue is then empty; a further \<open>Queue_pop\<close> follows
  the NULL successor of the sentinel.
\<close>

theorem queue_first_in_first_out:
  assumes "length xs < 2 ^ 64"
  shows "\<exists>q q'. rfold Queue_push xs Queue_init = Inr q
    \<and> pops Queue_pop (length xs) q = Inr (map Some xs, q')
    \<and> Queue_size q' < 1 \<and> Queue_pop q' = Inl Null_Deref"
proof -
  from task_queue.pushes_hold [OF Queue_init_holds, of xs] assms obtain q
    where q: "rfold Queue_push xs Queue_init = Inr q" "queue_holds q (xs @ [])" by auto
  from task_queue.pops_holds [OF q(2)] obtain q'
    where q': "pops Queue_pop (length xs) q = Inr (map Some xs, q')" "queue_holds q' []" by blast
  from q'(2) obtain ns where "chain (queue_mem q') (queue_head q') ns [None]"
    by (auto simp: queue_holds_def)
  then obtain a where "queue_head q' = Some a" "cells (queue_mem q') a = Some (Node None None)"
    by (cases ns; cases "tl ns") (auto simp: chain_def)
  then have "Queue_pop q' = Inl Null_Deref" by (simp add: Queue_pop_def)
  with q(1) q' queue_empty_iff [OF q'(2)] show ?thesis by blast
qed

theorem queue_first_in_first_out_witness:
  "\<exists>q q'. rfold Queue_push [3, 5 :: nat] Queue_init = Inr q
    \<and> pops Queue_pop 2 q = Inr ([Some 3, Some 5], q') \<and> Queue_pop q' = Inl Null_Deref"
proof -
  have l: "length [3, 5 :: nat] = 2" "map Some [3, 5 :: nat] = [Some 3, Some 5]" by simp_all
  have "(2 :: nat) < 2 ^ 64" by simp
  from queue_first_in_first_out [of "[3, 5 :: nat]", unfolded l, OF this] show ?thesis by blast
qed

end
