(* ===== verification/Thread_Pool.thy ===== *)
theory Thread_Pool
  imports Thread_Queue "HOL-Library.Multiset"
begin

text \<open>
  The thread pool, \<open>Code/liuting1/lt_thread_pool/thread_pool.c\<close>: the workers, the main thread's
  operations, the mutex and the condition variable, as a machine whose steps are the actions
  between which threads can interleave. The queue is the list it stands for (\<open>queue_holds\<close>).
\<close>

section \<open>State\<close>

text \<open>
  A task: the address of the function (0 is \<open>NULL\<close>) and its argument. The pointers in the queue
  are those of \<open>thread_pool_pushtask\<close>, never \<open>NULL\<close>, so the test of a worker is that of the
  function.
\<close>

record 'a task =
  callback :: nat
  args :: 'a

definition callable :: "'a task \<Rightarrow> bool" where
  "callable t \<longleftrightarrow> callback t \<noteq> 0"

text \<open>
  Where a worker stands in \<open>thread_work\<close>: before the test of the outer loop, before the lock,
  before the test of the inner loop, after it and before \<open>pthread_cond_wait\<close>, in the wait,
  woken and before the lock is taken again, after the inner loop, with a task in hand, or ended
  (by \<open>pthread_exit\<close> or at the end of the function).
\<close>

datatype 'a worker =
    At_Loop
  | At_Lock
  | At_Test
  | Will_Wait
  | Waits
  | Woken
  | At_Check
  | Has_Task "'a task"
  | Ended

text \<open>
  \<open>taken\<close> and \<open>pushed\<close> are history: the tasks in the order in which they left and entered the
  queue. \<open>signals\<close> counts the calls of \<open>pthread_cond_signal\<close> that are still to come.
\<close>

record 'a pool =
  tasks :: "'a task list"
  is_start :: bool
  thread_count :: nat
  workers :: "'a worker list"
  mutex :: "nat option"
  signals :: nat
  destroyed :: bool
  taken :: "'a task list"
  pushed :: "'a task list"
  executed :: "'a task list"

datatype 'a action =
    Start
  | Push nat 'a
  | Signal nat
  | Signal_None
  | Stop
  | Broadcast
  | Join_And_Free
  | Work nat
  | Spurious nat

section \<open>Operations of the main thread\<close>

text \<open>
  \<open>thread_pool_init\<close>. (The function ends without \<open>return pool\<close>; the state is what it builds.)
\<close>

definition thread_pool_init :: "nat \<Rightarrow> 'a pool" where
  "thread_pool_init n = \<lparr>tasks = [], is_start = False, thread_count = n, workers = [],
     mutex = None, signals = 0, destroyed = False, taken = [], pushed = [], executed = []\<rparr>"

definition thread_pool_start :: "'a pool \<Rightarrow> 'a pool" where
  "thread_pool_start p =
     (if is_start p then p
      else p\<lparr>is_start := True, workers := workers p @ replicate (thread_count p) At_Loop\<rparr>)"

text \<open>
  \<open>thread_pool_pushtask\<close> allocates \<open>sizeof(task)\<close> bytes, the size of a pointer, for the two
  pointers of a \<open>Task\<close>. \<open>usable n\<close> is what the allocator really gives for \<open>n\<close> bytes.
\<close>

definition new_task :: "(nat \<Rightarrow> nat) \<Rightarrow> nat \<Rightarrow> 'a \<Rightarrow> 'a task result" where
  "new_task usable f x =
     rbind (guard Buffer_Overflow (8 \<le> usable 8)) (\<lambda>_.
     rbind (guard Buffer_Overflow (16 \<le> usable 8)) (\<lambda>_. Inr \<lparr>callback = f, args = x\<rparr>))"

definition push_step :: "(nat \<Rightarrow> nat) \<Rightarrow> nat \<Rightarrow> 'a \<Rightarrow> 'a pool \<Rightarrow> 'a pool result" where
  "push_step usable f x p =
     rbind (new_task usable f x) (\<lambda>task.
     rbind (guard Use_After_Free (\<not> destroyed p)) (\<lambda>_.
       Inr (p\<lparr>tasks := tasks p @ [task], signals := Suc (signals p), pushed := pushed p @ [task]\<rparr>)))"

definition wake :: "'a worker \<Rightarrow> 'a worker" where
  "wake w = (case w of Waits \<Rightarrow> Woken | _ \<Rightarrow> w)"

definition thread_pool_stop :: "'a pool \<Rightarrow> 'a pool" where
  "thread_pool_stop p = p\<lparr>is_start := False\<rparr>"

text \<open>
  The array \<open>threads\<close>: every start writes it from index 0, so it holds the threads of the last
  start, and nothing before the first one.
\<close>

definition threads :: "'a pool \<Rightarrow> 'a worker list" where
  "threads p = drop (length (workers p) - thread_count p) (workers p)"

text \<open>
  \<open>pthread_join(pool->threads[i], NULL)\<close>: \<open>None\<close> while that thread has not ended. The array has
  \<open>thread_count\<close> places. \<open>thread_pool_destroy\<close> joins \<open>threads[0]\<close> and then \<open>threads[1]\<close>, however
  many there are, and goes on (\<open>can_free\<close>) when both calls have returned.
\<close>

definition join_thread :: "nat \<Rightarrow> 'a pool \<Rightarrow> unit result option" where
  "join_thread i p =
     (if thread_count p \<le> i then Some (Inl Out_Of_Bounds)
      else if length (threads p) \<le> i then Some (Inl Uninit_Read)
      else if threads p ! i = Ended then Some (Inr ())
      else None)"

definition join_both :: "'a pool \<Rightarrow> unit result option" where
  "join_both p = (if join_thread 0 p = Some (Inr ()) then join_thread 1 p else join_thread 0 p)"

definition can_free :: "'a pool \<Rightarrow> bool" where
  "can_free p \<longleftrightarrow> join_both p = Some (Inr ())"

section \<open>One step of a worker\<close>

text \<open>
  \<open>None\<close>: the worker cannot move (it waits, or the mutex is taken, or it has ended). Every step
  but the test of the loop, the task and the end touches the mutex or the queue. A task without
  a function is taken and left at that.
\<close>

definition work_step :: "nat \<Rightarrow> 'a pool \<Rightarrow> 'a pool result option" where
  "work_step i p =
     (if i < length (workers p) then
        (let set = (\<lambda>w. p\<lparr>workers := (workers p)[i := w]\<rparr>);
             alive = (\<lambda>r. if destroyed p then Some (Inl Use_After_Free) else r)
         in case workers p ! i of
              At_Loop \<Rightarrow> Some (Inr (set (if is_start p then At_Lock else Ended)))
            | At_Lock \<Rightarrow>
                alive (if mutex p = None then Some (Inr ((set At_Test)\<lparr>mutex := Some i\<rparr>)) else None)
            | At_Test \<Rightarrow>
                alive (Some (Inr (set (if tasks p = [] \<and> is_start p then Will_Wait else At_Check))))
            | Will_Wait \<Rightarrow> alive (Some (Inr ((set Waits)\<lparr>mutex := None\<rparr>)))
            | Waits \<Rightarrow> None
            | Woken \<Rightarrow>
                alive (if mutex p = None then Some (Inr ((set At_Test)\<lparr>mutex := Some i\<rparr>)) else None)
            | At_Check \<Rightarrow>
                alive (if \<not> is_start p then Some (Inr ((set Ended)\<lparr>mutex := None\<rparr>))
                  else (case tasks p of
                          [] \<Rightarrow> Some (Inl Null_Deref)
                        | t # ts \<Rightarrow> Some (Inr ((set (Has_Task t))\<lparr>mutex := None, tasks := ts,
                            taken := taken p @ [t]\<rparr>))))
            | Has_Task t \<Rightarrow>
                Some (Inr (if callback t \<noteq> 0 then (set At_Loop)\<lparr>executed := executed p @ [t]\<rparr>
                           else set At_Loop))
            | Ended \<Rightarrow> None)
      else None)"

text \<open>
  All actions. \<open>Push\<close> holds the mutex for its whole critical section. A signal wakes one
  waiting worker, and is lost when there is none.
\<close>

fun pool_step :: "(nat \<Rightarrow> nat) \<Rightarrow> 'a action \<Rightarrow> 'a pool \<Rightarrow> 'a pool result option" where
  "pool_step usable Start p = Some (Inr (thread_pool_start p))"
| "pool_step usable (Push f x) p = (if mutex p = None then Some (push_step usable f x p) else None)"
| "pool_step usable (Signal i) p =
     (if 0 < signals p \<and> i < length (workers p) \<and> workers p ! i = Waits
      then Some (Inr (p\<lparr>signals := signals p - 1, workers := (workers p)[i := Woken]\<rparr>)) else None)"
| "pool_step usable Signal_None p =
     (if 0 < signals p \<and> Waits \<notin> set (workers p)
      then Some (Inr (p\<lparr>signals := signals p - 1\<rparr>)) else None)"
| "pool_step usable Stop p = Some (Inr (thread_pool_stop p))"
| "pool_step usable Broadcast p = Some (Inr (p\<lparr>workers := map wake (workers p)\<rparr>))"
| "pool_step usable Join_And_Free p =
     (case join_both p of
        None \<Rightarrow> None
      | Some (Inl e) \<Rightarrow> Some (Inl e)
      | Some (Inr _) \<Rightarrow> Some (Inr (p\<lparr>destroyed := True, tasks := []\<rparr>)))"
| "pool_step usable (Work i) p = work_step i p"
| "pool_step usable (Spurious i) p =
     (if i < length (workers p) \<and> workers p ! i = Waits
      then Some (Inr (p\<lparr>workers := (workers p)[i := Woken]\<rparr>)) else None)"

text \<open>A run: the actions in the order in which they happen; \<open>None\<close> when one cannot happen.\<close>

fun pool_run :: "(nat \<Rightarrow> nat) \<Rightarrow> 'a action list \<Rightarrow> 'a pool \<Rightarrow> 'a pool result option" where
  "pool_run usable [] p = Some (Inr p)"
| "pool_run usable (a # as) p =
     (case pool_step usable a p of
        None \<Rightarrow> None
      | Some (Inl e) \<Rightarrow> Some (Inl e)
      | Some (Inr p') \<Rightarrow> pool_run usable as p')"

inductive pool_reach :: "(nat \<Rightarrow> nat) \<Rightarrow> nat \<Rightarrow> 'a pool \<Rightarrow> bool" for usable n where
  init: "pool_reach usable n (thread_pool_init n)"
| step: "pool_reach usable n p \<Longrightarrow> pool_step usable a p = Some (Inr p') \<Longrightarrow> pool_reach usable n p'"

section \<open>The invariant\<close>

text \<open>A worker between the lock and the unlock.\<close>

definition inside :: "'a worker \<Rightarrow> bool" where
  "inside w \<longleftrightarrow> w \<in> {At_Test, Will_Wait, At_Check}"

text \<open>The mutex is held exactly by the one worker that is inside.\<close>

definition mutex_ok :: "'a pool \<Rightarrow> bool" where
  "mutex_ok p \<longleftrightarrow>
     (\<forall>i < length (workers p). inside (workers p ! i) \<longleftrightarrow> mutex p = Some i)
     \<and> (\<forall>i. mutex p = Some i \<longrightarrow> i < length (workers p))"

text \<open>Tasks leave in the order in which they came; none is lost before the pool is destroyed.\<close>

definition in_hand :: "'a worker \<Rightarrow> 'a task list" where
  "in_hand w = (case w of Has_Task t \<Rightarrow> [t] | _ \<Rightarrow> [])"

definition tasks_ok :: "'a pool \<Rightarrow> bool" where
  "tasks_ok p \<longleftrightarrow> (\<not> destroyed p \<longrightarrow> pushed p = taken p @ tasks p) \<and> prefix (taken p) (pushed p)"

lemmas pool_defs = thread_pool_start_def push_step_def new_task_def thread_pool_stop_def
  work_step_def wake_def

lemma inside_simps [simp]:
  "inside At_Test" "inside Will_Wait" "inside At_Check" "\<not> inside At_Loop" "\<not> inside At_Lock"
  "\<not> inside Waits" "\<not> inside Woken" "\<not> inside (Has_Task t)" "\<not> inside Ended"
  by (simp_all add: inside_def)

lemma inside_wake [simp]: "inside (wake w) = inside w"
  by (cases w) (simp_all add: wake_def)

lemma work_step_mutex:
  assumes "work_step i p = Some (Inr p')" and "mutex_ok p"
  shows "mutex_ok p'"
proof -
  have i: "i < length (workers p)" using assms(1) by (simp add: work_step_def split: if_splits)
  then have h: "inside (workers p ! i) \<longleftrightarrow> mutex p = Some i" using assms(2) by (simp add: mutex_ok_def)
  have keep: "mutex_ok (p\<lparr>workers := (workers p)[i := w]\<rparr>)" if "inside w = inside (workers p ! i)" for w
    using that assms(2) i by (auto simp: mutex_ok_def nth_list_update)
  show ?thesis using assms i h
    by (cases "workers p ! i")
      (auto simp: work_step_def Let_def mutex_ok_def nth_list_update split: if_splits list.splits)
qed

lemma wake_one_mutex:
  assumes "mutex_ok p" and "i < length (workers p)" and "workers p ! i = Waits"
  shows "mutex_ok (p\<lparr>workers := (workers p)[i := Woken]\<rparr>)"
proof -
  have "\<not> inside (workers p ! i)" using assms(3) by simp
  with assms(1,2) have "mutex p \<noteq> Some i" by (simp add: mutex_ok_def)
  with assms show ?thesis by (auto simp: mutex_ok_def nth_list_update)
qed

lemma mutex_ok_signals [simp]: "mutex_ok (p\<lparr>signals := k\<rparr>) = mutex_ok p"
  by (simp add: mutex_ok_def)

lemma pool_step_mutex:
  assumes "pool_step usable a p = Some (Inr p')" and "mutex_ok p"
  shows "mutex_ok p'"
proof (cases a)
  case (Work i)
  with assms show ?thesis using work_step_mutex by simp
next
  case Start
  with assms show ?thesis
    by (auto simp: thread_pool_start_def mutex_ok_def nth_append split: if_splits)
next
  case Broadcast
  with assms show ?thesis by (auto simp: mutex_ok_def)
next
  case (Signal i)
  with assms show ?thesis
    using wake_one_mutex [of "p\<lparr>signals := signals p - 1\<rparr>" i] by (auto split: if_splits)
next
  case (Spurious i)
  with assms show ?thesis using wake_one_mutex [of p i] by (auto split: if_splits)
qed (use assms in \<open>auto simp: pool_defs mutex_ok_def result_simps nth_list_update
    split: if_splits option.splits sum.splits\<close>)

lemma work_step_tasks: "work_step i p = Some (Inr p') \<Longrightarrow> tasks_ok p \<Longrightarrow> tasks_ok p'"
  by (auto simp: work_step_def Let_def tasks_ok_def split: if_splits worker.splits list.splits)

lemma pool_step_tasks:
  assumes "pool_step usable a p = Some (Inr p')" and "tasks_ok p"
  shows "tasks_ok p'"
proof (cases a)
  case (Work i)
  with assms show ?thesis using work_step_tasks by simp
qed (use assms in \<open>auto simp: pool_defs tasks_ok_def result_simps
    split: if_splits option.splits sum.splits\<close>)

lemma reach_invariants: "pool_reach usable n p \<Longrightarrow> mutex_ok p \<and> tasks_ok p"
proof (induction rule: pool_reach.induct)
  case init
  then show ?case by (simp add: mutex_ok_def tasks_ok_def thread_pool_init_def)
next
  case (step p a p')
  then show ?case using pool_step_mutex pool_step_tasks by blast
qed

lemma pool_run_reach:
  "pool_run usable as p = Some (Inr p') \<Longrightarrow> pool_reach usable n p \<Longrightarrow> pool_reach usable n p'"
proof (induction as arbitrary: p)
  case Nil
  then show ?case by simp
next
  case (Cons a as)
  then obtain p1 where "pool_step usable a p = Some (Inr p1)" "pool_run usable as p1 = Some (Inr p')"
    by (auto split: option.splits sum.splits)
  with Cons.IH Cons.prems(2) show ?case by (blast intro: pool_reach.step)
qed

section \<open>Properties of the pool\<close>

lemma mset_concat_update:
  "i < length ws \<Longrightarrow> mset (concat (map f (ws[i := w]))) + mset (f (ws ! i))
     = mset (concat (map f ws)) + mset (f w)"
  by (induction ws arbitrary: i) (auto simp: ac_simps split: nat.splits)

definition all_executed :: "'a pool \<Rightarrow> bool" where
  "all_executed p \<longleftrightarrow>
     mset (filter callable (taken p)) = mset (executed p)
       + mset (filter callable (concat (map in_hand (workers p))))"

lemma callable_update:
  assumes "i < length ws"
  shows "mset (filter callable (concat (map in_hand (ws[i := w])))) + mset (filter callable (in_hand (ws ! i)))
     = mset (filter callable (concat (map in_hand ws))) + mset (filter callable (in_hand w))"
  using mset_concat_update [OF assms, of in_hand w] by (metis filter_append mset_append mset_filter)

lemma in_hand_simps [simp]:
  "in_hand (Has_Task t) = [t]" "in_hand At_Loop = []" "in_hand At_Lock = []" "in_hand At_Test = []"
  "in_hand Will_Wait = []" "in_hand Waits = []" "in_hand Woken = []" "in_hand At_Check = []"
  "in_hand Ended = []"
  by (simp_all add: in_hand_def)

lemma in_hand_wake [simp]: "in_hand (wake w) = in_hand w"
  by (cases w) (simp_all add: wake_def)

lemma move_executed:
  assumes "all_executed p" and "i < length (workers p)"
  shows "in_hand w = in_hand (workers p ! i) \<Longrightarrow> all_executed (p\<lparr>workers := (workers p)[i := w]\<rparr>)"
    and "workers p ! i = Has_Task t \<Longrightarrow> in_hand w = [] \<Longrightarrow> callback t \<noteq> 0 \<Longrightarrow>
      all_executed (p\<lparr>workers := (workers p)[i := w], executed := executed p @ [t]\<rparr>)"
    and "in_hand (workers p ! i) = [] \<Longrightarrow>
      all_executed (p\<lparr>workers := (workers p)[i := Has_Task t], taken := taken p @ [t]\<rparr>)"
    and "workers p ! i = Has_Task t \<Longrightarrow> in_hand w = [] \<Longrightarrow> callback t = 0 \<Longrightarrow>
      all_executed (p\<lparr>workers := (workers p)[i := w]\<rparr>)"
  using assms(1) callable_update [OF assms(2), of w] callable_update [OF assms(2), of "Has_Task t"]
  by (auto simp: all_executed_def callable_def)

lemma all_executed_fields [simp]:
  "all_executed (p\<lparr>mutex := x\<rparr>) = all_executed p" "all_executed (p\<lparr>tasks := ts\<rparr>) = all_executed p"
  "all_executed (p\<lparr>signals := k\<rparr>) = all_executed p" "all_executed (p\<lparr>pushed := ts\<rparr>) = all_executed p"
  "all_executed (p\<lparr>is_start := b\<rparr>) = all_executed p" "all_executed (p\<lparr>destroyed := b\<rparr>) = all_executed p"
  by (simp_all add: all_executed_def)

lemma work_step_executed:
  assumes "work_step i p = Some (Inr p')" and "all_executed p"
  shows "all_executed p'"
proof -
  have i: "i < length (workers p)" using assms(1) by (simp add: work_step_def split: if_splits)
  note m = move_executed [OF assms(2) i]
  show ?thesis
  proof (cases "workers p ! i")
    case At_Check
    show ?thesis
    proof (cases "is_start p \<and> tasks p \<noteq> []")
      case True
      then obtain t ts where ts: "tasks p = t # ts" by (cases "tasks p") auto
      have "all_executed ((p\<lparr>workers := (workers p)[i := Has_Task t], taken := taken p @ [t]\<rparr>)
          \<lparr>mutex := None, tasks := ts\<rparr>)" using m(3) At_Check by simp
      moreover have "p' = (p\<lparr>workers := (workers p)[i := Has_Task t], taken := taken p @ [t]\<rparr>)
          \<lparr>mutex := None, tasks := ts\<rparr>"
        using assms(1) At_Check True ts i by (auto simp: work_step_def Let_def split: if_splits)
      ultimately show ?thesis by simp
    next
      case False
      with assms(1) At_Check i have "p' = (p\<lparr>workers := (workers p)[i := Ended]\<rparr>)\<lparr>mutex := None\<rparr>"
        by (auto simp: work_step_def Let_def split: if_splits list.splits)
      moreover have "all_executed ((p\<lparr>workers := (workers p)[i := Ended]\<rparr>)\<lparr>mutex := None\<rparr>)"
        using m(1) [of Ended] At_Check by simp
      ultimately show ?thesis by simp
    qed
  next
    case (Has_Task t)
    with assms(1) i m(2) [of t At_Loop] m(4) [of t At_Loop] show ?thesis
      by (auto simp: work_step_def Let_def split: if_splits)
  next
    case At_Loop
    with assms(1) i m(1) [of At_Lock] m(1) [of Ended] show ?thesis
      by (auto simp: work_step_def Let_def)
  next
    case At_Lock
    with assms(1) i m(1) [of At_Test] show ?thesis
      by (auto simp: work_step_def Let_def split: if_splits)
  next
    case At_Test
    with assms(1) i m(1) [of At_Check] m(1) [of Will_Wait] show ?thesis
      by (auto simp: work_step_def Let_def split: if_splits)
  next
    case Will_Wait
    with assms(1) i m(1) [of Waits] show ?thesis
      by (auto simp: work_step_def Let_def split: if_splits)
  next
    case Woken
    with assms(1) i m(1) [of At_Test] show ?thesis
      by (auto simp: work_step_def Let_def split: if_splits)
  qed (use assms(1) i in \<open>auto simp: work_step_def Let_def\<close>)
qed

lemma pool_step_executed:
  assumes "pool_step usable a p = Some (Inr p')" and "all_executed p"
  shows "all_executed p'"
proof (cases a)
  case (Work i)
  with assms show ?thesis using work_step_executed by simp
next
  case (Signal i)
  with assms move_executed(1) [OF assms(2), of i Woken] show ?thesis
    by (auto simp: all_executed_def split: if_splits)
next
  case (Spurious i)
  with assms move_executed(1) [OF assms(2), of i Woken] show ?thesis
    by (auto split: if_splits)
next
  case Start
  with assms show ?thesis
    by (auto simp: all_executed_def thread_pool_start_def map_replicate_const split: if_splits)
next
  case Broadcast
  with assms show ?thesis by (auto simp: all_executed_def comp_def)
qed (use assms in \<open>auto simp: push_step_def new_task_def thread_pool_stop_def result_simps
    split: if_splits option.splits sum.splits\<close>)

lemma reach_executed: "pool_reach usable n p \<Longrightarrow> all_executed p"
proof (induction rule: pool_reach.induct)
  case init
  then show ?case by (simp add: all_executed_def thread_pool_init_def)
next
  case (step p a p')
  then show ?case using pool_step_executed by blast
qed

text \<open>
  C16: In every state the pool can reach, however the threads interleave, at most one worker is
  between lock and unlock; until the pool is destroyed the tasks that were pushed are, in order,
  those that were taken and those that still wait; of the tasks taken, each that has a function
  has been executed once or is in the hands of a worker, and those without one are not executed.
\<close>

theorem pool_keeps_tasks:
  assumes "pool_reach usable n p"
  shows "(\<forall>i j. i < length (workers p) \<and> j < length (workers p)
      \<and> inside (workers p ! i) \<and> inside (workers p ! j) \<longrightarrow> i = j)
    \<and> (\<not> destroyed p \<longrightarrow> pushed p = taken p @ tasks p)
    \<and> mset (filter callable (taken p)) = mset (executed p)
        + mset (filter callable (concat (map in_hand (workers p))))"
  using reach_invariants [OF assms] reach_executed [OF assms]
  by (auto simp: mutex_ok_def tasks_ok_def all_executed_def)

text \<open>The room glibc's allocator has in its smallest chunk.\<close>

definition glibc_usable :: "nat \<Rightarrow> nat" where
  "glibc_usable n = max 24 n"

lemmas run_simps = thread_pool_init_def thread_pool_start_def thread_pool_stop_def
  push_step_def new_task_def work_step_def glibc_usable_def wake_def can_free_def threads_def
  join_both_def join_thread_def

theorem pool_keeps_tasks_witness:
  "\<exists>p. pool_run glibc_usable ([Start, Push 1 7, Push 0 8] @ replicate 9 (Work 0)) (thread_pool_init 2)
      = Some (Inr p) \<and> map args (executed p) = [7 :: nat] \<and> map args (taken p) = [7, 8]
      \<and> pushed p = taken p @ tasks p"
proof -
  let ?as = "[Start, Push 1 (7 :: nat), Push 0 8] @ replicate 9 (Work 0)"
  obtain p where p: "pool_run glibc_usable ?as (thread_pool_init 2) = Some (Inr p)"
    "map args (executed p) = [7]" "map args (taken p) = [7, 8]" "\<not> destroyed p"
    by (simp add: run_simps eval_nat_numeral Let_def)
  from pool_keeps_tasks [OF pool_run_reach [OF p(1) pool_reach.init]] p show ?thesis by auto
qed

section \<open>Starting once and starting again\<close>

text \<open>
  While the pool is started only once: before that there are no workers; a worker that has ended
  has seen the pool stopped for good; a worker past the inner loop finds a task unless the
  pool has been stopped.
\<close>

definition once_ok :: "nat \<Rightarrow> 'a pool \<Rightarrow> bool" where
  "once_ok starts p \<longleftrightarrow> mutex_ok p \<and> starts \<le> 1
     \<and> (0 < starts \<longrightarrow> workers p = [] \<and> \<not> is_start p \<and> \<not> destroyed p)
     \<and> (Ended \<in> set (workers p) \<longrightarrow> \<not> is_start p)
     \<and> (destroyed p \<longrightarrow> \<not> is_start p)
     \<and> (\<forall>i < length (workers p). workers p ! i = At_Check \<longrightarrow> tasks p \<noteq> [] \<or> \<not> is_start p)"

lemma work_step_once:
  assumes "work_step i p = Some (Inr p')" and "once_ok k p"
  shows "once_ok k p'"
proof -
  have i: "i < length (workers p)" using assms(1) by (simp add: work_step_def split: if_splits)
  have mx: "mutex_ok p'" using work_step_mutex assms by (auto simp: once_ok_def)
  have k: "k = 0" using assms(2) i by (auto simp: once_ok_def)
  have alone: "workers p ! j \<noteq> At_Check" if "inside (workers p ! i)" "j \<noteq> i" "j < length (workers p)" for j
  proof
    assume "workers p ! j = At_Check"
    then have "inside (workers p ! j)" by simp
    with assms(2) i that show False by (auto simp: once_ok_def mutex_ok_def)
  qed
  have ended: "Ended \<in> set ((workers p)[i := w]) \<Longrightarrow> w = Ended \<or> Ended \<in> set (workers p)" for w
    using set_update_subset_insert [of "workers p" i w] by blast
  have checks: "\<forall>j < length (workers p). ((workers p)[i := w]) ! j = At_Check \<longrightarrow> tasks p \<noteq> [] \<or> \<not> is_start p"
    if "w = At_Check \<Longrightarrow> tasks p \<noteq> [] \<or> \<not> is_start p" for w
    using that assms(2) i by (auto simp: once_ok_def nth_list_update split: if_splits)
  show ?thesis
  proof (cases "workers p ! i")
    case At_Check
    have none: "\<forall>j < length (workers p). ((workers p)[i := w]) ! j \<noteq> At_Check" if "w \<noteq> At_Check" for w
      using that alone At_Check i by (auto simp: nth_list_update split: if_splits)
    show ?thesis using assms At_Check i mx k none [of Ended] none [of "Has_Task (hd (tasks p))"]
        ended [of "Has_Task (hd (tasks p))"]
      by (auto simp: work_step_def Let_def once_ok_def split: if_splits list.splits)
  next
    case At_Test
    with assms i mx k ended [of Will_Wait] ended [of At_Check] checks [of Will_Wait] checks [of At_Check]
    show ?thesis by (auto simp: work_step_def Let_def once_ok_def split: if_splits)
  next
    case At_Loop
    with assms i mx k ended [of At_Lock] checks [of At_Lock] checks [of Ended]
    show ?thesis by (auto simp: work_step_def Let_def once_ok_def split: if_splits)
  next
    case At_Lock
    with assms i mx k ended [of At_Test] checks [of At_Test]
    show ?thesis by (auto simp: work_step_def Let_def once_ok_def split: if_splits)
  next
    case Woken
    with assms i mx k ended [of At_Test] checks [of At_Test]
    show ?thesis by (auto simp: work_step_def Let_def once_ok_def split: if_splits)
  next
    case Will_Wait
    with assms i mx k ended [of Waits] checks [of Waits]
    show ?thesis by (auto simp: work_step_def Let_def once_ok_def split: if_splits)
  next
    case (Has_Task t)
    with assms i mx k ended [of At_Loop] checks [of At_Loop]
    show ?thesis by (auto simp: work_step_def Let_def once_ok_def split: if_splits)
  qed (use assms(1) i in \<open>auto simp: work_step_def Let_def\<close>)
qed

lemma wake_one_once:
  assumes "once_ok k p" and "i < length (workers p)" and "workers p ! i = Waits"
  shows "once_ok k (p\<lparr>workers := (workers p)[i := Woken]\<rparr>)"
proof -
  have "Ended \<in> set ((workers p)[i := Woken]) \<Longrightarrow> Ended \<in> set (workers p)"
    using set_update_subset_insert [of "workers p" i Woken] by blast
  with assms wake_one_mutex [of p i] show ?thesis by (auto simp: once_ok_def nth_list_update)
qed

lemma pool_step_once:
  assumes "pool_step usable a p = Some (Inr p')" and "once_ok k p"
    and "a = Start \<Longrightarrow> 0 < k"
  shows "once_ok (if a = Start then k - 1 else k) p'"
proof (cases a)
  case (Work i)
  with assms show ?thesis using work_step_once by auto
next
  case Start
  have "mutex_ok p'" using pool_step_mutex [OF assms(1)] assms(2) by (simp add: once_ok_def)
  with Start assms show ?thesis
    by (auto simp: once_ok_def thread_pool_start_def nth_append)
next
  case (Signal i)
  with assms wake_one_once [of k "p\<lparr>signals := signals p - 1\<rparr>" i] show ?thesis
    by (auto simp: once_ok_def split: if_splits)
next
  case (Spurious i)
  with assms wake_one_once [of k p i] show ?thesis by (auto split: if_splits)
next
  case Broadcast
  have e: "wake w = Ended \<longleftrightarrow> w = Ended" "wake w = At_Check \<longleftrightarrow> w = At_Check"
    "Ended = wake w \<longleftrightarrow> w = Ended" for w :: "'a worker"
    by (cases w; simp add: wake_def)+
  from Broadcast assms show ?thesis
    by (auto simp: once_ok_def mutex_ok_def e image_iff)
next
  case (Push f x)
  with assms show ?thesis
    by (auto simp: once_ok_def mutex_ok_def push_step_def new_task_def result_simps split: if_splits)
next
  case Stop
  with assms show ?thesis by (auto simp: once_ok_def mutex_ok_def thread_pool_stop_def)
next
  case Join_And_Free
  with assms have "join_both p = Some (Inr ())" by (auto split: option.splits sum.splits)
  then have "0 < length (threads p)" "threads p ! 0 = Ended"
    by (auto simp: join_both_def join_thread_def split: if_splits)
  then have "Ended \<in> set (threads p)" using nth_mem [of 0 "threads p"] by simp
  then have "Ended \<in> set (workers p)" unfolding threads_def by (rule in_set_dropD)
  with Join_And_Free assms show ?thesis
    by (auto simp: once_ok_def mutex_ok_def split: option.splits sum.splits)
next
  case Signal_None
  with assms show ?thesis by (auto simp: once_ok_def mutex_ok_def split: if_splits)
qed

lemma pool_step_no_null:
  assumes "pool_step usable a p = Some (Inl Null_Deref)" and "once_ok k p"
  shows False
proof (cases a)
  case (Work i)
  with assms have w: "work_step i p = Some (Inl Null_Deref)" by simp
  then have i: "i < length (workers p)" by (simp add: work_step_def split: if_splits)
  from w have "workers p ! i = At_Check" "is_start p" "tasks p = []"
    by (auto simp: work_step_def Let_def split: if_splits worker.splits list.splits)
  with assms(2) i show False by (auto simp: once_ok_def)
next
  case (Push f x)
  with assms show False
    by (auto simp: push_step_def new_task_def guard_def rbind_def split: if_splits)
qed (use assms in \<open>auto simp: join_both_def join_thread_def split: if_splits option.splits sum.splits\<close>)

text \<open>
  C18: A pool that is started at most once never takes a task from an empty queue, however its
  threads, pushes, stops, wake-ups and the destruction interleave.
\<close>

theorem started_once_never_pops_empty:
  assumes "count_list as Start \<le> 1"
  shows "pool_run usable as (thread_pool_init n) \<noteq> Some (Inl Null_Deref)"
proof -
  have "pool_run usable as p \<noteq> Some (Inl Null_Deref)" if "once_ok k p" "count_list as Start \<le> k" for k p
    using that
  proof (induction as arbitrary: k p)
    case Nil
    then show ?case by simp
  next
    case (Cons a as)
    show ?case
    proof (cases "pool_step usable a p")
      case None
      then show ?thesis by simp
    next
      case (Some r)
      show ?thesis
      proof (cases r)
        case (Inl e)
        with Some pool_step_no_null [of usable a p k] Cons.prems(1) show ?thesis by auto
      next
        case (Inr p')
        with Some pool_step_once [of usable a p p' k] Cons.prems
        have "once_ok (if a = Start then k - 1 else k) p'" by auto
        moreover have "count_list as Start \<le> (if a = Start then k - 1 else k)"
          using Cons.prems(2) by (auto split: if_splits)
        ultimately show ?thesis using Cons.IH Some Inr by simp
      qed
    qed
  qed
  moreover have "once_ok 1 (thread_pool_init n)"
    by (simp add: once_ok_def mutex_ok_def thread_pool_init_def)
  ultimately show ?thesis using assms by blast
qed

theorem started_once_never_pops_empty_witness:
  "pool_run glibc_usable [Start, Work 0, Work 0, Stop, Work 0, Work 0] (thread_pool_init 1 :: nat pool)
   \<noteq> Some (Inl Null_Deref)"
  by (rule started_once_never_pops_empty) simp

text \<open>
  Stopping and starting again breaks this: the flag is written without the mutex, so a worker
  that left the inner loop because the pool was stopped can find it started again, and then
  takes a task from an empty queue.
\<close>

theorem restart_pops_empty:
  "pool_run usable [Start, Work 0, Work 0, Stop, Work 0, Start, Work 0] (thread_pool_init (Suc n))
   = Some (Inl Null_Deref)"
  by (simp add: run_simps Let_def)

section \<open>Stopping and destroying\<close>

lemma waiting_stays:
  assumes "\<forall>a \<in> set as. \<exists>i. a = Work i" and "pool_run usable as p = Some (Inr p')"
    and "0 < length (workers p)" and "workers p ! 0 = Waits"
  shows "0 < length (workers p') \<and> workers p' ! 0 = Waits
    \<and> length (workers p') = length (workers p) \<and> thread_count p' = thread_count p"
  using assms
proof (induction as arbitrary: p)
  case Nil
  then show ?case by simp
next
  case (Cons a as)
  then obtain i p1 where a: "a = Work i" "work_step i p = Some (Inr p1)"
    "pool_run usable as p1 = Some (Inr p')"
    by (auto split: option.splits sum.splits)
  have "i \<noteq> 0"
  proof
    assume "i = 0"
    with a(2) Cons.prems(3,4) show False by (simp add: work_step_def Let_def)
  qed
  then have "length (workers p1) = length (workers p)" "workers p1 ! 0 = workers p ! 0"
    "thread_count p1 = thread_count p"
    using a(2) by (auto simp: work_step_def Let_def split: if_splits worker.splits list.splits)
  with Cons.IH [OF _ a(3)] Cons.prems(1,3,4) show ?case by simp
qed

text \<open>
  C40: A stop can be missed. The flag is written and the broadcast sent without the mutex, so
  both can fall between the test of the inner loop and the wait of the first worker. It then
  waits for ever: nothing the workers do wakes it, and the join in \<open>thread_pool_destroy\<close>
  does not return.
\<close>

theorem stop_can_be_missed:
  fixes as :: "'a action list"
  assumes "\<forall>a \<in> set as. \<exists>i. a = Work i"
  shows "\<exists>p. pool_run usable [Start, Work 0, Work 0, Work 0, Stop, Broadcast, Work 0]
        (thread_pool_init (Suc n)) = Some (Inr p) \<and> \<not> is_start p
    \<and> (case pool_run usable as p of
         Some (Inr p') \<Rightarrow> workers p' ! 0 = Waits \<and> \<not> can_free p' | _ \<Rightarrow> True)"
proof -
  obtain p :: "'a pool" where p: "pool_run usable [Start, Work 0, Work 0, Work 0, Stop, Broadcast, Work 0]
      (thread_pool_init (Suc n)) = Some (Inr p)" "\<not> is_start p"
    "0 < length (workers p)" "workers p ! 0 = Waits" "length (workers p) = thread_count p"
    by (simp add: run_simps Let_def)
  have "workers p' ! 0 = Waits \<and> \<not> can_free p'" if "pool_run usable as p = Some (Inr p')" for p'
    using waiting_stays [OF assms that p(3,4)] p(5) by (auto simp: can_free_def join_both_def join_thread_def threads_def)
  with p show ?thesis by (intro exI [of _ p]) (auto split: option.splits sum.splits)
qed

theorem stop_can_be_missed_witness:
  "\<exists>p. pool_run glibc_usable [Start, Work 0, Work 0, Work 0, Stop, Broadcast, Work 0]
      (thread_pool_init (Suc 1) :: nat pool) = Some (Inr p) \<and> \<not> is_start p
    \<and> (case pool_run glibc_usable [Work 1] p of
         Some (Inr p') \<Rightarrow> workers p' ! 0 = Waits \<and> \<not> can_free p' | _ \<Rightarrow> True)"
  by (rule stop_can_be_missed) simp

text \<open>
  Destroying a pool of three threads or more joins the first two only: the queue and the mutex
  are gone while the third is still on its way out, and its next step uses them.
\<close>

theorem destroy_with_third_thread:
  "pool_run usable [Start, Work 2, Stop, Work 0, Work 1, Join_And_Free, Work 2]
     (thread_pool_init (Suc (Suc (Suc n)))) = Some (Inl Use_After_Free)"
  by (simp add: run_simps Let_def numeral_2_eq_2)

text \<open>A pool of one thread has no \<open>threads[1]\<close>, and destroying it reads it.\<close>

theorem destroy_with_one_thread:
  "pool_run usable [Start, Stop, Work 0, Join_And_Free] (thread_pool_init 1) = Some (Inl Out_Of_Bounds)"
  by (simp add: run_simps Let_def)

end
