(* ===== verification/State_Ops.thy ===== *)
theory State_Ops
  imports Prelude
begin

text \<open>
  Operations on a state that may stop with a fault, as the second chat room's server and client
  are written in: sequencing, loops over a list, arrays indexed by an \<open>int\<close> with their bound
  checked, \<open>char\<close> arrays with all their bytes, and the rules to reason about them.
\<close>

named_theorems op_simps \<open>running operations on a state\<close>

section \<open>Operations\<close>

type_synonym ('s, 'a) op = "'s \<Rightarrow> ('a \<times> 's) result"

definition retn :: "'a \<Rightarrow> ('s, 'a) op" where
  "retn x s = Inr (x, s)"

definition bnd :: "('s, 'a) op \<Rightarrow> ('a \<Rightarrow> ('s, 'b) op) \<Rightarrow> ('s, 'b) op" where
  "bnd m f s = rbind (m s) (\<lambda>(x, s'). f x s')"

definition lifted :: "'a result \<Rightarrow> ('s, 'a) op" where
  "lifted r s = rbind r (\<lambda>x. Inr (x, s))"

definition getting :: "('s \<Rightarrow> 'a) \<Rightarrow> ('s, 'a) op" where
  "getting f s = Inr (f s, s)"

definition setting :: "('s \<Rightarrow> 's) \<Rightarrow> ('s, unit) op" where
  "setting f s = Inr ((), f s)"

definition when_op :: "bool \<Rightarrow> ('s, unit) op \<Rightarrow> ('s, unit) op" where
  "when_op b m = (if b then m else retn ())"

fun each :: "('a \<Rightarrow> ('s, unit) op) \<Rightarrow> 'a list \<Rightarrow> ('s, unit) op" where
  "each f [] = retn ()"
| "each f (x # xs) = bnd (f x) (\<lambda>_. each f xs)"

text \<open>A loop that changes a local value.\<close>

fun fold_op :: "('i \<Rightarrow> 'a \<Rightarrow> ('s, 'a) op) \<Rightarrow> 'i list \<Rightarrow> 'a \<Rightarrow> ('s, 'a) op" where
  "fold_op f [] x = retn x"
| "fold_op f (i # is) x = bnd (f i x) (fold_op f is)"

text \<open>A routine with a loop that may not end.\<close>

definition returning :: "'a result option \<Rightarrow> 'a result" where
  "returning r = (case r of None \<Rightarrow> Inl No_Return | Some x \<Rightarrow> x)"

text \<open>A value that was never written is read.\<close>

definition written :: "'a option \<Rightarrow> 'a result" where
  "written x = (case x of None \<Rightarrow> Inl Uninit_Read | Some y \<Rightarrow> Inr y)"

text \<open>
  \<open>for (int i = 0; !stop(a[i]); i++)\<close> over an array with \<open>k\<close> entries left, changing a local value.
\<close>

fun scan_array :: "(int \<Rightarrow> bool) \<Rightarrow> (int \<Rightarrow> int) \<Rightarrow> (int \<Rightarrow> 'a \<Rightarrow> ('s, 'a) op) \<Rightarrow> int \<Rightarrow> nat \<Rightarrow> 'a \<Rightarrow> ('s, 'a) op"
where
  "scan_array stop a body i 0 x = lifted (Inl Out_Of_Bounds)"
| "scan_array stop a body i (Suc k) x =
     (if stop (a i) then retn x else bnd (body i x) (scan_array stop a body (i + 1) k))"

lemma run_simps [op_simps]:
  "retn x s = Inr (x, s)" "getting f s = Inr (f s, s)" "setting g s = Inr ((), g s)"
  "lifted (Inr x) s = Inr (x, s)" "lifted (Inl e) s = Inl e"
  "when_op True m = m" "when_op False m = retn ()"
  "returning (Some r) = r" "returning None = Inl No_Return"
  by (simp_all add: retn_def getting_def setting_def lifted_def when_op_def returning_def)

lemma bnd_simps [op_simps]:
  "m s = Inr (x, t) \<Longrightarrow> bnd m f s = f x t"
  "m s = Inl e \<Longrightarrow> bnd m f s = Inl e"
  by (simp_all add: bnd_def)

lemma bnd_retn [op_simps]: "bnd (retn x) f = f x"
  by (rule ext) (simp add: bnd_def retn_def)

lemma bnd_assoc: "bnd (bnd m f) g = bnd m (\<lambda>x. bnd (f x) g)"
  by (rule ext) (auto simp: bnd_def rbind_def split: sum.splits)

lemma bnd_eq_Inr: "bnd m f s = Inr (y, u) \<longleftrightarrow> (\<exists>x t. m s = Inr (x, t) \<and> f x t = Inr (y, u))"
  by (auto simp: bnd_def rbind_eq_Inr)

lemma lifted_eq_Inr: "lifted r s = Inr (y, u) \<longleftrightarrow> r = Inr y \<and> u = s"
  by (auto simp: lifted_def rbind_eq_Inr)

lemma each_append: "each f (xs @ ys) = bnd (each f xs) (\<lambda>_. each f ys)"
  by (induction xs) (simp_all add: op_simps bnd_assoc)

section \<open>Laws of operations\<close>

text \<open>
  What an operation guarantees from any state with \<open>I\<close>: it returns, or stops with a fault; the
  invariant \<open>I\<close> holds again, and the states before and after are related by \<open>R\<close>.
\<close>

definition obeys :: "('s \<Rightarrow> bool) \<Rightarrow> ('s \<Rightarrow> 's \<Rightarrow> bool) \<Rightarrow> ('s, 'a) op \<Rightarrow> bool" where
  "obeys I R m \<longleftrightarrow>
     (\<forall>s. I s \<longrightarrow> (case m s of Inl e \<Rightarrow> e \<noteq> No_Return | Inr (x, t) \<Rightarrow> I t \<and> R s t))"

lemma obeysI:
  "(\<And>s x t. I s \<Longrightarrow> m s = Inr (x, t) \<Longrightarrow> I t \<and> R s t)
   \<Longrightarrow> (\<And>s. I s \<Longrightarrow> m s \<noteq> Inl No_Return) \<Longrightarrow> obeys I R m"
  by (auto simp: obeys_def split: sum.splits)

lemma obeysD: "obeys I R m \<Longrightarrow> I s \<Longrightarrow> m s = Inr (x, t) \<Longrightarrow> I t \<and> R s t"
  by (auto simp: obeys_def dest!: spec [of _ s])

lemma obeys_returns: "obeys I R m \<Longrightarrow> I s \<Longrightarrow> m s \<noteq> Inl No_Return"
  by (auto simp: obeys_def dest!: spec [of _ s])

lemma obeys_mono:
  assumes "obeys I R m" and "\<And>s. I' s \<Longrightarrow> I s"
    and "\<And>s t. I' s \<Longrightarrow> I t \<Longrightarrow> R s t \<Longrightarrow> I' t \<and> R' s t"
  shows "obeys I' R' m"
proof (rule obeysI)
  fix s x t
  assume "I' s" "m s = Inr (x, t)"
  with obeysD [OF assms(1)] assms(2,3) show "I' t \<and> R' s t" by blast
next
  fix s
  assume "I' s"
  then show "m s \<noteq> Inl No_Return" using obeys_returns [OF assms(1)] assms(2) by blast
qed

locale step_law =
  fixes inv :: "'s \<Rightarrow> bool" and rel :: "'s \<Rightarrow> 's \<Rightarrow> bool"
  assumes rel_refl: "rel s s" and rel_trans: "rel s t \<Longrightarrow> rel t u \<Longrightarrow> rel s u"
begin

lemma obeys_retn: "obeys inv rel (retn x)"
  by (simp add: obeys_def retn_def rel_refl)

lemma obeys_lifted: "r \<noteq> Inl No_Return \<Longrightarrow> obeys inv rel (lifted r)"
  by (cases r) (auto simp: obeys_def op_simps rel_refl)

lemma obeys_getting: "obeys inv rel (getting f)"
  by (simp add: obeys_def getting_def rel_refl)

lemma obeys_setting: "(\<And>s. inv s \<Longrightarrow> inv (f s) \<and> rel s (f s)) \<Longrightarrow> obeys inv rel (setting f)"
  by (simp add: obeys_def setting_def)

lemma obeys_bnd:
  assumes "obeys inv rel m" and "\<And>x. obeys inv rel (f x)"
  shows "obeys inv rel (bnd m f)"
proof (rule obeysI)
  fix s y u
  assume "inv s" "bnd m f s = Inr (y, u)"
  then obtain x t where "m s = Inr (x, t)" "f x t = Inr (y, u)" by (auto simp: bnd_eq_Inr)
  then show "inv u \<and> rel s u" using assms \<open>inv s\<close> by (blast dest: obeysD intro: rel_trans)
next
  fix s
  assume "inv s"
  then show "bnd m f s \<noteq> Inl No_Return"
    using obeys_returns [OF assms(1)] obeys_returns [OF assms(2)] obeysD [OF assms(1)]
    by (auto simp: bnd_def rbind_def split: sum.splits)
qed

text \<open>The value of a computation without effect is known in what follows.\<close>

lemma obeys_bnd_lifted:
  assumes "r \<noteq> Inl No_Return" and "\<And>x. r = Inr x \<Longrightarrow> obeys inv rel (f x)"
  shows "obeys inv rel (bnd (lifted r) f)"
proof (cases r)
  case (Inl e)
  then show ?thesis using assms(1) by (auto simp: obeys_def op_simps)
next
  case (Inr x)
  then have "bnd (lifted r) f = f x" by (auto simp: op_simps)
  with assms(2) [OF Inr] show ?thesis by simp
qed

lemma obeys_bnd_retn: "obeys inv rel (f x) \<Longrightarrow> obeys inv rel (bnd (retn x) f)"
  by (simp add: op_simps)

lemma obeys_bnd_if:
  "(b \<Longrightarrow> obeys inv rel (bnd m f)) \<Longrightarrow> (\<not> b \<Longrightarrow> obeys inv rel (bnd n f))
   \<Longrightarrow> obeys inv rel (bnd (if b then m else n) f)"
  by simp

lemma obeys_if: "(b \<Longrightarrow> obeys inv rel m) \<Longrightarrow> (\<not> b \<Longrightarrow> obeys inv rel n) \<Longrightarrow> obeys inv rel (if b then m else n)"
  by simp

lemma obeys_when: "(b \<Longrightarrow> obeys inv rel m) \<Longrightarrow> obeys inv rel (when_op b m)"
  by (cases b) (simp_all add: op_simps obeys_retn)

lemma obeys_each: "(\<And>x. x \<in> set xs \<Longrightarrow> obeys inv rel (f x)) \<Longrightarrow> obeys inv rel (each f xs)"
  by (induction xs) (auto intro: obeys_retn obeys_bnd)

lemma obeys_fold: "(\<And>i x. obeys inv rel (f i x)) \<Longrightarrow> obeys inv rel (fold_op f is x)"
  by (induction "is" arbitrary: x) (auto intro: obeys_retn obeys_bnd)

lemma obeys_scan: "(\<And>i x. obeys inv rel (body i x)) \<Longrightarrow> obeys inv rel (scan_array stop a body i k x)"
  by (induction k arbitrary: i x) (auto intro: obeys_retn obeys_bnd obeys_lifted)

lemma obeys_bnd_assoc: "obeys inv rel (bnd m (\<lambda>x. bnd (f x) g)) \<Longrightarrow> obeys inv rel (bnd (bnd m f) g)"
  by (simp add: bnd_assoc)

text \<open>A loop over an array whose local value keeps a property \<open>Q\<close>.\<close>

lemma obeys_bnd_scan:
  fixes k :: "'b \<Rightarrow> ('s, 'c) op"
  assumes step: "\<And>i x (k :: 'b \<Rightarrow> ('s, 'c) op). Q x \<Longrightarrow> (\<And>y. Q y \<Longrightarrow> obeys inv rel (k y)) \<Longrightarrow> obeys inv rel (bnd (body i x) k)"
    and "Q x" and "\<And>y. Q y \<Longrightarrow> obeys inv rel (k y)"
  shows "obeys inv rel (bnd (scan_array stop a body i n x) k)"
  using assms(2)
proof (induction n arbitrary: i x)
  case 0
  show ?case by (simp add: obeys_def op_simps)
next
  case (Suc n)
  show ?case
  proof (cases "stop (a i)")
    case True
    with Suc.prems assms(3) show ?thesis by (simp add: op_simps)
  next
    case False
    then have "bnd (scan_array stop a body i (Suc n) x) k
        = bnd (body i x) (\<lambda>y. bnd (scan_array stop a body (i + 1) n y) k)"
      by (simp add: bnd_assoc)
    moreover have "obeys inv rel (bnd (body i x) (\<lambda>y. bnd (scan_array stop a body (i + 1) n y) k))"
      by (rule step) (use Suc.prems Suc.IH in auto)
    ultimately show ?thesis by simp
  qed
qed

lemmas obeys_rules = obeys_retn obeys_lifted obeys_getting obeys_bnd_lifted obeys_bnd_retn
  obeys_bnd_if obeys_if obeys_when

end

text \<open>The same for operations that may wait for ever: only what holds when they return.\<close>

definition moves :: "('s \<Rightarrow> 's \<Rightarrow> bool) \<Rightarrow> ('s, 'a) op \<Rightarrow> bool" where
  "moves R m \<longleftrightarrow> (\<forall>s x t. m s = Inr (x, t) \<longrightarrow> R s t)"

lemma movesI: "(\<And>s x t. m s = Inr (x, t) \<Longrightarrow> R s t) \<Longrightarrow> moves R m"
  by (simp add: moves_def)

lemma movesD: "moves R m \<Longrightarrow> m s = Inr (x, t) \<Longrightarrow> R s t"
  by (simp add: moves_def)

locale move_law =
  fixes rel :: "'s \<Rightarrow> 's \<Rightarrow> bool"
  assumes rel_refl: "rel s s" and rel_trans: "rel s t \<Longrightarrow> rel t u \<Longrightarrow> rel s u"
begin

lemma moves_retn: "moves rel (retn x)"
  by (simp add: moves_def retn_def rel_refl)

lemma moves_lifted: "moves rel (lifted r)"
  by (auto simp: moves_def lifted_eq_Inr rel_refl)

lemma moves_getting: "moves rel (getting f)"
  by (simp add: moves_def getting_def rel_refl)

lemma moves_setting: "(\<And>s. rel s (f s)) \<Longrightarrow> moves rel (setting f)"
  by (simp add: moves_def setting_def)

lemma moves_bnd: "moves rel m \<Longrightarrow> (\<And>x. moves rel (f x)) \<Longrightarrow> moves rel (bnd m f)"
  unfolding moves_def bnd_eq_Inr by (blast intro: rel_trans)

lemma moves_if: "(b \<Longrightarrow> moves rel m) \<Longrightarrow> (\<not> b \<Longrightarrow> moves rel n) \<Longrightarrow> moves rel (if b then m else n)"
  by simp

lemma moves_when: "moves rel m \<Longrightarrow> moves rel (when_op b m)"
  by (cases b) (simp_all add: op_simps moves_retn)

lemma moves_each: "(\<And>x. moves rel (f x)) \<Longrightarrow> moves rel (each f xs)"
  by (induction xs) (auto intro: moves_retn moves_bnd)

lemmas moves_rules = moves_retn moves_lifted moves_getting moves_bnd moves_if moves_when moves_each

end

section \<open>Results that are not a hang\<close>

text \<open>Computations without effect return a value or a fault.\<close>

named_theorems no_hang \<open>results that are not \<open>No_Return\<close>\<close>

lemma rbind_no_hang [no_hang]:
  "r \<noteq> Inl No_Return \<Longrightarrow> (\<And>x. r = Inr x \<Longrightarrow> f x \<noteq> Inl No_Return) \<Longrightarrow> rbind r f \<noteq> Inl No_Return"
  by (cases r) auto

lemma Inr_no_hang [no_hang]: "Inr x \<noteq> Inl No_Return"
  by simp

lemma rfold_no_hang [no_hang]:
  "(\<And>x y. f x y \<noteq> Inl No_Return) \<Longrightarrow> rfold f xs s \<noteq> Inl No_Return"
  by (induction xs arbitrary: s) (auto simp: rbind_eq_Inl)

section \<open>Arrays\<close>

type_synonym 'a arr = "int \<Rightarrow> 'a"

definition rd :: "int \<Rightarrow> 'a arr \<Rightarrow> int \<Rightarrow> 'a result" where
  "rd n a i = (if 0 \<le> i \<and> i < n then Inr (a i) else Inl Out_Of_Bounds)"

definition wr :: "int \<Rightarrow> 'a arr \<Rightarrow> int \<Rightarrow> 'a \<Rightarrow> 'a arr result" where
  "wr n a i x = (if 0 \<le> i \<and> i < n then Inr (a(i := x)) else Inl Out_Of_Bounds)"

lemma rd_in [simp]: "0 \<le> i \<Longrightarrow> i < n \<Longrightarrow> rd n a i = Inr (a i)"
  by (simp add: rd_def)

lemma wr_in [simp]: "0 \<le> i \<Longrightarrow> i < n \<Longrightarrow> wr n a i x = Inr (a(i := x))"
  by (simp add: wr_def)

lemma array_no_hang [no_hang]: "rd n a i \<noteq> Inl No_Return" "wr n a i x \<noteq> Inl No_Return"
  by (simp_all add: rd_def wr_def)

section \<open>Character arrays with all their bytes\<close>

text \<open>
  Here a \<open>char\<close> array is the list of all its bytes: what follows the NUL travels with the packet.
  A string is read up to the first NUL, and there must be one; \<open>strcpy\<close> writes the string and
  its NUL and leaves the bytes behind them.
\<close>

definition cstr :: "string \<Rightarrow> string result" where
  "cstr b = (if CHR 0x00 \<in> set b then Inr (takeWhile (\<lambda>c. c \<noteq> CHR 0x00) b) else Inl Out_Of_Bounds)"

definition put_str :: "nat \<Rightarrow> string \<Rightarrow> string \<Rightarrow> string result" where
  "put_str cap t b =
     (if fits cap t then Inr (t @ CHR 0x00 # drop (Suc (length t)) b) else Inl Buffer_Overflow)"

lemma put_str_fits [simp]:
  "fits cap t \<Longrightarrow> put_str cap t b = Inr (t @ CHR 0x00 # drop (Suc (length t)) b)"
  by (simp add: put_str_def)

lemma put_str_length: "put_str cap t b = Inr c \<Longrightarrow> length b = cap \<Longrightarrow> length c = cap"
  by (auto simp: put_str_def fits_def split: if_splits)

lemma cstr_put [simp]: "CHR 0x00 \<notin> set t \<Longrightarrow> cstr (t @ CHR 0x00 # b) = Inr t"
  by (auto simp: cstr_def takeWhile_append)

lemma string_no_hang [no_hang]: "cstr b \<noteq> Inl No_Return" "put_str cap t b \<noteq> Inl No_Return"
  "sprintf cap t \<noteq> Inl No_Return"
  by (simp_all add: cstr_def put_str_def sprintf_def)

lemma cstr_no_NUL: "cstr b = Inr t \<Longrightarrow> CHR 0x00 \<notin> set t"
  by (auto simp: cstr_def split: if_splits dest: set_takeWhileD)

lemma put_str_cstr: "put_str cap t b = Inr c \<Longrightarrow> CHR 0x00 \<notin> set t \<Longrightarrow> cstr c = Inr t"
  by (auto simp: put_str_def split: if_splits)

end
