(* ===== verification/Talk_Pack.thy ===== *)
theory Talk_Pack
  imports State_Ops Chat_Wire
begin

text \<open>
  The packet of the second chat room, \<open>Code/liuting1/chatroom/dfi.h\<close>: its fields, the request
  numbers, its image in memory (x86-64, little endian, no padding) and \<open>recv\<close> with
  \<open>MSG_WAITALL\<close>, which both programs read packets with.
\<close>

section \<open>The packet\<close>

record PACK =
  p_type :: int
  p_account :: int
  p_send_name :: string
  p_send_account :: int
  p_time :: int
  p_mes :: string
  p_mes2 :: string

definition EXIT :: int where "EXIT = 0"
definition LOGIN :: int where "LOGIN = 1"
definition REGIST :: int where "REGIST = 2"
definition REPASSWD :: int where "REPASSWD = 3"
definition ADD_FRIEND :: int where "ADD_FRIEND = 4"
definition LIST_FRI :: int where "LIST_FRI = 5"
definition ONLINE_FRI :: int where "ONLINE_FRI = 6"
definition CHAT_FRI :: int where "CHAT_FRI = 7"
definition STORE_CHAT :: int where "STORE_CHAT = 8"
definition DELE_FRI :: int where "DELE_FRI = 9"
definition CREAT_GROUP :: int where "CREAT_GROUP = 10"
definition JOIN_GROUP :: int where "JOIN_GROUP = 11"
definition QUIT_GROUP :: int where "QUIT_GROUP = 12"
definition DELE_GROUP :: int where "DELE_GROUP = 13"
definition GROUP_MES :: int where "GROUP_MES = 14"
definition CHAT_GROUP :: int where "CHAT_GROUP = 15"
definition STORE_G :: int where "STORE_G = 16"
definition SET_UP :: int where "SET_UP = 17"
definition SEND_FILE :: int where "SEND_FILE = 18"
definition JOIN_USER :: int where "JOIN_USER = 20"
definition DELE_USER :: int where "DELE_USER = 21"

lemmas request_numbers = EXIT_def LOGIN_def REGIST_def REPASSWD_def ADD_FRIEND_def LIST_FRI_def
  ONLINE_FRI_def CHAT_FRI_def STORE_CHAT_def DELE_FRI_def CREAT_GROUP_def JOIN_GROUP_def
  QUIT_GROUP_def DELE_GROUP_def GROUP_MES_def CHAT_GROUP_def STORE_G_def SET_UP_def
  SEND_FILE_def JOIN_USER_def DELE_USER_def

text \<open>\<open>strcpy\<close> and \<open>sprintf\<close> into the arrays of a packet.\<close>

definition set_name :: "string \<Rightarrow> PACK \<Rightarrow> PACK result" where
  "set_name t p = rbind (put_str 100 t (p_send_name p)) (\<lambda>b. Inr (p\<lparr>p_send_name := b\<rparr>))"

definition set_mes :: "string \<Rightarrow> PACK \<Rightarrow> PACK result" where
  "set_mes t p = rbind (put_str 1000 t (p_mes p)) (\<lambda>b. Inr (p\<lparr>p_mes := b\<rparr>))"

definition set_mes2 :: "string \<Rightarrow> PACK \<Rightarrow> PACK result" where
  "set_mes2 t p = rbind (put_str 1000 t (p_mes2 p)) (\<lambda>b. Inr (p\<lparr>p_mes2 := b\<rparr>))"

text \<open>A value of type \<open>PACK\<close>: every array has its declared size, every integer its width.\<close>

definition int64 :: "int \<Rightarrow> bool" where
  "int64 i \<longleftrightarrow> - (2 ^ 63) \<le> i \<and> i < 2 ^ 63"

definition pack_ok :: "PACK \<Rightarrow> bool" where
  "pack_ok p \<longleftrightarrow> length (p_send_name p) = 100 \<and> length (p_mes p) = 1000 \<and> length (p_mes2 p) = 1000
     \<and> int32 (p_type p) \<and> int32 (p_account p) \<and> int32 (p_send_account p) \<and> int64 (p_time p)"

text \<open>\<open>memset(&pack, 0, sizeof(PACK))\<close>\<close>

definition zero_pack :: PACK where
  "zero_pack = \<lparr>p_type = 0, p_account = 0, p_send_name = replicate 100 (CHR 0x00),
     p_send_account = 0, p_time = 0, p_mes = replicate 1000 (CHR 0x00),
     p_mes2 = replicate 1000 (CHR 0x00)\<rparr>"

lemma zero_pack_ok [simp]: "pack_ok zero_pack"
  by (simp add: zero_pack_def pack_ok_def int32_def int64_def)

lemma set_ok:
  "set_name t p = Inr q \<Longrightarrow> pack_ok p \<Longrightarrow> pack_ok q"
  "set_mes t p = Inr q \<Longrightarrow> pack_ok p \<Longrightarrow> pack_ok q"
  "set_mes2 t p = Inr q \<Longrightarrow> pack_ok p \<Longrightarrow> pack_ok q"
  by (auto simp: set_name_def set_mes_def set_mes2_def pack_ok_def rbind_eq_Inr dest: put_str_length)

section \<open>The image in memory\<close>

definition PACK_size :: nat where
  "PACK_size = 2120"

fun enc_le :: "nat \<Rightarrow> int \<Rightarrow> string" where
  "enc_le 0 i = []"
| "enc_le (Suc n) i = byte_of i 0 # enc_le n (i div 256)"

fun dec_le :: "string \<Rightarrow> int" where
  "dec_le [] = 0"
| "dec_le (c # cs) = of_char c + 256 * dec_le cs"

definition signed_le :: "string \<Rightarrow> int" where
  "signed_le b = (let v = dec_le b; m = 256 ^ length b in if 2 * v < m then v else v - m)"

definition encode_PACK :: "PACK \<Rightarrow> string" where
  "encode_PACK p = enc_le 4 (p_type p) @ enc_le 4 (p_account p) @ p_send_name p @
     enc_le 4 (p_send_account p) @ enc_le 8 (p_time p) @ p_mes p @ p_mes2 p"

definition bytes_at :: "nat \<Rightarrow> nat \<Rightarrow> string \<Rightarrow> string" where
  "bytes_at off n img = take n (drop off img)"

definition decode_PACK :: "string \<Rightarrow> PACK" where
  "decode_PACK b = \<lparr>p_type = signed_le (bytes_at 0 4 b), p_account = signed_le (bytes_at 4 4 b),
     p_send_name = bytes_at 8 100 b, p_send_account = signed_le (bytes_at 108 4 b),
     p_time = signed_le (bytes_at 112 8 b), p_mes = bytes_at 120 1000 b,
     p_mes2 = bytes_at 1120 1000 b\<rparr>"

lemma length_enc_le [simp]: "length (enc_le n i) = n"
  by (induction n arbitrary: i) simp_all

lemma dec_le_enc_le: "dec_le (enc_le n i) = i mod 256 ^ n"
proof (induction n arbitrary: i)
  case 0
  then show ?case by simp
next
  case (Suc n)
  have "i mod (256 * 256 ^ n) = 256 * (i div 256 mod 256 ^ n) + i mod 256"
    by (rule zmod_zmult2_eq) simp
  with Suc show ?case by (simp add: byte_values)
qed

lemma signed_le_enc_le:
  assumes "0 < n" and "- (256 ^ n) \<le> 2 * i" and "2 * i < 256 ^ n"
  shows "signed_le (enc_le n i) = i"
proof (cases "0 \<le> i")
  case True
  with assms have "i mod 256 ^ n = i" by (intro mod_pos_pos_trivial) auto
  with assms(3) show ?thesis by (simp add: signed_le_def dec_le_enc_le)
next
  case False
  have "(i + 256 ^ n) mod 256 ^ n = i mod 256 ^ n" by simp
  moreover from False assms have "(i + 256 ^ n) mod 256 ^ n = i + 256 ^ n"
    by (intro mod_pos_pos_trivial) auto
  ultimately show ?thesis using False assms(2) by (simp add: signed_le_def dec_le_enc_le)
qed

lemma signed_le_int32: "int32 i \<Longrightarrow> signed_le (enc_le 4 i) = i"
  by (rule signed_le_enc_le) (simp_all add: int32_def)

lemma signed_le_int64: "int64 i \<Longrightarrow> signed_le (enc_le 8 i) = i"
  by (rule signed_le_enc_le) (simp_all add: int64_def)

lemma length_encode_PACK: "pack_ok p \<Longrightarrow> length (encode_PACK p) = PACK_size"
  by (simp add: encode_PACK_def pack_ok_def PACK_size_def)

lemma decode_encode_PACK:
  assumes "pack_ok p"
  shows "decode_PACK (encode_PACK p) = p"
proof -
  from assms have "length (p_send_name p) = 100" "length (p_mes p) = 1000" "length (p_mes2 p) = 1000"
    "signed_le (enc_le 4 (p_type p)) = p_type p" "signed_le (enc_le 4 (p_account p)) = p_account p"
    "signed_le (enc_le 4 (p_send_account p)) = p_send_account p"
    "signed_le (enc_le 8 (p_time p)) = p_time p"
    by (simp_all add: pack_ok_def signed_le_int32 signed_le_int64)
  then show ?thesis by (simp add: decode_PACK_def encode_PACK_def bytes_at_def)
qed

text \<open>Receiving fewer bytes leaves the rest of the variable as it was.\<close>

definition fill_pack :: "PACK \<Rightarrow> string \<Rightarrow> PACK" where
  "fill_pack old b = decode_PACK (b @ drop (length b) (encode_PACK old))"

lemma fill_pack_whole: "pack_ok old \<Longrightarrow> length b = PACK_size \<Longrightarrow> fill_pack old b = decode_PACK b"
  by (simp add: fill_pack_def length_encode_PACK)

lemma fill_pack_nothing: "pack_ok old \<Longrightarrow> fill_pack old [] = old"
  by (simp add: fill_pack_def decode_encode_PACK)

section \<open>Receiving a whole packet\<close>

text \<open>
  \<open>recv(fd, &pack, sizeof(PACK), MSG_WAITALL)\<close> takes the byte runs that arrive, the last one in
  part, until it has all the bytes it asked for or the connection is closed.
\<close>

fun recv_all :: "nat \<Rightarrow> string list \<Rightarrow> string \<times> string list" where
  "recv_all n [] = ([], [])"
| "recv_all n (seg # segs) =
     (if n < length seg then (take n seg, drop n seg # segs)
      else (case recv_all (n - length seg) segs of (b, rest) \<Rightarrow> (seg @ b, rest)))"

lemma recv_all_bytes: "fst (recv_all n segs) = take n (concat segs)"
  by (induction n segs rule: recv_all.induct) (auto split: prod.splits)

lemma recv_all_rest: "concat (snd (recv_all n segs)) = drop n (concat segs)"
  by (induction n segs rule: recv_all.induct) (auto split: prod.splits)

end
