(* ===== verification/Talk_Printf.thy ===== *)
theory Talk_Printf
  imports State_Ops
begin

text \<open>
  \<open>sprintf\<close> with the conversions that the second chat room uses, \<open>%d\<close> and \<open>%s\<close>, on the format
  strings as the code has them.
\<close>

section \<open>Formatting\<close>

datatype farg = D int | S string

text \<open>
  A \<open>%d\<close> without an argument prints what the argument register holds (\<open>junk\<close>); a \<open>%s\<close> without a
  string, and a \<open>%\<close> before anything else, are undefined. Arguments left over are ignored.
\<close>

fun format :: "int \<Rightarrow> string \<Rightarrow> farg list \<Rightarrow> string result" where
  "format junk [] args = Inr []"
| "format junk [c] args = (if c = CHR ''%'' then Inl Uninit_Read else Inr [c])"
| "format junk (c # k # cs) args =
     (if c \<noteq> CHR ''%'' then rbind (format junk (k # cs) args) (\<lambda>t. Inr (c # t))
      else if k = CHR ''d'' then
        (case args of
           [] \<Rightarrow> rbind (format junk cs []) (\<lambda>t. Inr (dec junk @ t))
         | D i # rest \<Rightarrow> rbind (format junk cs rest) (\<lambda>t. Inr (dec i @ t))
         | S x # rest \<Rightarrow> Inl Uninit_Read)
      else if k = CHR ''s'' then
        (case args of S x # rest \<Rightarrow> rbind (format junk cs rest) (\<lambda>t. Inr (x @ t))
         | _ \<Rightarrow> Inl Uninit_Read)
      else Inl Uninit_Read)"

text \<open>\<open>sprintf\<close> into an array of \<open>cap\<close> bytes.\<close>

definition sprintf_to :: "nat \<Rightarrow> int \<Rightarrow> string \<Rightarrow> farg list \<Rightarrow> string result" where
  "sprintf_to cap junk fmt args = rbind (format junk fmt args) (sprintf cap)"

section \<open>Literal text and conversions\<close>

definition plain :: "string \<Rightarrow> bool" where
  "plain t \<longleftrightarrow> CHR ''%'' \<notin> set t"

lemma plain_simps [simp]:
  "plain []" "plain (c # t) \<longleftrightarrow> c \<noteq> CHR ''%'' \<and> plain t"
  by (auto simp: plain_def)

lemma format_plain: "plain t \<Longrightarrow> format junk t args = Inr t"
  by (induction junk t args rule: format.induct) auto

lemma format_cons: "c \<noteq> CHR ''%'' \<Longrightarrow> format junk (c # t) args = rbind (format junk t args) (\<lambda>u. Inr (c # u))"
  by (cases t) simp_all

lemma format_conversions:
  "format junk (CHR ''%'' # CHR ''d'' # t) (D i # args) = rbind (format junk t args) (\<lambda>u. Inr (dec i @ u))"
  "format junk (CHR ''%'' # CHR ''d'' # t) [] = rbind (format junk t []) (\<lambda>u. Inr (dec junk @ u))"
  "format junk (CHR ''%'' # CHR ''s'' # t) (S x # args) = rbind (format junk t args) (\<lambda>u. Inr (x @ u))"
  by simp_all

lemma format_append:
  assumes "plain t"
  shows "format junk (t @ u) args = rbind (format junk u args) (\<lambda>v. Inr (t @ v))"
  using assms
proof (induction t)
  case Nil
  show ?case by (cases "format junk u args") simp_all
next
  case (Cons c t)
  then show ?case by (cases "format junk u args") (simp_all add: format_cons)
qed

section \<open>Lengths\<close>

lemma dec_nat_length_le: "0 < k \<Longrightarrow> n < 10 ^ k \<Longrightarrow> length (dec_nat n) \<le> k"
proof (induction k arbitrary: n)
  case 0
  then show ?case by simp
next
  case (Suc k)
  show ?case
  proof (cases "n < 10")
    case True
    then show ?thesis by (simp add: dec_nat.simps)
  next
    case False
    with Suc.prems(2) have "0 < k" by (cases k) auto
    moreover have "n div 10 < 10 ^ k" using Suc.prems(2) by (simp add: less_mult_imp_div_less)
    ultimately have "length (dec_nat (n div 10)) \<le> k" by (rule Suc.IH)
    with False show ?thesis by (simp add: dec_nat.simps [of n])
  qed
qed

text \<open>An \<open>int\<close> prints in at most eleven characters.\<close>

lemma dec_length_le: "- 2147483648 \<le> i \<Longrightarrow> i < 2147483648 \<Longrightarrow> length (dec i) \<le> 11"
  using dec_nat_length_le [of 10 "nat i"] dec_nat_length_le [of 10 "nat (- i)"]
  by (auto simp: dec_def nat_less_iff)

lemma dec_nat_nonempty: "dec_nat n \<noteq> []"
  by (simp add: dec_nat.simps [of n])

lemma dec_length_pos: "0 < length (dec i)"
  using dec_nat_nonempty by (simp add: dec_def)

lemma dec_nat_no_NUL: "CHR 0x00 \<notin> set (dec_nat n)"
proof (induction n rule: dec_nat.induct)
  case (1 n)
  have "CHR 0x00 \<noteq> char_of (48 + m :: nat)" if "m < 10" for m
  proof
    assume "CHR 0x00 = char_of (48 + m :: nat)"
    then have "(of_char (CHR 0x00) :: nat) = of_char (char_of (48 + m :: nat) :: char)"
      by (rule arg_cong)
    with that show False by simp
  qed
  then show ?case using 1 by (subst dec_nat.simps) auto
qed

lemma dec_no_NUL: "CHR 0x00 \<notin> set (dec i)"
  using dec_nat_no_NUL by (auto simp: dec_def)

end
