(* ===== verification/Talk_Text.thy ===== *)
theory Talk_Text
  imports Prelude
begin

text \<open>
  The Chinese messages of \<open>Code/liuting1/chatroom/server_deal.c\<close>: the bytes of the string literals
  in UTF-8, as the compiler lays them out. Each is named after what it says.
\<close>

definition utf8 :: "nat list \<Rightarrow> string" where
  "utf8 bs = map char_of bs"

text \<open>logged in\<close>

definition login_ok :: string where
  "login_ok = utf8 [
     231, 153, 187, 229, 189, 149, 230, 136, 144, 229, 138, 159]"

text \<open>registered\<close>

definition regist_ok :: string where
  "regist_ok = utf8 [
     230, 179, 168, 229, 134, 140, 230, 136, 144, 229, 138, 159]"

text \<open>password reset\<close>

definition repass_ok :: string where
  "repass_ok = utf8 [
     233, 135, 141, 231, 189, 174, 229, 175, 134, 231, 160, 129, 230, 136, 144, 229,
     138, 159]"

text \<open>the account does not exist or is not a friend\<close>

definition not_a_friend :: string where
  "not_a_friend = utf8 [
     232, 190, 147, 229, 133, 165, 232, 180, 166, 229, 143, 183, 228, 184, 141, 229,
     173, 152, 229, 156, 168, 239, 188, 140, 230, 136, 150, 232, 128, 133, 228, 184,
     141, 230, 152, 175, 229, 165, 189, 229, 143, 139]"

text \<open>no messages or query failed\<close>

definition no_chat :: string where
  "no_chat = utf8 [
     230, 178, 161, 230, 156, 137, 232, 129, 138, 229, 164, 169, 232, 174, 176, 229,
     189, 149, 230, 136, 150, 232, 128, 133, 230, 159, 165, 232, 175, 162, 229, 164,
     177, 232, 180, 165]"

text \<open>group created\<close>

definition group_created :: string where
  "group_created = utf8 [
     229, 136, 155, 231, 190, 164, 230, 136, 144, 229, 138, 159]"

text \<open>group not created\<close>

definition group_not_created :: string where
  "group_not_created = utf8 [
     229, 136, 155, 231, 190, 164, 229, 164, 177, 232, 180, 165]"

text \<open>you are a member of this group already\<close>

definition already_member :: string where
  "already_member = utf8 [
     228, 189, 160, 229, 183, 178, 230, 152, 175, 232, 175, 165, 231, 190, 164, 230,
     136, 144, 229, 145, 152]"

text \<open>joined the group, welcome\<close>

definition joined :: string where
  "joined = utf8 [
     229, 138, 160, 229, 133, 165, 231, 190, 164, 232, 129, 138, 230, 136, 144, 229,
     138, 159, 44, 230, 172, 162, 232, 191, 142, 230, 172, 162, 232, 191, 142, 239, 188,
     129, 239, 188, 129, 239, 188, 129]"

text \<open>database write error, join again\<close>

definition join_failed :: string where
  "join_failed = utf8 [
     229, 134, 153, 229, 133, 165, 230, 149, 176, 230, 141, 174, 229, 186, 147, 229,
     135, 186, 233, 148, 153, 239, 188, 140, 232, 175, 183, 233, 135, 141, 230, 150,
     176, 229, 138, 160, 229, 133, 165]"

text \<open>no such group\<close>

definition no_such_group :: string where
  "no_such_group = utf8 [
     232, 175, 165, 231, 190, 164, 228, 184, 141, 229, 173, 152, 229, 156, 168]"

text \<open>no such group number or you are not a member\<close>

definition not_in_group :: string where
  "not_in_group = utf8 [
     232, 175, 165, 231, 190, 164, 229, 143, 183, 228, 184, 141, 229, 173, 152, 229,
     156, 168, 230, 136, 150, 228, 189, 160, 229, 185, 182, 228, 184, 141, 230, 152,
     175, 232, 175, 165, 231, 190, 164, 230, 136, 144, 229, 145, 152]"

text \<open>left the group\<close>

definition quit_ok :: string where
  "quit_ok = utf8 [
     233, 128, 128, 229, 135, 186, 231, 190, 164, 232, 129, 138, 230, 136, 144, 229,
     138, 159]"

text \<open>database write error, leave again\<close>

definition quit_failed :: string where
  "quit_failed = utf8 [
     229, 134, 153, 229, 133, 165, 230, 149, 176, 230, 141, 174, 229, 186, 147, 229,
     135, 186, 233, 148, 153, 239, 188, 140, 232, 175, 183, 233, 135, 141, 230, 150,
     176, 233, 128, 128, 229, 135, 186]"

text \<open>no such group number or you are not its owner\<close>

definition not_owner :: string where
  "not_owner = utf8 [
     232, 175, 165, 231, 190, 164, 229, 143, 183, 228, 184, 141, 229, 173, 152, 229,
     156, 168, 230, 136, 150, 232, 128, 133, 228, 189, 160, 229, 185, 182, 228, 184,
     141, 230, 152, 175, 231, 190, 164, 228, 184, 187, 239, 188, 140, 230, 178, 161,
     230, 156, 137, 230, 157, 131, 233, 153, 144, 239, 188, 129, 239, 188, 129, 239,
     188, 129]"

text \<open>group deleted\<close>

definition group_deleted :: string where
  "group_deleted = utf8 [
     229, 136, 160, 233, 153, 164, 231, 190, 164, 232, 129, 138, 230, 136, 144, 229,
     138, 159]"

text \<open>database write error, delete again\<close>

definition delete_failed :: string where
  "delete_failed = utf8 [
     229, 134, 153, 229, 133, 165, 230, 149, 176, 230, 141, 174, 229, 186, 147, 229,
     135, 186, 233, 148, 153, 239, 188, 140, 232, 175, 183, 233, 135, 141, 230, 150,
     176, 229, 136, 160, 233, 153, 164]"

text \<open>query failed or no such group\<close>

definition query_failed :: string where
  "query_failed = utf8 [
     230, 159, 165, 232, 175, 162, 229, 164, 177, 232, 180, 165, 230, 136, 150, 232,
     175, 165, 231, 190, 164, 228, 184, 141, 229, 173, 152, 229, 156, 168]"

text \<open>group owner\<close>

definition the_owner :: string where
  "the_owner = utf8 [
     231, 190, 164, 228, 184, 187]"

text \<open>administrator\<close>

definition an_admin :: string where
  "an_admin = utf8 [
     231, 174, 161, 231, 144, 134, 229, 145, 152]"

text \<open>group member\<close>

definition a_member :: string where
  "a_member = utf8 [
     231, 190, 164, 229, 145, 152]"

text \<open>set: he is an administrator now\<close>

definition made_admin :: string where
  "made_admin = utf8 [
     232, 174, 190, 231, 189, 174, 230, 136, 144, 229, 138, 159, 44, 228, 187, 150, 229,
     183, 178, 231, 187, 143, 230, 152, 175, 231, 174, 161, 231, 144, 134, 229, 145,
     152, 228, 186, 134, 229, 147, 166, 239, 188, 129, 239, 188, 129]"

text \<open>the one to set is not a member\<close>

definition admin_not_member :: string where
  "admin_not_member = utf8 [
     228, 189, 160, 232, 166, 129, 232, 174, 190, 231, 189, 174, 231, 154, 132, 229,
     185, 182, 228, 184, 141, 230, 152, 175, 231, 190, 164, 230, 136, 144, 229, 145,
     152, 239, 188, 140, 229, 191, 171, 229, 142, 187, 230, 139, 137, 228, 187, 150,
     232, 191, 155, 231, 190, 164, 229, 144, 167, 33, 33, 33]"

text \<open>no such group or you are not its owner\<close>

definition set_up_refused :: string where
  "set_up_refused = utf8 [
     232, 175, 165, 231, 190, 164, 228, 184, 141, 229, 173, 152, 229, 156, 168, 239,
     188, 140, 230, 136, 150, 232, 128, 133, 228, 189, 160, 229, 185, 182, 228, 184,
     141, 230, 152, 175, 231, 190, 164, 228, 184, 187, 239, 188, 140, 230, 151, 160,
     230, 179, 149, 230, 147, 141, 228, 189, 156]"

text \<open>he is a member of this group already\<close>

definition already_in_group :: string where
  "already_in_group = utf8 [
     228, 187, 150, 229, 183, 178, 231, 187, 143, 230, 152, 175, 232, 175, 165, 231,
     190, 164, 230, 136, 144, 229, 145, 152, 239, 188, 140, 229, 191, 171, 229, 142,
     187, 232, 129, 138, 229, 164, 169, 229, 144, 167, 239, 188, 129, 239, 188, 129]"

text \<open>you have invited him\<close>

definition invited_ok :: string where
  "invited_ok = utf8 [
     228, 189, 160, 229, 183, 178, 230, 136, 144, 229, 138, 159, 233, 130, 128, 232,
     175, 183, 228, 187, 150, 232, 191, 155, 231, 190, 164]"

text \<open>you were pulled by account %d into group %d\<close>

definition you_were_invited :: string where
  "you_were_invited = utf8 [
     228, 189, 160, 232, 162, 171, 232, 180, 166, 229, 143, 183, 37, 100, 230, 139, 137,
     232, 191, 155, 231, 190, 164, 37, 100]"

text \<open>no such group or you are not a member\<close>

definition invite_refused :: string where
  "invite_refused = utf8 [
     232, 175, 165, 231, 190, 164, 228, 184, 141, 229, 173, 152, 229, 156, 168, 239,
     188, 140, 230, 136, 150, 232, 128, 133, 228, 189, 160, 229, 185, 182, 228, 184,
     141, 230, 152, 175, 232, 175, 165, 231, 190, 164, 230, 136, 144, 229, 145, 152,
     239, 188, 140, 230, 151, 160, 230, 179, 149, 230, 147, 141, 228, 189, 156, 33, 33,
     33]"

text \<open>you have removed him from the group\<close>

definition removed_ok :: string where
  "removed_ok = utf8 [
     228, 189, 160, 229, 183, 178, 230, 136, 144, 229, 138, 159, 228, 187, 142, 231,
     190, 164, 232, 129, 138, 228, 184, 173, 229, 136, 160, 233, 153, 164, 228, 187,
     150]"

text \<open>you were removed by account %d from group %d\<close>

definition you_were_removed :: string where
  "you_were_removed = utf8 [
     228, 189, 160, 232, 162, 171, 232, 180, 166, 229, 143, 183, 37, 100, 228, 187, 142,
     231, 190, 164, 37, 100, 229, 136, 160, 233, 153, 164]"

text \<open>no such group or you are not an administrator\<close>

definition remove_refused :: string where
  "remove_refused = utf8 [
     232, 175, 165, 231, 190, 164, 228, 184, 141, 229, 173, 152, 229, 156, 168, 239,
     188, 140, 230, 136, 150, 232, 128, 133, 228, 189, 160, 229, 185, 182, 228, 184,
     141, 230, 152, 175, 232, 175, 165, 231, 190, 164, 231, 174, 161, 231, 144, 134,
     229, 145, 152, 239, 188, 140, 230, 151, 160, 230, 179, 149, 230, 147, 141, 228,
     189, 156, 33, 33, 33]"

text \<open>you are friends already\<close>

definition already_friends :: string where
  "already_friends = utf8 [
     228, 189, 160, 228, 187, 172, 229, 183, 178, 231, 187, 143, 230, 152, 175, 229,
     165, 189, 229, 143, 139, 229, 150, 189, 239, 188, 140, 231, 155, 180, 230, 142,
     165, 229, 142, 187, 232, 129, 138, 229, 164, 169, 229, 144, 167]"

text \<open>the account is not correct\<close>

definition wrong_account :: string where
  "wrong_account = utf8 [
     228, 189, 160, 232, 190, 147, 229, 133, 165, 231, 154, 132, 232, 180, 166, 229,
     143, 183, 228, 184, 141, 230, 173, 163, 231, 161, 174, 239, 188, 140, 232, 175,
     183, 230, 173, 163, 231, 161, 174, 232, 190, 147, 229, 133, 165, 33, 33, 33]"

text \<open>account %s asks to add you, do you agree\<close>

definition asks_to_add :: string where
  "asks_to_add = utf8 [
     232, 180, 166, 229, 143, 183, 37, 115, 231, 148, 179, 232, 175, 183, 229, 138, 160,
     228, 189, 160, 228, 184, 186, 229, 165, 189, 229, 143, 139, 239, 188, 140, 230,
     152, 175, 229, 144, 166, 229, 144, 140, 230, 132, 143]"

text \<open>you and %d are friends now\<close>

definition now_friends :: string where
  "now_friends = utf8 [
     228, 189, 160, 229, 146, 140, 37, 100, 229, 183, 178, 231, 187, 143, 230, 136, 144,
     229, 138, 159, 229, 138, 160, 228, 184, 186, 229, 165, 189, 229, 143, 139, 228,
     186, 134, 239, 188, 140, 229, 191, 171, 229, 142, 187, 232, 129, 138, 229, 164,
     169, 229, 144, 167, 239, 188, 129, 239, 188, 129]"

text \<open>%d has refused your request\<close>

definition friend_refused :: string where
  "friend_refused = utf8 [
     37, 100, 230, 139, 146, 231, 187, 157, 228, 186, 134, 228, 189, 160, 231, 154, 132,
     229, 165, 189, 229, 143, 139, 231, 148, 179, 232, 175, 183, 239, 188, 140, 228,
     187, 150, 231, 156, 159, 230, 152, 175, 228, 184, 170, 229, 130, 187, 233, 128,
     188, 239, 188, 129, 239, 188, 129]"

text \<open>No literal contains a NUL.\<close>

lemma utf8_no_NUL: "list_all (\<lambda>n. 0 < n \<and> n < 256) bs \<Longrightarrow> CHR 0x00 \<notin> set (utf8 bs)"
proof (induction bs)
  case Nil
  then show ?case by (simp add: utf8_def)
next
  case (Cons n bs)
  have "CHR 0x00 \<noteq> char_of n"
  proof
    assume "CHR 0x00 = char_of n"
    then have "(of_char (CHR 0x00) :: nat) = of_char (char_of n :: char)" by (rule arg_cong)
    with Cons.prems show False by simp
  qed
  with Cons show ?case by (simp add: utf8_def)
qed

lemma length_utf8 [simp]: "length (utf8 bs) = length bs"
  by (simp add: utf8_def)

lemmas message_texts = login_ok_def regist_ok_def repass_ok_def not_a_friend_def no_chat_def group_created_def group_not_created_def already_member_def joined_def join_failed_def no_such_group_def not_in_group_def quit_ok_def quit_failed_def not_owner_def group_deleted_def delete_failed_def query_failed_def the_owner_def an_admin_def a_member_def made_admin_def admin_not_member_def set_up_refused_def already_in_group_def invited_ok_def you_were_invited_def invite_refused_def removed_ok_def you_were_removed_def remove_refused_def already_friends_def wrong_account_def asks_to_add_def now_friends_def friend_refused_def

end
