(* ===== verification/Message_Box.thy ===== *)
theory Message_Box
  imports Node_Heap State_Ops
begin

text \<open>
  The message boxes of the second chat room: the server's messages for friends who are off
  line, the client's friend requests, private messages and group messages. Each is a linked
  list with a sentinel node allocated when the first message comes and a pointer to the last
  node. The item of the sentinel is never written, so the item of a node is an option.
\<close>

section \<open>The routines\<close>

record 'a box =
  box_head :: "nat option"
  box_end :: "nat option"
  box_mem :: "'a option mem"

definition empty_box :: "'a box" where
  "empty_box = \<lparr>box_head = None, box_end = None, box_mem = empty_mem\<rparr>"

text \<open>\<open>if (phead == NULL) {...}\<close>: allocate the sentinel.\<close>

definition box_start :: "'a box \<Rightarrow> 'a box" where
  "box_start b =
     (case box_head b of
        Some h \<Rightarrow> b
      | None \<Rightarrow> (case malloc (box_mem b) (Node None None) of
          (a, m) \<Rightarrow> \<lparr>box_head = Some a, box_end = Some a, box_mem = m\<rparr>))"

text \<open>Allocate the new node and link it behind the last one: \<open>pend->next = pnew; pend = pnew;\<close>\<close>

definition box_push :: "'a \<Rightarrow> 'a box \<Rightarrow> 'a box result" where
  "box_push x b =
     (let b1 = box_start b in
      (case malloc (box_mem b1) (Node (Some x) None) of
         (pnew, m) \<Rightarrow>
           (case box_end b1 of
              None \<Rightarrow> Inl Null_Deref
            | Some e \<Rightarrow> rbind (set_next e (Some pnew) m) (\<lambda>m'.
                Inr (b1\<lparr>box_end := Some pnew, box_mem := m'\<rparr>)))))"

text \<open>
  The loop of \<open>pro_off\<close> and of the client's readers: look at the node behind \<open>r\<close>; when it is
  wanted, handle its message, unlink and free it; otherwise go on from it.
\<close>

partial_function (option) sift_loop ::
  "('a \<Rightarrow> bool) \<Rightarrow> ('a \<Rightarrow> ('s, unit) op) \<Rightarrow> nat \<Rightarrow> 'a option mem \<Rightarrow> 's
   \<Rightarrow> ((nat \<times> 'a option mem) \<times> 's) result option" where
  "sift_loop wanted visit r m s =
     (case deref m (Some r) of
        Inl e \<Rightarrow> Some (Inl e)
      | Inr n \<Rightarrow>
          (case node_next n of
             None \<Rightarrow> Some (Inr ((r, m), s))
           | Some b \<Rightarrow>
               (case deref m (Some b) of
                  Inl e \<Rightarrow> Some (Inl e)
                | Inr p \<Rightarrow>
                    (case node_item p of
                       None \<Rightarrow> Some (Inl Uninit_Read)
                     | Some x \<Rightarrow>
                         if wanted x then
                           (case visit x s of
                              Inl e \<Rightarrow> Some (Inl e)
                            | Inr (_, s') \<Rightarrow>
                                sift_loop wanted visit r
                                  (free b (store r (Node (node_item n) (node_next p)) m)) s')
                         else sift_loop wanted visit b m s))))"

text \<open>\<open>pro_off\<close>: an empty box is left alone; the end pointer is reset to where the loop stops.\<close>

definition box_sift ::
  "('a \<Rightarrow> bool) \<Rightarrow> ('a \<Rightarrow> ('s, unit) op) \<Rightarrow> 'a box \<Rightarrow> 's \<Rightarrow> ('a box \<times> 's) result option" where
  "box_sift wanted visit b s =
     (case box_head b of
        None \<Rightarrow> Some (Inr (b, s))
      | Some h \<Rightarrow>
          (case sift_loop wanted visit h (box_mem b) s of
             None \<Rightarrow> None
           | Some (Inl e) \<Rightarrow> Some (Inl e)
           | Some (Inr ((r, m), s')) \<Rightarrow> Some (Inr (b\<lparr>box_end := Some r, box_mem := m\<rparr>, s'))))"

text \<open>The client's readers: handle every message, free the sentinel too, and forget the head.\<close>

definition box_drain ::
  "('a \<Rightarrow> ('s, unit) op) \<Rightarrow> 'a box \<Rightarrow> 's \<Rightarrow> ('a box \<times> 's) result option" where
  "box_drain visit b s =
     (case box_head b of
        None \<Rightarrow> Some (Inr (b, s))
      | Some h \<Rightarrow>
          (case sift_loop (\<lambda>_. True) visit h (box_mem b) s of
             None \<Rightarrow> None
           | Some (Inl e) \<Rightarrow> Some (Inl e)
           | Some (Inr ((r, m), s')) \<Rightarrow>
               Some (Inr (b\<lparr>box_head := None, box_mem := free r m\<rparr>, s'))))"

section \<open>What a box stands for\<close>

definition box_holds :: "'a box \<Rightarrow> 'a list \<Rightarrow> bool" where
  "box_holds b xs \<longleftrightarrow> mem_ok (box_mem b) \<and>
     (case box_head b of
        None \<Rightarrow> xs = []
      | Some h \<Rightarrow> (\<exists>ns. chain (box_mem b) (Some h) ns (None # map Some xs)
          \<and> box_end b = Some (last ns)))"

lemma empty_box_holds [simp]: "box_holds empty_box []"
  by (simp add: box_holds_def empty_box_def)

lemma box_start_holds:
  assumes "box_holds b xs"
  shows "\<exists>h ns. box_head (box_start b) = Some h \<and> box_end (box_start b) = Some (last ns)
    \<and> chain (box_mem (box_start b)) (Some h) ns (None # map Some xs) \<and> mem_ok (box_mem (box_start b))"
proof (cases "box_head b")
  case None
  obtain a m where ma: "malloc (box_mem b) (Node None None) = (a, m)"
    by (cases "malloc (box_mem b) (Node None None)")
  moreover have "cells m a = Some (Node None None)" using ma by (auto simp: malloc_def)
  moreover have "mem_ok m" using ma assms by (auto simp: box_holds_def intro: mem_ok_malloc)
  ultimately show ?thesis using assms None
    by (auto simp: box_start_def box_holds_def chain_def intro!: exI [of _ "[a]"])
next
  case (Some h)
  with assms show ?thesis by (auto simp: box_start_def box_holds_def)
qed

lemma chain_push:
  assumes "chain m p ns ys" and "ns \<noteq> []" and "mem_ok m" and "malloc m (Node y None) = (a, m1)"
  shows "\<exists>m2. set_next (last ns) (Some a) m1 = Inr m2 \<and> chain m2 p (ns @ [a]) (ys @ [y]) \<and> mem_ok m2"
proof -
  from chain_malloc [OF assms(1,3,4)]
  have m1: "chain m1 p ns ys" "cells m1 a = Some (Node y None)" "a \<notin> set ns" "mem_ok m1" .
  from m1(1) have sg: "seg m1 p ns ys None" and di: "distinct ns" by (auto simp: chain_def)
  from seg_last_cell [OF sg assms(2)] have c: "cells m1 (last ns) = Some (Node (last ys) None)" .
  let ?m = "store (last ns) (Node (last ys) (Some a)) m1"
  have "seg ?m p ns ys (Some a)" using seg_redirect [OF sg assms(2) di] .
  moreover have "last ns \<noteq> a" using assms(2) m1(3) by auto
  ultimately have "chain ?m p (ns @ [a]) (ys @ [y])"
    using m1(2,3) di by (auto simp: chain_def seg_append)
  moreover have "mem_ok ?m" using mem_ok_store [OF m1(4)] c by simp
  ultimately show ?thesis using c by simp
qed

lemma box_push_holds:
  assumes "box_holds b xs"
  shows "\<exists>b'. box_push x b = Inr b' \<and> box_holds b' (xs @ [x])"
proof -
  let ?b = "box_start b"
  from box_start_holds [OF assms] obtain h ns where b: "box_head ?b = Some h"
    "box_end ?b = Some (last ns)" "mem_ok (box_mem ?b)"
    and ch: "chain (box_mem ?b) (Some h) ns (None # map Some xs)" by blast
  obtain a m1 where ma: "malloc (box_mem ?b) (Node (Some x) None) = (a, m1)"
    by (cases "malloc (box_mem ?b) (Node (Some x) None)")
  have "ns \<noteq> []" using ch by (auto simp: chain_def)
  from chain_push [OF ch this b(3) ma] obtain m2 where m2: "set_next (last ns) (Some a) m1 = Inr m2"
    "chain m2 (Some h) (ns @ [a]) (None # map Some (xs @ [x]))" "mem_ok m2" by auto
  let ?r = "?b\<lparr>box_end := Some a, box_mem := m2\<rparr>"
  have "box_push x b = Inr ?r" using m2(1) ma b by (simp add: box_push_def Let_def)
  moreover have "box_holds ?r (xs @ [x])" unfolding box_holds_def using m2(2,3) b(1)
    by (auto intro!: exI [of _ "ns @ [a]"])
  ultimately show ?thesis by blast
qed

section \<open>Sifting\<close>

text \<open>
  Between two rounds of the loop: \<open>as\<close> are the nodes kept so far, ending with \<open>r\<close>, and \<open>bs\<close>
  those still ahead.
\<close>

lemma unlink_next:
  assumes "seg m h as zs (Some b)" "as \<noteq> []" "distinct (as @ b # bs)" "mem_ok m"
    and "cells m b = Some (Node y p)" "seg m p bs ws q"
  shows "\<exists>n. cells m (last as) = Some n \<and> node_next n = Some b
    \<and> seg (free b (store (last as) (Node (node_item n) p) m)) h as zs p
    \<and> seg (free b (store (last as) (Node (node_item n) p) m)) p bs ws q
    \<and> mem_ok (free b (store (last as) (Node (node_item n) p) m))"
proof -
  from seg_last_cell [OF assms(1,2)] have c: "cells m (last as) = Some (Node (last zs) (Some b))" .
  let ?m = "store (last as) (Node (last zs) p) m"
  have nin: "b \<notin> set as" "b \<notin> set bs" "last as \<notin> set bs"
    using assms(3) IntI [OF last_in_set [OF assms(2)]] by auto
  have "seg ?m h as zs p" using seg_redirect [OF assms(1,2)] assms(3) by simp
  moreover have "seg ?m p bs ws q" using assms(6) nin by simp
  moreover have "mem_ok ?m" using mem_ok_store [OF assms(4)] c by simp
  ultimately show ?thesis using c nin by (auto intro: mem_ok_free)
qed

lemma sift_loop_seg:
  assumes "seg m h as (None # map Some ks) p" "as \<noteq> []" "seg m p bs (map Some ys) None"
    and "distinct (as @ bs)" "mem_ok m"
  shows "case each visit (filter wanted ys) s of
      Inl e \<Rightarrow> sift_loop wanted visit (last as) m s = Some (Inl e)
    | Inr (_, s') \<Rightarrow> (\<exists>as' m'. sift_loop wanted visit (last as) m s = Some (Inr ((last as', m'), s'))
        \<and> chain m' h as' (None # map Some (ks @ filter (\<lambda>x. \<not> wanted x) ys)) \<and> mem_ok m')"
  using assms
proof (induction ys arbitrary: m as ks p bs s)
  case Nil
  from Nil.prems(3) have "bs = []" "p = None" by (cases bs; auto)+
  with seg_last_cell [OF Nil.prems(1,2)] Nil.prems show ?case
    by (auto simp: sift_loop.simps [of _ _ "last as"] retn_def chain_def)
next
  case (Cons y ys)
  from Cons.prems(3) obtain b bs' p' where b: "bs = b # bs'" "p = Some b"
    "cells m b = Some (Node (Some y) p')" "seg m p' bs' (map Some ys) None"
    by (cases bs) auto
  note pre = Cons.prems(1)[unfolded b(2)]
  from seg_last_cell [OF pre Cons.prems(2)]
  have c: "cells m (last as) = Some (Node (last (None # map Some ks)) (Some b))" .
  show ?case
  proof (cases "wanted y")
    case False
    have "seg m h (as @ [b]) (None # map Some (ks @ [y])) p'"
      unfolding seg_append
      by (intro exI [of _ "None # map Some ks"] exI [of _ "[Some y]"] exI [of _ "Some b"])
        (use pre b in auto)
    from Cons.IH [OF this _ b(4), of s] Cons.prems(4,5) b False c show ?thesis
      by (simp add: sift_loop.simps [of _ _ "last as"] split: sum.splits prod.splits)
  next
    case True
    from unlink_next [OF pre Cons.prems(2) _ Cons.prems(5) b(3,4)] Cons.prems(4) b(1)
    obtain n where n: "cells m (last as) = Some n" "node_next n = Some b"
      and m': "seg (free b (store (last as) (Node (node_item n) p') m)) h as (None # map Some ks) p'"
        "seg (free b (store (last as) (Node (node_item n) p') m)) p' bs' (map Some ys) None"
        "mem_ok (free b (store (last as) (Node (node_item n) p') m))"
      by auto
    have di: "distinct (as @ bs')" using Cons.prems(4) b(1) by simp
    show ?thesis
    proof (cases "visit y s")
      case (Inl e)
      with True n b show ?thesis
        by (simp add: sift_loop.simps [of _ _ "last as"] bnd_def)
    next
      case (Inr w)
      then obtain s1 where v: "visit y s = Inr ((), s1)" by (cases w) auto
      from Cons.IH [OF m'(1) Cons.prems(2) m'(2) di m'(3), of s1] True n b v show ?thesis
        by (simp add: sift_loop.simps [of _ _ "last as"] bnd_def split: sum.splits prod.splits)
    qed
  qed
qed

lemma box_sift_holds:
  assumes "box_holds b xs" and "each visit (filter wanted xs) s = Inr ((), s')"
  shows "\<exists>b'. box_sift wanted visit b s = Some (Inr (b', s'))
    \<and> box_holds b' (filter (\<lambda>x. \<not> wanted x) xs)"
proof (cases "box_head b")
  case None
  with assms show ?thesis by (auto simp: box_sift_def box_holds_def retn_def)
next
  case (Some h)
  with assms(1) obtain ns where ch: "chain (box_mem b) (Some h) ns (None # map Some xs)"
    "mem_ok (box_mem b)" by (auto simp: box_holds_def)
  then obtain ns' p where ns: "ns = h # ns'" "cells (box_mem b) h = Some (Node None p)"
    "seg (box_mem b) p ns' (map Some xs) None" "distinct ns" by (cases ns) (auto simp: chain_def)
  have "seg (box_mem b) (Some h) [h] (None # map Some []) p" using ns by simp
  from sift_loop_seg [OF this _ ns(3) _ ch(2), of wanted visit s] assms(2) ns(1,4) Some
  show ?thesis by (auto simp: box_sift_def box_holds_def)
qed

text \<open>A message that cannot be handled stops the loop with its fault.\<close>

lemma box_sift_fault:
  assumes "box_holds b xs" and "each visit (filter wanted xs) s = Inl e"
  shows "box_sift wanted visit b s = Some (Inl e)"
proof (cases "box_head b")
  case None
  with assms show ?thesis by (auto simp: box_holds_def retn_def)
next
  case (Some h)
  with assms(1) obtain ns where ch: "chain (box_mem b) (Some h) ns (None # map Some xs)"
    "mem_ok (box_mem b)" by (auto simp: box_holds_def)
  then obtain ns' p where ns: "ns = h # ns'" "cells (box_mem b) h = Some (Node None p)"
    "seg (box_mem b) p ns' (map Some xs) None" "distinct ns" by (cases ns) (auto simp: chain_def)
  have "seg (box_mem b) (Some h) [h] (None # map Some []) p" using ns by simp
  from sift_loop_seg [OF this _ ns(3) _ ch(2), of wanted visit s] assms(2) ns(1,4) Some
  show ?thesis by (auto simp: box_sift_def)
qed

lemma box_drain_holds:
  assumes "box_holds b xs" and "each visit xs s = Inr ((), s')"
  shows "\<exists>b'. box_drain visit b s = Some (Inr (b', s')) \<and> box_holds b' []"
proof (cases "box_head b")
  case None
  with assms show ?thesis by (auto simp: box_drain_def box_holds_def retn_def)
next
  case (Some h)
  with assms(1) obtain ns where ch: "chain (box_mem b) (Some h) ns (None # map Some xs)"
    "mem_ok (box_mem b)" by (auto simp: box_holds_def)
  then obtain ns' p where ns: "ns = h # ns'" "cells (box_mem b) h = Some (Node None p)"
    "seg (box_mem b) p ns' (map Some xs) None" "distinct ns" by (cases ns) (auto simp: chain_def)
  have "seg (box_mem b) (Some h) [h] (None # map Some []) p" using ns by simp
  from sift_loop_seg [OF this _ ns(3) _ ch(2), of "\<lambda>_. True" visit s] assms(2) ns(1,4) Some
  show ?thesis by (auto simp: box_drain_def box_holds_def mem_ok_free)
qed

section \<open>The contract of a box\<close>

text \<open>
  What the server and the client rely on: a box takes a message at its end, and hands over the
  wanted ones in order, keeping the others.
\<close>

locale message_box =
  fixes holds :: "'b \<Rightarrow> 'a list \<Rightarrow> bool" and push :: "'a \<Rightarrow> 'b \<Rightarrow> 'b result"
    and sift :: "('a \<Rightarrow> bool) \<Rightarrow> ('a \<Rightarrow> ('s, unit) op) \<Rightarrow> 'b \<Rightarrow> 's \<Rightarrow> ('b \<times> 's) result option"
  assumes push_law: "holds b xs \<Longrightarrow> \<exists>b'. push x b = Inr b' \<and> holds b' (xs @ [x])"
    and sift_law: "holds b xs \<Longrightarrow> each visit (filter wanted xs) s = Inr ((), s') \<Longrightarrow>
      \<exists>b'. sift wanted visit b s = Some (Inr (b', s')) \<and> holds b' (filter (\<lambda>x. \<not> wanted x) xs)"
begin

lemma pushes_hold: "holds b xs \<Longrightarrow> \<exists>b'. rfold push ys b = Inr b' \<and> holds b' (xs @ ys)"
proof (induction ys arbitrary: b xs)
  case Nil
  then show ?case by simp
next
  case (Cons y ys)
  from push_law [OF Cons.prems, of y] obtain b1 where "push y b = Inr b1" "holds b1 (xs @ [y])"
    by blast
  with Cons.IH [of b1 "xs @ [y]"] show ?case by auto
qed

text \<open>Everything pushed and wanted comes out once: a second sift with the same test gives nothing.\<close>

lemma sift_twice:
  assumes "holds b xs" and "each visit (filter wanted xs) s = Inr ((), s')"
  shows "\<exists>b1 b2. sift wanted visit b s = Some (Inr (b1, s'))
    \<and> sift wanted visit b1 t = Some (Inr (b2, t)) \<and> holds b2 (filter (\<lambda>x. \<not> wanted x) xs)"
proof -
  from sift_law [OF assms] obtain b1 where b1: "sift wanted visit b s = Some (Inr (b1, s'))"
    "holds b1 (filter (\<lambda>x. \<not> wanted x) xs)" by blast
  have "filter wanted (filter (\<lambda>x. \<not> wanted x) xs) = []" by simp
  then have "each visit (filter wanted (filter (\<lambda>x. \<not> wanted x) xs)) t = Inr ((), t)"
    by (simp add: retn_def)
  from sift_law [OF b1(2) this] b1(1) show ?thesis by (auto simp: conj_commute)
qed

end

interpretation off_box: message_box box_holds box_push box_sift
  by unfold_locales (auto intro: box_push_holds box_sift_holds)

end
