(* ===== verification/Talk_State.thy ===== *)
theory Talk_State
  imports Talk_Pack Talk_Printf Talk_Text Message_Box Mysql_Rows
begin

text \<open>
  The state of the second chat room's server, \<open>Code/liuting1/chatroom\<close>: the structures of
  \<open>dfi.h\<close>, the globals of \<open>server_deal.c\<close> and \<open>MYSQL.c\<close>, and what the server relies on outside.
\<close>

section \<open>Structures\<close>

text \<open>\<open>fri\<close>, \<open>STR\<close> (\<open>STR_C\<close> here), \<open>GROUP\<close> and \<open>STR_G\<close>: arrays of 50 or 100 entries, the names of 100 bytes.\<close>

record fri =
  fri_account :: "int arr"
  fri_name :: "string arr"
  fri_online :: "int arr"
  fri_len :: int

record STR_C =
  str_account :: "int arr"
  str_send_account :: "int arr"
  str_mes :: "string arr"
  str_len :: int

record GROUP =
  gr_account :: "int arr"
  gr_name :: "string arr"
  gr_online :: "int arr"
  gr_cli_fd :: "int arr"
  gr_flag :: "int arr"
  gr_len :: int

record STR_G =
  sg_usr_account :: "int arr"
  sg_use_name :: "string arr"
  sg_mes :: "string arr"
  sg_len :: int

text \<open>A row of \<open>g[100]\<close>: the members of the group that an account chats in, by account number.\<close>

record g_row =
  g_group_account :: int
  g_use_account :: "int arr"
  g_use_name :: "string arr"
  g_use_online :: "int arr"
  g_use_fd :: "int arr"
  g_len :: int

text \<open>A message kept for a friend who is off line.\<close>

record OFF =
  off_mes :: string
  off_account :: int
  off_send_name :: string
  off_send_account :: int
  off_type :: int
  off_mes2 :: string

section \<open>The server and what it relies on\<close>

text \<open>
  MySQL answers a query with a failure, with success without a result set, or with rows.
\<close>

datatype answer = Failed | Done | Rows "row list"

text \<open>
  \<open>exec\<close> is MySQL: what it answers, and the next contents of the database, given whether the
  handle is connected, the contents and the query. The others give the indeterminate values the
  code reads, at the n-th such reading: what a local variable or a heap block holds before it is
  written, and what is left of the dead array that \<open>MYSQL_group_name\<close> returns a pointer to.
\<close>

record 'db talk_env =
  exec :: "bool \<Rightarrow> 'db \<Rightarrow> string \<Rightarrow> answer \<times> 'db"
  stack_pack :: "nat \<Rightarrow> PACK"
  stack_fri :: "nat \<Rightarrow> fri"
  stack_str :: "nat \<Rightarrow> STR_C"
  stack_group :: "nat \<Rightarrow> GROUP"
  stack_strg :: "nat \<Rightarrow> STR_G"
  stack_int :: "nat \<Rightarrow> int"
  heap_off :: "nat \<Rightarrow> OFF"
  dead_name :: "nat \<Rightarrow> string"

text \<open>
  \<open>t_open\<close>: the handle \<open>mysql\<close> is connected. \<open>t_result\<close>: the global \<open>result\<close> is NULL (\<open>None\<close>), holds
  a result set (\<open>Some True\<close>) or one that was freed. \<open>t_fd\<close> is the static \<open>cli_fd\<close>; \<open>t_sent\<close> has the
  packets handed to \<open>send\<close> with the descriptor, in order; \<open>t_queries\<close> the queries made;
  \<open>t_watched\<close> the descriptors in the epoll set; \<open>t_wire\<close> the byte runs of each connection that have
  arrived and were not yet taken.
\<close>

record 'db talk =
  t_db :: 'db
  t_open :: bool
  t_result :: "bool option"
  t_queries :: "string list"
  t_tick :: nat
  t_fd :: int
  t_g :: "g_row arr"
  t_box :: "OFF box"
  t_group_account :: int
  t_group_name :: string
  t_file_account :: int
  t_file_fri :: fri
  t_sent :: "(int \<times> PACK) list"
  t_watched :: "int list"
  t_closed :: "int list"
  t_wire :: "int \<Rightarrow> string list"

definition fresh :: "(nat \<Rightarrow> 'a) \<Rightarrow> ('db talk, 'a) op" where
  "fresh f s = Inr (f (t_tick s), s\<lparr>t_tick := Suc (t_tick s)\<rparr>)"

text \<open>The globals before \<open>main\<close>: all zero.\<close>

definition zero_row :: g_row where
  "zero_row = \<lparr>g_group_account = 0, g_use_account = (\<lambda>_. 0),
     g_use_name = (\<lambda>_. replicate 100 (CHR 0x00)), g_use_online = (\<lambda>_. 0), g_use_fd = (\<lambda>_. 0),
     g_len = 0\<rparr>"

definition zero_fri :: fri where
  "zero_fri = \<lparr>fri_account = (\<lambda>_. 0), fri_name = (\<lambda>_. replicate 100 (CHR 0x00)),
     fri_online = (\<lambda>_. 0), fri_len = 0\<rparr>"

definition talk_start :: "'db \<Rightarrow> 'db talk" where
  "talk_start db = \<lparr>t_db = db, t_open = False, t_result = None, t_queries = [], t_tick = 0,
     t_fd = 0, t_g = (\<lambda>_. zero_row), t_box = empty_box, t_group_account = 0,
     t_group_name = replicate 100 (CHR 0x00), t_file_account = 0, t_file_fri = zero_fri,
     t_sent = [], t_watched = [], t_closed = [], t_wire = (\<lambda>_. [])\<rparr>"

section \<open>Strings compared\<close>

text \<open>
  \<open>strcmp\<close> of a \<open>char\<close> array with a terminated string, as a test for equality: it leaves the
  array only when the array has no NUL and is the beginning of the string.
\<close>

definition str_eq :: "string \<Rightarrow> string \<Rightarrow> bool result" where
  "str_eq b t = (if CHR 0x00 \<notin> set b \<and> prefix b t then Inl Out_Of_Bounds
     else Inr (takeWhile (\<lambda>c. c \<noteq> CHR 0x00) b = t))"

lemma str_eq_cstr: "cstr b = Inr u \<Longrightarrow> str_eq b t = Inr (u = t)"
  by (auto simp: cstr_def str_eq_def split: if_splits)

section \<open>Loops over rows\<close>

text \<open>The loops over result rows count them in \<open>i\<close>.\<close>

fun number_rows :: "(row \<Rightarrow> int \<Rightarrow> 'a \<Rightarrow> 'a result) \<Rightarrow> row list \<Rightarrow> int \<Rightarrow> 'a \<Rightarrow> (int \<times> 'a) result" where
  "number_rows f [] i x = Inr (i, x)"
| "number_rows f (r # rs) i x = rbind (f r i x) (number_rows f rs (i + 1))"

lemma number_rows_count:
  "number_rows f rs i x = Inr (j, y) \<Longrightarrow> j = i + int (length rs)"
  by (induction rs arbitrary: i x) (fastforce simp: rbind_eq_Inr)+

end
