(* ===== verification/Talk_Sql.thy ===== *)
theory Talk_Sql
  imports Talk_State
begin

text \<open>
  \<open>Code/liuting1/chatroom/MYSQL.c\<close>, function by function: the queries on the accounts, the
  friends, the groups and the stored messages, built by \<open>sprintf\<close> into arrays of 1000 bytes.
\<close>

section \<open>The handle\<close>

definition MYSQL_init :: "('db talk, unit) op" where
  "MYSQL_init = setting (\<lambda>s. s\<lparr>t_open := True\<rparr>)"

definition mysql_close :: "('db talk, unit) op" where
  "mysql_close = setting (\<lambda>s. s\<lparr>t_open := False\<rparr>)"

definition run_query :: "'db talk_env \<Rightarrow> string \<Rightarrow> ('db talk, answer) op" where
  "run_query env q s =
     (case exec env (t_open s) (t_db s) q of
        (a, db) \<Rightarrow> Inr (a, s\<lparr>t_db := db, t_queries := t_queries s @ [q]\<rparr>))"

text \<open>\<open>sprintf(buff, ...)\<close> with an argument for every conversion, then \<open>mysql_query\<close>.\<close>

definition sql :: "'db talk_env \<Rightarrow> string \<Rightarrow> farg list \<Rightarrow> ('db talk, answer) op" where
  "sql env fmt args = bnd (lifted (sprintf_to 1000 0 fmt args)) (run_query env)"

text \<open>
  \<open>mysql_store_result\<close>, followed everywhere by \<open>mysql_fetch_row\<close>: a query without a result set
  gives NULL, which is followed.
\<close>

definition mysql_store_result :: "answer \<Rightarrow> ('db talk, row list) op" where
  "mysql_store_result a =
     (case a of
        Rows rs \<Rightarrow> bnd (setting (\<lambda>s. s\<lparr>t_result := Some True\<rparr>)) (\<lambda>_. retn rs)
      | _ \<Rightarrow> lifted (Inl Null_Deref))"

definition mysql_free_result :: "('db talk, unit) op" where
  "mysql_free_result s =
     (case t_result s of
        None \<Rightarrow> Inr ((), s)
      | Some live \<Rightarrow> if live then Inr ((), s\<lparr>t_result := Some False\<rparr>) else Inl Use_After_Free)"

text \<open>The rows of a query, none when it failed.\<close>

definition fetch_all :: "answer \<Rightarrow> ('db talk, row list) op" where
  "fetch_all a = (if a = Failed then retn [] else mysql_store_result a)"

definition MYSQL_main_init :: "'db talk_env \<Rightarrow> ('db talk, unit) op" where
  "MYSQL_main_init env =
     bnd MYSQL_init (\<lambda>_.
     bnd (sql env ''update user set online = 0'' []) (\<lambda>_. mysql_close))"

section \<open>Accounts\<close>

fun login_rows :: "'db talk_env \<Rightarrow> int \<Rightarrow> string \<Rightarrow> int \<Rightarrow> row list \<Rightarrow> ('db talk, int) op" where
  "login_rows env account passwd fd [] = retn (- 1)"
| "login_rows env account passwd fd (r # rs) =
     bnd (lifted (column r 2)) (\<lambda>c.
     bnd (lifted (str_eq passwd c)) (\<lambda>same.
       if same then
         bnd (sql env ''update user set online = 1 ,sock_fd = %d where id = %d'' [D fd, D account]) (\<lambda>_.
         bnd mysql_free_result (\<lambda>_.
         bnd mysql_close (\<lambda>_. retn 0)))
       else login_rows env account passwd fd rs))"

definition MYSQL_login :: "'db talk_env \<Rightarrow> int \<Rightarrow> string \<Rightarrow> int \<Rightarrow> ('db talk, int) op" where
  "MYSQL_login env account passwd fd =
     bnd (sql env ''select *from user where id = %d '' [D account]) (\<lambda>a.
     bnd (fetch_all a) (\<lambda>rs. login_rows env account passwd fd rs))"

text \<open>The function ends without a \<open>return\<close> when the number of the new account cannot be read.\<close>

definition MYSQL_regist :: "'db talk_env \<Rightarrow> string \<Rightarrow> string \<Rightarrow> ('db talk, int) op" where
  "MYSQL_regist env mes mes2 =
     bnd (lifted (cstr mes)) (\<lambda>user.
     bnd (lifted (cstr mes2)) (\<lambda>passwd.
     bnd (sql env ''insert into user (name,passwd)values (\"%s\",\"%s\")'' [S user, S passwd]) (\<lambda>a.
       if a = Failed then bnd mysql_close (\<lambda>_. retn (- 1))
       else
         bnd (sql env ''select LAST_INSERT_ID()'' []) (\<lambda>a2.
         bnd (fetch_all a2) (\<lambda>rs.
           case rs of
             [] \<Rightarrow> fresh (stack_int env)
           | r # _ \<Rightarrow>
               bnd (lifted (int_column r 0)) (\<lambda>new_id. bnd mysql_close (\<lambda>_. retn new_id)))))))"

fun repass_rows :: "'db talk_env \<Rightarrow> int \<Rightarrow> string \<Rightarrow> string \<Rightarrow> row list \<Rightarrow> ('db talk, int) op" where
  "repass_rows env account old new [] = retn (- 1)"
| "repass_rows env account old new (r # rs) =
     bnd (lifted (column r 2)) (\<lambda>c.
     bnd (lifted (str_eq old c)) (\<lambda>same.
       if same then
         bnd (lifted (cstr new)) (\<lambda>passwd.
         bnd (sql env ''update user set passwd = '%s' where id = %d'' [S passwd, D account]) (\<lambda>_.
         bnd mysql_free_result (\<lambda>_.
         bnd mysql_close (\<lambda>_. retn 0))))
       else repass_rows env account old new rs))"

definition MYSQL_repass :: "'db talk_env \<Rightarrow> int \<Rightarrow> string \<Rightarrow> string \<Rightarrow> ('db talk, int) op" where
  "MYSQL_repass env account old_passwd new_passwd =
     bnd (sql env ''select *from user where id = %d '' [D account]) (\<lambda>a.
     bnd (fetch_all a) (\<lambda>rs. repass_rows env account old_passwd new_passwd rs))"

definition MYSQL_exit :: "'db talk_env \<Rightarrow> int \<Rightarrow> ('db talk, unit) op" where
  "MYSQL_exit env account =
     bnd (sql env ''update user set online = %d  where id = %d'' [D 0, D account]) (\<lambda>_. retn ())"

section \<open>Friends\<close>

text \<open>When the query fails, \<open>result\<close> is still that of an earlier query.\<close>

definition MYSQL_find_frirela :: "'db talk_env \<Rightarrow> int \<Rightarrow> int \<Rightarrow> ('db talk, int) op" where
  "MYSQL_find_frirela env id1 id2 =
     bnd MYSQL_init (\<lambda>_.
     bnd (sql env ''select * from friends where id1 = %d and id2 = %d'' [D id1, D id2]) (\<lambda>a.
     bnd (fetch_all a) (\<lambda>rs.
     bnd mysql_free_result (\<lambda>_.
     bnd mysql_close (\<lambda>_. retn (if rs = [] then - 1 else 0))))))"

definition MYSQL_find_fd :: "'db talk_env \<Rightarrow> int \<Rightarrow> ('db talk, fri) op" where
  "MYSQL_find_fd env account =
     bnd MYSQL_init (\<lambda>_.
     bnd (fresh (stack_fri env)) (\<lambda>f.
     bnd (sql env ''select * from user where id = %d'' [D account]) (\<lambda>a.
     bnd (if a = Failed then retn f
          else bnd (mysql_store_result a) (\<lambda>rs.
            case rs of
              [] \<Rightarrow> retn (f\<lparr>fri_account := (fri_account f)(0 := - 1)\<rparr>)
            | r # _ \<Rightarrow>
                bnd (lifted (int_column r 4)) (\<lambda>fd.
                bnd (lifted (int_column r 3)) (\<lambda>on.
                bnd (lifted (column r 1)) (\<lambda>c.
                bnd (lifted (put_str 100 c (fri_name f 0))) (\<lambda>b.
                  retn (f\<lparr>fri_account := (fri_account f)(0 := fd),
                          fri_online := (fri_online f)(0 := on),
                          fri_name := (fri_name f)(0 := b)\<rparr>))))))) (\<lambda>f'.
     bnd mysql_free_result (\<lambda>_.
     bnd mysql_close (\<lambda>_. retn f'))))))"

definition MYSQL_find_fd_user :: "'db talk_env \<Rightarrow> int \<Rightarrow> ('db talk, int) op" where
  "MYSQL_find_fd_user env account =
     bnd MYSQL_init (\<lambda>_.
     bnd (sql env ''select * from user where id = %d'' [D account]) (\<lambda>a.
     bnd (fetch_all a) (\<lambda>rs.
     bnd (case rs of [] \<Rightarrow> fresh (stack_int env) | r # _ \<Rightarrow> lifted (int_column r 4)) (\<lambda>f.
     bnd mysql_free_result (\<lambda>_.
     bnd mysql_close (\<lambda>_. retn f))))))"

definition MYSQL_addfriend_store :: "'db talk_env \<Rightarrow> int \<Rightarrow> int \<Rightarrow> ('db talk, int) op" where
  "MYSQL_addfriend_store env account send_account =
     bnd MYSQL_init (\<lambda>_.
     bnd (sql env ''insert into friends (id1,id2)values (%d,%d)'' [D account, D send_account]) (\<lambda>a.
       if a = Failed then bnd mysql_close (\<lambda>_. retn (- 1))
       else
         bnd (sql env ''insert into friends (id1,id2)values (%d,%d)'' [D send_account, D account]) (\<lambda>a2.
         bnd mysql_close (\<lambda>_. retn (if a2 = Failed then - 1 else 0)))))"

text \<open>The accounts in column 1, ended with -1; shared by the two lists of friends.\<close>

definition fri_of_row :: "row \<Rightarrow> int \<Rightarrow> fri \<Rightarrow> fri result" where
  "fri_of_row r i p =
     rbind (int_column r 1) (\<lambda>a.
     rbind (wr 50 (fri_account p) i a) (\<lambda>arr. Inr (p\<lparr>fri_account := arr\<rparr>)))"

definition fri_accounts :: "row list \<Rightarrow> fri \<Rightarrow> fri result" where
  "fri_accounts rs p =
     rbind (number_rows fri_of_row rs 0 p) (\<lambda>(i, p1).
     rbind (wr 50 (fri_account p1) i (- 1)) (\<lambda>arr. Inr (p1\<lparr>fri_len := i, fri_account := arr\<rparr>)))"

definition fri_set_name :: "int \<Rightarrow> row \<Rightarrow> fri \<Rightarrow> fri result" where
  "fri_set_name i r p =
     rbind (column r 1) (\<lambda>c.
     rbind (rd 50 (fri_name p) i) (\<lambda>old.
     rbind (put_str 100 c old) (\<lambda>b. Inr (p\<lparr>fri_name := (fri_name p)(i := b)\<rparr>))))"

definition list_fri_name :: "'db talk_env \<Rightarrow> int \<Rightarrow> fri \<Rightarrow> ('db talk, fri) op" where
  "list_fri_name env i p =
     bnd (lifted (rd 50 (fri_account p) i)) (\<lambda>acc.
     bnd (sql env ''select * from user where id = %d'' [D acc]) (\<lambda>a.
     bnd (fetch_all a) (\<lambda>rs. lifted (rfold (fri_set_name i) rs p))))"

definition MYSQL_list_fri :: "'db talk_env \<Rightarrow> int \<Rightarrow> ('db talk, fri) op" where
  "MYSQL_list_fri env account =
     bnd MYSQL_init (\<lambda>_.
     bnd (fresh (stack_fri env)) (\<lambda>p.
     bnd (sql env ''select * from friends where id1 = %d'' [D account]) (\<lambda>a.
     bnd (fetch_all a) (\<lambda>rs.
     bnd (lifted (fri_accounts rs p)) (\<lambda>p1.
     bnd (fold_op (list_fri_name env) [0..fri_len p1 - 1] p1) (\<lambda>p2.
     bnd mysql_close (\<lambda>_. retn p2)))))))"

text \<open>A friend who is off line, or not found, gets account 0.\<close>

definition online_fri_name :: "'db talk_env \<Rightarrow> int \<Rightarrow> fri \<Rightarrow> ('db talk, fri) op" where
  "online_fri_name env i p =
     bnd (lifted (rd 50 (fri_account p) i)) (\<lambda>acc.
     bnd (sql env ''select * from user where id = %d and online = 1'' [D acc]) (\<lambda>a.
       if a = Failed then retn p
       else bnd (mysql_store_result a) (\<lambda>rs.
         case rs of
           [] \<Rightarrow> retn (p\<lparr>fri_account := (fri_account p)(i := 0)\<rparr>)
         | r # _ \<Rightarrow> lifted (fri_set_name i r p))))"

definition MYSQL_online_fri :: "'db talk_env \<Rightarrow> int \<Rightarrow> ('db talk, fri) op" where
  "MYSQL_online_fri env account =
     bnd MYSQL_init (\<lambda>_.
     bnd (fresh (stack_fri env)) (\<lambda>p.
     bnd (sql env ''select * from friends where id1 = %d'' [D account]) (\<lambda>a.
     bnd (fetch_all a) (\<lambda>rs.
     bnd (lifted (fri_accounts rs p)) (\<lambda>p1.
     bnd (fold_op (online_fri_name env) [0..fri_len p1 - 1] p1) (\<lambda>p2.
     bnd mysql_close (\<lambda>_. retn p2)))))))"

definition MYSQL_store_chat :: "'db talk_env \<Rightarrow> int \<Rightarrow> int \<Rightarrow> string \<Rightarrow> ('db talk, int) op" where
  "MYSQL_store_chat env account send_account mes =
     bnd MYSQL_init (\<lambda>_.
     bnd (lifted (cstr mes)) (\<lambda>text.
     bnd (sql env ''insert into chat_fri (id1,id2,mes)values (%d,%d,'%s')''
       [D account, D send_account, S text]) (\<lambda>a.
     bnd mysql_close (\<lambda>_. retn (if a = Failed then - 1 else 0)))))"

definition chat_of_row :: "row \<Rightarrow> int \<Rightarrow> STR_C \<Rightarrow> STR_C result" where
  "chat_of_row r i p =
     rbind (int_column r 0) (\<lambda>a.
     rbind (wr 100 (str_account p) i a) (\<lambda>acc.
     rbind (int_column r 1) (\<lambda>b.
     rbind (wr 100 (str_send_account p) i b) (\<lambda>snd_acc.
     rbind (column r 2) (\<lambda>c.
     rbind (put_str 1000 c (str_mes p i)) (\<lambda>m.
       Inr (p\<lparr>str_account := acc, str_send_account := snd_acc,
              str_mes := (str_mes p)(i := m)\<rparr>)))))))"

definition MYSQL_find_chat :: "'db talk_env \<Rightarrow> int \<Rightarrow> int \<Rightarrow> ('db talk, STR_C) op" where
  "MYSQL_find_chat env account send_account =
     bnd (fresh (stack_str env)) (\<lambda>p.
     bnd (sql env ''select * from chat_fri where (id1 = %d and id2 = %d) or (id1 =%d and id2 = %d)''
       [D account, D send_account, D send_account, D account]) (\<lambda>a.
     bnd (fetch_all a) (\<lambda>rs.
     bnd (lifted (number_rows chat_of_row rs 0 p)) (\<lambda>(i, p1).
     bnd (lifted (wr 100 (str_account p1) i (- 1))) (\<lambda>acc.
       retn (p1\<lparr>str_len := (if a = Failed then str_len p1 else i), str_account := acc\<rparr>))))))"

definition MYSQL_dele_fri :: "'db talk_env \<Rightarrow> int \<Rightarrow> int \<Rightarrow> ('db talk, int) op" where
  "MYSQL_dele_fri env account send_account =
     bnd (sql env ''delete from friends where (id1 = %d and id2 = %d) or (id1 =%d and id2 = %d)''
       [D account, D send_account, D send_account, D account]) (\<lambda>_. retn 0)"

section \<open>Groups\<close>

definition MYSQL_creat_group :: "'db talk_env \<Rightarrow> int \<Rightarrow> string \<Rightarrow> ('db talk, int) op" where
  "MYSQL_creat_group env account mes =
     bnd (lifted (cstr mes)) (\<lambda>title.
     bnd (sql env ''insert into groups (account, group_name)values (%d,'%s')'' [D account, S title]) (\<lambda>a.
       if a = Failed then bnd mysql_close (\<lambda>_. retn (- 1))
       else
         bnd (sql env ''select LAST_INSERT_ID()'' []) (\<lambda>a2.
         bnd (fetch_all a2) (\<lambda>rs.
           case rs of
             [] \<Rightarrow> fresh (stack_int env)
           | r # _ \<Rightarrow>
               bnd (lifted (int_column r 0)) (\<lambda>new_id.
               bnd (sql env ''insert into g_meber (group_id, group_member,member_flag)values (%d,%d,1)''
                 [D new_id, D account]) (\<lambda>_.
               bnd mysql_close (\<lambda>_. retn new_id)))))))"

text \<open>The three searches that only ask whether a row exists.\<close>

definition row_exists :: "'db talk_env \<Rightarrow> string \<Rightarrow> farg list \<Rightarrow> ('db talk, int) op" where
  "row_exists env fmt args =
     bnd MYSQL_init (\<lambda>_.
     bnd (sql env fmt args) (\<lambda>a.
     bnd (fetch_all a) (\<lambda>rs.
     bnd mysql_close (\<lambda>_. retn (if rs = [] then - 1 else 0)))))"

definition MYSQL_find_group_member :: "'db talk_env \<Rightarrow> int \<Rightarrow> int \<Rightarrow> ('db talk, int) op" where
  "MYSQL_find_group_member env account group_account =
     row_exists env ''select * from g_meber  where group_member = %d and group_id = %d''
       [D account, D group_account]"

definition MYSQL_find_group :: "'db talk_env \<Rightarrow> int \<Rightarrow> ('db talk, int) op" where
  "MYSQL_find_group env group_account =
     row_exists env ''select * from groups  where id = %d'' [D group_account]"

definition MYSQL_find_gowner :: "'db talk_env \<Rightarrow> int \<Rightarrow> int \<Rightarrow> ('db talk, int) op" where
  "MYSQL_find_gowner env account gid =
     row_exists env ''select * from groups  where id = %d and account = %d'' [D gid, D account]"

definition MYSQL_find_group_vip :: "'db talk_env \<Rightarrow> int \<Rightarrow> int \<Rightarrow> ('db talk, int) op" where
  "MYSQL_find_group_vip env account group_id =
     row_exists env
       ''select * from g_meber  where group_member = %d and group_id = %d and (member_flag != 0)''
       [D account, D group_id]"

definition MYSQL_join_group :: "'db talk_env \<Rightarrow> int \<Rightarrow> int \<Rightarrow> ('db talk, int) op" where
  "MYSQL_join_group env account group_id =
     bnd MYSQL_init (\<lambda>_.
     bnd (sql env ''insert into g_meber (group_id,group_member,member_flag )values (%d,%d,0)''
       [D group_id, D account]) (\<lambda>a.
     bnd mysql_close (\<lambda>_. retn (if a = Failed then - 1 else 0))))"

definition MYSQL_quit_group :: "'db talk_env \<Rightarrow> int \<Rightarrow> int \<Rightarrow> ('db talk, int) op" where
  "MYSQL_quit_group env account group_id =
     bnd MYSQL_init (\<lambda>_.
     bnd (sql env ''delete from g_meber where group_id = %d and group_member = %d''
       [D group_id, D account]) (\<lambda>a.
     bnd mysql_close (\<lambda>_. retn (if a = Failed then - 1 else 0))))"

definition MYSQL_dele_group :: "'db talk_env \<Rightarrow> int \<Rightarrow> ('db talk, int) op" where
  "MYSQL_dele_group env group_id =
     bnd MYSQL_init (\<lambda>_.
     bnd (sql env ''delete from g_meber where group_id = %d'' [D group_id]) (\<lambda>a.
     bnd (if a = Failed then retn (- 1)
          else bnd (sql env ''delete from groups where id = %d'' [D group_id]) (\<lambda>a2.
            retn (if a2 = Failed then - 1 else 0))) (\<lambda>ret.
     bnd mysql_close (\<lambda>_. retn ret))))"

text \<open>\<open>MYSQL_group_name\<close> returns the literal \<open>"fail"\<close> or a pointer to its own local array.\<close>

datatype name_ptr = Literal_fail | Dead_array

definition MYSQL_group_name :: "'db talk_env \<Rightarrow> int \<Rightarrow> ('db talk, name_ptr) op" where
  "MYSQL_group_name env gid =
     bnd MYSQL_init (\<lambda>_.
     bnd (sql env ''select * from groups where id = %d '' [D gid]) (\<lambda>a.
     bnd (fetch_all a) (\<lambda>rs.
       case rs of
         [] \<Rightarrow> bnd mysql_close (\<lambda>_. retn Literal_fail)
       | r # _ \<Rightarrow>
           bnd (lifted (column r 2)) (\<lambda>c.
           bnd (lifted (put_str 100 c (replicate 100 (CHR 0x00)))) (\<lambda>_. retn Dead_array)))))"

text \<open>Reading the string behind the pointer, each time it is read.\<close>

definition read_name :: "'db talk_env \<Rightarrow> name_ptr \<Rightarrow> ('db talk, string) op" where
  "read_name env p =
     (case p of
        Literal_fail \<Rightarrow> retn ''fail''
      | Dead_array \<Rightarrow> bnd (fresh (dead_name env)) (\<lambda>b. lifted (cstr b)))"

definition member_of_row :: "row \<Rightarrow> int \<Rightarrow> GROUP \<Rightarrow> GROUP result" where
  "member_of_row r i p =
     rbind (int_column r 1) (\<lambda>a.
     rbind (wr 50 (gr_account p) i a) (\<lambda>acc.
     rbind (int_column r 2) (\<lambda>b.
     rbind (wr 50 (gr_flag p) i b) (\<lambda>fl. Inr (p\<lparr>gr_account := acc, gr_flag := fl\<rparr>)))))"

definition MYSQL_group_mes :: "'db talk_env \<Rightarrow> int \<Rightarrow> ('db talk, GROUP) op" where
  "MYSQL_group_mes env group_id =
     bnd MYSQL_init (\<lambda>_.
     bnd (fresh (stack_group env)) (\<lambda>p.
     bnd (sql env ''select * from g_meber where group_id = %d'' [D group_id]) (\<lambda>a.
     bnd (fetch_all a) (\<lambda>rs.
     bnd (lifted (number_rows member_of_row rs 0 p)) (\<lambda>(i, p1).
     bnd (lifted (wr 50 (gr_account p1) i (- 1))) (\<lambda>acc.
       retn (p1\<lparr>gr_len := i, gr_account := acc\<rparr>)))))))"

definition user_of_group_row :: "int \<Rightarrow> row \<Rightarrow> GROUP \<Rightarrow> GROUP result" where
  "user_of_group_row i r p =
     rbind (column r 1) (\<lambda>c.
     rbind (rd 50 (gr_name p) i) (\<lambda>old.
     rbind (put_str 100 c old) (\<lambda>b.
     rbind (int_column r 3) (\<lambda>on.
     rbind (int_column r 4) (\<lambda>fd.
       Inr (p\<lparr>gr_name := (gr_name p)(i := b), gr_online := (gr_online p)(i := on),
              gr_cli_fd := (gr_cli_fd p)(i := fd)\<rparr>))))))"

definition find_user_at :: "'db talk_env \<Rightarrow> int \<Rightarrow> GROUP \<Rightarrow> ('db talk, GROUP) op" where
  "find_user_at env i p =
     bnd (lifted (rd 50 (gr_account p) i)) (\<lambda>acc.
     bnd (sql env ''select * from user where id = %d'' [D acc]) (\<lambda>a.
     bnd (fetch_all a) (\<lambda>rs. lifted (rfold (user_of_group_row i) rs p))))"

definition MYSQL_find_user :: "'db talk_env \<Rightarrow> GROUP \<Rightarrow> ('db talk, GROUP) op" where
  "MYSQL_find_user env p =
     bnd (fold_op (find_user_at env) [0..gr_len p - 1] p) (\<lambda>p1.
     bnd mysql_close (\<lambda>_. retn p1))"

definition MYSQL_store_group :: "'db talk_env \<Rightarrow> int \<Rightarrow> int \<Rightarrow> string \<Rightarrow> ('db talk, int) op" where
  "MYSQL_store_group env group_id group_member mes =
     bnd MYSQL_init (\<lambda>_.
     bnd (lifted (cstr mes)) (\<lambda>text.
     bnd (sql env ''insert into chat_group (group_id,group_member,mes)values (%d,%d,'%s')''
       [D group_id, D group_member, S text]) (\<lambda>a.
     bnd mysql_close (\<lambda>_. retn (if a = Failed then - 1 else 0)))))"

definition group_chat_of_row :: "row \<Rightarrow> int \<Rightarrow> STR_G \<Rightarrow> STR_G result" where
  "group_chat_of_row r i p =
     rbind (int_column r 0) (\<lambda>a.
     rbind (wr 100 (sg_usr_account p) i a) (\<lambda>acc.
     rbind (column r 2) (\<lambda>c.
     rbind (put_str 1000 c (sg_mes p i)) (\<lambda>m.
       Inr (p\<lparr>sg_usr_account := acc, sg_mes := (sg_mes p)(i := m)\<rparr>)))))"

text \<open>The format has a \<open>%d\<close> and no argument.\<close>

definition MYSQL_find_chat_group :: "'db talk_env \<Rightarrow> int \<Rightarrow> ('db talk, STR_G) op" where
  "MYSQL_find_chat_group env account =
     bnd (fresh (stack_strg env)) (\<lambda>p.
     bnd (fresh (stack_int env)) (\<lambda>register.
     bnd (lifted (sprintf_to 1000 register ''select * from chat_group where group_member = %d'' [])) (\<lambda>q.
     bnd (run_query env q) (\<lambda>a.
     bnd (fetch_all a) (\<lambda>rs.
     bnd (lifted (number_rows group_chat_of_row rs 0 p)) (\<lambda>(i, p1).
     bnd (lifted (wr 100 (sg_usr_account p1) i (- 1))) (\<lambda>acc.
       retn (p1\<lparr>sg_len := (if a = Failed then sg_len p1 else i), sg_usr_account := acc\<rparr>))))))))"

definition MYSQL_set_up :: "'db talk_env \<Rightarrow> int \<Rightarrow> int \<Rightarrow> ('db talk, int) op" where
  "MYSQL_set_up env group_id set_account =
     bnd MYSQL_init (\<lambda>_.
     bnd (sql env ''update g_meber set member_flag = 2 where group_id = %d and group_member = %d''
       [D group_id, D set_account]) (\<lambda>_. retn 0))"

end
