(* ===== verification/Talk_Server.thy ===== *)
theory Talk_Server
  imports Talk_Sql
begin

text \<open>
  \<open>Code/liuting1/chatroom/server_deal.c\<close> and the loop of \<open>server_init.c\<close>: one handler for each
  request, the box of messages for friends who are off line, the dispatcher, and the loop over
  the events of \<open>epoll_wait\<close>.
\<close>

section \<open>Sending\<close>

definition send_PACK :: "PACK \<Rightarrow> ('db talk, unit) op" where
  "send_PACK p = setting (\<lambda>s. s\<lparr>t_sent := t_sent s @ [(t_fd s, p)]\<rparr>)"

definition send_other_PACK :: "PACK \<Rightarrow> int \<Rightarrow> ('db talk, unit) op" where
  "send_other_PACK p fd = setting (\<lambda>s. s\<lparr>t_sent := t_sent s @ [(fd, p)]\<rparr>)"

definition new_pack :: "'db talk_env \<Rightarrow> ('db talk, PACK) op" where
  "new_pack env = fresh (stack_pack env)"

text \<open>\<open>strcpy(pack.mes, text)\<close> and then \<open>send\<close> to the client that asked.\<close>

definition answer_with :: "string \<Rightarrow> PACK \<Rightarrow> ('db talk, unit) op" where
  "answer_with t p = bnd (lifted (set_mes t p)) send_PACK"

section \<open>Messages for friends who are off line\<close>

definition push_off :: "OFF \<Rightarrow> ('db talk, unit) op" where
  "push_off x s = rbind (box_push x (t_box s)) (\<lambda>b. Inr ((), s\<lparr>t_box := b\<rparr>))"

definition deal_group_off :: "'db talk_env \<Rightarrow> PACK \<Rightarrow> ('db talk, unit) op" where
  "deal_group_off env pack =
     bnd (fresh (heap_off env)) (\<lambda>x.
     bnd (lifted (cstr (p_mes pack))) (\<lambda>t.
     bnd (lifted (put_str 1000 t (off_mes x))) (\<lambda>m.
     bnd (lifted (cstr (p_mes2 pack))) (\<lambda>t2.
     bnd (lifted (put_str 1000 t2 (off_mes2 x))) (\<lambda>m2.
     bnd (lifted (cstr (p_send_name pack))) (\<lambda>n.
     bnd (lifted (put_str 100 n (off_send_name x))) (\<lambda>nm.
       push_off (x\<lparr>off_mes := m, off_mes2 := m2, off_account := p_account pack,
         off_send_name := nm, off_send_account := p_send_account pack, off_type := p_type pack\<rparr>))))))))"

text \<open>Here \<open>mes2\<close> and \<open>send_name\<close> of the new node are not written.\<close>

definition deal_fri_off :: "'db talk_env \<Rightarrow> PACK \<Rightarrow> ('db talk, unit) op" where
  "deal_fri_off env pack =
     bnd (fresh (heap_off env)) (\<lambda>x.
     bnd (lifted (cstr (p_mes pack))) (\<lambda>t.
     bnd (lifted (put_str 1000 t (off_mes x))) (\<lambda>m.
       push_off (x\<lparr>off_mes := m, off_account := p_account pack,
         off_send_account := p_send_account pack, off_type := p_type pack\<rparr>))))"

text \<open>The packet \<open>pro_off\<close> makes of a message.\<close>

definition deliver_off :: "'db talk_env \<Rightarrow> int \<Rightarrow> OFF \<Rightarrow> ('db talk, unit) op" where
  "deliver_off env fd x =
     bnd (new_pack env) (\<lambda>p.
     bnd (lifted (cstr (off_mes x))) (\<lambda>t.
     bnd (lifted (set_mes t p)) (\<lambda>p1.
     bnd (lifted (cstr (off_mes2 x))) (\<lambda>t2.
     bnd (lifted (set_mes2 t2 (p1\<lparr>p_type := off_type x, p_account := off_account x,
       p_send_account := off_send_account x\<rparr>))) (\<lambda>p2.
     bnd (lifted (cstr (off_send_name x))) (\<lambda>n.
     bnd (lifted (set_name n p2)) (\<lambda>p3. send_other_PACK p3 fd)))))))"

definition pro_off :: "'db talk_env \<Rightarrow> int \<Rightarrow> int \<Rightarrow> ('db talk, unit) op" where
  "pro_off env send_account send_cli_fd s =
     rbind (returning (box_sift (\<lambda>x. off_send_account x = send_account)
       (deliver_off env send_cli_fd) (t_box s) s)) (\<lambda>(b, s').
       Inr ((), s'\<lparr>t_box := b\<rparr>))"

section \<open>The table of group chats\<close>

definition g_at :: "int \<Rightarrow> ('db talk, g_row) op" where
  "g_at i = bnd (getting t_g) (\<lambda>g. lifted (rd 100 g i))"

definition g_put :: "int \<Rightarrow> g_row \<Rightarrow> ('db talk, unit) op" where
  "g_put i r = setting (\<lambda>s. s\<lparr>t_g := (t_g s)(i := r)\<rparr>)"

definition set_online :: "int \<Rightarrow> int \<Rightarrow> int \<Rightarrow> ('db talk, unit) op" where
  "set_online i account v =
     bnd (g_at i) (\<lambda>r.
     bnd (lifted (wr 100 (g_use_online r) account v)) (\<lambda>a. g_put i (r\<lparr>g_use_online := a\<rparr>)))"

definition set_fd :: "int \<Rightarrow> int \<Rightarrow> int \<Rightarrow> ('db talk, unit) op" where
  "set_fd i account v =
     bnd (g_at i) (\<lambda>r.
     bnd (lifted (wr 100 (g_use_fd r) account v)) (\<lambda>a. g_put i (r\<lparr>g_use_fd := a\<rparr>)))"

section \<open>Accounts\<close>

definition deal_login :: "'db talk_env \<Rightarrow> PACK \<Rightarrow> ('db talk, unit) op" where
  "deal_login env pack =
     bnd (new_pack env) (\<lambda>send_pack.
     bnd (getting t_fd) (\<lambda>fd.
     bnd (MYSQL_login env (p_account pack) (p_mes pack) fd) (\<lambda>ret.
     bnd (if ret = 0 then lifted (set_mes login_ok (send_pack\<lparr>p_type := 0\<rparr>))
          else retn (send_pack\<lparr>p_type := - 1\<rparr>)) (\<lambda>reply_pack.
     bnd (send_PACK reply_pack) (\<lambda>_.
     bnd (pro_off env (p_account pack) fd) (\<lambda>_.
       each (\<lambda>i.
         bnd (set_online i (p_account pack) 1) (\<lambda>_.
         bnd (MYSQL_find_fd_user env (p_account pack)) (\<lambda>user_fd.
           set_fd i (p_account pack) user_fd))) [0..99]))))))"

definition deal_regist :: "'db talk_env \<Rightarrow> PACK \<Rightarrow> ('db talk, unit) op" where
  "deal_regist env pack =
     bnd (new_pack env) (\<lambda>send_pack.
     bnd (MYSQL_regist env (p_mes pack) (p_mes2 pack)) (\<lambda>ret.
     bnd (if ret \<noteq> - 1 then lifted (set_mes regist_ok (send_pack\<lparr>p_type := 0, p_account := ret\<rparr>))
          else retn (send_pack\<lparr>p_type := - 1\<rparr>)) send_PACK))"

definition deal_repass :: "'db talk_env \<Rightarrow> PACK \<Rightarrow> ('db talk, unit) op" where
  "deal_repass env pack =
     bnd (new_pack env) (\<lambda>send_pack.
     bnd (MYSQL_repass env (p_account pack) (p_mes pack) (p_mes2 pack)) (\<lambda>ret.
     bnd (if ret \<noteq> - 1 then lifted (set_mes repass_ok (send_pack\<lparr>p_type := 0\<rparr>))
          else retn (send_pack\<lparr>p_type := - 1\<rparr>)) send_PACK))"

section \<open>Friends\<close>

text \<open>One packet of a list: the account and the name, in the packet of the round before.\<close>

definition send_friend :: "fri \<Rightarrow> int \<Rightarrow> PACK \<Rightarrow> ('db talk, PACK) op" where
  "send_friend p i send_pack =
     bnd (lifted (cstr (fri_name p i))) (\<lambda>n.
     bnd (lifted (set_name n (send_pack\<lparr>p_account := fri_account p i\<rparr>))) (\<lambda>q.
     bnd (send_PACK q) (\<lambda>_. retn q)))"

definition deal_list_fri :: "'db talk_env \<Rightarrow> PACK \<Rightarrow> ('db talk, unit) op" where
  "deal_list_fri env pack =
     bnd (new_pack env) (\<lambda>send_pack.
     bnd (MYSQL_list_fri env (p_account pack)) (\<lambda>p.
     bnd (scan_array (\<lambda>a. a = - 1) (fri_account p) (send_friend p) 0 50
       (send_pack\<lparr>p_type := LIST_FRI\<rparr>)) (\<lambda>_. retn ())))"

definition deal_online_fri :: "'db talk_env \<Rightarrow> PACK \<Rightarrow> ('db talk, unit) op" where
  "deal_online_fri env pack =
     bnd (new_pack env) (\<lambda>send_pack.
     bnd (MYSQL_online_fri env (p_account pack)) (\<lambda>p.
     bnd (scan_array (\<lambda>a. a = 0 \<or> a = - 1) (fri_account p) (send_friend p) 0 50
       (send_pack\<lparr>p_type := ONLINE_FRI\<rparr>)) (\<lambda>_. retn ())))"

definition deal_chat_fri :: "'db talk_env \<Rightarrow> PACK \<Rightarrow> ('db talk, unit) op" where
  "deal_chat_fri env pack =
     bnd (MYSQL_find_frirela env (p_account pack) (p_send_account pack)) (\<lambda>ret.
       if ret = - 1 then
         bnd (new_pack env) (\<lambda>send_pack.
           answer_with not_a_friend (send_pack\<lparr>p_type := CHAT_FRI, p_account := p_account pack\<rparr>))
       else
         bnd (MYSQL_find_fd env (p_send_account pack)) (\<lambda>f.
         bnd (MYSQL_find_fd env (p_account pack)) (\<lambda>f2.
         bnd (lifted (cstr (fri_name f2 0))) (\<lambda>n.
         bnd (lifted (set_name n pack)) (\<lambda>pack1.
         bnd (MYSQL_store_chat env (p_account pack1) (p_send_account pack1) (p_mes pack1)) (\<lambda>_.
           if fri_online f 0 = 0 then deal_fri_off env pack1
           else send_other_PACK pack1 (fri_account f 0)))))))"

text \<open>One packet of the stored messages.\<close>

definition send_chat :: "STR_C \<Rightarrow> int \<Rightarrow> PACK \<Rightarrow> ('db talk, PACK) op" where
  "send_chat c i q =
     bnd (lifted (cstr (str_mes c i))) (\<lambda>t.
     bnd (lifted (set_mes t (q\<lparr>p_account := str_account c i,
       p_send_account := str_send_account c i\<rparr>))) (\<lambda>q'.
     bnd (send_PACK q') (\<lambda>_. retn q')))"

text \<open>\<open>strcmp\<close> stands where \<open>strcpy\<close> is meant: it changes nothing.\<close>

definition deal_store_fri :: "'db talk_env \<Rightarrow> PACK \<Rightarrow> ('db talk, unit) op" where
  "deal_store_fri env pack =
     bnd (new_pack env) (\<lambda>send_pack.
     bnd (MYSQL_find_chat env (p_account pack) (p_send_account pack)) (\<lambda>c.
     bnd (when_op (str_account c 0 = - 1)
       (bnd (lifted (str_eq (p_mes pack) no_chat)) (\<lambda>_. send_PACK (pack\<lparr>p_type := 81\<rparr>)))) (\<lambda>_.
     bnd (scan_array (\<lambda>a. a = - 1) (str_account c) (send_chat c) 0 100
       (send_pack\<lparr>p_type := STORE_CHAT\<rparr>)) (\<lambda>_. retn ()))))"

definition deal_dele_fri :: "'db talk_env \<Rightarrow> PACK \<Rightarrow> ('db talk, unit) op" where
  "deal_dele_fri env pack =
     bnd (MYSQL_dele_fri env (p_account pack) (p_send_account pack)) (\<lambda>_. retn ())"

definition deal_addfriend :: "'db talk_env \<Rightarrow> PACK \<Rightarrow> ('db talk, unit) op" where
  "deal_addfriend env pack =
     bnd (MYSQL_find_frirela env (p_account pack) (p_send_account pack)) (\<lambda>ret.
       if ret = 0 then answer_with already_friends pack
       else
         bnd (new_pack env) (\<lambda>send_pack.
         bnd (MYSQL_find_fd env (p_send_account pack)) (\<lambda>f.
         bnd (MYSQL_find_fd env (p_account pack)) (\<lambda>f2.
           if fri_account f 0 = - 1 then answer_with wrong_account pack
           else
             bnd (lifted (cstr (fri_name f2 0))) (\<lambda>n.
             bnd (lifted (set_name n pack)) (\<lambda>pack1.
             bnd (lifted (cstr (p_send_name pack1))) (\<lambda>who.
             bnd (lifted (rbind (format 0 asks_to_add [S who]) (\<lambda>t. set_mes t send_pack))) (\<lambda>q.
             let q' = q\<lparr>p_account := p_account pack1, p_send_account := p_send_account pack1,
                        p_type := ADD_FRIEND\<rparr>
             in if fri_online f 0 = 0 then deal_fri_off env q'
                else send_other_PACK q' (fri_account f 0)))))))))"

definition recv_addfr_PACK :: "'db talk_env \<Rightarrow> PACK \<Rightarrow> ('db talk, unit) op" where
  "recv_addfr_PACK env pack =
     (if p_type pack = 41 then
        bnd (MYSQL_find_fd env (p_send_account pack)) (\<lambda>f.
        bnd (lifted (str_eq (p_mes pack) ''success'')) (\<lambda>ok.
        bnd (if ok then
               bnd (lifted (rbind (format 0 now_friends [D (p_account pack)]) (\<lambda>t. set_mes t pack)))
                 (\<lambda>q. bnd (MYSQL_addfriend_store env (p_account q) (p_send_account q)) (\<lambda>_. retn q))
             else lifted (rbind (format 0 friend_refused [D (p_account pack)]) (\<lambda>t. set_mes t pack)))
          (\<lambda>q. send_other_PACK q (fri_account f 0))))
      else retn ())"

end
