(* ===== verification/Talk_Groups.thy ===== *)
theory Talk_Groups
  imports Talk_Server
begin

text \<open>
  The group requests of \<open>server_deal.c\<close>, the relay of files, the dispatcher \<open>deal\<close>, \<open>recv_PACK\<close>
  and the loop of \<open>server_init.c\<close>.
\<close>

section \<open>Groups\<close>

definition deal_creat_group :: "'db talk_env \<Rightarrow> PACK \<Rightarrow> ('db talk, unit) op" where
  "deal_creat_group env pack =
     bnd (new_pack env) (\<lambda>send_pack.
     bnd (MYSQL_creat_group env (p_account pack) (p_mes pack)) (\<lambda>ret.
       if ret \<noteq> - 1
       then answer_with group_created (send_pack\<lparr>p_type := CREAT_GROUP, p_account := ret\<rparr>)
       else answer_with group_not_created send_pack))"

definition deal_join_group :: "'db talk_env \<Rightarrow> PACK \<Rightarrow> ('db talk, unit) op" where
  "deal_join_group env pack =
     bnd (new_pack env) (\<lambda>p0.
     let send_pack = p0\<lparr>p_type := JOIN_GROUP\<rparr>
     in bnd (MYSQL_find_group env (p_send_account pack)) (\<lambda>ret.
       if ret = 0 then
         bnd (MYSQL_find_group_member env (p_account pack) (p_send_account pack)) (\<lambda>ret2.
           if ret2 = 0 then answer_with already_member send_pack
           else
             bnd (MYSQL_join_group env (p_account pack) (p_send_account pack)) (\<lambda>ret3.
               if ret3 = 0 then answer_with joined send_pack else answer_with join_failed send_pack))
       else answer_with no_such_group send_pack))"

definition deal_quit_group :: "'db talk_env \<Rightarrow> PACK \<Rightarrow> ('db talk, unit) op" where
  "deal_quit_group env pack =
     bnd (new_pack env) (\<lambda>p0.
     bnd (MYSQL_find_group_member env (p_account pack) (p_send_account pack)) (\<lambda>ret.
     let send_pack = p0\<lparr>p_type := QUIT_GROUP\<rparr>
     in if ret = - 1 then answer_with not_in_group send_pack
       else
         bnd (MYSQL_quit_group env (p_account pack) (p_send_account pack)) (\<lambda>ret2.
           if ret2 = 0 then answer_with quit_ok send_pack else answer_with quit_failed send_pack)))"

definition deal_dele_group :: "'db talk_env \<Rightarrow> PACK \<Rightarrow> ('db talk, unit) op" where
  "deal_dele_group env pack =
     bnd (new_pack env) (\<lambda>p0.
     bnd (MYSQL_find_gowner env (p_account pack) (p_send_account pack)) (\<lambda>ret.
     let send_pack = p0\<lparr>p_type := DELE_GROUP\<rparr>
     in if ret = - 1 then answer_with not_owner send_pack
       else
         bnd (MYSQL_dele_group env (p_send_account pack)) (\<lambda>ret2.
           if ret2 = 0 then answer_with group_deleted send_pack
           else answer_with delete_failed send_pack)))"

definition member_title :: "int \<Rightarrow> string" where
  "member_title flag = (if flag = 1 then the_owner else if flag = 2 then an_admin else a_member)"

definition send_member :: "GROUP \<Rightarrow> int \<Rightarrow> PACK \<Rightarrow> ('db talk, PACK) op" where
  "send_member grp i send_pack =
     bnd (lifted (cstr (gr_name grp i))) (\<lambda>n.
     bnd (lifted (set_name n (send_pack\<lparr>p_account := gr_account grp i\<rparr>))) (\<lambda>q.
     bnd (lifted (set_mes (member_title (gr_flag grp i)) (q\<lparr>p_send_account := gr_online grp i\<rparr>)))
       (\<lambda>q'. bnd (send_PACK q') (\<lambda>_. retn q'))))"

text \<open>The head of the answer is sent before its type is set.\<close>

definition deal_group_mes :: "'db talk_env \<Rightarrow> PACK \<Rightarrow> ('db talk, unit) op" where
  "deal_group_mes env pack =
     bnd (new_pack env) (\<lambda>send_pack.
     bnd (MYSQL_group_name env (p_send_account pack)) (\<lambda>p.
     bnd (read_name env p) (\<lambda>compared.
       if compared \<noteq> ''fail'' then
         bnd (read_name env p) (\<lambda>copied.
         bnd (lifted (set_mes copied send_pack)) (\<lambda>head_pack.
         bnd (MYSQL_group_mes env (p_send_account pack)) (\<lambda>group1.
         bnd (MYSQL_find_user env group1) (\<lambda>grp.
         bnd (send_PACK head_pack) (\<lambda>_.
         bnd (scan_array (\<lambda>a. a = - 1) (gr_account grp) (send_member grp) 0 50
           (head_pack\<lparr>p_type := GROUP_MES\<rparr>)) (\<lambda>_. retn ()))))))
       else answer_with query_failed (send_pack\<lparr>p_type := 141\<rparr>))))"

section \<open>Chatting in a group\<close>

text \<open>Entering the members of the group into the row of the sender.\<close>

definition enter_member :: "GROUP \<Rightarrow> int \<Rightarrow> int \<Rightarrow> ('db talk, unit) op" where
  "enter_member grp me i =
     bnd (lifted (rd 50 (gr_account grp) i)) (\<lambda>a.
     bnd (g_at me) (\<lambda>r.
     bnd (lifted (wr 100 (g_use_account r) a a)) (\<lambda>accs.
     bnd (lifted (rd 50 (gr_name grp) i)) (\<lambda>b.
     bnd (lifted (cstr b)) (\<lambda>n.
     bnd (lifted (put_str 100 n (g_use_name r a))) (\<lambda>b'.
     bnd (lifted (rd 50 (gr_online grp) i)) (\<lambda>on.
     bnd (lifted (rd 50 (gr_cli_fd grp) i)) (\<lambda>fd.
       g_put me (r\<lparr>g_use_account := accs, g_use_name := (g_use_name r)(a := b'),
         g_use_online := (g_use_online r)(a := on), g_use_fd := (g_use_fd r)(a := fd)\<rparr>)))))))))"

text \<open>
  The first message of an account: is it a member, and who are the others. \<open>None\<close>: refused. The
  mark \<open>group_account\<close> is set in both cases, and never looked at again for the group's number.
\<close>

definition enter_group :: "'db talk_env \<Rightarrow> PACK \<Rightarrow> g_row \<Rightarrow> ('db talk, GROUP option) op" where
  "enter_group env pack row =
     bnd (MYSQL_find_group_member env (p_account pack) (p_send_account pack)) (\<lambda>ret.
     bnd (g_put (p_account pack) (row\<lparr>g_group_account := 1\<rparr>)) (\<lambda>_.
       if ret = - 1 then bnd (answer_with not_in_group pack) (\<lambda>_. retn None)
       else
         bnd (MYSQL_group_mes env (p_send_account pack)) (\<lambda>group1.
         bnd (MYSQL_find_user env group1) (\<lambda>grp.
         bnd (each (enter_member grp (p_account pack)) [0..gr_len grp - 1]) (\<lambda>_.
         bnd (g_at (p_account pack)) (\<lambda>r.
         bnd (g_put (p_account pack) (r\<lparr>g_len := gr_len grp\<rparr>)) (\<lambda>_. retn (Some grp))))))))"

text \<open>
  The search for the sender's name runs over 100 entries of \<open>cli_fd[50]\<close>: the other 50 are the
  array \<open>flag\<close>, which follows in the structure. A match there reads past \<open>name\<close>.
\<close>

definition cli_fd_at :: "GROUP \<Rightarrow> int \<Rightarrow> int" where
  "cli_fd_at grp i = (if i < 50 then gr_cli_fd grp i else gr_flag grp (i - 50))"

definition sender_name :: "GROUP \<Rightarrow> int \<Rightarrow> int \<Rightarrow> PACK \<Rightarrow> PACK result" where
  "sender_name grp fd i send_pack =
     (if cli_fd_at grp i = fd then
        rbind (rd 50 (gr_name grp) i) (\<lambda>b. rbind (cstr b) (\<lambda>n. set_mes n send_pack))
      else Inr send_pack)"

text \<open>To every member but the sender: send, or keep for later.\<close>

definition group_fan :: "'db talk_env \<Rightarrow> int \<Rightarrow> PACK \<Rightarrow> int \<Rightarrow> ('db talk, unit) op" where
  "group_fan env me send_pack i =
     bnd (g_at me) (\<lambda>r.
     bnd (getting t_fd) (\<lambda>fd.
       when_op (g_use_account r i \<noteq> 0 \<and> g_use_fd r i \<noteq> fd)
         (let q = send_pack\<lparr>p_send_account := g_use_account r i\<rparr>
          in if g_use_online r i = 1 then send_other_PACK q (g_use_fd r i)
             else deal_group_off env q)))"

text \<open>The name of the group, read once for each group addressed after another.\<close>

definition refresh_group_name :: "'db talk_env \<Rightarrow> int \<Rightarrow> ('db talk, unit) op" where
  "refresh_group_name env gid =
     bnd (getting t_group_account) (\<lambda>cached.
       when_op (cached \<noteq> gid)
         (bnd (MYSQL_group_name env gid) (\<lambda>p.
          bnd (read_name env p) (\<lambda>n.
          bnd (getting t_group_name) (\<lambda>old.
          bnd (lifted (put_str 100 n old)) (\<lambda>b.
            setting (\<lambda>s. s\<lparr>t_group_name := b, t_group_account := gid\<rparr>)))))))"

definition group_message :: "'db talk_env \<Rightarrow> PACK \<Rightarrow> GROUP \<Rightarrow> ('db talk, unit) op" where
  "group_message env pack grp =
     bnd (MYSQL_store_group env (p_account pack) (p_send_account pack) (p_mes pack)) (\<lambda>_.
     bnd (new_pack env) (\<lambda>p0.
     bnd (lifted (cstr (p_mes pack))) (\<lambda>t.
     bnd (lifted (set_mes2 t (p0\<lparr>p_type := CHAT_GROUP, p_account := p_send_account pack\<rparr>))) (\<lambda>p1.
     bnd (refresh_group_name env (p_send_account pack)) (\<lambda>_.
     bnd (getting t_group_name) (\<lambda>b.
     bnd (lifted (cstr b)) (\<lambda>n.
       if n \<noteq> ''fail'' then
         bnd (lifted (set_name n p1)) (\<lambda>p2.
         bnd (getting t_fd) (\<lambda>fd.
         bnd (lifted (rfold (sender_name grp fd) [0..99] p2)) (\<lambda>p3.
           each (group_fan env (p_account pack) p3) [0..99])))
       else answer_with query_failed p1)))))))"

definition deal_chat_group :: "'db talk_env \<Rightarrow> PACK \<Rightarrow> ('db talk, unit) op" where
  "deal_chat_group env pack =
     bnd (fresh (stack_group env)) (\<lambda>group0.
     bnd (g_at (p_account pack)) (\<lambda>row.
     bnd (if g_group_account row = 0 then enter_group env pack row else retn (Some group0)) (\<lambda>entered.
       case entered of
         None \<Rightarrow> retn ()
       | Some grp \<Rightarrow>
           bnd (lifted (str_eq (p_mes pack) ''Bye'')) (\<lambda>bye.
             if bye then
               bnd (lifted (wr 50 (gr_account grp) (p_account pack) 0)) (\<lambda>_. retn ())
             else group_message env pack grp))))"

text \<open>One packet of a group's messages.\<close>

definition send_group_chat :: "STR_G \<Rightarrow> int \<Rightarrow> PACK \<Rightarrow> ('db talk, PACK) op" where
  "send_group_chat d i q =
     bnd (lifted (cstr (sg_mes d i))) (\<lambda>t.
     bnd (lifted (set_mes t (q\<lparr>p_account := sg_usr_account d i\<rparr>))) (\<lambda>q'.
     bnd (send_PACK q') (\<lambda>_. retn q')))"

definition deal_find_store_g :: "'db talk_env \<Rightarrow> PACK \<Rightarrow> ('db talk, unit) op" where
  "deal_find_store_g env pack =
     bnd (MYSQL_group_name env (p_send_account pack)) (\<lambda>p.
     bnd (read_name env p) (\<lambda>compared.
     let pack1 = pack\<lparr>p_type := 161\<rparr>
     in if compared \<noteq> ''fail'' then
         bnd (read_name env p) (\<lambda>copied.
         bnd (lifted (set_mes copied pack1)) (\<lambda>pack2.
         bnd (MYSQL_find_chat_group env (p_send_account pack2)) (\<lambda>grp.
           if sg_usr_account grp 0 = - 1 then
             bnd (lifted (str_eq (p_mes pack2) no_chat)) (\<lambda>_. send_PACK pack2)
           else
             bnd (new_pack env) (\<lambda>send_pack.
             bnd (scan_array (\<lambda>a. a = - 1) (sg_usr_account grp)
               (send_group_chat grp) 0 100 (send_pack\<lparr>p_type := STORE_G\<rparr>)) (\<lambda>_. retn ())))))
       else answer_with query_failed pack1))"

text \<open>\<open>atoi\<close> of a \<open>char\<close> array.\<close>

definition atoi_of :: "string \<Rightarrow> int result" where
  "atoi_of b = rbind (cstr b) (\<lambda>t. Inr (atoi t))"

definition deal_set_up :: "'db talk_env \<Rightarrow> PACK \<Rightarrow> ('db talk, unit) op" where
  "deal_set_up env pack =
     bnd (MYSQL_find_gowner env (p_account pack) (p_send_account pack)) (\<lambda>ret.
       if ret = 0 then
         bnd (lifted (atoi_of (p_mes pack))) (\<lambda>set_account.
         bnd (MYSQL_find_group_member env set_account (p_send_account pack)) (\<lambda>ret2.
           if ret2 = 0 then
             bnd (MYSQL_set_up env (p_send_account pack) set_account) (\<lambda>_. answer_with made_admin pack)
           else answer_with admin_not_member pack))
       else answer_with set_up_refused (pack\<lparr>p_send_account := 0\<rparr>))"

text \<open>
  Telling a member that he was pulled in or removed: \<open>MYSQL_find_fd\<close> is asked for the number of
  the group, not of the member.
\<close>

definition tell_member :: "'db talk_env \<Rightarrow> fri \<Rightarrow> PACK \<Rightarrow> ('db talk, unit) op" where
  "tell_member env f pack =
     (if fri_online f 0 = 1 then send_other_PACK pack (fri_account f 0) else deal_fri_off env pack)"

definition deal_join_user :: "'db talk_env \<Rightarrow> PACK \<Rightarrow> ('db talk, unit) op" where
  "deal_join_user env pack =
     bnd (MYSQL_find_group_member env (p_account pack) (p_send_account pack)) (\<lambda>ret.
       if ret = 0 then
         bnd (lifted (atoi_of (p_mes pack))) (\<lambda>set_account.
         bnd (MYSQL_find_group_member env set_account (p_send_account pack)) (\<lambda>ret2.
           if ret2 = 0 then answer_with already_in_group pack
           else
             bnd (MYSQL_join_group env set_account (p_send_account pack)) (\<lambda>_.
             bnd (MYSQL_find_fd env (p_send_account pack)) (\<lambda>f.
             bnd (lifted (set_mes invited_ok pack)) (\<lambda>pack1.
             bnd (send_PACK pack1) (\<lambda>_.
             bnd (lifted (rbind (format 0 you_were_invited [D (p_account pack1), D (p_send_account pack1)])
               (\<lambda>t. set_mes t pack1))) (\<lambda>pack2.
               tell_member env f (pack2\<lparr>p_send_account := set_account\<rparr>))))))))
       else answer_with invite_refused pack)"

text \<open>Here \<open>send_account\<close> is overwritten before the group's number is printed from it.\<close>

definition deal_dele_user :: "'db talk_env \<Rightarrow> PACK \<Rightarrow> ('db talk, unit) op" where
  "deal_dele_user env pack =
     bnd (MYSQL_find_group_vip env (p_account pack) (p_send_account pack)) (\<lambda>ret.
       if ret = 0 then
         bnd (lifted (atoi_of (p_mes pack))) (\<lambda>set_account.
         bnd (MYSQL_quit_group env set_account (p_send_account pack)) (\<lambda>_.
         bnd (MYSQL_find_fd env (p_send_account pack)) (\<lambda>f.
         bnd (lifted (set_mes removed_ok pack)) (\<lambda>pack1.
         bnd (send_PACK pack1) (\<lambda>_.
         let pack2 = pack1\<lparr>p_send_account := set_account\<rparr>
         in bnd (lifted (rbind (format 0 you_were_removed [D (p_account pack2), D (p_send_account pack2)])
              (\<lambda>t. set_mes t pack2))) (\<lambda>pack3. tell_member env f pack3))))))
       else answer_with remove_refused pack)"

section \<open>Files\<close>

text \<open>
  The friend's entry is looked up when the account addressed is not that of the packet before;
  otherwise the remembered descriptor is used.
\<close>

definition talk_send_file :: "'db talk_env \<Rightarrow> PACK \<Rightarrow> ('db talk, unit) op" where
  "talk_send_file env pack =
     bnd (getting t_file_account) (\<lambda>last_account.
     bnd (when_op (last_account = 0 \<or> last_account \<noteq> p_send_account pack)
       (bnd (setting (\<lambda>s. s\<lparr>t_file_account := p_send_account pack\<rparr>)) (\<lambda>_.
        bnd (MYSQL_find_fd env (p_send_account pack)) (\<lambda>f.
          setting (\<lambda>s. s\<lparr>t_file_fri := f\<rparr>))))) (\<lambda>_.
     bnd (getting t_file_fri) (\<lambda>f. send_other_PACK pack (fri_account f 0))))"

section \<open>The dispatcher\<close>

definition deal :: "'db talk_env \<Rightarrow> PACK \<Rightarrow> ('db talk, unit) op" where
  "deal env pack =
     bnd MYSQL_init (\<lambda>_.
     let ty = p_type pack in
       if ty = 1 then deal_login env pack
       else if ty = 2 then deal_regist env pack
       else if ty = 3 then deal_repass env pack
       else if ty = 4 then deal_addfriend env pack
       else if ty = 41 then recv_addfr_PACK env pack
       else if ty = 5 then deal_list_fri env pack
       else if ty = 6 then deal_online_fri env pack
       else if ty = 7 then deal_chat_fri env pack
       else if ty = 8 then deal_store_fri env pack
       else if ty = 9 then deal_dele_fri env pack
       else if ty = 10 then deal_creat_group env pack
       else if ty = 11 then deal_join_group env pack
       else if ty = 12 then deal_quit_group env pack
       else if ty = 13 then deal_dele_group env pack
       else if ty = 14 then deal_group_mes env pack
       else if ty = 15 then deal_chat_group env pack
       else if ty = 16 then deal_find_store_g env pack
       else if ty = 17 then deal_set_up env pack
       else if ty = 18 then talk_send_file env pack
       else if ty = JOIN_USER then deal_join_user env pack
       else if ty = DELE_USER then deal_dele_user env pack
       else retn ())"

text \<open>
  What happens on a connection while \<open>recv\<close> waits: an error, or byte runs that arrive, after which
  the client closes the connection or keeps it open and silent.
\<close>

datatype wire = Recv_Error | Arrives "string list" bool

text \<open>
  The packet is a local variable, filled as far as bytes came. A connection closed before the first
  byte is the end of the client.
\<close>

definition received :: "'db talk_env \<Rightarrow> int \<Rightarrow> PACK \<Rightarrow> string \<Rightarrow> ('db talk, unit) op" where
  "received env conn_fd old b =
     (if b = [] then
        bnd (MYSQL_exit env (p_account old)) (\<lambda>_.
        bnd (setting (\<lambda>s. s\<lparr>t_closed := t_closed s @ [conn_fd],
          t_watched := filter (\<lambda>fd. fd \<noteq> conn_fd) (t_watched s)\<rparr>)) (\<lambda>_.
          each (\<lambda>i. set_online i (p_account old) 0) [0..99]))
      else deal env (fill_pack old b))"

text \<open>
  \<open>recv\<close> with \<open>MSG_WAITALL\<close> returns when it has a whole packet or the connection is closed; on a
  connection that stays open without sending the rest it never returns.
\<close>

definition recv_PACK :: "'db talk_env \<Rightarrow> int \<Rightarrow> wire \<Rightarrow> ('db talk, unit) op" where
  "recv_PACK env conn_fd w =
     bnd (new_pack env) (\<lambda>old.
     bnd (setting (\<lambda>s. s\<lparr>t_fd := conn_fd\<rparr>)) (\<lambda>_.
       case w of
         Recv_Error \<Rightarrow> deal env old
       | Arrives segs closed \<Rightarrow>
           bnd (getting t_wire) (\<lambda>pending.
           case recv_all PACK_size (pending conn_fd @ segs) of
             (b, rest) \<Rightarrow>
               if length b < PACK_size \<and> \<not> closed then lifted (Inl No_Return)
               else
                 bnd (setting (\<lambda>s. s\<lparr>t_wire := (t_wire s)(conn_fd := rest)\<rparr>)) (\<lambda>_.
                   received env conn_fd old b))))"

section \<open>The loop\<close>

text \<open>
  What \<open>epoll_wait\<close> reports: a new connection (or -1), or a readable one and what happens on it
  while the packet is read.
\<close>

datatype talk_event = Connected int | Readable int wire

fun talk_handle :: "'db talk_env \<Rightarrow> talk_event \<Rightarrow> ('db talk, unit) op" where
  "talk_handle env (Connected fd) = setting (\<lambda>s. s\<lparr>t_watched := t_watched s @ [fd]\<rparr>)"
| "talk_handle env (Readable fd w) = recv_PACK env fd w"

definition talk_loop :: "'db talk_env \<Rightarrow> talk_event list \<Rightarrow> ('db talk, unit) op" where
  "talk_loop env evs = each (talk_handle env) evs"

definition talk_main :: "'db talk_env \<Rightarrow> talk_event list \<Rightarrow> ('db talk, unit) op" where
  "talk_main env evs = bnd (MYSQL_main_init env) (\<lambda>_. talk_loop env evs)"

end
