(* ===== verification/Talk_Demo.thy ===== *)
theory Talk_Demo
  imports Talk_Groups
begin

text \<open>
  Concrete surroundings, packets and states of the second chat room, on which the properties are
  tried out: a database that gives one answer to everything, a stack of zero bytes.
\<close>

definition demo_env :: "PACK \<Rightarrow> answer \<Rightarrow> unit talk_env" where
  "demo_env on_stack a = \<lparr>exec = (\<lambda>_ _ _. (a, ())), stack_pack = (\<lambda>_. on_stack),
     stack_fri = (\<lambda>_. zero_fri),
     stack_str = (\<lambda>_. \<lparr>str_account = (\<lambda>_. 0), str_send_account = (\<lambda>_. 0), str_mes = (\<lambda>_. []), str_len = 0\<rparr>),
     stack_group = (\<lambda>_. \<lparr>gr_account = (\<lambda>_. 0), gr_name = (\<lambda>_. []), gr_online = (\<lambda>_. 0),
       gr_cli_fd = (\<lambda>_. 0), gr_flag = (\<lambda>_. 0), gr_len = 0\<rparr>),
     stack_strg = (\<lambda>_. \<lparr>sg_usr_account = (\<lambda>_. 0), sg_use_name = (\<lambda>_. []), sg_mes = (\<lambda>_. []), sg_len = 0\<rparr>),
     stack_int = (\<lambda>_. 0),
     heap_off = (\<lambda>_. \<lparr>off_mes = [], off_account = 0, off_send_name = [], off_send_account = 0,
       off_type = 0, off_mes2 = []\<rparr>),
     dead_name = (\<lambda>_. [CHR 0x00])\<rparr>"

lemma demo_env_simps [simp]:
  "exec (demo_env p a) b d q = (a, ())" "stack_pack (demo_env p a) k = p"
  "stack_group (demo_env p a) k = \<lparr>gr_account = (\<lambda>_. 0), gr_name = (\<lambda>_. []), gr_online = (\<lambda>_. 0),
       gr_cli_fd = (\<lambda>_. 0), gr_flag = (\<lambda>_. 0), gr_len = 0\<rparr>"
  by (simp_all add: demo_env_def)

text \<open>A row that serves for every table: account 7, in column 1 an 8, the password, on line, socket 5.\<close>

definition demo_row :: row where
  "demo_row = [Some ''7'', Some ''8'', Some ''pw'', Some ''1'', Some ''5'']"

lemma atoi_digits [simp]: "atoi ''8'' = 8" "atoi ''1'' = 1" "atoi ''5'' = 5"
  by code_simp+

lemma demo_row_columns [simp]:
  "column demo_row (Suc 0) = Inr ''8''" "column demo_row 2 = Inr ''pw''"
  "int_column demo_row (Suc 0) = Inr 8" "int_column demo_row 3 = Inr 1" "int_column demo_row 4 = Inr 5"
  by (simp_all add: demo_row_def column_def int_column_def)

definition demo_pack :: "int \<Rightarrow> int \<Rightarrow> int \<Rightarrow> string \<Rightarrow> PACK" where
  "demo_pack ty a b t = zero_pack\<lparr>p_type := ty, p_account := a, p_send_account := b,
     p_mes := t @ replicate (1000 - length t) (CHR 0x00)\<rparr>"

lemma demo_pack_simps [simp]:
  "p_type (demo_pack ty a b t) = ty" "p_account (demo_pack ty a b t) = a"
  "p_send_account (demo_pack ty a b t) = b"
  by (simp_all add: demo_pack_def)

lemma demo_pack_text:
  assumes "CHR 0x00 \<notin> set t" "length t < 1000"
  shows "cstr (p_mes (demo_pack ty a b t)) = Inr t"
proof -
  obtain n where n: "1000 - length t = Suc n" using assms(2) by (cases "1000 - length t") auto
  show ?thesis using assms(1) by (simp add: demo_pack_def n)
qed

definition demo_off :: "int \<Rightarrow> string \<Rightarrow> OFF" where
  "demo_off b t = \<lparr>off_mes = t @ [CHR 0x00], off_account = 3, off_send_name = [CHR 0x00],
     off_send_account = b, off_type = CHAT_FRI, off_mes2 = [CHR 0x00]\<rparr>"

text \<open>Account 7 in group 3, whose other member 8 is on line on socket 5; the packet comes from socket 4.\<close>

definition demo_members :: g_row where
  "demo_members = \<lparr>g_group_account = 3, g_use_account = (\<lambda>i. if i = 7 \<or> i = 8 then i else 0),
     g_use_name = (\<lambda>_. []), g_use_online = (\<lambda>_. 1), g_use_fd = (\<lambda>i. if i = 7 then 4 else 5), g_len = 2\<rparr>"

definition demo_room :: "unit talk" where
  "demo_room = talk_start ()\<lparr>t_fd := 4, t_g := (\<lambda>_. demo_members), t_group_account := 3,
     t_group_name := ''gr'' @ [CHR 0x00]\<rparr>"

text \<open>There is a box for every list of messages.\<close>

lemma box_exists: "\<exists>b. box_holds b xs"
  using off_box.pushes_hold [OF empty_box_holds, of xs] by auto

lemma int32_small [simp]: "int32 7" "int32 8" "int32 1" "int32 2" "int32 0" "int32 3"
  by (simp_all add: int32_def)

lemma talk_start_simps [simp]:
  "t_db (talk_start d) = d" "t_fd (talk_start d) = 0" "t_sent (talk_start d) = []"
  "t_box (talk_start d) = empty_box" "t_file_fri (talk_start d) = zero_fri"
  by (simp_all add: talk_start_def)

lemma demo_room_simps [simp]:
  "t_fd demo_room = 4" "t_g demo_room i = demo_members" "t_box demo_room = empty_box"
  "t_sent demo_room = []" "t_group_account demo_room = 3" "cstr (t_group_name demo_room) = Inr ''gr''"
  "t_db demo_room = ()" "g_group_account demo_members = 3" "g_use_fd demo_members 8 = 5"
  by (simp_all add: demo_room_def demo_members_def cstr_def)

end
