(* ===== verification/Talk_Laws.thy ===== *)
theory Talk_Laws
  imports Talk_Demo
begin

text \<open>
  Laws that every function of \<open>MYSQL.c\<close> and every handler of the second chat room's server obeys:
  the queries leave the rest of the server alone, no request makes the server hang, the list of
  stored messages stays well-formed, and every packet sent has its full size.
\<close>

section \<open>Computations that return\<close>

lemma format_no_hang [no_hang]: "format junk fmt args \<noteq> Inl No_Return"
  by (induction junk fmt args rule: format.induct)
    (auto simp: rbind_eq_Inl split: list.splits farg.splits)

lemma sprintf_to_no_hang [no_hang]: "sprintf_to cap junk fmt args \<noteq> Inl No_Return"
  by (simp add: sprintf_to_def no_hang)

lemma column_no_hang [no_hang]: "column r i \<noteq> Inl No_Return" "int_column r i \<noteq> Inl No_Return"
  by (auto simp: column_def int_column_def rbind_eq_Inl split: option.splits)

lemma str_eq_no_hang [no_hang]: "str_eq b t \<noteq> Inl No_Return"
  by (simp add: str_eq_def)

lemma set_no_hang [no_hang]: "set_name t p \<noteq> Inl No_Return" "set_mes t p \<noteq> Inl No_Return"
  "set_mes2 t p \<noteq> Inl No_Return"
  unfolding set_name_def set_mes_def set_mes2_def by (intro no_hang)+

lemma atoi_of_no_hang [no_hang]: "atoi_of b \<noteq> Inl No_Return"
  unfolding atoi_of_def by (intro no_hang)

lemma number_rows_no_hang [no_hang]:
  "(\<And>r i x. f r i x \<noteq> Inl No_Return) \<Longrightarrow> number_rows f rs i x \<noteq> Inl No_Return"
  by (induction rs arbitrary: i x) (auto simp: rbind_eq_Inl)

lemma row_no_hang [no_hang]: "fri_of_row r i p \<noteq> Inl No_Return" "chat_of_row r i c \<noteq> Inl No_Return"
  "member_of_row r i g \<noteq> Inl No_Return" "group_chat_of_row r i d \<noteq> Inl No_Return"
  "fri_set_name i r p \<noteq> Inl No_Return" "user_of_group_row i r g \<noteq> Inl No_Return"
  unfolding fri_of_row_def chat_of_row_def member_of_row_def group_chat_of_row_def
    fri_set_name_def user_of_group_row_def by (intro no_hang)+

lemma fri_accounts_no_hang [no_hang]: "fri_accounts rs p \<noteq> Inl No_Return"
  by (auto simp: fri_accounts_def rbind_eq_Inl no_hang)

lemma sender_name_no_hang [no_hang]: "sender_name grp fd i p \<noteq> Inl No_Return"
  by (simp add: sender_name_def no_hang)

section \<open>Queries leave the rest alone\<close>

text \<open>The server without the database handle and the counter of indeterminate values.\<close>

definition outside ::
  "'db talk \<Rightarrow> (int \<times> g_row arr \<times> OFF box \<times> int \<times> string)
    \<times> (int \<times> fri \<times> (int \<times> PACK) list \<times> int list \<times> int list \<times> (int \<Rightarrow> string list))"
where
  "outside s = ((t_fd s, t_g s, t_box s, t_group_account s, t_group_name s),
     (t_file_account s, t_file_fri s, t_sent s, t_watched s, t_closed s, t_wire s))"

definition same_outside :: "'db talk \<Rightarrow> 'db talk \<Rightarrow> bool" where
  "same_outside s t \<longleftrightarrow> outside t = outside s"

definition always :: "'db talk \<Rightarrow> bool" where
  "always s \<longleftrightarrow> True"

interpretation quiet: step_law always same_outside
  by unfold_locales (simp_all add: same_outside_def)

named_theorems quiet_ops \<open>queries that leave the rest of the server alone\<close>

lemma quiet_basic [quiet_ops]:
  "obeys always same_outside MYSQL_init" "obeys always same_outside mysql_close"
  "obeys always same_outside (fresh f)" "obeys always same_outside (run_query env q)"
  "obeys always same_outside mysql_free_result"
  by (auto simp: obeys_def always_def same_outside_def outside_def MYSQL_init_def mysql_close_def setting_def
      fresh_def run_query_def mysql_free_result_def split: prod.splits option.splits)

lemma quiet_sql [quiet_ops]: "obeys always same_outside (sql env fmt args)"
  unfolding sql_def by (intro quiet.obeys_bnd_lifted quiet_ops no_hang)

lemma quiet_store_result [quiet_ops]: "obeys always same_outside (mysql_store_result a)"
  by (cases a) (auto simp: obeys_def always_def mysql_store_result_def op_simps same_outside_def outside_def
      bnd_def retn_def setting_def lifted_def)

lemma quiet_fetch_all [quiet_ops]: "obeys always same_outside (fetch_all a)"
  by (simp add: fetch_all_def quiet.obeys_retn quiet_ops)

lemmas quiet_rules = quiet.obeys_rules quiet.obeys_bnd quiet.obeys_fold

lemma quiet_login [quiet_ops]: "obeys always same_outside (MYSQL_login env a p fd)"
proof -
  have "obeys always same_outside (login_rows env a p fd rs)" for rs
    by (induction rs) (auto intro!: quiet_rules quiet_ops no_hang)
  then show ?thesis unfolding MYSQL_login_def by (intro quiet_rules quiet_ops)
qed

lemma quiet_repass [quiet_ops]: "obeys always same_outside (MYSQL_repass env a p q)"
proof -
  have "obeys always same_outside (repass_rows env a p q rs)" for rs
    by (induction rs) (auto intro!: quiet_rules quiet_ops no_hang)
  then show ?thesis unfolding MYSQL_repass_def by (intro quiet_rules quiet_ops)
qed

lemma quiet_accounts [quiet_ops]:
  "obeys always same_outside (MYSQL_regist env m n)" "obeys always same_outside (MYSQL_exit env a)"
  "obeys always same_outside (MYSQL_main_init env)"
  unfolding MYSQL_regist_def MYSQL_exit_def MYSQL_main_init_def
  by (auto intro!: quiet_rules quiet_ops no_hang split: list.splits)

lemma quiet_friends [quiet_ops]:
  "obeys always same_outside (MYSQL_find_frirela env a b)" "obeys always same_outside (MYSQL_find_fd env a)"
  "obeys always same_outside (MYSQL_find_fd_user env a)" "obeys always same_outside (MYSQL_addfriend_store env a b)"
  "obeys always same_outside (MYSQL_store_chat env a b m)" "obeys always same_outside (MYSQL_dele_fri env a b)"
  unfolding MYSQL_find_frirela_def MYSQL_find_fd_def MYSQL_find_fd_user_def
    MYSQL_addfriend_store_def MYSQL_store_chat_def MYSQL_dele_fri_def
  by (auto intro!: quiet_rules quiet_ops no_hang split: list.splits)

lemma quiet_friend_lists [quiet_ops]:
  "obeys always same_outside (MYSQL_list_fri env a)" "obeys always same_outside (MYSQL_online_fri env a)"
  "obeys always same_outside (MYSQL_find_chat env a b)"
  unfolding MYSQL_list_fri_def MYSQL_online_fri_def MYSQL_find_chat_def list_fri_name_def
    online_fri_name_def
  by (auto intro!: quiet_rules quiet_ops no_hang split: list.splits)

lemma quiet_row_exists [quiet_ops]: "obeys always same_outside (row_exists env fmt args)"
  unfolding row_exists_def by (intro quiet_rules quiet_ops)

lemma quiet_groups [quiet_ops]:
  "obeys always same_outside (MYSQL_creat_group env a m)" "obeys always same_outside (MYSQL_find_group_member env a b)"
  "obeys always same_outside (MYSQL_find_group env b)" "obeys always same_outside (MYSQL_find_gowner env a b)"
  "obeys always same_outside (MYSQL_find_group_vip env a b)" "obeys always same_outside (MYSQL_join_group env a b)"
  "obeys always same_outside (MYSQL_quit_group env a b)" "obeys always same_outside (MYSQL_dele_group env a)"
  unfolding MYSQL_creat_group_def MYSQL_find_group_member_def MYSQL_find_group_def
    MYSQL_find_gowner_def MYSQL_find_group_vip_def MYSQL_join_group_def MYSQL_quit_group_def
    MYSQL_dele_group_def
  by (auto intro!: quiet_rules quiet_ops no_hang split: list.splits)

lemma quiet_group_lists [quiet_ops]:
  "obeys always same_outside (MYSQL_group_name env a)" "obeys always same_outside (read_name env p)"
  "obeys always same_outside (MYSQL_group_mes env a)" "obeys always same_outside (MYSQL_find_user env g)"
  "obeys always same_outside (MYSQL_store_group env a b m)" "obeys always same_outside (MYSQL_find_chat_group env a)"
  "obeys always same_outside (MYSQL_set_up env a b)"
  unfolding MYSQL_group_name_def read_name_def MYSQL_group_mes_def MYSQL_find_user_def
    MYSQL_store_group_def MYSQL_find_chat_group_def MYSQL_set_up_def find_user_at_def
  by (auto intro!: quiet_rules quiet_ops no_hang split: list.splits name_ptr.splits)

section \<open>The invariant of the server\<close>

text \<open>The arrays of a packet have their declared sizes, so its image has 2120 bytes.\<close>

definition sized :: "PACK \<Rightarrow> bool" where
  "sized p \<longleftrightarrow> length (p_send_name p) = 100 \<and> length (p_mes p) = 1000 \<and> length (p_mes2 p) = 1000"

definition talk_inv :: "'db talk \<Rightarrow> bool" where
  "talk_inv s \<longleftrightarrow> (\<forall>m \<in> set (t_sent s). sized (snd m)) \<and> (\<exists>xs. box_holds (t_box s) xs)"

definition stack_sized :: "'db talk_env \<Rightarrow> bool" where
  "stack_sized env \<longleftrightarrow> (\<forall>k. sized (stack_pack env k))"

lemma sized_image: "sized p \<Longrightarrow> length (encode_PACK p) = PACK_size"
  by (simp add: sized_def encode_PACK_def PACK_size_def)

lemma sized_fields [simp]:
  "sized (p\<lparr>p_type := i\<rparr>) = sized p" "sized (p\<lparr>p_account := i\<rparr>) = sized p"
  "sized (p\<lparr>p_send_account := i\<rparr>) = sized p"
  by (simp_all add: sized_def)

lemma set_sized:
  "set_name t p = Inr q \<Longrightarrow> sized p \<Longrightarrow> sized q"
  "set_mes t p = Inr q \<Longrightarrow> sized p \<Longrightarrow> sized q"
  "set_mes2 t p = Inr q \<Longrightarrow> sized p \<Longrightarrow> sized q"
  by (auto simp: set_name_def set_mes_def set_mes2_def sized_def rbind_eq_Inr dest: put_str_length)

lemma set_formatted_sized: "rbind r (\<lambda>t. set_mes t p) = Inr q \<Longrightarrow> sized p \<Longrightarrow> sized q"
  by (auto simp: rbind_eq_Inr dest: set_sized)

lemma decode_sized: "length b = PACK_size \<Longrightarrow> sized (decode_PACK b)"
  by (simp add: decode_PACK_def sized_def bytes_at_def PACK_size_def)

lemma fill_sized: "sized old \<Longrightarrow> length b \<le> PACK_size \<Longrightarrow> sized (fill_pack old b)"
  by (simp add: fill_pack_def decode_sized sized_image)

lemma sender_name_sized: "sender_name g fd i p = Inr q \<Longrightarrow> sized p \<Longrightarrow> sized q"
  by (auto simp: sender_name_def rbind_eq_Inr split: if_splits dest: set_sized)

lemma sender_names_sized: "rfold (sender_name g fd) is p = Inr q \<Longrightarrow> sized p \<Longrightarrow> sized q"
  by (erule rfold_invariant) (auto dest: sender_name_sized)

definition no_relation :: "'db talk \<Rightarrow> 'db talk \<Rightarrow> bool" where
  "no_relation s t \<longleftrightarrow> True"

interpretation kept: step_law talk_inv no_relation
  by unfold_locales (auto simp: no_relation_def)

lemma quiet_keeps: "obeys always same_outside m \<Longrightarrow> obeys talk_inv no_relation m"
  by (erule obeys_mono)
    (simp_all add: always_def same_outside_def outside_def no_relation_def talk_inv_def)

lemma keeps_sends:
  "sized p \<Longrightarrow> obeys talk_inv no_relation (send_PACK p)"
  "sized p \<Longrightarrow> obeys talk_inv no_relation (send_other_PACK p fd)"
  by (auto simp: obeys_def no_relation_def talk_inv_def send_PACK_def send_other_PACK_def setting_def)

lemma keeps_new_pack:
  assumes "stack_sized env" and "\<And>p. sized p \<Longrightarrow> obeys talk_inv no_relation (f p)"
  shows "obeys talk_inv no_relation (bnd (new_pack env) f)"
proof -
  have run: "bnd (new_pack env) f s = f (stack_pack env (t_tick s)) (s\<lparr>t_tick := Suc (t_tick s)\<rparr>)"
    for s by (simp add: bnd_def new_pack_def fresh_def)
  have f: "obeys talk_inv no_relation (f (stack_pack env k))" for k
    by (rule assms(2)) (use assms(1) in \<open>simp add: stack_sized_def\<close>)
  have tick: "talk_inv (s\<lparr>t_tick := k\<rparr>) = talk_inv s" for s :: "'a talk" and k
    by (simp add: talk_inv_def)
  show ?thesis
  proof (rule obeysI)
    fix s :: "'a talk" and y u
    assume "talk_inv s" "bnd (new_pack env) f s = Inr (y, u)"
    with obeysD [OF f] tick show "talk_inv u \<and> no_relation s u"
      unfolding run by (metis no_relation_def)
  next
    fix s :: "'a talk"
    assume "talk_inv s"
    with obeys_returns [OF f] tick show "bnd (new_pack env) f s \<noteq> Inl No_Return"
      unfolding run by metis
  qed
qed

text \<open>A packet whose message has been set, and what is done with it.\<close>

lemma keeps_answer: "sized p \<Longrightarrow> obeys talk_inv no_relation (answer_with t p)"
  unfolding answer_with_def
  by (auto intro!: kept.obeys_bnd_lifted keeps_sends no_hang dest: set_sized)

lemma box_push_no_hang [no_hang]: "box_push x b \<noteq> Inl No_Return"
  by (auto simp: box_push_def Let_def rbind_eq_Inl set_next_def deref_def
      split: prod.splits option.splits)

lemma keeps_push_off: "obeys talk_inv no_relation (push_off x)"
proof (rule obeysI)
  fix s :: "'a talk" and y u
  assume inv: "talk_inv s" and "push_off x s = Inr (y, u)"
  then obtain b where b: "box_push x (t_box s) = Inr b" "u = s\<lparr>t_box := b\<rparr>"
    by (auto simp: push_off_def rbind_eq_Inr)
  from inv obtain xs where "box_holds (t_box s) xs" by (auto simp: talk_inv_def)
  from box_push_holds [OF this, of x] b(1) have "box_holds b (xs @ [x])" by simp
  with inv b(2) show "talk_inv u \<and> no_relation s u" by (auto simp: talk_inv_def no_relation_def)
next
  fix s :: "'a talk"
  show "push_off x s \<noteq> Inl No_Return"
    by (auto simp: push_off_def rbind_eq_Inl no_hang)
qed

text \<open>\<open>pro_off\<close>: the loop ends on every box that holds a list.\<close>

lemma deliver_off_keeps:
  assumes "stack_sized env"
  shows "obeys talk_inv no_relation (deliver_off env fd x)"
  unfolding deliver_off_def
  by (rule keeps_new_pack [OF assms])
    (auto intro!: kept.obeys_bnd_lifted keeps_sends no_hang dest!: set_sized)

lemma deliver_off_box: "deliver_off env fd x s = Inr (y, t) \<Longrightarrow> t_box t = t_box s"
  by (auto simp: deliver_off_def bnd_eq_Inr lifted_eq_Inr new_pack_def fresh_def
      send_other_PACK_def setting_def)

lemma box_sift_returns: "box_holds b xs \<Longrightarrow> box_sift wanted visit b s \<noteq> None"
proof (cases "each visit (filter wanted xs) s")
  case (Inl e)
  moreover assume "box_holds b xs"
  ultimately show ?thesis using box_sift_fault by fastforce
next
  case (Inr w)
  moreover assume "box_holds b xs"
  ultimately show ?thesis using box_sift_holds [of b xs visit wanted s "snd w"]
    by (cases w) auto
qed


lemma pro_off_keeps:
  assumes "stack_sized env"
  shows "obeys talk_inv no_relation (pro_off env a fd)"
proof -
  let ?wanted = "\<lambda>x. off_send_account x = a"
  have each_keeps: "obeys talk_inv no_relation (each (deliver_off env fd) ys)" for ys
    by (intro kept.obeys_each deliver_off_keeps assms)
  have each_box: "each (deliver_off env fd) ys s = Inr (y, t) \<Longrightarrow> t_box t = t_box s" for ys s y t
    by (induction ys arbitrary: s)
      (auto simp: bnd_eq_Inr retn_def dest: deliver_off_box)
  show ?thesis
  proof (rule obeysI)
    fix s :: "'a talk" and y u
    assume inv: "talk_inv s" and p: "pro_off env a fd s = Inr (y, u)"
    from inv obtain xs where h: "box_holds (t_box s) xs" by (auto simp: talk_inv_def)
    show "talk_inv u \<and> no_relation s u"
    proof (cases "each (deliver_off env fd) (filter ?wanted xs) s")
      case (Inl e)
      with p box_sift_fault [OF h Inl] show ?thesis by (simp add: pro_off_def returning_def)
    next
      case (Inr w)
      then obtain s' where w: "each (deliver_off env fd) (filter ?wanted xs) s = Inr ((), s')"
        by (cases w) auto
      from obeysD [OF each_keeps inv w] have "talk_inv s'" by simp
      moreover from box_sift_holds [OF h w] obtain b' where
        "box_sift ?wanted (deliver_off env fd) (t_box s) s = Some (Inr (b', s'))"
        "box_holds b' (filter (\<lambda>x. \<not> ?wanted x) xs)" by blast
      ultimately show ?thesis using p
        by (auto simp: pro_off_def returning_def talk_inv_def no_relation_def)
    qed
  next
    fix s :: "'a talk"
    assume inv: "talk_inv s"
    then obtain xs where h: "box_holds (t_box s) xs" by (auto simp: talk_inv_def)
    show "pro_off env a fd s \<noteq> Inl No_Return"
    proof (cases "each (deliver_off env fd) (filter ?wanted xs) s")
      case (Inl e)
      with obeys_returns [OF each_keeps inv] box_sift_fault [OF h Inl] show ?thesis
        by (auto simp: pro_off_def returning_def)
    next
      case (Inr w)
      then have w: "each (deliver_off env fd) (filter ?wanted xs) s = Inr ((), snd w)"
        by (cases w) auto
      from box_sift_holds [OF h w] show ?thesis by (auto simp: pro_off_def returning_def)
    qed
  qed
qed

section \<open>Every handler keeps the invariant\<close>

lemma g_keeps: "obeys talk_inv no_relation (g_at i)" "obeys talk_inv no_relation (g_put i r)"
  by (auto simp: obeys_def g_at_def g_put_def bnd_def getting_def setting_def lifted_def talk_inv_def
      no_relation_def rd_def)

lemma set_g_keeps: "obeys talk_inv no_relation (set_online i a v)"
  "obeys talk_inv no_relation (set_fd i a v)"
  unfolding set_online_def set_fd_def
  by (intro kept.obeys_bnd kept.obeys_bnd_lifted g_keeps no_hang)+

lemma off_keeps: "obeys talk_inv no_relation (deal_group_off env p)"
  "obeys talk_inv no_relation (deal_fri_off env p)"
  unfolding deal_group_off_def deal_fri_off_def
  by (intro kept.obeys_bnd kept.obeys_bnd_lifted keeps_push_off quiet_keeps quiet_ops no_hang)+

text \<open>The rules in the order they are to be tried: the particular ones first.\<close>

lemmas keeps_rules = keeps_new_pack kept.obeys_bnd_lifted kept.obeys_bnd_retn kept.obeys_bnd_if
  kept.obeys_bnd_assoc
  kept.obeys_bnd kept.obeys_retn kept.obeys_lifted kept.obeys_getting kept.obeys_if kept.obeys_when
  kept.obeys_each keeps_sends keeps_answer pro_off_keeps off_keeps g_keeps set_g_keeps quiet_keeps

lemmas sized_rules = set_sized set_formatted_sized sender_names_sized

lemma send_steps_keep:
  assumes "sized q" and "\<And>y. sized y \<Longrightarrow> obeys talk_inv no_relation (k y)"
  shows "obeys talk_inv no_relation (bnd (send_friend f i q) k)"
    "obeys talk_inv no_relation (bnd (send_chat c i q) k)"
    "obeys talk_inv no_relation (bnd (send_member g i q) k)"
    "obeys talk_inv no_relation (bnd (send_group_chat d i q) k)"
  unfolding send_friend_def send_chat_def send_member_def send_group_chat_def
  by (rule assms(2) keeps_rules no_hang | (use assms(1) in \<open>force dest: sized_rules\<close>))+

lemma keeps_scan_friend:
  "sized q \<Longrightarrow> (\<And>y. sized y \<Longrightarrow> obeys talk_inv no_relation (k y))
   \<Longrightarrow> obeys talk_inv no_relation (bnd (scan_array stop a (send_friend f) i n q) k)"
  by (rule kept.obeys_bnd_scan [where Q = sized]) (blast intro: send_steps_keep)+

lemma keeps_scan_chat:
  "sized q \<Longrightarrow> (\<And>y. sized y \<Longrightarrow> obeys talk_inv no_relation (k y))
   \<Longrightarrow> obeys talk_inv no_relation (bnd (scan_array stop a (send_chat c) i n q) k)"
  by (rule kept.obeys_bnd_scan [where Q = sized]) (blast intro: send_steps_keep)+

lemma keeps_scan_member:
  "sized q \<Longrightarrow> (\<And>y. sized y \<Longrightarrow> obeys talk_inv no_relation (k y))
   \<Longrightarrow> obeys talk_inv no_relation (bnd (scan_array stop a (send_member g) i n q) k)"
  by (rule kept.obeys_bnd_scan [where Q = sized]) (blast intro: send_steps_keep)+

lemma keeps_scan_group_chat:
  "sized q \<Longrightarrow> (\<And>y. sized y \<Longrightarrow> obeys talk_inv no_relation (k y))
   \<Longrightarrow> obeys talk_inv no_relation (bnd (scan_array stop a (send_group_chat d) i n q) k)"
  by (rule kept.obeys_bnd_scan [where Q = sized]) (blast intro: send_steps_keep)+

lemmas keeps_scans = keeps_scan_friend keeps_scan_chat keeps_scan_member keeps_scan_group_chat

lemma deal_accounts_keep:
  assumes "stack_sized env"
  shows "obeys talk_inv no_relation (deal_login env p)" "obeys talk_inv no_relation (deal_regist env p)"
    "obeys talk_inv no_relation (deal_repass env p)"
  unfolding deal_login_def deal_regist_def deal_repass_def
  by (rule keeps_rules quiet_ops no_hang assms | (force dest: set_sized))+

lemma deal_friends_keep:
  assumes "stack_sized env" and "sized p"
  shows "obeys talk_inv no_relation (deal_chat_fri env p)" "obeys talk_inv no_relation (deal_dele_fri env p)"
    "obeys talk_inv no_relation (deal_addfriend env p)" "obeys talk_inv no_relation (recv_addfr_PACK env p)"
    "obeys talk_inv no_relation (deal_list_fri env p)" "obeys talk_inv no_relation (deal_online_fri env p)"
    "obeys talk_inv no_relation (deal_store_fri env p)"
  unfolding deal_chat_fri_def deal_dele_fri_def deal_addfriend_def recv_addfr_PACK_def Let_def
    deal_list_fri_def deal_online_fri_def deal_store_fri_def
  by (rule keeps_scans keeps_rules quiet_ops no_hang assms(1)
      | assumption | (use assms(2) in \<open>force dest: sized_rules\<close>))+

lemma deal_groups_keep:
  assumes "stack_sized env" and "sized p"
  shows "obeys talk_inv no_relation (deal_creat_group env p)"
    "obeys talk_inv no_relation (deal_join_group env p)" "obeys talk_inv no_relation (deal_quit_group env p)"
    "obeys talk_inv no_relation (deal_dele_group env p)" "obeys talk_inv no_relation (deal_group_mes env p)"
    "obeys talk_inv no_relation (deal_find_store_g env p)" "obeys talk_inv no_relation (deal_set_up env p)"
  unfolding deal_creat_group_def deal_join_group_def deal_quit_group_def deal_dele_group_def
    deal_group_mes_def deal_find_store_g_def deal_set_up_def Let_def
  by (rule keeps_scans keeps_rules quiet_ops no_hang assms(1)
      | assumption | (use assms(2) in \<open>force dest: sized_rules\<close>))+

lemma tell_member_keeps: "sized p \<Longrightarrow> obeys talk_inv no_relation (tell_member env f p)"
  by (simp add: tell_member_def keeps_sends off_keeps)

lemma deal_users_keep:
  assumes "stack_sized env" and "sized p"
  shows "obeys talk_inv no_relation (deal_join_user env p)" "obeys talk_inv no_relation (deal_dele_user env p)"
  unfolding deal_join_user_def deal_dele_user_def Let_def
  by (rule tell_member_keeps keeps_rules quiet_ops no_hang assms(1)
      | assumption | (use assms(2) in \<open>force dest: sized_rules\<close>))+

lemma globals_keep:
  "obeys talk_inv no_relation (setting (\<lambda>s. s\<lparr>t_file_account := a\<rparr>))"
  "obeys talk_inv no_relation (setting (\<lambda>s. s\<lparr>t_file_fri := f\<rparr>))"
  "obeys talk_inv no_relation (setting (\<lambda>s. s\<lparr>t_group_name := b, t_group_account := g\<rparr>))"
  "obeys talk_inv no_relation (setting (\<lambda>s. s\<lparr>t_fd := fd\<rparr>))"
  "obeys talk_inv no_relation (setting (\<lambda>s. s\<lparr>t_closed := c s, t_watched := w s\<rparr>))"
  "obeys talk_inv no_relation (setting (\<lambda>s. s\<lparr>t_watched := w s\<rparr>))"
  by (rule kept.obeys_setting, simp add: talk_inv_def no_relation_def)+

lemma deal_file_keeps:
  assumes "sized p"
  shows "obeys talk_inv no_relation (talk_send_file env p)"
  unfolding talk_send_file_def
  by (rule globals_keep keeps_rules quiet_ops assms)+

lemma chat_parts_keep:
  "obeys talk_inv no_relation (enter_member g me i)"
  "sized q \<Longrightarrow> obeys talk_inv no_relation (group_fan env me q i)"
  "obeys talk_inv no_relation (refresh_group_name env gid)"
  "sized p \<Longrightarrow> obeys talk_inv no_relation (enter_group env p row)"
proof -
  show em: "obeys talk_inv no_relation (enter_member g me i)" for g me i
    unfolding enter_member_def by (rule keeps_rules no_hang)+
  show "sized q \<Longrightarrow> obeys talk_inv no_relation (group_fan env me q i)"
    unfolding group_fan_def Let_def by (rule keeps_rules no_hang | simp)+
  show "obeys talk_inv no_relation (refresh_group_name env gid)"
    unfolding refresh_group_name_def by (rule globals_keep keeps_rules quiet_ops no_hang)+
  show "sized p \<Longrightarrow> obeys talk_inv no_relation (enter_group env p row)"
    unfolding enter_group_def by (rule em keeps_rules quiet_ops no_hang | assumption)+
qed

lemma group_message_keeps:
  assumes "stack_sized env"
  shows "obeys talk_inv no_relation (group_message env p g)"
  unfolding group_message_def
  by (rule chat_parts_keep keeps_rules quiet_ops no_hang sender_name_no_hang rfold_no_hang assms
      | assumption | (force dest: sized_rules))+

lemma deal_chat_group_keeps:
  assumes "stack_sized env" and "sized p"
  shows "obeys talk_inv no_relation (deal_chat_group env p)"
proof -
  have rest: "obeys talk_inv no_relation (case e of None \<Rightarrow> retn () | Some g \<Rightarrow>
      bnd (lifted (str_eq (p_mes p) ''Bye'')) (\<lambda>bye.
        if bye then bnd (lifted (wr 50 (gr_account g) (p_account p) 0)) (\<lambda>_. retn ())
        else group_message env p g))" for e
    by (cases e) (auto intro!: kept.obeys_rules group_message_keeps assms no_hang)
  show ?thesis unfolding deal_chat_group_def
    by (rule rest kept.obeys_bnd kept.obeys_if kept.obeys_retn g_keeps chat_parts_keep assms | assumption
        | rule quiet_keeps quiet_ops)+
qed

lemma deal_keeps:
  assumes "stack_sized env" and "sized p"
  shows "obeys talk_inv no_relation (deal env p)"
  unfolding deal_def Let_def
  using deal_accounts_keep [OF assms(1), of p] deal_friends_keep [OF assms] deal_groups_keep [OF assms]
    deal_users_keep [OF assms] deal_file_keeps [OF assms(2), of env] deal_chat_group_keeps [OF assms]
    quiet_keeps [OF quiet_basic(1)]
  by (intro kept.obeys_bnd) (simp_all add: kept.obeys_retn)

section \<open>The loop\<close>

lemma received_keeps:
  assumes "stack_sized env" and "sized old" and "length b \<le> PACK_size"
  shows "obeys talk_inv no_relation (received env fd old b)"
  unfolding received_def
  by (intro kept.obeys_if kept.obeys_bnd kept.obeys_each globals_keep set_g_keeps
      quiet_keeps [OF quiet_accounts(2)] deal_keeps [OF assms(1)] fill_sized [OF assms(2,3)])

lemma recv_all_length: "recv_all n segs = (b, rest) \<Longrightarrow> length b \<le> n"
  using recv_all_bytes [of n segs] by simp

lemma talk_inv_fields:
  "talk_inv (s\<lparr>t_tick := k\<rparr>) = talk_inv s" "talk_inv (s\<lparr>t_fd := fd\<rparr>) = talk_inv s"
  "talk_inv (s\<lparr>t_wire := w\<rparr>) = talk_inv s" "talk_inv (s\<lparr>t_watched := ws\<rparr>) = talk_inv s"
  by (simp_all add: talk_inv_def)

text \<open>A readable connection that holds, and will hold, less than a packet, and stays open.\<close>

fun cut_off :: "'db talk \<Rightarrow> talk_event \<Rightarrow> bool" where
  "cut_off s (Readable fd (Arrives segs False)) \<longleftrightarrow> length (concat (t_wire s fd @ segs)) < PACK_size"
| "cut_off s ev \<longleftrightarrow> False"

lemma recv_PACK_run:
  "recv_PACK env fd w s =
     (let u = s\<lparr>t_tick := Suc (t_tick s), t_fd := fd\<rparr>; old = stack_pack env (t_tick s)
      in case w of
           Recv_Error \<Rightarrow> deal env old u
         | Arrives segs closed \<Rightarrow>
             (case recv_all PACK_size (t_wire s fd @ segs) of
                (b, rest) \<Rightarrow>
                  if cut_off s (Readable fd w) then Inl No_Return
                  else received env fd old b (u\<lparr>t_wire := (t_wire s)(fd := rest)\<rparr>)))"
proof (cases w)
  case (Arrives segs closed)
  obtain b rest where r: "recv_all PACK_size (t_wire s fd @ segs) = (b, rest)" by fastforce
  with recv_all_bytes [of PACK_size "t_wire s fd @ segs"]
  have "length b < PACK_size \<longleftrightarrow> length (concat (t_wire s fd @ segs)) < PACK_size" by simp linarith
  with Arrives r show ?thesis
    by (cases closed) (simp_all add: recv_PACK_def bnd_def new_pack_def fresh_def setting_def getting_def lifted_def Let_def)
qed (simp add: recv_PACK_def bnd_def new_pack_def fresh_def setting_def Let_def)

lemma recv_PACK_steps:
  assumes "stack_sized env" and "talk_inv s"
  shows "recv_PACK env fd w s = Inr (x, t) \<Longrightarrow> talk_inv t"
    and "recv_PACK env fd w s = Inl No_Return \<longleftrightarrow> cut_off s (Readable fd w)"
proof -
  let ?old = "stack_pack env (t_tick s)" and ?u = "s\<lparr>t_tick := Suc (t_tick s), t_fd := fd\<rparr>"
  have old: "sized ?old" using assms(1) by (simp add: stack_sized_def)
  have u: "talk_inv ?u" "talk_inv (?u\<lparr>t_wire := v\<rparr>)" for v using assms(2) by (simp_all add: talk_inv_fields)
  note d = deal_keeps [OF assms(1) old]
  note rc = received_keeps [OF assms(1) old recv_all_length]
  show "talk_inv t" if "recv_PACK env fd w s = Inr (x, t)"
    using that obeysD [OF d u(1)] obeysD [OF rc u(2)] unfolding recv_PACK_run
    by (auto simp: Let_def split: wire.splits prod.splits if_splits)
  show "recv_PACK env fd w s = Inl No_Return \<longleftrightarrow> cut_off s (Readable fd w)"
    using obeys_returns [OF d u(1)] obeys_returns [OF rc u(2)] unfolding recv_PACK_run
    by (auto simp: Let_def split: wire.splits prod.splits)
qed

lemma talk_handle_steps:
  assumes "stack_sized env" and "talk_inv s"
  shows "talk_handle env ev s = Inr (x, t) \<Longrightarrow> talk_inv t"
    and "talk_handle env ev s = Inl No_Return \<longleftrightarrow> cut_off s ev"
  using recv_PACK_steps [OF assms] assms(2)
  by (cases ev; auto simp: setting_def talk_inv_fields)+

lemma talk_loop_inv:
  assumes "stack_sized env"
  shows "talk_inv s \<Longrightarrow> talk_loop env evs s = Inr (x, t) \<Longrightarrow> talk_inv t"
  unfolding talk_loop_def
proof (induction evs arbitrary: s)
  case (Cons ev evs)
  from Cons.prems(2) obtain u where "talk_handle env ev s = Inr ((), u)" "each (talk_handle env) evs u = Inr (x, t)"
    by (auto simp: bnd_eq_Inr)
  with Cons talk_handle_steps(1) [OF assms] show ?case by blast
qed (simp add: retn_def)

lemma talk_loop_waits:
  assumes "stack_sized env"
  shows "talk_inv s \<Longrightarrow> talk_loop env evs s = Inl No_Return
    \<longleftrightarrow> (\<exists>es ev es' t. evs = es @ ev # es' \<and> talk_loop env es s = Inr ((), t) \<and> cut_off t ev)"
  unfolding talk_loop_def
proof (induction evs arbitrary: s)
  case (Cons ev evs)
  note handle = talk_handle_steps [OF assms Cons.prems, of ev]
  have first: "(\<exists>es ev' es' t. ev # evs = es @ ev' # es' \<and> P es t \<and> cut_off t ev')
    \<longleftrightarrow> (\<exists>t. P [] t \<and> cut_off t ev) \<or> (\<exists>es ev' es' t. evs = es @ ev' # es' \<and> P (ev # es) t \<and> cut_off t ev')" for P
    unfolding Cons_eq_append_conv by blast
  have split: "(\<exists>es ev' es' t. ev # evs = es @ ev' # es' \<and> each (talk_handle env) es s = Inr ((), t) \<and> cut_off t ev')
    \<longleftrightarrow> cut_off s ev \<or> (\<exists>es ev' es' t. evs = es @ ev' # es' \<and> each (talk_handle env) (ev # es) s = Inr ((), t) \<and> cut_off t ev')"
    unfolding first by (simp add: retn_def)
  show ?case
  proof (cases "talk_handle env ev s")
    case (Inl e)
    then show ?thesis unfolding split using handle(2) by (simp add: bnd_def)
  next
    case (Inr w)
    then obtain u where u: "talk_handle env ev s = Inr ((), u)" by (cases w) auto
    from handle(1) [OF u] Cons.IH show ?thesis unfolding split using handle(2) u by (simp add: bnd_def)
  qed
qed (simp add: retn_def)

lemma talk_main_start:
  assumes "talk_inv s"
  shows "\<exists>t. MYSQL_main_init env s = Inr ((), t) \<and> talk_inv t \<or> (\<exists>e. e \<noteq> No_Return \<and> MYSQL_main_init env s = Inl e)"
proof (cases "MYSQL_main_init env s")
  case (Inl e)
  with obeys_returns [OF quiet_keeps [OF quiet_accounts(3)] assms, of env] show ?thesis by auto
next
  case (Inr w)
  then show ?thesis using obeysD [OF quiet_keeps [OF quiet_accounts(3)] assms] by (cases w) fastforce
qed

lemma talk_main_inv:
  assumes "stack_sized env" and "talk_inv s" and "talk_main env evs s = Inr (x, t)"
  shows "talk_inv t"
  using talk_main_start [OF assms(2), of env] talk_loop_inv [OF assms(1)] assms(3)
  by (auto simp: talk_main_def bnd_eq_Inr)

lemma talk_main_waits:
  assumes "stack_sized env" and "talk_inv s"
  shows "talk_main env evs s = Inl No_Return
    \<longleftrightarrow> (\<exists>es ev es' t. evs = es @ ev # es' \<and> talk_main env es s = Inr ((), t) \<and> cut_off t ev)"
  using talk_main_start [OF assms(2), of env]
proof (elim exE disjE conjE)
  fix t
  assume "MYSQL_main_init env s = Inr ((), t)" "talk_inv t"
  with talk_loop_waits [OF assms(1)] show ?thesis by (simp add: talk_main_def bnd_def)
next
  fix e
  assume "e \<noteq> No_Return" "MYSQL_main_init env s = Inl e"
  then show ?thesis by (simp add: talk_main_def bnd_def)
qed

lemma talk_start_inv: "talk_inv (talk_start db)"
  unfolding talk_inv_def talk_start_def by (auto intro!: exI [of _ "[]"])

text \<open>A run in which a packet is sent.\<close>

lemma demo_run:
  "\<exists>s m. talk_main (demo_env (demo_pack DELE_GROUP 7 8 []) Failed) [Readable 5 Recv_Error] (talk_start ()) = Inr ((), s)
     \<and> t_sent s = [(5, m)]"
proof -
  have d: "dec 7 = ''7''" "dec 8 = ''8''" by code_simp+
  have q: "length not_owner < 1000" by (simp add: not_owner_def)
  have "put_str 1000 not_owner b = Inr (not_owner @ CHR 0x00 # drop (Suc (length not_owner)) b)" for b
    using q by (simp add: fits_def)
  then show ?thesis
    by (simp add: talk_main_def MYSQL_main_init_def MYSQL_init_def mysql_close_def sql_def sprintf_to_def
        run_query_def talk_loop_def recv_PACK_def new_pack_def fresh_def deal_def DELE_GROUP_def
        deal_dele_group_def MYSQL_find_gowner_def row_exists_def fetch_all_def answer_with_def set_mes_def
        send_PACK_def bnd_def lifted_def setting_def retn_def sprintf_def fits_def d talk_start_def Let_def)
qed



text \<open>
  C4: The linked list of stored messages is well-formed in every state the server reaches: it is
  empty, or a chain of distinct live nodes from the sentinel, each message written, that ends at
  the node \<open>pend\<close> points to.
\<close>

theorem talk_box_invariant:
  assumes "stack_sized env" and "talk_main env evs (talk_start db) = Inr ((), s)"
  shows "\<exists>xs. box_holds (t_box s) xs"
  using talk_main_inv [OF assms(1) talk_start_inv assms(2)] by (simp add: talk_inv_def)

theorem talk_box_invariant_witness:
  "\<exists>s xs. talk_main (demo_env (demo_pack DELE_GROUP 7 8 []) Failed) [Readable 5 Recv_Error] (talk_start ()) = Inr ((), s)
     \<and> box_holds (t_box s) xs"
proof -
  have z: "stack_sized (demo_env (demo_pack DELE_GROUP 7 8 []) Failed)"
    by (simp add: stack_sized_def demo_pack_def sized_def zero_pack_def)
  from demo_run obtain s where r: "talk_main (demo_env (demo_pack DELE_GROUP 7 8 []) Failed)
      [Readable 5 Recv_Error] (talk_start ()) = Inr ((), s)" by blast
  from talk_box_invariant [OF z r] r show ?thesis by auto
qed

end
