(* ===== verification/Talk_Facts.thy ===== *)
theory Talk_Facts
  imports Talk_Laws
begin

text \<open>
  What the functions of \<open>MYSQL.c\<close> return for given answers of the database, and the texts of the
  queries they make; the handlers' properties rest on these.
\<close>

named_theorems query_texts \<open>the queries as text\<close>

section \<open>Query texts\<close>

lemma dec_fits: "int32 i \<Longrightarrow> length (dec i) \<le> 11"
  using dec_length_le by (simp add: int32_def)

lemma sprintf_to_fits:
  assumes "format junk fmt args = Inr t" and "length t < cap"
  shows "sprintf_to cap junk fmt args = Inr t"
  using assms by (simp add: sprintf_to_def sprintf_def fits_def)

definition user_query :: "int \<Rightarrow> string" where
  "user_query a = ''select * from user where id = '' @ dec a"

definition login_query :: "int \<Rightarrow> string" where
  "login_query a = ''select *from user where id = '' @ dec a @ '' ''"

definition friends_query :: "int \<Rightarrow> int \<Rightarrow> string" where
  "friends_query a b = ''select * from friends where id1 = '' @ dec a @ '' and id2 = '' @ dec b"

definition friend_list_query :: "int \<Rightarrow> string" where
  "friend_list_query a = ''select * from friends where id1 = '' @ dec a"

definition vip_query :: "int \<Rightarrow> int \<Rightarrow> string" where
  "vip_query a g = ''select * from g_meber  where group_member = '' @ dec a @
     '' and group_id = '' @ dec g @ '' and (member_flag != 0)''"

definition quit_query :: "int \<Rightarrow> int \<Rightarrow> string" where
  "quit_query a g = ''delete from g_meber where group_id = '' @ dec g @
     '' and group_member = '' @ dec a"

definition chat_text :: "int \<Rightarrow> int \<Rightarrow> string \<Rightarrow> string" where
  "chat_text a b t = ''insert into chat_fri (id1,id2,mes)values ('' @ dec a @ '','' @ dec b @
     '','' @ quoted t @ '')''"

lemma user_text [query_texts]:
  assumes "int32 a"
  shows "sprintf_to 1000 0 ''select * from user where id = %d'' [D a] = Inr (user_query a)"
  unfolding user_query_def
  by (rule sprintf_to_fits) (use dec_fits [OF assms] in simp_all)

lemma login_text [query_texts]:
  assumes "int32 a"
  shows "sprintf_to 1000 0 ''select *from user where id = %d '' [D a] = Inr (login_query a)"
  unfolding login_query_def
  by (rule sprintf_to_fits) (use dec_fits [OF assms] in simp_all)

lemma friends_text [query_texts]:
  assumes "int32 a" "int32 b"
  shows "sprintf_to 1000 0 ''select * from friends where id1 = %d and id2 = %d'' [D a, D b]
    = Inr (friends_query a b)"
  unfolding friends_query_def
  by (rule sprintf_to_fits) (use dec_fits [OF assms(1)] dec_fits [OF assms(2)] in simp_all)

lemma friend_list_text [query_texts]:
  assumes "int32 a"
  shows "sprintf_to 1000 0 ''select * from friends where id1 = %d'' [D a] = Inr (friend_list_query a)"
  unfolding friend_list_query_def
  by (rule sprintf_to_fits) (use dec_fits [OF assms] in simp_all)

lemma vip_text [query_texts]:
  assumes "int32 a" "int32 g"
  shows "sprintf_to 1000 0
    ''select * from g_meber  where group_member = %d and group_id = %d and (member_flag != 0)''
    [D a, D g] = Inr (vip_query a g)"
  unfolding vip_query_def
  by (rule sprintf_to_fits) (use dec_fits [OF assms(1)] dec_fits [OF assms(2)] in simp_all)

lemma quit_text [query_texts]:
  assumes "int32 a" "int32 g"
  shows "sprintf_to 1000 0 ''delete from g_meber where group_id = %d and group_member = %d'' [D g, D a]
    = Inr (quit_query a g)"
  unfolding quit_query_def
  by (rule sprintf_to_fits) (use dec_fits [OF assms(1)] dec_fits [OF assms(2)] in simp_all)

text \<open>The text of a message may make this one too long for the array.\<close>

lemma chat_format: "format 0 ''insert into chat_fri (id1,id2,mes)values (%d,%d,'%s')''
    [D a, D b, S t] = Inr (chat_text a b t)"
  by (simp add: chat_text_def quoted_def)

text \<open>The messages fit the arrays they are copied to.\<close>

lemma utf8_cstring:
  "list_all (\<lambda>n. 0 < n \<and> n < 256) bs \<Longrightarrow> length bs < cap \<Longrightarrow> cstring cap (utf8 bs)"
  by (simp add: cstring_def fits_def utf8_no_NUL)

lemma answers_fit:
  "cstring 1000 not_a_friend" "cstring 1000 removed_ok" "cstring 1000 login_ok"
  unfolding not_a_friend_def removed_ok_def login_ok_def by (rule utf8_cstring; simp)+

section \<open>Answers\<close>

lemma sql_run:
  assumes "sprintf_to 1000 0 fmt args = Inr q" and "exec env (t_open s) (t_db s) q = (a, d)"
  shows "sql env fmt args s = Inr (a, s\<lparr>t_db := d, t_queries := t_queries s @ [q]\<rparr>)"
  using assms by (simp add: sql_def bnd_def lifted_def run_query_def)

lemma handle_runs:
  "MYSQL_init s = Inr ((), s\<lparr>t_open := True\<rparr>)" "mysql_close s = Inr ((), s\<lparr>t_open := False\<rparr>)"
  "fetch_all (Rows rs) s = Inr (rs, s\<lparr>t_result := Some True\<rparr>)"
  "mysql_store_result (Rows rs) s = Inr (rs, s\<lparr>t_result := Some True\<rparr>)"
  "t_result u = Some True \<Longrightarrow> mysql_free_result u = Inr ((), u\<lparr>t_result := Some False\<rparr>)"
  "fresh f s = Inr (f (t_tick s), s\<lparr>t_tick := Suc (t_tick s)\<rparr>)"
  by (simp_all add: MYSQL_init_def mysql_close_def setting_def fetch_all_def mysql_store_result_def
      bnd_def retn_def mysql_free_result_def fresh_def)

lemma find_frirela_run:
  assumes "int32 a" "int32 b" and "exec env True (t_db s) (friends_query a b) = (Rows rs, d)"
  shows "\<exists>t. MYSQL_find_frirela env a b s = Inr (if rs = [] then - 1 else 0, t)
    \<and> outside t = outside s \<and> t_db t = d"
  using assms unfolding MYSQL_find_frirela_def
  by (simp add: bnd_def handle_runs sql_run [OF friends_text] retn_def outside_def)

text \<open>A row of the table \<open>user\<close>: the name, the online mark and the socket.\<close>

definition user_row_is :: "row \<Rightarrow> string \<Rightarrow> int \<Rightarrow> int \<Rightarrow> bool" where
  "user_row_is r nm on fd \<longleftrightarrow> column r 1 = Inr nm \<and> cstring 100 nm
     \<and> int_column r 3 = Inr on \<and> int_column r 4 = Inr fd"

lemma find_fd_run:
  assumes "int32 a" and "exec env True (t_db s) (user_query a) = (Rows (r # rs), d)"
    and "user_row_is r nm on fd"
  shows "\<exists>f t. MYSQL_find_fd env a s = Inr (f, t) \<and> outside t = outside s \<and> t_db t = d
    \<and> fri_account f 0 = fd \<and> fri_online f 0 = on \<and> cstr (fri_name f 0) = Inr nm"
  using assms unfolding MYSQL_find_fd_def
  by (simp add: bnd_def handle_runs sql_run [OF user_text] retn_def outside_def lifted_def
      user_row_is_def cstring_def)

lemma find_fd_user_run:
  assumes "int32 a" and "exec env True (t_db s) (user_query a) = (Rows (r # rs), d)"
    and "int_column r 4 = Inr fd"
  shows "\<exists>t. MYSQL_find_fd_user env a s = Inr (fd, t) \<and> outside t = outside s \<and> t_db t = d"
  using assms unfolding MYSQL_find_fd_user_def
  by (simp add: bnd_def handle_runs sql_run [OF user_text] retn_def outside_def lifted_def)

lemma find_group_vip_run:
  assumes "int32 a" "int32 g" and "exec env True (t_db s) (vip_query a g) = (Rows rs, d)"
  shows "\<exists>t. MYSQL_find_group_vip env a g s = Inr (if rs = [] then - 1 else 0, t)
    \<and> outside t = outside s \<and> t_db t = d"
  using assms unfolding MYSQL_find_group_vip_def row_exists_def
  by (simp add: bnd_def handle_runs sql_run [OF vip_text] retn_def outside_def)

lemma quit_group_run:
  assumes "int32 a" "int32 g" and "exec env True (t_db s) (quit_query a g) = (x, d)"
  shows "\<exists>t. MYSQL_quit_group env a g s = Inr (if x = Failed then - 1 else 0, t)
    \<and> outside t = outside s \<and> t_db t = d"
  using assms unfolding MYSQL_quit_group_def
  by (simp add: bnd_def handle_runs sql_run [OF quit_text] retn_def outside_def)

section \<open>Storing a message\<close>

definition chat_room :: "int \<Rightarrow> int \<Rightarrow> string \<Rightarrow> bool" where
  "chat_room a b t \<longleftrightarrow> length (dec a) + length (dec b) + length t < 953"

lemma length_chat_text: "length (chat_text a b t) = 47 + length (dec a) + length (dec b) + length t"
  by (simp add: chat_text_def)

lemma store_chat_run:
  assumes "cstr m = Inr t" and "chat_room a b t"
    and "exec env True (t_db s) (chat_text a b t) = (x, d)"
  shows "\<exists>u. MYSQL_store_chat env a b m s = Inr (if x = Failed then - 1 else 0, u)
    \<and> outside u = outside s \<and> t_db u = d"
proof -
  have q: "sprintf_to 1000 0 ''insert into chat_fri (id1,id2,mes)values (%d,%d,'%s')'' [D a, D b, S t]
      = Inr (chat_text a b t)"
    using assms(2) by (intro sprintf_to_fits chat_format)
      (simp add: length_chat_text chat_room_def)
  show ?thesis using assms(1,3) unfolding MYSQL_store_chat_def
    by (simp add: bnd_def handle_runs sql_run [OF q] lifted_def retn_def outside_def)
qed

lemma store_chat_exact:
  assumes "cstr m = Inr t"
  shows "MYSQL_store_chat env a b m s = Inl Buffer_Overflow
    \<longleftrightarrow> 953 \<le> length (dec a) + length (dec b) + length t"
proof (cases "chat_room a b t")
  case True
  obtain x d where "exec env True (t_db s) (chat_text a b t) = (x, d)" by fastforce
  from store_chat_run [OF assms True this] True show ?thesis by (auto simp: chat_room_def)
next
  case False
  then have "sprintf_to 1000 0 ''insert into chat_fri (id1,id2,mes)values (%d,%d,'%s')''
      [D a, D b, S t] = Inl Buffer_Overflow"
    by (simp only: sprintf_to_def chat_format rbind_simps)
      (simp add: sprintf_def fits_def length_chat_text chat_room_def)
  with False assms show ?thesis
    by (simp add: MYSQL_store_chat_def bnd_def handle_runs lifted_def sql_def chat_room_def)
qed

text \<open>
  A private message is stored through a \<open>sprintf\<close> into an array of 1000 bytes without a bound:
  the array overflows exactly when the text and the two account numbers, as printed, have
  together 953 characters or more, although the packet's own array has room for 999.
\<close>

theorem store_chat_overflow:
  assumes "cstr m = Inr t"
  shows "MYSQL_store_chat env a b m s = Inl Buffer_Overflow
    \<longleftrightarrow> 953 \<le> length (dec a) + length (dec b) + length t"
  by (rule store_chat_exact [OF assms])

theorem store_chat_overflow_witness:
  "MYSQL_store_chat (demo_env zero_pack Done) 7 8 (replicate 960 (CHR ''a'') @ [CHR 0x00]) (talk_start ())
     = Inl Buffer_Overflow"
proof -
  have "cstr (replicate 960 (CHR ''a'') @ [CHR 0x00]) = Inr (replicate 960 (CHR ''a''))" by simp
  from store_chat_overflow [OF this, of "demo_env zero_pack Done" 7 8 "talk_start ()"]
  show ?thesis by simp
qed

end
