(* ===== verification/Talk_Session.thy ===== *)
theory Talk_Session
  imports Talk_Facts
begin

text \<open>
  The second chat room's server: what a login, a private message, a disconnection and a file
  packet do, and how the messages kept for an account are handed over.
\<close>

section \<open>Messages kept and handed over\<close>

text \<open>What can be read of a packet, and of a message kept for later.\<close>

type_synonym view = "(int \<times> int \<times> int) \<times> string result \<times> string result \<times> string result"

definition pack_view :: "PACK \<Rightarrow> view" where
  "pack_view p = ((p_type p, p_account p, p_send_account p),
     cstr (p_mes p), cstr (p_mes2 p), cstr (p_send_name p))"

definition off_view :: "OFF \<Rightarrow> view" where
  "off_view x = ((off_type x, off_account x, off_send_account x),
     cstr (off_mes x), cstr (off_mes2 x), cstr (off_send_name x))"

definition terminated :: "nat \<Rightarrow> string \<Rightarrow> bool" where
  "terminated n b \<longleftrightarrow> (\<exists>t. cstr b = Inr t \<and> cstring n t)"

text \<open>All three strings of the message can be copied.\<close>

definition off_ok :: "OFF \<Rightarrow> bool" where
  "off_ok x \<longleftrightarrow> terminated 1000 (off_mes x) \<and> terminated 1000 (off_mes2 x) \<and> terminated 100 (off_send_name x)"

lemma set_runs:
  "cstring 1000 t \<Longrightarrow> set_mes t p = Inr (p\<lparr>p_mes := t @ CHR 0x00 # drop (Suc (length t)) (p_mes p)\<rparr>)"
  "cstring 1000 t \<Longrightarrow> set_mes2 t p = Inr (p\<lparr>p_mes2 := t @ CHR 0x00 # drop (Suc (length t)) (p_mes2 p)\<rparr>)"
  "cstring 100 t \<Longrightarrow> set_name t p = Inr (p\<lparr>p_send_name := t @ CHR 0x00 # drop (Suc (length t)) (p_send_name p)\<rparr>)"
  by (simp_all add: set_mes_def set_mes2_def set_name_def cstring_def)

lemma cstring_NUL: "cstring n t \<Longrightarrow> CHR 0x00 \<notin> set t"
  by (simp add: cstring_def)

lemma deliver_off_run:
  assumes "off_ok x"
  shows "\<exists>p. deliver_off env fd x s
      = Inr ((), s\<lparr>t_tick := Suc (t_tick s), t_sent := t_sent s @ [(fd, p)]\<rparr>)
    \<and> pack_view p = off_view x"
proof -
  from assms obtain t t2 n where x: "cstr (off_mes x) = Inr t" "cstring 1000 t"
    "cstr (off_mes2 x) = Inr t2" "cstring 1000 t2" "cstr (off_send_name x) = Inr n" "cstring 100 n"
    by (auto simp: off_ok_def terminated_def)
  show ?thesis unfolding deliver_off_def
    by (simp add: bnd_def new_pack_def fresh_def lifted_def x set_runs send_other_PACK_def
        setting_def pack_view_def off_view_def cstring_NUL [OF x(2)] cstring_NUL [OF x(4)]
        cstring_NUL [OF x(6)]) (rule exI, rule conjI, rule refl,
        simp add: cstring_NUL [OF x(2)] cstring_NUL [OF x(4)] cstring_NUL [OF x(6)])
qed

lemma each_deliver:
  assumes "\<forall>x \<in> set xs. off_ok x"
  shows "\<exists>ps k. each (deliver_off env fd) xs s
      = Inr ((), s\<lparr>t_tick := k, t_sent := t_sent s @ map (Pair fd) ps\<rparr>)
    \<and> map pack_view ps = map off_view xs"
  using assms
proof (induction xs arbitrary: s)
  case Nil
  show ?case by (auto simp: retn_def intro!: exI [of _ "[]"] exI [of _ "t_tick s"])
next
  case (Cons x xs)
  from deliver_off_run [of x env fd s] Cons.prems obtain p where
    p: "deliver_off env fd x s = Inr ((), s\<lparr>t_tick := Suc (t_tick s), t_sent := t_sent s @ [(fd, p)]\<rparr>)"
    "pack_view p = off_view x" by auto
  from Cons.IH [of "s\<lparr>t_tick := Suc (t_tick s), t_sent := t_sent s @ [(fd, p)]\<rparr>"] Cons.prems
  obtain ps k where "each (deliver_off env fd) xs (s\<lparr>t_tick := Suc (t_tick s), t_sent := t_sent s @ [(fd, p)]\<rparr>)
      = Inr ((), s\<lparr>t_tick := k, t_sent := t_sent s @ (fd, p) # map (Pair fd) ps\<rparr>)"
    "map pack_view ps = map off_view xs" by auto
  with p show ?case by (auto simp: bnd_def intro!: exI [of _ "p # ps"])
qed

text \<open>The messages kept for an account.\<close>

definition kept_for :: "int \<Rightarrow> OFF list \<Rightarrow> OFF list" where
  "kept_for a xs = filter (\<lambda>x. off_send_account x = a) xs"

definition kept_others :: "int \<Rightarrow> OFF list \<Rightarrow> OFF list" where
  "kept_others a xs = filter (\<lambda>x. off_send_account x \<noteq> a) xs"

lemma pro_off_run:
  assumes "box_holds (t_box s) xs" and "\<forall>x \<in> set (kept_for a xs). off_ok x"
  shows "\<exists>ps k b. pro_off env a fd s
      = Inr ((), s\<lparr>t_tick := k, t_sent := t_sent s @ map (Pair fd) ps, t_box := b\<rparr>)
    \<and> map pack_view ps = map off_view (kept_for a xs) \<and> box_holds b (kept_others a xs)"
proof -
  from each_deliver [OF assms(2), of env fd s] obtain ps k where
    e: "each (deliver_off env fd) (kept_for a xs) s
      = Inr ((), s\<lparr>t_tick := k, t_sent := t_sent s @ map (Pair fd) ps\<rparr>)"
    "map pack_view ps = map off_view (kept_for a xs)" by blast
  from box_sift_holds [OF assms(1) e(1)[unfolded kept_for_def]] obtain b where
    "box_sift (\<lambda>x. off_send_account x = a) (deliver_off env fd) (t_box s) s
      = Some (Inr (b, s\<lparr>t_tick := k, t_sent := t_sent s @ map (Pair fd) ps\<rparr>))"
    "box_holds b (kept_others a xs)" by (auto simp: kept_others_def)
  with e(2) show ?thesis by (auto simp: pro_off_def returning_def)
qed

lemma demo_off_ok: "cstring 1000 t \<Longrightarrow> off_ok (demo_off b t)"
  by (simp add: off_ok_def terminated_def demo_off_def cstring_NUL)
    (simp add: cstr_def cstring_def fits_def)

lemma copy_stops:
  assumes "\<not> terminated n b"
  shows "cstr b = Inl Out_Of_Bounds \<or> (\<exists>t. cstr b = Inr t \<and> \<not> fits n t)"
proof (cases "cstr b")
  case (Inl e)
  then show ?thesis by (simp add: cstr_def split: if_splits)
next
  case (Inr t)
  with cstr_no_NUL [OF Inr] assms show ?thesis by (simp add: terminated_def cstring_def)
qed

lemma deliver_off_stops:
  assumes "\<not> off_ok x"
  shows "deliver_off env fd x s = Inl Out_Of_Bounds \<or> deliver_off env fd x s = Inl Buffer_Overflow"
proof -
  consider "\<not> terminated 1000 (off_mes x)"
    | t where "cstr (off_mes x) = Inr t" "cstring 1000 t" "\<not> terminated 1000 (off_mes2 x)"
    | t u where "cstr (off_mes x) = Inr t" "cstring 1000 t" "cstr (off_mes2 x) = Inr u" "cstring 1000 u"
        "\<not> terminated 100 (off_send_name x)"
    using assms unfolding off_ok_def terminated_def by blast
  then show ?thesis
  proof cases
    case 1
    from copy_stops [OF this] show ?thesis
      by (auto simp: deliver_off_def bnd_def new_pack_def fresh_def lifted_def set_mes_def put_str_def)
  next
    case 2
    note t = 2(1) set_runs(1) [OF 2(2)]
    from copy_stops [OF 2(3)] show ?thesis
      by (auto simp: deliver_off_def bnd_def new_pack_def fresh_def lifted_def t set_mes2_def put_str_def)
  next
    case 3
    note t = 3(1) set_runs(1) [OF 3(2)] 3(3) set_runs(2) [OF 3(4)]
    from copy_stops [OF 3(5)] show ?thesis
      by (auto simp: deliver_off_def bnd_def new_pack_def fresh_def lifted_def t set_name_def put_str_def)
  qed
qed

lemma each_deliver_stops:
  assumes "\<exists>x \<in> set xs. \<not> off_ok x"
  shows "each (deliver_off env fd) xs s = Inl Out_Of_Bounds \<or> each (deliver_off env fd) xs s = Inl Buffer_Overflow"
  using assms
proof (induction xs arbitrary: s)
  case (Cons x xs)
  show ?case
  proof (cases "off_ok x")
    case True
    from deliver_off_run [OF True, of env fd s] obtain t where "deliver_off env fd x s = Inr ((), t)" by blast
    moreover have "each (deliver_off env fd) xs t = Inl Out_Of_Bounds \<or> each (deliver_off env fd) xs t = Inl Buffer_Overflow"
      using Cons True by auto
    ultimately show ?thesis by (simp add: bnd_def)
  next
    case False
    from deliver_off_stops [OF this, of env fd s] show ?thesis by (auto simp: bnd_def)
  qed
qed simp

text \<open>
  C8: \<open>pro_off\<close> on the linked list refines a split of the list of messages, provided that each
  message for the account has its three strings terminated within their arrays: those messages
  are sent to its connection, in the order they were kept, with the type, the account numbers and
  the three strings they were kept with; they leave the list, and the others stay in order. When
  one of them has a string that is not terminated (\<open>deal_fri_off\<close> writes only \<open>mes\<close> and leaves the
  other two as they were on the heap), \<open>strcpy\<close> reads or writes outside its array.
\<close>

theorem pro_off_hands_over:
  assumes "box_holds (t_box s) xs"
  shows "if \<forall>x \<in> set (kept_for a xs). off_ok x
    then \<exists>ps s'. pro_off env a fd s = Inr ((), s')
      \<and> t_sent s' = t_sent s @ map (Pair fd) ps
      \<and> map pack_view ps = map off_view (kept_for a xs)
      \<and> box_holds (t_box s') (kept_others a xs)
    else pro_off env a fd s = Inl Out_Of_Bounds \<or> pro_off env a fd s = Inl Buffer_Overflow"
proof (cases "\<forall>x \<in> set (kept_for a xs). off_ok x")
  case True
  from pro_off_run [OF assms True, of env fd] obtain ps k b where
    "pro_off env a fd s
      = Inr ((), s\<lparr>t_tick := k, t_sent := t_sent s @ map (Pair fd) ps, t_box := b\<rparr>)"
    "map pack_view ps = map off_view (kept_for a xs)" "box_holds b (kept_others a xs)" by blast
  with True show ?thesis
    by (simp, intro exI [of _ ps] exI [of _ "s\<lparr>t_tick := k, t_sent := t_sent s @ map (Pair fd) ps, t_box := b\<rparr>"])
      simp
next
  case False
  then have "each (deliver_off env fd) (kept_for a xs) s = Inl Out_Of_Bounds
      \<or> each (deliver_off env fd) (kept_for a xs) s = Inl Buffer_Overflow" by (intro each_deliver_stops) blast
  then obtain e where "each (deliver_off env fd) (kept_for a xs) s = Inl e" and e: "e = Out_Of_Bounds \<or> e = Buffer_Overflow"
    by blast
  from box_sift_fault [OF assms this(1) [unfolded kept_for_def]] have "pro_off env a fd s = Inl e"
    by (simp add: pro_off_def returning_def)
  with e have "pro_off env a fd s = Inl Out_Of_Bounds \<or> pro_off env a fd s = Inl Buffer_Overflow" by auto
  then show ?thesis by (simp only: False if_False)
qed

theorem pro_off_hands_over_witness:
  "\<exists>b ps s'. pro_off (demo_env zero_pack Done) 8 5 (talk_start ()\<lparr>t_box := b\<rparr>) = Inr ((), s')
     \<and> t_sent s' = map (Pair 5) ps
     \<and> map pack_view ps = [off_view (demo_off 8 ''hi''), off_view (demo_off 8 ''bye'')]
     \<and> box_holds (t_box s') [demo_off 7 ''no'']"
proof -
  let ?xs = "[demo_off 8 ''hi'', demo_off 7 ''no'', demo_off 8 ''bye'']"
  obtain b where b: "box_holds b ?xs" using box_exists by blast
  have k: "kept_for 8 ?xs = [demo_off 8 ''hi'', demo_off 8 ''bye'']" "kept_others 8 ?xs = [demo_off 7 ''no'']"
    by (simp_all add: kept_for_def kept_others_def demo_off_def)
  have "box_holds (t_box (talk_start ()\<lparr>t_box := b\<rparr>)) ?xs" using b by simp
  from pro_off_hands_over [OF this, of 8 "demo_env zero_pack Done" 5, unfolded k]
  have "\<exists>ps s'. pro_off (demo_env zero_pack Done) 8 5 (talk_start ()\<lparr>t_box := b\<rparr>) = Inr ((), s')
     \<and> t_sent s' = map (Pair 5) ps
     \<and> map pack_view ps = [off_view (demo_off 8 ''hi''), off_view (demo_off 8 ''bye'')]
     \<and> box_holds (t_box s') [demo_off 7 ''no'']"
    by (simp add: demo_off_ok cstring_def fits_def)
  then show ?thesis by (rule exI [of _ b])
qed

section \<open>Login\<close>

text \<open>A row of \<open>g\<close> with an account marked on line.\<close>

definition marked :: "int \<Rightarrow> int \<Rightarrow> int \<Rightarrow> g_row \<Rightarrow> g_row" where
  "marked a on fd r = r\<lparr>g_use_online := (g_use_online r)(a := on), g_use_fd := (g_use_fd r)(a := fd)\<rparr>"

lemma g_runs:
  assumes "0 \<le> i" "i < 100" "0 \<le> a" "a < 100"
  shows "set_online i a v s
      = Inr ((), s\<lparr>t_g := (t_g s)(i := (t_g s i)\<lparr>g_use_online := (g_use_online (t_g s i))(a := v)\<rparr>)\<rparr>)"
    "set_fd i a v s
      = Inr ((), s\<lparr>t_g := (t_g s)(i := (t_g s i)\<lparr>g_use_fd := (g_use_fd (t_g s i))(a := v)\<rparr>)\<rparr>)"
  using assms
  by (simp_all add: set_online_def set_fd_def g_at_def g_put_def bnd_def getting_def lifted_def setting_def)

lemma outside_fields:
  "outside t = outside s \<Longrightarrow> t_fd t = t_fd s \<and> t_g t = t_g s \<and> t_box t = t_box s \<and> t_sent t = t_sent s
     \<and> t_group_account t = t_group_account s \<and> t_group_name t = t_group_name s"
  by (simp add: outside_def)

definition mark_online :: "'db talk_env \<Rightarrow> int \<Rightarrow> int \<Rightarrow> ('db talk, unit) op" where
  "mark_online env a i =
     bnd (set_online i a 1) (\<lambda>_. bnd (MYSQL_find_fd_user env a) (\<lambda>user_fd. set_fd i a user_fd))"

lemma mark_online_run:
  assumes "int32 a" "0 \<le> a" "a < 100" "0 \<le> i" "i < 100"
    and "exec env True (t_db s) (user_query a) = (Rows (r # rs), t_db s)" and "int_column r 4 = Inr fd"
  shows "\<exists>t. mark_online env a i s = Inr ((), t) \<and> t_sent t = t_sent s \<and> t_box t = t_box s
    \<and> t_db t = t_db s \<and> t_g t = (t_g s)(i := marked a 1 fd (t_g s i))"
proof -
  let ?s = "s\<lparr>t_g := (t_g s)(i := (t_g s i)\<lparr>g_use_online := (g_use_online (t_g s i))(a := 1)\<rparr>)\<rparr>"
  have "exec env True (t_db ?s) (user_query a) = (Rows (r # rs), t_db s)" using assms(6) by simp
  from find_fd_user_run [OF assms(1) this assms(7)] obtain t where
    t: "MYSQL_find_fd_user env a ?s = Inr (fd, t)" "outside t = outside ?s" "t_db t = t_db s" by blast
  from outside_fields [OF t(2)] t(1,3) show ?thesis
    by (auto simp: mark_online_def bnd_def g_runs [OF assms(4,5,2,3)] marked_def fun_eq_iff)
qed

lemma each_mark_online:
  assumes "int32 a" "0 \<le> a" "a < 100" and "\<forall>i \<in> set is. 0 \<le> i \<and> i < 100"
    and "exec env True (t_db s) (user_query a) = (Rows (r # rs), t_db s)" and "int_column r 4 = Inr fd"
  shows "\<exists>t. each (mark_online env a) is s = Inr ((), t) \<and> t_sent t = t_sent s \<and> t_box t = t_box s
    \<and> t_db t = t_db s \<and> t_g t = (\<lambda>i. if i \<in> set is then marked a 1 fd (t_g s i) else t_g s i)"
  using assms(4,5)
proof (induction "is" arbitrary: s)
  case Nil
  then show ?case by (simp add: retn_def)
next
  case (Cons i "is")
  from mark_online_run [OF assms(1-3), of i env s r rs fd] Cons.prems assms(6) obtain s1 where
    s1: "mark_online env a i s = Inr ((), s1)" "t_sent s1 = t_sent s" "t_box s1 = t_box s"
      "t_db s1 = t_db s" "t_g s1 = (t_g s)(i := marked a 1 fd (t_g s i))" by auto
  from Cons.IH [of s1] Cons.prems s1 obtain t where
    "each (mark_online env a) is s1 = Inr ((), t)" "t_sent t = t_sent s1" "t_box t = t_box s1"
    "t_db t = t_db s1" "t_g t = (\<lambda>j. if j \<in> set is then marked a 1 fd (t_g s1 j) else t_g s1 j)" by auto
  with s1 show ?case by (auto simp: bnd_def fun_eq_iff marked_def)
qed

lemma login_rows_wrong:
  "\<forall>r \<in> set rs. \<exists>c. column r 2 = Inr c \<and> str_eq m c = Inr False
   \<Longrightarrow> login_rows env a m fd rs s = Inr (- 1, s)"
  by (induction rs) (auto simp: retn_def bnd_def lifted_def)

lemma login_wrong_run:
  assumes "int32 a" and "t_open s" and "exec env True (t_db s) (login_query a) = (Rows rs, d)"
    and "\<forall>r \<in> set rs. \<exists>c. column r 2 = Inr c \<and> str_eq m c = Inr False"
  shows "\<exists>t. MYSQL_login env a m fd s = Inr (- 1, t) \<and> outside t = outside s \<and> t_db t = d"
  using assms unfolding MYSQL_login_def
  by (simp add: bnd_def sql_run [OF login_text] handle_runs login_rows_wrong outside_def)

text \<open>
  A login with a wrong password is refused, and yet the connection is then treated as the
  account's: every message kept for it is sent to the connection and removed from the list, and
  the account is marked on line in every row of the table of group chats.
\<close>

theorem wrong_password_gets_the_messages:
  assumes "p_type pack = LOGIN" "p_account pack = a" "int32 a" "0 \<le> a" "a < 100"
    and "exec env True (t_db s) (login_query a) = (Rows rs, t_db s)"
    and "\<forall>r \<in> set rs. \<exists>c. column r 2 = Inr c \<and> str_eq (p_mes pack) c = Inr False"
    and "exec env True (t_db s) (user_query a) = (Rows (r # rest_rows), t_db s)" "int_column r 4 = Inr fd"
    and "box_holds (t_box s) xs" "\<forall>x \<in> set (kept_for a xs). off_ok x"
  shows "\<exists>p ps s'. deal env pack s = Inr ((), s') \<and> p_type p = - 1
    \<and> t_sent s' = t_sent s @ (t_fd s, p) # map (Pair (t_fd s)) ps
    \<and> map pack_view ps = map off_view (kept_for a xs) \<and> box_holds (t_box s') (kept_others a xs)
    \<and> (\<forall>i. 0 \<le> i \<and> i < 100 \<longrightarrow> t_g s' i = marked a 1 fd (t_g s i))"
proof -
  let ?s = "s\<lparr>t_open := True, t_tick := Suc (t_tick s)\<rparr>"
  let ?p = "(stack_pack env (t_tick s))\<lparr>p_type := - 1\<rparr>"
  from login_wrong_run [of a ?s env rs "t_db s" "p_mes pack" "t_fd s"] assms(3,6,7) obtain s1 where
    s1: "MYSQL_login env a (p_mes pack) (t_fd s) ?s = Inr (- 1, s1)" "outside s1 = outside ?s"
      "t_db s1 = t_db s" by auto
  from outside_fields [OF s1(2)] have s1f: "t_fd s1 = t_fd s" "t_g s1 = t_g s" "t_box s1 = t_box s"
    "t_sent s1 = t_sent s" by simp_all
  let ?s2 = "s1\<lparr>t_sent := t_sent s1 @ [(t_fd s1, ?p)]\<rparr>"
  have "box_holds (t_box ?s2) xs" using assms(10) s1f by simp
  from pro_off_run [OF this assms(11), of env "t_fd s"] obtain ps k b where
    po: "pro_off env a (t_fd s) ?s2
      = Inr ((), ?s2\<lparr>t_tick := k, t_sent := t_sent ?s2 @ map (Pair (t_fd s)) ps, t_box := b\<rparr>)"
    "map pack_view ps = map off_view (kept_for a xs)" "box_holds b (kept_others a xs)" by blast
  let ?s3 = "?s2\<lparr>t_tick := k, t_sent := t_sent ?s2 @ map (Pair (t_fd s)) ps, t_box := b\<rparr>"
  have "exec env True (t_db ?s3) (user_query a) = (Rows (r # rest_rows), t_db ?s3)"
    using assms(8) s1(3) by simp
  from each_mark_online [OF assms(3-5) _ this assms(9), of "[0..99]"] obtain s4 where
    s4: "each (mark_online env a) [0..99] ?s3 = Inr ((), s4)" "t_sent s4 = t_sent ?s3"
      "t_box s4 = t_box ?s3"
      "t_g s4 = (\<lambda>i. if i \<in> set [0..99] then marked a 1 fd (t_g ?s3 i) else t_g ?s3 i)"
    by auto
  have "deal env pack s = Inr ((), s4)"
    using assms(1,2) s1(1) po(1) s4(1)
    by (simp add: deal_def LOGIN_def deal_login_def bnd_def handle_runs new_pack_def getting_def
        retn_def send_PACK_def setting_def mark_online_def [abs_def])
  moreover have "\<forall>i. 0 \<le> i \<and> i < 100 \<longrightarrow> t_g s4 i = marked a 1 fd (t_g s i)"
    using s4(4) s1f by simp
  ultimately show ?thesis using s4(2,3) s1f po(2,3)
    by (intro exI [of _ ?p] exI [of _ ps] exI [of _ s4]) simp
qed

theorem wrong_password_gets_the_messages_witness:
  "\<exists>b p q s'. deal (demo_env zero_pack (Rows [demo_row])) (demo_pack LOGIN 8 0 ''bad'') (talk_start ()\<lparr>t_box := b\<rparr>)
       = Inr ((), s')
     \<and> p_type p = - 1 \<and> t_sent s' = [(0, p), (0, q)] \<and> cstr (p_mes q) = Inr ''hi''"
proof -
  let ?xs = "[demo_off 8 ''hi'']" and ?env = "demo_env zero_pack (Rows [demo_row])"
  obtain b where b: "box_holds b ?xs" using box_exists by blast
  let ?s = "talk_start ()\<lparr>t_box := b\<rparr>"
  have t: "cstr (p_mes (demo_pack LOGIN 8 0 ''bad'')) = Inr ''bad''" by (simp add: demo_pack_text)
  have k: "kept_for 8 ?xs = ?xs" by (simp add: kept_for_def demo_off_def)
  have "\<exists>p ps s'. deal ?env (demo_pack LOGIN 8 0 ''bad'') ?s = Inr ((), s') \<and> p_type p = - 1
    \<and> t_sent s' = t_sent ?s @ (t_fd ?s, p) # map (Pair (t_fd ?s)) ps
    \<and> map pack_view ps = map off_view (kept_for 8 ?xs) \<and> box_holds (t_box s') (kept_others 8 ?xs)
    \<and> (\<forall>i. 0 \<le> i \<and> i < 100 \<longrightarrow> t_g s' i = marked 8 1 5 (t_g ?s i))"
    by (rule wrong_password_gets_the_messages [where rs = "[demo_row]" and r = demo_row and rest_rows = "[]"])
      (use b k t in \<open>simp_all add: str_eq_cstr demo_off_ok cstring_def fits_def\<close>)
  then obtain p ps s' where r: "deal ?env (demo_pack LOGIN 8 0 ''bad'') ?s = Inr ((), s')" "p_type p = - 1"
    and sent: "t_sent s' = t_sent ?s @ (t_fd ?s, p) # map (Pair (t_fd ?s)) ps"
    and "map pack_view ps = map off_view (kept_for 8 ?xs)" by blast
  then have "map pack_view ps = [off_view (demo_off 8 ''hi'')]" unfolding k by simp
  then obtain q where "ps = [q]" "pack_view q = off_view (demo_off 8 ''hi'')" by (cases ps) auto
  then have "cstr (p_mes q) = Inr ''hi''" by (auto simp: pack_view_def off_view_def demo_off_def cstr_def)
  with r sent \<open>ps = [q]\<close> show ?thesis
    by (intro exI [of _ b] exI [of _ p] exI [of _ q] exI [of _ s']) simp
qed

section \<open>Private messages\<close>

lemma push_off_run:
  assumes "box_holds (t_box s) xs"
  shows "\<exists>b. push_off x s = Inr ((), s\<lparr>t_box := b\<rparr>) \<and> box_holds b (xs @ [x])"
  using box_push_holds [OF assms, of x] by (auto simp: push_off_def)

lemma deal_fri_off_run:
  assumes "box_holds (t_box s) xs" and "cstr (p_mes p) = Inr t" and "cstring 1000 t"
  shows "\<exists>x b. deal_fri_off env p s = Inr ((), s\<lparr>t_tick := Suc (t_tick s), t_box := b\<rparr>)
    \<and> box_holds b (xs @ [x]) \<and> off_send_account x = p_send_account p \<and> off_account x = p_account p
    \<and> off_type x = p_type p \<and> cstr (off_mes x) = Inr t"
proof -
  let ?h = "heap_off env (t_tick s)"
  let ?x = "?h\<lparr>off_mes := t @ CHR 0x00 # drop (Suc (length t)) (off_mes ?h), off_account := p_account p,
    off_send_account := p_send_account p, off_type := p_type p\<rparr>"
  let ?s = "s\<lparr>t_tick := Suc (t_tick s)\<rparr>"
  have "box_holds (t_box ?s) xs" using assms(1) by simp
  from push_off_run [OF this, of ?x] obtain b where
    "push_off ?x ?s = Inr ((), ?s\<lparr>t_box := b\<rparr>)" "box_holds b (xs @ [?x])" by blast
  then show ?thesis using assms(2,3)
    by (intro exI [of _ ?x] exI [of _ b])
      (simp add: deal_fri_off_def bnd_def handle_runs lifted_def cstring_def)
qed

text \<open>What the database answers while a private message from \<open>a\<close> to \<open>b\<close> is handled.\<close>

definition chat_answers ::
  "'db talk_env \<Rightarrow> 'db \<Rightarrow> int \<Rightarrow> int \<Rightarrow> string \<Rightarrow> string \<Rightarrow> int \<Rightarrow> int \<Rightarrow> 'db \<Rightarrow> bool" where
  "chat_answers env db a b t nm_a on fd db2 \<longleftrightarrow>
     (\<exists>r rs rb ra x name_b on_a fd_a.
        exec env True db (friends_query a b) = (Rows (r # rs), db)
      \<and> exec env True db (user_query b) = (Rows [rb], db) \<and> user_row_is rb name_b on fd
      \<and> exec env True db (user_query a) = (Rows [ra], db) \<and> user_row_is ra nm_a on_a fd_a
      \<and> exec env True db (chat_text a b t) = (x, db2))"

lemma chat_fri_run:
  assumes "int32 a" "int32 b" "p_account pack = a" "p_send_account pack = b"
    and "cstr (p_mes pack) = Inr t" "chat_room a b t"
    and "chat_answers env (t_db s) a b t nm on fd d2"
  shows "\<exists>p u. deal_chat_fri env pack s
      = (if on = 0 then deal_fri_off env p u else send_other_PACK p fd u)
    \<and> outside u = outside s \<and> t_db u = d2 \<and> cstr (p_send_name p) = Inr nm
    \<and> p_mes p = p_mes pack \<and> p_account p = a \<and> p_send_account p = b \<and> p_type p = p_type pack"
proof -
  from assms(7) obtain r rs rb ra x nb oa fa where
    q: "exec env True (t_db s) (friends_query a b) = (Rows (r # rs), t_db s)"
      "exec env True (t_db s) (user_query b) = (Rows [rb], t_db s)" "user_row_is rb nb on fd"
      "exec env True (t_db s) (user_query a) = (Rows [ra], t_db s)" "user_row_is ra nm oa fa"
      "exec env True (t_db s) (chat_text a b t) = (x, d2)"
    unfolding chat_answers_def by blast
  from find_frirela_run [OF assms(1,2) q(1)] obtain s1 where
    s1: "MYSQL_find_frirela env a b s = Inr (0, s1)" "outside s1 = outside s" "t_db s1 = t_db s" by auto
  from find_fd_run [OF assms(2) _ q(3), of env s1 "[]" "t_db s"] q(2) s1(3) obtain f s2 where
    s2: "MYSQL_find_fd env b s1 = Inr (f, s2)" "outside s2 = outside s1" "t_db s2 = t_db s"
      "fri_account f 0 = fd" "fri_online f 0 = on" by auto
  from find_fd_run [OF assms(1) _ q(5), of env s2 "[]" "t_db s"] q(4) s2(3) obtain f2 s3 where
    s3: "MYSQL_find_fd env a s2 = Inr (f2, s3)" "outside s3 = outside s2" "t_db s3 = t_db s"
      "cstr (fri_name f2 0) = Inr nm" by auto
  let ?p = "pack\<lparr>p_send_name := nm @ CHR 0x00 # drop (Suc (length nm)) (p_send_name pack)\<rparr>"
  have nm: "cstring 100 nm" using q(5) by (simp add: user_row_is_def)
  from store_chat_run [OF assms(5,6), of env s3 x d2] q(6) s3(3) obtain y s4 where
    s4: "MYSQL_store_chat env a b (p_mes pack) s3 = Inr (y, s4)" "outside s4 = outside s3" "t_db s4 = d2"
    by auto
  have "deal_chat_fri env pack s
      = (if on = 0 then deal_fri_off env ?p s4 else send_other_PACK ?p fd s4)"
    using assms(3,4) s1(1) s2 s3 s4(1) set_runs(3) [OF nm, of pack]
    by (simp add: deal_chat_fri_def bnd_def lifted_def)
  moreover have "outside s4 = outside s" using s1 s2 s3 s4 by simp
  ultimately show ?thesis using s4(3) assms(3,4) cstring_NUL [OF nm]
    by (intro exI [of _ ?p] exI [of _ s4]) simp
qed

lemma chat_fri_overflow:
  assumes "int32 a" "int32 b" "p_account pack = a" "p_send_account pack = b"
    and "cstr (p_mes pack) = Inr t" "\<not> chat_room a b t"
    and "chat_answers env (t_db s) a b t nm on fd d2"
  shows "deal_chat_fri env pack s = Inl Buffer_Overflow"
proof -
  from assms(7) obtain r rs rb ra x nb oa fa where
    q: "exec env True (t_db s) (friends_query a b) = (Rows (r # rs), t_db s)"
      "exec env True (t_db s) (user_query b) = (Rows [rb], t_db s)" "user_row_is rb nb on fd"
      "exec env True (t_db s) (user_query a) = (Rows [ra], t_db s)" "user_row_is ra nm oa fa"
    unfolding chat_answers_def by blast
  from find_frirela_run [OF assms(1,2) q(1)] obtain s1 where
    s1: "MYSQL_find_frirela env a b s = Inr (0, s1)" "t_db s1 = t_db s" by auto
  from find_fd_run [OF assms(2) _ q(3), of env s1 "[]" "t_db s"] q(2) s1(2) obtain f s2 where
    s2: "MYSQL_find_fd env b s1 = Inr (f, s2)" "t_db s2 = t_db s" by auto
  from find_fd_run [OF assms(1) _ q(5), of env s2 "[]" "t_db s"] q(4) s2(2) obtain f2 s3 where
    s3: "MYSQL_find_fd env a s2 = Inr (f2, s3)" "cstr (fri_name f2 0) = Inr nm" by auto
  have nm: "cstring 100 nm" using q(5) by (simp add: user_row_is_def)
  have "MYSQL_store_chat env a b (p_mes pack) s3 = Inl Buffer_Overflow"
    using store_chat_exact [OF assms(5), of env a b s3] assms(6) by (simp add: chat_room_def not_less)
  then show ?thesis
    using assms(3,4) s1(1) s2(1) s3 set_runs(3) [OF nm, of pack]
    by (simp add: deal_chat_fri_def bnd_def lifted_def)
qed

text \<open>
  C7: A private message whose text ends with a NUL, between accounts that the database has as
  friends and knows by name, and whatever the database answers when the message is stored. If the
  text and the two account numbers have together less than 953 characters, the text goes, with
  the sender's name from the database, to the friend's connection when the friend is marked on
  line, and otherwise to the end of the list of kept messages, addressed to the friend; nothing
  else is sent. If they have 953 or more (a packet has room for 999), the query overflows its array
  and nothing is delivered.
\<close>

theorem private_message_delivered_or_kept:
  assumes "p_type pack = CHAT_FRI" "int32 a" "int32 b" "p_account pack = a" "p_send_account pack = b"
    and "cstr (p_mes pack) = Inr t"
    and "chat_answers env (t_db s) a b t nm on fd d2" "box_holds (t_box s) xs"
  shows "if length (dec a) + length (dec b) + length t < 953
    then \<exists>s'. deal env pack s = Inr ((), s') \<and> t_db s' = d2
      \<and> (if on = 0 then t_sent s' = t_sent s
           \<and> (\<exists>x. box_holds (t_box s') (xs @ [x]) \<and> off_send_account x = b \<and> off_account x = a
                \<and> off_type x = CHAT_FRI \<and> cstr (off_mes x) = Inr t)
         else box_holds (t_box s') xs
           \<and> (\<exists>p. t_sent s' = t_sent s @ [(fd, p)] \<and> p_account p = a \<and> p_type p = CHAT_FRI
                \<and> cstr (p_mes p) = Inr t \<and> cstr (p_send_name p) = Inr nm))
    else deal env pack s = Inl Buffer_Overflow"
proof -
  let ?s = "s\<lparr>t_open := True\<rparr>"
  have answers: "chat_answers env (t_db ?s) a b t nm on fd d2" using assms(7) by simp
  have deal: "deal env pack s = deal_chat_fri env pack ?s"
    using assms(1) by (simp add: deal_def CHAT_FRI_def bnd_def handle_runs)
  show ?thesis
  proof (cases "chat_room a b t")
    case False
    with chat_fri_overflow [OF assms(2-6) False answers] deal show ?thesis by (simp add: chat_room_def)
  next
    case room: True
    from chat_fri_run [OF assms(2-6) room answers] obtain p u where
      d: "deal_chat_fri env pack ?s = (if on = 0 then deal_fri_off env p u else send_other_PACK p fd u)"
      and o: "outside u = outside ?s" and u: "t_db u = d2" and
      p: "cstr (p_send_name p) = Inr nm" "p_mes p = p_mes pack" "p_account p = a"
        "p_send_account p = b" "p_type p = CHAT_FRI" unfolding assms(1) by blast
    from outside_fields [OF o] have uf: "t_box u = t_box s" "t_sent u = t_sent s" by simp_all
    show ?thesis
    proof (cases "on = 0")
      case True
      have "box_holds (t_box u) xs" "cstr (p_mes p) = Inr t" "cstring 1000 t"
        using assms(6,8) room uf p(2) cstr_no_NUL [OF assms(6)]
        by (simp_all add: cstring_def fits_def chat_room_def)
      from deal_fri_off_run [OF this, of env] True deal d p u uf room show ?thesis
        by (auto simp: chat_room_def)
    next
      case False
      with deal d p u uf assms(6,8) room show ?thesis
        by (auto simp: send_other_PACK_def setting_def chat_room_def)
    qed
  qed
qed

theorem private_message_delivered_or_kept_witness:
  "\<exists>s' p. deal (demo_env zero_pack (Rows [demo_row])) (demo_pack CHAT_FRI 7 8 ''hi'') (talk_start ()) = Inr ((), s')
     \<and> t_sent s' = [(5, p)] \<and> cstr (p_mes p) = Inr ''hi'' \<and> cstr (p_send_name p) = Inr ''8''"
proof -
  let ?env = "demo_env zero_pack (Rows [demo_row])" and ?p = "demo_pack CHAT_FRI 7 8 ''hi''"
  have "user_row_is demo_row ''8'' 1 5" by (simp add: user_row_is_def cstring_def fits_def)
  then have a: "chat_answers ?env () 7 8 ''hi'' ''8'' 1 5 ()"
    unfolding chat_answers_def by (intro exI conjI; (assumption | rule refl | simp))
  have d: "length (dec 7) = 1" "length (dec 8) = 1" by code_simp+
  have t: "cstr (p_mes ?p) = Inr ''hi''" by (simp add: demo_pack_text)
  have b: "box_holds (t_box (talk_start ())) []" by simp
  show ?thesis
    using private_message_delivered_or_kept [of ?p 7 8 "''hi''" ?env "talk_start ()" "''8''" 1 5 "()" "[]"]
      a t d b by (auto simp: chat_room_def)
qed

text \<open>
  A private message to somebody who is not a friend is answered with a refusal to the sender;
  it is neither stored in the database nor kept nor sent on.
\<close>

theorem private_message_refused:
  assumes "p_type pack = CHAT_FRI" "int32 a" "int32 b" "p_account pack = a" "p_send_account pack = b"
    and "exec env True (t_db s) (friends_query a b) = (Rows [], t_db s)"
  shows "\<exists>s' p. deal env pack s = Inr ((), s') \<and> t_db s' = t_db s \<and> t_box s' = t_box s
    \<and> t_sent s' = t_sent s @ [(t_fd s, p)] \<and> p_type p = CHAT_FRI \<and> p_account p = a
    \<and> cstr (p_mes p) = Inr not_a_friend"
proof -
  let ?s = "s\<lparr>t_open := True\<rparr>"
  have "exec env True (t_db ?s) (friends_query a b) = (Rows [], t_db s)" using assms(6) by simp
  from find_frirela_run [OF assms(2,3) this] obtain s1 where
    s1: "MYSQL_find_frirela env a b ?s = Inr (- 1, s1)" "outside s1 = outside ?s" "t_db s1 = t_db s"
    by auto
  from outside_fields [OF s1(2)] have f: "t_box s1 = t_box s" "t_sent s1 = t_sent s" "t_fd s1 = t_fd s"
    by simp_all
  note m = answers_fit(1)
  show ?thesis using assms(1,4,5) s1(1,3) f cstring_NUL [OF m]
    by (simp add: deal_def CHAT_FRI_def deal_chat_fri_def bnd_def handle_runs new_pack_def
        answer_with_def lifted_def set_runs(1) [OF m] send_PACK_def setting_def)
qed

theorem private_message_refused_witness:
  "\<exists>s' p. deal (demo_env zero_pack (Rows [])) (demo_pack CHAT_FRI 7 8 ''hi'') (talk_start ()) = Inr ((), s')
     \<and> t_sent s' = [(0, p)] \<and> cstr (p_mes p) = Inr not_a_friend"
  using private_message_refused [of "demo_pack CHAT_FRI 7 8 ''hi''" 7 8 "demo_env zero_pack (Rows [])" "talk_start ()"]
  by auto

section \<open>Disconnection\<close>

lemma each_rows:
  assumes "\<And>i s. i \<in> set is \<Longrightarrow> f i s = Inr ((), s\<lparr>t_g := (t_g s)(i := h (t_g s i))\<rparr>)"
    and "\<And>r. h (h r) = h r" and "t_g s = g"
  shows "each f is s = Inr ((), s\<lparr>t_g := (\<lambda>i. if i \<in> set is then h (g i) else g i)\<rparr>)"
  using assms(1,3)
proof (induction "is" arbitrary: s g)
  case Nil
  then show ?case by (auto simp: retn_def)
next
  case (Cons i "is")
  let ?g = "g(i := h (g i))" and ?s = "s\<lparr>t_g := (t_g s)(i := h (t_g s i))\<rparr>"
  have "f i s = Inr ((), ?s)" by (rule Cons.prems(1)) simp
  moreover have "each f is ?s = Inr ((), ?s\<lparr>t_g := (\<lambda>j. if j \<in> set is then h (?g j) else ?g j)\<rparr>)"
    using Cons.prems by (intro Cons.IH) simp_all
  moreover have "(\<lambda>j. if j \<in> set is then h (?g j) else ?g j)
      = (\<lambda>j. if j \<in> set (i # is) then h (g j) else g j)"
    using assms(2) by (auto simp: fun_eq_iff)
  ultimately show ?case by (simp only: each.simps bnd_def rbind_simps prod.case) simp
qed

text \<open>A row of \<open>g\<close> with an account marked off line.\<close>

definition offline :: "int \<Rightarrow> g_row \<Rightarrow> g_row" where
  "offline a r = r\<lparr>g_use_online := (g_use_online r)(a := 0)\<rparr>"

lemma each_offline:
  assumes "0 \<le> a" "a < 100" and "t_g s = g"
  shows "each (\<lambda>i. set_online i a 0) [0..99] s
    = Inr ((), s\<lparr>t_g := (\<lambda>i. if i \<in> set [0..99] then offline a (g i) else g i)\<rparr>)"
  by (rule each_rows) (simp_all add: g_runs assms offline_def)

definition exit_query :: "int \<Rightarrow> string" where
  "exit_query a = ''update user set online = 0  where id = '' @ dec a"

lemma dec_zero: "dec 0 = ''0''"
  by code_simp

lemma exit_text:
  assumes "int32 a"
  shows "sprintf_to 1000 0 ''update user set online = %d  where id = %d'' [D 0, D a] = Inr (exit_query a)"
  unfolding exit_query_def
  by (rule sprintf_to_fits) (use dec_fits [OF assms] in \<open>simp_all add: dec_zero\<close>)

text \<open>
  When a connection is closed the server marks off line, in the database and in the table of
  group chats, not the account that was logged in there but the number that the uninitialised
  packet on the stack happens to hold; when that is not between 0 and 99 it writes outside the
  table.
\<close>

theorem disconnect_marks_the_stack:
  assumes "p_account (stack_pack env (t_tick s)) = a" "int32 a"
    and "exec env (t_open s) (t_db s) (exit_query a) = (x, d)" and "t_wire s fd = []"
  shows "recv_PACK env fd (Arrives [] True) s =
    (if 0 \<le> a \<and> a < 100
     then Inr ((), s\<lparr>t_tick := Suc (t_tick s), t_fd := fd, t_db := d,
       t_queries := t_queries s @ [exit_query a], t_closed := t_closed s @ [fd],
       t_watched := filter (\<lambda>x. x \<noteq> fd) (t_watched s),
       t_g := (\<lambda>i. if 0 \<le> i \<and> i < 100
         then offline a (t_g s i) else t_g s i)\<rparr>)
     else Inl Out_Of_Bounds)"
proof -
  let ?s = "s\<lparr>t_tick := Suc (t_tick s), t_fd := fd, t_db := d,
    t_queries := t_queries s @ [exit_query a], t_closed := t_closed s @ [fd],
    t_watched := filter (\<lambda>x. x \<noteq> fd) (t_watched s)\<rparr>"
  have w: "(t_wire s)(fd := []) = t_wire s" using assms(4) by auto
  have run: "recv_PACK env fd (Arrives [] True) s = each (\<lambda>i. set_online i a 0) [0..99] ?s"
    using assms by (simp add: recv_PACK_def received_def MYSQL_exit_def bnd_def new_pack_def handle_runs setting_def
        getting_def sql_run [OF exit_text] retn_def w)
  show ?thesis
  proof (cases "0 \<le> a \<and> a < 100")
    case True
    then have "each (\<lambda>i. set_online i a 0) [0..99] ?s
        = Inr ((), ?s\<lparr>t_g := (\<lambda>i. if i \<in> set [0..99] then offline a (t_g s i) else t_g s i)\<rparr>)"
      by (intro each_offline) simp_all
    moreover have "i \<in> set [0..99] \<longleftrightarrow> 0 \<le> i \<and> i < 100" for i :: int by auto
    ultimately show ?thesis using True run by (simp only:) simp
  next
    case False
    have "[0..99::int] = 0 # [1..99]" by (subst upto_rec1) simp_all
    moreover have "set_online 0 a 0 ?s = Inl Out_Of_Bounds"
      using False by (auto simp: set_online_def g_at_def bnd_def getting_def lifted_def wr_def)
    ultimately show ?thesis using False run by (simp add: bnd_def)
  qed
qed

theorem disconnect_marks_the_stack_witness:
  "recv_PACK (demo_env (demo_pack LOGIN 100 0 []) Done) 5 (Arrives [] True) (talk_start ()) = Inl Out_Of_Bounds"
  using disconnect_marks_the_stack [of "demo_env (demo_pack LOGIN 100 0 []) Done" "talk_start ()" 100 Done "()" 5]
  by (simp add: int32_def talk_start_def)

section \<open>Files\<close>

lemma file_run:
  assumes "t_file_account s = b" "b \<noteq> 0" "\<forall>p \<in> set ps. p_send_account p = b"
  shows "each (talk_send_file env) ps s
    = Inr ((), s\<lparr>t_sent := t_sent s @ map (\<lambda>p. (fri_account (t_file_fri s) 0, p)) ps\<rparr>)"
  using assms
proof (induction ps arbitrary: s)
  case Nil
  show ?case by (simp add: retn_def)
next
  case (Cons p ps)
  let ?s = "s\<lparr>t_sent := t_sent s @ [(fri_account (t_file_fri s) 0, p)]\<rparr>"
  have "talk_send_file env p s = Inr ((), ?s)"
    using Cons.prems by (simp add: talk_send_file_def bnd_def getting_def when_op_def retn_def
        send_other_PACK_def setting_def)
  with Cons.IH [of ?s] Cons.prems show ?case by (simp add: bnd_def)
qed

text \<open>
  The descriptor of the friend a file goes to is looked up once: all further packets to the
  same account go to the remembered descriptor, without asking the database, even when the friend
  has left or come back on another connection since.
\<close>

theorem file_packets_follow_the_first:
  assumes "t_file_account s = b" "b \<noteq> 0" "\<forall>p \<in> set ps. p_send_account p = b"
  shows "each (talk_send_file env) ps s
    = Inr ((), s\<lparr>t_sent := t_sent s @ map (\<lambda>p. (fri_account (t_file_fri s) 0, p)) ps\<rparr>)"
  by (rule file_run [OF assms])

theorem file_packets_follow_the_first_witness:
  "each (talk_send_file (demo_env zero_pack Failed)) [demo_pack SEND_FILE 2 8 ''ab'', demo_pack SEND_FILE 1 8 ''c'']
     (talk_start ()\<lparr>t_file_account := 8\<rparr>)
   = Inr ((), talk_start ()\<lparr>t_file_account := 8,
       t_sent := [(0, demo_pack SEND_FILE 2 8 ''ab''), (0, demo_pack SEND_FILE 1 8 ''c'')]\<rparr>)"
  using file_packets_follow_the_first [of "talk_start ()\<lparr>t_file_account := 8\<rparr>" 8
      "[demo_pack SEND_FILE 2 8 ''ab'', demo_pack SEND_FILE 1 8 ''c'']" "demo_env zero_pack Failed"]
  by (simp add: talk_start_def zero_fri_def)

end
