(* ===== verification/Talk_Rooms.thy ===== *)
theory Talk_Rooms
  imports Talk_Session
begin

text \<open>
  The second chat room's groups and lists: removing a member, the messages of a group chat, and
  the list of friends.
\<close>

section \<open>Removing a member\<close>

lemma percent_d: "utf8 (37 # 100 # bs) = CHR ''%'' # CHR ''d'' # utf8 bs"
proof -
  have "(char_of (37 :: nat) :: char) = CHR ''%''" "(char_of (100 :: nat) :: char) = CHR ''d''"
    by code_simp+
  then show ?thesis by (simp add: utf8_def)
qed

lemma utf8_append: "utf8 (as @ bs) = utf8 as @ utf8 bs"
  by (simp add: utf8_def)

lemma plain_utf8: "list_all (\<lambda>n. n < 256 \<and> n \<noteq> 37) bs \<Longrightarrow> plain (utf8 bs)"
proof (induction bs)
  case Nil
  then show ?case by (simp add: utf8_def)
next
  case (Cons n bs)
  have "char_of n \<noteq> CHR ''%''"
  proof
    assume "char_of n = CHR ''%''"
    then have "(of_char (char_of n :: char) :: nat) = of_char (CHR ''%'')" by (rule arg_cong)
    with Cons.prems show False by simp
  qed
  with Cons show ?case by (simp add: utf8_def)
qed

text \<open>A literal with two \<open>%d\<close>.\<close>

lemma format_two:
  assumes "list_all (\<lambda>n. 0 < n \<and> n < 256 \<and> n \<noteq> 37) (as @ bs @ cs)"
  shows "format 0 (utf8 (as @ 37 # 100 # bs @ 37 # 100 # cs)) [D a, D b]
    = Inr (utf8 as @ dec a @ utf8 bs @ dec b @ utf8 cs)"
proof -
  have p: "plain (utf8 as)" "plain (utf8 bs)" "plain (utf8 cs)"
    using assms by (auto intro!: plain_utf8 simp: list_all_iff)
  show ?thesis
    by (simp only: utf8_append percent_d format_append [OF p(1)] format_conversions
        format_append [OF p(2)] format_plain [OF p(3)] rbind_simps append_assoc)
qed

definition removed_text :: "int \<Rightarrow> int \<Rightarrow> string" where
  "removed_text a b = (case format 0 you_were_removed [D a, D b] of Inl e \<Rightarrow> [] | Inr t \<Rightarrow> t)"

lemma removed_text_run:
  assumes "int32 a" "int32 b"
  shows "format 0 you_were_removed [D a, D b] = Inr (removed_text a b) \<and> cstring 1000 (removed_text a b)"
proof -
  obtain as bs cs where s: "you_were_removed = utf8 (as @ 37 # 100 # bs @ 37 # 100 # cs)"
    and l: "list_all (\<lambda>n. 0 < n \<and> n < 256 \<and> n \<noteq> 37) (as @ bs @ cs)" "length (as @ bs @ cs) < 900"
  proof
    show "you_were_removed = utf8 ([228, 189, 160, 232, 162, 171, 232, 180, 166, 229, 143, 183]
        @ 37 # 100 # [228, 187, 142, 231, 190, 164] @ 37 # 100 # [229, 136, 160, 233, 153, 164])"
      by (simp add: you_were_removed_def)
  qed simp_all
  from format_two [OF l(1), of a b] have "removed_text a b = utf8 as @ dec a @ utf8 bs @ dec b @ utf8 cs"
    by (simp add: removed_text_def s)
  moreover have "CHR 0x00 \<notin> set (utf8 as)" "CHR 0x00 \<notin> set (utf8 bs)" "CHR 0x00 \<notin> set (utf8 cs)"
    using l(1) by (auto intro!: utf8_no_NUL simp: list_all_iff)
  ultimately show ?thesis
    using format_two [OF l(1), of a b] l(2) dec_fits [OF assms(1)] dec_fits [OF assms(2)]
    by (simp add: s cstring_def fits_def dec_no_NUL)
qed

text \<open>
  When an administrator removes member \<open>m\<close> from group \<open>g\<close>, the server looks up the account whose
  number is the group's and sends the notice to that user's connection, if that user is on line;
  and the notice names \<open>m\<close> as the group.
\<close>

theorem removal_notice_goes_astray:
  assumes "p_type pack = DELE_USER" "p_account pack = a" "p_send_account pack = g"
    and "int32 a" "int32 g" "atoi_of (p_mes pack) = Inr m" "int32 m"
    and "exec env True (t_db s) (vip_query a g) = (Rows (r # rs), t_db s)"
    and "exec env True (t_db s) (quit_query m g) = (x, d)"
    and "exec env True d (user_query g) = (Rows [ru], d2)" "user_row_is ru nm 1 fd"
  shows "\<exists>s' p q. deal env pack s = Inr ((), s') \<and> t_db s' = d2
    \<and> t_sent s' = t_sent s @ [(t_fd s, p), (fd, q)] \<and> cstr (p_mes p) = Inr removed_ok
    \<and> p_send_account q = m \<and> cstr (p_mes q) = Inr (removed_text a m)"
proof -
  let ?s = "s\<lparr>t_open := True\<rparr>"
  have "exec env True (t_db ?s) (vip_query a g) = (Rows (r # rs), t_db s)" using assms(8) by simp
  from find_group_vip_run [OF assms(4,5) this] obtain s1 where
    s1: "MYSQL_find_group_vip env a g ?s = Inr (0, s1)" "outside s1 = outside ?s" "t_db s1 = t_db s"
    by auto
  from quit_group_run [OF assms(7,5), of env s1 x d] assms(9) s1(3) obtain y s2 where
    s2: "MYSQL_quit_group env m g s1 = Inr (y, s2)" "outside s2 = outside s1" "t_db s2 = d" by auto
  from find_fd_run [OF assms(5) _ assms(11), of env s2 "[]" d2] assms(10) s2(3) obtain f s3 where
    s3: "MYSQL_find_fd env g s2 = Inr (f, s3)" "outside s3 = outside s2" "t_db s3 = d2"
      "fri_account f 0 = fd" "fri_online f 0 = 1" by auto
  have f: "t_sent s3 = t_sent s" "t_fd s3 = t_fd s"
    using outside_fields [of s3 ?s] s1(2) s2(2) s3(2) by simp_all
  note t = removed_text_run [OF assms(4,7)]
  show ?thesis
    using assms(1-3,6) s1(1) s2(1) s3(1,3-5) f t cstring_NUL [OF conjunct2 [OF t]]
      cstring_NUL [OF answers_fit(2)]
    by (simp add: deal_def DELE_USER_def JOIN_USER_def deal_dele_user_def bnd_def handle_runs lifted_def
        set_runs(1) [OF answers_fit(2)] set_runs(1) [OF conjunct2 [OF t]] send_PACK_def setting_def
        tell_member_def send_other_PACK_def Let_def)
qed

theorem removal_notice_goes_astray_witness:
  "\<exists>s' p q. deal (demo_env zero_pack (Rows [demo_row])) (demo_pack DELE_USER 7 3 ''8'') (talk_start ()) = Inr ((), s')
     \<and> t_sent s' = [(0, p), (5, q)] \<and> p_send_account q = 8 \<and> cstr (p_mes q) = Inr (removed_text 7 8)"
proof -
  let ?env = "demo_env zero_pack (Rows [demo_row])" and ?p = "demo_pack DELE_USER 7 3 ''8''"
  have u: "user_row_is demo_row ''8'' 1 5" by (simp add: user_row_is_def cstring_def fits_def)
  have m: "atoi_of (p_mes ?p) = Inr 8" by (simp add: atoi_of_def demo_pack_text)
  show ?thesis
    using removal_notice_goes_astray [of ?p 7 3 8 ?env "talk_start ()" demo_row "[]" _ "()" demo_row "()", OF _ _ _ _ _ m _ _ _ _ u]
    by auto
qed

section \<open>Chatting in a group\<close>

definition pack_terminated :: "PACK \<Rightarrow> bool" where
  "pack_terminated p \<longleftrightarrow>
     terminated 1000 (p_mes p) \<and> terminated 1000 (p_mes2 p) \<and> terminated 100 (p_send_name p)"

lemma deal_group_off_run:
  assumes "box_holds (t_box s) xs" and "pack_terminated p"
  shows "\<exists>x b. deal_group_off env p s = Inr ((), s\<lparr>t_tick := Suc (t_tick s), t_box := b\<rparr>)
    \<and> box_holds b (xs @ [x]) \<and> off_view x = pack_view p"
proof -
  from assms(2) obtain t t2 n where p: "cstr (p_mes p) = Inr t" "cstring 1000 t"
    "cstr (p_mes2 p) = Inr t2" "cstring 1000 t2" "cstr (p_send_name p) = Inr n" "cstring 100 n"
    by (auto simp: pack_terminated_def terminated_def)
  let ?h = "heap_off env (t_tick s)"
  let ?x = "?h\<lparr>off_mes := t @ CHR 0x00 # drop (Suc (length t)) (off_mes ?h),
    off_mes2 := t2 @ CHR 0x00 # drop (Suc (length t2)) (off_mes2 ?h), off_account := p_account p,
    off_send_name := n @ CHR 0x00 # drop (Suc (length n)) (off_send_name ?h),
    off_send_account := p_send_account p, off_type := p_type p\<rparr>"
  let ?s = "s\<lparr>t_tick := Suc (t_tick s)\<rparr>"
  have "box_holds (t_box ?s) xs" using assms(1) by simp
  from push_off_run [OF this, of ?x] obtain b where
    "push_off ?x ?s = Inr ((), ?s\<lparr>t_box := b\<rparr>)" "box_holds b (xs @ [?x])" by blast
  then show ?thesis
    using p cstring_NUL [OF p(2)] cstring_NUL [OF p(4)] cstring_NUL [OF p(6)]
    by (intro exI [of _ ?x] exI [of _ b])
      (simp add: deal_group_off_def bnd_def handle_runs lifted_def cstring_def off_view_def pack_view_def)
qed

text \<open>The members a message goes to: those in the sender's row, on another connection.\<close>

definition fan_to :: "g_row \<Rightarrow> int \<Rightarrow> bool \<Rightarrow> int list \<Rightarrow> int list" where
  "fan_to r fd here is =
     filter (\<lambda>i. g_use_account r i \<noteq> 0 \<and> g_use_fd r i \<noteq> fd \<and> (g_use_online r i = 1 \<longleftrightarrow> here)) is"

definition fan_pack :: "g_row \<Rightarrow> PACK \<Rightarrow> int \<Rightarrow> PACK" where
  "fan_pack r p i = p\<lparr>p_send_account := g_use_account r i\<rparr>"

lemma fan_pack_terminated: "pack_terminated p \<Longrightarrow> pack_terminated (fan_pack r p i)"
  by (simp add: pack_terminated_def fan_pack_def)

lemma group_fan_step:
  assumes "0 \<le> me" "me < 100" "t_g s me = r"
  shows "group_fan env me p i s =
    (if g_use_account r i = 0 \<or> g_use_fd r i = t_fd s then Inr ((), s)
     else if g_use_online r i = 1 then send_other_PACK (fan_pack r p i) (g_use_fd r i) s
     else deal_group_off env (fan_pack r p i) s)"
  using assms by (simp add: group_fan_def g_at_def bnd_def getting_def lifted_def when_op_def retn_def
      fan_pack_def Let_def)

lemma each_fan:
  assumes "0 \<le> me" "me < 100" "t_g s me = r" "box_holds (t_box s) xs" "pack_terminated p"
  shows "\<exists>t ys. each (group_fan env me p) is s = Inr ((), t)
    \<and> t_sent t = t_sent s @ map (\<lambda>i. (g_use_fd r i, fan_pack r p i)) (fan_to r (t_fd s) True is)
    \<and> box_holds (t_box t) (xs @ ys) \<and> t_db t = t_db s
    \<and> map off_view ys = map (\<lambda>i. pack_view (fan_pack r p i)) (fan_to r (t_fd s) False is)"
  using assms(3,4)
proof (induction "is" arbitrary: s xs)
  case Nil
  then show ?case by (auto simp: retn_def fan_to_def intro!: exI [of _ "[]"])
next
  case (Cons i "is")
  note step = group_fan_step [OF assms(1,2) Cons.prems(1), of env p i]
  show ?case
  proof (cases "g_use_account r i = 0 \<or> g_use_fd r i = t_fd s")
    case True
    with Cons.IH [OF Cons.prems] step show ?thesis by (auto simp: bnd_def fan_to_def)
  next
    case member: False
    show ?thesis
    proof (cases "g_use_online r i = 1")
      case True
      let ?s = "s\<lparr>t_sent := t_sent s @ [(g_use_fd r i, fan_pack r p i)]\<rparr>"
      from Cons.IH [of ?s xs] Cons.prems member True step show ?thesis
        by (auto simp: bnd_def fan_to_def send_other_PACK_def setting_def)
    next
      case False
      from deal_group_off_run [OF Cons.prems(2) fan_pack_terminated [OF assms(5)], of env r i]
      obtain x b where x: "deal_group_off env (fan_pack r p i) s
          = Inr ((), s\<lparr>t_tick := Suc (t_tick s), t_box := b\<rparr>)"
        "box_holds b (xs @ [x])" "off_view x = pack_view (fan_pack r p i)" by blast
      let ?s = "s\<lparr>t_tick := Suc (t_tick s), t_box := b\<rparr>"
      from Cons.IH [of ?s "xs @ [x]"] Cons.prems x(2) obtain t ys where
        t: "each (group_fan env me p) is ?s = Inr ((), t)"
          "t_sent t = t_sent s @ map (\<lambda>i. (g_use_fd r i, fan_pack r p i)) (fan_to r (t_fd s) True is)"
          "box_holds (t_box t) (xs @ x # ys)" "t_db t = t_db s"
          "map off_view ys = map (\<lambda>i. pack_view (fan_pack r p i)) (fan_to r (t_fd s) False is)"
        by auto
      have "each (group_fan env me p) (i # is) s = Inr ((), t)"
        using step member False x(1) t(1) by (simp add: bnd_def)
      moreover have "map off_view (x # ys)
          = map (\<lambda>i. pack_view (fan_pack r p i)) (fan_to r (t_fd s) False (i # is))"
        using member False x(3) t(5) by (simp add: fan_to_def)
      moreover have "fan_to r (t_fd s) True (i # is) = fan_to r (t_fd s) True is"
        using False by (simp add: fan_to_def)
      ultimately show ?thesis using t(2-4)
        by (intro exI [of _ t] exI [of _ "x # ys"]) simp
    qed
  qed
qed

text \<open>The insertion made for a group message: the first number is stored as the group.\<close>

definition group_text :: "int \<Rightarrow> int \<Rightarrow> string \<Rightarrow> string" where
  "group_text g a t = ''insert into chat_group (group_id,group_member,mes)values ('' @ dec g @
     '','' @ dec a @ '','' @ quoted t @ '')''"

lemma group_format: "format 0 ''insert into chat_group (group_id,group_member,mes)values (%d,%d,'%s')''
    [D g, D a, S t] = Inr (group_text g a t)"
  by (simp add: group_text_def quoted_def)

lemma store_group_run:
  assumes "cstr m = Inr t" and "length (group_text g a t) < 1000"
    and "exec env True (t_db s) (group_text g a t) = (x, d)"
  shows "\<exists>u. MYSQL_store_group env g a m s = Inr (if x = Failed then - 1 else 0, u)
    \<and> outside u = outside s \<and> t_db u = d \<and> t_tick u = t_tick s"
proof -
  have q: "sprintf_to 1000 0 ''insert into chat_group (group_id,group_member,mes)values (%d,%d,'%s')''
      [D g, D a, S t] = Inr (group_text g a t)"
    using assms(2) by (intro sprintf_to_fits group_format)
  show ?thesis using assms(1,3) unfolding MYSQL_store_group_def
    by (simp add: bnd_def handle_runs sql_run [OF q] lifted_def retn_def outside_def)
qed

lemma store_group_overflow:
  assumes "cstr m = Inr t" and "\<not> length (group_text g a t) < 1000"
  shows "MYSQL_store_group env g a m s = Inl Buffer_Overflow"
proof -
  have "sprintf_to 1000 0 ''insert into chat_group (group_id,group_member,mes)values (%d,%d,'%s')''
      [D g, D a, S t] = Inl Buffer_Overflow"
    using assms(2) by (simp only: sprintf_to_def group_format rbind_simps) (simp add: sprintf_def fits_def)
  with assms(1) show ?thesis
    by (simp add: MYSQL_store_group_def bnd_def handle_runs lifted_def sql_def)
qed

lemma no_sender_name:
  "\<forall>i \<in> set is. cli_fd_at grp i \<noteq> fd \<Longrightarrow> rfold (sender_name grp fd) is p = Inr p"
  by (induction "is") (simp_all add: sender_name_def)

lemma group_message_run:
  assumes "p_type pack = CHAT_GROUP" "p_account pack = me" "0 \<le> me" "me < 100" "p_send_account pack = gid"
    and "t_g s me = r" "g_group_account r \<noteq> 0" "cstr (p_mes pack) = Inr t" "t \<noteq> ''Bye''"
    and "length (group_text me gid t) < 1000"
    and "exec env True (t_db s) (group_text me gid t) = (x, d)"
    and "t_group_account s = gid" "cstr (t_group_name s) = Inr n" "cstring 100 n" "n \<noteq> ''fail''"
    and "\<forall>i \<in> set [0..99]. cli_fd_at (stack_group env (t_tick s)) i \<noteq> t_fd s"
    and "stack_pack env (Suc (t_tick s)) = p0" "terminated 1000 (p_mes p0)" "box_holds (t_box s) xs"
  shows "\<exists>p s' ys. deal env pack s = Inr ((), s') \<and> t_db s' = d
    \<and> t_sent s' = t_sent s @ map (\<lambda>i. (g_use_fd r i, fan_pack r p i)) (fan_to r (t_fd s) True [0..99])
    \<and> box_holds (t_box s') (xs @ ys)
    \<and> map off_view ys = map (\<lambda>i. pack_view (fan_pack r p i)) (fan_to r (t_fd s) False [0..99])
    \<and> p_type p = CHAT_GROUP \<and> p_account p = gid \<and> cstr (p_mes2 p) = Inr t
    \<and> cstr (p_send_name p) = Inr n \<and> p_mes p = p_mes p0"
proof -
  let ?s = "s\<lparr>t_open := True, t_tick := Suc (t_tick s)\<rparr>"
  have "exec env True (t_db ?s) (group_text me gid t) = (x, d)" using assms(11) by simp
  from store_group_run [OF assms(8,10) this] obtain y s1 where
    s1: "MYSQL_store_group env me gid (p_mes pack) ?s = Inr (y, s1)" "outside s1 = outside ?s"
      "t_db s1 = d" "t_tick s1 = Suc (t_tick s)" by auto
  have f: "t_fd s1 = t_fd s" "t_g s1 = t_g s" "t_box s1 = t_box s" "t_sent s1 = t_sent s"
    "t_group_account s1 = gid" "t_group_name s1 = t_group_name s"
    using outside_fields [OF s1(2)] assms(12) by simp_all
  have t: "cstring 1000 t"
    using assms(10) cstr_no_NUL [OF assms(8)] by (simp add: cstring_def fits_def group_text_def)
  let ?p = "p0\<lparr>p_type := CHAT_GROUP, p_account := gid, p_mes2 := t @ CHR 0x00 # drop (Suc (length t)) (p_mes2 p0),
    p_send_name := n @ CHR 0x00 # drop (Suc (length n)) (p_send_name p0)\<rparr>"
  have pt: "pack_terminated ?p"
    using assms(14,18) t cstring_NUL [OF t] cstring_NUL [OF assms(14)]
    by (auto simp: pack_terminated_def terminated_def)
  let ?s2 = "s1\<lparr>t_tick := Suc (Suc (t_tick s))\<rparr>"
  have "t_g ?s2 me = r" "box_holds (t_box ?s2) xs" using f assms(6,19) by simp_all
  from each_fan [OF assms(3,4) this pt, of env "[0..99]"] obtain s' ys where
    e: "each (group_fan env me ?p) [0..99] ?s2 = Inr ((), s')"
      "t_sent s' = t_sent s @ map (\<lambda>i. (g_use_fd r i, fan_pack r ?p i)) (fan_to r (t_fd s) True [0..99])"
      "box_holds (t_box s') (xs @ ys)" "t_db s' = d"
      "map off_view ys = map (\<lambda>i. pack_view (fan_pack r ?p i)) (fan_to r (t_fd s) False [0..99])"
    using f s1(3) by auto
  have "group_message env pack (stack_group env (t_tick s)) ?s = Inr ((), s')"
    using assms(2,5,8,12,13,15,17) s1(1,4) f e(1) set_runs(2) [OF t] set_runs(3) [OF assms(14)]
      no_sender_name [OF assms(16)]
    by (simp add: group_message_def bnd_def lifted_def new_pack_def handle_runs refresh_group_name_def
        getting_def when_op_def retn_def)
  then have "deal env pack s = Inr ((), s')"
    using assms(1-4,6-9) str_eq_cstr [OF assms(8), of "''Bye''"]
    by (simp add: deal_def CHAT_GROUP_def bnd_def handle_runs deal_chat_group_def g_at_def getting_def
        lifted_def retn_def Let_def)
  then show ?thesis using e(2-5) cstring_NUL [OF t] cstring_NUL [OF assms(14)]
    by (intro exI [of _ ?p] exI [of _ s'] exI [of _ ys]) simp
qed

lemma group_message_overflow:
  assumes "p_type pack = CHAT_GROUP" "p_account pack = me" "0 \<le> me" "me < 100" "p_send_account pack = gid"
    and "g_group_account (t_g s me) \<noteq> 0" "cstr (p_mes pack) = Inr t" "t \<noteq> ''Bye''"
    and "\<not> length (group_text me gid t) < 1000"
  shows "deal env pack s = Inl Buffer_Overflow"
  using assms store_group_overflow [OF assms(7,9), of env "s\<lparr>t_open := True, t_tick := Suc (t_tick s)\<rparr>"] str_eq_cstr [OF assms(7), of "''Bye''"]
  by (simp add: deal_def CHAT_GROUP_def bnd_def handle_runs deal_chat_group_def g_at_def getting_def
      lifted_def retn_def Let_def group_message_def)

text \<open>
  C10: A further message to a group, of an account from 0 to 99 that has a row of members already;
  its text is NUL-terminated and not Bye, the group is the one whose name was read last, and that
  name is not "fail". The function reads two variables that it has not written: of the GROUP it is
  assumed that the sender's descriptor is not in it, of the packet that its mes is terminated. Then
  the message goes, with the group's number and name, to every member entered in the sender's row on
  another connection: at once to those marked on line, to the list of kept messages for the others,
  in the order of their account numbers. The sender's name is whatever the packet held, and the
  message is stored in the database with the sender's account in the place of the group and the
  group in the place of the member. A text too long for the query's 1000 bytes overflows that array
  instead, and is sent to nobody.
\<close>

theorem group_message_fans_out:
  assumes "p_type pack = CHAT_GROUP" "p_account pack = me" "0 \<le> me" "me < 100" "p_send_account pack = gid"
    and "t_g s me = r" "g_group_account r \<noteq> 0" "cstr (p_mes pack) = Inr t" "t \<noteq> ''Bye''"
    and "exec env True (t_db s) (group_text me gid t) = (x, d)"
    and "t_group_account s = gid" "cstr (t_group_name s) = Inr n" "cstring 100 n" "n \<noteq> ''fail''"
    and "\<forall>i \<in> set [0..99]. cli_fd_at (stack_group env (t_tick s)) i \<noteq> t_fd s"
    and "stack_pack env (Suc (t_tick s)) = p0" "terminated 1000 (p_mes p0)" "box_holds (t_box s) xs"
  shows "if length (group_text me gid t) < 1000
    then \<exists>p s' ys. deal env pack s = Inr ((), s') \<and> t_db s' = d
      \<and> t_sent s' = t_sent s @ map (\<lambda>i. (g_use_fd r i, fan_pack r p i)) (fan_to r (t_fd s) True [0..99])
      \<and> box_holds (t_box s') (xs @ ys)
      \<and> map off_view ys = map (\<lambda>i. pack_view (fan_pack r p i)) (fan_to r (t_fd s) False [0..99])
      \<and> p_type p = CHAT_GROUP \<and> p_account p = gid \<and> cstr (p_mes2 p) = Inr t
      \<and> cstr (p_send_name p) = Inr n \<and> p_mes p = p_mes p0
    else deal env pack s = Inl Buffer_Overflow"
proof (cases "length (group_text me gid t) < 1000")
  case True
  from group_message_run [OF assms(1-9) True assms(10-18)] show ?thesis unfolding if_P [OF True] .
next
  case False
  from group_message_overflow [OF assms(1-5) _ assms(8,9) False, of s env] assms(6,7) show ?thesis
    unfolding if_not_P [OF False] by simp
qed

theorem group_message_fans_out_witness:
  "\<exists>p s'. deal (demo_env zero_pack Done) (demo_pack CHAT_GROUP 7 3 ''hi'') demo_room = Inr ((), s')
     \<and> t_sent s' = [(5, fan_pack demo_members p 8)] \<and> p_account p = 3 \<and> cstr (p_mes2 p) = Inr ''hi''
     \<and> cstr (p_send_name p) = Inr ''gr''"
proof -
  let ?env = "demo_env zero_pack Done" and ?p = "demo_pack CHAT_GROUP 7 3 ''hi''"
  have d: "length (dec 7) = 1" "length (dec 3) = 1" by code_simp+
  have t: "cstr (p_mes ?p) = Inr ''hi''" by (simp add: demo_pack_text)
  have z: "terminated 1000 (p_mes zero_pack)"
    by (simp add: terminated_def zero_pack_def cstr_def cstring_def fits_def numeral_eq_Suc)
  have f: "fan_to demo_members 4 True [0..99] = [8]" by code_simp
  have c: "\<forall>i \<in> set [0..99]. cli_fd_at (stack_group ?env (t_tick demo_room)) i \<noteq> t_fd demo_room"
    by (simp add: cli_fd_at_def)
  have g: "cstring 100 ''gr''" by (simp add: cstring_def fits_def)
  have q: "length (group_text 7 3 ''hi'') < 1000" by (simp add: group_text_def d)
  have "if length (group_text 7 3 ''hi'') < 1000 then \<exists>p s' ys. deal ?env ?p demo_room = Inr ((), s') \<and> t_db s' = ()
    \<and> t_sent s' = t_sent demo_room @ map (\<lambda>i. (g_use_fd demo_members i, fan_pack demo_members p i)) (fan_to demo_members (t_fd demo_room) True [0..99])
    \<and> box_holds (t_box s') ([] @ ys)
    \<and> map off_view ys = map (\<lambda>i. pack_view (fan_pack demo_members p i)) (fan_to demo_members (t_fd demo_room) False [0..99])
    \<and> p_type p = CHAT_GROUP \<and> p_account p = 3 \<and> cstr (p_mes2 p) = Inr ''hi''
    \<and> cstr (p_send_name p) = Inr ''gr'' \<and> p_mes p = p_mes zero_pack
    else deal ?env ?p demo_room = Inl Buffer_Overflow"
    by (rule group_message_fans_out [where me = 7 and gid = 3, OF _ _ _ _ _ _ _ t _ _ _ _ g _ c _ z]) simp_all
  then show ?thesis unfolding if_P [OF q] demo_room_simps f by auto
qed

end
