(* ===== verification/Talk_Friends.thy ===== *)
theory Talk_Friends
  imports Talk_Rooms
begin

text \<open>
  The second chat room's friend requests: how a request reaches the other account, and what its
  answer does.
\<close>

section \<open>The notice\<close>

definition friends_text :: "int \<Rightarrow> string" where
  "friends_text a = (case format 0 now_friends [D a] of Inl e \<Rightarrow> [] | Inr t \<Rightarrow> t)"

lemma format_one:
  assumes "list_all (\<lambda>n. 0 < n \<and> n < 256 \<and> n \<noteq> 37) (as @ bs)"
  shows "format 0 (utf8 (as @ 37 # 100 # bs)) [D a] = Inr (utf8 as @ dec a @ utf8 bs)"
proof -
  have p: "plain (utf8 as)" "plain (utf8 bs)"
    using assms by (auto intro!: plain_utf8 simp: list_all_iff)
  show ?thesis
    by (simp only: utf8_append percent_d format_append [OF p(1)] format_conversions
        format_plain [OF p(2)] rbind_simps append_assoc)
qed

lemma friends_text_run:
  assumes "int32 a"
  shows "format 0 now_friends [D a] = Inr (friends_text a) \<and> cstring 1000 (friends_text a)"
proof -
  obtain as bs where s: "now_friends = utf8 (as @ 37 # 100 # bs)"
    and l: "list_all (\<lambda>n. 0 < n \<and> n < 256 \<and> n \<noteq> 37) (as @ bs)" "length (as @ bs) < 900"
  proof
    show "now_friends = utf8 ([228, 189, 160, 229, 146, 140] @ 37 # 100 # [229, 183, 178, 231, 187, 143,
       230, 136, 144, 229, 138, 159, 229, 138, 160, 228, 184, 186, 229, 165, 189, 229, 143, 139, 228,
       186, 134, 239, 188, 140, 229, 191, 171, 229, 142, 187, 232, 129, 138, 229, 164,
       169, 229, 144, 167, 239, 188, 129, 239, 188, 129])"
      by (simp add: now_friends_def)
  qed simp_all
  from format_one [OF l(1), of a] have "friends_text a = utf8 as @ dec a @ utf8 bs"
    by (simp add: friends_text_def s)
  moreover have "CHR 0x00 \<notin> set (utf8 as)" "CHR 0x00 \<notin> set (utf8 bs)"
    using l(1) by (auto intro!: utf8_no_NUL simp: list_all_iff)
  ultimately show ?thesis using format_one [OF l(1), of a] l(2) dec_fits [OF assms]
    by (simp add: s cstring_def fits_def dec_no_NUL)
qed

section \<open>Storing a friendship\<close>

definition friend_insert :: "int \<Rightarrow> int \<Rightarrow> string" where
  "friend_insert a b = ''insert into friends (id1,id2)values ('' @ dec a @ '','' @ dec b @ '')''"

lemma friend_insert_text:
  assumes "int32 a" "int32 b"
  shows "sprintf_to 1000 0 ''insert into friends (id1,id2)values (%d,%d)'' [D a, D b]
    = Inr (friend_insert a b)"
  unfolding friend_insert_def
  by (rule sprintf_to_fits) (use dec_fits [OF assms(1)] dec_fits [OF assms(2)] in simp_all)

lemma addfriend_store_run:
  assumes "int32 a" "int32 b" and "exec env True (t_db s) (friend_insert a b) = (x, d1)" "x \<noteq> Failed"
    and "exec env True d1 (friend_insert b a) = (y, d2)"
  shows "\<exists>t. MYSQL_addfriend_store env a b s = Inr (if y = Failed then - 1 else 0, t)
    \<and> outside t = outside s \<and> t_db t = d2"
  using assms unfolding MYSQL_addfriend_store_def
  by (simp add: bnd_def handle_runs sql_run [OF friend_insert_text] retn_def outside_def)

text \<open>
  When \<open>a\<close> accepts the request of \<open>b\<close>, the friendship is stored in both directions and the
  notice goes to \<open>b\<close>'s connection.
\<close>

theorem friendship_stored_both_ways:
  assumes "p_type pack = 41" "p_account pack = a" "p_send_account pack = b" "int32 a" "int32 b"
    and "cstr (p_mes pack) = Inr ''success''"
    and "exec env True (t_db s) (user_query b) = (Rows [rb], d)" "user_row_is rb nm on fd"
    and "exec env True d (friend_insert a b) = (x, d1)" "x \<noteq> Failed"
    and "exec env True d1 (friend_insert b a) = (y, d2)"
  shows "\<exists>s' p. deal env pack s = Inr ((), s') \<and> t_db s' = d2 \<and> t_box s' = t_box s
    \<and> t_sent s' = t_sent s @ [(fd, p)] \<and> p_type p = 41 \<and> p_account p = a
    \<and> cstr (p_mes p) = Inr (friends_text a)"
proof -
  let ?s = "s\<lparr>t_open := True\<rparr>"
  have "exec env True (t_db ?s) (user_query b) = (Rows [rb], d)" using assms(7) by simp
  from find_fd_run [OF assms(5) this assms(8)] obtain f s1 where
    s1: "MYSQL_find_fd env b ?s = Inr (f, s1)" "outside s1 = outside ?s" "t_db s1 = d"
      "fri_account f 0 = fd" by blast
  from addfriend_store_run [OF assms(4,5), of env s1 x d1 y d2] assms(9-11) s1(3) obtain z s2 where
    s2: "MYSQL_addfriend_store env a b s1 = Inr (z, s2)" "outside s2 = outside s1" "t_db s2 = d2" by auto
  have f: "t_sent s2 = t_sent s" "t_box s2 = t_box s"
    using outside_fields [of s2 ?s] s1(2) s2(2) by simp_all
  note t = friends_text_run [OF assms(4)]
  show ?thesis
    using assms(1-3) s1(1,4) s2(1,3) f t cstring_NUL [OF conjunct2 [OF t]]
      str_eq_cstr [OF assms(6), of "''success''"]
    by (simp add: deal_def recv_addfr_PACK_def bnd_def handle_runs lifted_def retn_def
        set_runs(1) [OF conjunct2 [OF t]] send_other_PACK_def setting_def)
qed

theorem friendship_stored_both_ways_witness:
  "\<exists>s' p. deal (demo_env zero_pack (Rows [demo_row])) (demo_pack 41 7 8 ''success'') (talk_start ()) = Inr ((), s')
     \<and> t_sent s' = [(5, p)] \<and> cstr (p_mes p) = Inr (friends_text 7)"
proof -
  have u: "user_row_is demo_row ''8'' 1 5" by (simp add: user_row_is_def cstring_def fits_def)
  have m: "cstr (p_mes (demo_pack 41 7 8 ''success'')) = Inr ''success''" by (simp add: demo_pack_text)
  show ?thesis
    using friendship_stored_both_ways [of "demo_pack 41 7 8 ''success''" 7 8 "demo_env zero_pack (Rows [demo_row])"
        "talk_start ()" demo_row "()", OF _ _ _ _ _ m _ u] by auto
qed

end
