(* ===== verification/Talk_Lists.thy ===== *)
theory Talk_Lists
  imports Talk_Session
begin

text \<open>
  The second chat room's list of friends: the rows read into \<open>fri\<close>, an array of 50 accounts with
  -1 behind the last, the names looked up one by one, and a packet for each.
\<close>

section \<open>Reading the accounts\<close>

definition accounts_of :: "row list \<Rightarrow> int list \<Rightarrow> bool" where
  "accounts_of rs accs \<longleftrightarrow> map (\<lambda>r. int_column r 1) rs = map Inr accs"

lemma accounts_of_Cons:
  "accounts_of (r # rs) accs \<longleftrightarrow> (\<exists>a as. accs = a # as \<and> int_column r 1 = Inr a \<and> accounts_of rs as)"
  by (cases accs) (auto simp: accounts_of_def)

lemma number_rows_accounts:
  assumes "accounts_of rs accs" "0 \<le> i" "i + int (length rs) \<le> 50"
  shows "\<exists>q. number_rows fri_of_row rs i p = Inr (i + int (length rs), q)
    \<and> (\<forall>j < length accs. fri_account q (i + int j) = accs ! j)
    \<and> (\<forall>j < i. fri_account q j = fri_account p j)"
  using assms
proof (induction rs arbitrary: accs i p)
  case Nil
  then show ?case by (auto simp: accounts_of_def)
next
  case (Cons r rs)
  then obtain a as where a: "accs = a # as" "int_column r 1 = Inr a" "accounts_of rs as"
    by (auto simp: accounts_of_Cons)
  let ?p = "p\<lparr>fri_account := (fri_account p)(i := a)\<rparr>"
  have "fri_of_row r i p = Inr ?p" using a(2) Cons.prems by (simp add: fri_of_row_def)
  moreover from Cons.IH [OF a(3), of "i + 1" ?p] Cons.prems obtain q where
    q: "number_rows fri_of_row rs (i + 1) ?p = Inr (i + 1 + int (length rs), q)"
      "\<forall>j < length as. fri_account q (i + 1 + int j) = as ! j"
      "\<forall>j < i + 1. fri_account q j = fri_account ?p j" by auto
  moreover have "fri_account q (i + int j) = accs ! j" if "j < length accs" for j
    using that q(2,3) a(1) by (cases j) (auto simp: algebra_simps)
  ultimately show ?case by auto
qed

lemma number_rows_too_many:
  assumes "accounts_of rs accs" "0 \<le> i" "i \<le> 50" "50 < i + int (length rs)"
  shows "number_rows fri_of_row rs i p = Inl Out_Of_Bounds"
  using assms
proof (induction rs arbitrary: accs i p)
  case Nil
  then show ?case by simp
next
  case (Cons r rs)
  then obtain a as where a: "accs = a # as" "int_column r 1 = Inr a" "accounts_of rs as"
    by (auto simp: accounts_of_Cons)
  show ?case
  proof (cases "i = 50")
    case True
    with a(2) show ?thesis by (simp add: fri_of_row_def wr_def)
  next
    case False
    with Cons.IH [OF a(3), of "i + 1"] Cons.prems a(2) show ?thesis by (simp add: fri_of_row_def)
  qed
qed

lemma length_accounts: "accounts_of rs accs \<Longrightarrow> length accs = length rs"
  unfolding accounts_of_def by (metis length_map)

lemma fri_accounts_run:
  assumes "accounts_of rs accs" "length accs < 50"
  shows "\<exists>q. fri_accounts rs p = Inr q \<and> fri_len q = int (length accs)
    \<and> (\<forall>j < length accs. fri_account q (int j) = accs ! j) \<and> fri_account q (int (length accs)) = - 1"
proof -
  have l: "length rs = length accs" using length_accounts [OF assms(1)] by simp
  from number_rows_accounts [OF assms(1), of 0 p] assms(2) l obtain q where
    "number_rows fri_of_row rs 0 p = Inr (int (length accs), q)"
    "\<forall>j < length accs. fri_account q (int j) = accs ! j" by auto
  then show ?thesis using assms(2) by (simp add: fri_accounts_def)
qed

lemma fri_accounts_too_many:
  assumes "accounts_of rs accs" "50 \<le> length accs"
  shows "fri_accounts rs p = Inl Out_Of_Bounds"
proof (cases "length accs = 50")
  case True
  with number_rows_accounts [OF assms(1), of 0 p] length_accounts [OF assms(1)] obtain q where
    "number_rows fri_of_row rs 0 p = Inr (50, q)" by auto
  then show ?thesis by (simp add: fri_accounts_def wr_def)
next
  case False
  with number_rows_too_many [OF assms(1), of 0 p] assms(2) length_accounts [OF assms(1)]
  show ?thesis by (simp add: fri_accounts_def)
qed

section \<open>Looking up the names\<close>

definition names_of :: "'db talk_env \<Rightarrow> 'db \<Rightarrow> int list \<Rightarrow> string list \<Rightarrow> bool" where
  "names_of env db accs nms \<longleftrightarrow> list_all2 (\<lambda>a nm. int32 a \<and> cstring 100 nm
     \<and> (\<exists>r. exec env True db (user_query a) = (Rows [r], db) \<and> column r 1 = Inr nm)) accs nms"

lemma list_fri_name_run:
  assumes "t_open s" "t_db s = db" "0 \<le> i" "i < 50" "fri_account p i = a" "int32 a"
    and "exec env True db (user_query a) = (Rows [r], db)" "column r 1 = Inr nm" "cstring 100 nm"
  shows "\<exists>b t. list_fri_name env i p s = Inr (p\<lparr>fri_name := (fri_name p)(i := b)\<rparr>, t)
    \<and> cstr b = Inr nm \<and> outside t = outside s \<and> t_db t = db \<and> t_open t"
proof -
  let ?b = "nm @ CHR 0x00 # drop (Suc (length nm)) (fri_name p i)"
  have "fri_set_name i r p = Inr (p\<lparr>fri_name := (fri_name p)(i := ?b)\<rparr>)"
    using assms(3,4,8,9) by (simp add: fri_set_name_def cstring_def)
  then show ?thesis using assms cstring_NUL [OF assms(9)]
    by (intro exI [of _ ?b])
      (simp add: list_fri_name_def bnd_def lifted_def sql_run [OF user_text] handle_runs outside_def)
qed

lemma fold_names:
  assumes "names_of env db accs nms" "length accs \<le> 50" "\<forall>j < length accs. fri_account p (int j) = accs ! j"
    and "k \<le> length accs" "t_open s" "t_db s = db"
  shows "\<exists>q t. fold_op (list_fri_name env) [int k..int (length accs) - 1] p s = Inr (q, t)
    \<and> outside t = outside s \<and> t_db t = db \<and> fri_account q = fri_account p
    \<and> (\<forall>j < length accs. k \<le> j \<longrightarrow> cstr (fri_name q (int j)) = Inr (nms ! j))
    \<and> (\<forall>j < k. fri_name q (int j) = fri_name p (int j))"
  using assms(3-6)
proof (induction "length accs - k" arbitrary: k p s)
  case 0
  then have "[int k..int (length accs) - 1] = []" by simp
  with 0 show ?case by (auto simp: retn_def)
next
  case (Suc m)
  then have k: "k < length accs" by simp
  then have up: "[int k..int (length accs) - 1] = int k # [int (Suc k)..int (length accs) - 1]"
    by (subst upto_rec1) (simp_all add: add.commute)
  from assms(1) k obtain r where r: "int32 (accs ! k)" "cstring 100 (nms ! k)"
    "exec env True db (user_query (accs ! k)) = (Rows [r], db)" "column r 1 = Inr (nms ! k)"
    by (auto simp: names_of_def list_all2_conv_all_nth)
  have "0 \<le> int k" "int k < 50" "fri_account p (int k) = accs ! k"
    using Suc.prems(1) k assms(2) by auto
  from list_fri_name_run [OF Suc.prems(3,4) this r(1,3,4,2)] obtain b t where
    b: "list_fri_name env (int k) p s = Inr (p\<lparr>fri_name := (fri_name p)(int k := b)\<rparr>, t)"
      "cstr b = Inr (nms ! k)" "outside t = outside s" "t_db t = db" "t_open t" by blast
  let ?p = "p\<lparr>fri_name := (fri_name p)(int k := b)\<rparr>"
  have "m = length accs - Suc k" using Suc.hyps(2) by simp
  from Suc.hyps(1) [OF this, of ?p t] Suc.prems k b(4,5) obtain q u where
    q: "fold_op (list_fri_name env) [int (Suc k)..int (length accs) - 1] ?p t = Inr (q, u)"
      "outside u = outside t" "t_db u = db" "fri_account q = fri_account p"
      "\<forall>j < length accs. Suc k \<le> j \<longrightarrow> cstr (fri_name q (int j)) = Inr (nms ! j)"
      "\<forall>j < Suc k. fri_name q (int j) = fri_name ?p (int j)" by auto
  have "cstr (fri_name q (int j)) = Inr (nms ! j)" if "j < length accs" "k \<le> j" for j
    using that q(5,6) b(2) by (cases "j = k") auto
  moreover have "\<forall>j < k. fri_name q (int j) = fri_name p (int j)" using q(6) by simp
  ultimately show ?case using up b(1,3) q(1-4) by (simp add: bnd_def)
qed

section \<open>One packet for each friend\<close>

definition friend_view :: "PACK \<Rightarrow> int \<times> int \<times> string result" where
  "friend_view q = (p_type q, p_account q, cstr (p_send_name q))"

lemma send_friend_run:
  assumes "cstr (fri_name p i) = Inr nm" "cstring 100 nm"
  shows "\<exists>q'. send_friend p i q s = Inr (q', s\<lparr>t_sent := t_sent s @ [(t_fd s, q')]\<rparr>)
    \<and> friend_view q' = (p_type q, fri_account p i, Inr nm)"
  using assms cstring_NUL [OF assms(2)]
  by (simp add: send_friend_def bnd_def lifted_def set_runs(3) send_PACK_def setting_def retn_def
      friend_view_def)

lemma scan_friends:
  assumes "\<forall>j < n. fri_account p (int j) = accs ! j \<and> accs ! j \<noteq> - 1
      \<and> cstr (fri_name p (int j)) = Inr (nms ! j) \<and> cstring 100 (nms ! j)"
    and "fri_account p (int n) = - 1" "n < m" "k \<le> n"
  shows "\<exists>q' qs. scan_array (\<lambda>a. a = - 1) (fri_account p) (send_friend p) (int k) (m - k) q s
      = Inr (q', s\<lparr>t_sent := t_sent s @ map (Pair (t_fd s)) qs\<rparr>)
    \<and> map friend_view qs = map (\<lambda>j. (p_type q, accs ! j, Inr (nms ! j))) [k..<n]"
  using assms(4)
proof (induction "n - k" arbitrary: k q s)
  case 0
  then have "k = n" by simp
  moreover from assms(3) obtain l where "m - n = Suc l" by (cases "m - n") auto
  ultimately have "scan_array (\<lambda>a. a = - 1) (fri_account p) (send_friend p) (int k) (m - k) q s = Inr (q, s)"
    using assms(2) by (simp add: retn_def)
  with \<open>k = n\<close> show ?case by (intro exI [of _ q] exI [of _ "[]"]) simp
next
  case (Suc d)
  then have k: "k < n" by simp
  with assms(3) have m: "m - k = Suc (m - Suc k)" by simp
  from assms(1) k have f: "fri_account p (int k) = accs ! k" "accs ! k \<noteq> - 1"
    "cstr (fri_name p (int k)) = Inr (nms ! k)" "cstring 100 (nms ! k)" by auto
  from send_friend_run [OF f(3,4), of q s] obtain q1 where
    q1: "send_friend p (int k) q s = Inr (q1, s\<lparr>t_sent := t_sent s @ [(t_fd s, q1)]\<rparr>)"
      "friend_view q1 = (p_type q, accs ! k, Inr (nms ! k))" using f(1) by auto
  let ?s = "s\<lparr>t_sent := t_sent s @ [(t_fd s, q1)]\<rparr>"
  have "d = n - Suc k" using Suc.hyps(2) by simp
  from Suc.hyps(1) [OF this, of q1 ?s] k obtain q' qs where
    r: "scan_array (\<lambda>a. a = - 1) (fri_account p) (send_friend p) (int (Suc k)) (m - Suc k) q1 ?s
        = Inr (q', ?s\<lparr>t_sent := t_sent ?s @ map (Pair (t_fd ?s)) qs\<rparr>)"
      "map friend_view qs = map (\<lambda>j. (p_type q1, accs ! j, Inr (nms ! j))) [Suc k..<n]"
    by (auto simp del: of_nat_Suc)
  have i: "int k + 1 = int (Suc k)" by simp
  have "scan_array (\<lambda>a. a = - 1) (fri_account p) (send_friend p) (int k) (m - k) q s
      = scan_array (\<lambda>a. a = - 1) (fri_account p) (send_friend p) (int (Suc k)) (m - Suc k) q1 ?s"
    unfolding m scan_array.simps i using f(1,2) q1(1) by (simp add: bnd_def del: of_nat_Suc)
  moreover have "p_type q1 = p_type q" using q1(2) by (simp add: friend_view_def)
  moreover have "[k..<n] = k # [Suc k..<n]" using k by (rule upt_conv_Cons)
  ultimately show ?case using r q1(2)
    by (intro exI [of _ q'] exI [of _ "q1 # qs"]) simp
qed

text \<open>What the database answers about the friends of \<open>a\<close>.\<close>

definition friends_are :: "'db talk_env \<Rightarrow> 'db \<Rightarrow> int \<Rightarrow> int list \<Rightarrow> bool" where
  "friends_are env db a accs \<longleftrightarrow>
     (\<exists>rs. exec env True db (friend_list_query a) = (Rows rs, db) \<and> accounts_of rs accs)"

text \<open>
  C13: The answer to a request for the list of friends is one packet for each row of the table,
  in its order, with the friend's account and name: for up to 49 friends whose accounts are ints
  other than -1, each with one row in the table of users and a name of fewer than 100 bytes there,
  when the queries succeed and leave the database as it is.
\<close>

theorem friend_list_answered:
  assumes "p_type pack = LIST_FRI" "p_account pack = a" "int32 a"
    and "friends_are env (t_db s) a accs" "names_of env (t_db s) accs nms"
    and "length accs < 50" "- 1 \<notin> set accs"
  shows "\<exists>s' qs. deal env pack s = Inr ((), s') \<and> t_sent s' = t_sent s @ map (Pair (t_fd s)) qs
    \<and> map friend_view qs = map2 (\<lambda>acc nm. (LIST_FRI, acc, Inr nm)) accs nms"
proof -
  from assms(4) obtain rs where rs: "exec env True (t_db s) (friend_list_query a) = (Rows rs, t_db s)"
    "accounts_of rs accs" by (auto simp: friends_are_def)
  let ?n = "length accs" and ?k = "t_tick s" and ?q0 = "(stack_pack env (t_tick s))\<lparr>p_type := LIST_FRI\<rparr>"
  from fri_accounts_run [OF rs(2) assms(6), of "stack_fri env (Suc ?k)"] obtain p1 where
    p1: "fri_accounts rs (stack_fri env (Suc ?k)) = Inr p1" "fri_len p1 = int ?n"
      "\<forall>j < ?n. fri_account p1 (int j) = accs ! j" "fri_account p1 (int ?n) = - 1" by blast
  let ?s1 = "s\<lparr>t_open := True, t_tick := Suc (Suc ?k), t_queries := t_queries s @ [friend_list_query a],
    t_result := Some True\<rparr>"
  have "?n \<le> 50" "t_open ?s1" "t_db ?s1 = t_db s" using assms(6) by simp_all
  from fold_names [OF assms(5) this(1) p1(3) le0 this(2,3)] obtain p2 s2 where
    p2: "fold_op (list_fri_name env) [0..int ?n - 1] p1 ?s1 = Inr (p2, s2)" "outside s2 = outside ?s1"
      "fri_account p2 = fri_account p1" "\<forall>j < ?n. cstr (fri_name p2 (int j)) = Inr (nms ! j)" by auto
  let ?s3 = "s2\<lparr>t_open := False\<rparr>"
  have "MYSQL_list_fri env a (s\<lparr>t_open := True, t_tick := Suc ?k\<rparr>) = Inr (p2, ?s3)"
    using rs(1) p1(1,2) p2(1)
    by (simp add: MYSQL_list_fri_def bnd_def sql_run [OF friend_list_text [OF assms(3)]] handle_runs
        lifted_def retn_def)
  moreover have "\<forall>j < ?n. fri_account p2 (int j) = accs ! j \<and> accs ! j \<noteq> - 1
      \<and> cstr (fri_name p2 (int j)) = Inr (nms ! j) \<and> cstring 100 (nms ! j)"
    using p1(3) p2(3,4) assms(5,7)
    by (auto simp: names_of_def list_all2_conv_all_nth in_set_conv_nth)
  from scan_friends [OF this, of 50 0 ?q0 ?s3] p1(4) p2(3) assms(6) obtain q' qs where
    sc: "scan_array (\<lambda>a. a = - 1) (fri_account p2) (send_friend p2) 0 50 ?q0 ?s3
        = Inr (q', ?s3\<lparr>t_sent := t_sent ?s3 @ map (Pair (t_fd ?s3)) qs\<rparr>)"
      "map friend_view qs = map (\<lambda>j. (LIST_FRI, accs ! j, Inr (nms ! j))) [0..<?n]" by auto
  ultimately have "deal env pack s = Inr ((), ?s3\<lparr>t_sent := t_sent ?s3 @ map (Pair (t_fd ?s3)) qs\<rparr>)"
    using assms(1,2)
    by (simp add: deal_def LIST_FRI_def deal_list_fri_def bnd_def handle_runs new_pack_def retn_def)
  moreover have "map (\<lambda>j. (LIST_FRI, accs ! j, Inr (nms ! j))) [0..<?n]
      = map2 (\<lambda>acc nm. (LIST_FRI, acc, Inr nm)) accs nms"
    using assms(5) by (intro nth_equalityI) (auto simp: names_of_def dest: list_all2_lengthD)
  ultimately show ?thesis using sc(2) outside_fields [OF p2(2)] by auto
qed

theorem friend_list_answered_witness:
  "\<exists>s' q. deal (demo_env zero_pack (Rows [demo_row])) (demo_pack LIST_FRI 7 0 []) (talk_start ()) = Inr ((), s')
     \<and> t_sent s' = [(0, q)] \<and> friend_view q = (LIST_FRI, 8, Inr ''8'')"
proof -
  let ?env = "demo_env zero_pack (Rows [demo_row])"
  have f: "friends_are ?env () 7 [8]" by (simp add: friends_are_def accounts_of_def)
  have n: "names_of ?env () [8] [''8'']" by (simp add: names_of_def cstring_def fits_def)
  show ?thesis
    using friend_list_answered [of "demo_pack LIST_FRI 7 0 []" 7 ?env "talk_start ()" "[8]" "[''8'']"] f n
    by (auto simp: map_eq_Cons_conv)
qed

text \<open>
  With 50 friends or more the answer is written past the end of the array of accounts, be it
  only by the -1 that ends it.
\<close>

theorem friend_list_overflow:
  assumes "p_type pack = LIST_FRI" "p_account pack = a" "int32 a"
    and "friends_are env (t_db s) a accs" "50 \<le> length accs"
  shows "deal env pack s = Inl Out_Of_Bounds"
proof -
  from assms(4) obtain rs where rs: "exec env True (t_db s) (friend_list_query a) = (Rows rs, t_db s)"
    "accounts_of rs accs" by (auto simp: friends_are_def)
  have "MYSQL_list_fri env a (s\<lparr>t_open := True, t_tick := Suc (t_tick s)\<rparr>) = Inl Out_Of_Bounds"
    using rs(1) fri_accounts_too_many [OF rs(2) assms(5)]
    by (simp add: MYSQL_list_fri_def bnd_def sql_run [OF friend_list_text [OF assms(3)]] handle_runs
        lifted_def)
  then show ?thesis using assms(1,2)
    by (simp add: deal_def LIST_FRI_def deal_list_fri_def bnd_def handle_runs new_pack_def)
qed

theorem friend_list_overflow_witness:
  "deal (demo_env zero_pack (Rows (replicate 50 demo_row))) (demo_pack LIST_FRI 7 0 []) (talk_start ())
     = Inl Out_Of_Bounds"
proof -
  have "friends_are (demo_env zero_pack (Rows (replicate 50 demo_row))) () 7 (replicate 50 8)"
    by (simp add: friends_are_def accounts_of_def map_replicate)
  then show ?thesis
    using friend_list_overflow [of "demo_pack LIST_FRI 7 0 []" 7 _ "talk_start ()" "replicate 50 8"] by simp
qed

end
