(* ===== verification/Talk_Client.thy ===== *)
theory Talk_Client
  imports Talk_Pack Talk_Printf Message_Box Client_State
begin

text \<open>
  The client of the second chat room, \<open>Code/liuting1/chatroom/client_io.c\<close>: the requests it sends
  from what is typed, and what its receiving thread does with each packet.
\<close>

section \<open>State\<close>

text \<open>Friend requests, private messages and group messages waiting to be read.\<close>

record MESS =
  ms_mes :: string
  ms_send_account :: int

record chatF =
  cf_account :: int
  cf_mes :: string
  cf_send_name :: string

record chatG =
  cg_group_name :: string
  cg_use_name :: string
  cg_mes :: string

datatype tfile = Directory | File string

text \<open>
  \<open>c_keys\<close> is what will be typed, \<open>c_in\<close> the byte runs the connection will deliver, \<open>c_closed\<close> whether
  the server closes it after them, \<open>c_sent\<close> the packets handed to \<open>send\<close>. \<open>c_screen\<close> has, for each \<open>printf\<close> of a packet, the values printed, in
  order; prompts and labels are left out. \<open>c_chat\<close>: the menu is in the loop of
  a chat, with this packet. \<open>c_exited\<close>: the program has called \<open>exit\<close>.
\<close>

record tclient =
  c_account :: int
  c_send_account :: int
  c_password :: string
  c_keys :: string
  c_in :: "string list"
  c_closed :: bool
  c_sent :: "PACK list"
  c_screen :: "farg list list"
  c_mess :: "MESS box"
  c_fri :: "chatF box"
  c_grp :: "chatG box"
  c_files :: "string \<Rightarrow> tfile option"
  c_send_sum :: int
  c_recv_sum :: int
  c_tick :: nat
  c_chat :: "PACK option"
  c_exited :: bool

text \<open>The globals when the program starts, with what will be typed and what will be received.\<close>

definition client_start :: "string \<Rightarrow> string list \<Rightarrow> tclient" where
  "client_start ks segs = \<lparr>c_account = 0, c_send_account = 0, c_password = replicate 17 (CHR 0x00),
     c_keys = ks, c_in = segs, c_closed = False, c_sent = [], c_screen = [], c_mess = empty_box, c_fri = empty_box,
     c_grp = empty_box, c_files = (\<lambda>_. None), c_send_sum = 0, c_recv_sum = 0, c_tick = 0,
     c_chat = None, c_exited = False\<rparr>"

lemma client_start_simps [simp]:
  "c_keys (client_start ks segs) = ks" "c_in (client_start ks segs) = segs"
  "c_fri (client_start ks segs) = empty_box" "c_files (client_start ks segs) = (\<lambda>_. None)"
  by (simp_all add: client_start_def)

text \<open>
  What a packet on the stack holds before it is written, and whether the uninitialised result of a
  failed \<open>lstat\<close> looks like a directory.
\<close>

record tclient_env =
  c_stack :: "nat \<Rightarrow> PACK"
  c_stat_junk :: bool

definition c_fresh :: "tclient_env \<Rightarrow> (tclient, PACK) op" where
  "c_fresh env s = Inr (c_stack env (c_tick s), s\<lparr>c_tick := Suc (c_tick s)\<rparr>)"

definition c_send :: "PACK \<Rightarrow> (tclient, unit) op" where
  "c_send p = setting (\<lambda>s. s\<lparr>c_sent := c_sent s @ [p]\<rparr>)"

definition c_show :: "farg list \<Rightarrow> (tclient, unit) op" where
  "c_show xs = setting (\<lambda>s. s\<lparr>c_screen := c_screen s @ [xs]\<rparr>)"

section \<open>The terminal\<close>

text \<open>\<open>getch\<close> and \<open>getchar\<close>: one character.\<close>

definition getch :: "(tclient, char) op" where
  "getch s = (case c_keys s of [] \<Rightarrow> Inl No_Return | k # ks \<Rightarrow> Inr (k, s\<lparr>c_keys := ks\<rparr>))"

definition is_digit :: "char \<Rightarrow> bool" where
  "is_digit c \<longleftrightarrow> 48 \<le> (of_char c :: nat) \<and> (of_char c :: nat) \<le> 57"

text \<open>
  \<open>scanf("%d", ...)\<close>: skip blanks, a sign, digits. Without a digit nothing is stored, and the
  character that does not fit stays in the input. A number too long is cut as \<open>strtol\<close> does, and
  then to the 32 bits of an \<open>int\<close>.
\<close>

definition scan_num :: "string \<Rightarrow> (int option \<times> string) option" where
  "scan_num ks =
     (case dropWhile isspace ks of
        [] \<Rightarrow> None
      | c # cs \<Rightarrow>
          let neg = (c = CHR ''-'');
              body = (if c = CHR ''-'' \<or> c = CHR ''+'' then cs else c # cs);
              after = dropWhile is_digit body;
              v = int (digits_value 0 (takeWhile is_digit body))
          in if after = [] then None
             else if takeWhile is_digit body = [] then Some (None, body)
             else Some (Some (if neg then - v else v), after))"

definition scan_int :: "int \<Rightarrow> (tclient, int) op" where
  "scan_int old s =
     (case scan_num (c_keys s) of
        None \<Rightarrow> Inl No_Return
      | Some (v, rest) \<Rightarrow> Inr (case v of None \<Rightarrow> old | Some i \<Rightarrow> long_to_int i, s\<lparr>c_keys := rest\<rparr>))"

definition scan_str :: "(tclient, string) op" where
  "scan_str s =
     (case scan_word (c_keys s) of
        None \<Rightarrow> Inl No_Return
      | Some (w, rest) \<Rightarrow> Inr (w, s\<lparr>c_keys := rest\<rparr>))"

text \<open>\<open>scanf("%s", pack.mes)\<close>\<close>

definition scan_mes :: "PACK \<Rightarrow> (tclient, PACK) op" where
  "scan_mes p = bnd scan_str (\<lambda>w. lifted (set_mes w p))"

text \<open>\<open>GetPasswd\<close>: up to a newline, or the ninth character, which is read and dropped.\<close>

fun passwd_loop :: "nat \<Rightarrow> string \<Rightarrow> string \<Rightarrow> (string \<times> string) option" where
  "passwd_loop i typed [] = None"
| "passwd_loop i typed (k # ks) =
     (if i = 8 \<or> k = newline then Some (typed, ks) else passwd_loop (Suc i) (typed @ [k]) ks)"

definition GetPasswd :: "(tclient, unit) op" where
  "GetPasswd s =
     (case passwd_loop 0 [] (c_keys s) of
        None \<Rightarrow> Inl No_Return
      | Some (typed, ks) \<Rightarrow>
          Inr ((), s\<lparr>c_password := typed @ replicate (17 - length typed) (CHR 0x00), c_keys := ks\<rparr>))"

section \<open>Before the login\<close>

text \<open>
  The loop around \<open>recv\<close> without \<open>MSG_WAITALL\<close>: the first bytes that come are taken for the reply;
  on a closed connection it goes round for ever.
\<close>

definition recv_reply :: "(tclient, PACK) op" where
  "recv_reply s =
     (case recv PACK_size (c_in s) of
        (b, rest) \<Rightarrow> if b = [] then Inl No_Return
          else Inr (fill_pack zero_pack b, s\<lparr>c_in := rest\<rparr>))"

definition copy_password :: "(string \<Rightarrow> PACK \<Rightarrow> PACK result) \<Rightarrow> PACK \<Rightarrow> (tclient, PACK) op" where
  "copy_password put p =
     bnd GetPasswd (\<lambda>_.
     bnd (getting c_password) (\<lambda>b.
     bnd (lifted (cstr b)) (\<lambda>t. lifted (put t p))))"

definition send_login_PACK :: "tclient_env \<Rightarrow> (tclient, int) op" where
  "send_login_PACK env =
     bnd (c_fresh env) (\<lambda>p.
     bnd (scan_int (p_account p)) (\<lambda>a.
     bnd getch (\<lambda>_.
     bnd (setting (\<lambda>s. s\<lparr>c_account := a\<rparr>)) (\<lambda>_.
     bnd (copy_password set_mes (p\<lparr>p_type := LOGIN, p_account := a\<rparr>)) (\<lambda>p1.
     bnd (c_send p1) (\<lambda>_.
     bnd recv_reply (\<lambda>r. retn (if p_type r = 0 then 0 else - 1))))))))"

definition send_regist_PACK :: "tclient_env \<Rightarrow> (tclient, unit) op" where
  "send_regist_PACK env =
     bnd (c_fresh env) (\<lambda>p.
     bnd (scan_mes (p\<lparr>p_type := REGIST\<rparr>)) (\<lambda>p1.
     bnd getch (\<lambda>_.
     bnd (copy_password set_mes2 p1) (\<lambda>p2.
     bnd (c_send p2) (\<lambda>_.
     bnd recv_reply (\<lambda>r. when_op (p_type r = 0) (c_show [D (p_account r)])))))))"

definition send_repasswd_PACK :: "tclient_env \<Rightarrow> (tclient, int) op" where
  "send_repasswd_PACK env =
     bnd (c_fresh env) (\<lambda>p.
     bnd (scan_int (p_account p)) (\<lambda>a.
     bnd getch (\<lambda>_.
     bnd (copy_password set_mes (p\<lparr>p_type := REPASSWD, p_account := a\<rparr>)) (\<lambda>p1.
     bnd (copy_password set_mes2 p1) (\<lambda>p2.
     bnd (c_send p2) (\<lambda>_.
     bnd recv_reply (\<lambda>r. retn (if p_type r = 0 then 0 else - 1))))))))"

section \<open>Requests\<close>

text \<open>A packet with its type and the client's account.\<close>

definition request_from :: "tclient_env \<Rightarrow> int \<Rightarrow> (tclient, PACK) op" where
  "request_from env ty =
     bnd (c_fresh env) (\<lambda>p.
     bnd (getting c_account) (\<lambda>a. retn (p\<lparr>p_type := ty, p_account := a\<rparr>)))"

text \<open>\<open>scanf("%d",&pack.send_account)\<close>\<close>

definition scan_target :: "PACK \<Rightarrow> (tclient, PACK) op" where
  "scan_target p = bnd (scan_int (p_send_account p)) (\<lambda>b. retn (p\<lparr>p_send_account := b\<rparr>))"

definition send_exit_PACK :: "tclient_env \<Rightarrow> (tclient, unit) op" where
  "send_exit_PACK env = bnd (request_from env EXIT) c_send"

definition send_addfriend_PACK :: "tclient_env \<Rightarrow> (tclient, unit) op" where
  "send_addfriend_PACK env =
     bnd (request_from env ADD_FRIEND) (\<lambda>p.
     bnd (scan_target p) (\<lambda>p1.
       if p_account p1 = p_send_account p1 then retn ()
       else bnd getch (\<lambda>_. c_send p1)))"

definition send_list_fri :: "tclient_env \<Rightarrow> (tclient, unit) op" where
  "send_list_fri env = bnd (request_from env LIST_FRI) c_send"

definition send_online_fri :: "tclient_env \<Rightarrow> (tclient, unit) op" where
  "send_online_fri env = bnd (request_from env ONLINE_FRI) c_send"

text \<open>
  The two chats are loops, \<open>do { scanf; getchar; send } while (strcmp(pack.mes, "Bye") != 0)\<close>, during
  which packets come in. So they are split into their start, which leaves the packet in
  \<open>c_chat\<close>, and one round of the loop; \<open>send_account\<close> is reset after the last.
\<close>

definition chat_round :: "PACK \<Rightarrow> (tclient, unit) op" where
  "chat_round p =
     bnd (scan_mes p) (\<lambda>p1.
     bnd getch (\<lambda>_.
     bnd (c_send p1) (\<lambda>_.
     bnd (lifted (cstr (p_mes p1))) (\<lambda>t.
       if t = ''Bye'' then setting (\<lambda>s. s\<lparr>c_send_account := 0, c_chat := None\<rparr>)
       else setting (\<lambda>s. s\<lparr>c_chat := Some p1\<rparr>)))))"

definition send_chat_fri :: "tclient_env \<Rightarrow> (tclient, unit) op" where
  "send_chat_fri env =
     bnd (request_from env CHAT_FRI) (\<lambda>p.
     bnd (scan_target p) (\<lambda>p1.
       setting (\<lambda>s. s\<lparr>c_send_account := p_send_account p1, c_chat := Some p1\<rparr>)))"

definition send_dele_fri :: "tclient_env \<Rightarrow> (tclient, unit) op" where
  "send_dele_fri env = bnd (request_from env DELE_FRI) (\<lambda>p. bnd (scan_target p) c_send)"

text \<open>The target, the newline behind it, and the packet.\<close>

definition send_to_target :: "PACK \<Rightarrow> (tclient, unit) op" where
  "send_to_target p = bnd (scan_target p) (\<lambda>p1. bnd getch (\<lambda>_. c_send p1))"

definition send_store_chat :: "tclient_env \<Rightarrow> (tclient, unit) op" where
  "send_store_chat env = bnd (request_from env STORE_CHAT) send_to_target"

definition send_creat_group :: "tclient_env \<Rightarrow> (tclient, unit) op" where
  "send_creat_group env = bnd (request_from env CREAT_GROUP) (\<lambda>p. bnd (scan_mes p) c_send)"

definition send_join_group :: "tclient_env \<Rightarrow> (tclient, unit) op" where
  "send_join_group env = bnd (request_from env JOIN_GROUP) send_to_target"

definition send_quit_group :: "tclient_env \<Rightarrow> (tclient, unit) op" where
  "send_quit_group env = bnd (request_from env QUIT_GROUP) send_to_target"

definition send_dele_group :: "tclient_env \<Rightarrow> (tclient, unit) op" where
  "send_dele_group env = bnd (request_from env DELE_GROUP) send_to_target"

text \<open>Two requests leave the account of the packet as it was on the stack.\<close>

definition send_group_mes :: "tclient_env \<Rightarrow> (tclient, unit) op" where
  "send_group_mes env = bnd (c_fresh env) (\<lambda>p. send_to_target (p\<lparr>p_type := GROUP_MES\<rparr>))"

definition send_find_store_g :: "tclient_env \<Rightarrow> (tclient, unit) op" where
  "send_find_store_g env = bnd (c_fresh env) (\<lambda>p. send_to_target (p\<lparr>p_type := STORE_G\<rparr>))"

definition send_chat_group :: "tclient_env \<Rightarrow> (tclient, unit) op" where
  "send_chat_group env =
     bnd (request_from env CHAT_GROUP) (\<lambda>p.
     bnd (scan_target p) (\<lambda>p1.
     bnd (setting (\<lambda>s. s\<lparr>c_send_account := p_send_account p1\<rparr>)) (\<lambda>_.
     bnd getch (\<lambda>_. setting (\<lambda>s. s\<lparr>c_chat := Some p1\<rparr>)))))"

text \<open>A group, then a member's account as a word, then the newline.\<close>

definition send_target_and_word :: "PACK \<Rightarrow> (tclient, unit) op" where
  "send_target_and_word p =
     bnd (scan_target p) (\<lambda>p1. bnd (scan_mes p1) (\<lambda>p2. bnd getch (\<lambda>_. c_send p2)))"

definition send_set_up :: "tclient_env \<Rightarrow> (tclient, unit) op" where
  "send_set_up env = bnd (request_from env SET_UP) send_target_and_word"

definition send_join_user :: "tclient_env \<Rightarrow> (tclient, unit) op" where
  "send_join_user env = bnd (request_from env JOIN_USER) send_target_and_word"

definition send_dele_user :: "tclient_env \<Rightarrow> (tclient, unit) op" where
  "send_dele_user env = bnd (request_from env DELE_USER) send_target_and_word"

section \<open>Files\<close>

text \<open>
  \<open>send_file\<close>: the file in pieces of up to 1000 bytes, the number of bytes in the place of the
  account. \<open>lstat\<close> of a missing file leaves \<open>buf\<close> as it was; \<open>open\<close> then fails and nothing is read.
\<close>

function file_packs :: "PACK \<Rightarrow> int \<Rightarrow> string \<Rightarrow> PACK list" where
  "file_packs p target bytes =
     (if bytes = [] then []
      else
        let piece = take 1000 bytes in
          p\<lparr>p_account := int (length piece), p_mes := piece @ drop (length piece) (p_mes p)\<rparr>
          # file_packs (zero_pack\<lparr>p_type := SEND_FILE, p_send_account := target\<rparr>) target (drop 1000 bytes))"
  by pat_completeness auto
termination
  by (relation "measure (\<lambda>(p, a, bytes). length bytes)") auto

declare file_packs.simps [simp del]

text \<open>\<open>send_sum\<close> and \<open>recv_sum\<close> are of type \<open>int\<close>, and their sums must fit.\<close>

definition plus_int :: "int \<Rightarrow> int \<Rightarrow> int result" where
  "plus_int a b = (if int32 (a + b) then Inr (a + b) else Inl Bad_Arith)"

definition chat_send_file :: "tclient_env \<Rightarrow> (tclient, unit) op" where
  "chat_send_file env =
     bnd (getting c_account) (\<lambda>a.
     bnd (scan_target (zero_pack\<lparr>p_type := SEND_FILE, p_account := a\<rparr>)) (\<lambda>p.
     bnd (setting (\<lambda>s. s\<lparr>c_send_account := p_send_account p\<rparr>)) (\<lambda>_.
     bnd scan_str (\<lambda>w.
     bnd (lifted (strcpy 1000 w)) (\<lambda>path.
     bnd (getting c_files) (\<lambda>files.
       case files path of
         Some Directory \<Rightarrow> retn ()
       | Some (File bytes) \<Rightarrow>
           bnd (getting c_send_sum) (\<lambda>before.
           bnd (lifted (plus_int before (int (length bytes)))) (\<lambda>n.
           bnd (setting (\<lambda>s. s\<lparr>c_sent := c_sent s @ file_packs p (p_send_account p) bytes,
             c_send_sum := n\<rparr>)) (\<lambda>_. c_show [D n])))
       | None \<Rightarrow>
           when_op (\<not> c_stat_junk env) (bnd (getting c_send_sum) (\<lambda>n. c_show [D n]))))))))"

text \<open>
  \<open>recv_file\<close> appends the first \<open>account\<close> bytes of the packet to the file \<open>test\<close>. When \<open>test\<close> is a
  directory it cannot be opened, and \<open>write\<close> fails, as it does for a negative number of bytes; one
  above the size of the array reads past it.
\<close>

definition recv_file :: "PACK \<Rightarrow> (tclient, unit) op" where
  "recv_file p =
     bnd (getting c_files) (\<lambda>files.
     bnd (getting c_recv_sum) (\<lambda>before.
       if files ''test'' = Some Directory \<or> p_account p < 0
       then bnd (lifted (plus_int before (- 1))) (\<lambda>n. setting (\<lambda>s. s\<lparr>c_recv_sum := n\<rparr>))
       else if 1000 < p_account p then lifted (Inl Out_Of_Bounds)
       else bnd (lifted (plus_int before (p_account p))) (\<lambda>n.
         setting (\<lambda>s. s\<lparr>c_recv_sum := n,
           c_files := files(''test'' \<mapsto>
             File ((case files ''test'' of Some (File old) \<Rightarrow> old | _ \<Rightarrow> [])
                   @ take (nat (p_account p)) (p_mes p)))\<rparr>))))"

section \<open>Boxes\<close>

definition push_mess :: "MESS \<Rightarrow> (tclient, unit) op" where
  "push_mess x s = rbind (box_push x (c_mess s)) (\<lambda>b. Inr ((), s\<lparr>c_mess := b\<rparr>))"

definition push_fri :: "chatF \<Rightarrow> (tclient, unit) op" where
  "push_fri x s = rbind (box_push x (c_fri s)) (\<lambda>b. Inr ((), s\<lparr>c_fri := b\<rparr>))"

definition push_grp :: "chatG \<Rightarrow> (tclient, unit) op" where
  "push_grp x s = rbind (box_push x (c_grp s)) (\<lambda>b. Inr ((), s\<lparr>c_grp := b\<rparr>))"

text \<open>A string of a packet copied into an array of \<open>cap\<close> bytes, and one printed.\<close>

definition copied :: "nat \<Rightarrow> string \<Rightarrow> (tclient, string) op" where
  "copied cap b = bnd (lifted (cstr b)) (\<lambda>t. lifted (strcpy cap t))"

definition show_mes :: "PACK \<Rightarrow> (tclient, unit) op" where
  "show_mes p = bnd (lifted (cstr (p_mes p))) (\<lambda>t. c_show [S t])"

definition recv_ADDFR_mess :: "PACK \<Rightarrow> (tclient, unit) op" where
  "recv_ADDFR_mess p =
     bnd (getting c_account) (\<lambda>me.
       if p_account p = me then show_mes p
       else
         bnd (copied 1000 (p_mes p)) (\<lambda>t.
         bnd (push_mess \<lparr>ms_mes = t, ms_send_account = p_account p\<rparr>) (\<lambda>_. c_show [])))"

definition recv_CHAT_FRI :: "PACK \<Rightarrow> (tclient, unit) op" where
  "recv_CHAT_FRI p =
     bnd (getting c_account) (\<lambda>me.
     bnd (getting c_send_account) (\<lambda>talking_to.
       if p_account p = me then show_mes p
       else if p_account p = talking_to then
         bnd (lifted (cstr (p_send_name p))) (\<lambda>n.
         bnd (lifted (cstr (p_mes p))) (\<lambda>t. c_show [S n, S t]))
       else
         bnd (copied 100 (p_send_name p)) (\<lambda>n.
         bnd (copied 1000 (p_mes p)) (\<lambda>t.
         bnd (push_fri \<lparr>cf_account = p_account p, cf_mes = t, cf_send_name = n\<rparr>) (\<lambda>_. c_show [])))))"

text \<open>The member's name is copied from \<open>mes\<close>, of 1000 bytes, into an array of 100.\<close>

definition recv_CHAT_GROUP :: "PACK \<Rightarrow> (tclient, unit) op" where
  "recv_CHAT_GROUP p =
     bnd (getting c_account) (\<lambda>me.
     bnd (getting c_send_account) (\<lambda>talking_to.
       if p_account p = me then show_mes p
       else if p_account p = talking_to then
         bnd (lifted (cstr (p_send_name p))) (\<lambda>g.
         bnd (lifted (cstr (p_mes p))) (\<lambda>n.
         bnd (lifted (cstr (p_mes2 p))) (\<lambda>t. c_show [S g, S n, S t])))
       else
         bnd (copied 100 (p_send_name p)) (\<lambda>g.
         bnd (copied 100 (p_mes p)) (\<lambda>n.
         bnd (copied 1000 (p_mes2 p)) (\<lambda>t.
         bnd (push_grp \<lparr>cg_group_name = g, cg_use_name = n, cg_mes = t\<rparr>) (\<lambda>_. c_show []))))))"

text \<open>The readers: each message is handled, unlinked and freed; then the sentinel is freed.\<close>

definition answer_request :: "MESS \<Rightarrow> (tclient, unit) op" where
  "answer_request x =
     bnd (c_show [S (ms_mes x)]) (\<lambda>_.
     bnd getch (\<lambda>k.
     bnd (getting c_account) (\<lambda>me.
     bnd (lifted (set_mes (if k = CHR ''y'' \<or> k = CHR ''Y'' then ''success'' else ''fail'')
       (zero_pack\<lparr>p_type := 41, p_account := me, p_send_account := ms_send_account x\<rparr>))) c_send)))"

definition recv_ADDFR_box :: "(tclient, unit) op" where
  "recv_ADDFR_box s =
     (if box_head (c_mess s) = None then c_show [] s
      else rbind (returning (box_drain answer_request (c_mess s) s)) (\<lambda>(b, s').
        Inr ((), s'\<lparr>c_mess := b\<rparr>)))"

definition recv_chat_fri :: "(tclient, unit) op" where
  "recv_chat_fri s =
     (if box_head (c_fri s) = None then c_show [] s
      else rbind (returning (box_drain (\<lambda>x. c_show [S (cf_send_name x), S (cf_mes x)]) (c_fri s) s))
        (\<lambda>(b, s'). Inr ((), s'\<lparr>c_fri := b\<rparr>)))"

definition recv_chat_group :: "(tclient, unit) op" where
  "recv_chat_group s =
     (if box_head (c_grp s) = None then c_show [] s
      else rbind (returning (box_drain
        (\<lambda>x. c_show [S (cg_group_name x), S (cg_use_name x), S (cg_mes x)]) (c_grp s) s))
        (\<lambda>(b, s'). Inr ((), s'\<lparr>c_grp := b\<rparr>)))"

section \<open>The receiving thread\<close>

text \<open>The answers that are only printed.\<close>

definition recv_store_chat :: "PACK \<Rightarrow> (tclient, unit) op" where
  "recv_store_chat p =
     bnd (c_show [D (p_account p), D (p_send_account p)]) (\<lambda>_. show_mes p)"

definition recv_list_fri :: "PACK \<Rightarrow> (tclient, unit) op" where
  "recv_list_fri p = bnd (lifted (cstr (p_send_name p))) (\<lambda>n. c_show [D (p_account p), S n])"

definition recv_creat_group :: "PACK \<Rightarrow> (tclient, unit) op" where
  "recv_creat_group p = bnd (lifted (cstr (p_mes p))) (\<lambda>t. c_show [S t, D (p_account p)])"

definition recv_group_mes :: "PACK \<Rightarrow> (tclient, unit) op" where
  "recv_group_mes p =
     bnd (lifted (cstr (p_send_name p))) (\<lambda>n.
     bnd (lifted (cstr (p_mes p))) (\<lambda>t.
       c_show [D (p_account p), S n, D (if p_send_account p = 1 then 1 else 0), S t]))"

definition recv_store_group :: "PACK \<Rightarrow> (tclient, unit) op" where
  "recv_store_group p = bnd (lifted (cstr (p_mes p))) (\<lambda>t. c_show [D (p_account p), S t])"

definition client_handle :: "PACK \<Rightarrow> (tclient, unit) op" where
  "client_handle p =
     (let ty = p_type p in
        if ty = ADD_FRIEND then recv_ADDFR_mess p
        else if ty = 41 then show_mes p
        else if ty = CHAT_FRI then recv_CHAT_FRI p
        else if ty = STORE_CHAT then recv_store_chat p
        else if ty = 81 then show_mes p
        else if ty = LIST_FRI then recv_list_fri p
        else if ty = ONLINE_FRI then recv_list_fri p
        else if ty = CREAT_GROUP then recv_creat_group p
        else if ty = JOIN_GROUP then show_mes p
        else if ty = QUIT_GROUP then show_mes p
        else if ty = DELE_GROUP then show_mes p
        else if ty = GROUP_MES then recv_group_mes p
        else if ty = 141 then show_mes p
        else if ty = CHAT_GROUP then recv_CHAT_GROUP p
        else if ty = STORE_G then recv_store_group p
        else if ty = 161 then show_mes p
        else if ty = SET_UP then show_mes p
        else if ty = SEND_FILE then recv_file p
        else if ty = JOIN_USER then show_mes p
        else if ty = DELE_USER then show_mes p
        else retn ())"

text \<open>
  One round of the thread's loop: clear the packet, receive, handle. While a packet is not there as a whole
  and the connection is open, the thread waits and nothing changes.
\<close>

definition client_recv :: "(tclient, unit) op" where
  "client_recv s =
     (case recv_all PACK_size (c_in s) of
        (b, rest) \<Rightarrow>
          if length b < PACK_size \<and> \<not> c_closed s then Inr ((), s)
          else client_handle (fill_pack zero_pack b) (s\<lparr>c_in := rest\<rparr>))"

end
