(* ===== verification/Talk_Menu.thy ===== *)
theory Talk_Menu
  imports Talk_Client
begin

text \<open>
  The menus of the second chat room's client, \<open>Code/liuting1/chatroom/client_menu.c\<close> and
  \<open>client.c\<close>: the login menu, the main menu, and the two threads after the login, interleaved at
  whole packets, menu choices and lines of a chat.
\<close>

section \<open>The main menu\<close>

definition client_deal :: "tclient_env \<Rightarrow> char \<Rightarrow> (tclient, unit) op" where
  "client_deal env choice =
     (if choice = CHR ''0'' then
        bnd (send_exit_PACK env) (\<lambda>_. setting (\<lambda>s. s\<lparr>c_exited := True\<rparr>))
      else if choice = CHR ''a'' then send_list_fri env
      else if choice = CHR ''b'' then send_online_fri env
      else if choice = CHR ''c'' then send_addfriend_PACK env
      else if choice = CHR ''d'' then send_dele_fri env
      else if choice = CHR ''e'' then send_group_mes env
      else if choice = CHR ''f'' then send_creat_group env
      else if choice = CHR ''g'' then send_join_group env
      else if choice = CHR ''h'' then send_quit_group env
      else if choice = CHR ''i'' then send_dele_group env
      else if choice = CHR ''j'' then send_chat_fri env
      else if choice = CHR ''k'' then send_chat_group env
      else if choice = CHR ''l'' then chat_send_file env
      else if choice = CHR ''m'' then recv_ADDFR_box
      else if choice = CHR ''n'' then recv_chat_fri
      else if choice = CHR ''o'' then recv_chat_group
      else if choice = CHR ''p'' then send_store_chat env
      else if choice = CHR ''q'' then send_find_store_g env
      else if choice = CHR ''r'' then send_set_up env
      else if choice = CHR ''s'' then send_join_user env
      else if choice = CHR ''t'' then send_dele_user env
      else c_show [])"

text \<open>One round of \<open>main_menu\<close>'s loop.\<close>

definition menu_round :: "tclient_env \<Rightarrow> (tclient, unit) op" where
  "menu_round env = bnd getch (client_deal env)"

section \<open>The two threads\<close>

text \<open>The thread of the menu goes on with the chat it is in; after \<open>exit\<close> nothing runs.\<close>

datatype thread_step = Menu | Receiver

definition client_step :: "tclient_env \<Rightarrow> thread_step \<Rightarrow> (tclient, unit) op" where
  "client_step env st =
     bnd (getting c_exited) (\<lambda>gone.
     bnd (getting c_chat) (\<lambda>chat.
       if gone then retn ()
       else
         (case st of
            Receiver \<Rightarrow> client_recv
          | Menu \<Rightarrow> (case chat of Some p \<Rightarrow> chat_round p | None \<Rightarrow> menu_round env))))"

definition client_threads :: "tclient_env \<Rightarrow> thread_step list \<Rightarrow> (tclient, unit) op" where
  "client_threads env sts = each (client_step env) sts"

section \<open>The login menu\<close>

text \<open>
  One round of \<open>main_login\<close>: go on to the main menu, come back to the login menu (a recursive
  call), or call \<open>exit(0)\<close>. The calls never return, so what follows them in the code is not reached.
\<close>

datatype login_next = Main_menu | Login_again | Quit

definition login_round :: "tclient_env \<Rightarrow> (tclient, login_next) op" where
  "login_round env =
     bnd getch (\<lambda>choice.
       if choice = CHR ''1'' then
         bnd (send_login_PACK env) (\<lambda>ret. retn (if ret = 0 then Main_menu else Login_again))
       else if choice = CHR ''2'' then bnd (send_regist_PACK env) (\<lambda>_. retn Login_again)
       else if choice = CHR ''3'' then bnd (send_repasswd_PACK env) (\<lambda>_. retn Login_again)
       else if choice = CHR ''0'' then retn Quit
       else bnd getch (\<lambda>_. retn Login_again))"

text \<open>Every round reads a key, so the recursion ends; the test only tells Isabelle so.\<close>

function main_login :: "tclient_env \<Rightarrow> tclient \<Rightarrow> (login_next \<times> tclient) result" where
  "main_login env s =
     (case login_round env s of
        Inl e \<Rightarrow> Inl e
      | Inr (next, t) \<Rightarrow>
          if next = Login_again \<and> length (c_keys t) < length (c_keys s) then main_login env t
          else Inr (next, t))"
  by pat_completeness auto
termination
  by (relation "measure (\<lambda>(env, s). length (c_keys s))") auto

declare main_login.simps [simp del]

text \<open>\<open>main\<close>: log in, then run the two threads.\<close>

definition client_main :: "tclient_env \<Rightarrow> thread_step list \<Rightarrow> (tclient, unit) op" where
  "client_main env sts s =
     rbind (main_login env s) (\<lambda>(next, t).
       if next = Main_menu then client_threads env sts t else Inr ((), t\<lparr>c_exited := True\<rparr>))"

end
