(* ===== verification/Talk_Chat.thy ===== *)
theory Talk_Chat
  imports Talk_Menu Talk_Rooms
begin

text \<open>
  Properties of the second chat room's client: its operations only use up what is typed, the login
  menu ends, passwords are cut, the boxes are read in order, and a file sent piece by piece through
  the server arrives whole.
\<close>

section \<open>Keys are only used up\<close>

text \<open>No operation types keys itself, and what was sent stays sent.\<close>

definition uses_keys :: "tclient \<Rightarrow> tclient \<Rightarrow> bool" where
  "uses_keys s t \<longleftrightarrow> suffix (c_keys t) (c_keys s) \<and> prefix (c_sent s) (c_sent t)"

interpretation keys_used: move_law uses_keys
  by unfold_locales
    (auto simp: uses_keys_def intro: suffix_order.trans prefix_order.trans)

named_theorems key_ops \<open>client operations that only use up keys\<close>

lemma scan_num_suffix: "scan_num ks = Some (v, rest) \<Longrightarrow> suffix rest ks"
proof -
  assume s: "scan_num ks = Some (v, rest)"
  then obtain c cs where c: "dropWhile isspace ks = c # cs"
    by (auto simp: scan_num_def split: list.splits)
  have "suffix (c # cs) ks" unfolding c [symmetric] by (rule suffix_dropWhile)
  moreover have "suffix rest (c # cs)"
    using s c by (auto simp: scan_num_def Let_def suffix_dropWhile suffix_Cons split: if_splits)
  ultimately show ?thesis using suffix_order.trans by blast
qed

lemma passwd_loop_suffix: "passwd_loop i w ks = Some (v, rest) \<Longrightarrow> suffix rest ks \<and> length rest < length ks"
  by (induction i w ks rule: passwd_loop.induct) (auto simp: suffix_ConsI split: if_splits)

lemma keys_basic [key_ops]:
  "moves uses_keys getch" "moves uses_keys (scan_int i)" "moves uses_keys scan_str"
  "moves uses_keys GetPasswd" "moves uses_keys (c_fresh env)" "moves uses_keys (c_send p)"
  "moves uses_keys (c_show xs)" "moves uses_keys recv_reply"
  by (auto simp: moves_def uses_keys_def getch_def scan_int_def scan_str_def GetPasswd_def c_fresh_def
      c_send_def c_show_def recv_reply_def setting_def suffix_ConsI
      split: list.splits option.splits prod.splits if_splits
      dest: scan_num_suffix scan_word_suffix passwd_loop_suffix)

lemma keys_login [key_ops]:
  "moves uses_keys (send_login_PACK env)" "moves uses_keys (send_regist_PACK env)"
  "moves uses_keys (send_repasswd_PACK env)"
  unfolding send_login_PACK_def send_regist_PACK_def send_repasswd_PACK_def copy_password_def scan_mes_def
  by (intro keys_used.moves_rules keys_used.moves_setting key_ops; simp add: uses_keys_def)+

lemma getch_shorter: "getch s = Inr (k, t) \<Longrightarrow> c_keys s = k # c_keys t \<and> c_sent t = c_sent s"
  by (auto simp: getch_def split: list.splits)

lemma login_round_shorter:
  assumes "login_round env s = Inr (x, t)"
  shows "length (c_keys t) < length (c_keys s)"
proof -
  from assms obtain k s1 where g: "getch s = Inr (k, s1)"
    and r: "(if k = CHR ''1'' then
         bnd (send_login_PACK env) (\<lambda>ret. retn (if ret = 0 then Main_menu else Login_again))
       else if k = CHR ''2'' then bnd (send_regist_PACK env) (\<lambda>_. retn Login_again)
       else if k = CHR ''3'' then bnd (send_repasswd_PACK env) (\<lambda>_. retn Login_again)
       else if k = CHR ''0'' then retn Quit
       else bnd getch (\<lambda>_. retn Login_again)) s1 = Inr (x, t)"
    by (auto simp: login_round_def bnd_eq_Inr)
  have m: "moves uses_keys (if k = CHR ''1'' then
         bnd (send_login_PACK env) (\<lambda>ret. retn (if ret = 0 then Main_menu else Login_again))
       else if k = CHR ''2'' then bnd (send_regist_PACK env) (\<lambda>_. retn Login_again)
       else if k = CHR ''3'' then bnd (send_repasswd_PACK env) (\<lambda>_. retn Login_again)
       else if k = CHR ''0'' then retn Quit
       else bnd getch (\<lambda>_. retn Login_again))"
    by (intro keys_used.moves_rules key_ops)
  from movesD [OF m r] have "length (c_keys t) \<le> length (c_keys s1)"
    by (simp add: uses_keys_def suffix_length_le)
  with getch_shorter [OF g] show ?thesis by simp
qed

text \<open>The test in \<open>main_login\<close> never cuts anything off: it is the recursion of the code.\<close>

lemma main_login_unfold:
  "main_login env s =
     (case login_round env s of
        Inl e \<Rightarrow> Inl e
      | Inr (next, t) \<Rightarrow> if next = Login_again then main_login env t else Inr (next, t))"
  by (subst main_login.simps) (auto split: sum.splits dest: login_round_shorter)

text \<open>The login menu with a bound on the number of rounds; \<open>None\<close>: not at the end yet.\<close>

fun login_rounds :: "nat \<Rightarrow> tclient_env \<Rightarrow> tclient \<Rightarrow> (login_next \<times> tclient) result option" where
  "login_rounds 0 env s = None"
| "login_rounds (Suc n) env s =
     (case login_round env s of
        Inl e \<Rightarrow> Some (Inl e)
      | Inr (next, t) \<Rightarrow> if next = Login_again then login_rounds n env t else Some (Inr (next, t)))"

lemma login_rounds_enough:
  "length (c_keys s) < n \<Longrightarrow> login_rounds n env s = Some (main_login env s)
     \<and> (\<forall>t. main_login env s \<noteq> Inr (Login_again, t))"
proof (induction n arbitrary: s)
  case 0
  then show ?case by simp
next
  case (Suc n)
  show ?case
  proof (cases "login_round env s")
    case (Inl e)
    then show ?thesis by (simp add: main_login_unfold)
  next
    case (Inr w)
    then obtain x u where w: "login_round env s = Inr (x, u)" by (cases w) auto
    from login_round_shorter [OF w] Suc.prems have "length (c_keys u) < n" by simp
    from Suc.IH [OF this] w show ?thesis by (simp add: main_login_unfold [of env s])
  qed
qed

text \<open>
  The login menu, which calls itself after every failed login, registration and change of
  password, ends within as many rounds as there are keys, one more at most: it goes on to
  the main menu, or the program exits, or it waits for a key or a reply that does not come; it
  never comes back to ask for one more round.
\<close>

theorem login_menu_ends:
  "login_rounds (Suc (length (c_keys s))) env s = Some (main_login env s)
     \<and> (\<forall>t. main_login env s \<noteq> Inr (Login_again, t))"
  by (rule login_rounds_enough) simp

section \<open>Passwords\<close>

lemma passwd_loop_short:
  assumes "newline \<notin> set w" "i + length w \<le> 8"
  shows "passwd_loop i v (w @ newline # ks) = Some (v @ w, ks)"
  using assms by (induction w arbitrary: i v) auto

lemma passwd_loop_long:
  assumes "newline \<notin> set w" "i \<le> 8" "i + length w = 8"
  shows "passwd_loop i v (w @ k # ks) = Some (v @ w, ks)"
  using assms by (induction w arbitrary: i v) auto

text \<open>
  A password is cut at eight characters without a word: of a longer line the ninth character is
  swallowed and the rest stays in the input, to be taken for the next answers or menu choices.
\<close>

theorem password_cut:
  assumes "newline \<notin> set w" "c_keys s = w @ newline # ks"
  shows "GetPasswd s = Inr ((), s\<lparr>
    c_password := take 8 w @ replicate (17 - length (take 8 w)) (CHR 0x00),
    c_keys := (if length w \<le> 8 then ks else drop 9 w @ newline # ks)\<rparr>)"
proof (cases "length w \<le> 8")
  case True
  with assms passwd_loop_short [of w 0 "[]" ks] show ?thesis by (simp add: GetPasswd_def)
next
  case False
  then have w: "w = take 8 w @ w ! 8 # drop 9 w"
    using id_take_nth_drop [of 8 w] by simp
  then have k: "c_keys s = take 8 w @ w ! 8 # (drop 9 w @ newline # ks)"
    using assms(2) by (metis append_Cons append_assoc)
  have "newline \<notin> set (take 8 w)" using assms(1) by (auto dest: in_set_takeD)
  from passwd_loop_long [OF this, of 0 "[]" "w ! 8" "drop 9 w @ newline # ks"] False k
  show ?thesis by (simp add: GetPasswd_def)
qed

theorem password_cut_witness:
  "GetPasswd (client_start (''password1'' @ [newline] @ ''x'') []) = Inr ((), client_start (newline # ''x'') []
     \<lparr>c_password := ''password'' @ replicate 9 (CHR 0x00)\<rparr>)"
  using password_cut [of "''password1''" "client_start (''password1'' @ [newline] @ ''x'') []" "''x''"]
  by (simp add: newline_def client_start_def)

section \<open>Reading the boxes\<close>

lemma each_show:
  "each (\<lambda>x. c_show (f x)) xs s = Inr ((), s\<lparr>c_screen := c_screen s @ map f xs\<rparr>)"
  by (induction xs arbitrary: s) (simp_all add: retn_def bnd_def c_show_def setting_def)

text \<open>
  Reading the box of private messages prints every message that was put there, in the order
  they came, with the sender's name, and leaves the box empty.
\<close>

theorem private_box_read:
  assumes "box_holds (c_fri s) xs" "xs \<noteq> []"
  shows "\<exists>b. recv_chat_fri s = Inr ((), s\<lparr>c_fri := b,
      c_screen := c_screen s @ map (\<lambda>x. [S (cf_send_name x), S (cf_mes x)]) xs\<rparr>)
    \<and> box_holds b []"
proof -
  have h: "box_head (c_fri s) \<noteq> None" using assms by (auto simp: box_holds_def split: option.splits)
  from box_drain_holds [OF assms(1) each_show [where f = "\<lambda>x. [S (cf_send_name x), S (cf_mes x)]"]]
  obtain b where "box_drain (\<lambda>x. c_show [S (cf_send_name x), S (cf_mes x)]) (c_fri s) s
      = Some (Inr (b, s\<lparr>c_screen := c_screen s @ map (\<lambda>x. [S (cf_send_name x), S (cf_mes x)]) xs\<rparr>))"
    "box_holds b []" by blast
  with h show ?thesis by (intro exI [of _ b]) (auto simp: recv_chat_fri_def returning_def)
qed

theorem private_box_read_witness:
  "\<exists>b t. recv_chat_fri (client_start [] []\<lparr>c_fri := b\<rparr>) = Inr ((), t)
     \<and> c_screen t = [[S ''ann'', S ''hi''], [S ''bob'', S ''ho'']] \<and> box_holds (c_fri t) []"
proof -
  let ?xs = "[\<lparr>cf_account = 7, cf_mes = ''hi'', cf_send_name = ''ann''\<rparr>,
    \<lparr>cf_account = 8, cf_mes = ''ho'', cf_send_name = ''bob''\<rparr>]"
  obtain b where b: "box_holds b ?xs"
    using off_box.pushes_hold [OF empty_box_holds, of ?xs] by auto
  then have "box_holds (c_fri (client_start [] []\<lparr>c_fri := b\<rparr>)) ?xs" by simp
  from private_box_read [OF this] show ?thesis
    by (intro exI [of _ b]) (auto simp: client_start_def)
qed

section \<open>A file from client to client\<close>

text \<open>What \<open>recv_file\<close> takes from a packet.\<close>

definition file_piece :: "PACK \<Rightarrow> string" where
  "file_piece p = take (nat (p_account p)) (p_mes p)"

definition file_pack_ok :: "int \<Rightarrow> PACK \<Rightarrow> bool" where
  "file_pack_ok b p \<longleftrightarrow> pack_ok p \<and> p_type p = SEND_FILE \<and> p_send_account p = b
     \<and> 0 < p_account p \<and> p_account p \<le> 1000"

lemma file_packs_ok:
  assumes "pack_ok p" "p_type p = SEND_FILE" "p_send_account p = b" "int32 b"
  shows "(\<forall>q \<in> set (file_packs p b bytes). file_pack_ok b q)
    \<and> concat (map file_piece (file_packs p b bytes)) = bytes"
  using assms
proof (induction p b bytes rule: file_packs.induct)
  case (1 p b bytes)
  show ?case
  proof (cases "bytes = []")
    case True
    then show ?thesis by (simp add: file_packs.simps)
  next
    case False
    let ?piece = "take 1000 bytes" and ?z = "zero_pack\<lparr>p_type := SEND_FILE, p_send_account := b\<rparr>"
    have z: "pack_ok ?z" using 1(5)
      by (simp add: pack_ok_def zero_pack_def SEND_FILE_def int32_def int64_def)
    have ih: "(\<forall>q \<in> set (file_packs ?z b (drop 1000 bytes)). file_pack_ok b q)
        \<and> concat (map file_piece (file_packs ?z b (drop 1000 bytes))) = drop 1000 bytes"
      by (rule 1(1) [OF False refl z]) (simp_all add: 1(5))
    let ?q = "p\<lparr>p_account := int (length ?piece), p_mes := ?piece @ drop (length ?piece) (p_mes p)\<rparr>"
    have "file_pack_ok b ?q" using 1(2-4) False
      by (auto simp: file_pack_ok_def pack_ok_def int32_def)
    moreover have "file_piece ?q = ?piece" by (simp add: file_piece_def min_def)
    ultimately show ?thesis using ih False by (simp add: file_packs.simps [of p] Let_def)
  qed
qed

text \<open>The receiving thread on a stream of whole packets.\<close>

lemma client_recv_run:
  assumes "pack_ok p" "concat (c_in s) = encode_PACK p @ tail"
  shows "\<exists>segs. client_recv s = client_handle p (s\<lparr>c_in := segs\<rparr>) \<and> concat segs = tail"
proof -
  obtain b rest where r: "recv_all PACK_size (c_in s) = (b, rest)" by fastforce
  have len: "length (encode_PACK p) = PACK_size" using assms(1) by (rule length_encode_PACK)
  have "b = encode_PACK p" using recv_all_bytes [of PACK_size "c_in s"] r assms(2) len by simp
  moreover have "concat rest = tail" using recv_all_rest [of PACK_size "c_in s"] r assms(2) len by simp
  moreover have "fill_pack zero_pack (encode_PACK p) = p"
    using fill_pack_whole [OF zero_pack_ok len] decode_encode_PACK [OF assms(1)] by simp
  ultimately show ?thesis using r len by (auto simp: client_recv_def)
qed

definition test_file :: "tclient \<Rightarrow> string" where
  "test_file s = (case c_files s ''test'' of Some (File old) \<Rightarrow> old | _ \<Rightarrow> [])"

lemma receive_pieces:
  assumes "\<forall>q \<in> set ps. file_pack_ok b q" "concat (c_in s) = concat (map encode_PACK ps)"
    and "c_files s ''test'' \<noteq> Some Directory"
    and "0 \<le> c_recv_sum s" "c_recv_sum s + int (length (concat (map file_piece ps))) < 2 ^ 31"
  shows "\<exists>t. each (\<lambda>_. client_recv) ps s = Inr ((), t) \<and> concat (c_in t) = []
    \<and> test_file t = test_file s @ concat (map file_piece ps)
    \<and> c_recv_sum t = c_recv_sum s + int (length (concat (map file_piece ps)))"
  using assms
proof (induction ps arbitrary: s)
  case Nil
  then show ?case by (simp add: retn_def)
next
  case (Cons p ps)
  then have p: "file_pack_ok b p" and pok: "pack_ok p" by (auto simp: file_pack_ok_def)
  from client_recv_run [OF pok, of s "concat (map encode_PACK ps)"] Cons.prems(2) obtain segs where
    r: "client_recv s = client_handle p (s\<lparr>c_in := segs\<rparr>)" "concat segs = concat (map encode_PACK ps)"
    by auto
  let ?s = "s\<lparr>c_in := segs, c_recv_sum := c_recv_sum s + p_account p,
    c_files := (c_files s)(''test'' \<mapsto> File (test_file s @ file_piece p))\<rparr>"
  have len: "p_account p = int (length (file_piece p))"
    using p by (auto simp: file_pack_ok_def file_piece_def pack_ok_def)
  then have "plus_int (c_recv_sum s) (p_account p) = Inr (c_recv_sum s + p_account p)"
    using Cons.prems(4,5) by (simp add: plus_int_def int32_def)
  then have "client_recv s = Inr ((), ?s)"
    using p r(1) by (simp add: client_handle_def file_pack_ok_def request_numbers recv_file_def lifted_def
        setting_def getting_def bnd_def Cons.prems(3) file_piece_def test_file_def Let_def)
  moreover from Cons.IH [of ?s] Cons.prems(1,4,5) r(2) len obtain t where
    "each (\<lambda>_. client_recv) ps ?s = Inr ((), t)" "concat (c_in t) = []"
    "test_file t = test_file ?s @ concat (map file_piece ps)"
    "c_recv_sum t = c_recv_sum ?s + int (length (concat (map file_piece ps)))" by auto
  moreover have "test_file ?s = test_file s @ file_piece p" by (simp add: test_file_def)
  ultimately show ?case using len by (simp add: bnd_def)
qed

text \<open>What is typed for a number, and for a word on the next line.\<close>

lemma dec_nat_digits: "c \<in> set (dec_nat n) \<Longrightarrow> is_digit c"
proof (induction n rule: dec_nat.induct)
  case (1 n)
  have d: "is_digit (char_of (48 + m))" if "m < 10" for m :: nat using that by (simp add: is_digit_def)
  show ?case
  proof (cases "n < 10")
    case True
    with 1 d [of n] show ?thesis by (simp add: dec_nat.simps [of n])
  next
    case False
    have "n mod 10 < 10" by simp
    with False 1 d [of "n mod 10"] show ?thesis by (auto simp: dec_nat.simps [of n])
  qed
qed

lemma digit_signs: "is_digit c \<Longrightarrow> c \<noteq> CHR ''-'' \<and> c \<noteq> CHR ''+'' \<and> \<not> isspace c"
  by (auto simp: is_digit_def isspace_def)

lemma scan_typed_number:
  assumes "0 < b" "\<not> is_digit k"
  shows "scan_num (dec b @ k # ks) = Some (Some b, k # ks)"
proof -
  obtain c cs where c: "dec_nat (nat b) = c # cs" using dec_nat_nonempty by (cases "dec_nat (nat b)") auto
  have d: "\<forall>x \<in> set (c # cs). is_digit x" using dec_nat_digits c by metis
  then have "is_digit c" by simp
  from digit_signs [OF this] have s: "c \<noteq> CHR ''-''" "c \<noteq> CHR ''+''" "\<not> isspace c" by simp_all
  have t: "takeWhile is_digit (c # cs @ k # ks) = c # cs" "dropWhile is_digit (c # cs @ k # ks) = k # ks"
    using d assms(2) by (simp_all add: takeWhile_append dropWhile_append)
  have "digits_value 0 (c # cs) = nat b" using digits_value_dec_nat [of 0 "nat b" "[]"] c by simp
  moreover have "dropWhile isspace (c # cs @ k # ks) = c # cs @ k # ks" using s by simp
  moreover have "dec b @ k # ks = c # cs @ k # ks" using assms(1) c by (simp add: dec_def)
  ultimately show ?thesis using assms s t
    by (simp add: scan_num_def Let_def del: digits_value.simps takeWhile.simps dropWhile.simps)
qed

lemma newline_kinds [simp]: "\<not> is_digit newline"
  by (simp add: is_digit_def newline_def)

lemma chat_send_file_run:
  assumes "c_keys s = dec b @ newline # w @ newline # rest" "word w" "length w < 1000"
    and "c_files s w = Some (File bytes)" "0 < b" "int32 b"
    and "0 \<le> c_send_sum s" "c_send_sum s + int (length bytes) < 2 ^ 31"
  shows "\<exists>t. chat_send_file env s = Inr ((), t) \<and> c_sent t = c_sent s
    @ file_packs (zero_pack\<lparr>p_type := SEND_FILE, p_account := c_account s, p_send_account := b\<rparr>) b bytes"
proof -
  have n: "scan_num (c_keys s) = Some (Some b, newline # w @ newline # rest)"
    using scan_typed_number [of b newline] assms(1,5) by simp
  have "scan_word (newline # w @ newline # rest) = scan_word (w @ newline # rest)"
    by (simp add: scan_word_def)
  then have w: "scan_word (newline # w @ newline # rest) = Some (w, newline # rest)"
    using scan_word_line [of w newline "[]" rest] assms(2) by simp
  have "plus_int (c_send_sum s) (int (length bytes)) = Inr (c_send_sum s + int (length bytes))"
    using assms(7,8) by (simp add: plus_int_def int32_def)
  then show ?thesis
    using n w assms(3,4) long_to_int_id [OF assms(6)]
    by (simp add: chat_send_file_def bnd_def getting_def scan_target_def scan_int_def retn_def setting_def
        scan_str_def lifted_def fits_def c_show_def)
qed

text \<open>A packet at the server, in whatever runs its bytes come.\<close>

definition arrives_as :: "int \<Rightarrow> talk_event \<Rightarrow> PACK \<Rightarrow> bool" where
  "arrives_as fd ev p \<longleftrightarrow> (\<exists>segs. ev = Readable fd (Arrives segs False) \<and> concat segs = encode_PACK p)"

lemma packet_handled:
  assumes "stack_sized env" "pack_ok p" "concat (t_wire s fd) = []" "arrives_as fd ev p"
  shows "\<exists>k rest. talk_handle env ev s = deal env p (s\<lparr>t_tick := k, t_fd := fd, t_wire := (t_wire s)(fd := rest)\<rparr>)
    \<and> concat rest = []"
proof -
  from assms(4) obtain segs where ev: "ev = Readable fd (Arrives segs False)" "concat segs = encode_PACK p"
    by (auto simp: arrives_as_def)
  obtain b rest where r: "recv_all PACK_size (t_wire s fd @ segs) = (b, rest)" by fastforce
  have len: "length (encode_PACK p) = PACK_size" using assms(2) by (rule length_encode_PACK)
  have b: "b = encode_PACK p" "concat rest = []"
    using recv_all_bytes [of PACK_size "t_wire s fd @ segs"] recv_all_rest [of PACK_size "t_wire s fd @ segs"]
      r ev(2) assms(3) len by simp_all
  have "length (encode_PACK (stack_pack env (t_tick s))) = PACK_size"
    using assms(1) by (auto simp: stack_sized_def sized_image)
  then have "fill_pack (stack_pack env (t_tick s)) b = p"
    using b(1) len by (simp add: fill_pack_def decode_encode_PACK [OF assms(2)])
  moreover have "b \<noteq> []" using b(1) len by (auto simp: PACK_size_def)
  moreover have "\<not> cut_off s (Readable fd (Arrives segs False))" using ev(2) assms(3) len by simp
  ultimately show ?thesis using ev(1) r b(2)
    by (intro exI [of _ "Suc (t_tick s)"] exI [of _ rest]) (simp add: recv_PACK_run Let_def received_def)
qed

text \<open>The friend's connection is remembered, or the database has it.\<close>

definition friend_found :: "'db talk_env \<Rightarrow> 'db talk \<Rightarrow> int \<Rightarrow> int \<Rightarrow> bool" where
  "friend_found env s b fd \<longleftrightarrow> t_file_account s = b \<and> fri_account (t_file_fri s) 0 = fd
     \<or> t_file_account s \<noteq> b \<and> (\<exists>r rs d nm on. exec env True (t_db s) (user_query b) = (Rows (r # rs), d) \<and> user_row_is r nm on fd)"

lemma file_packet_step:
  assumes "stack_sized env" "file_pack_ok b p" "b \<noteq> 0" "int32 b" "concat (t_wire s sfd) = []" "arrives_as sfd ev p"
    and "friend_found env s b fd"
  shows "\<exists>t. talk_handle env ev s = Inr ((), t) \<and> t_sent t = t_sent s @ [(fd, p)]
    \<and> concat (t_wire t sfd) = [] \<and> t_file_account t = b \<and> fri_account (t_file_fri t) 0 = fd"
proof -
  have p: "pack_ok p" "p_type p = SEND_FILE" "p_send_account p = b" using assms(2) by (simp_all add: file_pack_ok_def)
  from packet_handled [OF assms(1) p(1) assms(5,6)] obtain k rest where
    h: "talk_handle env ev s = deal env p (s\<lparr>t_tick := k, t_fd := sfd, t_wire := (t_wire s)(sfd := rest)\<rparr>)"
      "concat rest = []" by blast
  let ?s = "s\<lparr>t_tick := k, t_fd := sfd, t_wire := (t_wire s)(sfd := rest), t_open := True\<rparr>"
  have deal: "talk_handle env ev s = talk_send_file env p ?s"
    unfolding h(1) using p(2) by (simp add: deal_def SEND_FILE_def bnd_def handle_runs JOIN_USER_def DELE_USER_def)
  show ?thesis
  proof (cases "t_file_account s = b")
    case True
    with assms(7) have "fri_account (t_file_fri s) 0 = fd" by (simp add: friend_found_def)
    with True deal h(2) p(3) assms(3) show ?thesis
      by (simp add: talk_send_file_def bnd_def getting_def when_op_def retn_def send_other_PACK_def setting_def)
  next
    case False
    with assms(7) obtain r rs d nm on where
      db: "exec env True (t_db s) (user_query b) = (Rows (r # rs), d)" "user_row_is r nm on fd"
      by (auto simp: friend_found_def)
    let ?u = "?s\<lparr>t_file_account := b\<rparr>"
    have "exec env True (t_db ?u) (user_query b) = (Rows (r # rs), d)" using db(1) by simp
    from find_fd_run [OF assms(4) this db(2)] obtain f t where
      f: "MYSQL_find_fd env b ?u = Inr (f, t)" "outside t = outside ?u" "fri_account f 0 = fd" by blast
    from f(2) have t: "t_sent t = t_sent s" "t_wire t = (t_wire s)(sfd := rest)" "t_file_account t = b"
      by (simp_all add: outside_def)
    show ?thesis unfolding deal using False p(3) f(1,3) t h(2)
      by (simp add: talk_send_file_def bnd_def getting_def when_op_def send_other_PACK_def setting_def)
  qed
qed

lemma file_packets_run:
  assumes "stack_sized env" "\<forall>p \<in> set ps. file_pack_ok b p" "b \<noteq> 0" "int32 b"
    and "list_all2 (arrives_as sfd) evs ps" "concat (t_wire s sfd) = []" "friend_found env s b fd"
  shows "\<exists>t. talk_loop env evs s = Inr ((), t) \<and> t_sent t = t_sent s @ map (Pair fd) ps"
  using assms(2,5-7) unfolding talk_loop_def
proof (induction ps arbitrary: evs s)
  case (Cons p ps)
  then obtain ev evs' where evs: "evs = ev # evs'" "arrives_as sfd ev p" "list_all2 (arrives_as sfd) evs' ps"
    by (auto simp: list_all2_Cons2)
  from Cons.prems(1) have "file_pack_ok b p" by simp
  from file_packet_step [OF assms(1) this assms(3,4) Cons.prems(3) evs(2) Cons.prems(4)] obtain t where
    t: "talk_handle env ev s = Inr ((), t)" "t_sent t = t_sent s @ [(fd, p)]" "concat (t_wire t sfd) = []"
      "t_file_account t = b" "fri_account (t_file_fri t) 0 = fd" by blast
  have "friend_found env t b fd" using t(4,5) by (simp add: friend_found_def)
  from Cons.IH [OF _ evs(3) t(3) this] Cons.prems(1) t(1,2) evs(1) show ?case by (auto simp: bnd_def)
qed (simp add: retn_def)

text \<open>
  C3: A file of any bytes sent to a friend arrives whole, up to the lengths that the counters of
  type int can hold on either side. The user types the friend's number (positive, an int) and, on
  the next line, the path of an existing file, a word of fewer than 1000 bytes; the client cuts the
  file into packets of up to 1000 bytes; the server, in whatever runs each packet comes and with no
  other bytes on that connection, hands it on to the friend's connection, which it finds in the
  database at the first packet (the row and its columns are there) or remembers from a file to the
  same friend; and, however the network cuts that stream, the friend's client appends exactly the
  bytes of the file to its own file, which is not a directory. (The arrays of the server's
  uninitialised packets have their C sizes, whatever they hold.)
\<close>

theorem file_arrives_whole:
  assumes "c_keys cs = dec b @ newline # w @ newline # rest" "word w" "length w < 1000"
    and "c_files cs w = Some (File bytes)" "0 < b" "int32 b" "int32 (c_account cs)"
    and "0 \<le> c_send_sum cs" "c_send_sum cs + int (length bytes) < 2 ^ 31"
    and "stack_sized env" "concat (t_wire st sfd) = []" "friend_found env st b fd"
    and "c_files s ''test'' \<noteq> Some Directory"
    and "0 \<le> c_recv_sum s" "c_recv_sum s + int (length bytes) < 2 ^ 31"
  shows "\<exists>cs' ps. chat_send_file cenv cs = Inr ((), cs') \<and> c_sent cs' = c_sent cs @ ps
    \<and> (\<forall>evs. list_all2 (arrives_as sfd) evs ps \<longrightarrow>
        (\<exists>st'. talk_loop env evs st = Inr ((), st') \<and> t_sent st' = t_sent st @ map (Pair fd) ps))
    \<and> (\<forall>segs. concat segs = concat (map encode_PACK ps) \<longrightarrow>
        (\<exists>s'. each (\<lambda>_. client_recv) ps (s\<lparr>c_in := segs\<rparr>) = Inr ((), s')
          \<and> test_file s' = test_file s @ bytes \<and> c_recv_sum s' = c_recv_sum s + int (length bytes)))"
proof -
  let ?z = "zero_pack\<lparr>p_type := SEND_FILE, p_account := c_account cs, p_send_account := b\<rparr>"
  let ?ps = "file_packs ?z b bytes"
  have "pack_ok ?z" using assms(6,7)
    by (simp add: pack_ok_def zero_pack_def SEND_FILE_def int32_def int64_def)
  from file_packs_ok [OF this, of b bytes] assms(6) have
    ok: "\<forall>q \<in> set ?ps. file_pack_ok b q" and c: "concat (map file_piece ?ps) = bytes" by simp_all
  from chat_send_file_run [OF assms(1-6,8,9)] obtain cs' where
    "chat_send_file cenv cs = Inr ((), cs')" "c_sent cs' = c_sent cs @ ?ps" by blast
  moreover have "\<exists>st'. talk_loop env evs st = Inr ((), st') \<and> t_sent st' = t_sent st @ map (Pair fd) ?ps"
    if "list_all2 (arrives_as sfd) evs ?ps" for evs
    using file_packets_run [OF assms(10) ok _ assms(6) that assms(11,12)] assms(5) by simp
  moreover have "\<exists>s'. each (\<lambda>_. client_recv) ?ps (s\<lparr>c_in := segs\<rparr>) = Inr ((), s')
      \<and> test_file s' = test_file s @ bytes \<and> c_recv_sum s' = c_recv_sum s + int (length bytes)"
    if "concat segs = concat (map encode_PACK ?ps)" for segs
  proof -
    have "test_file (s\<lparr>c_in := segs\<rparr>) = test_file s" by (simp add: test_file_def)
    with receive_pieces [OF ok, of "s\<lparr>c_in := segs\<rparr>"] that assms(13-15) c show ?thesis by auto
  qed
  ultimately show ?thesis by blast
qed

theorem file_arrives_whole_witness:
  "\<exists>ps cs' st' s'. chat_send_file \<lparr>c_stack = (\<lambda>_. zero_pack), c_stat_junk = False\<rparr>
       (client_start (''8'' @ newline # ''f'' @ newline # []) []\<lparr>c_files := [''f'' \<mapsto> File ''abc'']\<rparr>) = Inr ((), cs')
     \<and> c_sent cs' = ps \<and> talk_loop (demo_env zero_pack (Rows [demo_row])) (map (\<lambda>p. Readable 4 (Arrives [encode_PACK p] False)) ps) (talk_start ()) = Inr ((), st')
     \<and> t_sent st' = map (Pair 5) ps
     \<and> each (\<lambda>_. client_recv) ps (client_start [] [] \<lparr>c_in := map encode_PACK ps\<rparr>) = Inr ((), s')
     \<and> test_file s' = ''abc'' \<and> c_recv_sum s' = 3"
proof -
  let ?env = "demo_env zero_pack (Rows [demo_row])"
  let ?cs = "client_start (''8'' @ newline # ''f'' @ newline # []) []\<lparr>c_files := [''f'' \<mapsto> File ''abc'']\<rparr>"
  have d: "dec 8 = ''8''" by code_simp
  have k: "c_keys ?cs = dec 8 @ newline # ''f'' @ newline # []" by (simp add: d)
  have w: "word ''f''" "length ''f'' < 1000" by (simp_all add: word_def isspace_def)
  have z: "stack_sized ?env" by (simp add: stack_sized_def sized_def zero_pack_def)
  have "user_row_is demo_row ''8'' 1 5" by (simp add: user_row_is_def cstring_def fits_def)
  then have f: "friend_found ?env (talk_start ()) 8 5"
    unfolding friend_found_def by (auto simp: talk_start_def)
  have wire: "concat (t_wire (talk_start ()) 4) = []" by (simp add: talk_start_def)
  have "\<exists>cs' ps. chat_send_file \<lparr>c_stack = (\<lambda>_. zero_pack), c_stat_junk = False\<rparr> ?cs = Inr ((), cs')
    \<and> c_sent cs' = c_sent ?cs @ ps
    \<and> (\<forall>evs. list_all2 (arrives_as 4) evs ps \<longrightarrow>
        (\<exists>st'. talk_loop ?env evs (talk_start ()) = Inr ((), st') \<and> t_sent st' = t_sent (talk_start ()) @ map (Pair 5) ps))
    \<and> (\<forall>segs. concat segs = concat (map encode_PACK ps) \<longrightarrow>
        (\<exists>s'. each (\<lambda>_. client_recv) ps (client_start [] []\<lparr>c_in := segs\<rparr>) = Inr ((), s')
          \<and> test_file s' = test_file (client_start [] []) @ ''abc''
          \<and> c_recv_sum s' = c_recv_sum (client_start [] []) + int (length ''abc'')))"
    by (rule file_arrives_whole [OF k w _ _ _ _ _ _ z wire f]) (simp_all add: client_start_def int32_def)
  then obtain cs' ps where run: "chat_send_file \<lparr>c_stack = (\<lambda>_. zero_pack), c_stat_junk = False\<rparr> ?cs = Inr ((), cs')"
    and server: "\<And>evs. list_all2 (arrives_as 4) evs ps \<Longrightarrow>
        \<exists>st'. talk_loop ?env evs (talk_start ()) = Inr ((), st') \<and> t_sent st' = t_sent (talk_start ()) @ map (Pair 5) ps"
    and sent: "c_sent cs' = ps" and client: "\<And>segs. concat segs = concat (map encode_PACK ps) \<Longrightarrow>
        \<exists>s'. each (\<lambda>_. client_recv) ps (client_start [] []\<lparr>c_in := segs\<rparr>) = Inr ((), s')
          \<and> test_file s' = test_file (client_start [] []) @ ''abc''
          \<and> c_recv_sum s' = c_recv_sum (client_start [] []) + int (length ''abc'')"
    by (auto simp: client_start_def)
  have "list_all2 (arrives_as 4) (map (\<lambda>p. Readable 4 (Arrives [encode_PACK p] False)) ps) ps"
    by (induction ps) (simp_all add: arrives_as_def)
  from server [OF this] client [of "map encode_PACK ps"] run sent show ?thesis
    by (intro exI [of _ ps] exI [of _ cs']) (auto simp: test_file_def client_start_def)
qed

section \<open>The reply to the login\<close>

lemma decode_type_prefix:
  assumes "4 \<le> length b" "length b \<le> PACK_size" "b @ c = encode_PACK p" "int32 (p_type p)"
  shows "p_type (fill_pack zero_pack b) = p_type p"
proof -
  have "take 4 (b @ drop (length b) (encode_PACK zero_pack)) = take 4 (b @ c)" using assms(1) by simp
  also have "\<dots> = enc_le 4 (p_type p)" unfolding assms(3) by (simp add: encode_PACK_def)
  finally show ?thesis using assms(4)
    by (simp add: fill_pack_def decode_PACK_def bytes_at_def signed_le_int32)
qed

text \<open>
  The client waits for the reply to its login without \<open>MSG_WAITALL\<close>. When the first run of
  bytes ends inside the reply, behind its type, the login succeeds all the same, and the rest of
  the reply stays in the connection: the receiving thread then takes it for the beginning of the
  next packet and is out of step with the server for good.
\<close>

theorem split_login_reply:
  assumes "b @ c = encode_PACK p" "pack_ok p" "4 \<le> length b" "length b < PACK_size"
    and "c_in s = b # c # segs" "concat segs = encode_PACK q @ tail" "pack_ok q"
  shows "\<exists>r t segs'. recv_reply s = Inr (r, t) \<and> p_type r = p_type p
    \<and> client_recv t = client_handle (decode_PACK (c @ take (length b) (encode_PACK q))) (t\<lparr>c_in := segs'\<rparr>)
    \<and> concat segs' = drop (length b) (encode_PACK q) @ tail"
proof -
  have "length b + length c = PACK_size"
    using arg_cong [OF assms(1), of length] length_encode_PACK [OF assms(2)] by simp
  with assms(3) have c: "length c < PACK_size" "PACK_size - length c = length b" by auto
  have r: "recv PACK_size (c_in s) = (b, c # segs)" using assms(3-5) by auto
  let ?t = "s\<lparr>c_in := c # segs\<rparr>" and ?r = "fill_pack zero_pack b"
  have "recv_reply s = Inr (?r, ?t)" using r assms(3) by (auto simp: recv_reply_def)
  moreover have "p_type ?r = p_type p"
    using decode_type_prefix [OF assms(3) _ assms(1)] assms(2,4) by (simp add: pack_ok_def)
  moreover obtain d rest where d: "recv_all PACK_size (c # segs) = (d, rest)" by fastforce
  have lq: "length (encode_PACK q) = PACK_size" using assms(7) by (rule length_encode_PACK)
  have "d = c @ take (length b) (encode_PACK q)"
    using recv_all_bytes [of PACK_size "c # segs"] d assms(6) c lq by simp
  moreover have "concat rest = drop (length b) (encode_PACK q) @ tail"
    using recv_all_rest [of PACK_size "c # segs"] d assms(6) c lq by simp
  moreover have "fill_pack zero_pack d = decode_PACK d" if "length d = PACK_size"
    using fill_pack_whole [OF zero_pack_ok that] .
  moreover have "length (c @ take (length b) (encode_PACK q)) = PACK_size"
    using c lq by simp
  ultimately show ?thesis using d
    by (intro exI [of _ ?r] exI [of _ ?t] exI [of _ rest]) (simp add: client_recv_def)
qed

theorem split_login_reply_witness:
  "\<exists>r t segs. recv_reply (client_start [] [take 4 (encode_PACK zero_pack), drop 4 (encode_PACK zero_pack),
       encode_PACK zero_pack]) = Inr (r, t) \<and> p_type r = 0 \<and> concat segs = drop 4 (encode_PACK zero_pack)
     \<and> client_recv t = client_handle (decode_PACK (drop 4 (encode_PACK zero_pack) @ take 4 (encode_PACK zero_pack)))
         (t\<lparr>c_in := segs\<rparr>)"
proof -
  let ?e = "encode_PACK zero_pack"
  have l: "length ?e = PACK_size" by (simp add: length_encode_PACK)
  then have n: "length (take 4 ?e) = 4" by (simp add: PACK_size_def)
  then have b: "4 \<le> length (take 4 ?e)" "length (take 4 ?e) < PACK_size" by (simp_all add: PACK_size_def)
  let ?s = "client_start [] [take 4 ?e, drop 4 ?e, ?e]"
  have e: "take 4 ?e @ drop 4 ?e = ?e" "concat [?e] = ?e @ []" "c_in ?s = take 4 ?e # drop 4 ?e # [?e]"
    by simp_all
  have z: "p_type zero_pack = 0" by (simp add: zero_pack_def)
  from split_login_reply [OF e(1) zero_pack_ok b e(3,2) zero_pack_ok] show ?thesis
    unfolding n z by auto
qed

end
