(* ===== verification/Shell_World.thy ===== *)
theory Shell_World
  imports State_Ops
begin

text \<open>
  What the three shells of the repository work on: a working directory, files, a screen, and
  processes that end in their own time; the calls \<open>open\<close>, \<open>dup2\<close>, \<open>execvp\<close>, \<open>chdir\<close>, \<open>fork\<close> and \<open>wait\<close>
  on them; the search for a command, and arrays of arguments ended by NULL.
\<close>

section \<open>The world\<close>

datatype stdin = Terminal | Bytes string | Not_Readable

text \<open>
  What lies outside: the names in a directory (\<open>None\<close>: it cannot be opened), where \<open>chdir\<close> leads, the
  path of a name, whether a file may be opened, and what a program prints, given its
  arguments and its standard input (\<open>None\<close>: \<open>execvp\<close> fails). Programs change no files but through
  their standard output.
\<close>

record shell_env =
  login_name :: "string option"
  host :: string
  names_in :: "string \<Rightarrow> string \<Rightarrow> string list option"
  goes_to :: "string \<Rightarrow> string \<Rightarrow> string option"
  full_path :: "string \<Rightarrow> string \<Rightarrow> string"
  allowed :: "string \<Rightarrow> bool"
  runs :: "string \<Rightarrow> string list \<Rightarrow> stdin \<Rightarrow> string option"

datatype notice =
    Not_Found string
  | Wrong_Command
  | Too_Many_Arguments
  | Failed_Call string
  | Process_Id nat
  | Too_Long
  | Said string

datatype display = Told notice | Printed string

record world =
  cwd :: string
  disk :: "string \<Rightarrow> string option"
  screen :: "display list"

definition tell :: "notice \<Rightarrow> ('x world_scheme, unit) op" where
  "tell n = setting (\<lambda>s. s\<lparr>screen := screen s @ [Told n]\<rparr>)"

definition chdir_to :: "'e shell_env_scheme \<Rightarrow> string \<Rightarrow> ('x world_scheme, bool) op" where
  "chdir_to env d s =
     (case goes_to env (cwd s) d of
        None \<Rightarrow> Inr (False, s)
      | Some c \<Rightarrow> Inr (True, s\<lparr>cwd := c\<rparr>))"

section \<open>Files\<close>

text \<open>Where the standard output of a program goes: to the screen, or into a file from a position on.\<close>

datatype sink = To_Screen | Into string nat

definition write_at :: "nat \<Rightarrow> string \<Rightarrow> string \<Rightarrow> string" where
  "write_at k out old = take k old @ out @ drop (k + length out) old"

definition emit :: "sink \<Rightarrow> string \<Rightarrow> ('x world_scheme, unit) op" where
  "emit to out =
     (case to of
        To_Screen \<Rightarrow> setting (\<lambda>s. s\<lparr>screen := screen s @ [Printed out]\<rparr>)
      | Into path k \<Rightarrow> setting (\<lambda>s. s\<lparr>disk := (disk s)(path \<mapsto>
          write_at k out (case disk s path of None \<Rightarrow> [] | Some old \<Rightarrow> old))\<rparr>))"

text \<open>
  \<open>open\<close> of a name (a NULL name fails): the path and the contents. \<open>create\<close> is \<open>O_CREAT\<close>, \<open>trunc\<close> is
  \<open>O_TRUNC\<close>.
\<close>

definition open_file ::
  "'e shell_env_scheme \<Rightarrow> bool \<Rightarrow> bool \<Rightarrow> string option \<Rightarrow> ('x world_scheme, (string \<times> string) option) op" where
  "open_file env create trunc name s =
     (case name of
        None \<Rightarrow> Inr (None, s)
      | Some n \<Rightarrow>
          let path = full_path env (cwd s) n in
            if \<not> allowed env path then Inr (None, s)
            else (case disk s path of
                None \<Rightarrow> if create then Inr (Some (path, []), s\<lparr>disk := (disk s)(path \<mapsto> [])\<rparr>)
                  else Inr (None, s)
              | Some old \<Rightarrow> if trunc then Inr (Some (path, []), s\<lparr>disk := (disk s)(path \<mapsto> [])\<rparr>)
                  else Inr (Some (path, old), s)))"

text \<open>\<open>execvp\<close>: does it come back (an error), or has the program run to its end?\<close>

definition exec_run :: "'e shell_env_scheme \<Rightarrow> string list \<Rightarrow> stdin \<Rightarrow> sink \<Rightarrow> ('x world_scheme, bool) op" where
  "exec_run env args inp to =
     bnd (getting cwd) (\<lambda>d.
       case runs env d args inp of
         None \<Rightarrow> retn False
       | Some out \<Rightarrow> bnd (emit to out) (\<lambda>_. retn True))"

section \<open>Looking for a command\<close>

text \<open>\<open>readdir\<close> of a directory that could not be opened follows NULL.\<close>

fun find_in :: "'e shell_env_scheme \<Rightarrow> string \<Rightarrow> string list \<Rightarrow> string \<Rightarrow> bool result" where
  "find_in env here [] command = Inr False"
| "find_in env here (d # ds) command =
     (case names_in env here d of
        None \<Rightarrow> Inl Null_Deref
      | Some ns \<Rightarrow> if command \<in> set ns then Inr True else find_in env here ds command)"

definition after_dot_slash :: "string \<Rightarrow> string" where
  "after_dot_slash command = (if take 2 command = ''./'' then drop 2 command else command)"

text \<open>The search for \<open>arg[0]\<close>, which is NULL when there are no arguments.\<close>

definition find_first_arg :: "'e shell_env_scheme \<Rightarrow> string list \<Rightarrow> string list \<Rightarrow> ('x world_scheme, bool) op" where
  "find_first_arg env dirs args =
     bnd (getting cwd) (\<lambda>d.
       lifted (case args of
         [] \<Rightarrow> Inl Null_Deref
       | c # _ \<Rightarrow> find_in env d dirs (after_dot_slash c)))"

text \<open>What separates arguments.\<close>

definition is_sep :: "char \<Rightarrow> bool" where
  "is_sep c \<longleftrightarrow> c = CHR '' '' \<or> c = newline"

section \<open>Arrays of arguments\<close>

text \<open>\<open>char *arg[argc + 1]\<close>, with NULL as \<open>None\<close>; the arguments are those before the first NULL.\<close>

type_synonym argv = "string option list"

definition to_argv :: "string list \<Rightarrow> argv" where
  "to_argv ws = map Some ws @ [None]"

fun upto_null :: "argv \<Rightarrow> string list" where
  "upto_null (Some w # rest) = w # upto_null rest"
| "upto_null _ = []"

text \<open>\<open>strcmp(arg[i], w) == 0\<close>\<close>

definition arg_is :: "argv \<Rightarrow> nat \<Rightarrow> string \<Rightarrow> bool result" where
  "arg_is arg i w =
     (if length arg \<le> i then Inl Out_Of_Bounds
      else (case arg ! i of None \<Rightarrow> Inl Null_Deref | Some x \<Rightarrow> Inr (x = w)))"

section \<open>Processes\<close>

datatype how = NORMAL | OUT_REDIRECT | IN_REDIRECT | HAVE_PIPE | ADD_FILE

text \<open>
  What a forked child is to do: its arguments, those behind a pipe, the file behind a
  redirection, in the directory in which it was forked; \<open>pl_room\<close> is the length of \<open>arg\<close> and \<open>argnext\<close>.
\<close>

record plan =
  pl_how :: how
  pl_arg :: "string list"
  pl_next :: "string list"
  pl_file :: "string option"
  pl_room :: nat
  pl_cwd :: string

text \<open>
  \<open>jobs\<close> are the children that run, \<open>ended\<close> those that have ended and were not waited for. The
  shell reads a line, waits for any child or for one, or has exited.
\<close>

datatype mode = Prompt | Wait_Any | Wait_For nat | Gone

record shell = world +
  jobs :: "(nat \<times> plan) list"
  ended :: "nat list"
  next_pid :: nat
  mode :: mode

definition shell_start :: "string \<Rightarrow> (string \<Rightarrow> string option) \<Rightarrow> shell" where
  "shell_start d files = \<lparr>cwd = d, disk = files, screen = [], jobs = [], ended = [], next_pid = 1, mode = Prompt\<rparr>"

text \<open>\<open>fork\<close>\<close>

definition fork_job :: "plan \<Rightarrow> (shell, nat) op" where
  "fork_job p s = Inr (next_pid s, s\<lparr>jobs := jobs s @ [(next_pid s, p\<lparr>pl_cwd := cwd s\<rparr>)],
     next_pid := Suc (next_pid s)\<rparr>)"

text \<open>\<open>wait(&status)\<close>: a child that has ended already is enough.\<close>

definition wait_any :: "(shell, unit) op" where
  "wait_any = setting (\<lambda>s. if ended s = [] then s\<lparr>mode := Wait_Any\<rparr> else s\<lparr>ended := tl (ended s)\<rparr>)"

text \<open>\<open>waitpid(pid, &status, 0)\<close> of the child just forked.\<close>

definition wait_for :: "nat \<Rightarrow> (shell, unit) op" where
  "wait_for pid = setting (\<lambda>s. s\<lparr>mode := Wait_For pid\<rparr>)"

text \<open>
  A child's effects take place when it ends; one that runs into a fault is killed. The shell that
  waits for it goes on, otherwise it stays as a zombie.
\<close>

definition end_job :: "(plan \<Rightarrow> (shell, unit) op) \<Rightarrow> nat \<Rightarrow> (shell, unit) op" where
  "end_job child pid = setting (\<lambda>s.
     case map_of (jobs s) pid of
       None \<Rightarrow> s
     | Some p \<Rightarrow>
         let s1 = (case child p (s\<lparr>cwd := pl_cwd p\<rparr>) of Inl e \<Rightarrow> s | Inr (_, t) \<Rightarrow> t\<lparr>cwd := cwd s\<rparr>);
             s2 = s1\<lparr>jobs := filter (\<lambda>j. fst j \<noteq> pid) (jobs s1)\<rparr>
         in if mode s2 = Wait_Any \<or> mode s2 = Wait_For pid then s2\<lparr>mode := Prompt\<rparr>
            else s2\<lparr>ended := ended s2 @ [pid]\<rparr>)"

text \<open>A line that is read (\<open>None\<close>: end of input), or the end of a child.\<close>

datatype shell_event = Typed "string option" | Ended nat

definition shell_step ::
  "(string option \<Rightarrow> (shell, unit) op) \<Rightarrow> (plan \<Rightarrow> (shell, unit) op) \<Rightarrow> shell_event \<Rightarrow> (shell, unit) op" where
  "shell_step line child ev =
     (case ev of
        Typed l \<Rightarrow> bnd (getting mode) (\<lambda>m. when_op (m = Prompt) (line l))
      | Ended pid \<Rightarrow> end_job child pid)"

section \<open>Common parts of the children and the parsers\<close>

text \<open>\<open>if (!find_command(arg[0])) ...; exit(0);\<close>\<close>

definition if_found :: "'e shell_env_scheme \<Rightarrow> string list \<Rightarrow> string list \<Rightarrow> (shell, unit) op \<Rightarrow> (shell, unit) op" where
  "if_found env dirs args m =
     bnd (find_first_arg env dirs args) (\<lambda>ok. if ok then m else tell (Not_Found (hd args)))"

text \<open>A process whose child is killed goes on.\<close>

definition outlives :: "(shell, unit) op \<Rightarrow> (shell, unit) op" where
  "outlives m s = (case m s of Inl e \<Rightarrow> Inr ((), s) | Inr r \<Rightarrow> Inr r)"

text \<open>
  \<open>&\<close> may only begin the last argument: \<open>None\<close> is a wrong command, \<open>Some b\<close> says whether it was there.
\<close>

fun background_mark :: "string list \<Rightarrow> bool option" where
  "background_mark [] = Some False"
| "background_mark (w # ws) =
     (if take 1 w = ''&'' then (if ws = [] then Some True else None) else background_mark ws)"

text \<open>The arguments when the last one, \<open>&\<close>, has been replaced by NULL.\<close>

definition drop_mark :: "bool \<Rightarrow> string list \<Rightarrow> argv" where
  "drop_mark b ws = (if b then map Some (butlast ws) @ [None, None] else to_argv ws)"

text \<open>
  Counting what is wrong with redirections and pipes: each operator counts one, and one more where
  it is last or first and must not be. Whether a leading \<open>>>\<close> counts differs.
\<close>

fun operators :: "bool \<Rightarrow> nat \<Rightarrow> argv \<Rightarrow> nat \<times> how \<Rightarrow> nat \<times> how" where
  "operators strict i (Some x # rest) (flag, k) =
     (let last = of_bool (hd rest = None); first = of_bool (i = 0) in
      operators strict (Suc i) rest
        (if x = ''>'' then (flag + 1 + last, OUT_REDIRECT)
         else if x = ''<'' then (flag + 1 + first, IN_REDIRECT)
         else if x = ''|'' then (flag + 1 + last + first, HAVE_PIPE)
         else if x = ''>>'' then (flag + 1 + last + (if strict then first else 0), ADD_FILE)
         else (flag, k)))"
| "operators strict i arg acc = acc"

text \<open>\<open>for (i = 0; arg[i] != NULL; i++)\<close>: cut at the operator, the file is what follows it.\<close>

fun cut_file :: "string \<Rightarrow> argv \<Rightarrow> string option \<Rightarrow> string option \<times> argv" where
  "cut_file w (Some x # rest) file =
     (if x = w then (case cut_file w rest (hd rest) of (f, r) \<Rightarrow> (f, None # r))
      else (case cut_file w rest file of (f, r) \<Rightarrow> (f, Some x # r)))"
| "cut_file w arg file = (file, arg)"

text \<open>The first \<open>|\<close>: what is before it, and what follows up to NULL.\<close>

fun cut_pipe :: "argv \<Rightarrow> argv \<times> string list" where
  "cut_pipe (Some x # rest) =
     (if x = ''|'' then (None # rest, upto_null rest)
      else (case cut_pipe rest of (r, n) \<Rightarrow> (Some x # r, n)))"
| "cut_pipe arg = (arg, [])"

end
