(* ===== verification/Shell_Hu.thy ===== *)
theory Shell_Hu
  imports Shell_World Talk_Printf
begin

text \<open>
  The shell \<open>Code/huqingwei/study_jincheng/my_shell.c\<close>: its prompt, the splitting of a line, the
  commands it runs, and its loop.
\<close>

section \<open>Reading a line\<close>

definition prompt_format :: "string \<Rightarrow> string" where
  "prompt_format dir = CHR 0x01 # CHR 0x1B # ''[1;31m%s@%s'' @ CHR 0x1B # ''[m:'' @
     CHR 0x1B # ''[1;34m'' @ dir @ CHR 0x1B # ''[m'' @ CHR 0x02 # ''$$ ''"

text \<open>
  The prompt: the directory as it is for \<open>/\<close> and \<open>/home\<close>, otherwise without as many characters as the
  home directory has. A directory of 256 characters or more leaves the array as it was.
\<close>

definition shell_tishi :: "'e shell_env_scheme \<Rightarrow> string \<Rightarrow> string result" where
  "shell_tishi env dir =
     rbind (case login_name env of None \<Rightarrow> Inl Null_Deref | Some n \<Rightarrow> strcpy 256 n) (\<lambda>user.
     if 256 \<le> length dir then Inl Uninit_Read
     else if dir = ''/'' \<or> dir = ''/home'' then
       sprintf_to 256 0 (prompt_format ''%s'') [S user, S (host env), S dir]
     else
       rbind (sprintf_to 256 0 ''/home/%s'' [S user]) (\<lambda>home.
         sprintf_to 256 0 (prompt_format ''~%s'') [S user, S (host env), S (drop (length home) dir)]))"

definition my_shell_input :: "string \<Rightarrow> string result" where
  "my_shell_input buf =
     (if 256 < length buf then Inr buf
      else if length buf + 1 < 256 then Inr (buf @ [newline]) else Inl Buffer_Overflow)"

text \<open>
  \<open>get_mingling\<close>: every blank or newline ends an argument, which may be empty; there is room for 100
  of 255 characters.
\<close>

fun mingling_loop :: "string \<Rightarrow> string \<Rightarrow> string list \<Rightarrow> string list result" where
  "mingling_loop w [] argv = Inr argv"
| "mingling_loop w (c # cs) argv =
     (if is_sep c then
        (if length argv < 100 \<and> length w + 1 < 256 then mingling_loop [] cs (argv @ [w])
         else Inl Out_Of_Bounds)
      else mingling_loop (w @ [c]) cs argv)"

definition get_mingling :: "string \<Rightarrow> string list result" where
  "get_mingling buf = mingling_loop [] buf []"

section \<open>The commands\<close>

definition hu_dirs :: "string list" where
  "hu_dirs = [''./'', ''/bin'', ''/usr/bin'', ''/usr/games/'']"

text \<open>\<open>cd\<close>: with nothing or an empty argument behind it, the home directory.\<close>

definition hu_cd :: "'e shell_env_scheme \<Rightarrow> string list \<Rightarrow> (shell, unit) op" where
  "hu_cd env argv =
     (if length argv = 1 \<or> argv ! 1 = [] then
        bnd (lifted (sprintf_to 256 0 ''/home/%s''
          [S (case login_name env of None \<Rightarrow> ''(null)'' | Some n \<Rightarrow> n)])) (\<lambda>user_dir.
        bnd (chdir_to env user_dir) (\<lambda>_. retn ()))
      else if 2 < length argv then tell Too_Many_Arguments
      else
        bnd (lifted (strcpy 256 (argv ! 1))) (\<lambda>chpath.
        bnd (chdir_to env chpath) (\<lambda>ok. when_op (\<not> ok) (tell (Failed_Call ''cd'')))))"

text \<open>For \<open>>>\<close> the loop runs over all the arguments, not up to NULL.\<close>

fun add_file :: "string list \<Rightarrow> argv \<Rightarrow> string option \<Rightarrow> string option \<times> argv" where
  "add_file (w # ws) (a # arg) file =
     (if w = ''>>'' then (case add_file ws arg (hd arg) of (f, r) \<Rightarrow> (f, None # r))
      else (case add_file ws arg file of (f, r) \<Rightarrow> (f, a # r)))"
| "add_file ws arg file = (file, arg)"

definition hu_plan :: "how \<Rightarrow> string list \<Rightarrow> argv \<Rightarrow> plan" where
  "hu_plan k argv arg =
     (case k of
        NORMAL \<Rightarrow> \<lparr>pl_how = k, pl_arg = upto_null arg, pl_next = [], pl_file = None, pl_room = length arg, pl_cwd = []\<rparr>
      | HAVE_PIPE \<Rightarrow> (case cut_pipe arg of (r, n) \<Rightarrow>
          \<lparr>pl_how = k, pl_arg = upto_null r, pl_next = n, pl_file = None, pl_room = length arg, pl_cwd = []\<rparr>)
      | OUT_REDIRECT \<Rightarrow> (case cut_file ''>'' arg None of (f, r) \<Rightarrow>
          \<lparr>pl_how = k, pl_arg = upto_null r, pl_next = [], pl_file = f, pl_room = length arg, pl_cwd = []\<rparr>)
      | IN_REDIRECT \<Rightarrow> (case cut_file ''<'' arg None of (f, r) \<Rightarrow>
          \<lparr>pl_how = k, pl_arg = upto_null r, pl_next = [], pl_file = f, pl_room = length arg, pl_cwd = []\<rparr>)
      | ADD_FILE \<Rightarrow> (case add_file argv arg None of (f, r) \<Rightarrow>
          \<lparr>pl_how = k, pl_arg = upto_null r, pl_next = [], pl_file = f, pl_room = length arg, pl_cwd = []\<rparr>))"

definition hu_do_cmd :: "'e shell_env_scheme \<Rightarrow> string list \<Rightarrow> (shell, unit) op" where
  "hu_do_cmd env argv =
     bnd (lifted (arg_is (to_argv argv) 0 ''cd'')) (\<lambda>cd.
       if cd then hu_cd env argv
       else (case background_mark argv of
           None \<Rightarrow> tell Wrong_Command
         | Some background \<Rightarrow>
             let arg = drop_mark background argv in
             (case operators True 0 arg (0, NORMAL) of
                (flag, k) \<Rightarrow>
                  if 1 < flag then tell Wrong_Command
                  else bnd (fork_job (hu_plan k argv arg)) (\<lambda>pid.
                    if background then tell (Process_Id pid) else wait_any))))"

section \<open>The children\<close>

text \<open>\<open>execvp(arg[0], arg); perror("execvp");\<close>\<close>

definition exec_or_say :: "'e shell_env_scheme \<Rightarrow> string list \<Rightarrow> stdin \<Rightarrow> sink \<Rightarrow> (shell, unit) op" where
  "exec_or_say env args inp to =
     bnd (exec_run env args inp to) (\<lambda>ok. when_op (\<not> ok) (tell (Failed_Call ''execvp'')))"

text \<open>The process before the pipe; what it prints is lost when it fails or is killed.\<close>

definition pipe_left :: "'e shell_env_scheme \<Rightarrow> string list \<Rightarrow> string list \<Rightarrow> (shell, string) op" where
  "pipe_left env dirs args s =
     (case find_first_arg env dirs args s of
        Inl e \<Rightarrow> Inr ([], s)
      | Inr (ok, t) \<Rightarrow>
          if ok then Inr (case runs env (cwd t) args Terminal of None \<Rightarrow> [] | Some out \<Rightarrow> out, t)
          else bnd (tell (Not_Found (hd args))) (\<lambda>_. retn []) t)"

definition hu_child :: "'e shell_env_scheme \<Rightarrow> plan \<Rightarrow> (shell, unit) op" where
  "hu_child env p =
     (case pl_how p of
        NORMAL \<Rightarrow> if_found env hu_dirs (pl_arg p) (exec_or_say env (pl_arg p) Terminal To_Screen)
      | OUT_REDIRECT \<Rightarrow>
          if_found env hu_dirs (pl_arg p) (bnd (open_file env True False (pl_file p)) (\<lambda>f.
            case f of
              None \<Rightarrow> tell (Failed_Call ''open'')
            | Some (path, old) \<Rightarrow> exec_or_say env (pl_arg p) Terminal (Into path 0)))
      | IN_REDIRECT \<Rightarrow>
          if_found env hu_dirs (pl_arg p) (bnd (open_file env False False (pl_file p)) (\<lambda>f.
            case f of
              None \<Rightarrow> tell (Failed_Call ''open'')
            | Some (path, old) \<Rightarrow> exec_or_say env (pl_arg p) (Bytes old) To_Screen))
      | HAVE_PIPE \<Rightarrow>
          bnd (pipe_left env hu_dirs (pl_arg p)) (\<lambda>out.
            if_found env hu_dirs (pl_next p)
              (bnd (exec_run env (pl_next p) (Bytes out) To_Screen) (\<lambda>_. retn ())))
      | ADD_FILE \<Rightarrow>
          if_found env hu_dirs (pl_arg p) (bnd (open_file env True False (pl_file p)) (\<lambda>f.
            let to = (case f of None \<Rightarrow> To_Screen | Some (path, old) \<Rightarrow> Into path (length old))
            in bnd (exec_run env (pl_arg p) Terminal to) (\<lambda>ok.
              when_op (\<not> ok) (bnd (tell (Failed_Call ''execvp'')) (\<lambda>_. emit to (''519'' @ [newline])))))))"

section \<open>The loop\<close>

text \<open>One line. At the end of input \<open>readline\<close> gives NULL, which is copied from.\<close>

definition hu_line :: "'e shell_env_scheme \<Rightarrow> string option \<Rightarrow> (shell, unit) op" where
  "hu_line env typed =
     bnd (getting cwd) (\<lambda>dir.
     bnd (lifted (shell_tishi env dir)) (\<lambda>_.
       case typed of
         None \<Rightarrow> lifted (Inl Null_Deref)
       | Some temp \<Rightarrow>
           bnd (lifted (rbind (strcpy 256 temp) my_shell_input)) (\<lambda>buf.
             if buf = ''exit'' @ [newline] \<or> buf = ''logout'' @ [newline]
             then setting (\<lambda>s. s\<lparr>mode := Gone\<rparr>)
             else bnd (lifted (get_mingling buf)) (\<lambda>argv.
               if argv = [] \<or> hd argv = [] then retn () else hu_do_cmd env argv))))"

definition hu_main :: "'e shell_env_scheme \<Rightarrow> shell_event list \<Rightarrow> (shell, unit) op" where
  "hu_main env evs = each (shell_step (hu_line env) (hu_child env)) evs"

end
