(* ===== verification/Shell_Liu.thy ===== *)
theory Shell_Liu
  imports Shell_World
begin

text \<open>
  The shell \<open>Code/liuting1/my_shell.c\<close>: the splitting of a line, the commands it runs, and its loop.
\<close>

section \<open>Reading a line\<close>

text \<open>\<open>strncpy(arglist[*argcount], p, number); arglist[*argcount][number] = 0; *argcount += 1;\<close>\<close>

definition store_arg :: "string \<Rightarrow> string list \<Rightarrow> string list result" where
  "store_arg w arglist =
     (if length arglist < 100 \<and> length w < 256 then Inr (arglist @ [w]) else Inl Out_Of_Bounds)"

text \<open>At the end of the line the last argument is stored, an empty one after a blank.\<close>

function liu_explain :: "string \<Rightarrow> string list \<Rightarrow> string list result" where
  "liu_explain p arglist =
     (if p \<noteq> [] \<and> hd p = newline then Inr arglist
      else if p \<noteq> [] \<and> hd p = CHR '' '' then liu_explain (tl p) arglist
      else
        let w = takeWhile (\<lambda>c. \<not> is_sep c) p; q = dropWhile (\<lambda>c. \<not> is_sep c) p in
          (case store_arg w arglist of
             Inl e \<Rightarrow> Inl e
           | Inr args \<Rightarrow> if q = [] then Inr args else liu_explain q args))"
  by pat_completeness auto
termination
proof (relation "measure (\<lambda>(p, a). length p)", goal_cases)
  case (2 p a)
  then show ?case by (cases p) auto
next
  case (3 p a w q args)
  then show ?case
    by (cases p) (auto simp: is_sep_def length_dropWhile_le le_imp_less_Suc)
qed simp

declare liu_explain.simps [simp del]

section \<open>The commands\<close>

definition liu_dirs :: "string list" where
  "liu_dirs = [''./'', ''/bin'', ''/usr/bin'']"

text \<open>The first empty argument becomes NULL.\<close>

fun cut_empty :: "argv \<Rightarrow> argv" where
  "cut_empty (Some x # rest) = (if x = [] then None # rest else Some x # cut_empty rest)"
| "cut_empty arg = arg"

text \<open>\<open>&\<close> alone, as the last argument: \<open>None\<close> is a wrong command.\<close>

fun liu_background :: "string list \<Rightarrow> bool option" where
  "liu_background [] = Some False"
| "liu_background (w # ws) =
     (if w = ''&'' then (if ws = [] then Some True else None) else liu_background ws)"

text \<open>
  One of the three loops for \<open>>\<close>, \<open>>>\<close> and \<open><\<close>: \<open>None\<close> without a file behind, otherwise the file and
  \<open>flag\<close> as they were, or those of the first such operator, at which the arguments are cut.
\<close>

fun liu_cut :: "string \<Rightarrow> how \<Rightarrow> argv \<Rightarrow> string option \<times> how \<Rightarrow> ((string option \<times> how) \<times> argv) option" where
  "liu_cut w k (Some x # rest) old =
     (if x = w then (if hd rest = None then None else Some ((hd rest, k), None # rest))
      else (case liu_cut w k rest old of
          None \<Rightarrow> None
        | Some (new, r) \<Rightarrow> Some (new, Some x # r)))"
| "liu_cut w k arg old = Some (old, arg)"

text \<open>The same for \<open>|\<close>: what follows up to NULL goes to \<open>argnext\<close>, without a NULL behind it.\<close>

fun liu_pipe :: "argv \<Rightarrow> how \<Rightarrow> ((how \<times> string list) \<times> argv) option" where
  "liu_pipe (Some x # rest) k =
     (if x = ''|'' then (if hd rest = None then None else Some ((HAVE_PIPE, upto_null rest), None # rest))
      else (case liu_pipe rest k of
          None \<Rightarrow> None
        | Some (new, r) \<Rightarrow> Some (new, Some x # r)))"
| "liu_pipe arg k = Some ((k, []), arg)"

text \<open>The plan, or a wrong command; and \<open>arg\<close> as it is then.\<close>

definition liu_plan :: "argv \<Rightarrow> (plan \<times> argv) option" where
  "liu_plan arg =
     (case liu_cut ''>'' OUT_REDIRECT arg (None, NORMAL) of
        None \<Rightarrow> None
      | Some (fk1, arg1) \<Rightarrow>
          (case liu_cut ''>>'' ADD_FILE arg1 fk1 of
             None \<Rightarrow> None
           | Some (fk2, arg2) \<Rightarrow>
               (case liu_cut ''<'' IN_REDIRECT arg2 fk2 of
                  None \<Rightarrow> None
                | Some ((f, k3), arg3) \<Rightarrow>
                    (case liu_pipe arg3 k3 of
                       None \<Rightarrow> None
                     | Some ((k, nexts), arg4) \<Rightarrow>
                         Some (\<lparr>pl_how = k, pl_arg = upto_null arg4, pl_next = nexts, pl_file = f,
                           pl_room = length arg, pl_cwd = []\<rparr>, arg4)))))"

text \<open>The test in front of \<open>chdir("/home/lt")\<close>, from left to right.\<close>

definition liu_home :: "nat \<Rightarrow> argv \<Rightarrow> bool result" where
  "liu_home argcount arg =
     (if argcount = 1 then Inr True
      else rbind (if argcount = 2 then arg_is arg 1 ''~'' else Inr False) (\<lambda>tilde.
        if tilde then Inr True else arg_is arg 1 ''-''))"

definition liu_do_cmd :: "'e shell_env_scheme \<Rightarrow> string list \<Rightarrow> (shell, unit) op" where
  "liu_do_cmd env arglist =
     (case liu_background arglist of
        None \<Rightarrow> tell Wrong_Command
      | Some background \<Rightarrow>
          let arg = (if background then (cut_empty (to_argv arglist))[length arglist - 1 := None]
                     else cut_empty (to_argv arglist)) in
          (case liu_plan arg of
             None \<Rightarrow> tell Wrong_Command
           | Some (p, arg') \<Rightarrow>
               bnd (lifted (arg_is arg' 0 ''cd'')) (\<lambda>cd.
                 if cd then
                   bnd (lifted (liu_home (length arglist) arg')) (\<lambda>home.
                     if home then bnd (chdir_to env ''/home/lt'') (\<lambda>_. retn ())
                     else bnd (chdir_to env (case arg' ! 1 of Some d \<Rightarrow> d | None \<Rightarrow> [])) (\<lambda>ok.
                       when_op (\<not> ok) (tell (Failed_Call ''chdir''))))
                 else
                   bnd (fork_job p) (\<lambda>pid.
                     if background then tell (Process_Id pid) else wait_for pid))))"

section \<open>The children\<close>

text \<open>A command that is not found is told, and executed all the same.\<close>

definition say_not_found :: "'e shell_env_scheme \<Rightarrow> string list \<Rightarrow> (shell, unit) op" where
  "say_not_found env args =
     bnd (find_first_arg env liu_dirs args) (\<lambda>ok. when_op (\<not> ok) (tell (Not_Found (hd args))))"

definition just_exec :: "'e shell_env_scheme \<Rightarrow> string list \<Rightarrow> stdin \<Rightarrow> sink \<Rightarrow> (shell, unit) op" where
  "just_exec env args inp to = bnd (exec_run env args inp to) (\<lambda>_. retn ())"

text \<open>
  \<open>argnext\<close> as \<open>execvp\<close> reads it: the arguments written, then what the array held, up to a NULL within
  its length. \<open>stack_args\<close> is what the array held, and \<open>flushed\<close>
  says whether the line printed before \<open>execvp\<close> gets out of the buffer.
\<close>

record liu_env = shell_env +
  stack_args :: "nat \<Rightarrow> string option"
  flushed :: bool

definition argnext_read :: "liu_env \<Rightarrow> string list \<Rightarrow> nat \<Rightarrow> string list result" where
  "argnext_read env nexts room =
     (let arr = map Some nexts @ map (stack_args env) [length nexts..<room]
      in if None \<in> set arr then Inr (upto_null arr) else Inl Out_Of_Bounds)"

definition transfer_file :: string where
  "transfer_file = ''/tmp/noknow''"

text \<open>
  The process before the pipe writes to a file that is not emptied; the second reads the file. When
  neither command is found, that is told on the screen.
\<close>

definition liu_pipe_left :: "liu_env \<Rightarrow> plan \<Rightarrow> (shell, unit) op" where
  "liu_pipe_left env p =
     bnd (find_first_arg env liu_dirs (pl_arg p)) (\<lambda>ok.
     bnd (if ok then retn True else find_first_arg env liu_dirs (pl_next p)) (\<lambda>ok2.
     bnd (when_op (\<not> ok2) (tell (Not_Found (hd (pl_arg p))))) (\<lambda>_.
     bnd (open_file env True False (Some transfer_file)) (\<lambda>f.
     let line = (if flushed env then ''aegv:'' @ hd (pl_arg p) @ [newline] else []) in
       (case f of
          None \<Rightarrow> bnd (emit To_Screen line) (\<lambda>_.
            just_exec env (pl_arg p) Terminal To_Screen)
        | Some (path, old) \<Rightarrow> bnd (emit (Into path 0) line) (\<lambda>_.
            just_exec env (pl_arg p) Terminal (Into path (length line))))))))"

text \<open>It is another file that is removed in the end, when \<open>execvp\<close> comes back.\<close>

definition remove_other :: "'e shell_env_scheme \<Rightarrow> (shell, unit) op" where
  "remove_other env =
     bnd (getting (\<lambda>s. full_path env (cwd s) ''/tmp/youdonotfileknow'')) (\<lambda>path.
     bnd (getting disk) (\<lambda>d.
       if d path = None then tell (Failed_Call ''remove'') else setting (\<lambda>s. s\<lparr>disk := d(path := None)\<rparr>)))"

definition liu_child :: "liu_env \<Rightarrow> plan \<Rightarrow> (shell, unit) op" where
  "liu_child env p =
     (case pl_how p of
        NORMAL \<Rightarrow> bnd (say_not_found env (pl_arg p)) (\<lambda>_. just_exec env (pl_arg p) Terminal To_Screen)
      | OUT_REDIRECT \<Rightarrow>
          bnd (say_not_found env (pl_arg p)) (\<lambda>_.
          bnd (open_file env True True (pl_file p)) (\<lambda>f.
            just_exec env (pl_arg p) Terminal (case f of None \<Rightarrow> To_Screen | Some (path, old) \<Rightarrow> Into path 0)))
      | ADD_FILE \<Rightarrow>
          bnd (say_not_found env (pl_arg p)) (\<lambda>_.
          bnd (open_file env False False (pl_file p)) (\<lambda>f.
            just_exec env (pl_arg p) Terminal
              (case f of None \<Rightarrow> To_Screen | Some (path, old) \<Rightarrow> Into path (length old))))
      | IN_REDIRECT \<Rightarrow>
          bnd (say_not_found env (pl_arg p)) (\<lambda>_.
          bnd (open_file env False False (pl_file p)) (\<lambda>f.
            just_exec env (pl_arg p) (case f of None \<Rightarrow> Terminal | Some (path, old) \<Rightarrow> Bytes old) To_Screen))
      | HAVE_PIPE \<Rightarrow>
          bnd (outlives (liu_pipe_left env p)) (\<lambda>_.
          bnd (say_not_found env (pl_next p)) (\<lambda>_.
          bnd (lifted (argnext_read env (pl_next p) (pl_room p))) (\<lambda>args.
          bnd (open_file env False False (Some transfer_file)) (\<lambda>f.
          bnd (exec_run env args (case f of None \<Rightarrow> Terminal | Some (path, old) \<Rightarrow> Bytes old) To_Screen) (\<lambda>ok.
            when_op (\<not> ok) (bnd (tell (Said ''##'')) (\<lambda>_. remove_other env))))))))"

section \<open>The loop\<close>

text \<open>
  Lines that are empty or longer than 256 characters are read again; one of 256 is copied into an
  array of as many bytes.
\<close>

definition liu_line :: "liu_env \<Rightarrow> string option \<Rightarrow> (shell, unit) op" where
  "liu_line env typed =
     (case typed of
        None \<Rightarrow> lifted (Inl Null_Deref)
      | Some temp \<Rightarrow>
          if temp = [] \<or> 256 < length temp then retn ()
          else bnd (lifted (strcpy 256 temp)) (\<lambda>buf.
            if buf = ''exit'' \<or> buf = ''logout'' then setting (\<lambda>s. s\<lparr>mode := Gone\<rparr>)
            else bnd (lifted (liu_explain buf [])) (liu_do_cmd env)))"

definition liu_main :: "liu_env \<Rightarrow> shell_event list \<Rightarrow> (shell, unit) op" where
  "liu_main env evs = each (shell_step (liu_line env) (liu_child env)) evs"

end
