(* ===== verification/Shell_Wu.thy ===== *)
theory Shell_Wu
  imports Shell_World
begin

text \<open>
  The shell \<open>Code/wuxinyue/my_shell.c\<close>: the splitting of a line, the commands it runs, and its loop.
\<close>

section \<open>Reading a line\<close>

text \<open>Arguments are what stands between blanks; there is room for 100 of 255 characters.\<close>

function wu_explain :: "string \<Rightarrow> string list \<Rightarrow> string list result" where
  "wu_explain p arglist =
     (if p = [] then Inr arglist
      else if hd p = CHR '' '' then wu_explain (tl p) arglist
      else
        let w = takeWhile (\<lambda>c. c \<noteq> CHR '' '') p; q = dropWhile (\<lambda>c. c \<noteq> CHR '' '') p in
          (if length arglist < 100 \<and> length w < 256 then wu_explain q (arglist @ [w])
           else Inl Out_Of_Bounds))"
  by pat_completeness auto
termination
proof (relation "measure (\<lambda>(p, a). length p)", goal_cases)
  case (2 p a)
  then show ?case by (cases p) auto
next
  case (3 p a w q)
  then show ?case by (cases p) (auto simp: length_dropWhile_le le_imp_less_Suc)
qed simp

declare wu_explain.simps [simp del]

section \<open>The commands\<close>

definition wu_dirs :: "string list" where
  "wu_dirs = [''./'', ''/bin'', ''/usr/bin'']"

text \<open>
  \<open>cd\<close>. A path that begins with a tilde is appended, without it, to \<open>temp\<close>, an array of 10 bytes that
  \<open>/home/yue\<close> fills.
\<close>

definition wu_cd :: "'e shell_env_scheme \<Rightarrow> argv \<Rightarrow> (shell, unit) op" where
  "wu_cd env arg =
     (case arg ! 1 of
        None \<Rightarrow> bnd (chdir_to env ''/home/yue'') (\<lambda>ok. when_op (\<not> ok) (tell (Failed_Call ''chdir'')))
      | Some d \<Rightarrow>
          if d = ''~'' then bnd (chdir_to env ''/home/yue'') (\<lambda>ok. when_op (\<not> ok) (tell (Failed_Call ''chdir'')))
          else if take 1 d = ''~'' then
            bnd (lifted (strcpy 20 d)) (\<lambda>test.
            bnd (lifted (strcpy 10 (''/home/yue'' @ tl test))) (\<lambda>temp.
            bnd (chdir_to env temp) (\<lambda>_. retn ())))
          else bnd (chdir_to env d) (\<lambda>ok. when_op (\<not> ok) (tell (Failed_Call ''chdir''))))"

text \<open>\<open>strncmp(arg[0], "cd", 2) == 0\<close>\<close>

definition begins_with_cd :: "argv \<Rightarrow> bool result" where
  "begins_with_cd arg =
     (case arg of Some c # _ \<Rightarrow> Inr (take 2 c = ''cd'') | _ \<Rightarrow> Inl Null_Deref)"

definition wu_plan :: "how \<Rightarrow> argv \<Rightarrow> plan" where
  "wu_plan k arg =
     (let cut = (\<lambda>w. case cut_file w arg None of (f, r) \<Rightarrow>
          \<lparr>pl_how = k, pl_arg = upto_null r, pl_next = [], pl_file = f, pl_room = length arg, pl_cwd = []\<rparr>)
      in case k of
        NORMAL \<Rightarrow> \<lparr>pl_how = k, pl_arg = upto_null arg, pl_next = [], pl_file = None,
          pl_room = length arg, pl_cwd = []\<rparr>
      | OUT_REDIRECT \<Rightarrow> cut ''>''
      | ADD_FILE \<Rightarrow> cut ''>>''
      | IN_REDIRECT \<Rightarrow> cut ''<''
      | HAVE_PIPE \<Rightarrow> (case cut_pipe arg of (r, n) \<Rightarrow>
          \<lparr>pl_how = k, pl_arg = upto_null r, pl_next = n, pl_file = None, pl_room = length arg, pl_cwd = []\<rparr>))"

text \<open>Every pipe seen on the way is printed.\<close>

definition say_pipes :: "argv \<Rightarrow> (shell, unit) op" where
  "say_pipes arg = each (\<lambda>w. when_op (w = ''|'')
     (bnd (tell (Said ''comming'')) (\<lambda>_. tell (Said ''howsource : 3'')))) (upto_null arg)"

definition wu_do_cmd :: "'e shell_env_scheme \<Rightarrow> string list \<Rightarrow> (shell, unit) op" where
  "wu_do_cmd env arglist =
     (case background_mark arglist of
        None \<Rightarrow> tell Wrong_Command
      | Some background \<Rightarrow>
          let arg = drop_mark background arglist in
          bnd (lifted (begins_with_cd arg)) (\<lambda>cd.
            if cd then wu_cd env arg
            else bnd (say_pipes arg) (\<lambda>_.
              case operators False 0 arg (0, NORMAL) of
                (flag, k) \<Rightarrow>
                  if 1 < flag then tell Wrong_Command
                  else bnd (fork_job (wu_plan k arg)) (\<lambda>pid.
                    if background then tell (Process_Id pid) else wait_for pid))))"

section \<open>The children\<close>

definition wu_exec :: "'e shell_env_scheme \<Rightarrow> string list \<Rightarrow> stdin \<Rightarrow> sink \<Rightarrow> (shell, unit) op" where
  "wu_exec env args inp to = bnd (exec_run env args inp to) (\<lambda>_. retn ())"

definition wu_transfer :: string where
  "wu_transfer = ''/tmp/transfer''"

text \<open>
  The process before the pipe closes its input before it opens the file, which thereby becomes its
  input, open for writing only. \<open>assert\<close> stops it when the file cannot be opened.
\<close>

definition wu_pipe_left :: "'e shell_env_scheme \<Rightarrow> plan \<Rightarrow> (shell, unit) op" where
  "wu_pipe_left env p =
     if_found env wu_dirs (pl_arg p) (bnd (open_file env True True (Some wu_transfer)) (\<lambda>f.
       case f of
         None \<Rightarrow> tell (Failed_Call ''assert'')
       | Some (path, old) \<Rightarrow> wu_exec env (pl_arg p) Not_Readable (Into path 0)))"

definition wu_remove :: "'e shell_env_scheme \<Rightarrow> (shell, unit) op" where
  "wu_remove env =
     bnd (getting (\<lambda>s. full_path env (cwd s) wu_transfer)) (\<lambda>path.
     bnd (getting disk) (\<lambda>d.
       if d path = None then tell (Failed_Call ''remove'') else setting (\<lambda>s. s\<lparr>disk := d(path := None)\<rparr>)))"

text \<open>After the first process the command looked for is again \<open>arg[0]\<close>, not \<open>argnext[0]\<close>.\<close>

definition wu_child :: "'e shell_env_scheme \<Rightarrow> plan \<Rightarrow> (shell, unit) op" where
  "wu_child env p =
     (case pl_how p of
        NORMAL \<Rightarrow> if_found env wu_dirs (pl_arg p) (wu_exec env (pl_arg p) Terminal To_Screen)
      | OUT_REDIRECT \<Rightarrow>
          if_found env wu_dirs (pl_arg p) (bnd (open_file env True True (pl_file p)) (\<lambda>f.
            wu_exec env (pl_arg p) Terminal (case f of None \<Rightarrow> To_Screen | Some (path, old) \<Rightarrow> Into path 0)))
      | IN_REDIRECT \<Rightarrow>
          if_found env wu_dirs (pl_arg p) (bnd (open_file env False False (pl_file p)) (\<lambda>f.
            wu_exec env (pl_arg p) (case f of None \<Rightarrow> Terminal | Some (path, old) \<Rightarrow> Bytes old) To_Screen))
      | HAVE_PIPE \<Rightarrow>
          bnd (outlives (wu_pipe_left env p)) (\<lambda>_.
          if_found env wu_dirs (pl_arg p) (bnd (open_file env False False (Some wu_transfer)) (\<lambda>f.
          bnd (exec_run env (pl_next p) (case f of None \<Rightarrow> Terminal | Some (path, old) \<Rightarrow> Bytes old) To_Screen)
            (\<lambda>ok. when_op (\<not> ok) (wu_remove env)))))
      | ADD_FILE \<Rightarrow>
          if_found env wu_dirs (pl_arg p) (bnd (open_file env False False (pl_file p)) (\<lambda>f.
            wu_exec env (pl_arg p) Terminal
              (case f of None \<Rightarrow> To_Screen | Some (path, old) \<Rightarrow> Into path (length old)))))"

section \<open>The loop\<close>

text \<open>Nothing typed at all is skipped; there is no bound on the length of a line.\<close>

definition wu_line :: "'e shell_env_scheme \<Rightarrow> string option \<Rightarrow> (shell, unit) op" where
  "wu_line env typed =
     (case typed of
        None \<Rightarrow> lifted (Inl Null_Deref)
      | Some buf \<Rightarrow>
          if buf = [] then retn ()
          else if buf = ''exit'' \<or> buf = ''logout'' then setting (\<lambda>s. s\<lparr>mode := Gone\<rparr>)
          else bnd (lifted (wu_explain buf [])) (wu_do_cmd env))"

definition wu_main :: "'e shell_env_scheme \<Rightarrow> shell_event list \<Rightarrow> (shell, unit) op" where
  "wu_main env evs = each (shell_step (wu_line env) (wu_child env)) evs"

end
