(* ===== verification/Shell_Parse.thy ===== *)
theory Shell_Parse
  imports Shell_Hu Shell_Liu Shell_Wu
begin

text \<open>
  How the three shells take a line apart: the splitting against reference splittings, and what
  their parsers make of plain words around one operator.
\<close>

section \<open>Splitting\<close>

lemma mingling_word:
  "\<forall>c \<in> set v. \<not> is_sep c \<Longrightarrow> mingling_loop w (v @ cs) argv = mingling_loop (w @ v) cs argv"
  by (induction v arbitrary: w) simp_all

text \<open>Arguments with the separator behind each: every line that ends in a separator is made of these.\<close>

definition fields_ok :: "(string \<times> char) list \<Rightarrow> bool" where
  "fields_ok ps \<longleftrightarrow> (\<forall>(w, c) \<in> set ps. is_sep c \<and> (\<forall>x \<in> set w. \<not> is_sep x) \<and> length w < 255)"

definition line_of :: "(string \<times> char) list \<Rightarrow> string" where
  "line_of ps = concat (map (\<lambda>(w, c). w @ [c]) ps)"

lemma mingling_fields:
  "fields_ok ps \<Longrightarrow> length argv \<le> 100 \<Longrightarrow> mingling_loop [] (line_of ps) argv =
     (if length argv + length ps \<le> 100 then Inr (argv @ map fst ps) else Inl Out_Of_Bounds)"
proof (induction ps arbitrary: argv)
  case Nil
  then show ?case by (simp add: line_of_def)
next
  case (Cons p ps)
  obtain w c where p: "p = (w, c)" by (cases p)
  with Cons.prems(1) have w: "is_sep c" "\<forall>x \<in> set w. \<not> is_sep x" "length w < 255" and "fields_ok ps"
    by (auto simp: fields_ok_def)
  have "mingling_loop [] (line_of (p # ps)) argv = mingling_loop w (c # line_of ps) argv"
    using mingling_word [OF w(2), of "[]"] p by (simp add: line_of_def)
  with Cons.IH [OF \<open>fields_ok ps\<close>, of "argv @ [w]"] Cons.prems(2) w p show ?case by simp
qed

text \<open>Words between blanks.\<close>

fun fields :: "string \<Rightarrow> string list" where
  "fields [] = [[]]"
| "fields (c # cs) =
     (if c = CHR '' '' then [] # fields cs else (c # hd (fields cs)) # tl (fields cs))"

definition words :: "string \<Rightarrow> string list" where
  "words p = filter (\<lambda>w. w \<noteq> []) (fields p)"

lemma fields_nonempty [simp]: "fields p \<noteq> []"
  by (cases p) simp_all

lemma fields_word:
  "CHR '' '' \<notin> set w \<Longrightarrow> fields (w @ q) = (w @ hd (fields q)) # tl (fields q)"
  by (induction w) (auto simp: neq_Nil_conv)

lemma words_blank [simp]: "words (CHR '' '' # p) = words p"
  by (simp add: words_def)

lemma words_Nil [simp]: "words [] = []"
  by (simp add: words_def)

lemma words_word:
  assumes "w \<noteq> []" "CHR '' '' \<notin> set w" "q = [] \<or> hd q = CHR '' ''"
  shows "words (w @ q) = w # words q"
proof -
  have "hd (fields q) = []" using assms(3) by (cases q) auto
  moreover from this have "words q = filter (\<lambda>w. w \<noteq> []) (tl (fields q))"
    by (cases "fields q") (auto simp: words_def)
  ultimately show ?thesis using assms(1,2) by (simp add: words_def fields_word)
qed

text \<open>The word at the beginning of a line that does not begin with a blank.\<close>

lemma leading_word:
  assumes "p \<noteq> []" "hd p \<noteq> CHR '' ''"
  defines "w \<equiv> takeWhile (\<lambda>c. c \<noteq> CHR '' '') p" and "q \<equiv> dropWhile (\<lambda>c. c \<noteq> CHR '' '') p"
  shows "words p = w # words q" "w \<noteq> []" "q = [] \<or> hd q = CHR '' ''" "p = w @ q"
proof -
  show w: "w \<noteq> []" using assms(1,2) by (cases p) (auto simp: w_def)
  show q: "q = [] \<or> hd q = CHR '' ''"
    using hd_dropWhile [of "\<lambda>c. c \<noteq> CHR '' ''" p] by (auto simp: q_def)
  show p: "p = w @ q" by (simp add: w_def q_def)
  have "CHR '' '' \<notin> set w" by (auto simp: w_def dest: set_takeWhileD)
  from words_word [OF w this q] p show "words p = w # words q" by simp
qed

definition words_fit :: "string list \<Rightarrow> bool" where
  "words_fit ws \<longleftrightarrow> length ws \<le> 100 \<and> (\<forall>w \<in> set ws. length w < 256)"

lemma wu_explain_words:
  "length args \<le> 100 \<Longrightarrow> \<forall>w \<in> set args. length w < 256 \<Longrightarrow> wu_explain p args =
     (if words_fit (args @ words p) then Inr (args @ words p) else Inl Out_Of_Bounds)"
proof (induction p args rule: wu_explain.induct)
  case (1 p args)
  show ?case
  proof (cases "p = []")
    case True
    with 1(3,4) show ?thesis by (simp add: wu_explain.simps [of "[]"] words_fit_def)
  next
    case ne: False
    show ?thesis
    proof (cases "hd p = CHR '' ''")
      case True
      with ne have "words (tl p) = words p" by (cases p) auto
      with 1(1) [OF ne True 1(3,4)] ne True show ?thesis by (simp add: wu_explain.simps [of p])
    next
      case False
      let ?w = "takeWhile (\<lambda>c. c \<noteq> CHR '' '') p" and ?q = "dropWhile (\<lambda>c. c \<noteq> CHR '' '') p"
      note lw = leading_word [OF ne False]
      show ?thesis
      proof (cases "length args < 100 \<and> length ?w < 256")
        case True
        with 1(2) [OF ne False refl refl True] 1(3,4) ne False lw(1) show ?thesis
          by (simp add: wu_explain.simps [of p] Let_def)
      next
        case long: False
        with ne False lw(1) show ?thesis
          by (auto simp: wu_explain.simps [of p] words_fit_def Let_def)
      qed
    qed
  qed
qed

text \<open>What \<open>liu_explain\<close> adds behind a blank.\<close>

definition trailing :: "string \<Rightarrow> string list" where
  "trailing p = (if p = [] \<or> last p = CHR '' '' then [[]] else [])"

lemma no_newline_word:
  "newline \<notin> set p \<Longrightarrow> takeWhile (\<lambda>c. \<not> is_sep c) p = takeWhile (\<lambda>c. c \<noteq> CHR '' '') p
     \<and> dropWhile (\<lambda>c. \<not> is_sep c) p = dropWhile (\<lambda>c. c \<noteq> CHR '' '') p"
  by (induction p) (auto simp: is_sep_def)

lemma liu_explain_word:
  assumes "p \<noteq> []" "hd p \<noteq> CHR '' ''" "newline \<notin> set p"
  shows "liu_explain p args =
     (case store_arg (takeWhile (\<lambda>c. c \<noteq> CHR '' '') p) args of
        Inl e \<Rightarrow> Inl e
      | Inr a \<Rightarrow> if dropWhile (\<lambda>c. c \<noteq> CHR '' '') p = [] then Inr a
          else liu_explain (dropWhile (\<lambda>c. c \<noteq> CHR '' '') p) a)"
proof -
  have "hd p \<noteq> newline" using assms(1,3) by (cases p) auto
  with assms(1,2) show ?thesis unfolding liu_explain.simps [of p]
    by (simp only: no_newline_word [OF assms(3)] Let_def simp_thms if_False)
qed

lemma liu_explain_words:
  "newline \<notin> set p \<Longrightarrow> length args \<le> 100 \<Longrightarrow> \<forall>w \<in> set args. length w < 256 \<Longrightarrow> liu_explain p args =
     (if words_fit (args @ words p @ trailing p) then Inr (args @ words p @ trailing p)
      else Inl Out_Of_Bounds)"
proof (induction p args rule: liu_explain.induct)
  case (1 p args)
  then have nl: "\<not> (p \<noteq> [] \<and> hd p = newline)" by (cases p) auto
  show ?case
  proof (cases "p = []")
    case True
    with 1(4,5) show ?thesis
      by (auto simp: liu_explain.simps [of "[]"] store_arg_def words_fit_def trailing_def)
  next
    case ne: False
    show ?thesis
    proof (cases "hd p = CHR '' ''")
      case True
      with ne have w: "words (tl p) = words p" "newline \<notin> set (tl p)" "trailing (tl p) = trailing p"
        using 1(3) by (cases p; auto simp: trailing_def)+
      with 1(1) [OF nl conjI [OF ne True] w(2) 1(4,5)] ne True nl show ?thesis
        by (simp add: liu_explain.simps [of p])
    next
      case False
      let ?w = "takeWhile (\<lambda>c. c \<noteq> CHR '' '') p" and ?q = "dropWhile (\<lambda>c. c \<noteq> CHR '' '') p"
      note lw = leading_word [OF ne False] and nn = no_newline_word [OF 1(3)]
      have q: "newline \<notin> set ?q" using 1(3) by (auto dest: set_dropWhileD)
      have t: "?q \<noteq> [] \<Longrightarrow> trailing ?q = trailing p" "?q = [] \<Longrightarrow> trailing p = []"
      proof -
        show "?q \<noteq> [] \<Longrightarrow> trailing ?q = trailing p"
          using lw(4) ne by (metis last_appendR trailing_def)
        assume "?q = []"
        then have "\<forall>c \<in> set p. c \<noteq> CHR '' ''" by simp
        with ne show "trailing p = []" by (auto simp: trailing_def)
      qed
      show ?thesis
      proof (cases "length args < 100 \<and> length ?w < 256")
        case True
        then have st: "store_arg ?w args = Inr (args @ [?w])" by (simp add: store_arg_def)
        show ?thesis
        proof (cases "?q = []")
          case qe: True
          from True 1(4,5) have "words_fit (args @ [?w])" by (auto simp: words_fit_def)
          then show ?thesis unfolding liu_explain_word [OF ne False 1(3)] st lw(1) t(2) [OF qe] qe
            by (simp only: sum.case words_Nil append_Nil2 append.simps if_True simp_thms)
        next
          case qn: False
          have "liu_explain ?q (args @ [?w]) =
              (if words_fit ((args @ [?w]) @ words ?q @ trailing ?q)
               then Inr ((args @ [?w]) @ words ?q @ trailing ?q) else Inl Out_Of_Bounds)"
            using 1(2) [OF nl _ refl refl, of "args @ [?w]"] True 1(5) False ne q qn st nn by auto
          then show ?thesis unfolding liu_explain_word [OF ne False 1(3)] st lw(1) t(1) [OF qn]
            by (simp only: sum.case qn if_False append_assoc append.simps)
        qed
      next
        case long: False
        then have "store_arg ?w args = Inl Out_Of_Bounds" by (simp add: store_arg_def)
        moreover have "\<not> words_fit (args @ ?w # words ?q @ trailing p)"
          using long by (auto simp: words_fit_def)
        ultimately show ?thesis unfolding liu_explain_word [OF ne False 1(3)] lw(1)
          by (simp only: sum.case if_False append.simps)
      qed
    qed
  qed
qed

section \<open>A line of words\<close>

text \<open>Words with one blank between them.\<close>

fun spaced :: "string list \<Rightarrow> string" where
  "spaced [] = []"
| "spaced [w] = w"
| "spaced (w # v # ws) = w @ CHR '' '' # spaced (v # ws)"

definition wordy :: "string list \<Rightarrow> bool" where
  "wordy ws \<longleftrightarrow> ws \<noteq> [] \<and> (\<forall>w \<in> set ws. w \<noteq> [] \<and> (\<forall>c \<in> set w. \<not> is_sep c) \<and> length w < 255) \<and> length ws \<le> 100"

lemma spaced_line:
  "ws \<noteq> [] \<Longrightarrow> spaced ws @ [newline] = line_of (zip ws (replicate (length ws - 1) (CHR '' '') @ [newline]))"
proof (induction ws rule: spaced.induct)
  case 1
  then show ?case by simp
next
  case (2 w)
  then show ?case by (simp add: line_of_def)
next
  case (3 w v ws)
  then show ?case by (simp add: line_of_def)
qed

lemma get_mingling_spaced:
  assumes "wordy ws"
  shows "get_mingling (spaced ws @ [newline]) = Inr ws"
proof -
  let ?ps = "zip ws (replicate (length ws - 1) (CHR '' '') @ [newline])"
  have l: "length (replicate (length ws - 1) (CHR '' '') @ [newline]) = length ws"
    using assms by (cases ws) (auto simp: wordy_def)
  have "fields_ok ?ps" unfolding fields_ok_def
  proof (rule ballI, clarify)
    fix w c
    assume wc: "(w, c) \<in> set ?ps"
    from set_zip_leftD [OF wc] assms have "(\<forall>x \<in> set w. \<not> is_sep x) \<and> length w < 255"
      by (simp add: wordy_def)
    moreover from set_zip_rightD [OF wc] have "is_sep c" by (auto simp: is_sep_def)
    ultimately show "is_sep c \<and> (\<forall>x \<in> set w. \<not> is_sep x) \<and> length w < 255" by simp
  qed
  from mingling_fields [OF this, of "[]"] l assms show ?thesis
    by (simp add: get_mingling_def spaced_line wordy_def)
qed

lemma words_spaced: "\<forall>w \<in> set ws. w \<noteq> [] \<and> CHR '' '' \<notin> set w \<Longrightarrow> words (spaced ws) = ws"
proof (induction ws rule: spaced.induct)
  case 1
  then show ?case by simp
next
  case (2 w)
  then show ?case using words_word [of w "[]"] by simp
next
  case (3 w v ws)
  then show ?case using words_word [of w "CHR '' '' # spaced (v # ws)"] by simp
qed

lemma wordyD:
  "wordy ws \<Longrightarrow> w \<in> set ws \<Longrightarrow> w \<noteq> [] \<and> CHR '' '' \<notin> set w \<and> newline \<notin> set w \<and> length w < 255"
  unfolding wordy_def is_sep_def by blast

lemma wordy_fit: "wordy ws \<Longrightarrow> words_fit ws" "wordy ws \<Longrightarrow> words (spaced ws) = ws"
proof -
  assume w: "wordy ws"
  then have "length ws \<le> 100" by (simp add: wordy_def)
  moreover have "length v < 256" if "v \<in> set ws" for v using wordyD [OF w that] by simp
  ultimately show "words_fit ws" by (simp add: words_fit_def)
  show "words (spaced ws) = ws" using wordyD [OF w] by (intro words_spaced) blast
qed

lemma wu_explain_spaced: "wordy ws \<Longrightarrow> wu_explain (spaced ws) [] = Inr ws"
  by (simp add: wu_explain_words wordy_fit)

lemma spaced_last: "ws \<noteq> [] \<Longrightarrow> last ws \<noteq> [] \<Longrightarrow> spaced ws \<noteq> [] \<and> last (spaced ws) = last (last ws)"
  by (induction ws rule: spaced.induct) auto

lemma spaced_newline: "\<forall>w \<in> set ws. newline \<notin> set w \<Longrightarrow> newline \<notin> set (spaced ws)"
proof (induction ws rule: spaced.induct)
  case (3 w v ws)
  moreover have "newline \<noteq> CHR '' ''" by (simp add: newline_def)
  ultimately show ?case by simp
qed simp_all

lemma liu_explain_spaced:
  assumes "wordy ws"
  shows "liu_explain (spaced ws) [] = Inr ws"
proof -
  have ne: "ws \<noteq> []" using assms by (simp add: wordy_def)
  then have l: "last ws \<in> set ws" by simp
  from wordyD [OF assms l] have w: "last ws \<noteq> []" "CHR '' '' \<notin> set (last ws)" by simp_all
  from w(2) last_in_set [OF w(1)] have "last (last ws) \<noteq> CHR '' ''" by metis
  with spaced_last [OF ne w(1)] have "trailing (spaced ws) = []" by (simp add: trailing_def)
  moreover have "newline \<notin> set (spaced ws)"
    using wordyD [OF assms] by (intro spaced_newline) blast
  ultimately show ?thesis using wordy_fit [OF assms] by (simp add: liu_explain_words)
qed

section \<open>Plain words around an operator\<close>

definition plain_word :: "string \<Rightarrow> bool" where
  "plain_word w \<longleftrightarrow> w \<noteq> [] \<and> take 1 w \<noteq> ''&'' \<and> w \<notin> {''>'', ''<'', ''|'', ''>>''}"

text \<open>Each routine of the parsers passes over plain words.\<close>

lemma operators_plain:
  "\<forall>w \<in> set ws. plain_word w \<Longrightarrow> operators strict i (map Some ws @ arg) (n, k) = operators strict (i + length ws) arg (n, k)"
  by (induction ws arbitrary: i) (auto simp: plain_word_def Let_def)

lemma cut_file_plain:
  "\<forall>w \<in> set ws. w \<noteq> x \<Longrightarrow> cut_file x (map Some ws @ arg) f = (fst (cut_file x arg f), map Some ws @ snd (cut_file x arg f))"
  by (induction ws) (auto split: prod.splits)

lemma cut_pipe_plain:
  "\<forall>w \<in> set ws. w \<noteq> ''|'' \<Longrightarrow> cut_pipe (map Some ws @ arg) = (map Some ws @ fst (cut_pipe arg), snd (cut_pipe arg))"
  by (induction ws) (auto split: prod.splits)

lemma liu_cut_plain:
  "\<forall>w \<in> set ws. w \<noteq> x \<Longrightarrow> liu_cut x k (map Some ws @ arg) old =
     map_option (\<lambda>(new, r). (new, map Some ws @ r)) (liu_cut x k arg old)"
  by (induction ws) (auto simp: option.map_id split: option.splits)

lemma liu_pipe_plain:
  "\<forall>w \<in> set ws. w \<noteq> ''|'' \<Longrightarrow> liu_pipe (map Some ws @ arg) k =
     map_option (\<lambda>(new, r). (new, map Some ws @ r)) (liu_pipe arg k)"
  by (induction ws) (auto simp: option.map_id split: option.splits)

lemma background_plain:
  "\<forall>w \<in> set ws. take 1 w \<noteq> ''&'' \<Longrightarrow> background_mark ws = Some False"
  "\<forall>w \<in> set ws. take 1 w \<noteq> ''&'' \<Longrightarrow> liu_background ws = Some False"
  by (induction ws) auto

lemma cut_empty_plain: "\<forall>w \<in> set ws. w \<noteq> [] \<Longrightarrow> cut_empty (map Some ws @ [None]) = map Some ws @ [None]"
  by (induction ws) auto

lemma upto_null_plain [simp]: "upto_null (map Some ws @ None # arg) = ws"
  by (induction ws) auto

lemmas parse_plain = operators_plain cut_file_plain cut_pipe_plain liu_cut_plain liu_pipe_plain
  background_plain cut_empty_plain

end
