(* ===== verification/Shell_Facts.thy ===== *)
theory Shell_Facts
  imports Shell_Parse
begin

text \<open>
  Children leave the shell alone, so a shell that waits for its child waits, whatever is typed and
  whichever other children end.
\<close>

section \<open>Children leave the shell alone\<close>

definition same_shell :: "shell \<Rightarrow> shell \<Rightarrow> bool" where
  "same_shell s t \<longleftrightarrow> mode t = mode s \<and> next_pid t = next_pid s \<and> jobs t = jobs s \<and> ended t = ended s
     \<and> cwd t = cwd s"

interpretation child: move_law same_shell
  by unfold_locales (auto simp: same_shell_def)

named_theorems child_ops \<open>operations of a child\<close>

lemma tell_child [child_ops]: "moves same_shell (tell n)"
  unfolding tell_def by (intro child.moves_setting) (simp add: same_shell_def)

lemma emit_child [child_ops]: "moves same_shell (emit to out)"
  unfolding emit_def by (cases to) (auto intro!: child.moves_setting simp: same_shell_def)

lemma open_child [child_ops]: "moves same_shell (open_file env create trunc name)"
  by (auto simp: moves_def open_file_def same_shell_def Let_def split: option.splits if_splits)

lemma exec_child [child_ops]: "moves same_shell (exec_run env args inp to)"
  unfolding exec_run_def
  by (intro child.moves_rules) (auto split: option.split intro!: child.moves_rules child_ops)

lemma find_child [child_ops]: "moves same_shell (find_first_arg env dirs args)"
  unfolding find_first_arg_def by (intro child.moves_rules)

lemma found_child [child_ops]: "moves same_shell m \<Longrightarrow> moves same_shell (if_found env dirs args m)"
  unfolding if_found_def by (intro child.moves_rules child_ops)

lemma outlives_child [child_ops]: "moves same_shell m \<Longrightarrow> moves same_shell (outlives m)"
  by (auto simp: moves_def outlives_def child.rel_refl split: sum.splits)

lemma remove_child [child_ops]: "moves same_shell (remove_other env)" "moves same_shell (wu_remove env)"
  unfolding remove_other_def wu_remove_def
  by (intro child.moves_rules child_ops child.moves_setting; simp add: same_shell_def)+

lemma option_child [child_ops]:
  "moves same_shell m \<Longrightarrow> (\<And>x. moves same_shell (f x)) \<Longrightarrow>
   moves same_shell (case r of None \<Rightarrow> m | Some x \<Rightarrow> f x)"
  by (cases r) simp_all

lemma pair_child [child_ops]: "(\<And>x y. moves same_shell (f x y)) \<Longrightarrow> moves same_shell (case p of (x, y) \<Rightarrow> f x y)"
  by (cases p) simp

lemma how_child [child_ops]:
  assumes "moves same_shell a" "moves same_shell b" "moves same_shell c" "moves same_shell d" "moves same_shell e"
  shows "moves same_shell (case k of NORMAL \<Rightarrow> a | OUT_REDIRECT \<Rightarrow> b | IN_REDIRECT \<Rightarrow> c | HAVE_PIPE \<Rightarrow> d | ADD_FILE \<Rightarrow> e)"
  using assms by (cases k) simp_all

lemma liu_child_moves: "moves same_shell (liu_child env p)"
  unfolding liu_child_def say_not_found_def just_exec_def liu_pipe_left_def Let_def
  by (intro child.moves_rules child_ops)

lemma wu_child_moves: "moves same_shell (wu_child env p)"
  unfolding wu_child_def wu_exec_def wu_pipe_left_def
  by (intro child.moves_rules child_ops)

section \<open>Waiting\<close>

text \<open>The shell waits for \<open>pid\<close>: no line is read and no child forked.\<close>

definition still_waits :: "nat \<Rightarrow> shell \<Rightarrow> shell \<Rightarrow> bool" where
  "still_waits pid s t \<longleftrightarrow> mode t = Wait_For pid \<and> next_pid t = next_pid s \<and> cwd t = cwd s
     \<and> set (jobs t) \<subseteq> set (jobs s) \<and> (\<forall>p. (pid, p) \<in> set (jobs t) \<longleftrightarrow> (pid, p) \<in> set (jobs s))"

lemma still_waits_mode: "still_waits pid s t \<Longrightarrow> mode t = Wait_For pid"
  by (simp add: still_waits_def)

lemma still_waits_trans: "still_waits pid s t \<Longrightarrow> still_waits pid t u \<Longrightarrow> still_waits pid s u"
  unfolding still_waits_def by (elim conjE) (intro conjI; simp)

lemma step_waits:
  assumes "mode s = Wait_For pid" "ev \<noteq> Ended pid" "\<And>p. moves same_shell (child p)"
  shows "\<exists>t. shell_step line child ev s = Inr ((), t) \<and> still_waits pid s t"
proof (cases ev)
  case (Typed l)
  with assms(1) have "shell_step line child ev s = Inr ((), s)"
    by (simp add: shell_step_def bnd_def getting_def when_op_def retn_def)
  moreover have "still_waits pid s s" using assms(1) by (simp add: still_waits_def)
  ultimately show ?thesis by blast
next
  case (Ended q)
  with assms(2) have q: "q \<noteq> pid" by simp
  show ?thesis
  proof (cases "map_of (jobs s) q")
    case None
    with Ended have "shell_step line child ev s = Inr ((), s)"
      by (simp add: shell_step_def end_job_def setting_def)
    moreover have "still_waits pid s s" using assms(1) by (simp add: still_waits_def)
    ultimately show ?thesis by blast
  next
    case (Some p)
    obtain s1 where s1: "s1 = (case child p (s\<lparr>cwd := pl_cwd p\<rparr>) of Inl e \<Rightarrow> s | Inr (u, t) \<Rightarrow> t\<lparr>cwd := cwd s\<rparr>)"
      by simp
    have same: "mode s1 = mode s" "next_pid s1 = next_pid s" "jobs s1 = jobs s" "cwd s1 = cwd s"
      using movesD [OF assms(3), of p "s\<lparr>cwd := pl_cwd p\<rparr>"]
      by (auto simp: s1 same_shell_def split: sum.splits)
    let ?t = "s1\<lparr>jobs := filter (\<lambda>j. fst j \<noteq> q) (jobs s1), ended := ended s1 @ [q]\<rparr>"
    have "end_job child q s = Inr ((), ?t)"
      using same(1) assms(1) q by (simp add: end_job_def setting_def Some s1 [symmetric] Let_def)
    then have "shell_step line child ev s = Inr ((), ?t)" using Ended by (simp add: shell_step_def)
    moreover have "still_waits pid s ?t"
      using same assms(1) q by (auto simp: still_waits_def)
    ultimately show ?thesis by blast
  qed
qed

lemma run_waits:
  assumes "\<And>p. moves same_shell (child p)" and "mode s = Wait_For pid" "Ended pid \<notin> set evs"
  shows "\<exists>t. each (shell_step line child) evs s = Inr ((), t) \<and> still_waits pid s t"
  using assms(2,3)
proof (induction evs arbitrary: s)
  case Nil
  then show ?case by (simp add: retn_def still_waits_def)
next
  case (Cons ev evs)
  then have "ev \<noteq> Ended pid" by auto
  from step_waits [where child = child, OF Cons.prems(1) this assms(1), of line] obtain t where
    t: "shell_step line child ev s = Inr ((), t)" "still_waits pid s t" by blast
  from Cons.prems(2) have "Ended pid \<notin> set evs" by simp
  from Cons.IH [OF still_waits_mode [OF t(2)] this] obtain u where
    u: "each (shell_step line child) evs t = Inr ((), u)" "still_waits pid t u" by blast
  from t(1) u(1) have "each (shell_step line child) (ev # evs) s = Inr ((), u)" by (simp add: bnd_def)
  with still_waits_trans [OF t(2) u(2)] show ?case by blast
qed

end
