(* ===== verification/Shell_Runs.thy ===== *)
theory Shell_Runs
  imports Shell_Facts
begin

text \<open>
  Lines from the keyboard to the file or the screen: redirections, pipes, and lines of blanks, in
  the three shells.
\<close>

section \<open>A line becomes a plan\<close>

lemma spaced_inj: "wordy ws \<Longrightarrow> wordy vs \<Longrightarrow> spaced ws = spaced vs \<Longrightarrow> ws = vs"
  using wordy_fit(2) by metis

lemma exit_words:
  assumes "wordy ws" "1 < length ws"
  shows "spaced ws \<noteq> ''exit''" "spaced ws \<noteq> ''logout''"
proof -
  have "wordy [''exit'']" "wordy [''logout'']" by (simp_all add: wordy_def is_sep_def newline_def)
  with spaced_inj [OF assms(1)] assms(2) show "spaced ws \<noteq> ''exit''" "spaced ws \<noteq> ''logout''"
    by fastforce+
qed

lemma hu_typed:
  assumes "shell_tishi env (cwd s) = Inr pr" "wordy ws" "length (spaced ws) < 255"
    and "spaced ws \<noteq> ''exit''" "spaced ws \<noteq> ''logout''"
  shows "hu_line env (Some (spaced ws)) s = hu_do_cmd env ws s"
proof -
  have "ws \<noteq> []" "hd ws \<noteq> []" using assms(2) by (auto simp: wordy_def)
  with assms get_mingling_spaced [OF assms(2)] show ?thesis
    by (simp add: hu_line_def bnd_def getting_def lifted_def strcpy_def fits_def my_shell_input_def)
qed

lemma liu_typed:
  assumes "wordy ws" "length (spaced ws) < 255" "spaced ws \<noteq> ''exit''" "spaced ws \<noteq> ''logout''"
  shows "liu_line env (Some (spaced ws)) s = liu_do_cmd env ws s"
proof -
  have "ws \<noteq> []" "last ws \<noteq> []" using assms(1) by (auto simp: wordy_def)
  then have "spaced ws \<noteq> []" using spaced_last by blast
  with assms liu_explain_spaced [OF assms(1)] show ?thesis
    by (simp add: liu_line_def bnd_def lifted_def strcpy_def fits_def)
qed

lemma wu_typed:
  assumes "wordy ws" "spaced ws \<noteq> ''exit''" "spaced ws \<noteq> ''logout''"
  shows "wu_line env (Some (spaced ws)) s = wu_do_cmd env ws s"
proof -
  have "ws \<noteq> []" "last ws \<noteq> []" using assms(1) by (auto simp: wordy_def)
  then have "spaced ws \<noteq> []" using spaced_last by blast
  with assms wu_explain_spaced [OF assms(1)] show ?thesis
    by (simp add: wu_line_def bnd_def lifted_def)
qed

text \<open>The state behind a fork.\<close>

definition forked :: "plan \<Rightarrow> shell \<Rightarrow> shell" where
  "forked p s = s\<lparr>jobs := jobs s @ [(next_pid s, p\<lparr>pl_cwd := cwd s\<rparr>)], next_pid := Suc (next_pid s)\<rparr>"

definition no_amp :: "string list \<Rightarrow> bool" where
  "no_amp ws \<longleftrightarrow> ws \<noteq> [] \<and> (\<forall>w \<in> set ws. w \<noteq> [] \<and> take 1 w \<noteq> ''&'') \<and> take 2 (hd ws) \<noteq> ''cd''"

lemma no_ampD:
  assumes "no_amp ws"
  shows "background_mark ws = Some False" "liu_background ws = Some False"
    "arg_is (to_argv ws) 0 ''cd'' = Inr False" "begins_with_cd (to_argv ws) = Inr False"
    "cut_empty (to_argv ws) = to_argv ws" "drop_mark False ws = to_argv ws"
proof -
  from assms obtain w vs where ws: "ws = w # vs" "take 2 w \<noteq> ''cd''" by (cases ws) (auto simp: no_amp_def)
  then have "w \<noteq> ''cd''" by auto
  with ws show "arg_is (to_argv ws) 0 ''cd'' = Inr False" "begins_with_cd (to_argv ws) = Inr False"
    by (simp_all add: arg_is_def to_argv_def begins_with_cd_def)
qed (use assms in \<open>auto simp: no_amp_def parse_plain to_argv_def drop_mark_def\<close>)

lemma hu_forks:
  assumes "no_amp ws" "operators True 0 (to_argv ws) (0, NORMAL) = (n, k)" "n \<le> 1"
  shows "hu_do_cmd env ws s = wait_any (forked (hu_plan k ws (to_argv ws)) s)"
  using assms
  by (simp add: hu_do_cmd_def no_ampD bnd_def lifted_def fork_job_def forked_def Let_def)

lemma wu_forks:
  assumes "no_amp ws" "operators False 0 (to_argv ws) (0, NORMAL) = (n, k)" "n \<le> 1"
    and "say_pipes (to_argv ws) s = Inr ((), t)"
  shows "wu_do_cmd env ws s = wait_for (next_pid t) (forked (wu_plan k (to_argv ws)) t)"
  using assms
  by (simp add: wu_do_cmd_def no_ampD bnd_def lifted_def fork_job_def forked_def Let_def)

lemma liu_forks:
  assumes "no_amp ws" "liu_plan (to_argv ws) = Some (p, arg)" "arg_is arg 0 ''cd'' = Inr False"
  shows "liu_do_cmd env ws s = wait_for (next_pid s) (forked p s)"
  using assms
  by (simp add: liu_do_cmd_def no_ampD bnd_def lifted_def fork_job_def forked_def Let_def)

text \<open>From the prompt, with no other children, to the prompt again.\<close>

lemma one_command:
  assumes "line (Some l) s = Inr ((), u)" "mode s = Prompt"
    and "jobs u = [(pid, p)]" "mode u = Wait_Any \<or> mode u = Wait_For pid" "cwd u = pl_cwd p"
    and "child p u = Inr ((), t)" "same_shell u t"
  shows "each (shell_step line child) [Typed (Some l), Ended pid] s = Inr ((), t\<lparr>jobs := [], mode := Prompt\<rparr>)"
proof -
  have u: "u\<lparr>cwd := pl_cwd p\<rparr> = u" and t: "t\<lparr>cwd := cwd u\<rparr> = t"
    using assms(5,7) by (simp_all add: same_shell_def)
  have "child p (u\<lparr>cwd := pl_cwd p\<rparr>) = Inr ((), t)" unfolding u by (rule assms(6))
  moreover have "jobs t = [(pid, p)]" "mode t = mode u" using assms(3,7) by (simp_all add: same_shell_def)
  ultimately have "end_job child pid u = Inr ((), t\<lparr>jobs := [], mode := Prompt\<rparr>)"
    using assms(3,4) t by (simp add: end_job_def setting_def Let_def)
  with assms(1,2) show ?thesis
    by (simp add: shell_step_def bnd_def getting_def when_op_def retn_def)
qed

section \<open>What becomes of a command line\<close>

text \<open>A shell at its prompt, without other children.\<close>

definition at_prompt :: "shell \<Rightarrow> bool" where
  "at_prompt s \<longleftrightarrow> mode s = Prompt \<and> jobs s = [] \<and> ended s = []"

lemma forked_simps [simp]:
  "cwd (forked p s) = cwd s" "disk (forked p s) = disk s" "mode (forked p s) = mode s"
  "jobs (forked p s) = jobs s @ [(next_pid s, p\<lparr>pl_cwd := cwd s\<rparr>)]" "ended (forked p s) = ended s"
  "screen (forked p s) = screen s"
  by (simp_all add: forked_def)

text \<open>The state in which the child of a command \<open>p\<close> starts.\<close>

definition waiting :: "mode \<Rightarrow> plan \<Rightarrow> shell \<Rightarrow> shell" where
  "waiting m p s = (forked p s)\<lparr>mode := m\<rparr>"

lemma waits:
  "at_prompt s \<Longrightarrow> wait_any (forked p s) = Inr ((), waiting Wait_Any p s)"
  "wait_for pid (forked p s) = Inr ((), waiting (Wait_For pid) p s)"
  by (simp_all add: wait_any_def wait_for_def waiting_def setting_def at_prompt_def)

text \<open>The child changes the file system or the screen, and the shell is at its prompt again.\<close>

lemma one_child:
  assumes "at_prompt s" "line (Some l) s = Inr ((), waiting m p s)"
    and "m = Wait_Any \<or> m = Wait_For (next_pid s)"
    and "child (p\<lparr>pl_cwd := cwd s\<rparr>) (waiting m p s) = Inr ((), (waiting m p s)\<lparr>disk := d, screen := sc\<rparr>)"
  shows "each (shell_step line child) [Typed (Some l), Ended (next_pid s)] s =
    Inr ((), s\<lparr>disk := d, screen := sc, next_pid := Suc (next_pid s)\<rparr>)"
proof -
  let ?u = "waiting m p s" and ?t = "(waiting m p s)\<lparr>disk := d, screen := sc\<rparr>"
  have "each (shell_step line child) [Typed (Some l), Ended (next_pid s)] s
      = Inr ((), ?t\<lparr>jobs := [], mode := Prompt\<rparr>)"
    by (rule one_command [where u = ?u and p = "p\<lparr>pl_cwd := cwd s\<rparr>"])
      (use assms in \<open>auto simp: waiting_def at_prompt_def same_shell_def\<close>)
  moreover have "?t\<lparr>jobs := [], mode := Prompt\<rparr> = s\<lparr>disk := d, screen := sc, next_pid := Suc (next_pid s)\<rparr>"
    using assms(1) by (simp add: waiting_def forked_def at_prompt_def)
  ultimately show ?thesis by simp
qed

text \<open>
  \<open>ws\<close> prints \<open>out\<close> when it reads \<open>inp\<close>, and the shell that looks in \<open>dirs\<close> finds it.
\<close>

definition command :: "'e shell_env_scheme \<Rightarrow> string list \<Rightarrow> string \<Rightarrow> string list \<Rightarrow> stdin \<Rightarrow> string \<Rightarrow> bool" where
  "command env dirs here ws inp out \<longleftrightarrow> find_in env here dirs (after_dot_slash (hd ws)) = Inr True
     \<and> runs env here ws inp = Some out"

lemma found:
  assumes "command env dirs (cwd s) ws inp out" "ws \<noteq> []"
  shows "find_first_arg env dirs ws s = Inr (True, s)" "if_found env dirs ws m s = m s"
    "exec_run env ws inp to s = bnd (emit to out) (\<lambda>_. retn True) s"
  using assms
  by (auto simp: command_def find_first_arg_def if_found_def exec_run_def op_simps bnd_def neq_Nil_conv)

text \<open>The contents of a file, empty when there is none.\<close>

definition contents :: "'x world_scheme \<Rightarrow> string \<Rightarrow> string" where
  "contents s path = (case disk s path of None \<Rightarrow> [] | Some old \<Rightarrow> old)"

lemma say_pipes_none: "\<forall>w \<in> set ws. w \<noteq> ''|'' \<Longrightarrow> w1 \<noteq> ''|'' \<Longrightarrow> w2 \<noteq> ''|'' \<Longrightarrow>
    say_pipes (map Some ws @ [Some w1, Some w2, None]) s = Inr ((), s)"
  unfolding say_pipes_def by (induction ws) (simp_all add: op_simps)

section \<open>Redirections\<close>

definition out_line :: "string list \<Rightarrow> string \<Rightarrow> string list" where
  "out_line ws f = ws @ [''>'', f]"

lemma out_argv: "to_argv (out_line ws f) = map Some ws @ [Some ''>'', Some f, None]"
  by (simp add: to_argv_def out_line_def)

definition all_plain :: "string list \<Rightarrow> bool" where
  "all_plain ws \<longleftrightarrow> ws \<noteq> [] \<and> (\<forall>w \<in> set ws. plain_word w) \<and> take 2 (hd ws) \<noteq> ''cd''"

lemma all_plainD:
  assumes "all_plain ws"
  shows "\<forall>w \<in> set ws. plain_word w" "\<forall>w \<in> set ws. w \<noteq> ''>''" "\<forall>w \<in> set ws. w \<noteq> ''>>''"
    "\<forall>w \<in> set ws. w \<noteq> ''<''" "\<forall>w \<in> set ws. w \<noteq> ''|''" "ws \<noteq> []" "\<forall>w \<in> set ws. take 1 w \<noteq> ''&''"
  using assms unfolding all_plain_def plain_word_def by blast+

lemma out_no_amp: "all_plain ws \<Longrightarrow> plain_word f \<Longrightarrow> no_amp (out_line ws f)"
  unfolding no_amp_def out_line_def all_plain_def plain_word_def by auto

lemma out_operators:
  assumes "all_plain ws" "plain_word f"
  shows "operators strict 0 (to_argv (out_line ws f)) (0, NORMAL) = (1, OUT_REDIRECT)"
  using assms unfolding out_argv
  by (simp add: operators_plain [OF all_plainD(1)] plain_word_def Let_def)

lemma out_plans:
  assumes "all_plain ws" "plain_word f"
  defines "p \<equiv> \<lparr>pl_how = OUT_REDIRECT, pl_arg = ws, pl_next = [], pl_file = Some f,
    pl_room = length ws + 3, pl_cwd = []\<rparr>"
  shows "hu_plan OUT_REDIRECT ws' (to_argv (out_line ws f)) = p"
    "wu_plan OUT_REDIRECT (to_argv (out_line ws f)) = p"
    "liu_plan (to_argv (out_line ws f)) = Some (p, map Some ws @ [None, Some f, None])"
  using assms unfolding out_argv
  by (simp_all add: hu_plan_def wu_plan_def liu_plan_def cut_file_plain all_plainD plain_word_def p_def
      liu_cut_plain liu_pipe_plain Let_def)

lemma contents_emit:
  "emit (Into path 0) out s = Inr ((), s\<lparr>disk := (disk s)(path \<mapsto> out @ drop (length out) (contents s path))\<rparr>)"
  by (simp add: emit_def setting_def write_at_def contents_def)

text \<open>\<open>ws > f\<close> typed at the prompt: the words, the name of the file, and a program that prints \<open>out\<close>.\<close>

definition redirects :: "'e shell_env_scheme \<Rightarrow> shell \<Rightarrow> string list \<Rightarrow> string \<Rightarrow> string \<Rightarrow> bool" where
  "redirects env s ws f out \<longleftrightarrow> at_prompt s \<and> all_plain ws \<and> plain_word f \<and> wordy (out_line ws f)
     \<and> length (spaced (out_line ws f)) < 255 \<and> allowed env (full_path env (cwd s) f)
     \<and> (\<forall>dirs \<in> {hu_dirs, liu_dirs, wu_dirs}. command env dirs (cwd s) ws Terminal out)"

lemma redirectsD:
  assumes "redirects env s ws f out"
  shows "at_prompt s" "wordy (out_line ws f)" "length (spaced (out_line ws f)) < 255"
    "allowed env (full_path env (cwd s) f)" "ws \<noteq> []" "all_plain ws" "plain_word f"
    "spaced (out_line ws f) \<noteq> ''exit''" "spaced (out_line ws f) \<noteq> ''logout''"
    "command env hu_dirs (cwd s) ws Terminal out" "command env liu_dirs (cwd s) ws Terminal out"
    "command env wu_dirs (cwd s) ws Terminal out"
proof -
  have "1 < length (out_line ws f)" by (simp add: out_line_def)
  with assms exit_words show "spaced (out_line ws f) \<noteq> ''exit''" "spaced (out_line ws f) \<noteq> ''logout''"
    unfolding redirects_def by blast+
qed (use assms in \<open>auto simp: redirects_def all_plain_def\<close>)

text \<open>The file that the child opens, and what it is then.\<close>

lemma opened:
  assumes "allowed env (full_path env (cwd s) f)"
  shows "open_file env True False (Some f) s =
      Inr (Some (full_path env (cwd s) f, contents s (full_path env (cwd s) f)),
        s\<lparr>disk := (disk s)(full_path env (cwd s) f \<mapsto> contents s (full_path env (cwd s) f))\<rparr>)"
    "open_file env True True (Some f) s =
      Inr (Some (full_path env (cwd s) f, []), s\<lparr>disk := (disk s)(full_path env (cwd s) f \<mapsto> [])\<rparr>)"
  using assms by (auto simp: open_file_def contents_def Let_def fun_upd_idem split: option.splits)

text \<open>The children of \<open>ws > f\<close>.\<close>

lemma hu_out_child:
  assumes "pl_how p = OUT_REDIRECT" "pl_arg p = ws" "pl_file p = Some f" "ws \<noteq> []"
    and "command env hu_dirs (cwd s) ws Terminal out" "allowed env (full_path env (cwd s) f)"
  defines "path \<equiv> full_path env (cwd s) f"
  shows "hu_child env p s = Inr ((), s\<lparr>disk := (disk s)(path \<mapsto> out @ drop (length out) (contents s path))\<rparr>)"
proof -
  let ?s1 = "s\<lparr>disk := (disk s)(path \<mapsto> contents s path)\<rparr>"
  have "open_file env True False (Some f) s = Inr (Some (path, contents s path), ?s1)"
    using opened(1) [OF assms(6)] by (simp add: path_def)
  moreover have "exec_run env ws Terminal (Into path 0) ?s1
      = Inr (True, s\<lparr>disk := (disk s)(path \<mapsto> out @ drop (length out) (contents s path))\<rparr>)"
    using found(3) [of env hu_dirs ?s1 ws Terminal out "Into path 0"] assms(4,5)
    by (simp add: contents_emit bnd_def retn_def) (simp add: contents_def)
  ultimately show ?thesis
    by (simp add: hu_child_def assms(1-3) found(2) [OF assms(5,4)] exec_or_say_def bnd_def op_simps)
qed

lemma emptied_child:
  fixes s :: shell
  assumes "ws \<noteq> []" "command env dirs (cwd s) ws Terminal out" "allowed env (full_path env (cwd s) f)"
  defines "path \<equiv> full_path env (cwd s) f"
  shows "bnd (open_file env True True (Some f)) (\<lambda>g.
      bnd (exec_run env ws Terminal (case g of None \<Rightarrow> To_Screen | Some (path, old) \<Rightarrow> Into path 0)) (\<lambda>_. retn ())) s
    = Inr ((), s\<lparr>disk := (disk s)(path \<mapsto> out)\<rparr>)"
proof -
  let ?s1 = "s\<lparr>disk := (disk s)(path \<mapsto> [])\<rparr>"
  have "open_file env True True (Some f) s = Inr (Some (path, []), ?s1)"
    using opened(2) [OF assms(3)] by (simp add: path_def)
  moreover have "exec_run env ws Terminal (Into path 0) ?s1 = Inr (True, s\<lparr>disk := (disk s)(path \<mapsto> out)\<rparr>)"
    using found(3) [of env dirs ?s1 ws Terminal out "Into path 0"] assms(1,2)
    by (simp add: contents_emit bnd_def retn_def) (simp add: contents_def)
  ultimately show ?thesis by (simp add: bnd_def op_simps)
qed

lemma liu_out_child:
  assumes "pl_how p = OUT_REDIRECT" "pl_arg p = ws" "pl_file p = Some f" "ws \<noteq> []"
    and "command env liu_dirs (cwd s) ws Terminal out" "allowed env (full_path env (cwd s) f)"
  shows "liu_child env p s = Inr ((), s\<lparr>disk := (disk s)(full_path env (cwd s) f \<mapsto> out)\<rparr>)"
proof -
  have "say_not_found env ws s = Inr ((), s)"
    using found(1) [OF assms(5,4)] by (simp add: say_not_found_def bnd_def op_simps)
  with emptied_child [OF assms(4-6)] show ?thesis
    by (simp add: liu_child_def assms(1-3) just_exec_def bnd_simps(1))
qed

lemma wu_out_child:
  assumes "pl_how p = OUT_REDIRECT" "pl_arg p = ws" "pl_file p = Some f" "ws \<noteq> []"
    and "command env wu_dirs (cwd s) ws Terminal out" "allowed env (full_path env (cwd s) f)"
  shows "wu_child env p s = Inr ((), s\<lparr>disk := (disk s)(full_path env (cwd s) f \<mapsto> out)\<rparr>)"
  using emptied_child [OF assms(4-6)]
  by (simp add: wu_child_def assms(1-3) wu_exec_def found(2) [OF assms(5,4)])

definition file_plan :: "string list \<Rightarrow> string \<Rightarrow> plan" where
  "file_plan ws f = \<lparr>pl_how = OUT_REDIRECT, pl_arg = ws, pl_next = [], pl_file = Some f,
    pl_room = length ws + 3, pl_cwd = []\<rparr>"

lemma file_plan_simps [simp]:
  "pl_how (file_plan ws f) = OUT_REDIRECT" "pl_arg (file_plan ws f) = ws" "pl_file (file_plan ws f) = Some f"
  by (simp_all add: file_plan_def)

lemma waiting_simps [simp]:
  "cwd (waiting m p s) = cwd s" "disk (waiting m p s) = disk s" "screen (waiting m p s) = screen s"
  "contents (waiting m p s) = contents s"
  by (simp_all add: waiting_def contents_def fun_eq_iff)

lemma same_screen: "sc = screen u \<Longrightarrow> u\<lparr>disk := d, screen := sc\<rparr> = u\<lparr>disk := d\<rparr>" for u :: shell
  by simp

lemma hu_redirects:
  assumes "redirects env s ws f out" "shell_tishi env (cwd s) = Inr pr"
  defines "path \<equiv> full_path env (cwd s) f"
  shows "hu_main env [Typed (Some (spaced (out_line ws f))), Ended (next_pid s)] s =
    Inr ((), s\<lparr>disk := (disk s)(path \<mapsto> out @ drop (length out) (contents s path)), next_pid := Suc (next_pid s)\<rparr>)"
proof -
  note r = redirectsD [OF assms(1)]
  let ?p = "file_plan ws f" and ?u = "waiting Wait_Any (file_plan ws f) s"
  have line: "hu_line env (Some (spaced (out_line ws f))) s = Inr ((), ?u)"
    using hu_typed [OF assms(2) r(2,3,8,9)] hu_forks [OF out_no_amp [OF r(6,7)] out_operators [OF r(6,7)], of env s]
      out_plans(1) [OF r(6,7)] waits(1) [OF r(1)] by (simp add: file_plan_def)
  have "hu_child env (?p\<lparr>pl_cwd := cwd s\<rparr>) ?u = Inr ((), ?u\<lparr>disk := (disk s)(path \<mapsto>
      out @ drop (length out) (contents s path)), screen := screen s\<rparr>)"
    using hu_out_child [of "?p\<lparr>pl_cwd := cwd s\<rparr>" ws f env ?u out] r(4,5,10) by (simp add: path_def)
  from one_child [where line = "hu_line env" and child = "hu_child env", OF r(1) line _ this]
  show ?thesis by (simp add: hu_main_def)
qed

lemma liu_redirects:
  assumes "redirects env s ws f out"
  shows "liu_main env [Typed (Some (spaced (out_line ws f))), Ended (next_pid s)] s =
    Inr ((), s\<lparr>disk := (disk s)(full_path env (cwd s) f \<mapsto> out), next_pid := Suc (next_pid s)\<rparr>)"
proof -
  note r = redirectsD [OF assms(1)]
  let ?p = "file_plan ws f" and ?u = "waiting (Wait_For (next_pid s)) (file_plan ws f) s"
  from r(6) have "arg_is (map Some ws @ [None, Some f, None]) 0 ''cd'' = Inr False"
    by (cases ws) (auto simp: all_plain_def arg_is_def)
  then have line: "liu_line env (Some (spaced (out_line ws f))) s = Inr ((), ?u)"
    using liu_typed [OF r(2,3,8,9), of env s] waits(2)
      liu_forks [OF out_no_amp [OF r(6,7)] out_plans(3) [OF r(6,7)], of env s] by (simp add: file_plan_def)
  have "liu_child env (?p\<lparr>pl_cwd := cwd s\<rparr>) ?u
      = Inr ((), ?u\<lparr>disk := (disk s)(full_path env (cwd s) f \<mapsto> out), screen := screen s\<rparr>)"
    using liu_out_child [of "?p\<lparr>pl_cwd := cwd s\<rparr>" ws f env ?u out] r(4,5,11) by simp
  from one_child [where line = "liu_line env" and child = "liu_child env", OF r(1) line _ this]
  show ?thesis by (simp add: liu_main_def)
qed

lemma wu_redirects:
  assumes "redirects env s ws f out"
  shows "wu_main env [Typed (Some (spaced (out_line ws f))), Ended (next_pid s)] s =
    Inr ((), s\<lparr>disk := (disk s)(full_path env (cwd s) f \<mapsto> out), next_pid := Suc (next_pid s)\<rparr>)"
proof -
  note r = redirectsD [OF assms(1)]
  let ?p = "file_plan ws f" and ?u = "waiting (Wait_For (next_pid s)) (file_plan ws f) s"
  have "say_pipes (to_argv (out_line ws f)) s = Inr ((), s)"
    using all_plainD(5) [OF r(6)] r(7) by (simp add: out_argv say_pipes_none plain_word_def)
  from wu_forks [OF out_no_amp [OF r(6,7)] out_operators [OF r(6,7)] _ this, of env]
  have line: "wu_line env (Some (spaced (out_line ws f))) s = Inr ((), ?u)"
    using wu_typed [OF r(2,8,9), of env s] out_plans(2) [OF r(6,7)] waits(2) by (simp add: file_plan_def)
  have "wu_child env (?p\<lparr>pl_cwd := cwd s\<rparr>) ?u
      = Inr ((), ?u\<lparr>disk := (disk s)(full_path env (cwd s) f \<mapsto> out), screen := screen s\<rparr>)"
    using wu_out_child [of "?p\<lparr>pl_cwd := cwd s\<rparr>" ws f env ?u out] r(4,5,12) by simp
  from one_child [where line = "wu_line env" and child = "wu_child env", OF r(1) line _ this]
  show ?thesis by (simp add: wu_main_def)
qed

end
