(* ===== verification/Shell_Pipes.thy ===== *)
theory Shell_Pipes
  imports Shell_Runs
begin

text \<open>
  Two commands with a pipe between them, from the keyboard to the screen, in the three shells.
\<close>

section \<open>The plan of a pipe\<close>

definition pipe_line :: "string list \<Rightarrow> string list \<Rightarrow> string list" where
  "pipe_line ws vs = ws @ ''|'' # vs"

definition pipe_plan :: "string list \<Rightarrow> string list \<Rightarrow> plan" where
  "pipe_plan ws vs = \<lparr>pl_how = HAVE_PIPE, pl_arg = ws, pl_next = vs, pl_file = None,
    pl_room = length ws + length vs + 2, pl_cwd = []\<rparr>"

lemma pipe_plan_simps [simp]:
  "pl_how (pipe_plan ws vs) = HAVE_PIPE" "pl_arg (pipe_plan ws vs) = ws" "pl_next (pipe_plan ws vs) = vs"
  "pl_room (pipe_plan ws vs) = length ws + length vs + 2"
  by (simp_all add: pipe_plan_def)

lemma pipe_argv: "to_argv (pipe_line ws vs) = map Some ws @ Some ''|'' # map Some vs @ [None]"
  by (simp add: to_argv_def pipe_line_def)

lemma pipe_no_amp: "all_plain ws \<Longrightarrow> all_plain vs \<Longrightarrow> no_amp (pipe_line ws vs)"
  unfolding no_amp_def pipe_line_def all_plain_def plain_word_def by auto

lemma pipe_operators:
  assumes "all_plain ws" "all_plain vs"
  shows "operators strict 0 (to_argv (pipe_line ws vs)) (0, NORMAL) = (1, HAVE_PIPE)"
proof -
  have "ws \<noteq> []" "vs \<noteq> []" using assms by (simp_all add: all_plainD)
  then show ?thesis unfolding pipe_argv
    by (simp add: operators_plain [OF all_plainD(1)] assms list.map_sel(1) Let_def
        operators_plain [OF all_plainD(1) [OF assms(2)], of _ _ "[None]"])
qed

lemma pipe_plans:
  assumes "all_plain ws" "all_plain vs"
  shows "hu_plan HAVE_PIPE ws' (to_argv (pipe_line ws vs)) = pipe_plan ws vs"
    "wu_plan HAVE_PIPE (to_argv (pipe_line ws vs)) = pipe_plan ws vs"
    "liu_plan (to_argv (pipe_line ws vs)) = Some (pipe_plan ws vs, map Some ws @ None # map Some vs @ [None])"
proof -
  have ne: "vs \<noteq> []" using assms by (simp add: all_plainD)
  note p = cut_file_plain cut_pipe_plain [OF all_plainD(5) [OF assms(1)]] hd_append ne list.map_sel(1) [OF ne]
    liu_cut_plain [OF all_plainD(2) [OF assms(1)]] liu_cut_plain [OF all_plainD(3) [OF assms(1)]]
    liu_cut_plain [OF all_plainD(4) [OF assms(1)]] liu_pipe_plain [OF all_plainD(5) [OF assms(1)]]
    liu_cut_plain [OF all_plainD(2) [OF assms(2)]] liu_cut_plain [OF all_plainD(3) [OF assms(2)]]
    liu_cut_plain [OF all_plainD(4) [OF assms(2)]]
  show "hu_plan HAVE_PIPE ws' (to_argv (pipe_line ws vs)) = pipe_plan ws vs"
    "wu_plan HAVE_PIPE (to_argv (pipe_line ws vs)) = pipe_plan ws vs"
    unfolding pipe_argv by (simp_all add: hu_plan_def wu_plan_def pipe_plan_def p Let_def)
  show "liu_plan (to_argv (pipe_line ws vs)) = Some (pipe_plan ws vs, map Some ws @ None # map Some vs @ [None])"
    unfolding pipe_argv by (simp add: liu_plan_def pipe_plan_def p)
qed

section \<open>The two processes\<close>

text \<open>
  \<open>ws | vs\<close> at the prompt: \<open>ws\<close>, reading \<open>inp\<close>, prints \<open>mid\<close>, and \<open>vs\<close>, reading \<open>passed\<close>, prints \<open>out\<close>.
\<close>

definition pipes ::
  "'e shell_env_scheme \<Rightarrow> string list \<Rightarrow> shell \<Rightarrow> string list \<Rightarrow> string list \<Rightarrow> stdin \<Rightarrow> string \<Rightarrow> string \<Rightarrow> string \<Rightarrow> bool"
where
  "pipes env dirs s ws vs inp mid passed out \<longleftrightarrow> at_prompt s \<and> all_plain ws \<and> all_plain vs
     \<and> wordy (pipe_line ws vs) \<and> length (spaced (pipe_line ws vs)) < 255
     \<and> command env dirs (cwd s) ws inp mid \<and> command env dirs (cwd s) vs (Bytes passed) out"

lemma pipesD:
  assumes "pipes env dirs s ws vs inp mid passed out"
  shows "at_prompt s" "wordy (pipe_line ws vs)" "length (spaced (pipe_line ws vs)) < 255"
    "ws \<noteq> []" "vs \<noteq> []" "all_plain ws" "all_plain vs"
    "spaced (pipe_line ws vs) \<noteq> ''exit''" "spaced (pipe_line ws vs) \<noteq> ''logout''"
    "command env dirs (cwd s) ws inp mid" "command env dirs (cwd s) vs (Bytes passed) out"
proof -
  have ne: "ws \<noteq> []" "vs \<noteq> []" using assms by (simp_all add: pipes_def all_plain_def)
  then have "1 < length (pipe_line ws vs)" by (simp add: pipe_line_def)
  with assms exit_words show "spaced (pipe_line ws vs) \<noteq> ''exit''" "spaced (pipe_line ws vs) \<noteq> ''logout''"
    unfolding pipes_def by blast+
qed (use assms in \<open>auto simp: pipes_def all_plain_def\<close>)

lemma emit_screen: "emit To_Screen out s = Inr ((), s\<lparr>screen := screen s @ [Printed out]\<rparr>)"
  by (simp add: emit_def setting_def)

lemma hu_pipe_child:
  assumes "ws \<noteq> []" "vs \<noteq> []" "command env hu_dirs (cwd u) ws Terminal mid"
    and "command env hu_dirs (cwd u) vs (Bytes mid) out"
  shows "hu_child env ((pipe_plan ws vs)\<lparr>pl_cwd := d\<rparr>) u = Inr ((), u\<lparr>screen := screen u @ [Printed out]\<rparr>)"
proof -
  have "pipe_left env hu_dirs ws u = Inr (mid, u)"
    using found(1) [OF assms(3,1)] assms(3) by (simp add: pipe_left_def command_def)
  then show ?thesis
    using found(2,3) [OF assms(4,2)] by (simp add: hu_child_def bnd_def emit_screen op_simps)
qed

text \<open>The file through which the other two shells pass the text on.\<close>

lemma read_back:
  assumes "allowed env (full_path env (cwd u) f)" "disk u (full_path env (cwd u) f) = Some old"
  shows "open_file env False False (Some f) u = Inr (Some (full_path env (cwd u) f, old), u)"
  using assms by (simp add: open_file_def Let_def)

lemma wu_pipe_child:
  fixes u :: shell
  assumes "ws \<noteq> []" "vs \<noteq> []" "command env wu_dirs (cwd u) ws Not_Readable mid"
    and "command env wu_dirs (cwd u) vs (Bytes mid) out" "allowed env (full_path env (cwd u) wu_transfer)"
  shows "wu_child env ((pipe_plan ws vs)\<lparr>pl_cwd := d\<rparr>) u =
    Inr ((), u\<lparr>disk := (disk u)(full_path env (cwd u) wu_transfer \<mapsto> mid), screen := screen u @ [Printed out]\<rparr>)"
proof -
  let ?f = "full_path env (cwd u) wu_transfer"
  let ?u0 = "u\<lparr>disk := (disk u)(?f \<mapsto> [])\<rparr>" and ?u1 = "u\<lparr>disk := (disk u)(?f \<mapsto> mid)\<rparr>"
  have "exec_run env ws Not_Readable (Into ?f 0) ?u0 = Inr (True, ?u1)"
    using found(3) [of env wu_dirs ?u0 ws Not_Readable mid "Into ?f 0"] assms(1,3)
    by (simp add: contents_emit bnd_def retn_def) (simp add: contents_def)
  then have left: "wu_pipe_left env ((pipe_plan ws vs)\<lparr>pl_cwd := d\<rparr>) u = Inr ((), ?u1)"
    using opened(2) [OF assms(5)]
    by (simp add: wu_pipe_left_def found(2) [OF assms(3,1)] bnd_def wu_exec_def retn_def)
  have "open_file env False False (Some wu_transfer) ?u1 = Inr (Some (?f, mid), ?u1)"
    using read_back [of env ?u1 wu_transfer mid] assms(5) by simp
  moreover have "exec_run env vs (Bytes mid) To_Screen ?u1
      = Inr (True, ?u1\<lparr>screen := screen u @ [Printed out]\<rparr>)"
    using found(3) [of env wu_dirs ?u1 vs "Bytes mid" out To_Screen] assms(2,4)
    by (simp add: emit_screen bnd_def retn_def)
  moreover have "command env wu_dirs (cwd ?u1) ws Not_Readable mid" using assms(3) by simp
  ultimately show ?thesis
    by (simp add: wu_child_def bnd_def outlives_def left found(2) [OF _ assms(1)] op_simps)
qed

text \<open>What the first process of liuting's shell leaves in its file, which held \<open>old\<close>.\<close>

definition passed_on :: "liu_env \<Rightarrow> string list \<Rightarrow> string \<Rightarrow> string \<Rightarrow> string" where
  "passed_on env ws mid old =
     (let t = (if flushed env then ''aegv:'' @ hd ws @ [newline] else []) @ mid in t @ drop (length t) old)"

lemma liu_pipe_child:
  fixes u :: shell and env :: liu_env and ws :: "string list" and mid :: string
  defines "f \<equiv> full_path env (cwd u) transfer_file"
  defines "text \<equiv> passed_on env ws mid (contents u f)"
  assumes "ws \<noteq> []" "vs \<noteq> []" "command env liu_dirs (cwd u) ws Terminal mid"
    and "command env liu_dirs (cwd u) vs (Bytes text) out" "allowed env f"
    and "stack_args env (length vs) = None"
  shows "liu_child env ((pipe_plan ws vs)\<lparr>pl_cwd := d\<rparr>) u =
    Inr ((), u\<lparr>disk := (disk u)(f \<mapsto> text), screen := screen u @ [Printed out]\<rparr>)"
proof -
  obtain line where line: "line = (if flushed env then ''aegv:'' @ hd ws @ [newline] else [])" by simp
  then have eq: "text = line @ mid @ drop (length line + length mid) (contents u f)"
    by (simp add: text_def passed_on_def Let_def)
  let ?old = "contents u f" and ?p = "(pipe_plan ws vs)\<lparr>pl_cwd := d\<rparr>"
  let ?u0 = "u\<lparr>disk := (disk u)(f \<mapsto> ?old)\<rparr>"
  let ?u1 = "u\<lparr>disk := (disk u)(f \<mapsto> line @ drop (length line) ?old)\<rparr>"
  let ?u2 = "u\<lparr>disk := (disk u)(f \<mapsto> text)\<rparr>"
  have "emit (Into f 0) line ?u0 = Inr ((), ?u1)"
    by (simp add: contents_emit) (simp add: contents_def)
  moreover have "exec_run env ws Terminal (Into f (length line)) ?u1 = Inr (True, ?u2)"
    using found(3) [of env liu_dirs ?u1 ws Terminal mid "Into f (length line)"] assms(3,5)
    by (simp add: emit_def setting_def write_at_def eq add.commute bnd_def retn_def)
  ultimately have left: "liu_pipe_left env ?p u = Inr ((), ?u2)"
    using opened(1) [of env u transfer_file] assms(7) found(1) [OF assms(5,3)]
    by (cases "flushed env") (simp_all add: line liu_pipe_left_def f_def [symmetric] bnd_def Let_def just_exec_def op_simps)
  have "[length vs..<length ws + length vs + 2] = length vs # [Suc (length vs)..<length ws + length vs + 2]"
    by (simp add: upt_rec [of "length vs"] del: upt_Suc)
  then have args: "argnext_read env vs (length ws + length vs + 2) = Inr vs"
    using assms(8) by (simp add: argnext_read_def Let_def del: upt_Suc)
  have "say_not_found env vs ?u2 = Inr ((), ?u2)"
    using found(1) [of env liu_dirs ?u2 vs] assms(4,6) by (simp add: say_not_found_def bnd_def op_simps)
  moreover have "open_file env False False (Some transfer_file) ?u2 = Inr (Some (f, text), ?u2)"
    using read_back [of env ?u2 transfer_file "text"] assms(7) by (simp add: f_def)
  moreover have "exec_run env vs (Bytes text) To_Screen ?u2
      = Inr (True, ?u2\<lparr>screen := screen u @ [Printed out]\<rparr>)"
    using found(3) [of env liu_dirs ?u2 vs "Bytes text" out To_Screen] assms(4,6)
    by (simp add: emit_screen bnd_def retn_def)
  ultimately show ?thesis by (simp add: liu_child_def bnd_def outlives_def left args [simplified] op_simps)
qed

section \<open>Pipes through a file\<close>

lemma liu_pipes:
  fixes env :: liu_env
  assumes "pipes env liu_dirs s ws vs Terminal mid (passed_on env ws mid (contents s path)) out"
    and "allowed env path" "stack_args env (length vs) = None" "path = full_path env (cwd s) transfer_file"
  shows "liu_main env [Typed (Some (spaced (pipe_line ws vs))), Ended (next_pid s)] s =
    Inr ((), s\<lparr>disk := (disk s)(path \<mapsto> passed_on env ws mid (contents s path)),
      screen := screen s @ [Printed out], next_pid := Suc (next_pid s)\<rparr>)"
proof -
  note r = pipesD [OF assms(1)]
  let ?u = "waiting (Wait_For (next_pid s)) (pipe_plan ws vs) s"
  from r(6) have "arg_is (map Some ws @ None # map Some vs @ [None]) 0 ''cd'' = Inr False"
    by (cases ws) (auto simp: all_plain_def arg_is_def)
  then have line: "liu_line env (Some (spaced (pipe_line ws vs))) s = Inr ((), ?u)"
    using liu_typed [OF r(2,3,8,9), of env s] waits(2)
      liu_forks [OF pipe_no_amp [OF r(6,7)] pipe_plans(3) [OF r(6,7)], of env s] by simp
  have "liu_child env ((pipe_plan ws vs)\<lparr>pl_cwd := cwd s\<rparr>) ?u = Inr ((), ?u\<lparr>disk := (disk s)(path \<mapsto>
      passed_on env ws mid (contents s path)), screen := screen s @ [Printed out]\<rparr>)"
    using liu_pipe_child [of ws vs env ?u mid out "cwd s"] r(4,5,10,11) assms(2-4) by simp
  from one_child [where line = "liu_line env" and child = "liu_child env", OF r(1) line _ this]
  show ?thesis by (simp add: liu_main_def)
qed

lemma say_one_pipe:
  "\<forall>w \<in> set ws. w \<noteq> ''|'' \<Longrightarrow> \<forall>w \<in> set vs. w \<noteq> ''|'' \<Longrightarrow> say_pipes (to_argv (pipe_line ws vs)) s =
    Inr ((), s\<lparr>screen := screen s @ [Told (Said ''comming''), Told (Said ''howsource : 3'')]\<rparr>)"
proof -
  have quiet: "each (\<lambda>w. when_op (w = ''|'') (bnd (tell (Said ''comming'')) (\<lambda>_. tell (Said ''howsource : 3'')))) us t
      = Inr ((), t)" if "\<forall>w \<in> set us. w \<noteq> ''|''" for us and t :: shell
    using that by (induction us) (simp_all add: op_simps tell_def)
  assume "\<forall>w \<in> set ws. w \<noteq> ''|''" "\<forall>w \<in> set vs. w \<noteq> ''|''"
  moreover have "upto_null (to_argv (pipe_line ws vs)) = ws @ ''|'' # vs"
    unfolding to_argv_def pipe_line_def by (rule upto_null_plain)
  ultimately show ?thesis
    by (simp add: say_pipes_def each_append bnd_def quiet [unfolded tell_def] tell_def op_simps)
qed

lemma wu_pipes:
  assumes "pipes env wu_dirs s ws vs Not_Readable mid mid out"
    and "allowed env (full_path env (cwd s) wu_transfer)"
  shows "wu_main env [Typed (Some (spaced (pipe_line ws vs))), Ended (next_pid s)] s =
    Inr ((), s\<lparr>disk := (disk s)(full_path env (cwd s) wu_transfer \<mapsto> mid),
      screen := screen s @ [Told (Said ''comming''), Told (Said ''howsource : 3''), Printed out],
      next_pid := Suc (next_pid s)\<rparr>)"
proof -
  note r = pipesD [OF assms(1)]
  let ?t = "s\<lparr>screen := screen s @ [Told (Said ''comming''), Told (Said ''howsource : 3'')]\<rparr>"
  let ?u = "waiting (Wait_For (next_pid s)) (pipe_plan ws vs) ?t"
  have prompt: "at_prompt ?t" using r(1) by (simp add: at_prompt_def)
  from wu_forks [OF pipe_no_amp [OF r(6,7)] pipe_operators [OF r(6,7)] _
      say_one_pipe [OF all_plainD(5) [OF r(6)] all_plainD(5) [OF r(7)]], of env s]
  have line: "wu_line env (Some (spaced (pipe_line ws vs))) s = Inr ((), ?u)"
    using wu_typed [OF r(2,8,9), of env s] pipe_plans(2) [OF r(6,7)] waits(2) by simp
  let ?f = "full_path env (cwd s) wu_transfer"
  have child: "wu_child env ((pipe_plan ws vs)\<lparr>pl_cwd := cwd ?t\<rparr>) ?u
      = Inr ((), ?u\<lparr>disk := (disk s)(?f \<mapsto> mid), screen := screen ?t @ [Printed out]\<rparr>)"
    using wu_pipe_child [of ws vs env ?u mid out "cwd ?t"] r(4,5,10,11) assms(2) by simp
  show ?thesis
    using one_command [where line = "wu_line env" and child = "wu_child env" and u = ?u, OF line _ _ _ _ child]
      prompt by (simp add: wu_main_def waiting_def at_prompt_def same_shell_def forked_def)
qed

end
