(* ===== verification/Shell_Claims.thy ===== *)
theory Shell_Claims
  imports Shell_Pipes
begin

text \<open>
  What the three shells promise, and where they do not keep it: splitting, redirections, pipes,
  waiting, and lines that stop a shell.
\<close>

section \<open>An example\<close>

text \<open>A computer on which \<open>echo\<close> prints its arguments and every other program its standard input.\<close>

definition demo_pc :: liu_env where
  "demo_pc = \<lparr>login_name = Some ''hu'', host = ''pc'', names_in = (\<lambda>_ _. Some [''echo'', ''cat'']),
     goes_to = (\<lambda>_. Some), full_path = (\<lambda>_ f. f), allowed = (\<lambda>_. True),
     runs = (\<lambda>_ args inp. Some (if hd args = ''echo'' then concat (tl args)
       else (case inp of Bytes b \<Rightarrow> b | _ \<Rightarrow> [])))
     , stack_args = (\<lambda>_. None), flushed = True\<rparr>"

definition demo_shell :: shell where
  "demo_shell = shell_start ''/'' ((\<lambda>_. None)(''f'' \<mapsto> ''old text''))"

lemmas demo_simps = demo_pc_def demo_shell_def shell_start_def at_prompt_def plain_word_def all_plain_def
  wordy_def is_sep_def newline_def command_def hu_dirs_def liu_dirs_def wu_dirs_def after_dot_slash_def

lemma demo_prompt: "\<exists>pr. shell_tishi demo_pc (cwd demo_shell) = Inr pr"
  by (simp add: shell_tishi_def demo_pc_def demo_shell_def shell_start_def strcpy_def fits_def
      sprintf_to_def prompt_format_def sprintf_def)

section \<open>Splitting a line\<close>

text \<open>
  huqingwei's \<open>get_mingling\<close> is the splitting at every blank or newline: of a line made of fields
  with a separator behind each it gives the fields, empty ones included, and of more than 100 it
  writes past its array.
\<close>

theorem line_splitting:
  assumes "fields_ok ps"
  shows "get_mingling (line_of ps) = (if length ps \<le> 100 then Inr (map fst ps) else Inl Out_Of_Bounds)"
  using mingling_fields [OF assms, of "[]"] by (simp add: get_mingling_def)

theorem line_splitting_witness:
  "get_mingling (line_of [(''ls'', CHR '' ''), ([], CHR '' ''), (''-l'', newline)]) = Inr [''ls'', [], ''-l'']"
proof -
  have "fields_ok [(''ls'', CHR '' ''), ([], CHR '' ''), (''-l'', newline)]"
    by (simp add: fields_ok_def is_sep_def newline_def)
  from line_splitting [OF this] show ?thesis by simp
qed

text \<open>
  C22: On the text of a line, which has no newline in it, wuxinyue's \<open>explain_input\<close> gives the words
  between the blanks, and liuting's gives them with an empty argument more when the text is empty or
  ends in a blank; both write past their array when these are more than 100 or one has 256
  characters or more.
\<close>

theorem words_of_a_line:
  assumes "newline \<notin> set p"
  shows "wu_explain p [] = (if words_fit (words p) then Inr (words p) else Inl Out_Of_Bounds)
    \<and> liu_explain p [] = (if words_fit (words p @ trailing p) then Inr (words p @ trailing p)
      else Inl Out_Of_Bounds)"
  using wu_explain_words [of "[]" p] liu_explain_words [OF assms, of "[]"] by simp

theorem words_of_a_line_witness:
  "liu_explain ''ls  -l '' [] = Inr [''ls'', ''-l'', []]"
proof -
  have "newline \<notin> set ''ls  -l ''" by (simp add: newline_def)
  from words_of_a_line [OF this] show ?thesis by (simp add: words_def words_fit_def trailing_def)
qed

section \<open>Redirections and pipes\<close>

text \<open>
  C20: \<open>ws > f\<close> at the prompt of each shell, where \<open>ws\<close> prints \<open>out\<close>: the shell comes back to its prompt
  with nothing on the screen; liuting's and wuxinyue's leave \<open>out\<close> in the file, huqingwei's leaves
  \<open>out\<close> and behind it what the file held beyond that length.
\<close>

theorem redirection:
  fixes env :: liu_env
  assumes "redirects env s ws f out" "shell_tishi env (cwd s) = Inr pr"
  defines "path \<equiv> full_path env (cwd s) f"
    and "evs \<equiv> [Typed (Some (spaced (out_line ws f))), Ended (next_pid s)]"
    and "back \<equiv> s\<lparr>next_pid := Suc (next_pid s)\<rparr>"
  shows "hu_main env evs s = Inr ((), back\<lparr>disk := (disk s)(path \<mapsto> out @ drop (length out) (contents s path))\<rparr>)
    \<and> liu_main env evs s = Inr ((), back\<lparr>disk := (disk s)(path \<mapsto> out)\<rparr>)
    \<and> wu_main env evs s = Inr ((), back\<lparr>disk := (disk s)(path \<mapsto> out)\<rparr>)"
  unfolding evs_def back_def path_def
  using hu_redirects [OF assms(1,2)] wu_redirects [OF assms(1)] liu_redirects [OF assms(1)] by simp

theorem redirection_witness:
  "\<exists>t. hu_main demo_pc [Typed (Some (spaced (out_line [''echo'', ''new''] ''f''))), Ended 1] demo_shell = Inr ((), t)
     \<and> disk t ''f'' = Some ''new text''"
proof -
  have "redirects demo_pc demo_shell [''echo'', ''new''] ''f'' ''new''"
    by (simp add: redirects_def out_line_def demo_simps)
  moreover obtain pr where "shell_tishi demo_pc (cwd demo_shell) = Inr pr" using demo_prompt by blast
  ultimately show ?thesis using redirection [of demo_pc demo_shell "[''echo'', ''new'']" "''f''" "''new''" pr]
    by (simp add: contents_def) (simp add: demo_simps)
qed

text \<open>
  \<open>ws | vs\<close> at the prompt of huqingwei's shell: \<open>vs\<close> reads what \<open>ws\<close> prints, and what \<open>vs\<close> prints is
  on the screen; no file changes.
\<close>

theorem pipe_passes_on:
  assumes "pipes env hu_dirs s ws vs Terminal mid mid out" "shell_tishi env (cwd s) = Inr pr"
  shows "hu_main env [Typed (Some (spaced (pipe_line ws vs))), Ended (next_pid s)] s =
    Inr ((), s\<lparr>next_pid := Suc (next_pid s), screen := screen s @ [Printed out]\<rparr>)"
proof -
  note r = pipesD [OF assms(1)]
  let ?u = "waiting Wait_Any (pipe_plan ws vs) s"
  have line: "hu_line env (Some (spaced (pipe_line ws vs))) s = Inr ((), ?u)"
    using hu_typed [OF assms(2) r(2,3,8,9)] hu_forks [OF pipe_no_amp [OF r(6,7)] pipe_operators [OF r(6,7)], of env s]
      pipe_plans(1) [OF r(6,7)] waits(1) [OF r(1)] by simp
  have "hu_child env ((pipe_plan ws vs)\<lparr>pl_cwd := cwd s\<rparr>) ?u
      = Inr ((), ?u\<lparr>disk := disk s, screen := screen s @ [Printed out]\<rparr>)"
    using hu_pipe_child [of ws vs env ?u mid out "cwd s"] r(4,5,10,11) by simp
  from one_child [where line = "hu_line env" and child = "hu_child env", OF r(1) line _ this]
  show ?thesis by (simp add: hu_main_def)
qed

theorem pipe_passes_on_witness:
  "\<exists>t. hu_main demo_pc [Typed (Some (spaced (pipe_line [''echo'', ''hi''] [''cat'']))), Ended 1] demo_shell = Inr ((), t)
     \<and> screen t = [Printed ''hi'']"
proof -
  have "pipes demo_pc hu_dirs demo_shell [''echo'', ''hi''] [''cat''] Terminal ''hi'' ''hi'' ''hi''"
    by (simp add: pipes_def pipe_line_def demo_simps)
  moreover obtain pr where "shell_tishi demo_pc (cwd demo_shell) = Inr pr" using demo_prompt by blast
  ultimately show ?thesis
    using pipe_passes_on [of demo_pc demo_shell "[''echo'', ''hi'']" "[''cat'']" "''hi''" "''hi''" pr]
    by (simp add: demo_shell_def shell_start_def)
qed

text \<open>
  \<open>ws | vs\<close> in the other two shells goes through a file. In wuxinyue's \<open>ws\<close> gets a standard input that
  cannot be read, and two lines of tracing come first; in liuting's \<open>vs\<close> reads a line of tracing
  (when it was flushed), what \<open>ws\<close> prints, and behind it what the last pipe left in the file. The file
  stays.
\<close>

theorem pipe_through_a_file:
  fixes lenv :: liu_env
  assumes "pipes env wu_dirs s ws vs Not_Readable mid mid out"
    and "allowed env (full_path env (cwd s) wu_transfer)"
    and "pipes lenv liu_dirs s ws vs Terminal lmid (passed_on lenv ws lmid (contents s lpath)) lout"
    and "allowed lenv lpath" "stack_args lenv (length vs) = None"
    and lpath: "lpath = full_path lenv (cwd s) transfer_file"
  defines "evs \<equiv> [Typed (Some (spaced (pipe_line ws vs))), Ended (next_pid s)]"
    and "back \<equiv> s\<lparr>next_pid := Suc (next_pid s)\<rparr>"
  shows "wu_main env evs s = Inr ((), back\<lparr>disk := (disk s)(full_path env (cwd s) wu_transfer \<mapsto> mid),
        screen := screen s @ [Told (Said ''comming''), Told (Said ''howsource : 3''), Printed out]\<rparr>)
    \<and> liu_main lenv evs s = Inr ((), back\<lparr>disk := (disk s)(lpath \<mapsto> passed_on lenv ws lmid (contents s lpath)),
        screen := screen s @ [Printed lout]\<rparr>)"
  unfolding evs_def back_def lpath
  using wu_pipes [OF assms(1,2)] liu_pipes [OF assms(3-6) [unfolded lpath]] by simp

theorem pipe_through_a_file_witness:
  "\<exists>t. liu_main demo_pc [Typed (Some (spaced (pipe_line [''echo'', ''hi''] [''cat'']))), Ended 1] demo_shell = Inr ((), t)
     \<and> screen t = [Printed (''aegv:echo'' @ newline # ''hi'')]"
proof -
  have wu: "pipes demo_pc wu_dirs demo_shell [''echo'', ''hi''] [''cat''] Not_Readable ''hi'' ''hi'' ''hi''"
    by (simp add: pipes_def pipe_line_def demo_simps)
  have "contents demo_shell transfer_file = []"
    by (simp add: contents_def transfer_file_def demo_shell_def shell_start_def)
  then have passed: "passed_on demo_pc [''echo'', ''hi''] ''hi'' (contents demo_shell transfer_file)
      = ''aegv:echo'' @ newline # ''hi''"
    by (simp add: passed_on_def demo_pc_def)
  have path: "transfer_file = full_path demo_pc (cwd demo_shell) transfer_file" by (simp add: demo_pc_def)
  have liu: "pipes demo_pc liu_dirs demo_shell [''echo'', ''hi''] [''cat''] Terminal ''hi''
      (passed_on demo_pc [''echo'', ''hi''] ''hi'' (contents demo_shell transfer_file)) (''aegv:echo'' @ newline # ''hi'')"
    unfolding passed by (simp add: pipes_def pipe_line_def demo_simps)
  have al: "allowed demo_pc f" "stack_args demo_pc n = None" for f n by (simp_all add: demo_pc_def)
  from pipe_through_a_file [OF wu al(1) liu al path] show ?thesis
    by (simp add: demo_shell_def shell_start_def)
qed

section \<open>Waiting, and lines that stop a shell\<close>

definition plain_plan :: "string list \<Rightarrow> plan" where
  "plain_plan ws = \<lparr>pl_how = NORMAL, pl_arg = ws, pl_next = [], pl_file = None,
    pl_room = length ws + 1, pl_cwd = []\<rparr>"

text \<open>A command of plain words typed at the prompt.\<close>

definition foreground :: "shell \<Rightarrow> string list \<Rightarrow> bool" where
  "foreground s ws \<longleftrightarrow> mode s = Prompt \<and> all_plain ws \<and> wordy ws \<and> length (spaced ws) < 255
     \<and> spaced ws \<noteq> ''exit'' \<and> spaced ws \<noteq> ''logout''"

lemma plain_no_amp: "all_plain ws \<Longrightarrow> no_amp ws"
  unfolding no_amp_def all_plain_def plain_word_def by blast

lemma plain_plans:
  assumes "all_plain ws"
  shows "operators strict 0 (to_argv ws) (0, NORMAL) = (0, NORMAL)"
    "wu_plan NORMAL (to_argv ws) = plain_plan ws" "say_pipes (to_argv ws) s = Inr ((), s)"
    "liu_plan (to_argv ws) = Some (plain_plan ws, to_argv ws)"
proof -
  note p = all_plainD [OF assms]
  show "operators strict 0 (to_argv ws) (0, NORMAL) = (0, NORMAL)" "wu_plan NORMAL (to_argv ws) = plain_plan ws"
    "liu_plan (to_argv ws) = Some (plain_plan ws, to_argv ws)"
    using p unfolding to_argv_def
    by (simp_all add: operators_plain [OF p(1)] wu_plan_def plain_plan_def liu_plan_def liu_cut_plain liu_pipe_plain)
  show "say_pipes (to_argv ws) s = Inr ((), s)"
    using p(5) by (induction ws) (simp_all add: say_pipes_def to_argv_def op_simps)
qed

lemma foreground_line:
  fixes lenv :: liu_env
  assumes "foreground s ws"
  defines "u \<equiv> waiting (Wait_For (next_pid s)) (plain_plan ws) s"
  shows "liu_line lenv (Some (spaced ws)) s = Inr ((), u)" "wu_line env (Some (spaced ws)) s = Inr ((), u)"
proof -
  from assms have f: "all_plain ws" "wordy ws" "length (spaced ws) < 255" "spaced ws \<noteq> ''exit''" "spaced ws \<noteq> ''logout''"
    by (simp_all add: foreground_def)
  note p = plain_plans [OF f(1)]
  show "liu_line lenv (Some (spaced ws)) s = Inr ((), u)"
    using liu_typed [OF f(2-5), of lenv s] liu_forks [OF plain_no_amp [OF f(1)] p(4) no_ampD(3) [OF plain_no_amp [OF f(1)]], of lenv s]
    by (simp add: waits u_def)
  show "wu_line env (Some (spaced ws)) s = Inr ((), u)"
    using wu_typed [OF f(2,4,5), of env s] wu_forks [OF plain_no_amp [OF f(1)] p(1) _ p(3), of env]
    by (simp add: waits u_def p(2))
qed

lemma waits_on:
  assumes "line (Some l) s = Inr ((), waiting (Wait_For (next_pid s)) p s)" "mode s = Prompt"
    and "\<And>p. moves same_shell (child p)" "Ended (next_pid s) \<notin> set evs"
  shows "\<exists>t. each (shell_step line child) (Typed (Some l) # evs) s = Inr ((), t)
    \<and> mode t = Wait_For (next_pid s) \<and> next_pid t = Suc (next_pid s) \<and> (next_pid s, p\<lparr>pl_cwd := cwd s\<rparr>) \<in> set (jobs t)"
proof -
  let ?u = "waiting (Wait_For (next_pid s)) p s"
  have "mode ?u = Wait_For (next_pid s)" by (simp add: waiting_def)
  from run_waits [where child = child and line = line, OF assms(3) this assms(4)] obtain t where
    t: "each (shell_step line child) evs ?u = Inr ((), t)" "still_waits (next_pid s) ?u t" by blast
  have "shell_step line child (Typed (Some l)) s = Inr ((), ?u)"
    using assms(1,2) by (simp add: shell_step_def bnd_def getting_def when_op_def)
  with t show ?thesis by (simp add: bnd_def still_waits_def waiting_def forked_def)
qed

text \<open>
  C21: A command typed at the prompt of the shells of liuting and wuxinyue is forked and waited for: the
  shell reads no other line and forks nothing, whatever is typed and whichever other children end,
  until that command has ended.
\<close>

theorem foreground_is_waited_for:
  fixes lenv :: liu_env
  assumes "foreground s ws" "Ended (next_pid s) \<notin> set evs"
  shows "(\<exists>t. liu_main lenv (Typed (Some (spaced ws)) # evs) s = Inr ((), t) \<and> mode t = Wait_For (next_pid s)
      \<and> next_pid t = Suc (next_pid s) \<and> (next_pid s, (plain_plan ws)\<lparr>pl_cwd := cwd s\<rparr>) \<in> set (jobs t))
    \<and> (\<exists>t. wu_main env (Typed (Some (spaced ws)) # evs) s = Inr ((), t) \<and> mode t = Wait_For (next_pid s)
      \<and> next_pid t = Suc (next_pid s) \<and> (next_pid s, (plain_plan ws)\<lparr>pl_cwd := cwd s\<rparr>) \<in> set (jobs t))"
proof -
  from assms(1) have m: "mode s = Prompt" by (simp add: foreground_def)
  show ?thesis unfolding liu_main_def wu_main_def
    using waits_on [where child = "liu_child lenv" and line = "liu_line lenv", OF foreground_line(1) [OF assms(1)] m liu_child_moves assms(2)]
      waits_on [where child = "wu_child env" and line = "wu_line env", OF foreground_line(2) [OF assms(1)] m wu_child_moves assms(2)]
    by simp
qed

theorem foreground_is_waited_for_witness:
  "\<exists>t. wu_main demo_pc [Typed (Some ''echo''), Typed (Some ''cat''), Ended 2] demo_shell = Inr ((), t)
     \<and> mode t = Wait_For 1"
proof -
  have f: "foreground demo_shell [''echo'']" by (simp add: foreground_def demo_simps)
  have n: "next_pid demo_shell = 1" by (simp add: demo_shell_def shell_start_def)
  have "Ended (next_pid demo_shell) \<notin> set [Typed (Some ''cat''), Ended 2]" by (simp add: n)
  from foreground_is_waited_for [OF f this, of demo_pc demo_pc] show ?thesis by (auto simp: n)
qed

text \<open>
  huqingwei's shell waits for any child. When one that ran in the background has ended before, a
  command in the foreground is not waited for: the shell is at its prompt at once, the command still
  runs, and the ended child is the one that was waited for.
\<close>

theorem another_is_waited_for:
  assumes "mode s = Prompt" "ended s = pid # pids" "shell_tishi env (cwd s) = Inr pr"
    and "wordy ws" "length (spaced ws) < 255" "spaced ws \<noteq> ''exit''" "spaced ws \<noteq> ''logout''" "no_amp ws"
    and "operators True 0 (to_argv ws) (0, NORMAL) = (n, k)" "n \<le> 1"
  shows "\<exists>t. hu_main env [Typed (Some (spaced ws))] s = Inr ((), t) \<and> mode t = Prompt \<and> ended t = pids
    \<and> jobs t = jobs s @ [(next_pid s, (hu_plan k ws (to_argv ws))\<lparr>pl_cwd := cwd s\<rparr>)]"
proof -
  let ?t = "(forked (hu_plan k ws (to_argv ws)) s)\<lparr>ended := pids\<rparr>"
  have "hu_line env (Some (spaced ws)) s = Inr ((), ?t)"
    using hu_typed [OF assms(3-7)] hu_forks [OF assms(8-10), of env s] assms(2)
    by (simp add: wait_any_def setting_def)
  with assms(1) have "hu_main env [Typed (Some (spaced ws))] s = Inr ((), ?t)"
    by (simp add: hu_main_def shell_step_def bnd_def getting_def when_op_def retn_def)
  with assms(1) show ?thesis by simp
qed

theorem another_is_waited_for_witness:
  "\<exists>t. hu_main demo_pc [Typed (Some ''echo'')] (demo_shell\<lparr>ended := [7]\<rparr>) = Inr ((), t)
     \<and> mode t = Prompt \<and> ended t = [] \<and> length (jobs t) = 1"
proof -
  let ?s = "demo_shell\<lparr>ended := [7]\<rparr>"
  obtain pr where pr: "shell_tishi demo_pc (cwd ?s) = Inr pr" using demo_prompt by auto
  have s: "mode ?s = Prompt" "ended ?s = [7]" "jobs ?s = []" by (simp_all add: demo_shell_def shell_start_def)
  have ws: "wordy [''echo'']" "no_amp [''echo'']" by (simp_all add: demo_simps no_amp_def)
  have "operators True 0 (to_argv [''echo'']) (0, NORMAL) = (0, NORMAL)" by (simp add: to_argv_def Let_def)
  from another_is_waited_for [OF s(1,2) pr ws(1) _ _ _ ws(2) this] s(3) show ?thesis by auto
qed

lemma blank_fields: "replicate n (CHR '' '') @ [newline] = line_of (zip (replicate (Suc n) []) (replicate n (CHR '' '') @ [newline]))"
  by (induction n) (simp_all add: line_of_def)

lemma blank_words [simp]: "words (replicate n (CHR '' '')) = []"
  by (induction n) simp_all

lemma get_mingling_blanks:
  assumes "n < 100"
  shows "get_mingling (replicate n (CHR '' '') @ [newline]) = Inr (replicate (Suc n) [])"
proof -
  let ?ps = "zip (replicate (Suc n) []) (replicate n (CHR '' '') @ [newline])"
  have "fields_ok ?ps" unfolding fields_ok_def
  proof (rule ballI, clarify)
    fix w :: string and c
    assume wc: "(w, c) \<in> set ?ps"
    from set_zip_leftD [OF wc] have "w = []" by auto
    moreover from set_zip_rightD [OF wc] have "is_sep c" by (auto simp: is_sep_def)
    ultimately show "is_sep c \<and> (\<forall>x \<in> set w. \<not> is_sep x) \<and> length w < 255" by simp
  qed
  moreover have "length ?ps = Suc n" "map fst ?ps = replicate (Suc n) []" by simp_all
  ultimately obtain ps where "fields_ok ps" "length ps = Suc n" "map fst ps = replicate (Suc n) []"
    "replicate n (CHR '' '') @ [newline] = line_of ps"
    using blank_fields by blast
  with mingling_fields [of ps "[]"] assms show ?thesis by (simp add: get_mingling_def)
qed

text \<open>
  A line of blanks only, up to 99 of them, is ignored by huqingwei's shell and stops the other two
  with a NULL pointer; the end of the input stops all three.
\<close>

theorem blank_lines:
  fixes env :: liu_env
  assumes "0 < n" "n < 100" "mode s = Prompt" "shell_tishi env (cwd s) = Inr pr"
  shows "hu_main env [Typed (Some (replicate n (CHR '' '')))] s = Inr ((), s)
    \<and> liu_main env [Typed (Some (replicate n (CHR '' '')))] s = Inl Null_Deref
    \<and> wu_main env [Typed (Some (replicate n (CHR '' '')))] s = Inl Null_Deref
    \<and> hu_main env [Typed None] s = Inl Null_Deref \<and> liu_main env [Typed None] s = Inl Null_Deref
    \<and> wu_main env [Typed None] s = Inl Null_Deref"
proof -
  obtain m where n: "n = Suc m" using assms(1) by (cases n) auto
  let ?l = "replicate n (CHR '' '')"
  have no: "?l \<noteq> ''exit''" "?l \<noteq> ''logout''" "?l \<noteq> []" "length ?l < 255" using assms(2) by (auto simp: n)
  have "hu_line env (Some ?l) s = Inr ((), s)"
    using get_mingling_blanks [OF assms(2)] no assms(2,4)
    by (simp add: hu_line_def bnd_def getting_def lifted_def strcpy_def fits_def my_shell_input_def retn_def)
  moreover have "newline \<notin> set ?l" "trailing ?l = [[]]" by (simp_all add: newline_def trailing_def n)
  then have "liu_explain ?l [] = Inr [[]]" by (simp add: liu_explain_words words_fit_def)
  then have "liu_line env (Some ?l) s = Inl Null_Deref" using no
    by (simp add: liu_line_def bnd_def lifted_def strcpy_def fits_def liu_do_cmd_def to_argv_def liu_plan_def
        arg_is_def Let_def)
  moreover have "wu_line env (Some ?l) s = Inl Null_Deref" using no
    by (simp add: wu_line_def bnd_def lifted_def wu_explain_words words_fit_def wu_do_cmd_def drop_mark_def
        to_argv_def begins_with_cd_def Let_def)
  ultimately show ?thesis using assms(3,4)
    by (simp add: hu_main_def liu_main_def wu_main_def shell_step_def bnd_def getting_def when_op_def retn_def
        hu_line_def liu_line_def wu_line_def lifted_def)
qed

theorem blank_lines_witness:
  "wu_main demo_pc [Typed (Some '' '')] demo_shell = Inl Null_Deref"
proof -
  obtain pr where pr: "shell_tishi demo_pc (cwd demo_shell) = Inr pr" using demo_prompt by blast
  have m: "mode demo_shell = Prompt" by (simp add: demo_shell_def shell_start_def)
  from blank_lines [of 1, OF _ _ m pr] show ?thesis by simp
qed

text \<open>wuxinyue's \<open>cd\<close> with a path behind a tilde writes past the array of 10 bytes.\<close>

lemma tilde_paths:
  "d \<noteq> [] \<Longrightarrow> wu_cd env [Some ''cd'', Some (CHR 0x7E # d), None] s = Inl Buffer_Overflow"
  by (cases "length d < 19") (simp_all add: wu_cd_def bnd_def lifted_def strcpy_def fits_def)

end
