(* ===== verification/Ls_World.thy ===== *)
theory Ls_World
  imports State_Ops "HOL-Library.Word" "HOL-Library.Char_ord" "HOL-Library.List_Lexorder" "HOL-Library.Multiset"
begin

unbundle bit_operations_syntax

text \<open>
  What the listings of directories (\<open>ls\<close>) of the repository work on: \<open>stat\<close>, directories and accounts,
  the text printed, the mode bits, and the bubble sorts of names.
\<close>

section \<open>The file system and the terminal\<close>

record stat_buf =
  st_mode :: "32 word"
  st_nlink :: nat
  st_uid :: nat
  st_gid :: nat
  st_size :: int
  st_mtime :: int

datatype entry_kind = DT_REG | DT_DIR | DT_OTHER

text \<open>
  What lies outside: \<open>stat\<close> and \<open>lstat\<close> of a path (\<open>None\<close>: it fails), the entries of a directory in the
  order of \<open>readdir\<close> (\<open>None\<close>: \<open>opendir\<close> fails), which files can be opened, the names of accounts, the
  text of \<open>ctime\<close>, and the working directory. It does not change while a listing runs.
\<close>

record ls_env =
  stat_of :: "string \<Rightarrow> stat_buf option"
  lstat_of :: "string \<Rightarrow> stat_buf option"
  entries :: "string \<Rightarrow> (string \<times> entry_kind) list option"
  can_open :: "string \<Rightarrow> bool"
  user_of :: "nat \<Rightarrow> string option"
  group_of :: "nat \<Rightarrow> string option"
  time_text :: "int \<Rightarrow> string"
  working_dir :: string

record ls =
  printed :: string
  complaints :: "string list"

definition ls_start :: ls where
  "ls_start = \<lparr>printed = [], complaints = []\<rparr>"

definition print :: "string \<Rightarrow> ('x ls_scheme, unit) op" where
  "print t = setting (\<lambda>s. s\<lparr>printed := printed s @ t\<rparr>)"

text \<open>\<open>perror\<close>\<close>

definition complain :: "string \<Rightarrow> ('x ls_scheme, unit) op" where
  "complain t = setting (\<lambda>s. s\<lparr>complaints := complaints s @ [t]\<rparr>)"

text \<open>A NULL pointer that was returned is followed.\<close>

definition followed :: "'a option \<Rightarrow> 'a result" where
  "followed x = (case x of None \<Rightarrow> Inl Null_Deref | Some y \<Rightarrow> Inr y)"

text \<open>\<open>%-20s\<close>, \<open>%6ld\<close>: blanks behind or before.\<close>

definition left_in :: "nat \<Rightarrow> string \<Rightarrow> string" where
  "left_in n t = t @ replicate (n - length t) (CHR '' '')"

definition right_in :: "nat \<Rightarrow> string \<Rightarrow> string" where
  "right_in n t = replicate (n - length t) (CHR '' '') @ t"

text \<open>\<open>strcpy(buf_time, ctime(..)); buf_time[strlen(buf_time) - 1] = '\0';\<close> into 32 bytes.\<close>

definition time_of :: "'e ls_env_scheme \<Rightarrow> int \<Rightarrow> string result" where
  "time_of env t = rbind (strcpy 32 (time_text env t)) (\<lambda>c.
     if c = [] then Inl Out_Of_Bounds else Inr (butlast c))"

section \<open>Mode bits\<close>

definition S_IFMT :: "32 word" where "S_IFMT = 0xF000"
definition S_IFREG :: "32 word" where "S_IFREG = 0x8000"
definition S_IFDIR :: "32 word" where "S_IFDIR = 0x4000"
definition S_IFLNK :: "32 word" where "S_IFLNK = 0xA000"
definition S_IFCHR :: "32 word" where "S_IFCHR = 0x2000"
definition S_IFBLK :: "32 word" where "S_IFBLK = 0x6000"
definition S_IFIFO :: "32 word" where "S_IFIFO = 0x1000"
definition S_IFSOCK :: "32 word" where "S_IFSOCK = 0xC000"

lemmas file_types = S_IFMT_def S_IFREG_def S_IFDIR_def S_IFLNK_def S_IFCHR_def S_IFBLK_def S_IFIFO_def
  S_IFSOCK_def

definition is_kind :: "32 word \<Rightarrow> stat_buf \<Rightarrow> bool" where
  "is_kind k b \<longleftrightarrow> st_mode b AND S_IFMT = k"

text \<open>One permission: \<open>if (buf.st_mode & S_IRUSR) .. else ..\<close>\<close>

definition flag :: "stat_buf \<Rightarrow> 32 word \<Rightarrow> char \<Rightarrow> char" where
  "flag b k c = (if st_mode b AND k \<noteq> 0 then c else CHR ''-'')"

text \<open>\<open>S_IRUSR\<close> to \<open>S_IXOTH\<close>\<close>

definition permissions :: "stat_buf \<Rightarrow> string" where
  "permissions b = [flag b 0x100 CHR ''r'', flag b 0x80 CHR ''w'', flag b 0x40 CHR ''x'',
     flag b 0x20 CHR ''r'', flag b 0x10 CHR ''w'', flag b 0x8 CHR ''x'',
     flag b 0x4 CHR ''r'', flag b 0x2 CHR ''w'', flag b 0x1 CHR ''x'']"

text \<open>The permissions that a text of nine characters stands for.\<close>

definition read_permissions :: "string \<Rightarrow> nat" where
  "read_permissions t = foldl (\<lambda>n c. 2 * n + of_bool (c \<noteq> CHR ''-'')) 0 t"

lemma flag_bit:
  assumes "n < 32" "k = 2 ^ n" "c \<noteq> CHR ''-''"
  shows "(flag b k c \<noteq> CHR ''-'') = bit (st_mode b) n"
proof -
  have "bit (2 ^ n :: 32 word) m \<longleftrightarrow> m = n" for m using assms(1) by (auto simp: bit_exp_iff)
  then have "st_mode b AND k \<noteq> 0 \<longleftrightarrow> bit (st_mode b) n"
    unfolding assms(2) bit_eq_iff [of _ 0] using assms(1) by (auto simp: bit_and_iff)
  with assms(3) show ?thesis by (simp add: flag_def)
qed

lemma permissions_read_back: "read_permissions (permissions b) = take_bit 9 (unat (st_mode b))"
proof -
  let ?u = "unat (st_mode b)"
  have bits: "bit (st_mode b) n = bit ?u n" for n by (simp add: bit_unsigned_iff bit_imp_le_length)
  have "take_bit 9 ?u = horner_sum of_bool 2 (map (bit ?u) [0..<9])" by (simp add: horner_sum_bit_eq_take_bit)
  moreover have "[0..<9] = [0, 1, 2, 3, 4, 5, 6, 7, 8]" by (simp add: upt_rec)
  ultimately show ?thesis
    by (simp add: read_permissions_def permissions_def flag_bit [where n = 8] flag_bit [where n = 7]
        flag_bit [where n = 6] flag_bit [where n = 5] flag_bit [where n = 4] flag_bit [where n = 3]
        flag_bit [where n = 2] flag_bit [where n = 1] flag_bit [where n = 0] bits)
qed

end
