(* ===== verification/Ls_Sort.thy ===== *)
theory Ls_Sort
  imports Ls_World Node_Heap
begin

text \<open>
  The bubble sorts of the listings: over arrays of names, and over linked nodes whose pointers are
  exchanged; both are shown to sort.
\<close>

section \<open>Arrays\<close>

text \<open>\<open>if (strcmp(name[j], name[j + 1]) > 0)\<close> exchange the two; compared is \<open>key\<close> of the elements.\<close>

definition swap_at :: "('a \<Rightarrow> 'k::linorder) \<Rightarrow> nat \<Rightarrow> 'a list \<Rightarrow> 'a list" where
  "swap_at key j xs =
     (if key (xs ! Suc j) < key (xs ! j) then xs[j := xs ! Suc j, Suc j := xs ! j] else xs)"

definition sweep :: "('a \<Rightarrow> 'k::linorder) \<Rightarrow> nat \<Rightarrow> 'a list \<Rightarrow> 'a list" where
  "sweep key k xs = fold (swap_at key) [0..<k] xs"

text \<open>The outer loop, with the bounds of the inner ones.\<close>

definition bubble :: "('a \<Rightarrow> 'k::linorder) \<Rightarrow> nat list \<Rightarrow> 'a list \<Rightarrow> 'a list" where
  "bubble key ks xs = fold (sweep key) ks xs"

text \<open>\<open>for (i < n) for (j < n - i - 1)\<close>, \<open>for (i < n - 1) for (j < n - 1 - i)\<close>, \<open>for (i < n - 1) for (j < n - 1)\<close>\<close>

definition bubble_all :: "string list \<Rightarrow> string list" where
  "bubble_all xs = bubble (\<lambda>x. x) (map (\<lambda>i. length xs - i - 1) [0..<length xs]) xs"

definition bubble_fewer :: "string list \<Rightarrow> string list" where
  "bubble_fewer xs = bubble (\<lambda>x. x) (map (\<lambda>i. length xs - i - 1) [0..<length xs - 1]) xs"

definition bubble_square :: "string list \<Rightarrow> string list" where
  "bubble_square xs = bubble (\<lambda>x. x) (replicate (length xs - 1) (length xs - 1)) xs"

lemma swap_at_frame [simp]:
  "length (swap_at key j xs) = length xs"
  "drop (Suc (Suc j)) (swap_at key j xs) = drop (Suc (Suc j)) xs"
  "i < j \<Longrightarrow> swap_at key j xs ! i = xs ! i"
  by (simp_all add: swap_at_def)

lemma mset_swap_at [simp]: "Suc j < length xs \<Longrightarrow> mset (swap_at key j xs) = mset xs"
  by (auto simp: swap_at_def intro: mset_swap)

lemma length_sweep [simp]: "length (sweep key k xs) = length xs"
proof -
  have "length (fold (swap_at key) js xs) = length xs" for js
    by (induction js arbitrary: xs) simp_all
  then show ?thesis by (simp add: sweep_def)
qed

text \<open>One sweep brings the greatest of the first elements to its end and leaves the others.\<close>

lemma sweep_max:
  "k < length xs \<Longrightarrow> mset (take (Suc k) (sweep key k xs)) = mset (take (Suc k) xs)
     \<and> drop (Suc k) (sweep key k xs) = drop (Suc k) xs
     \<and> (\<forall>i \<le> k. key (sweep key k xs ! i) \<le> key (sweep key k xs ! k))"
proof (induction k)
  case 0
  then show ?case by (simp add: sweep_def)
next
  case (Suc k)
  let ?ys = "sweep key k xs" and ?zs = "sweep key (Suc k) xs"
  have zs: "?zs = swap_at key k ?ys" by (simp add: sweep_def)
  from Suc have IH: "mset (take (Suc k) ?ys) = mset (take (Suc k) xs)" "drop (Suc k) ?ys = drop (Suc k) xs"
    "\<And>i. i \<le> k \<Longrightarrow> key (?ys ! i) \<le> key (?ys ! k)" by simp_all
  have len: "Suc k < length ?ys" using Suc.prems by simp
  have tail: "drop (Suc (Suc k)) ?zs = drop (Suc (Suc k)) xs"
    using IH(2) by (metis drop_Suc swap_at_frame(2) tl_drop zs)
  have "mset ?ys = mset (take (Suc k) xs @ drop (Suc k) xs)"
    by (metis IH(1,2) append_take_drop_id mset_append)
  then have "mset ?zs = mset xs" unfolding zs using len by simp
  then have "mset (take (Suc (Suc k)) ?zs) + mset (drop (Suc (Suc k)) xs)
      = mset (take (Suc (Suc k)) xs) + mset (drop (Suc (Suc k)) xs)"
    by (metis append_take_drop_id mset_append tail)
  then have m: "mset (take (Suc (Suc k)) ?zs) = mset (take (Suc (Suc k)) xs)" by simp
  have "key (?zs ! i) \<le> key (?zs ! Suc k)" if "i \<le> Suc k" for i
  proof -
    show ?thesis
    proof (cases "i < k")
      case True
      then have "key (?zs ! i) \<le> key (?ys ! k)" using IH(3) [of i] by (simp add: zs)
      also have "\<dots> \<le> key (?zs ! Suc k)" using len by (simp add: zs swap_at_def not_less)
      finally show ?thesis .
    next
      case False
      with that have "i = k \<or> i = Suc k" by auto
      then show ?thesis using len by (auto simp: zs swap_at_def)
    qed
  qed
  with m tail show ?case by simp
qed

text \<open>From \<open>m\<close> on the elements are sorted and not less than those before.\<close>

definition settled :: "('a \<Rightarrow> 'k::linorder) \<Rightarrow> nat \<Rightarrow> 'a list \<Rightarrow> bool" where
  "settled key m xs \<longleftrightarrow> sorted (map key (drop m xs))
     \<and> (\<forall>a \<in> set (take m xs). \<forall>b \<in> set (drop m xs). key a \<le> key b)"

lemma settled_still:
  assumes "settled key m xs" "Suc j < length xs" "m \<le> Suc j"
  shows "swap_at key j xs = xs"
proof -
  have "key (xs ! j) \<le> key (xs ! Suc j)"
  proof (cases "m \<le> j")
    case True
    then have "sorted (map key (drop m xs))" "Suc (j - m) < length (map key (drop m xs))"
      using assms by (auto simp: settled_def)
    from sorted_nth_mono [OF this(1), of "j - m" "Suc (j - m)"] this(2) True show ?thesis by simp
  next
    case False
    with assms(3) have "m = Suc j" by simp
    then have "xs ! j \<in> set (take m xs)" "xs ! Suc j \<in> set (drop m xs)"
      using assms(2) by (auto simp: in_set_conv_nth intro: exI [of _ j] exI [of _ 0])
    with assms(1) show ?thesis by (auto simp: settled_def)
  qed
  then show ?thesis by (simp add: swap_at_def leD)
qed

lemma settled_sweeps:
  "settled key m xs \<Longrightarrow> k < length xs \<Longrightarrow> m \<le> Suc i \<Longrightarrow> fold (swap_at key) [i..<k] xs = xs"
proof (induction "k - i" arbitrary: i)
  case 0
  then show ?case by simp
next
  case (Suc d)
  then have i: "i < k" "d = k - Suc i" by simp_all
  have "swap_at key i xs = xs" by (rule settled_still [OF Suc.prems(1)]) (use i Suc.prems in auto)
  moreover have "fold (swap_at key) [Suc i..<k] xs = xs" using Suc.hyps(1) [OF i(2)] Suc.prems by simp
  ultimately show ?case using i(1) by (simp add: upt_rec [of i])
qed

lemma sweep_settles:
  assumes "settled key m xs" "m \<le> length xs" "m - 1 \<le> k" "k < length xs"
  shows "settled key (m - 1) (sweep key k xs) \<and> mset (sweep key k xs) = mset xs"
proof (cases m)
  case 0
  with settled_sweeps [OF assms(1,4), of 0] assms(1) show ?thesis by (simp add: sweep_def)
next
  case (Suc n)
  let ?ys = "sweep key n xs"
  have n: "n < length xs" "n \<le> k" using Suc assms(2,3) by simp_all
  from sweep_max [OF n(1), of key] have s: "mset (take m ?ys) = mset (take m xs)" "drop m ?ys = drop m xs"
    "\<forall>i \<le> n. key (?ys ! i) \<le> key (?ys ! n)" by (simp_all add: Suc)
  have sets: "set (take m ?ys) = set (take m xs)" using s(1) by (metis set_mset_mset)
  have dn: "drop n ?ys = ?ys ! n # drop m xs" using n(1) s(2) Suc by (simp add: Cons_nth_drop_Suc [symmetric])
  have yn: "?ys ! n \<in> set (take m xs)" unfolding sets [symmetric]
    using n(1) Suc by (auto simp: in_set_conv_nth intro!: exI [of _ n])
  have "settled key n ?ys" unfolding settled_def dn
  proof (intro conjI ballI)
    show "sorted (map key (?ys ! n # drop m xs))"
      using assms(1) yn by (simp add: settled_def)
    fix a b
    assume a: "a \<in> set (take n ?ys)" and b: "b \<in> set (?ys ! n # drop m xs)"
    from a obtain i where i: "i < n" "a = ?ys ! i" using n(1) by (auto simp: in_set_conv_nth)
    with s(3) have le: "key a \<le> key (?ys ! n)" by simp
    from b consider "b = ?ys ! n" | "b \<in> set (drop m xs)" by auto
    then show "key a \<le> key b"
    proof cases
      case 2
      with yn assms(1) have "key (?ys ! n) \<le> key b" by (simp add: settled_def)
      with le show ?thesis by simp
    qed (simp add: le)
  qed
  moreover have "sweep key k xs = ?ys"
  proof -
    have "[0..<k] = [0..<n] @ [n..<k]" using n(2) by (metis le_add_diff_inverse upt_add_eq_append zero_le)
    then have "sweep key k xs = fold (swap_at key) [n..<k] ?ys" by (simp add: sweep_def)
    also have "\<dots> = ?ys" by (rule settled_sweeps [OF \<open>settled key n ?ys\<close>]) (use assms(4) in simp_all)
    finally show ?thesis .
  qed
  moreover have "mset ?ys = mset xs"
    by (metis s(1,2) append_take_drop_id mset_append)
  ultimately show ?thesis by (simp add: Suc)
qed

lemma bubble_settles:
  "settled key m xs \<Longrightarrow> m \<le> length xs \<Longrightarrow> \<forall>i < length ks. m - 1 - i \<le> ks ! i \<and> ks ! i < length xs
   \<Longrightarrow> settled key (m - length ks) (bubble key ks xs) \<and> mset (bubble key ks xs) = mset xs"
proof (induction ks arbitrary: m xs)
  case Nil
  then show ?case by (simp add: bubble_def)
next
  case (Cons k ks)
  from Cons.prems(3) have k: "m - 1 \<le> k" "k < length xs"
    and ks: "\<forall>i < length ks. m - 1 - 1 - i \<le> ks ! i \<and> ks ! i < length (sweep key k xs)"
    by (force dest: spec [of _ 0], force dest: spec [of _ 0]) (use Cons.prems(3) in force)
  from sweep_settles [OF Cons.prems(1,2) k] have s: "settled key (m - 1) (sweep key k xs)"
    "mset (sweep key k xs) = mset xs" by simp_all
  from Cons.IH [OF s(1) _ ks] Cons.prems(2) s(2) show ?case by (simp add: bubble_def)
qed

lemma bubble_sorts:
  assumes "\<forall>i < length ks. length xs - 1 - i \<le> ks ! i \<and> ks ! i < length xs" "length xs \<le> Suc (length ks)"
  shows "sorted (map key (bubble key ks xs)) \<and> mset (bubble key ks xs) = mset xs"
proof -
  have "settled key (length xs) xs" by (simp add: settled_def)
  from bubble_settles [OF this order_refl assms(1)] have
    s: "settled key (length xs - length ks) (bubble key ks xs)" "mset (bubble key ks xs) = mset xs" by simp_all
  from assms(2) have "length xs - length ks = 0 \<or> length xs - length ks = 1" by auto
  with s(1) have "settled key 0 (bubble key ks xs) \<or> settled key 1 (bubble key ks xs)" by auto
  then have "sorted (map key (bubble key ks xs))"
    by (cases "bubble key ks xs") (auto simp: settled_def)
  with s(2) show ?thesis by simp
qed

lemma sort_unique: "sorted xs \<and> mset xs = mset ys \<Longrightarrow> xs = sort ys" for xs :: "string list"
  by (metis properties_for_sort)

lemma bubbles_sort: "bubble_all xs = sort xs" "bubble_fewer xs = sort xs" "bubble_square xs = sort xs"
proof -
  let ?n = "length xs"
  have lt: "\<forall>i < ?n. ?n - Suc i < ?n" "\<forall>i < ?n - Suc 0. ?n - Suc i < ?n" "?n \<le> Suc (?n - Suc 0)"
    "\<forall>i < ?n - Suc 0. ?n - Suc i \<le> ?n - Suc 0" by auto
  show "bubble_all xs = sort xs" unfolding bubble_all_def
    by (rule sort_unique) (use bubble_sorts [of "map (\<lambda>i. ?n - i - 1) [0..<?n]" xs "\<lambda>x. x"] lt in simp)
  show "bubble_fewer xs = sort xs" unfolding bubble_fewer_def
    by (rule sort_unique) (use bubble_sorts [of "map (\<lambda>i. ?n - i - 1) [0..<?n - 1]" xs "\<lambda>x. x"] lt in simp)
  show "bubble_square xs = sort xs" unfolding bubble_square_def
    by (rule sort_unique) (use bubble_sorts [of "replicate (?n - 1) (?n - 1)" xs "\<lambda>x. x"] lt in simp)
qed

section \<open>Linked nodes\<close>

text \<open>
  The sort of \<open>lt_ls.c\<close> and \<open>lt_ls1.c\<close> exchanges the pointers of the nodes behind \<open>phead\<close>. One turn of
  the inner loop, with \<open>p\<close>, its successor \<open>x\<close> and the one behind, \<open>y\<close>:
\<close>

definition exchange :: "nat \<Rightarrow> nat option \<Rightarrow> nat option \<Rightarrow> string mem \<Rightarrow> string mem result" where
  "exchange p x y m =
     rbind (deref m x) (\<lambda>nx. rbind (deref m y) (\<lambda>ny.
       if node_item ny < node_item nx then
         rbind (set_next p y m) (\<lambda>m1. rbind (deref m1 y) (\<lambda>ny1.
         rbind (set_next (the x) (node_next ny1) m1) (set_next (the y) x)))
       else Inr m))"

text \<open>\<open>for (p = ..; f != p->next->next; p = p->next)\<close>; the result is \<open>p->next\<close>.\<close>

partial_function (option) sort_pass ::
  "nat option \<Rightarrow> nat \<Rightarrow> string mem \<Rightarrow> (nat option \<times> string mem) result option" where
  "sort_pass f p m =
     (case rbind (deref m (Some p)) (\<lambda>n. rbind (deref m (node_next n)) (\<lambda>x. Inr (node_next n, node_next x))) of
        Inl e \<Rightarrow> Some (Inl e)
      | Inr (x, y) \<Rightarrow>
          if f = y then Some (Inr (x, m))
          else (case rbind (exchange p x y m) (\<lambda>m1. rbind (deref m1 (Some p)) (\<lambda>n. Inr (node_next n, m1))) of
              Inl e \<Rightarrow> Some (Inl e)
            | Inr (None, m1) \<Rightarrow> Some (Inl Null_Deref)
            | Inr (Some q, m1) \<Rightarrow> sort_pass f q m1))"

text \<open>\<open>while (f != phead->next->next)\<close>\<close>

partial_function (option) sort_nodes :: "nat \<Rightarrow> nat option \<Rightarrow> string mem \<Rightarrow> string mem result option" where
  "sort_nodes phead f m =
     (case rbind (deref m (Some phead)) (\<lambda>n. rbind (deref m (node_next n)) (\<lambda>x. Inr (node_next x))) of
        Inl e \<Rightarrow> Some (Inl e)
      | Inr y \<Rightarrow>
          if f = y then Some (Inr m)
          else (case sort_pass f phead m of
              None \<Rightarrow> None
            | Some (Inl e) \<Rightarrow> Some (Inl e)
            | Some (Inr (f1, m1)) \<Rightarrow> sort_nodes phead f1 m1))"

text \<open>
  The nodes at the addresses \<open>as\<close> in this order: each points to the next, the last to \<open>q\<close>; \<open>item\<close> is
  what each holds.
\<close>

fun linked :: "(nat \<Rightarrow> string) \<Rightarrow> string mem \<Rightarrow> nat list \<Rightarrow> nat option \<Rightarrow> bool" where
  "linked item m [] q \<longleftrightarrow> True"
| "linked item m (a # as) q \<longleftrightarrow>
     cells m a = Some (Node (item a) (case as of [] \<Rightarrow> q | b # _ \<Rightarrow> Some b)) \<and> linked item m as q"

lemma linked_append:
  "linked item m (as @ bs) q \<longleftrightarrow>
     linked item m as (case bs of [] \<Rightarrow> q | b # _ \<Rightarrow> Some b) \<and> linked item m bs q"
  by (induction as) (auto split: list.splits)

lemma linked_cong:
  "\<forall>a \<in> set as. cells m' a = cells m a \<Longrightarrow> linked item m' as q = linked item m as q"
  by (induction as) auto

text \<open>The sweep over the addresses as a recursion.\<close>

fun pass_list :: "(nat \<Rightarrow> string) \<Rightarrow> nat list \<Rightarrow> nat list" where
  "pass_list item (x # y # r) = (if item y < item x then y # pass_list item (x # r) else x # pass_list item (y # r))"
| "pass_list item xs = xs"

lemma swap_at_Suc: "swap_at key (Suc j) (a # zs) = a # swap_at key j zs"
  by (simp add: swap_at_def)

lemma fold_swap_Suc: "fold (swap_at key) (map Suc js) (a # zs) = a # fold (swap_at key) js zs"
  by (induction js arbitrary: zs) (simp_all add: swap_at_Suc)

lemma sweep_pass: "xs \<noteq> [] \<Longrightarrow> sweep item (length xs - 1) (xs @ ys) = pass_list item xs @ ys"
proof (induction item xs rule: pass_list.induct)
  case (1 item x y r)
  have up: "[0..<Suc (length r)] = 0 # map Suc [0..<length r]" by (metis map_Suc_upt upt_conv_Cons zero_less_Suc)
  have "sweep item (Suc (length r)) (x # y # r @ ys)
      = fold (swap_at item) (map Suc [0..<length r]) (swap_at item 0 (x # y # r @ ys))"
    unfolding sweep_def up by simp
  with 1 show ?case by (auto simp: swap_at_def [of item 0] fold_swap_Suc sweep_def)
qed (simp_all add: sweep_def)

lemma set_pass_list [simp]: "set (pass_list item xs) = set xs"
  by (induction item xs rule: pass_list.induct) auto

lemma length_pass_list [simp]: "length (pass_list item xs) = length xs"
  by (induction item xs rule: pass_list.induct) auto

lemma distinct_pass_list: "distinct xs \<Longrightarrow> distinct (pass_list item xs)"
  by (induction item xs rule: pass_list.induct) auto

definition first_of :: "nat list \<Rightarrow> nat option" where
  "first_of as = (case as of [] \<Rightarrow> None | a # _ \<Rightarrow> Some a)"

lemma first_of_simps [simp]: "first_of [] = None" "first_of (a # as) = Some a"
  by (simp_all add: first_of_def)

text \<open>The exchange of two neighbours.\<close>

lemma exchange_nodes:
  assumes "linked item m (p # x # y # r) q" "distinct (p # x # y # r)"
  shows "\<exists>m1. exchange p (Some x) (Some y) m = Inr m1
    \<and> linked item m1 (if item y < item x then p # y # x # r else p # x # y # r) q
    \<and> (\<forall>a. a \<notin> {p, x, y} \<longrightarrow> cells m1 a = cells m a)"
proof (cases "item y < item x")
  case False
  with assms show ?thesis by (simp add: exchange_def deref_def)
next
  case True
  let ?q = "case r of [] \<Rightarrow> q | b # _ \<Rightarrow> Some b"
  let ?m1 = "store y (Node (item y) (Some x)) (store x (Node (item x) ?q) (store p (Node (item p) (Some y)) m))"
  have c: "cells m p = Some (Node (item p) (Some x))" "cells m x = Some (Node (item x) (Some y))"
    "cells m y = Some (Node (item y) ?q)" "linked item m r q"
    using assms(1) by simp_all
  have "exchange p (Some x) (Some y) m = Inr ?m1"
    using True c assms(2) by (auto simp: exchange_def deref_def set_next_def store_def)
  moreover have "\<forall>a \<in> set r. cells ?m1 a = cells m a" using assms(2) by (auto simp: store_def)
  with c(4) have "linked item ?m1 r q" using linked_cong by blast
  ultimately show ?thesis using True assms(2) by (auto simp: store_def)
qed

lemma sort_pass_nodes:
  assumes "linked item m (p # xs @ ys) None" "distinct (p # xs @ ys)" "xs \<noteq> []"
  shows "\<exists>m1. sort_pass (first_of ys) p m = Some (Inr (Some (last (pass_list item xs)), m1))
    \<and> linked item m1 (p # pass_list item xs @ ys) None
    \<and> (\<forall>a. a \<notin> set (p # xs) \<longrightarrow> cells m1 a = cells m a)"
  using assms
proof (induction item xs arbitrary: p m rule: pass_list.induct [case_names more none one])
  case (more item x y r)
  from more(3,4) have l: "linked item m (p # x # y # r @ ys) None" and d: "distinct (p # x # y # r @ ys)" by simp_all
  from exchange_nodes [OF l d] obtain m1 where m1: "exchange p (Some x) (Some y) m = Inr m1"
    "linked item m1 (if item y < item x then p # y # x # r @ ys else p # x # y # r @ ys) None"
    "\<forall>a. a \<notin> {p, x, y} \<longrightarrow> cells m1 a = cells m a" by blast
  have ne: "first_of ys \<noteq> Some y" using d by (cases ys) auto
  have start: "sort_pass (first_of ys) p m
      = sort_pass (first_of ys) (if item y < item x then y else x) m1"
    using l m1(1,2) ne by (subst sort_pass.simps) (simp add: deref_def split: if_splits)
  show ?case
  proof (cases "item y < item x")
    case True
    with m1(2) have l1: "linked item m1 (y # (x # r) @ ys) None" by simp
    have "distinct (y # (x # r) @ ys)" using d by auto
    from more.IH(1) [OF True l1 this] obtain m2 where
      m2: "sort_pass (first_of ys) y m1 = Some (Inr (Some (last (pass_list item (x # r))), m2))"
      "linked item m2 (y # pass_list item (x # r) @ ys) None"
      "\<forall>a. a \<notin> set (y # x # r) \<longrightarrow> cells m2 a = cells m1 a" by auto
    have "cells m2 p = Some (Node (item p) (Some y))" using m2(3) m1(2) True d by simp
    then have "linked item m2 (p # y # pass_list item (x # r) @ ys) None" using m2(2) by simp
    moreover have "pass_list item (x # r) \<noteq> []" by (cases r) auto
    ultimately show ?thesis using start m2(1,3) m1(3) True by auto
  next
    case False
    with m1(2) have l1: "linked item m1 (x # (y # r) @ ys) None" by simp
    have "distinct (x # (y # r) @ ys)" using d by auto
    from more.IH(2) [OF False l1 this] obtain m2 where
      m2: "sort_pass (first_of ys) x m1 = Some (Inr (Some (last (pass_list item (y # r))), m2))"
      "linked item m2 (x # pass_list item (y # r) @ ys) None"
      "\<forall>a. a \<notin> set (x # y # r) \<longrightarrow> cells m2 a = cells m1 a" by auto
    have "cells m2 p = Some (Node (item p) (Some x))" using m2(3) m1(2) False d by simp
    then have "linked item m2 (p # x # pass_list item (y # r) @ ys) None" using m2(2) by simp
    moreover have "pass_list item (y # r) \<noteq> []" by (cases r) auto
    ultimately show ?thesis using start m2(1,3) m1(3) False by auto
  qed
next
  case (none item)
  then show ?case by simp
next
  case (one item x)
  then have "sort_pass (first_of ys) p m = Some (Inr (Some x, m))"
    by (subst sort_pass.simps) (auto simp: deref_def first_of_def split: list.splits)
  with one show ?case by simp
qed

lemma bubble_Cons: "bubble key (k # ks) xs = bubble key ks (sweep key k xs)"
  by (simp add: bubble_def)

lemma sort_nodes_run:
  assumes "linked item m (h # as) None" "distinct (h # as)" "1 \<le> k" "k \<le> length as"
  shows "\<exists>m1. sort_nodes h (first_of (drop k as)) m = Some (Inr m1)
    \<and> linked item m1 (h # bubble item (rev [1..<k]) as) None
    \<and> (\<forall>a. a \<notin> set (h # as) \<longrightarrow> cells m1 a = cells m a)"
  using assms(3,1,2,4)
proof (induction k arbitrary: as m rule: nat_induct_at_least)
  case base
  then obtain x r where as: "as = x # r" by (cases as) auto
  with base have "sort_nodes h (first_of (drop 1 as)) m = Some (Inr m)"
    by (subst sort_nodes.simps) (auto simp: deref_def first_of_def split: list.splits)
  with base show ?case by (simp add: bubble_def)
next
  case (Suc k)
  let ?xs = "take (Suc k) as" and ?ys = "drop (Suc k) as" and ?bs = "sweep item k as"
  from Suc obtain x y r where as: "as = x # y # r" by (cases as rule: list.exhaust; cases "tl as") auto
  have ne: "first_of ?ys \<noteq> Some y"
  proof
    assume "first_of ?ys = Some y"
    then have "y \<in> set (drop k (y # r))" by (cases ?ys) (auto simp: as)
    moreover have "set (drop k (y # r)) \<subseteq> set r" using Suc.hyps by (cases k) (auto dest: in_set_dropD)
    ultimately show False using Suc.prems(2) as by auto
  qed
  have len: "length ?xs = Suc k" "?xs \<noteq> []" using Suc.prems(3) as by auto
  from sweep_pass [OF len(2), of item ?ys] have bs: "?bs = pass_list item ?xs @ ?ys"
    by (simp add: len(1) del: length_take)
  obtain m1 where m1: "sort_pass (first_of ?ys) h m = Some (Inr (Some (last (pass_list item ?xs)), m1))"
    "linked item m1 (h # ?bs) None" "\<forall>a. a \<notin> set (h # ?xs) \<longrightarrow> cells m1 a = cells m a"
    using sort_pass_nodes [of item m h ?xs ?ys] Suc.prems(1,2) len(2) unfolding bs append_take_drop_id by blast
  have sets: "set ?bs = set as" unfolding bs by (metis append_take_drop_id set_append set_pass_list)
  have dist: "distinct (h # ?bs)"
  proof -
    have "card (set ?bs) = length ?bs" using Suc.prems(2) sets by (simp add: distinct_card)
    then show ?thesis using Suc.prems(2) sets card_distinct by fastforce
  qed
  have "drop k ?bs = last (pass_list item ?xs) # ?ys"
  proof -
    have "pass_list item ?xs = butlast (pass_list item ?xs) @ [last (pass_list item ?xs)]"
      using len by (metis append_butlast_last_id length_0_conv length_pass_list)
    moreover have "length (butlast (pass_list item ?xs)) = k" by (simp add: len(1) del: length_take)
    ultimately show ?thesis unfolding bs by (metis append.assoc append_Cons append_Nil append_eq_conv_conj)
  qed
  then have f: "first_of (drop k ?bs) = Some (last (pass_list item ?xs))" by simp
  from Suc.IH [OF m1(2) dist] Suc.prems(3) obtain m2 where
    m2: "sort_nodes h (Some (last (pass_list item ?xs))) m1 = Some (Inr m2)"
    "linked item m2 (h # bubble item (rev [1..<k]) ?bs) None"
    "\<forall>a. a \<notin> set (h # ?bs) \<longrightarrow> cells m2 a = cells m1 a" unfolding f by auto
  have "sort_nodes h (first_of ?ys) m = Some (Inr m2)"
    using Suc.prems(1) ne m1(1) m2(1) by (subst sort_nodes.simps) (simp add: as deref_def)
  moreover have "rev [1..<Suc k] = k # rev [1..<k]" using Suc.hyps by simp
  moreover have "set ?xs \<subseteq> set as" by (rule set_take_subset)
  ultimately show ?case using m2(2,3) m1(3) sets by (auto simp: bubble_Cons)
qed

text \<open>The sort of the nodes sorts, and touches no other node.\<close>

lemma nodes_sorted:
  assumes "linked item m (h # as) None" "distinct (h # as)" "as \<noteq> []"
  shows "\<exists>m1 bs. sort_nodes h None m = Some (Inr m1) \<and> linked item m1 (h # bs) None
    \<and> mset bs = mset as \<and> sorted (map item bs) \<and> (\<forall>a. a \<notin> set (h # as) \<longrightarrow> cells m1 a = cells m a)"
proof -
  let ?n = "length as"
  have "1 \<le> ?n" using assms(3) by (simp add: Suc_leI)
  from sort_nodes_run [OF assms(1,2) this order_refl] obtain m1 where
    m1: "sort_nodes h None m = Some (Inr m1)" "linked item m1 (h # bubble item (rev [1..<?n]) as) None"
    "\<forall>a. a \<notin> set (h # as) \<longrightarrow> cells m1 a = cells m a" by auto
  have "\<forall>i < length (rev [1..<?n]). ?n - 1 - i \<le> rev [1..<?n] ! i \<and> rev [1..<?n] ! i < ?n"
    by (auto simp: rev_nth)
  from bubble_sorts [OF this, of item] m1 show ?thesis by auto
qed

text \<open>A freed node at the end of the list is read.\<close>

lemma sort_pass_freed:
  assumes "linked item m (p # xs) (Some z)" "distinct (z # p # xs)" "cells m z = None"
  shows "sort_pass None p m = Some (Inl Use_After_Free)"
  using assms
proof (induction item xs arbitrary: p m rule: pass_list.induct [case_names more none one])
  case (more item x y r)
  from more(3,4) have l: "linked item m (p # x # y # r) (Some z)" and d: "distinct (p # x # y # r)" by simp_all
  from exchange_nodes [OF l d] obtain m1 where m1: "exchange p (Some x) (Some y) m = Inr m1"
    "linked item m1 (if item y < item x then p # y # x # r else p # x # y # r) (Some z)"
    "\<forall>a. a \<notin> {p, x, y} \<longrightarrow> cells m1 a = cells m a" by blast
  have z: "cells m1 z = None" using m1(3) more(4,5) by auto
  have start: "sort_pass None p m = sort_pass None (if item y < item x then y else x) m1"
    using l m1(1,2) by (subst sort_pass.simps) (simp add: deref_def split: if_splits)
  show ?case
  proof (cases "item y < item x")
    case True
    with m1(2) more.IH(1) [OF True, of m1 y] z more(4) start show ?thesis by auto
  next
    case False
    with m1(2) more.IH(2) [OF False, of m1 x] z more(4) start show ?thesis by auto
  qed
next
  case (none item)
  then show ?case by (subst sort_pass.simps) (simp add: deref_def)
next
  case (one item x)
  then show ?case by (subst sort_pass.simps) (simp add: deref_def exchange_def)
qed

lemma nodes_freed:
  assumes "linked item m (h # as) None" "distinct (h # as)" "2 \<le> length as"
  shows "sort_nodes h None (free (last as) m) = Some (Inl Use_After_Free)"
proof -
  obtain xs z where as: "as = xs @ [z]" using assms(3) by (cases as rule: rev_cases) auto
  let ?m = "free z m"
  have "linked item m (h # xs) (Some z)" using assms(1) linked_append [of item m "h # xs" "[z]" None] by (simp add: as)
  moreover have "\<forall>a \<in> set (h # xs). cells ?m a = cells m a" using assms(2) by (auto simp: as free_def)
  ultimately have l: "linked item ?m (h # xs) (Some z)" using linked_cong by blast
  have z: "cells ?m z = None" "distinct (z # h # xs)" using assms(2) by (auto simp: as free_def)
  from sort_pass_freed [OF l z(2,1)] have p: "sort_pass None h ?m = Some (Inl Use_After_Free)" .
  from assms(3) as obtain x r where xs: "xs = x # r" by (cases xs) auto
  with l have "cells ?m h = Some (Node (item h) (Some x))"
    "\<exists>q. cells ?m x = Some (Node (item x) (Some q))" by (auto split: list.splits)
  with p show ?thesis by (subst sort_nodes.simps) (auto simp: deref_def as)
qed

end
