(* ===== verification/Ls_Hu.thy ===== *)
theory Ls_Hu
  imports Ls_Sort
begin

text \<open>
  The listing \<open>Code/huqingwei/study_file/my_ls3.c\<close>: plain, with hidden names, long, and the listings
  of directories in directories, each under the name of its C function.
\<close>

section \<open>Paths and names\<close>

text \<open>
  \<open>slack n\<close> says that the memory behind an array of \<open>n\<close> pointers may be written to.
\<close>

record hu_ls_env = ls_env +
  slack :: "nat \<Rightarrow> bool"

text \<open>\<open>sprintf(filepath, "%s/%s", dirname, dir_struct->d_name)\<close>\<close>

definition path_in :: "string \<Rightarrow> string \<Rightarrow> string result" where
  "path_in d n = sprintf 4096 (d @ CHR ''/'' # n)"

definition coloured :: "string \<Rightarrow> string \<Rightarrow> string" where
  "coloured c t = CHR 0x1B # ''[1;'' @ c @ ''m'' @ t @ CHR 0x1B # ''[0m''"

definition executable :: "stat_buf \<Rightarrow> bool" where
  "executable b \<longleftrightarrow> st_mode b AND 0x40 \<noteq> 0"

text \<open>A \<open>struct stat\<close> that \<open>stat\<close> did not fill is read.\<close>

definition print_filename :: "hu_ls_env \<Rightarrow> string \<Rightarrow> string \<Rightarrow> (ls, unit) op" where
  "print_filename env filename filepath =
     bnd (lifted (written (stat_of env filepath))) (\<lambda>buf.
       if is_kind S_IFREG buf then
         (if executable buf then print (coloured ''32'' filename @ [newline])
          else print (filename @ [newline]))
       else if is_kind S_IFDIR buf then print (coloured ''34'' filename @ [newline])
       else when_op (is_kind S_IFLNK buf) (print (coloured ''31'' filename @ [newline])))"

text \<open>The first character is written for three kinds of files only. The group is that of the owner's number.\<close>

definition file_type :: "stat_buf \<Rightarrow> string result" where
  "file_type buf =
     (if is_kind S_IFLNK buf then Inr (CHR ''l'' # permissions buf)
      else if is_kind S_IFREG buf then Inr (CHR ''-'' # permissions buf)
      else if is_kind S_IFDIR buf then Inr (CHR ''d'' # permissions buf)
      else Inl Uninit_Read)"

definition tab :: string where
  "tab = [CHR 0x09]"

definition hu_display_attribute :: "hu_ls_env \<Rightarrow> stat_buf \<Rightarrow> (ls, unit) op" where
  "hu_display_attribute env buf =
     bnd (lifted (file_type buf)) (\<lambda>t.
     bnd (print (t @ ''  '')) (\<lambda>_.
     bnd (print (dec (int (st_nlink buf)) @ tab)) (\<lambda>_.
     bnd (lifted (followed (user_of env (st_uid buf)))) (\<lambda>u.
     bnd (print (u @ tab)) (\<lambda>_.
     bnd (lifted (followed (group_of env (st_uid buf)))) (\<lambda>g.
     bnd (print (g @ tab)) (\<lambda>_.
     bnd (print (right_in 6 (dec (st_size buf)) @ tab)) (\<lambda>_.
     bnd (lifted (time_of env (st_mtime buf))) (\<lambda>c.
       print (c @ '' ''))))))))))"

definition file_information :: "hu_ls_env \<Rightarrow> string \<Rightarrow> (ls, unit) op" where
  "file_information env filename =
     bnd (when_op (\<not> can_open env filename) (bnd (print (''line:242'' @ [newline])) (\<lambda>_. complain ''open''))) (\<lambda>_.
     bnd (lifted (written (stat_of env filename))) (hu_display_attribute env))"

section \<open>Names in columns\<close>

text \<open>
  The names of a directory, copied into arrays of 1024 bytes and sorted; \<open>exit(1)\<close> without a directory.
  Then NULL is written behind the array of pointers.
\<close>

definition sorted_names :: "hu_ls_env \<Rightarrow> string \<Rightarrow> string list result" where
  "sorted_names env dirname =
     (case entries env dirname of
        None \<Rightarrow> Inl (Exit 1)
      | Some es \<Rightarrow>
          rbind (rfold (\<lambda>e xs. rbind (strcpy 1024 (fst e)) (\<lambda>n. Inr (xs @ [n]))) es []) (\<lambda>names.
            if slack env (length names) then Inr (bubble_all names) else Inl Out_Of_Bounds))"

text \<open>A file that is not a directory.\<close>

definition show_file :: "stat_buf \<Rightarrow> string \<Rightarrow> (ls, unit) op" where
  "show_file buf dirname =
     bnd (print (''a'' @ [newline])) (\<lambda>_.
       if executable buf then print (coloured ''32'' (CHR '' '' # dirname) @ [newline])
       else print (dirname @ [newline]))"

definition in_fives :: "nat \<times> string \<Rightarrow> (ls, unit) op" where
  "in_fives p = (case p of (i, n) \<Rightarrow>
     bnd (print (left_in 10 n @ ''  '')) (\<lambda>_. when_op ((i + 1) mod 5 = 0) (print [newline])))"

definition bianli_dir_easy_a2 :: "hu_ls_env \<Rightarrow> string \<Rightarrow> (ls, unit) op" where
  "bianli_dir_easy_a2 env dirname =
     bnd (lifted (written (stat_of env dirname))) (\<lambda>buf.
       if is_kind S_IFREG buf then show_file buf dirname
       else bnd (lifted (sorted_names env dirname)) (\<lambda>names.
         bnd (each in_fives (enumerate 0 names)) (\<lambda>_. print [newline])))"

text \<open>\<open>filelist[i][0]\<close> of an empty name is its NUL. A line ends where the index, hidden names counted, is a multiple of 5.\<close>

definition hidden :: "string \<Rightarrow> bool" where
  "hidden n \<longleftrightarrow> take 1 n = ''.''"

definition not_hidden :: "nat \<times> string \<Rightarrow> (ls, unit) op" where
  "not_hidden p = (case p of (i, n) \<Rightarrow>
     when_op (\<not> hidden n)
       (bnd (print (left_in 12 n)) (\<lambda>_. when_op (i mod 5 = 0) (print [newline]))))"

definition bianli_dir_easy :: "hu_ls_env \<Rightarrow> string \<Rightarrow> (ls, unit) op" where
  "bianli_dir_easy env dirname =
     bnd (lifted (written (stat_of env dirname))) (\<lambda>buf.
       if is_kind S_IFREG buf then show_file buf dirname
       else bnd (lifted (sorted_names env dirname)) (\<lambda>names.
         bnd (each not_hidden (enumerate 0 names)) (\<lambda>_. print [newline])))"

text \<open>
  Here \<open>buf\<close> is the local variable of the C function: a \<open>stat\<close> that fails leaves in it what the one
  before wrote. Without a directory \<open>readdir\<close> follows NULL.
\<close>

definition coloured_name :: "hu_ls_env \<Rightarrow> string \<Rightarrow> string \<times> entry_kind \<Rightarrow> stat_buf \<Rightarrow> (ls, stat_buf) op" where
  "coloured_name env dirname e old =
     bnd (lifted (path_in dirname (fst e))) (\<lambda>filepath.
     let buf = (case stat_of env filepath of None \<Rightarrow> old | Some b \<Rightarrow> b) in
     bnd (if is_kind S_IFREG buf then
            (if executable buf then print (coloured ''32'' (fst e) @ tab) else print (fst e @ tab))
          else when_op (is_kind S_IFDIR buf)
            (print (CHR 0x1B # ''[1;34m'' @ fst e @ CHR 0x1B # ''[m'' @ tab))) (\<lambda>_. retn buf))"

definition bianli_dir_easy_a :: "hu_ls_env \<Rightarrow> string \<Rightarrow> (ls, unit) op" where
  "bianli_dir_easy_a env dirname =
     bnd (lifted (written (stat_of env dirname))) (\<lambda>buf.
       if is_kind S_IFREG buf then
         (if executable buf then print (coloured ''32'' dirname @ [newline]) else print (dirname @ [newline]))
       else bnd (lifted (followed (entries env dirname))) (\<lambda>es.
         bnd (fold_op (coloured_name env dirname) es buf) (\<lambda>_. print [newline])))"

section \<open>Long listings\<close>

definition dots :: "string \<Rightarrow> bool" where
  "dots n \<longleftrightarrow> n = ''.'' \<or> n = ''..''"

definition long_line :: "hu_ls_env \<Rightarrow> string \<Rightarrow> string \<times> entry_kind \<Rightarrow> (ls, unit) op" where
  "long_line env dirname e =
     bnd (lifted (path_in dirname (fst e))) (\<lambda>filepath.
     bnd (file_information env filepath) (\<lambda>_. print_filename env (fst e) filepath))"

definition bianli_dir_al :: "hu_ls_env \<Rightarrow> string \<Rightarrow> (ls, unit) op" where
  "bianli_dir_al env dirname =
     bnd (lifted (followed (entries env dirname))) (each (long_line env dirname))"

definition bianli_dir_l :: "hu_ls_env \<Rightarrow> string \<Rightarrow> (ls, unit) op" where
  "bianli_dir_l env dirname =
     bnd (lifted (written (stat_of env dirname))) (\<lambda>buf.
       if is_kind S_IFREG buf then
         bnd (file_information env dirname) (\<lambda>_.
           if executable buf then print (coloured ''32'' dirname @ [newline]) else print (dirname @ [newline]))
       else bnd (lifted (followed (entries env dirname)))
         (each (\<lambda>e. if dots (fst e) then bnd (lifted (path_in dirname (fst e))) (\<lambda>_. retn ())
           else long_line env dirname e)))"

section \<open>Directories in directories\<close>

text \<open>\<open>-r\<close>: the number bounds the depth; no path is longer than its array of 4096 bytes.\<close>

fun bianli_dir :: "nat \<Rightarrow> hu_ls_env \<Rightarrow> string \<Rightarrow> (ls, unit) op" where
  "bianli_dir 0 env dirname = lifted (Inl No_Return)"
| "bianli_dir (Suc k) env dirname =
     bnd (lifted (followed (entries env dirname)))
       (each (\<lambda>e. bnd (lifted (path_in dirname (fst e))) (\<lambda>filepath.
         if snd e = DT_REG then long_line env dirname e
         else if snd e = DT_DIR \<and> \<not> dots (fst e) then
           bnd (long_line env dirname e) (\<lambda>_. bianli_dir k env filepath)
         else retn ())))"

text \<open>
  \<open>-R\<close>: the path looked at in turn \<open>i\<close> is that of entry \<open>i - 1\<close>, the first of entry 0 again.
\<close>

definition looked_at :: "(string \<times> entry_kind) list \<Rightarrow> string list" where
  "looked_at es = map fst (hd es # butlast es)"

definition dir_path :: "hu_ls_env \<Rightarrow> string \<Rightarrow> string \<Rightarrow> string list \<Rightarrow> (ls, string list) op" where
  "dir_path env dirname n dirlist =
     bnd (lifted (path_in dirname n)) (\<lambda>filepath.
       case stat_of env filepath of
         None \<Rightarrow> lifted (Inl (Exit 1))
       | Some buf \<Rightarrow>
           if is_kind S_IFDIR buf then bnd (lifted (strcpy 1024 filepath)) (\<lambda>p. retn (dirlist @ [p]))
           else retn dirlist)"

definition bianli_dir_R :: "hu_ls_env \<Rightarrow> string \<Rightarrow> (ls, unit) op" where
  "bianli_dir_R env dirname =
     (case entries env dirname of
        None \<Rightarrow> lifted (Inl (Exit 1))
      | Some [] \<Rightarrow> lifted (Inl Null_Deref)
      | Some es \<Rightarrow>
          bnd (fold_op (dir_path env dirname) (looked_at es) []) (\<lambda>dirlist.
          bnd (lifted (path_in dirname (fst (last es)))) (\<lambda>_.
            each (\<lambda>p. when_op (p \<noteq> ''..'')
              (bnd (print (p @ '':'' @ [newline])) (\<lambda>_. bianli_dir_easy env p))) (bubble_all dirlist))))"

text \<open>\<open>-lR\<close> and \<open>-aR\<close>: the directories of one directory.\<close>

definition each_dir :: "hu_ls_env \<Rightarrow> (string \<Rightarrow> (ls, unit) op) \<Rightarrow> string \<Rightarrow> (ls, unit) op" where
  "each_dir env show_dir dirname =
     bnd (lifted (followed (entries env dirname)))
       (each (\<lambda>e. bnd (lifted (path_in dirname (fst e))) (\<lambda>filepath.
         when_op (snd e = DT_DIR \<and> fst e \<noteq> ''..'')
           (bnd (print ((if fst e = ''.'' then ''.'' else filepath) @ '':'' @ [newline])) (\<lambda>_.
             show_dir filepath)))))"

definition bianli_dir_lR :: "hu_ls_env \<Rightarrow> string \<Rightarrow> (ls, unit) op" where
  "bianli_dir_lR env dirname = each_dir env (bianli_dir_l env) dirname"

definition bianli_dir_aR :: "hu_ls_env \<Rightarrow> string \<Rightarrow> (ls, unit) op" where
  "bianli_dir_aR env dirname = each_dir env (bianli_dir_easy_a env) dirname"

section \<open>The choice\<close>

text \<open>\<open>argv\<close> with the name of the program first.\<close>

definition by_option :: "hu_ls_env \<Rightarrow> string \<Rightarrow> (string \<Rightarrow> (ls, unit) op)" where
  "by_option env opt =
     (if opt = ''-r'' then bianli_dir 4097 env
      else if opt = ''-l'' then bianli_dir_l env
      else if opt = ''-a'' then bianli_dir_easy_a2 env
      else if opt = ''-al'' \<or> opt = ''-la'' then bianli_dir_al env
      else if opt = ''-R'' then bianli_dir_R env
      else if opt = ''-lR'' \<or> opt = ''-Rl'' then bianli_dir_lR env
      else if opt = ''-aR'' \<or> opt = ''-lR'' then bianli_dir_aR env
      else (\<lambda>_. retn ()))"

definition known_options :: "string set" where
  "known_options = {''-r'', ''-l'', ''-a'', ''-al'', ''-la'', ''-R'', ''-lR'', ''-Rl'', ''-aR''}"

definition hu_ls_main :: "hu_ls_env \<Rightarrow> string list \<Rightarrow> (ls, unit) op" where
  "hu_ls_main env argv =
     (if filter (\<lambda>a. take 1 a = ''-'') argv = [] then
        (if length argv = 1 then bianli_dir_easy env ''.''
         else bnd (lifted (strcpy 4096 (argv ! 1))) (bianli_dir_easy env))
      else if length argv = 1 then lifted (Inl Null_Deref)
      else if argv ! 1 \<notin> known_options then retn ()
      else if length argv = 2 then by_option env (argv ! 1) ''.''
      else bnd (lifted (strcpy 4096 (argv ! 2))) (by_option env (argv ! 1)))"

end
