(* ===== verification/Ls_Wu.thy ===== *)
theory Ls_Wu
  imports Ls_Sort
begin

text \<open>
  The listing \<open>Code/wuxinyue/LS.c\<close> (and its copy \<open>ls.c\<close>): options, names in columns, long lines, and
  the listing of directories in directories, each under the name of its C function.
\<close>

section \<open>State\<close>

text \<open>
  \<open>stack_rest i\<close> is what row \<open>i\<close> of the array of paths held behind the part that is copied into it, up
  to a NUL.
\<close>

record wu_ls_env = ls_env +
  stack_rest :: "nat \<Rightarrow> string"

record wls = ls +
  g_leave_len :: int
  g_maxlen :: int

definition wls_start :: wls where
  "wls_start = \<lparr>printed = [], complaints = [], g_leave_len = 80, g_maxlen = 0\<rparr>"

section \<open>One file\<close>

text \<open>Nothing is printed for a file of no known type.\<close>

definition type_char :: "stat_buf \<Rightarrow> string" where
  "type_char buf =
     (if is_kind S_IFLNK buf then ''l'' else if is_kind S_IFREG buf then ''-''
      else if is_kind S_IFDIR buf then ''d'' else if is_kind S_IFCHR buf then ''c''
      else if is_kind S_IFBLK buf then ''b'' else if is_kind S_IFIFO buf then ''f''
      else if is_kind S_IFSOCK buf then ''s'' else [])"

definition wu_display_attribute :: "wu_ls_env \<Rightarrow> stat_buf \<Rightarrow> (wls, unit) op" where
  "wu_display_attribute env buf =
     bnd (print (type_char buf @ permissions buf @ ''    '')) (\<lambda>_.
     bnd (print (right_in 4 (dec (int (st_nlink buf))) @ '' '')) (\<lambda>_.
     bnd (lifted (followed (user_of env (st_uid buf)))) (\<lambda>u.
     bnd (print (left_in 8 u)) (\<lambda>_.
     bnd (lifted (followed (group_of env (st_gid buf)))) (\<lambda>g.
     bnd (print (left_in 8 g)) (\<lambda>_.
     bnd (print (right_in 6 (dec (st_size buf)))) (\<lambda>_.
     bnd (lifted (time_of env (st_mtime buf))) (\<lambda>c.
       print (''  '' @ c)))))))))"

text \<open>A name in its column; a new line when the row has no room for the longest name.\<close>

definition wu_display_single :: "string \<Rightarrow> (wls, unit) op" where
  "wu_display_single name =
     bnd (getting (\<lambda>s. g_leave_len s < g_maxlen s)) (\<lambda>wrap.
     bnd (when_op wrap (bnd (print [newline]) (\<lambda>_. setting (\<lambda>s. s\<lparr>g_leave_len := 80\<rparr>)))) (\<lambda>_.
     bnd (getting g_maxlen) (\<lambda>longest.
     bnd (print (left_in (nat longest) name @ ''  '')) (\<lambda>_.
       setting (\<lambda>s. s\<lparr>g_leave_len := g_leave_len s - (longest + 2)\<rparr>)))))"

text \<open>What follows the last slash, collected in an array of \<open>cap\<close> bytes.\<close>

fun take_out :: "nat \<Rightarrow> string \<Rightarrow> string \<Rightarrow> string result" where
  "take_out cap name [] = (if length name < cap then Inr name else Inl Buffer_Overflow)"
| "take_out cap name (c # path) =
     (if c = CHR ''/'' then take_out cap [] path
      else if length name < cap then take_out cap (name @ [c]) path
      else Inl Buffer_Overflow)"

definition dotted :: "string \<Rightarrow> bool" where
  "dotted n \<longleftrightarrow> take 1 n = ''.''"

section \<open>Directories in directories\<close>

text \<open>
  \<open>display_r\<close>. The path is extended in place, in an array of \<open>cap\<close> bytes, and is not cut back; the
  result is what the array holds in the end. \<open>stat\<close> gets the bare name. \<open>buf\<close> is \<open>None\<close> until a
  \<open>stat\<close> has filled it.
\<close>

fun display_r :: "nat \<Rightarrow> nat \<Rightarrow> wu_ls_env \<Rightarrow> string \<Rightarrow> (wls, string) op" where
  "display_r 0 cap env p = lifted (Inl No_Return)"
| "display_r (Suc k) cap env p =
     bnd (print (newline # p @ '':'' @ [newline])) (\<lambda>_.
     bnd (lifted (followed (entries env p))) (\<lambda>es.
     bnd (each (\<lambda>e. when_op (\<not> dotted (fst e)) (wu_display_single (fst e))) es) (\<lambda>_.
     bnd (fold_op (\<lambda>e x.
            if dotted (fst e) then retn x
            else (case x of (buf, q) \<Rightarrow>
              let buf' = (case stat_of env (fst e) of None \<Rightarrow> buf | Some b \<Rightarrow> Some b) in
              bnd (lifted (written buf')) (\<lambda>b.
                if is_kind S_IFDIR b then
                  bnd (lifted (strcpy cap (q @ CHR ''/'' # fst e))) (\<lambda>temp.
                  bnd (display_r k cap env temp) (\<lambda>r. retn (buf', r)))
                else retn (buf', q)))) es (None, p))
       (\<lambda>x. retn (snd x)))))"

text \<open>\<open>getcwd(pathname1, MAX_SIZE)\<close> fails for a longer path and leaves the array unwritten.\<close>

definition from_working_dir :: "wu_ls_env \<Rightarrow> (wls, unit) op" where
  "from_working_dir env =
     (if length (working_dir env) < 1000 then
        bnd (display_r 1000 1000 env (working_dir env)) (\<lambda>_. retn ())
      else lifted (Inl Uninit_Read))"

definition long_name :: "wu_ls_env \<Rightarrow> string \<Rightarrow> stat_buf \<Rightarrow> string \<Rightarrow> (wls, unit) op" where
  "long_name env gap buf name =
     bnd (wu_display_attribute env buf) (\<lambda>_. print (gap @ name @ [newline]))"

definition wu_display :: "wu_ls_env \<Rightarrow> nat \<Rightarrow> string \<Rightarrow> (wls, unit) op" where
  "wu_display env fl pathname =
     bnd (lifted (take_out 256 [] pathname)) (\<lambda>name.
       case lstat_of env pathname of
         None \<Rightarrow> lifted (Inl (Exit 1))
       | Some buf \<Rightarrow>
           if fl = 0 then when_op (\<not> dotted name) (wu_display_single name)
           else if fl = 1 then wu_display_single name
           else if fl = 2 then when_op (\<not> dotted name) (long_name env ''  '' buf name)
           else if fl = 3 then long_name env ''  '' buf name
           else if fl = 4 then from_working_dir env
           else if fl = 5 then when_op (\<not> dotted name) (wu_display_single name)
           else if fl = 6 then when_op (\<not> dotted name) (long_name env '' '' buf name)
           else when_op (fl = 7) (long_name env '' '' buf name))"

section \<open>One directory\<close>

definition longest :: "string list \<Rightarrow> int \<Rightarrow> int" where
  "longest ns m = foldl (\<lambda>m n. max m (int (length n))) m ns"

definition row_paths :: "wu_ls_env \<Rightarrow> string \<Rightarrow> string list \<Rightarrow> string list result" where
  "row_paths env path ns = rfold (\<lambda>(i, n) rows.
     rbind (strcpy 4097 (path @ stack_rest env i @ n)) (\<lambda>r. Inr (rows @ [r]))) (enumerate 0 ns) []"

text \<open>With \<open>-R\<close> alone it is the last path that is displayed, or an unwritten one.\<close>

definition wu_display_dir :: "wu_ls_env \<Rightarrow> nat \<Rightarrow> string \<Rightarrow> (wls, unit) op" where
  "wu_display_dir env flag_param path =
     (case entries env path of
        None \<Rightarrow> lifted (Inl (Exit 1))
      | Some es \<Rightarrow>
          bnd (setting (\<lambda>s. s\<lparr>g_maxlen := longest (map fst es) (g_maxlen s)\<rparr>)) (\<lambda>_.
            if 256 < length es then lifted (Inl (Exit 1))
            else
              bnd (lifted (row_paths env path (map fst es))) (\<lambda>rows.
              let filenames = bubble_fewer rows in
              bnd (if flag_param = 4 then
                     (if filenames = [] then lifted (Inl Uninit_Read)
                      else wu_display env flag_param (last filenames))
                   else each (wu_display env flag_param) filenames) (\<lambda>_.
                when_op (\<not> bit flag_param 1) (print [newline])))))"

section \<open>The options\<close>

text \<open>The characters behind the dashes go into an array of 32 bytes; their NUL is written after they have been read.\<close>

definition dashed :: "string \<Rightarrow> bool" where
  "dashed a \<longleftrightarrow> take 1 a = ''-''"

definition option_chars :: "string list \<Rightarrow> string result" where
  "option_chars args =
     (let param = concat (map tl (filter dashed args)) in
      if length param \<le> 32 then Inr param else Inl Out_Of_Bounds)"

fun wu_flags :: "string \<Rightarrow> nat \<Rightarrow> nat option" where
  "wu_flags [] f = Some f"
| "wu_flags (c # cs) f =
     (if c = CHR ''a'' then wu_flags cs (f OR 1)
      else if c = CHR ''l'' then wu_flags cs (f OR 2)
      else if c = CHR ''R'' then wu_flags cs (f OR 4)
      else None)"

text \<open>A name that is not an option: a slash is appended to a directory that has none.\<close>

definition wu_target :: "wu_ls_env \<Rightarrow> nat \<Rightarrow> string \<Rightarrow> (wls, unit) op" where
  "wu_target env flag_param arg =
     bnd (lifted (strcpy 4097 arg)) (\<lambda>path.
       case stat_of env path of
         None \<Rightarrow> lifted (Inl (Exit 1))
       | Some buf \<Rightarrow>
           if is_kind S_IFDIR buf then
             bnd (if path = [] then lifted (Inl Out_Of_Bounds)
                  else if last path = CHR ''/'' then retn path
                  else lifted (strcpy 4097 (path @ ''/''))) (\<lambda>path'.
               if 4 \<le> flag_param then bnd (display_r 4097 4097 env path') (\<lambda>_. retn ())
               else wu_display_dir env flag_param path')
           else wu_display env flag_param path)"

definition wu_ls_main :: "wu_ls_env \<Rightarrow> string list \<Rightarrow> (wls, unit) op" where
  "wu_ls_main env args =
     bnd (lifted (option_chars args)) (\<lambda>param.
       case wu_flags param 0 of
         None \<Rightarrow> lifted (Inl (Exit 1))
       | Some flag_param \<Rightarrow>
           if length param = 32 then lifted (Inl Out_Of_Bounds)
           else if list_all dashed args then wu_display_dir env flag_param ''./''
           else each (wu_target env flag_param) (filter (\<lambda>a. \<not> dashed a) args))"

end
