(* ===== verification/Ls_Wu1.thy ===== *)
theory Ls_Wu1
  imports Ls_Wu
begin

text \<open>
  The listing \<open>Code/wuxinyue/ls1.c\<close>: the options are added up, the names sorted, and directories in
  directories are visited through a block of memory that is never filled.
\<close>

section \<open>One file\<close>

text \<open>
  \<open>row_text i\<close> is what row \<open>i\<close> of the array of paths held; \<open>block_text p\<close> is the text in the block allocated
  for the path \<open>p\<close>; \<open>denied\<close> says that \<open>errno\<close> is 13 when \<open>lstat\<close> of a path fails.
\<close>

record one_env = ls_env +
  row_text :: "nat \<Rightarrow> string"
  block_text :: "string \<Rightarrow> string"
  denied :: "string \<Rightarrow> bool"

definition one_attribute :: "stat_buf \<Rightarrow> string" where
  "one_attribute buf =
     (if is_kind S_IFLNK buf then CHR ''l'' else if is_kind S_IFREG buf then CHR ''-''
      else if is_kind S_IFDIR buf then CHR ''d'' else if is_kind S_IFCHR buf then CHR ''c''
      else if is_kind S_IFBLK buf then CHR ''b'' else if is_kind S_IFIFO buf then CHR ''f''
      else if is_kind S_IFSOCK buf then CHR ''s'' else CHR ''-'') # permissions buf"

text \<open>\<open>(int)buf.st_size\<close>\<close>

definition as_int32 :: "int \<Rightarrow> int" where
  "as_int32 i = sint (word_of_int i :: 32 word)"

definition one_display_attribute :: "one_env \<Rightarrow> stat_buf \<Rightarrow> (ls, unit) op" where
  "one_display_attribute env buf =
     bnd (print (one_attribute buf @ '' '' @ dec (as_int32 (int (st_nlink buf))) @ '' '')) (\<lambda>_.
     bnd (lifted (followed (user_of env (st_uid buf)))) (\<lambda>u.
     bnd (lifted (followed (group_of env (st_gid buf)))) (\<lambda>g.
     bnd (print (u @ '' '' @ g @ '' '' @ dec (as_int32 (st_size buf)) @ '' '')) (\<lambda>_.
     bnd (lifted (time_of env (st_mtime buf))) (\<lambda>c. print (''    '' @ c))))))"

section \<open>Directories in directories\<close>

text \<open>The paths of the entries, in an array of 256 rows of 260 bytes.\<close>

definition all_names :: "string \<Rightarrow> (string \<times> entry_kind) list \<Rightarrow> string list result" where
  "all_names path es = rfold (\<lambda>e rows.
     if length rows < 256 then rbind (strcpy 260 (path @ CHR ''/'' # fst e)) (\<lambda>r. Inr (rows @ [r]))
     else Inl Out_Of_Bounds) es []"

text \<open>
  One entry: \<open>buff\<close> keeps what it held when \<open>lstat\<close> fails. A directory is visited by the text of a new
  block, not by its path.
\<close>

definition one_entry ::
  "one_env \<Rightarrow> nat \<Rightarrow> (string \<Rightarrow> (ls, unit) op) \<Rightarrow> string \<Rightarrow> stat_buf option \<Rightarrow> (ls, stat_buf option) op" where
  "one_entry env fl visit path buff =
     bnd (lifted (take_out 260 [] path)) (\<lambda>name.
       if dotted name then bnd (print [newline]) (\<lambda>_. retn buff)
       else
         bnd (when_op (lstat_of env path = None) (print ''error242'')) (\<lambda>_.
         let buff' = (case lstat_of env path of None \<Rightarrow> buff | Some b \<Rightarrow> Some b) in
         bnd (lifted (written buff')) (\<lambda>b.
         bnd (if is_kind S_IFDIR b then visit (block_text env path)
              else bnd (when_op (11 < fl) (one_display_attribute env b)) (\<lambda>_.
                print (''  '' @ name @ [newline]))) (\<lambda>_. retn buff'))))"

fun display_R :: "nat \<Rightarrow> one_env \<Rightarrow> nat \<Rightarrow> string \<Rightarrow> (ls, unit) op" where
  "display_R 0 env fl path = lifted (Inl No_Return)"
| "display_R (Suc k) env fl path =
     (case lstat_of env path of
        None \<Rightarrow> when_op (\<not> denied env path) (print (''error di:  '' @ path @ [newline]))
      | Some buf \<Rightarrow>
          if is_kind S_IFDIR buf then
            bnd (print (newline # path @ [newline])) (\<lambda>_.
              case entries env path of
                None \<Rightarrow> lifted (Inl (Exit 1))
              | Some es \<Rightarrow>
                  bnd (lifted (all_names path es)) (\<lambda>rows.
                  bnd (fold_op (one_entry env fl (display_R k env fl)) rows None) (\<lambda>_. retn ())))
          else
            bnd (lifted (take_out 260 [] path)) (\<lambda>a.
              if dotted a then retn ()
              else if 11 < fl then lifted (Inl Uninit_Read)
              else print (''  '' @ a @ [newline])))"

section \<open>One directory\<close>

text \<open>\<open>case 13\<close> has no \<open>break\<close>.\<close>

definition one_display :: "nat \<Rightarrow> one_env \<Rightarrow> nat \<Rightarrow> string \<Rightarrow> (ls, unit) op" where
  "one_display k env fl pathname =
     (case lstat_of env pathname of
        None \<Rightarrow> lifted (Inl (Exit 1))
      | Some buf \<Rightarrow>
          bnd (lifted (take_out 260 [] pathname)) (\<lambda>name.
          let all_of_it =
            bnd (one_display_attribute env buf) (\<lambda>_.
            bnd (print (''  .'' @ [newline])) (\<lambda>_.
            bnd (one_display_attribute env buf) (\<lambda>_.
            bnd (print (''  ..'' @ [newline])) (\<lambda>_. display_R k env fl pathname)))) in
          if fl = 1 then when_op (\<not> dotted name) (print (left_in 6 name @ ''  ''))
          else if fl = 3 then print (left_in 6 name @ ''  '')
          else if fl = 5 then when_op (\<not> dotted name)
            (bnd (one_display_attribute env buf) (\<lambda>_. print ('' '' @ name @ [newline])))
          else if fl = 7 then bnd (one_display_attribute env buf) (\<lambda>_. print (''  '' @ name @ [newline]))
          else if fl = 9 then display_R k env fl pathname
          else if fl = 11 then bnd (print (''.  ..'' @ [newline])) (\<lambda>_. display_R k env fl pathname)
          else if fl = 13 then
            bnd (one_display_attribute env buf) (\<lambda>_.
            bnd (print '' '') (\<lambda>_. bnd (display_R k env fl pathname) (\<lambda>_. all_of_it)))
          else when_op (fl = 15) all_of_it))"

text \<open>
  The rows are appended to what they held; then the slash is put where the path would end.
\<close>

definition full_names :: "one_env \<Rightarrow> string \<Rightarrow> string list \<Rightarrow> string list result" where
  "full_names env path ns = rfold (\<lambda>(i, n) rows.
     rbind (strcpy 260 (row_text env i @ path)) (\<lambda>r.
     rbind (strcpy 260 (take (length path) r @ CHR ''/'' # n)) (\<lambda>r'. Inr (rows @ [r'])))) (enumerate 0 ns) []"

definition file_names :: "(string \<times> entry_kind) list \<Rightarrow> string list result" where
  "file_names es = rfold (\<lambda>e rows.
     if length rows < 256 then rbind (strcpy 260 (fst e)) (\<lambda>r. Inr (rows @ [r]))
     else Inl Out_Of_Bounds) es []"

definition one_display_dir :: "nat \<Rightarrow> one_env \<Rightarrow> nat \<Rightarrow> string \<Rightarrow> (ls, unit) op" where
  "one_display_dir k env fl path =
     (case entries env path of
        None \<Rightarrow> lifted (Inl (Exit 1))
      | Some es \<Rightarrow>
          bnd (lifted (rbind (file_names es) (\<lambda>ns. full_names env path (bubble_square ns)))) (\<lambda>rows.
          bnd (lifted (rfold (\<lambda>r xs. rbind (take_out 260 [] r) (\<lambda>n. Inr (xs @ [n]))) rows [])) (\<lambda>names.
            each (\<lambda>(r, n).
              bnd (when_op (\<not> (fl \<in> {9, 11, 13, 15} \<and> dotted n)) (one_display k env fl r)) (\<lambda>_.
                print [newline])) (zip rows names))))"

section \<open>The options\<close>

fun one_flags :: "string \<Rightarrow> nat \<Rightarrow> nat result" where
  "one_flags [] f = Inr f"
| "one_flags (c # cs) f =
     (if c = CHR ''a'' then one_flags cs (f + 2)
      else if c = CHR ''l'' then one_flags cs (f + 4)
      else if c = CHR ''R'' then one_flags cs (f + 8)
      else Inl (Exit 1))"

definition one_main :: "nat \<Rightarrow> one_env \<Rightarrow> string list \<Rightarrow> (ls, unit) op" where
  "one_main k env args =
     bnd (lifted (rbind (option_chars args) (\<lambda>param. rbind (one_flags param 1) (\<lambda>f.
       if length param = 32 then Inl Out_Of_Bounds else Inr f)))) (\<lambda>fl.
       if args = [] then one_display_dir k env fl ''.''
       else
         bnd (lifted (if length args = 1 then (if fl = 1 then strcpy 260 (hd args) else Inr ''.'')
                      else if length args = 2 then strcpy 260 (args ! 1) else Inl Uninit_Read)) (\<lambda>path.
           case stat_of env path of
             None \<Rightarrow> lifted (Inl (Exit 1))
           | Some buf \<Rightarrow>
               if is_kind S_IFDIR buf then one_display_dir k env fl path
               else one_display k env fl path))"

end
