(* ===== verification/Ls_Liu.thy ===== *)
theory Ls_Liu
  imports Ls_Sort
begin

text \<open>
  The listing \<open>Code/liuting1/ls.c\<close> and the version before it, \<open>lt_ls1.c\<close>: the nodes of a directory, the
  options, and what each option prints.
\<close>

section \<open>One file\<close>

text \<open>\<open>%d\<close> of a 64-bit number prints its low 32 bits.\<close>

definition as_int :: "int \<Rightarrow> int" where
  "as_int i = sint (word_of_int i :: 32 word)"

text \<open>A link is shown as \<open>1\<close>.\<close>

definition liu_type_char :: "stat_buf \<Rightarrow> string" where
  "liu_type_char buf =
     (if is_kind S_IFLNK buf then ''1'' else if is_kind S_IFREG buf then ''-''
      else if is_kind S_IFDIR buf then ''d'' else if is_kind S_IFCHR buf then ''c''
      else if is_kind S_IFBLK buf then ''b'' else if is_kind S_IFIFO buf then ''f''
      else if is_kind S_IFSOCK buf then ''s'' else [])"

text \<open>\<open>memset(&buf, 0, ..)\<close> in front of a \<open>stat\<close> that may fail.\<close>

definition zero_stat :: stat_buf where
  "zero_stat = \<lparr>st_mode = 0, st_nlink = 0, st_uid = 0, st_gid = 0, st_size = 0, st_mtime = 0\<rparr>"

definition liu_display_attribute :: "'e ls_env_scheme \<Rightarrow> string \<Rightarrow> (ls, unit) op" where
  "liu_display_attribute env name =
     (let buf = (case stat_of env name of None \<Rightarrow> zero_stat | Some b \<Rightarrow> b) in
     bnd (print (liu_type_char buf @ permissions buf @ ''  '')) (\<lambda>_.
     bnd (print (left_in 4 (dec (as_int (int (st_nlink buf)))))) (\<lambda>_.
     bnd (lifted (followed (user_of env (st_uid buf)))) (\<lambda>u.
     bnd (print (left_in 6 u)) (\<lambda>_.
     bnd (lifted (followed (group_of env (st_gid buf)))) (\<lambda>g.
     bnd (print (left_in 6 g)) (\<lambda>_.
     bnd (print (right_in 6 (dec (as_int (st_size buf))))) (\<lambda>_.
     bnd (lifted (time_of env (st_mtime buf))) (\<lambda>c.
       print (''  -'' @ c))))))))))"

definition liu_display_single :: "string \<Rightarrow> (ls, unit) op" where
  "liu_display_single name = print (left_in 20 name)"

section \<open>The options\<close>

text \<open>
  \<open>param[i - 1]\<close> is \<open>argv[i]\<close> for an option and unwritten otherwise; \<open>t\<close> counts the options, and as many
  rows, of 20 bytes, are read from the first on.
\<close>

definition is_option :: "string \<Rightarrow> bool" where
  "is_option a \<longleftrightarrow> take 1 a = ''-''"

definition param_rows :: "string list \<Rightarrow> string option list result" where
  "param_rows args =
     (if \<exists>i < length args. is_option (args ! i) \<and> (20 \<le> i \<or> 20 \<le> length (args ! i)) then Inl Buffer_Overflow
      else Inr (map (\<lambda>a. if is_option a then Some a else None) args))"

definition opt_count :: "string list \<Rightarrow> nat" where
  "opt_count args = length (filter is_option args)"

fun char_flags :: "string \<Rightarrow> nat \<Rightarrow> nat result" where
  "char_flags [] f = Inr f"
| "char_flags (c # cs) f =
     (if c = CHR ''a'' then char_flags cs (f OR 1)
      else if c = CHR ''l'' then char_flags cs (f OR 2)
      else if c = CHR ''R'' then char_flags cs (f OR 4)
      else Inl (Exit 1))"

definition flag_param :: "string option list \<Rightarrow> nat \<Rightarrow> nat result" where
  "flag_param rows t = rfold (\<lambda>r f. rbind (written r) (\<lambda>p. char_flags (tl p) f)) (take t rows) 0"

section \<open>The nodes\<close>

text \<open>
  The nodes behind \<open>phead\<close> as a list: the path, and the name, which is not written for a file that is not a
  directory. They are appended, walked through and shared with nothing else.
\<close>

type_synonym lnode = "string \<times> string option"

definition shown_hidden :: "string \<Rightarrow> bool" where
  "shown_hidden n \<longleftrightarrow> take 1 n = ''.''"

text \<open>\<open>if (t->filename[0] != '.')\<close>\<close>

definition unless_hidden :: "lnode \<Rightarrow> (string \<Rightarrow> (ls, unit) op) \<Rightarrow> (ls, unit) op" where
  "unless_hidden n m = bnd (lifted (written (snd n))) (\<lambda>name. when_op (\<not> shown_hidden name) (m name))"

text \<open>A name, and the count; a line ends when that is a multiple of 3.\<close>

definition new_row :: "nat \<Rightarrow> (ls, unit) op" where
  "new_row i = when_op (i mod 3 = 0) (print [newline])"

definition analy_dirno :: "lnode list \<Rightarrow> (ls, unit) op" where
  "analy_dirno ns = bnd (fold_op (\<lambda>n i.
     bnd (lifted (written (snd n))) (\<lambda>name.
     bnd (liu_display_single name) (\<lambda>_.
     bnd (new_row (Suc i)) (\<lambda>_. retn (Suc i))))) ns 1) (\<lambda>_. retn ())"

definition analy_dirA :: "lnode list \<Rightarrow> (ls, unit) op" where
  "analy_dirA ns = bnd (fold_op (\<lambda>n i.
     bnd (lifted (written (snd n))) (\<lambda>name.
       if shown_hidden name then retn i
       else bnd (liu_display_single name) (\<lambda>_. bnd (new_row (Suc i)) (\<lambda>_. retn (Suc i))))) ns 1)
     (\<lambda>_. print [newline])"

definition long_row :: "'e ls_env_scheme \<Rightarrow> lnode \<Rightarrow> string \<Rightarrow> (ls, unit) op" where
  "long_row env n name =
     bnd (liu_display_attribute env (fst n)) (\<lambda>_. print (''   '' @ name @ [newline]))"

definition analy_dirl :: "'e ls_env_scheme \<Rightarrow> lnode list \<Rightarrow> (ls, unit) op" where
  "analy_dirl env ns = each (\<lambda>n. unless_hidden n (long_row env n)) ns"

definition analy_dirAL :: "'e ls_env_scheme \<Rightarrow> lnode list \<Rightarrow> (ls, unit) op" where
  "analy_dirAL env ns = each (\<lambda>n.
     bnd (liu_display_attribute env (fst n)) (\<lambda>_.
     bnd (lifted (written (snd n))) (\<lambda>name. print (''   '' @ name @ [newline])))) ns"

text \<open>Here a line ends after hidden names too, as long as the count stays.\<close>

definition names_R :: "lnode list \<Rightarrow> (ls, unit) op" where
  "names_R ns = bnd (fold_op (\<lambda>n i.
     bnd (lifted (written (snd n))) (\<lambda>name.
     let j = (if shown_hidden name then i else Suc i) in
     bnd (when_op (\<not> shown_hidden name) (liu_display_single name)) (\<lambda>_.
     bnd (new_row j) (\<lambda>_. retn j)))) ns 1) (\<lambda>_. retn ())"

definition names_RL :: "'e ls_env_scheme \<Rightarrow> lnode list \<Rightarrow> (ls, unit) op" where
  "names_RL env ns = each (\<lambda>n. unless_hidden n (\<lambda>name.
     bnd (liu_display_attribute env (fst n)) (\<lambda>_. print (name @ [newline])))) ns"

text \<open>The directories among the nodes, in \<open>analy_dirR\<close> and \<open>analy_dirRL\<close>.\<close>

definition inner_dirs :: "'e ls_env_scheme \<Rightarrow> (string \<Rightarrow> (ls, unit) op) \<Rightarrow> lnode list \<Rightarrow> (ls, unit) op" where
  "inner_dirs env visit ns = each (\<lambda>n. unless_hidden n (\<lambda>name.
     bnd (lifted (written (stat_of env (fst n)))) (\<lambda>buf.
       when_op (is_kind S_IFDIR buf)
         (bnd (print (name @ '':'' @ [newline])) (\<lambda>_. visit (fst n)))))) ns"

definition analy_dirR :: "'e ls_env_scheme \<Rightarrow> (string \<Rightarrow> (ls, unit) op) \<Rightarrow> lnode list \<Rightarrow> (ls, unit) op" where
  "analy_dirR env visit ns =
     bnd (names_R ns) (\<lambda>_. bnd (inner_dirs env visit ns) (\<lambda>_. print [newline]))"

definition analy_dirRL :: "'e ls_env_scheme \<Rightarrow> (string \<Rightarrow> (ls, unit) op) \<Rightarrow> lnode list \<Rightarrow> (ls, unit) op" where
  "analy_dirRL env visit ns = bnd (names_RL env ns) (\<lambda>_. inner_dirs env visit ns)"

text \<open>\<open>visit\<close> stands for \<open>analy_dirr\<close>, which calls \<open>analy_param\<close>.\<close>

definition analy_param ::
  "'e ls_env_scheme \<Rightarrow> (string \<Rightarrow> (ls, unit) op) \<Rightarrow> string option list \<Rightarrow> nat \<Rightarrow> lnode list \<Rightarrow> (ls, unit) op"
where
  "analy_param env visit rows t ns =
     bnd (lifted (flag_param rows t)) (\<lambda>f.
       if f = 0 then analy_dirno ns
       else if f = 1 then analy_dirA ns
       else if f = 2 then analy_dirl env ns
       else if f = 3 then analy_dirAL env ns
       else if f = 4 \<or> f = 5 then analy_dirR env visit ns
       else analy_dirRL env visit ns)"

section \<open>Reading a directory\<close>

text \<open>The path with its slash, in an array of \<open>cap\<close> bytes.\<close>

definition with_slash :: "nat \<Rightarrow> string \<Rightarrow> string result" where
  "with_slash cap dirr =
     (if dirr = [] then Inl Out_Of_Bounds
      else if last dirr = CHR ''/'' then Inr dirr else strcpy cap (dirr @ ''/''))"

text \<open>The nodes: arrays of \<open>room\<close> bytes for the path; its last NUL goes to \<open>len + strlen(d_name) + 1\<close>.\<close>

definition dir_nodes :: "nat \<Rightarrow> nat \<Rightarrow> nat \<Rightarrow> string \<Rightarrow> (string \<times> entry_kind) list \<Rightarrow> lnode list result" where
  "dir_nodes room names len dirr es = rfold (\<lambda>e ns.
     rbind (strcpy names (fst e)) (\<lambda>n.
       if len + length n + 1 < room then Inr (ns @ [(dirr @ n, Some n)]) else Inl Buffer_Overflow)) es []"

text \<open>
  \<open>analy_dirr\<close> of \<open>ls.c\<close>. The loop that is to sort begins with \<open>f\<close> at NULL and so is never entered.
  The first number bounds the depth; no path is longer than its array.
\<close>

fun analy_dirr :: "nat \<Rightarrow> 'e ls_env_scheme \<Rightarrow> string option list \<Rightarrow> nat \<Rightarrow> nat \<Rightarrow> string \<Rightarrow> (ls, unit) op" where
  "analy_dirr 0 env rows t cap dirr = lifted (Inl No_Return)"
| "analy_dirr (Suc k) env rows t cap dirr =
     bnd (lifted (written (stat_of env dirr))) (\<lambda>buf.
       if is_kind S_IFDIR buf then
         bnd (lifted (with_slash cap dirr)) (\<lambda>path.
           case entries env path of
             None \<Rightarrow> complain ''opendir''
           | Some es \<Rightarrow>
               bnd (lifted (dir_nodes 1000 500 (length dirr) path es))
                 (analy_param env (analy_dirr k env rows t 1000) rows t))
       else
         bnd (lifted (strcpy 1000 dirr)) (\<lambda>p.
           analy_param env (analy_dirr k env rows t 1000) rows t [(p, None)]))"

definition liu_ls_main :: "'e ls_env_scheme \<Rightarrow> string list \<Rightarrow> (ls, unit) op" where
  "liu_ls_main env args =
     bnd (lifted (param_rows args)) (\<lambda>rows.
     let t = opt_count args in
     bnd (lifted (if t = length args then Inr ''./'' else strcpy 256 (last args)))
       (analy_dirr 1001 env rows t 256))"

section \<open>The version before it\<close>

text \<open>
  \<open>lt_ls1.c\<close>: the nodes are linked behind \<open>phead\<close>, the last one is freed, and then they are sorted by
  name. Without entries \<open>pnew\<close> was never written.
\<close>

definition link_nodes :: "string list \<Rightarrow> string mem" where
  "link_nodes ns = \<lparr>cells = (\<lambda>a. if a = 0 then Some (Node [] (if ns = [] then None else Some 1))
       else if a \<le> length ns then Some (Node (ns ! (a - 1)) (if a = length ns then None else Some (Suc a)))
       else None),
     brk = Suc (length ns)\<rparr>"

definition sort_freed :: "string list \<Rightarrow> string mem result" where
  "sort_freed ns =
     (if ns = [] then Inl Uninit_Read
      else returning (sort_nodes 0 None (free (length ns) (link_nodes ns))))"

text \<open>The names behind \<open>phead\<close>, as the listing would print them.\<close>

partial_function (option) names_from :: "string mem \<Rightarrow> string list \<Rightarrow> nat option \<Rightarrow> string list result option" where
  "names_from m ns p =
     (case p of
        None \<Rightarrow> Some (Inr ns)
      | Some a \<Rightarrow>
          (case deref m p of
             Inl e \<Rightarrow> Some (Inl e)
           | Inr n \<Rightarrow> names_from m (ns @ [node_item n]) (node_next n)))"

definition listed_freed :: "string list \<Rightarrow> string list result" where
  "listed_freed ns =
     rbind (sort_freed ns) (\<lambda>m. rbind (deref m (Some 0)) (\<lambda>h. returning (names_from m [] (node_next h))))"

text \<open>Each name with the path in front of it.\<close>

definition old_nodes :: "string \<Rightarrow> lnode list \<Rightarrow> lnode list result" where
  "old_nodes path ns =
     rbind (listed_freed (map (the \<circ> snd) ns)) (\<lambda>names. Inr (map (\<lambda>n. (path @ n, Some n)) names))"

definition old_dirno :: "lnode list \<Rightarrow> (ls, unit) op" where
  "old_dirno ns = names_R ns"

definition old_param ::
  "'e ls_env_scheme \<Rightarrow> (string \<Rightarrow> (ls, unit) op) \<Rightarrow> string option list \<Rightarrow> nat \<Rightarrow> lnode list \<Rightarrow> (ls, unit) op"
where
  "old_param env visit rows t ns =
     bnd (lifted (flag_param rows t)) (\<lambda>f.
       if f = 0 then old_dirno ns else analy_param env visit rows t ns)"

fun old_dirr :: "nat \<Rightarrow> 'e ls_env_scheme \<Rightarrow> string option list \<Rightarrow> nat \<Rightarrow> string \<Rightarrow> (ls, unit) op" where
  "old_dirr 0 env rows t dirr = lifted (Inl No_Return)"
| "old_dirr (Suc k) env rows t dirr =
     bnd (lifted (written (stat_of env dirr))) (\<lambda>buf.
       if is_kind S_IFDIR buf then
         bnd (lifted (with_slash 256 dirr)) (\<lambda>path.
         bnd (lifted (followed (entries env path))) (\<lambda>es.
         bnd (lifted (dir_nodes 256 256 (length dirr) path es)) (\<lambda>ns.
         bnd (lifted (old_nodes path ns)) (old_param env (old_dirr k env rows t) rows t))))
       else
         bnd (lifted (strcpy 256 dirr)) (\<lambda>p.
           old_param env (old_dirr k env rows t) rows t [(p, None)]))"

text \<open>Here the last argument, \<open>argv[0]\<close> when there is no other, decides.\<close>

definition old_main :: "'e ls_env_scheme \<Rightarrow> string \<Rightarrow> string list \<Rightarrow> (ls, unit) op" where
  "old_main env program args =
     bnd (lifted (param_rows args)) (\<lambda>rows.
     let final = last (program # args) in
     bnd (lifted (if is_option final then Inr ''./'' else strcpy 256 final))
       (old_dirr 257 env rows (opt_count args)))"

end
