(* ===== verification/Ls_Lt.thy ===== *)
theory Ls_Lt
  imports Ls_Liu
begin

text \<open>
  The listing \<open>Code/liuting1/lt_ls.c\<close>, the first version: each option has a function that reads the
  directory, sorts its nodes and prints them.
\<close>

text \<open>
  \<open>behind p\<close> is what the array of the path \<open>p\<close> holds behind the slash that is appended, up to a NUL.
\<close>

record lt_env = ls_env +
  behind :: "string \<Rightarrow> string"

text \<open>\<open>dirr[strlen(dirr)] = '/'; dirr[strlen(dirr) + 1] = '\0';\<close> in an array of 256 bytes\<close>

definition lt_slash :: "lt_env \<Rightarrow> string \<Rightarrow> string result" where
  "lt_slash env dirr =
     (if dirr = [] then Inl Out_Of_Bounds
      else if last dirr = CHR ''/'' then Inr dirr
      else let p = dirr @ CHR ''/'' # behind env dirr in
        if length p + 1 < 256 then Inr p else Inl Buffer_Overflow)"

text \<open>
  The beginning that \<open>analy_dir\<close>, \<open>analy_dirno\<close>, \<open>analy_dirl\<close>, \<open>analy_dirAL\<close> and \<open>analy_dirRL\<close> share: the names
  in nodes of 100 bytes, the last node freed, the nodes sorted; or the one file.
\<close>

definition lt_names :: "lt_env \<Rightarrow> string \<Rightarrow> string list result" where
  "lt_names env dirr =
     rbind (written (stat_of env dirr)) (\<lambda>buf.
       if is_kind S_IFDIR buf then
         rbind (lt_slash env dirr) (\<lambda>path.
         rbind (followed (entries env path)) (\<lambda>es.
         rbind (rfold (\<lambda>e ns. rbind (strcpy 100 (fst e)) (\<lambda>n. Inr (ns @ [n]))) es []) listed_freed))
       else rbind (strcpy 100 dirr) (\<lambda>n. Inr [n]))"

definition lt_analy_dir :: "lt_env \<Rightarrow> string \<Rightarrow> (ls, unit) op" where
  "lt_analy_dir env dirr =
     bnd (lifted (lt_names env dirr)) (\<lambda>ns.
     bnd (each (\<lambda>(j, n). bnd (liu_display_single n) (\<lambda>_.
       when_op ((Suc j + 1) mod 4 = 0) (print [newline]))) (enumerate 0 ns)) (\<lambda>_.
       print [newline]))"

definition lt_analy_dirno :: "lt_env \<Rightarrow> string \<Rightarrow> (ls, unit) op" where
  "lt_analy_dirno env dirr =
     bnd (lifted (lt_names env dirr)) (each (\<lambda>n. when_op (\<not> shown_hidden n) (liu_display_single n)))"

text \<open>The attributes are those of the bare name, whatever the directory.\<close>

definition lt_line :: "lt_env \<Rightarrow> string \<Rightarrow> (ls, unit) op" where
  "lt_line env n = bnd (liu_display_attribute env n) (\<lambda>_. print (''   '' @ n @ [newline]))"

definition lt_analy_dirl :: "lt_env \<Rightarrow> string \<Rightarrow> (ls, unit) op" where
  "lt_analy_dirl env dirr =
     bnd (lifted (lt_names env dirr)) (each (\<lambda>n. when_op (\<not> shown_hidden n) (lt_line env n)))"

definition lt_analy_dirAL :: "lt_env \<Rightarrow> string \<Rightarrow> (ls, unit) op" where
  "lt_analy_dirAL env dirr = bnd (lifted (lt_names env dirr)) (each (lt_line env))"

definition lt_analy_dirRL :: "lt_env \<Rightarrow> string \<Rightarrow> (ls, unit) op" where
  "lt_analy_dirRL env dirr = bnd (lifted (lt_names env dirr)) (each (lt_line env))"

text \<open>The paths go into an array of 20 rows of 256 bytes.\<close>

definition lt_rows :: "string \<Rightarrow> (string \<times> entry_kind) list \<Rightarrow> string list result" where
  "lt_rows path es = rfold (\<lambda>e rows.
     if length rows < 20 then rbind (strcpy 256 (path @ fst e)) (\<lambda>r. Inr (rows @ [r]))
     else Inl Out_Of_Bounds) es []"

fun lt_analy_dirR :: "nat \<Rightarrow> lt_env \<Rightarrow> string \<Rightarrow> (ls, unit) op" where
  "lt_analy_dirR 0 env dirr = lifted (Inl No_Return)"
| "lt_analy_dirR (Suc k) env dirr =
     bnd (lifted (written (stat_of env dirr))) (\<lambda>buf.
       if is_kind S_IFDIR buf then
         bnd (print (dirr @ '':'' @ [newline])) (\<lambda>_.
         bnd (lifted (lt_slash env dirr)) (\<lambda>path.
         bnd (lifted (followed (entries env path))) (\<lambda>es.
         bnd (each (\<lambda>(j, e). bnd (when_op (\<not> shown_hidden (fst e)) (liu_display_single (fst e))) (\<lambda>_.
           when_op ((Suc j + 1) mod 4 = 0) (print [newline]))) (enumerate 0 es)) (\<lambda>_.
         bnd (print [newline]) (\<lambda>_.
         bnd (lifted (lt_rows path es)) (\<lambda>rows.
           each (\<lambda>r. when_op (\<not> shown_hidden (drop (length path) r)) (lt_analy_dirR k env r)) rows))))))
       else retn ())"

definition lt_analy_param :: "nat \<Rightarrow> lt_env \<Rightarrow> string option list \<Rightarrow> nat \<Rightarrow> string \<Rightarrow> (ls, unit) op" where
  "lt_analy_param k env rows t dirr =
     bnd (lifted (flag_param rows t)) (\<lambda>f.
       if f = 0 then lt_analy_dirno env dirr
       else if f = 1 then lt_analy_dir env dirr
       else if f = 2 then lt_analy_dirl env dirr
       else if f = 3 then lt_analy_dirAL env dirr
       else if f = 4 \<or> f = 5 then lt_analy_dirR k env dirr
       else lt_analy_dirRL env dirr)"

text \<open>The last argument, \<open>argv[0]\<close> when there is no other, decides what is listed.\<close>

definition lt_main :: "lt_env \<Rightarrow> string \<Rightarrow> string list \<Rightarrow> (ls, unit) op" where
  "lt_main env program args =
     bnd (lifted (param_rows args)) (\<lambda>rows.
     let final = last (program # args) in
     bnd (lifted (if is_option final then Inr ''./'' else strcpy 256 final))
       (lt_analy_param 257 env rows (opt_count args)))"

end
