(* ===== verification/Ls_Facts.thy ===== *)
theory Ls_Facts
  imports Ls_Hu Ls_Wu1 Ls_Lt
begin

text \<open>
  What every listing obeys in the model: it only appends to what is printed, and it is never the number that
  bounds the depth of the directories that stops it, as the array that holds the path is full before.
\<close>

section \<open>Listings only append\<close>

definition appends :: "'x ls_scheme \<Rightarrow> 'x ls_scheme \<Rightarrow> bool" where
  "appends s t \<longleftrightarrow> (\<exists>u v. printed t = printed s @ u \<and> complaints t = complaints s @ v)"

interpretation listing: step_law "\<lambda>_. True" appends
proof unfold_locales
  fix s t u :: "'x ls_scheme"
  show "appends s s" by (simp add: appends_def)
  assume "appends s t" "appends t u"
  then show "appends s u" by (auto simp: appends_def)
qed

text \<open>An operation that ends, and appends.\<close>

abbreviation lists :: "('x ls_scheme, 'a) op \<Rightarrow> bool" where
  "lists m \<equiv> obeys (\<lambda>_. True) appends m"

named_theorems ls_ops \<open>operations of the listings\<close>

lemma lists_bnd [ls_ops]: "lists m \<Longrightarrow> (\<And>x. lists (f x)) \<Longrightarrow> lists (bnd m f)"
  by (rule listing.obeys_bnd)

lemma print_lists [ls_ops]: "lists (print t)" "lists (complain t)"
  unfolding print_def complain_def by (rule listing.obeys_setting; simp add: appends_def)+

lemma columns_list [ls_ops]: "lists (setting (\<lambda>s. s\<lparr>g_leave_len := f s\<rparr>))" "lists (setting (\<lambda>s. s\<lparr>g_maxlen := f s\<rparr>))"
  by (rule listing.obeys_setting; simp add: appends_def)+

lemma option_lists [ls_ops]:
  "lists m \<Longrightarrow> (\<And>x. lists (f x)) \<Longrightarrow> lists (case r of None \<Rightarrow> m | Some x \<Rightarrow> f x)"
  by (cases r) simp_all

lemma pair_lists [ls_ops]: "(\<And>x y. lists (f x y)) \<Longrightarrow> lists (case p of (x, y) \<Rightarrow> f x y)"
  by (cases p) simp

lemma when_lists [ls_ops]: "lists m \<Longrightarrow> lists (when_op b m)"
  by (rule listing.obeys_when)

lemma each_lists [ls_ops]: "(\<And>x. lists (f x)) \<Longrightarrow> lists (each f xs)"
  by (rule listing.obeys_each)

lemma fold_lists [ls_ops]: "(\<And>i x. lists (f i x)) \<Longrightarrow> lists (fold_op f is x)"
  by (rule listing.obeys_fold)

lemma fault_lists [ls_ops]: "e \<noteq> No_Return \<Longrightarrow> lists (lifted (Inl e))" "lists (lifted (Inr x))"
  by (simp_all add: listing.obeys_lifted)

lemmas list_rules = listing.obeys_retn listing.obeys_lifted listing.obeys_getting listing.obeys_if

section \<open>Computations that end\<close>

lemma cases_no_hang [no_hang]:
  "(b \<Longrightarrow> r \<noteq> Inl No_Return) \<Longrightarrow> (\<not> b \<Longrightarrow> q \<noteq> Inl No_Return) \<Longrightarrow> (if b then r else q) \<noteq> Inl No_Return"
  "r \<noteq> Inl No_Return \<Longrightarrow> (\<And>x. f x \<noteq> Inl No_Return) \<Longrightarrow> (case z of None \<Rightarrow> r | Some x \<Rightarrow> f x) \<noteq> Inl No_Return"
  "(\<And>x y. g x y \<noteq> Inl No_Return) \<Longrightarrow> case_prod g p \<noteq> Inl No_Return"
  "(\<And>x y. h x y u \<noteq> Inl No_Return) \<Longrightarrow> case_prod h p u \<noteq> Inl No_Return"
  "e \<noteq> No_Return \<Longrightarrow> Inl e \<noteq> Inl No_Return"
  by (auto split: option.split prod.split)

lemma basic_no_hang [no_hang]:
  "written x \<noteq> Inl No_Return" "followed x \<noteq> Inl No_Return" "strcpy n t \<noteq> Inl No_Return"
  by (simp_all add: written_def followed_def strcpy_def split: option.split)

lemma take_out_no_hang [no_hang]: "take_out cap n p \<noteq> Inl No_Return"
  by (induction cap n p rule: take_out.induct) simp_all

lemma one_flags_no_hang [no_hang]: "one_flags cs f \<noteq> Inl No_Return"
  by (induction cs f rule: one_flags.induct) simp_all

lemma char_flags_no_hang [no_hang]: "char_flags cs f \<noteq> Inl No_Return"
  by (induction cs f rule: char_flags.induct) simp_all

lemma ls_no_hang [no_hang]:
  "time_of env t \<noteq> Inl No_Return" "path_in d nm \<noteq> Inl No_Return" "file_type b \<noteq> Inl No_Return"
  "sorted_names henv d \<noteq> Inl No_Return" "row_paths wenv p ns \<noteq> Inl No_Return"
  "option_chars args \<noteq> Inl No_Return" "param_rows args \<noteq> Inl No_Return" "flag_param rows n \<noteq> Inl No_Return"
  "with_slash cap d \<noteq> Inl No_Return" "dir_nodes cap nl l d es \<noteq> Inl No_Return"
  unfolding time_of_def path_in_def file_type_def sorted_names_def row_paths_def option_chars_def param_rows_def
    flag_param_def with_slash_def dir_nodes_def Let_def
  by (intro no_hang; simp)+

section \<open>huqingwei's listing\<close>

lemma hu_files_list [ls_ops]:
  "lists (print_filename env f p)" "lists (hu_display_attribute env b)" "lists (file_information env p)"
  "lists (show_file b p)" "lists (in_fives q)" "lists (not_hidden q)" "lists (coloured_name env d e b)"
  unfolding print_filename_def hu_display_attribute_def file_information_def show_file_def in_fives_def
    not_hidden_def coloured_name_def Let_def
  by (intro list_rules ls_ops no_hang; simp)+

lemma long_line_lists [ls_ops]: "lists (long_line env d e)"
  unfolding long_line_def by (intro list_rules ls_ops no_hang)

lemma plain_listings_list [ls_ops]:
  "lists (bianli_dir_easy_a2 env d)" "lists (bianli_dir_easy env d)" "lists (bianli_dir_easy_a env d)"
  "lists (bianli_dir_al env d)" "lists (bianli_dir_l env d)"
  unfolding bianli_dir_easy_a2_def bianli_dir_easy_def bianli_dir_easy_a_def bianli_dir_al_def bianli_dir_l_def
  by (intro list_rules ls_ops no_hang)+

lemma dir_path_lists [ls_ops]: "lists (dir_path env d n ps)"
  unfolding dir_path_def by (intro list_rules ls_ops no_hang; simp)

lemma each_dir_lists [ls_ops]: "(\<And>p. lists (m p)) \<Longrightarrow> lists (each_dir env m d)"
  unfolding each_dir_def by (intro list_rules ls_ops no_hang)

lemma nested_listings_list [ls_ops]:
  "lists (bianli_dir_R env d)" "lists (bianli_dir_lR env d)" "lists (bianli_dir_aR env d)"
  unfolding bianli_dir_R_def bianli_dir_lR_def bianli_dir_aR_def
  by (auto intro!: list_rules ls_ops no_hang split: option.split list.split)

text \<open>Every level makes the path longer, and it has 4096 bytes.\<close>

lemma path_in_longer: "path_in d n = Inr p \<Longrightarrow> length d < length p \<and> length p < 4096"
  by (auto simp: path_in_def sprintf_def fits_def split: if_splits)

lemma bianli_dir_lists: "k \<noteq> 0 \<Longrightarrow> 4096 \<le> k + length d \<Longrightarrow> lists (bianli_dir k env d)"
proof (induction k arbitrary: d)
  case (Suc k)
  have deeper: "lists (bianli_dir k env p)" if "path_in d n = Inr p" for n p
    using Suc.IH [of p] Suc.prems path_in_longer [OF that] by simp
  have one: "lists (bnd (lifted (path_in d (fst e))) (\<lambda>p.
      if snd e = DT_REG then long_line env d e
      else if snd e = DT_DIR \<and> \<not> dots (fst e) then bnd (long_line env d e) (\<lambda>_. bianli_dir k env p)
      else retn ()))" for e
    by (rule listing.obeys_bnd_lifted) (auto intro!: list_rules ls_ops no_hang deeper)
  show ?case unfolding bianli_dir.simps by (intro list_rules ls_ops no_hang one)
qed simp

lemma by_option_lists [ls_ops]: "lists (by_option env opt d)"
  by (simp add: by_option_def if_distribR ls_ops bianli_dir_lists listing.obeys_retn)

lemma hu_ls_main_lists: "lists (hu_ls_main env argv)"
  unfolding hu_ls_main_def by (intro list_rules ls_ops no_hang; simp)

section \<open>wuxinyue's listing\<close>

lemma wu_attribute_lists [ls_ops]: "lists (wu_display_attribute wenv b)"
  unfolding wu_display_attribute_def by (intro list_rules ls_ops no_hang)

lemma wu_single_lists [ls_ops]: "lists (wu_display_single n)"
  unfolding wu_display_single_def by (intro list_rules ls_ops no_hang)

lemma long_name_lists [ls_ops]: "lists (long_name wenv g b n)"
  unfolding long_name_def by (intro list_rules ls_ops no_hang)

text \<open>An operation that ends, appends, and leaves a value with a property.\<close>

definition gives :: "('a \<Rightarrow> bool) \<Rightarrow> ('x ls_scheme, 'a) op \<Rightarrow> bool" where
  "gives P m \<longleftrightarrow> (\<forall>s. case m s of Inl e \<Rightarrow> e \<noteq> No_Return | Inr (x, t) \<Rightarrow> appends s t \<and> P x)"

lemma gives_retn: "P x \<Longrightarrow> gives P (retn x)"
  by (simp add: gives_def op_simps listing.rel_refl)

lemma gives_lists: "lists m \<Longrightarrow> gives (\<lambda>_. True) m"
  unfolding gives_def obeys_def by (simp cong: sum.case_cong prod.case_cong)

lemma gives_value: "gives P m \<Longrightarrow> m s = Inr (x, t) \<Longrightarrow> P x"
  by (auto simp: gives_def dest: spec [of _ s])

lemma gives_obeys:
  assumes "gives P m"
  shows "lists m"
  unfolding obeys_def
proof (intro allI impI)
  fix s
  show "case m s of Inl e \<Rightarrow> e \<noteq> No_Return | Inr (x, t) \<Rightarrow> True \<and> appends s t"
    using assms [unfolded gives_def, rule_format, of s] by (auto split: sum.splits)
qed

lemma gives_weaken: "gives P m \<Longrightarrow> (\<And>x. P x \<Longrightarrow> Q x) \<Longrightarrow> gives Q m"
  unfolding gives_def by (erule all_forward) (auto split: sum.splits)

lemma gives_lifted: "r \<noteq> Inl No_Return \<Longrightarrow> (\<And>x. r = Inr x \<Longrightarrow> P x) \<Longrightarrow> gives P (lifted r)"
  by (cases r) (auto simp: gives_def op_simps listing.rel_refl)

lemma gives_bnd:
  assumes "gives P m" "\<And>x. P x \<Longrightarrow> gives Q (f x)"
  shows "gives Q (bnd m f)"
  unfolding gives_def
proof
  fix s
  show "case bnd m f s of Inl e \<Rightarrow> e \<noteq> No_Return | Inr (y, u) \<Rightarrow> appends s u \<and> Q y"
  proof (cases "m s")
    case (Inl e)
    then show ?thesis using assms(1) by (auto simp: gives_def op_simps dest: spec [of _ s])
  next
    case (Inr p)
    then obtain x t where m: "m s = Inr (x, t)" by (cases p) auto
    with assms(1) have "appends s t" "P x" by (auto simp: gives_def dest: spec [of _ s])
    moreover from assms(2) [OF \<open>P x\<close>]
    have "case f x t of Inl e \<Rightarrow> e \<noteq> No_Return | Inr (y, u) \<Rightarrow> appends t u \<and> Q y" by (simp add: gives_def)
    ultimately show ?thesis by (auto simp: op_simps m split: sum.splits intro: listing.rel_trans)
  qed
qed

lemma gives_fold: "(\<And>i x. P x \<Longrightarrow> gives P (f i x)) \<Longrightarrow> P x \<Longrightarrow> gives P (fold_op f is x)"
  by (induction "is" arbitrary: x) (auto intro: gives_retn gives_bnd)

text \<open>The path grows and stays in its array, so the recursion ends.\<close>

lemma display_r_step:
  assumes visit: "\<And>temp. length p < length temp \<Longrightarrow> length temp < cap
      \<Longrightarrow> gives (\<lambda>r. length p \<le> length r \<and> length r < cap) (visit temp)"
    and q: "length p \<le> length q" "length q < cap"
  shows "gives (\<lambda>x. length p \<le> length (snd x) \<and> length (snd x) < cap) (bnd (lifted (written b)) (\<lambda>c.
     if is_kind S_IFDIR c then bnd (lifted (strcpy cap (q @ CHR ''/'' # n))) (\<lambda>temp.
       bnd (visit temp) (\<lambda>r. retn (b, r)))
     else retn (b, q)))" (is "gives ?kept _")
proof -
  have "gives ?kept (bnd (visit temp) (\<lambda>r. retn (b, r)))" if "strcpy cap (q @ CHR ''/'' # n) = Inr temp" for temp
  proof -
    have "length p < length temp" "length temp < cap" using that q by (auto simp: strcpy_def fits_def split: if_splits)
    then show ?thesis by (intro gives_bnd [OF visit] gives_retn) simp_all
  qed
  then have "gives ?kept (bnd (lifted (strcpy cap (q @ CHR ''/'' # n))) (\<lambda>temp. bnd (visit temp) (\<lambda>r. retn (b, r))))"
    by (intro gives_bnd [OF gives_lifted [where P = "\<lambda>t. strcpy cap (q @ CHR ''/'' # n) = Inr t"]] no_hang) simp_all
  then show ?thesis
    by (intro gives_bnd [OF gives_lifted [where P = "\<lambda>_. True"]] no_hang) (simp_all add: gives_retn q)
qed

lemma display_r_gives:
  "length p < cap \<Longrightarrow> cap \<le> length p + k \<Longrightarrow> gives (\<lambda>r. length p \<le> length r \<and> length r < cap) (display_r k cap wenv p)"
proof (induction k arbitrary: p)
  case (Suc k)
  let ?kept = "\<lambda>x :: stat_buf option \<times> string. length p \<le> length (snd x) \<and> length (snd x) < cap"
  let ?step = "\<lambda>e x. if dotted (fst e) then retn x
      else (case x of (buf, q) \<Rightarrow>
        let buf' = (case stat_of wenv (fst e) of None \<Rightarrow> buf | Some b \<Rightarrow> Some b) in
        bnd (lifted (written buf')) (\<lambda>b.
          if is_kind S_IFDIR b then
            bnd (lifted (strcpy cap (q @ CHR ''/'' # fst e))) (\<lambda>temp.
            bnd (display_r k cap wenv temp) (\<lambda>r. retn (buf', r)))
          else retn (buf', q)))"
  have deeper: "gives (\<lambda>r. length p \<le> length r \<and> length r < cap) (display_r k cap wenv temp)"
    if "length p < length temp" "length temp < cap" for temp
    by (rule gives_weaken [OF Suc.IH]) (use Suc.prems that in auto)
  have step: "gives ?kept (?step e x)" if "?kept x" for e :: "string \<times> entry_kind" and x
    by (cases x) (use that in \<open>auto simp: Let_def intro!: gives_retn display_r_step deeper\<close>)
  have walk: "gives (\<lambda>r. length p \<le> length r \<and> length r < cap)
      (bnd (fold_op ?step es (None, p)) (\<lambda>x. retn (snd x)))" for es :: "(string \<times> entry_kind) list"
  proof (rule gives_bnd)
    show "gives ?kept (fold_op ?step es (None, p))" by (rule gives_fold, rule step) (use Suc.prems in simp_all)
  qed (rule gives_retn)
  have names: "lists (each (\<lambda>e. when_op (\<not> dotted (fst e)) (wu_display_single (fst e))) es)"
    for es :: "(string \<times> entry_kind) list" by (intro list_rules ls_ops)
  show ?case unfolding display_r.simps
    by (rule gives_bnd [OF gives_lists] print_lists walk names list_rules no_hang)+
qed simp

lemma display_r_lists: "length p < cap \<Longrightarrow> lists (display_r cap cap wenv p)"
  by (rule gives_obeys, rule display_r_gives) simp_all

lemma from_working_dir_lists [ls_ops]: "lists (from_working_dir wenv)"
  unfolding from_working_dir_def by (intro list_rules ls_ops display_r_lists; simp)

lemma wu_display_lists [ls_ops]: "lists (wu_display wenv fl p)"
  unfolding wu_display_def by (intro list_rules ls_ops no_hang; simp)

lemma wu_display_dir_lists [ls_ops]: "lists (wu_display_dir wenv fl p)"
  unfolding wu_display_dir_def Let_def by (intro list_rules ls_ops no_hang; simp)

lemma wu_path_lists [ls_ops]:
  assumes "length path < 4097" and m: "\<And>p. length p < 4097 \<Longrightarrow> lists (m p)"
  shows "lists (bnd (if path = [] then lifted (Inl Out_Of_Bounds)
      else if last path = CHR ''/'' then retn path else lifted (strcpy 4097 (path @ ''/''))) m)"
  using assms(1)
  by (auto simp: strcpy_def fits_def intro!: listing.obeys_bnd_retn listing.obeys_bnd_lifted m no_hang split: if_splits)

lemma wu_target_lists [ls_ops]: "lists (wu_target wenv fl a)"
  unfolding wu_target_def
proof (rule listing.obeys_bnd_lifted)
  fix path
  assume "strcpy 4097 a = Inr path"
  then have "length path < 4097" by (auto simp: strcpy_def fits_def split: if_splits)
  then show "lists (case stat_of wenv path of None \<Rightarrow> lifted (Inl (Exit 1))
      | Some buf \<Rightarrow> if is_kind S_IFDIR buf then
          bnd (if path = [] then lifted (Inl Out_Of_Bounds)
               else if last path = CHR ''/'' then retn path else lifted (strcpy 4097 (path @ ''/''))) (\<lambda>path'.
            if 4 \<le> fl then bnd (display_r 4097 4097 wenv path') (\<lambda>_. retn ())
            else wu_display_dir wenv fl path')
        else wu_display wenv fl path)"
    by (intro option_lists listing.obeys_if wu_path_lists ls_ops list_rules display_r_lists) simp_all
qed (rule no_hang)

lemma wu_ls_main_lists: "lists (wu_ls_main wenv args)"
  unfolding wu_ls_main_def by (intro list_rules ls_ops no_hang; simp)

section \<open>liuting's listing\<close>

text \<open>No entry has an empty name, as in every file system.\<close>

definition named_entries :: "'e ls_env_scheme \<Rightarrow> bool" where
  "named_entries env \<longleftrightarrow> (\<forall>d es e. entries env d = Some es \<longrightarrow> e \<in> set es \<longrightarrow> fst e \<noteq> [])"

lemma liu_files_list [ls_ops]:
  "lists (liu_display_attribute env n)" "lists (liu_display_single n)" "lists (new_row i)"
  unfolding liu_display_attribute_def liu_display_single_def new_row_def Let_def
  by (intro list_rules ls_ops no_hang)+

lemma unless_hidden_lists [ls_ops]: "(\<And>x. snd n = Some x \<Longrightarrow> lists (m x)) \<Longrightarrow> lists (unless_hidden n m)"
  unfolding unless_hidden_def
  by (rule listing.obeys_bnd_lifted) (auto simp: written_def split: option.splits intro!: listing.obeys_when)

lemma long_row_lists [ls_ops]: "lists (long_row env n x)"
  unfolding long_row_def by (intro list_rules ls_ops no_hang)

lemma node_listings_list [ls_ops]:
  "lists (analy_dirno ns)" "lists (analy_dirA ns)" "lists (analy_dirl env ns)" "lists (analy_dirAL env ns)"
  "lists (names_R ns)" "lists (names_RL env ns)"
  unfolding analy_dirno_def analy_dirA_def analy_dirl_def analy_dirAL_def names_R_def names_RL_def Let_def
  by (intro list_rules ls_ops no_hang)+

lemma inner_dirs_list [ls_ops]:
  assumes "\<And>n x. n \<in> set ns \<Longrightarrow> snd n = Some x \<Longrightarrow> lists (visit (fst n))"
  shows "lists (inner_dirs env visit ns)"
  unfolding inner_dirs_def
  by (rule listing.obeys_each, rule unless_hidden_lists) (intro list_rules ls_ops no_hang assms)

lemma analy_param_lists:
  assumes "\<And>n x. n \<in> set ns \<Longrightarrow> snd n = Some x \<Longrightarrow> lists (visit (fst n))"
  shows "lists (analy_param env visit rows t ns)"
  unfolding analy_param_def analy_dirR_def analy_dirRL_def
  by (intro list_rules ls_ops no_hang) (use assms in blast)+

lemma fold_rows:
  assumes "rfold f xs s = Inr t" "P s" "\<And>x s u. x \<in> set xs \<Longrightarrow> P s \<Longrightarrow> f x s = Inr u \<Longrightarrow> P u"
  shows "P t"
  using assms
proof (induction xs arbitrary: s)
  case (Cons x xs)
  from Cons.prems(1) obtain u where u: "f x s = Inr u" "rfold f xs u = Inr t" by (auto simp: rbind_eq_Inr)
  have "P u" by (rule Cons.prems(3) [OF _ Cons.prems(2) u(1)]) simp
  with u(2) show ?case by (rule Cons.IH) (rule Cons.prems(3), simp_all)
qed simp_all

lemma dir_nodes_longer:
  assumes "dir_nodes room names (length d) path es = Inr ns" "with_slash cap d = Inr path" "\<forall>e \<in> set es. fst e \<noteq> []"
    "n \<in> set ns"
  shows "length d < length (fst n) \<and> length (fst n) < room"
proof -
  have "path = d \<or> path = d @ ''/''" using assms(2) by (auto simp: with_slash_def strcpy_def split: if_splits)
  then have len: "length d \<le> length path" "length path \<le> length d + 1" by auto
  have "\<forall>n \<in> set ns. length d < length (fst n) \<and> length (fst n) < room"
  proof (rule fold_rows [OF assms(1) [unfolded dir_nodes_def]])
    fix e :: "string \<times> entry_kind" and s t :: "lnode list"
    assume e: "e \<in> set es" "\<forall>n \<in> set s. length d < length (fst n) \<and> length (fst n) < room"
      "rbind (strcpy names (fst e)) (\<lambda>n. if length d + length n + 1 < room then Inr (s @ [(path @ n, Some n)])
        else Inl Buffer_Overflow) = Inr t"
    then have "t = s @ [(path @ fst e, Some (fst e))]" "length d + length (fst e) + 1 < room"
      by (auto simp: rbind_eq_Inr strcpy_def split: if_splits)
    moreover have "0 < length (fst e)" using assms(3) e(1) by simp
    ultimately show "\<forall>n \<in> set t. length d < length (fst n) \<and> length (fst n) < room"
      using e(2) len by (auto simp del: length_greater_0_conv)
  qed simp
  with assms(4) show ?thesis by blast
qed

lemma analy_dirr_lists:
  assumes "named_entries env"
  shows "k \<noteq> 0 \<Longrightarrow> 1000 \<le> k + length d \<Longrightarrow> lists (analy_dirr k env rows t cap d)"
proof (induction k arbitrary: cap d)
  case (Suc k)
  let ?visit = "analy_dirr k env rows t 1000"
  have nodes: "lists (bnd (lifted (dir_nodes 1000 500 (length d) path es)) (analy_param env ?visit rows t))"
    if "with_slash cap d = Inr path" "entries env path = Some es" for path es
  proof (rule listing.obeys_bnd_lifted)
    fix ns
    assume ns: "dir_nodes 1000 500 (length d) path es = Inr ns"
    have "\<forall>e \<in> set es. fst e \<noteq> []" using assms that(2) unfolding named_entries_def by blast
    from dir_nodes_longer [OF ns that(1) this] Suc.prems show "lists (analy_param env ?visit rows t ns)"
      by (intro analy_param_lists Suc.IH) force+
  qed (rule no_hang)
  have dir: "lists (bnd (lifted (with_slash cap d)) (\<lambda>path. case entries env path of
      None \<Rightarrow> complain ''opendir''
    | Some es \<Rightarrow> bnd (lifted (dir_nodes 1000 500 (length d) path es)) (analy_param env ?visit rows t)))"
    by (rule listing.obeys_bnd_lifted) (auto intro!: no_hang nodes print_lists split: option.split)
  have single: "lists (bnd (lifted (strcpy 1000 d)) (\<lambda>p. analy_param env ?visit rows t [(p, None)]))"
    by (intro list_rules ls_ops no_hang analy_param_lists) simp
  show ?case unfolding analy_dirr.simps by (intro list_rules ls_ops no_hang dir single)
qed simp

lemma liu_ls_main_lists: "named_entries env \<Longrightarrow> lists (liu_ls_main env args)"
  unfolding liu_ls_main_def Let_def by (intro list_rules ls_ops no_hang analy_dirr_lists; simp)

end
