(* ===== verification/Ls_Claims.thy ===== *)
theory Ls_Claims
  imports Ls_Facts
begin

text \<open>
  Properties of the listings: their sorts, their layouts, the text of the mode bits, their ends, and where
  they read what they must not.
\<close>

section \<open>Runs that print\<close>

lemma each_prints:
  assumes "\<And>x s. x \<in> set xs \<Longrightarrow> f x s = Inr ((), s\<lparr>printed := printed s @ t x\<rparr>)"
  shows "each f xs s = Inr ((), s\<lparr>printed := printed s @ concat (map t xs)\<rparr>)"
  using assms
proof (induction xs arbitrary: s)
  case (Cons x xs)
  have "f x s = Inr ((), s\<lparr>printed := printed s @ t x\<rparr>)" by (rule Cons.prems) simp
  moreover have "each f xs u = Inr ((), u\<lparr>printed := printed u @ concat (map t xs)\<rparr>)" for u
    by (rule Cons.IH) (rule Cons.prems, simp)
  ultimately show ?case by (simp add: bnd_def)
qed (simp add: retn_def)

lemma print_run [op_simps]: "print t s = Inr ((), s\<lparr>printed := printed s @ t\<rparr>)"
  by (simp add: print_def op_simps)

text \<open>A loop that counts the shown elements.\<close>

lemma count_prints:
  assumes "\<And>x i s. x \<in> set xs \<Longrightarrow> f x i s = (if skip x then Inr (i, s) else Inr (Suc i, s\<lparr>printed := printed s @ t i x\<rparr>))"
  shows "fold_op f xs i s = Inr (i + length (filter (\<lambda>x. \<not> skip x) xs),
    s\<lparr>printed := printed s @ concat (map (\<lambda>(j, x). t j x) (enumerate i (filter (\<lambda>x. \<not> skip x) xs)))\<rparr>)"
  using assms
proof (induction xs arbitrary: i s)
  case (Cons x xs)
  have x: "f x i s = (if skip x then Inr (i, s) else Inr (Suc i, s\<lparr>printed := printed s @ t i x\<rparr>))"
    by (rule Cons.prems) simp
  have "fold_op f xs j u = Inr (j + length (filter (\<lambda>x. \<not> skip x) xs),
      u\<lparr>printed := printed u @ concat (map (\<lambda>(j, x). t j x) (enumerate j (filter (\<lambda>x. \<not> skip x) xs)))\<rparr>)" for j u
    by (rule Cons.IH) (rule Cons.prems, simp)
  then show ?case by (simp add: bnd_def x)
qed (simp add: retn_def)

lemma fold_map: "fold_op f (map g xs) = fold_op (\<lambda>x. f (g x)) xs"
  by (induction xs) (intro ext, simp)+

lemma copied_names:
  assumes "\<forall>e \<in> set es. length (fst e) < n"
  shows "rfold (\<lambda>e xs. rbind (strcpy n (fst e)) (\<lambda>m. Inr (xs @ [m]))) es ys = Inr (ys @ map fst es)"
  using assms by (induction es arbitrary: ys) (simp_all add: strcpy_def fits_def)

section \<open>Columns\<close>

definition columns_a :: "string list \<Rightarrow> string" where
  "columns_a ns = concat (map (\<lambda>(i, n). left_in 10 n @ ''  '' @ (if (i + 1) mod 5 = 0 then [newline] else [])) (enumerate 0 ns))
     @ [newline]"

definition columns_plain :: "string list \<Rightarrow> string" where
  "columns_plain ns = concat (map (\<lambda>(i, n). if hidden n then [] else left_in 12 n @ (if i mod 5 = 0 then [newline] else []))
     (enumerate 0 ns)) @ [newline]"

lemma names_printed:
  "in_fives (i, n) s = Inr ((), s\<lparr>printed := printed s @ left_in 10 n @ ''  '' @ (if (i + 1) mod 5 = 0 then [newline] else [])\<rparr>)"
  "not_hidden (i, n) s = Inr ((), s\<lparr>printed := printed s @
     (if hidden n then [] else left_in 12 n @ (if i mod 5 = 0 then [newline] else []))\<rparr>)"
  by (simp_all add: in_fives_def not_hidden_def bnd_def op_simps when_op_def)

lemma sorted_names_run:
  "entries env d = Some es \<Longrightarrow> \<forall>e \<in> set es. length (fst e) < 1024 \<Longrightarrow> slack env (length es)
   \<Longrightarrow> sorted_names env d = Inr (sort (map fst es))"
  by (simp add: sorted_names_def copied_names bubbles_sort)

lemma columns_printed:
  "bnd (each in_fives (enumerate 0 ns)) (\<lambda>_. print [newline]) s = Inr ((), s\<lparr>printed := printed s @ columns_a ns\<rparr>)"
  "bnd (each not_hidden (enumerate 0 ns)) (\<lambda>_. print [newline]) s = Inr ((), s\<lparr>printed := printed s @ columns_plain ns\<rparr>)"
proof -
  have "each in_fives (enumerate 0 ns) s = Inr ((), s\<lparr>printed := printed s @
      concat (map (\<lambda>(i, n). left_in 10 n @ ''  '' @ (if (i + 1) mod 5 = 0 then [newline] else [])) (enumerate 0 ns))\<rparr>)"
    by (rule each_prints) (auto simp: names_printed)
  then show "bnd (each in_fives (enumerate 0 ns)) (\<lambda>_. print [newline]) s = Inr ((), s\<lparr>printed := printed s @ columns_a ns\<rparr>)"
    by (simp add: op_simps columns_a_def)
  have "each not_hidden (enumerate 0 ns) s = Inr ((), s\<lparr>printed := printed s @
      concat (map (\<lambda>(i, n). if hidden n then [] else left_in 12 n @ (if i mod 5 = 0 then [newline] else [])) (enumerate 0 ns))\<rparr>)"
    by (rule each_prints) (auto simp: names_printed)
  then show "bnd (each not_hidden (enumerate 0 ns)) (\<lambda>_. print [newline]) s
      = Inr ((), s\<lparr>printed := printed s @ columns_plain ns\<rparr>)"
    by (simp add: op_simps columns_plain_def)
qed

section \<open>The text of the mode bits\<close>

text \<open>What a letter stands for.\<close>

definition read_kind :: "char \<Rightarrow> 32 word" where
  "read_kind c =
     (if c = CHR ''l'' then S_IFLNK else if c = CHR ''-'' then S_IFREG else if c = CHR ''d'' then S_IFDIR
      else if c = CHR ''c'' then S_IFCHR else if c = CHR ''b'' then S_IFBLK else if c = CHR ''f'' then S_IFIFO
      else S_IFSOCK)"

definition read_mode :: "string \<Rightarrow> 32 word \<times> nat" where
  "read_mode t = (read_kind (hd t), read_permissions (tl t))"

definition mode_of :: "stat_buf \<Rightarrow> 32 word \<times> nat" where
  "mode_of b = (st_mode b AND S_IFMT, take_bit 9 (unat (st_mode b)))"

lemma read_mode_Cons: "read_mode (c # permissions b) = (read_kind c, take_bit 9 (unat (st_mode b)))"
  by (simp add: read_mode_def permissions_read_back)

section \<open>The bounds on the depth\<close>

lemma lists_end: "lists m \<Longrightarrow> m s \<noteq> Inl No_Return"
  by (auto simp: obeys_def dest!: spec [of _ s] split: sum.splits)

text \<open>
  The numbers that bound the depth of the recursion are never what stops a run. Where a path does not fit
  its array the model stops with \<open>Buffer_Overflow\<close>; the C program writes past the array there.
\<close>

lemma depth_bounds_suffice:
  "hu_ls_main env argv s \<noteq> Inl No_Return" "wu_ls_main wenv args t \<noteq> Inl No_Return"
  "named_entries lenv \<Longrightarrow> liu_ls_main lenv args s \<noteq> Inl No_Return"
  by (simp_all add: lists_end hu_ls_main_lists wu_ls_main_lists liu_ls_main_lists)

section \<open>Nodes of a directory\<close>

lemma dir_nodes_run:
  assumes "\<forall>e \<in> set es. length (fst e) < names \<and> len + length (fst e) + 1 < room"
  shows "dir_nodes room names len path es = Inr (map (\<lambda>n. (path @ n, Some n)) (map fst es))"
proof -
  have "rfold (\<lambda>e ns. rbind (strcpy names (fst e)) (\<lambda>n.
      if len + length n + 1 < room then Inr (ns @ [(path @ n, Some n)]) else Inl Buffer_Overflow)) es ns
    = Inr (ns @ map (\<lambda>n. (path @ n, Some n)) (map fst es))" for ns
    using assms by (induction es arbitrary: ns) (simp_all add: strcpy_def fits_def)
  then show ?thesis by (simp add: dir_nodes_def)
qed

lemma freed_listing: "2 \<le> length ns \<Longrightarrow> listed_freed ns = Inl Use_After_Free"
proof -
  assume two: "2 \<le> length ns"
  let ?item = "\<lambda>a. if a = 0 then [] else ns ! (a - 1)"
  have chain: "linked ?item (link_nodes ns) [i..<Suc (length ns)] None" if "0 < i" "i \<le> length ns" for i
    using that(2,1)
  proof (induction rule: inc_induct)
    case base
    then show ?case by (simp add: link_nodes_def)
  next
    case (step j)
    then have "[j..<Suc (length ns)] = j # Suc j # [Suc (Suc j)..<Suc (length ns)]" by (simp add: upt_conv_Cons)
    with step show ?case by (auto simp: link_nodes_def upt_conv_Cons)
  qed
  have "linked ?item (link_nodes ns) (0 # [1..<Suc (length ns)]) None"
    using chain [of 1] two by (cases "ns = []") (auto simp: link_nodes_def upt_conv_Cons)
  from nodes_freed [OF this] two this have "sort_nodes 0 None (free (length ns) (link_nodes ns)) = Some (Inl Use_After_Free)"
    by (cases "ns = []") auto
  moreover have "ns \<noteq> []" using two by auto
  ultimately show ?thesis by (auto simp: listed_freed_def sort_freed_def op_simps)
qed

text \<open>A name in its column, the \<open>i\<close>th.\<close>

definition liu_cell :: "nat \<Rightarrow> string \<Rightarrow> string" where
  "liu_cell i n = left_in 20 n @ (if Suc i mod 3 = 0 then [newline] else [])"

lemma node_names_printed:
  "analy_dirno (map (\<lambda>n. (d @ n, Some n)) ns) s = Inr ((), s\<lparr>printed := printed s @
     concat (map (\<lambda>(i, n). liu_cell i n) (enumerate 1 ns))\<rparr>)" (is "?all")
  "analy_dirA (map (\<lambda>n. (d @ n, Some n)) ns) s = Inr ((), s\<lparr>printed := printed s @
     concat (map (\<lambda>(i, n). liu_cell i n) (enumerate 1 (filter (\<lambda>n. \<not> shown_hidden n) ns))) @ [newline]\<rparr>)" (is "?visible")
proof -
  let ?nodes = "map (\<lambda>n. (d @ n, Some n)) ns"
  note defs = written_def liu_display_single_def new_row_def when_op_def bnd_def op_simps liu_cell_def
  have keep: "filter (\<lambda>_. \<not> False) ns = ns" by simp
  have "fold_op (\<lambda>n i. bnd (lifted (written (snd n))) (\<lambda>name. bnd (liu_display_single name) (\<lambda>_.
      bnd (new_row (Suc i)) (\<lambda>_. retn (Suc i))))) ?nodes 1 s
    = Inr (1 + length (filter (\<lambda>_. \<not> False) ns), s\<lparr>printed := printed s @
        concat (map (\<lambda>(i, n). liu_cell i n) (enumerate 1 (filter (\<lambda>_. \<not> False) ns)))\<rparr>)"
    unfolding fold_map by (rule count_prints) (simp add: defs)
  then show ?all unfolding analy_dirno_def by (simp only: op_simps keep)
  have "fold_op (\<lambda>n i. bnd (lifted (written (snd n))) (\<lambda>name. if shown_hidden name then retn i
      else bnd (liu_display_single name) (\<lambda>_. bnd (new_row (Suc i)) (\<lambda>_. retn (Suc i))))) ?nodes 1 s
    = Inr (1 + length (filter (\<lambda>n. \<not> shown_hidden n) ns), s\<lparr>printed := printed s @
        concat (map (\<lambda>(i, n). liu_cell i n) (enumerate 1 (filter (\<lambda>n. \<not> shown_hidden n) ns)))\<rparr>)"
    unfolding fold_map by (rule count_prints) (simp add: defs)
  then show ?visible unfolding analy_dirA_def by (simp add: op_simps)
qed

section \<open>Directories in directories, \<open>LS.c\<close>\<close>

lemma fold_append: "fold_op f (xs @ ys) x = bnd (fold_op f xs x) (fold_op f ys)"
proof (induction xs arbitrary: x)
  case (Cons i xs)
  have "fold_op f (xs @ ys) = (\<lambda>x. bnd (fold_op f xs x) (fold_op f ys))" by (intro ext Cons.IH [THEN fun_cong])
  then show ?case by (simp add: bnd_assoc)
qed (simp add: op_simps)

text \<open>An entry that the recursion passes by.\<close>

definition passed_by :: "wu_ls_env \<Rightarrow> string \<times> entry_kind \<Rightarrow> bool" where
  "passed_by env e \<longleftrightarrow> dotted (fst e) \<or> (\<exists>b. stat_of env (fst e) = Some b \<and> \<not> is_kind S_IFDIR b)"

definition enter :: "nat \<Rightarrow> nat \<Rightarrow> wu_ls_env \<Rightarrow> string \<times> entry_kind \<Rightarrow> stat_buf option \<times> string
    \<Rightarrow> (wls, stat_buf option \<times> string) op" where
  "enter k cap env e x =
     (if dotted (fst e) then retn x
      else (case x of (buf, q) \<Rightarrow>
        let buf' = (case stat_of env (fst e) of None \<Rightarrow> buf | Some b \<Rightarrow> Some b) in
        bnd (lifted (written buf')) (\<lambda>b.
          if is_kind S_IFDIR b then
            bnd (lifted (strcpy cap (q @ CHR ''/'' # fst e))) (\<lambda>temp.
            bnd (display_r k cap env temp) (\<lambda>r. retn (buf', r)))
          else retn (buf', q))))"

lemma passes_by: "\<forall>e \<in> set es. passed_by env e \<Longrightarrow> \<exists>b'. fold_op (enter k cap env) es (b, q) s = Inr ((b', q), s)"
proof (induction es arbitrary: b)
  case (Cons e es)
  have "\<exists>b'. enter k cap env e (b, q) s = Inr ((b', q), s)"
    using Cons.prems by (auto simp: passed_by_def enter_def op_simps written_def Let_def)
  then show ?case using Cons by (fastforce simp: bnd_def)
qed (simp add: op_simps)

lemma names_shown: "\<exists>t. each (\<lambda>e. when_op (\<not> dotted (fst e)) (wu_display_single (fst e))) es s = Inr ((), t)"
proof (induction es arbitrary: s)
  case (Cons e es)
  have "\<exists>t. when_op (\<not> dotted (fst e)) (wu_display_single (fst e)) s = Inr ((), t)"
    by (auto simp: wu_display_single_def bnd_def op_simps when_op_def)
  then obtain t where "when_op (\<not> dotted (fst e)) (wu_display_single (fst e)) s = Inr ((), t)" by blast
  with Cons.IH [of t] show ?case by (simp add: op_simps)
qed (simp add: op_simps)

text \<open>A directory is printed and then walked through.\<close>

lemma display_r_run:
  assumes "entries env p = Some es"
  shows "\<exists>t. display_r (Suc k) cap env p s = bnd (fold_op (enter k cap env) es (None, p)) (\<lambda>x. retn (snd x)) t"
proof -
  obtain t where t: "each (\<lambda>e. when_op (\<not> dotted (fst e)) (wu_display_single (fst e))) es
      (s\<lparr>printed := printed s @ newline # p @ '':'' @ [newline]\<rparr>) = Inr ((), t)"
    using names_shown by blast
  have "enter k cap env = (\<lambda>e x. if dotted (fst e) then retn x
      else (case x of (buf, q) \<Rightarrow>
        let buf' = (case stat_of env (fst e) of None \<Rightarrow> buf | Some b \<Rightarrow> Some b) in
        bnd (lifted (written buf')) (\<lambda>b.
          if is_kind S_IFDIR b then
            bnd (lifted (strcpy cap (q @ CHR ''/'' # fst e))) (\<lambda>temp.
            bnd (display_r k cap env temp) (\<lambda>r. retn (buf', r)))
          else retn (buf', q))))"
    by (intro ext) (simp add: enter_def)
  then have "display_r (Suc k) cap env p s = bnd (fold_op (enter k cap env) es (None, p)) (\<lambda>x. retn (snd x)) t"
    using t by (simp add: op_simps followed_def assms)
  then show ?thesis by blast
qed

lemma quiet_directory:
  assumes "entries env p = Some es" "\<forall>e \<in> set es. passed_by env e"
  shows "\<exists>t. display_r (Suc k) cap env p s = Inr (p, t)"
proof -
  obtain t where "display_r (Suc k) cap env p s = bnd (fold_op (enter k cap env) es (None, p)) (\<lambda>x. retn (snd x)) t"
    using display_r_run [OF assms(1)] by blast
  moreover obtain b where "fold_op (enter k cap env) es (None, p) t = Inr ((b, p), t)"
    using passes_by [OF assms(2)] by blast
  ultimately show ?thesis by (auto simp: op_simps)
qed

lemma display_r_misses:
  assumes dir: "entries env p = Some (xs @ e # ys @ f # zs)" "\<forall>x \<in> set xs \<union> set ys. passed_by env x"
    and e: "\<not> dotted (fst e)" "stat_of env (fst e) = Some b" "is_kind S_IFDIR b"
    and f: "\<not> dotted (fst f)" "stat_of env (fst f) = Some c" "is_kind S_IFDIR c"
    and inner: "entries env (p @ CHR ''/'' # fst e) = Some es" "\<forall>x \<in> set es. passed_by env x"
      "entries env (p @ CHR ''/'' # fst e @ CHR ''/'' # fst f) = None"
    and room: "length p + length (fst e) + length (fst f) + 2 < cap"
  shows "display_r (Suc (Suc k)) cap env p s = Inl Null_Deref"
proof -
  let ?q = "p @ CHR ''/'' # fst e"
  have fits: "strcpy cap ?q = Inr ?q" "strcpy cap (?q @ CHR ''/'' # fst f) = Inr (?q @ CHR ''/'' # fst f)"
    using room by (simp_all add: strcpy_def fits_def)
  have first: "\<exists>t. enter (Suc k) cap env e (b0, p) u = Inr ((Some b, ?q), t)" for b0 u
  proof -
    obtain t where "display_r (Suc k) cap env ?q u = Inr (?q, t)" using quiet_directory [OF inner(1,2)] by blast
    then show ?thesis using e fits by (simp add: enter_def op_simps written_def Let_def del: display_r.simps)
  qed
  have "display_r (Suc k) cap env (?q @ CHR ''/'' # fst f) u = Inl Null_Deref" for u
    using inner(3) by (simp add: op_simps followed_def)
  then have second: "enter (Suc k) cap env f (b0, ?q) u = Inl Null_Deref" for b0 u
    using f fits by (simp add: enter_def op_simps written_def Let_def del: display_r.simps)
  obtain t where t: "display_r (Suc (Suc k)) cap env p s
      = bnd (fold_op (enter (Suc k) cap env) (xs @ e # ys @ f # zs) (None, p)) (\<lambda>x. retn (snd x)) t"
    using display_r_run [OF dir(1)] by blast
  obtain b1 where 1: "fold_op (enter (Suc k) cap env) xs (None, p) t = Inr ((b1, p), t)"
    using passes_by [of xs env] dir(2) by blast
  obtain u where 2: "enter (Suc k) cap env e (b1, p) t = Inr ((Some b, ?q), u)" using first by blast
  obtain b2 where 3: "fold_op (enter (Suc k) cap env) ys (Some b, ?q) u = Inr ((b2, ?q), u)"
    using passes_by [of ys env] dir(2) by blast
  have "fold_op (enter (Suc k) cap env) (xs @ e # ys @ f # zs) (None, p) t = Inl Null_Deref"
    by (simp add: fold_append op_simps 1 2 3 second)
  with t show ?thesis by (simp add: op_simps)
qed

section \<open>A small file system\<close>

definition mode_stat :: "32 word \<Rightarrow> stat_buf" where
  "mode_stat m = \<lparr>st_mode = m, st_nlink = 1, st_uid = 0, st_gid = 0, st_size = 7, st_mtime = 0\<rparr>"

definition tree_stat :: "string \<Rightarrow> stat_buf option" where
  "tree_stat p = (if p \<in> {''t/'', ''a'', ''b''} then Some (mode_stat 0x41ED)
     else if p = ''f'' then Some (mode_stat 0x81A4) else None)"

definition tree_entries :: "string \<Rightarrow> (string \<times> entry_kind) list option" where
  "tree_entries p = (if p = ''t/'' then Some [(''b'', DT_DIR), (''.h'', DT_REG), (''a'', DT_DIR)]
     else if p = ''t//b'' then Some [(''f'', DT_REG)] else None)"

definition tree_env :: ls_env where
  "tree_env = \<lparr>stat_of = tree_stat, lstat_of = tree_stat, entries = tree_entries, can_open = (\<lambda>_. True),
     user_of = (\<lambda>_. None), group_of = (\<lambda>_. None), time_text = (\<lambda>_. []), working_dir = ''t/''\<rparr>"

definition tree_hu :: hu_ls_env where
  "tree_hu = ls_env.extend tree_env \<lparr>slack = (\<lambda>_. True)\<rparr>"

definition tree_wu :: wu_ls_env where
  "tree_wu = ls_env.extend tree_env \<lparr>stack_rest = (\<lambda>_. [])\<rparr>"

definition tree_lt :: lt_env where
  "tree_lt = ls_env.extend tree_env \<lparr>behind = (\<lambda>_. [])\<rparr>"

lemmas tree_defs = tree_env_def tree_hu_def tree_wu_def tree_lt_def ls_env.extend_def tree_stat_def tree_entries_def
  mode_stat_def is_kind_def S_IFMT_def S_IFREG_def S_IFDIR_def

lemma tree_sorted: "sort [''b'', ''.h'', ''a''] = [''.h'', ''a'', ''b'']"
  by code_simp

section \<open>Properties\<close>

text \<open>
  the three bubble sorts over arrays of names, with the loop bounds of \<open>my_ls3.c\<close>, \<open>LS.c\<close> and \<open>ls1.c\<close>, all
  give the sorted names.
\<close>

theorem names_sorted: "bubble_all xs = sort xs \<and> bubble_fewer xs = sort xs \<and> bubble_square xs = sort xs"
  by (simp add: bubbles_sort)

text \<open>
  C36: on any list of distinct linked nodes the sort of \<open>lt_ls.c\<close> and \<open>lt_ls1.c\<close>, which exchanges pointers, ends;
  behind the head are then the same nodes, sorted by name, and no other cell of the memory has changed.
\<close>

theorem nodes_sorted_by_name:
  assumes "linked item m (h # as) None" "distinct (h # as)" "as \<noteq> []"
  shows "\<exists>m1 bs. sort_nodes h None m = Some (Inr m1) \<and> linked item m1 (h # bs) None
    \<and> mset bs = mset as \<and> sorted (map item bs) \<and> (\<forall>a. a \<notin> set (h # as) \<longrightarrow> cells m1 a = cells m a)"
  by (rule nodes_sorted [OF assms])

theorem nodes_sorted_by_name_witness:
  "\<exists>m1 bs. sort_nodes 0 None (link_nodes [''b'', ''a'']) = Some (Inr m1)
    \<and> linked (\<lambda>a. if a = 0 then [] else if a = 1 then ''b'' else ''a'') m1 (0 # bs) None
    \<and> mset bs = mset [1, 2] \<and> sorted (map (\<lambda>a. if a = 0 then [] else if a = 1 then ''b'' else ''a'') bs)
    \<and> (\<forall>a. a \<notin> set (0 # [1, 2]) \<longrightarrow> cells m1 a = cells (link_nodes [''b'', ''a'']) a)"
  by (rule nodes_sorted_by_name) (simp_all add: link_nodes_def)

text \<open>
  C35: \<open>my_ls3.c\<close> run on a directory prints the sorted names of its entries, in columns: all of them with \<open>-a\<close>, the
  visible ones without. (The write behind the array of pointers must hit memory that may be written.)
\<close>

theorem listing_in_columns:
  assumes "stat_of env d = Some b" "\<not> is_kind S_IFREG b" "entries env d = Some es"
    and "\<forall>e \<in> set es. length (fst e) < 1024" "slack env (length es)"
    and "take 1 program \<noteq> ''-''" "take 1 d \<noteq> ''-''" "fits 4096 d"
  shows "hu_ls_main env [program, ''-a'', d] s = Inr ((), s\<lparr>printed := printed s @ columns_a (sort (map fst es))\<rparr>)
    \<and> hu_ls_main env [program, d] s = Inr ((), s\<lparr>printed := printed s @ columns_plain (sort (map fst es))\<rparr>)"
proof
  note run = sorted_names_run [OF assms(3,4,5)]
  have "bianli_dir_easy_a2 env d s = Inr ((), s\<lparr>printed := printed s @ columns_a (sort (map fst es))\<rparr>)"
    by (simp add: bianli_dir_easy_a2_def op_simps written_def assms(1,2) run columns_printed)
  then show "hu_ls_main env [program, ''-a'', d] s = Inr ((), s\<lparr>printed := printed s @ columns_a (sort (map fst es))\<rparr>)"
    using assms(6-8) by (simp add: hu_ls_main_def known_options_def by_option_def strcpy_def op_simps)
  have "bianli_dir_easy env d s = Inr ((), s\<lparr>printed := printed s @ columns_plain (sort (map fst es))\<rparr>)"
    by (simp add: bianli_dir_easy_def op_simps written_def assms(1,2) run columns_printed)
  then show "hu_ls_main env [program, d] s = Inr ((), s\<lparr>printed := printed s @ columns_plain (sort (map fst es))\<rparr>)"
    using assms(6-8) by (simp add: hu_ls_main_def strcpy_def op_simps)
qed

theorem listing_in_columns_witness:
  "hu_ls_main tree_hu [''ls'', ''-a'', ''t/''] ls_start = Inr ((), ls_start\<lparr>printed := columns_a [''.h'', ''a'', ''b'']\<rparr>)
   \<and> hu_ls_main tree_hu [''ls'', ''t/''] ls_start = Inr ((), ls_start\<lparr>printed := columns_plain [''.h'', ''a'', ''b'']\<rparr>)"
  using listing_in_columns [of tree_hu "''t/''" "mode_stat 0x41ED"
    "[(''b'', DT_DIR), (''.h'', DT_REG), (''a'', DT_DIR)]" "''ls''" ls_start]
  by (simp add: tree_defs fits_def tree_sorted ls_start_def)

text \<open>
  the ten letters that the long listings print for a file say exactly which kind it has and which of the nine
  permissions are set; \<open>my_ls3.c\<close> knows three kinds only, and reads an unwritten letter for the others.
\<close>

theorem mode_text:
  assumes "st_mode b AND S_IFMT \<in> {S_IFLNK, S_IFREG, S_IFDIR, S_IFCHR, S_IFBLK, S_IFIFO, S_IFSOCK}"
  shows "read_mode (one_attribute b) = mode_of b \<and> read_mode (type_char b @ permissions b) = mode_of b
    \<and> (if st_mode b AND S_IFMT \<in> {S_IFLNK, S_IFREG, S_IFDIR} then \<exists>t. file_type b = Inr t \<and> read_mode t = mode_of b
      else file_type b = Inl Uninit_Read)"
  using assms
  by (auto simp: one_attribute_def type_char_def file_type_def is_kind_def mode_of_def read_mode_Cons read_kind_def
      file_types)

theorem mode_text_witness:
  "read_mode (one_attribute (mode_stat 0x41ED)) = (S_IFDIR, 0x1ED)
   \<and> read_mode (type_char (mode_stat 0x41ED) @ permissions (mode_stat 0x41ED)) = (S_IFDIR, 0x1ED)"
  using mode_text [of "mode_stat 0x41ED"] by (simp add: mode_of_def file_types mode_stat_def take_bit_eq_mod)

text \<open>
  C39: the first two listings of liuting, \<open>lt_ls.c\<close> and \<open>lt_ls1.c\<close>, run without options on a directory that is named
  with a slash at its end, in fewer than 100 bytes, and that has two entries or more, all with names of fewer than
  100 bytes, free the last node of the list and then compare its name while they sort.
\<close>

theorem freed_node_is_read:
  assumes "stat_of env d = Some b" "is_kind S_IFDIR b" "last d = CHR ''/''" "d \<noteq> []" "\<not> is_option d" "length d < 100"
    and "entries env d = Some es" "2 \<le> length es" "\<forall>e \<in> set es. length (fst e) < 100"
  shows "lt_main env program [d] s = Inl Use_After_Free \<and> old_main env program [d] s = Inl Use_After_Free"
proof
  have copied: "strcpy 256 d = Inr d" using assms(6) by (simp add: strcpy_def fits_def)
  have freed: "listed_freed (map fst es) = Inl Use_After_Free" using assms(8) by (intro freed_listing) simp
  have one: "param_rows [d] = Inr [None]" "opt_count [d] = 0" using assms(5) by (simp_all add: param_rows_def opt_count_def)
  have "lt_names env d = Inl Use_After_Free"
    using assms copied_names [of es 100 "[]"] freed by (simp add: lt_names_def written_def followed_def lt_slash_def)
  then show "lt_main env program [d] s = Inl Use_After_Free"
    using one copied assms(5)
    by (simp add: lt_main_def lt_analy_param_def flag_param_def lt_analy_dirno_def op_simps)
  have "dir_nodes 256 256 (length d) d es = Inr (map (\<lambda>n. (d @ n, Some n)) (map fst es))"
    using assms(6,9) by (intro dir_nodes_run) force
  moreover have "map (the \<circ> snd) (map (\<lambda>n. (d @ n, Some n)) (map fst es)) = map fst es" by (simp add: comp_def)
  ultimately have nodes: "dir_nodes 256 256 (length d) d es = Inr (map (\<lambda>n. (d @ n, Some n)) (map fst es))"
    "old_nodes d (map (\<lambda>n. (d @ n, Some n)) (map fst es)) = Inl Use_After_Free"
    unfolding old_nodes_def using freed by (simp_all only: rbind_simps)
  have "old_dirr (Suc k) env [None] 0 d s = Inl Use_After_Free" for k
    unfolding old_dirr.simps using assms(1-4,7) by (simp add: written_def followed_def with_slash_def op_simps nodes del: map_map)
  moreover have "(257 :: nat) = Suc 256" by simp
  ultimately have "old_dirr 257 env [None] 0 d s = Inl Use_After_Free" by (simp only:)
  then show "old_main env program [d] s = Inl Use_After_Free"
    using one copied assms(5) by (simp add: old_main_def op_simps)
qed

theorem freed_node_is_read_witness:
  "lt_main tree_lt ''lt_ls'' [''t/''] ls_start = Inl Use_After_Free
   \<and> old_main tree_lt ''lt_ls1'' [''t/''] ls_start = Inl Use_After_Free"
  using freed_node_is_read [of tree_lt "''t/''" "mode_stat 0x41ED"
    "[(''b'', DT_DIR), (''.h'', DT_REG), (''a'', DT_DIR)]" "''lt_ls''" ls_start]
    freed_node_is_read [of tree_lt "''t/''" "mode_stat 0x41ED"
    "[(''b'', DT_DIR), (''.h'', DT_REG), (''a'', DT_DIR)]" "''lt_ls1''" ls_start]
  by (simp add: tree_defs is_option_def)

text \<open>
  the later \<open>ls.c\<close> of liuting, whose sorting loop is never entered, prints the names in the order in which
  \<open>readdir\<close> gave them, in columns: all of them without options, and the visible ones with \<open>-a\<close>.
\<close>

theorem readdir_order:
  assumes "stat_of env d = Some b" "is_kind S_IFDIR b" "last d = CHR ''/''" "d \<noteq> []" "\<not> is_option d" "length d < 256"
    and "entries env d = Some es" "\<forall>e \<in> set es. length (fst e) < 500"
  shows "liu_ls_main env [d] s = Inr ((), s\<lparr>printed := printed s @
      concat (map (\<lambda>(i, n). liu_cell i n) (enumerate 1 (map fst es)))\<rparr>)
    \<and> liu_ls_main env [''-a'', d] s = Inr ((), s\<lparr>printed := printed s @
      concat (map (\<lambda>(i, n). liu_cell i n)
        (enumerate 1 (filter (\<lambda>n. \<not> shown_hidden n) (map fst es)))) @ [newline]\<rparr>)"
proof
  let ?nodes = "map (\<lambda>n. (d @ n, Some n)) (map fst es)"
  have copied: "strcpy 256 d = Inr d" using assms(6) by (simp add: strcpy_def fits_def)
  have nodes: "dir_nodes 1000 500 (length d) d es = Inr ?nodes" using assms(6,8) by (intro dir_nodes_run) force
  have run: "analy_dirr (Suc k) env rows t 256 d u = analy_param env (analy_dirr k env rows t 1000) rows t ?nodes u"
    for k rows t u
    unfolding analy_dirr.simps using assms(1-4,7) by (simp add: written_def with_slash_def op_simps nodes del: map_map)
  note all = node_names_printed(1) [of d "map fst es" s] and visible = node_names_printed(2) [of d "map fst es" s]
  have "(1001 :: nat) = Suc 1000" by simp
  then have go: "analy_dirr 1001 env rows t 256 d u = analy_param env (analy_dirr 1000 env rows t 1000) rows t ?nodes u"
    for rows t u using run [of 1000] by (simp only:)
  show "liu_ls_main env [d] s = Inr ((), s\<lparr>printed := printed s @ concat (map (\<lambda>(i, n). liu_cell i n) (enumerate 1 (map fst es)))\<rparr>)"
    using assms(5) copied
    by (simp add: liu_ls_main_def param_rows_def opt_count_def op_simps go analy_param_def flag_param_def all del: map_map)
  have "param_rows [''-a'', d] = Inr [Some ''-a'', None]" "opt_count [''-a'', d] = 1"
    using assms(5) by (auto simp: param_rows_def opt_count_def is_option_def less_Suc_eq nth_Cons split: nat.splits)
  moreover have "flag_param [Some ''-a'', None] 1 = Inr 1" by (simp add: flag_param_def written_def)
  ultimately have opts: "param_rows [''-a'', d] = Inr [Some ''-a'', None]" "opt_count [''-a'', d] = Suc 0"
    "flag_param [Some ''-a'', None] (Suc 0) = Inr 1" by simp_all
  show "liu_ls_main env [''-a'', d] s = Inr ((), s\<lparr>printed := printed s @
      concat (map (\<lambda>(i, n). liu_cell i n) (enumerate 1 (filter (\<lambda>n. \<not> shown_hidden n) (map fst es)))) @ [newline]\<rparr>)"
    using copied opts by (simp add: liu_ls_main_def op_simps go analy_param_def visible del: map_map)
qed

theorem readdir_order_witness:
  "liu_ls_main tree_env [''t/''] ls_start = Inr ((), ls_start\<lparr>printed :=
      left_in 20 ''b'' @ left_in 20 ''.h'' @ [newline] @ left_in 20 ''a''\<rparr>)
   \<and> liu_ls_main tree_env [''-a'', ''t/''] ls_start = Inr ((), ls_start\<lparr>printed :=
      left_in 20 ''b'' @ left_in 20 ''a'' @ [newline, newline]\<rparr>)"
  using readdir_order [of tree_env "''t/''" "mode_stat 0x41ED"
    "[(''b'', DT_DIR), (''.h'', DT_REG), (''a'', DT_DIR)]" ls_start]
  by (simp add: tree_defs is_option_def liu_cell_def shown_hidden_def ls_start_def)

text \<open>
  \<open>LS.c -R\<close> on a directory that has two visible directories, the first without one of its own: the path is not
  cut back after the first, so the second is looked for inside the first; where it is not, the program reads from
  the directory that could not be opened.
\<close>

theorem second_directory_missed:
  assumes "stat_of env d = Some a" "is_kind S_IFDIR a" "last d = CHR ''/''" "d \<noteq> []" "\<not> dashed d"
    and "entries env d = Some (xs @ e # ys @ f # zs)" "\<forall>x \<in> set xs \<union> set ys. passed_by env x"
    and "\<not> dotted (fst e)" "stat_of env (fst e) = Some b" "is_kind S_IFDIR b"
    and "\<not> dotted (fst f)" "stat_of env (fst f) = Some c" "is_kind S_IFDIR c"
    and "entries env (d @ CHR ''/'' # fst e) = Some es" "\<forall>x \<in> set es. passed_by env x"
    and "entries env (d @ CHR ''/'' # fst e @ CHR ''/'' # fst f) = None"
    and "length d + length (fst e) + length (fst f) + 2 < 4097"
  shows "wu_ls_main env [''-R'', d] s = Inl Null_Deref"
proof -
  have "display_r (Suc (Suc 4095)) 4097 env d u = Inl Null_Deref" for u
    by (rule display_r_misses [OF assms(6-17)])
  moreover have "(4097 :: nat) = Suc (Suc 4095)" by simp
  ultimately have "display_r 4097 4097 env d u = Inl Null_Deref" for u by (simp only:)
  then have "wu_target env 4 d s = Inl Null_Deref"
    using assms(1-4,17) by (simp add: wu_target_def strcpy_def fits_def op_simps)
  then show ?thesis
    using assms(5) by (simp add: wu_ls_main_def option_chars_def dashed_def op_simps)
qed

theorem second_directory_missed_witness: "wu_ls_main tree_wu [''-R'', ''t/''] wls_start = Inl Null_Deref"
  by (rule second_directory_missed [where xs = "[]" and e = "(''b'', DT_DIR)" and ys = "[(''.h'', DT_REG)]"
        and f = "(''a'', DT_DIR)" and zs = "[]" and a = "mode_stat 0x41ED" and b = "mode_stat 0x41ED"
        and c = "mode_stat 0x41ED" and es = "[(''f'', DT_REG)]"])
    (simp_all add: tree_defs passed_by_def dotted_def dashed_def)

end
