(* ===== verification/Ls_Tree.thy ===== *)
theory Ls_Tree
  imports Ls_Claims
begin

text \<open>
  The recursive listing \<open>my_ls3.c -r\<close> on a tree of directories: what a directory tree is, what it
  means that the file system holds one, and that every file and directory of it is listed once.
\<close>

section \<open>Trees\<close>

text \<open>The files and directories of a directory, by name, without \<open>.\<close> and \<open>..\<close>.\<close>

datatype ftree = Plain string | Special string | Folder string "ftree list"

fun entry_of :: "ftree \<Rightarrow> string \<times> entry_kind" where
  "entry_of (Plain n) = (n, DT_REG)"
| "entry_of (Special n) = (n, DT_OTHER)"
| "entry_of (Folder n ts) = (n, DT_DIR)"

abbreviation under :: "string \<Rightarrow> string \<Rightarrow> string" where
  "under d n \<equiv> d @ CHR ''/'' # n"

text \<open>
  \<open>d\<close> is a directory in which \<open>readdir\<close> gives the entries of \<open>ts\<close> in their order, and may give \<open>.\<close> and
  \<open>..\<close> anywhere between them; there is room for these in the array of the path.
\<close>

definition directory_of :: "hu_ls_env \<Rightarrow> string \<Rightarrow> ftree list \<Rightarrow> bool" where
  "directory_of env d ts \<longleftrightarrow> length d + 3 < 4096
     \<and> (\<exists>es. entries env d = Some es \<and> filter (\<lambda>e. \<not> dots (fst e)) es = map entry_of ts
          \<and> (\<forall>e \<in> set es. dots (fst e) \<longrightarrow> snd e = DT_DIR))"

text \<open>The file can be opened, has one of the three kinds the listing knows, an owner and a time.\<close>

definition attributes_known :: "hu_ls_env \<Rightarrow> string \<Rightarrow> bool" where
  "attributes_known env p \<longleftrightarrow> can_open env p
     \<and> (case stat_of env p of
          None \<Rightarrow> False
        | Some b \<Rightarrow> st_mode b AND S_IFMT \<in> {S_IFLNK, S_IFREG, S_IFDIR}
            \<and> user_of env (st_uid b) \<noteq> None \<and> group_of env (st_uid b) \<noteq> None
            \<and> time_text env (st_mtime b) \<noteq> [] \<and> fits 32 (time_text env (st_mtime b)))"

text \<open>The directory \<open>d\<close> holds the tree.\<close>

fun stands :: "hu_ls_env \<Rightarrow> string \<Rightarrow> ftree \<Rightarrow> bool" where
  "stands env d (Plain n) \<longleftrightarrow> length (under d n) < 4096 \<and> attributes_known env (under d n)"
| "stands env d (Special n) \<longleftrightarrow> length (under d n) < 4096"
| "stands env d (Folder n ts) \<longleftrightarrow> length (under d n) < 4096 \<and> attributes_known env (under d n)
     \<and> directory_of env (under d n) ts \<and> list_all (stands env (under d n)) ts"

section \<open>The text\<close>

definition attribute_text :: "hu_ls_env \<Rightarrow> stat_buf \<Rightarrow> string" where
  "attribute_text env b =
     (if is_kind S_IFLNK b then ''l'' else if is_kind S_IFREG b then ''-'' else ''d'') @ permissions b @ ''  ''
     @ dec (int (st_nlink b)) @ tab @ the (user_of env (st_uid b)) @ tab @ the (group_of env (st_uid b)) @ tab
     @ right_in 6 (dec (st_size b)) @ tab @ butlast (time_text env (st_mtime b)) @ '' ''"

definition name_text :: "stat_buf \<Rightarrow> string \<Rightarrow> string" where
  "name_text b n =
     (if is_kind S_IFREG b then (if executable b then coloured ''32'' n else n)
      else coloured (if is_kind S_IFDIR b then ''34'' else ''31'') n) @ [newline]"

definition line_text :: "hu_ls_env \<Rightarrow> string \<Rightarrow> string \<Rightarrow> string" where
  "line_text env d n =
     (case stat_of env (under d n) of None \<Rightarrow> [] | Some b \<Rightarrow> attribute_text env b @ name_text b n)"

text \<open>Every directory in front of what it holds.\<close>

fun tree_text :: "hu_ls_env \<Rightarrow> string \<Rightarrow> ftree \<Rightarrow> string" where
  "tree_text env d (Plain n) = line_text env d n"
| "tree_text env d (Special n) = []"
| "tree_text env d (Folder n ts) = line_text env d n @ concat (map (tree_text env (under d n)) ts)"

lemma path_in_fits [simp]: "length d + length n < 4095 \<Longrightarrow> path_in d n = Inr (under d n)"
  by (simp add: path_in_def sprintf_def fits_def)

lemma long_line_run:
  assumes "length (under d (fst e)) < 4096" "attributes_known env (under d (fst e))"
  shows "long_line env d e s = Inr ((), s\<lparr>printed := printed s @ line_text env d (fst e)\<rparr>)"
proof -
  obtain b u g where b: "stat_of env (under d (fst e)) = Some b"
    "st_mode b AND S_IFMT \<in> {S_IFLNK, S_IFREG, S_IFDIR}"
    "user_of env (st_uid b) = Some u" "group_of env (st_uid b) = Some g" "can_open env (under d (fst e))"
    "time_text env (st_mtime b) \<noteq> []" "fits 32 (time_text env (st_mtime b))"
    using assms(2) by (auto simp: attributes_known_def split: option.splits)
  have "file_type b = Inr ((if is_kind S_IFLNK b then ''l'' else if is_kind S_IFREG b then ''-'' else ''d'')
      @ permissions b)"
    using b(2) by (auto simp: file_type_def is_kind_def)
  moreover have "time_of env (st_mtime b) = Inr (butlast (time_text env (st_mtime b)))"
    using b(6,7) by (simp add: time_of_def strcpy_def)
  moreover have "is_kind S_IFLNK b" if "\<not> is_kind S_IFREG b" "\<not> is_kind S_IFDIR b"
    using b(2) that by (auto simp: is_kind_def)
  ultimately show ?thesis using assms(1) b
    by (simp add: long_line_def file_information_def hu_display_attribute_def print_filename_def op_simps
        written_def followed_def when_op_def line_text_def attribute_text_def name_text_def)
qed

section \<open>Every file once\<close>

lemma bianli_dir_run:
  assumes "directory_of env d ts" "list_all (stands env d) ts" "4097 \<le> k + length d"
  shows "bianli_dir k env d s = Inr ((), s\<lparr>printed := printed s @ concat (map (tree_text env d) ts)\<rparr>)"
  using assms
proof (induction k arbitrary: d ts s)
  case 0
  then show ?case by (simp add: directory_of_def)
next
  case (Suc k)
  obtain es where es: "entries env d = Some es" "filter (\<lambda>e. \<not> dots (fst e)) es = map entry_of ts"
    "\<forall>e \<in> set es. dots (fst e) \<longrightarrow> snd e = DT_DIR" and d: "length d + 3 < 4096"
    using Suc.prems(1) by (auto simp: directory_of_def)
  let ?visit = "\<lambda>e. bnd (lifted (path_in d (fst e))) (\<lambda>filepath.
         if snd e = DT_REG then long_line env d e
         else if snd e = DT_DIR \<and> \<not> dots (fst e) then
           bnd (long_line env d e) (\<lambda>_. bianli_dir k env filepath)
         else retn ())"
  have visit: "?visit (entry_of t) u = Inr ((), u\<lparr>printed := printed u @ tree_text env d t\<rparr>)"
    if "stands env d t" "\<not> dots (fst (entry_of t))" for t u
  proof (cases t)
    case (Plain n)
    with that long_line_run [of d "(n, DT_REG)" env u] show ?thesis by (simp add: op_simps)
  next
    case (Special n)
    with that show ?thesis by (simp add: op_simps)
  next
    case (Folder n us)
    let ?v = "u\<lparr>printed := printed u @ line_text env d n\<rparr>"
    have "bianli_dir k env (under d n) ?v
        = Inr ((), ?v\<lparr>printed := printed ?v @ concat (map (tree_text env (under d n)) us)\<rparr>)"
      using that(1) Folder Suc.prems(3) by (intro Suc.IH) simp_all
    with that Folder long_line_run [of d "(n, DT_DIR)" env u] show ?thesis by (simp add: op_simps)
  qed
  have "each ?visit es s = Inr ((), s\<lparr>printed := printed s @ concat (map (tree_text env d) ts)\<rparr>)"
    using es(2,3) Suc.prems(2)
  proof (induction es arbitrary: ts s)
    case (Cons e es)
    show ?case
    proof (cases "dots (fst e)")
      case True
      then have "length (fst e) \<le> 2" by (auto simp: dots_def)
      with True Cons.prems d have "?visit e s = Inr ((), s)" by (simp add: op_simps)
      with Cons.IH [of ts s] Cons.prems True show ?thesis by (simp add: bnd_def)
    next
      case False
      with Cons.prems obtain t us where t: "ts = t # us" "e = entry_of t" by (cases ts) auto
      with visit [of t s] Cons.IH [of us "s\<lparr>printed := printed s @ tree_text env d t\<rparr>"] Cons.prems False
      show ?thesis by (simp add: bnd_def)
    qed
  qed (simp add: op_simps)
  then show ?case using es(1) by (simp add: op_simps followed_def)
qed

section \<open>Properties\<close>

text \<open>
  C37: \<open>my_ls3.c -r\<close> run on a directory that holds a tree of directories comes to its end, and has
  printed a long line for each file and each directory of the tree, once, every directory in front of
  what it holds; the entries \<open>.\<close> and \<open>..\<close> are passed by, and so are the entries that are neither
  files nor directories. The paths must stay under 4096 bytes, and each file listed must be readable,
  with a known owner and group, a time text of 1 to 31 bytes, and be a file, a directory or a link.
\<close>

theorem whole_tree_listed:
  assumes "directory_of env d ts" "list_all (stands env d) ts"
    and "take 1 program \<noteq> ''-''" "take 1 d \<noteq> ''-''"
  shows "hu_ls_main env [program, ''-r'', d] s
    = Inr ((), s\<lparr>printed := printed s @ concat (map (tree_text env d) ts)\<rparr>)"
proof -
  have "fits 4096 d" using assms(1) by (simp add: directory_of_def fits_def)
  then show ?thesis using bianli_dir_run [OF assms(1,2)] assms(3,4)
    by (simp add: hu_ls_main_def known_options_def by_option_def strcpy_def op_simps del: bianli_dir.simps)
qed

text \<open>A directory that holds itself as \<open>.\<close>, a directory and a file; the inner one holds a file and a pipe.\<close>

definition grove_entries :: "string \<Rightarrow> (string \<times> entry_kind) list option" where
  "grove_entries p =
     (if p \<in> {''w'', ''w/.'', ''w/b/..''} then
        Some [(''.'', DT_DIR), (''b'', DT_DIR), (''f'', DT_REG), (''..'', DT_DIR)]
      else if p \<in> {''w/b'', ''w/b/.''} then
        Some [(''g'', DT_REG), (''..'', DT_DIR), (''p'', DT_OTHER), (''.'', DT_DIR)]
      else None)"

definition grove_env :: hu_ls_env where
  "grove_env = tree_hu\<lparr>entries := grove_entries,
     stat_of := (\<lambda>p. Some (mode_stat (if grove_entries p = None then 0x81ED else 0x41ED))),
     user_of := (\<lambda>_. Some ''ann''), group_of := (\<lambda>_. Some ''ann''), time_text := (\<lambda>_. ''now'' @ [newline])\<rparr>"

theorem whole_tree_listed_witness:
  "hu_ls_main grove_env [''ls'', ''-r'', ''w''] ls_start = Inr ((), ls_start\<lparr>printed :=
     attribute_text grove_env (mode_stat 0x41ED) @ coloured ''34'' ''b'' @ [newline]
   @ attribute_text grove_env (mode_stat 0x81ED) @ coloured ''32'' ''g'' @ [newline]
   @ attribute_text grove_env (mode_stat 0x81ED) @ coloured ''32'' ''f'' @ [newline]\<rparr>)"
proof -
  let ?ts = "[Folder ''b'' [Plain ''g'', Special ''p''], Plain ''f'']"
  have dirs: "directory_of grove_env ''w'' ?ts" "directory_of grove_env ''w/b'' [Plain ''g'', Special ''p'']"
    by (simp_all add: directory_of_def grove_env_def grove_entries_def dots_def)
  have stats: "stat_of grove_env ''w/b'' = Some (mode_stat 0x41ED)" "stat_of grove_env ''w/b/g'' = Some (mode_stat 0x81ED)"
    "stat_of grove_env ''w/f'' = Some (mode_stat 0x81ED)"
    by (simp_all add: grove_env_def grove_entries_def)
  have "attributes_known grove_env p" if "stat_of grove_env p = Some (mode_stat m)" "m = 0x41ED \<or> m = 0x81ED" for p m
    using that by (auto simp: attributes_known_def grove_env_def mode_stat_def fits_def file_types
        tree_hu_def tree_env_def ls_env.extend_def simp del: not_None_eq)
  with stats dirs(2) have "list_all (stands grove_env ''w'') ?ts" by auto
  from whole_tree_listed [OF dirs(1) this, of "''ls''" ls_start] show ?thesis
    by (simp add: line_text_def stats name_text_def ls_start_def)
      (simp add: mode_stat_def is_kind_def file_types executable_def)
qed

end
