(* ===== verification/Room_Proto.thy ===== *)
theory Room_Proto
  imports Talk_Pack
begin

text \<open>
  The packets of the third chat room, \<open>Solution/wuxinyue/chatroom/proto.h\<close> and \<open>proto.c\<close>: a head of three
  32-bit numbers and fields behind it, laid out as the compiler does (x86-64, little endian). A block from
  \<open>malloc\<close> holds what was there before, which is a parameter.
\<close>

section \<open>Heads\<close>

definition CR_PROTO_HEAD :: int where
  "CR_PROTO_HEAD = 699050"

datatype proto_type_t =
    REQ_REGISTER | REQ_LOGIN | REQ_GET_FRIEND_LIST | REQ_ADD_FRIEND | REQ_DEL_FRIEND | REQ_SEND_MESSAGE
  | RESP_STATUS | RESP_FRIEND_LIST | RESP_MESSAGE

fun type_number :: "proto_type_t \<Rightarrow> int" where
  "type_number REQ_REGISTER = 1000"
| "type_number REQ_LOGIN = 1001"
| "type_number REQ_GET_FRIEND_LIST = 1002"
| "type_number REQ_ADD_FRIEND = 1003"
| "type_number REQ_DEL_FRIEND = 1004"
| "type_number REQ_SEND_MESSAGE = 1005"
| "type_number RESP_STATUS = 2001"
| "type_number RESP_FRIEND_LIST = 2002"
| "type_number RESP_MESSAGE = 2003"

record proto_head_t =
  h_magic :: int
  h_type :: int
  h_length :: int

definition head_size :: nat where
  "head_size = 12"

definition encode_head :: "proto_head_t \<Rightarrow> string" where
  "encode_head h = enc_le 4 (h_magic h) @ enc_le 4 (h_type h) @ enc_le 4 (h_length h)"

definition decode_head :: "string \<Rightarrow> proto_head_t" where
  "decode_head b = \<lparr>h_magic = dec_le (bytes_at 0 4 b), h_type = dec_le (bytes_at 4 4 b), h_length = dec_le (bytes_at 8 4 b)\<rparr>"

definition uint32 :: "int \<Rightarrow> bool" where
  "uint32 i \<longleftrightarrow> 0 \<le> i \<and> i < 4294967296"

definition head_ok :: "proto_head_t \<Rightarrow> bool" where
  "head_ok h \<longleftrightarrow> uint32 (h_magic h) \<and> uint32 (h_type h) \<and> uint32 (h_length h)"

text \<open>\<open>init_packet_head\<close> on a block that holds \<open>b\<close>\<close>

definition init_packet_head :: "proto_type_t \<Rightarrow> int \<Rightarrow> string \<Rightarrow> string result" where
  "init_packet_head t len b =
     (if head_size \<le> length b
      then Inr (encode_head \<lparr>h_magic = CR_PROTO_HEAD, h_type = type_number t, h_length = len mod 4294967296\<rparr> @ drop head_size b)
      else Inl Buffer_Overflow)"

lemma length_encode_head [simp]: "length (encode_head h) = head_size"
  by (simp add: encode_head_def head_size_def)

lemma dec_enc_uint: "uint32 i \<Longrightarrow> dec_le (enc_le 4 i) = i"
  by (simp add: dec_le_enc_le uint32_def)

lemma decode_encode_head: "head_ok h \<Longrightarrow> decode_head (encode_head h @ r) = h"
  by (simp add: decode_head_def encode_head_def bytes_at_def head_ok_def dec_enc_uint)

section \<open>Packets\<close>

definition USERNAME_LEN :: nat where
  "USERNAME_LEN = 32"

definition PASSWORD_LEN :: nat where
  "PASSWORD_LEN = 32"

definition MSG_LEN :: nat where
  "MSG_LEN = 32"

definition USERLIST_LEN :: nat where
  "USERLIST_LEN = 320"

text \<open>
  The sizes: \<open>request_register_t\<close> and \<open>request_login_t\<close> 76, \<open>request_add_friend_t\<close> 44, \<open>request_send_message_t\<close>
  and \<open>response_status_t\<close> 48, \<open>response_friens_list_t\<close> 332.
\<close>

text \<open>\<open>strncpy(d, s, n)\<close> writes all the \<open>n\<close> bytes: the text, cut off or filled up with NULs.\<close>

definition strncpy :: "nat \<Rightarrow> string \<Rightarrow> string" where
  "strncpy n t = enc_str n t"

definition create_request_register :: "string \<Rightarrow> string \<Rightarrow> string \<Rightarrow> string result" where
  "create_request_register b uname pword =
     rbind (init_packet_head REQ_REGISTER 76 b) (\<lambda>p.
       Inr (take head_size p @ strncpy USERNAME_LEN uname @ strncpy PASSWORD_LEN pword))"

definition create_request_login :: "string \<Rightarrow> string result" where
  "create_request_login b = init_packet_head REQ_LOGIN 76 b"

definition create_request_get_friend_list :: "string \<Rightarrow> string result" where
  "create_request_get_friend_list b = init_packet_head REQ_GET_FRIEND_LIST 12 b"

definition create_request_add_friend :: "string \<Rightarrow> string result" where
  "create_request_add_friend b = init_packet_head REQ_ADD_FRIEND 44 b"

definition create_request_del_friend :: "string \<Rightarrow> string result" where
  "create_request_del_friend b = init_packet_head REQ_DEL_FRIEND 44 b"

text \<open>
  The length is \<open>sizeof(request_send_message_t) + len\<close> as an \<open>int\<close>, for the response as well; for a negative one
  \<open>malloc\<close> returns NULL.
\<close>

definition block :: "(nat \<Rightarrow> char) \<Rightarrow> nat \<Rightarrow> string" where
  "block heap n = map heap [0..<n]"

definition create_request_send_message :: "(nat \<Rightarrow> char) \<Rightarrow> int \<Rightarrow> string result" where
  "create_request_send_message heap len =
     (let n = low_int (48 + len) in if n < 0 then Inl Null_Deref else init_packet_head REQ_SEND_MESSAGE n (block heap (nat n)))"

definition create_response_status :: "string \<Rightarrow> int \<Rightarrow> string \<Rightarrow> string result" where
  "create_response_status b status msg =
     rbind (init_packet_head RESP_STATUS 48 b) (\<lambda>p. Inr (take head_size p @ enc_le 4 status @ strncpy MSG_LEN msg))"

text \<open>The length in the head is the one of \<open>response_status_t\<close>.\<close>

definition create_response_friends_list :: "string \<Rightarrow> string result" where
  "create_response_friends_list b = init_packet_head RESP_FRIEND_LIST 48 b"

definition create_response_message :: "(nat \<Rightarrow> char) \<Rightarrow> int \<Rightarrow> string result" where
  "create_response_message heap len =
     (let n = low_int (48 + len) in if n < 0 then Inl Null_Deref else init_packet_head RESP_MESSAGE n (block heap (nat n)))"

section \<open>What the packets hold\<close>

definition packet_head :: "proto_type_t \<Rightarrow> int \<Rightarrow> proto_head_t" where
  "packet_head t len = \<lparr>h_magic = CR_PROTO_HEAD, h_type = type_number t, h_length = len\<rparr>"

definition register_packet :: "string \<Rightarrow> string \<Rightarrow> string" where
  "register_packet n p = encode_head (packet_head REQ_REGISTER 76) @ enc_str 32 n @ enc_str 32 p"

definition status_packet :: "int \<Rightarrow> string \<Rightarrow> string" where
  "status_packet st msg = encode_head (packet_head RESP_STATUS 48) @ enc_le 4 st @ enc_str 32 msg"

lemma packet_head_ok: "uint32 len \<Longrightarrow> head_ok (packet_head t len)"
  by (cases t) (simp_all add: head_ok_def packet_head_def uint32_def CR_PROTO_HEAD_def)

lemma init_packet_head_run:
  "head_size \<le> length b \<Longrightarrow> uint32 len \<Longrightarrow> init_packet_head t len b = Inr (encode_head (packet_head t len) @ drop head_size b)"
  by (simp add: init_packet_head_def packet_head_def uint32_def)

lemma length_block [simp]: "length (block heap n) = n"
  by (simp add: block_def)

lemma create_request_register_run:
  "length b = 76 \<Longrightarrow> create_request_register b n p = Inr (register_packet n p)"
  by (simp add: create_request_register_def init_packet_head_run uint32_def head_size_def register_packet_def
      strncpy_def USERNAME_LEN_def PASSWORD_LEN_def)

lemma create_response_status_run:
  "length b = 48 \<Longrightarrow> create_response_status b st msg = Inr (status_packet st msg)"
  by (simp add: create_response_status_def init_packet_head_run uint32_def head_size_def status_packet_def
      strncpy_def MSG_LEN_def)

lemma packet_lengths [simp]: "length (register_packet n p) = 76" "length (status_packet st msg) = 48"
  by (simp_all add: register_packet_def status_packet_def head_size_def)

end
