(* ===== verification/Room_Socket.thy ===== *)
theory Room_Socket
  imports Room_Proto
begin

text \<open>
  The calls on sockets of the third chat room, \<open>Solution/wuxinyue/chatroom/socket.c\<close>: reading and writing whole
  packets however the bytes travel, and the set-up of a socket with the descriptors it leaves open. What the kernel
  answers is given by the arguments; the lines for the log are left out.
\<close>

section \<open>Reading\<close>

text \<open>
  What the calls of \<open>read\<close> on a connection meet: a run of bytes, a signal (\<open>EINTR\<close>), another error. At the end
  of the list the peer has closed the connection.
\<close>

datatype arrival = Run string | Eintr | Broken

datatype got = Got string | Intr | Fails

fun sys_read :: "nat \<Rightarrow> arrival list \<Rightarrow> got \<times> arrival list" where
  "sys_read n [] = (Got [], [])"
| "sys_read n (Run s # r) = (if length s \<le> n then (Got s, r) else (Got (take n s), Run (drop n s) # r))"
| "sys_read n (Eintr # r) = (Intr, r)"
| "sys_read n (Broken # r) = (Fails, r)"

fun arrival_size :: "arrival \<Rightarrow> nat" where
  "arrival_size (Run s) = Suc (length s)"
| "arrival_size Eintr = 1"
| "arrival_size Broken = 1"

definition arrivals_size :: "arrival list \<Rightarrow> nat" where
  "arrivals_size rs = sum_list (map arrival_size rs)"

lemma sys_read_smaller:
  "sys_read n rs = (Got s, r) \<Longrightarrow> s \<noteq> [] \<Longrightarrow> arrivals_size r < arrivals_size rs"
  "sys_read n rs = (Intr, r) \<Longrightarrow> arrivals_size r < arrivals_size rs"
  by (induction n rs rule: sys_read.induct) (auto simp: arrivals_size_def split: if_splits)

text \<open>The bytes read so far are \<open>buf\<close>; the result is what is returned, the bytes, and what has not been read.\<close>

function tcp_read :: "nat \<Rightarrow> string \<Rightarrow> arrival list \<Rightarrow> int \<times> string \<times> arrival list" where
  "tcp_read count buf rs =
     (if length buf = count then (int count, buf, rs)
      else (case sys_read (count - length buf) rs of
              (Intr, r) \<Rightarrow> tcp_read count buf r
            | (Fails, r) \<Rightarrow> (-1, buf, r)
            | (Got s, r) \<Rightarrow> if s = [] then (int (length buf), buf, r) else tcp_read count (buf @ s) r))"
  by pat_completeness auto
termination
  by (relation "measure (\<lambda>(count, buf, rs). arrivals_size rs)") (auto intro: sys_read_smaller sym)

declare tcp_read.simps [simp del]

section \<open>Writing\<close>

text \<open>What the calls of \<open>write\<close> meet: so many bytes are taken, a signal, another error. At the end they block.\<close>

datatype taken = Took nat | W_Eintr | W_Broken

text \<open>\<open>n\<close> bytes have been written; the result is what is returned, the bytes that left, and the calls not made.\<close>

fun tcp_write :: "string \<Rightarrow> nat \<Rightarrow> taken list \<Rightarrow> (int \<times> string \<times> taken list) result" where
  "tcp_write buf n [] = (if n = length buf then Inr (int n, buf, []) else Inl No_Return)"
| "tcp_write buf n (t # ts) =
     (if n = length buf then Inr (int n, buf, t # ts)
      else (case t of
              W_Eintr \<Rightarrow> tcp_write buf n ts
            | W_Broken \<Rightarrow> Inr (-1, take n buf, ts)
            | Took k \<Rightarrow> if k = 0 then Inr (int n, take n buf, ts) else tcp_write buf (n + min k (length buf - n)) ts))"

section \<open>Accepting\<close>

datatype accepted = Accepted int | A_Eintr | A_Failed

fun tcp_accept :: "accepted list \<Rightarrow> int result" where
  "tcp_accept [] = Inl No_Return"
| "tcp_accept (A_Eintr # rs) = tcp_accept rs"
| "tcp_accept (A_Failed # rs) = Inr (-1)"
| "tcp_accept (Accepted fd # rs) = Inr fd"

section \<open>Setting up\<close>

text \<open>What the calls return: \<open>-1\<close> is a failure; \<open>inet_pton\<close> returns 0 for text that is no address.\<close>

record net_env =
  socket_ret :: int
  setsockopt_ret :: int
  pton_ret :: int
  connect_ret :: int
  bind_ret :: int
  listen_ret :: int

definition tcp_close :: "int \<Rightarrow> int set \<Rightarrow> int set" where
  "tcp_close fd fds = fds - {fd}"

definition tcp_reuse_addr :: "net_env \<Rightarrow> int" where
  "tcp_reuse_addr env = (if setsockopt_ret env < 0 then -1 else 0)"

definition tcp_socket :: "net_env \<Rightarrow> int set \<Rightarrow> int \<times> int set" where
  "tcp_socket env fds =
     (let sock = socket_ret env in
      if sock < 0 then (-1, fds)
      else if tcp_reuse_addr env = -1 then (-1, tcp_close sock (insert sock fds))
      else (sock, insert sock fds))"

definition tcp_generic_connect :: "net_env \<Rightarrow> int set \<Rightarrow> int \<times> int set" where
  "tcp_generic_connect env fds =
     (case tcp_socket env fds of (sock, fds') \<Rightarrow>
      if sock = -1 then (-1, fds')
      else if pton_ret env < 0 then (-1, fds')
      else if connect_ret env < 0 then (-1, fds')
      else (sock, fds'))"

definition tcp_connect :: "net_env \<Rightarrow> int set \<Rightarrow> int \<times> int set" where
  "tcp_connect env fds = tcp_generic_connect env fds"

definition tcp_listen :: "net_env \<Rightarrow> int set \<Rightarrow> int \<times> int set" where
  "tcp_listen env fds =
     (case tcp_socket env fds of (sock, fds') \<Rightarrow>
      if sock = -1 then (-1, fds')
      else if pton_ret env < 0 then (-1, fds')
      else if bind_ret env < 0 then (-1, fds')
      else if listen_ret env < 0 then (-1, fds')
      else (sock, fds'))"

section \<open>Whole packets\<close>

text \<open>The bytes that arrive when no call fails.\<close>

fun arriving :: "arrival list \<Rightarrow> string" where
  "arriving [] = []"
| "arriving (Run s # r) = s @ arriving r"
| "arriving (_ # r) = arriving r"

definition flowing :: "arrival list \<Rightarrow> bool" where
  "flowing rs \<longleftrightarrow> Broken \<notin> set rs \<and> Run [] \<notin> set rs"

lemma sys_read_bytes:
  "sys_read n rs = (Got s, r) \<Longrightarrow> arriving rs = s @ arriving r \<and> length s \<le> n"
  "sys_read n rs = (Intr, r) \<Longrightarrow> arriving r = arriving rs"
  by (induction n rs rule: sys_read.induct) (auto split: if_splits)

lemma sys_read_flowing:
  assumes "flowing rs" "sys_read n rs = (g, r)" "0 < n"
  shows "flowing r \<and> g \<noteq> Fails \<and> (g = Got [] \<longrightarrow> rs = [])"
  using assms by (cases rs rule: arriving.cases) (auto simp: flowing_def split: if_splits)

text \<open>The packet is read whole, however the bytes come and whatever signals interrupt.\<close>

lemma tcp_read_whole:
  assumes "flowing rs" "arriving rs = bs @ rest" "length buf + length bs = count"
  shows "\<exists>rs'. tcp_read count buf rs = (int count, buf @ bs, rs') \<and> arriving rs' = rest \<and> flowing rs'"
  using assms
proof (induction count buf rs arbitrary: bs rule: tcp_read.induct)
  case (1 count buf rs)
  show ?case
  proof (cases "length buf = count")
    case True
    with "1.prems" show ?thesis by (simp add: tcp_read.simps)
  next
    case False
    obtain g r where g: "sys_read (count - length buf) rs = (g, r)" by fastforce
    have pos: "0 < count - length buf" using False "1.prems"(3) by simp
    note flow = sys_read_flowing [OF "1.prems"(1) g pos]
    show ?thesis
    proof (cases g)
      case (Got s)
      have "s \<noteq> []" using flow Got "1.prems"(2,3) False by auto
      from sys_read_bytes(1) [of "count - length buf" rs s r] g Got "1.prems"(2)
      have s: "s @ arriving r = bs @ rest" "length s \<le> count - length buf" by auto
      with "1.prems"(3) obtain us where us: "bs = s @ us" "arriving r = us @ rest"
        by (auto simp: append_eq_append_conv2)
      have "\<exists>rs'. tcp_read count (buf @ s) r = (int count, (buf @ s) @ us, rs') \<and> arriving rs' = rest \<and> flowing rs'"
        by (rule "1.IH"(1) [OF False g [symmetric] Got \<open>s \<noteq> []\<close>]) (use us flow "1.prems"(3) in auto)
      with False g Got \<open>s \<noteq> []\<close> us(1) show ?thesis by (subst tcp_read.simps) simp
    next
      case Intr
      have "\<exists>rs'. tcp_read count buf r = (int count, buf @ bs, rs') \<and> arriving rs' = rest \<and> flowing rs'"
        by (rule "1.IH"(2) [OF False g [symmetric] Intr])
          (use flow "1.prems" sys_read_bytes(2) g Intr in auto)
      with False g Intr show ?thesis by (subst tcp_read.simps) simp
    qed (use flow in simp)
  qed
qed

text \<open>What is written arrives in order; all of it when no call fails and the peer takes enough.\<close>

definition taking :: "taken list \<Rightarrow> bool" where
  "taking ts \<longleftrightarrow> (\<forall>t \<in> set ts. t \<noteq> W_Broken \<and> t \<noteq> Took 0)"

definition takes_now :: "taken list \<Rightarrow> nat" where
  "takes_now ts = length (filter (\<lambda>t. t \<noteq> W_Eintr) ts)"

lemma tcp_write_whole:
  "taking ts \<Longrightarrow> n \<le> length buf \<Longrightarrow> length buf - n \<le> takes_now ts
   \<Longrightarrow> \<exists>ts'. tcp_write buf n ts = Inr (int (length buf), buf, ts') \<and> taking ts' \<and> takes_now ts \<le> takes_now ts' + (length buf - n)"
proof (induction ts arbitrary: n)
  case (Cons t ts)
  show ?case
  proof (cases "n = length buf")
    case False
    have tl: "taking ts" using Cons.prems(1) by (simp add: taking_def)
    show ?thesis
    proof (cases t)
      case (Took k)
      with Cons.prems(1) have k: "0 < k" by (auto simp: taking_def)
      let ?n = "n + min k (length buf - n)"
      have "?n \<le> length buf" "length buf - ?n \<le> takes_now ts"
        using Cons.prems(2,3) k Took False by (auto simp: takes_now_def)
      from Cons.IH [OF tl this] obtain ts' where "tcp_write buf ?n ts = Inr (int (length buf), buf, ts')" "taking ts'"
        "takes_now ts \<le> takes_now ts' + (length buf - ?n)" by blast
      with False k Took Cons.prems(2) show ?thesis by (auto simp: takes_now_def)
    next
      case W_Eintr
      with Cons.prems have "length buf - n \<le> takes_now ts" by (simp add: takes_now_def)
      from Cons.IH [OF tl Cons.prems(2) this] W_Eintr False show ?thesis by (simp add: takes_now_def)
    qed (use Cons.prems(1) in \<open>simp add: taking_def\<close>)
  qed (use Cons.prems(1) in simp)
qed (simp add: takes_now_def taking_def)

lemma tcp_write_prefix: "tcp_write buf n ts = Inr (k, s, ts') \<Longrightarrow> \<exists>m. s = take m buf"
proof (induction ts arbitrary: n)
  case Nil
  then show ?case by (auto split: if_splits intro: exI [of _ "length buf"])
next
  case (Cons t ts)
  show ?case
  proof (cases "n = length buf")
    case True
    with Cons.prems show ?thesis by (auto intro: exI [of _ "length buf"])
  next
    case False
    with Cons show ?thesis by (cases t) (auto split: if_splits)
  qed
qed

text \<open>A socket whose address could not be set up stays open.\<close>

lemma listen_leaves_socket:
  assumes "0 \<le> socket_ret env" "0 \<le> setsockopt_ret env" "bind_ret env < 0" "0 \<le> pton_ret env"
  shows "tcp_listen env fds = (-1, insert (socket_ret env) fds)"
  using assms by (simp add: tcp_listen_def tcp_socket_def tcp_reuse_addr_def Let_def)

end
