(* ===== verification/Room_Server.thy ===== *)
theory Room_Server
  imports Room_Socket Talk_Text
begin

text \<open>
  The server of the third chat room, \<open>Solution/wuxinyue/chatroom/server.c\<close>: its state, every handler, and its loop.
  What the kernel answers (descriptors, the bytes that arrive, what is taken, the signals) comes with the events.
\<close>

section \<open>State\<close>

record room_user =
  is_login :: int
  user_name_32 :: string

text \<open>
  \<open>server_t\<close>, the open descriptors, the ones epoll watches, what reads of each will get, the packets sent,
  and the text on the standard error.
\<close>

record room =
  stop :: bool
  listen_fd :: int
  epoll_fd :: int
  users :: "room_user list"
  fds :: "int set"
  interest :: "int set"
  arrivals :: "int \<Rightarrow> arrival list"
  answers :: "(int \<times> string) list"
  stderr :: "string list"

definition abort :: "('s, 'a) op" where
  "abort = lifted (Inl (Exit 134))"

definition say :: "string \<Rightarrow> (room, unit) op" where
  "say t = setting (\<lambda>s. s\<lparr>stderr := stderr s @ [t]\<rparr>)"

text \<open>A closed descriptor leaves the set that epoll watches.\<close>

definition close :: "int \<Rightarrow> (room, unit) op" where
  "close fd = setting (\<lambda>s. s\<lparr>fds := fds s - {fd}, interest := interest s - {fd}\<rparr>)"

section \<open>Start\<close>

definition server_init :: "int \<Rightarrow> (room, unit) op" where
  "server_init epoll_ret =
     bnd (setting (\<lambda>s. s\<lparr>stop := False, listen_fd := 0, users := replicate 1000 \<lparr>is_login = 0, user_name_32 = []\<rparr>,
       epoll_fd := epoll_ret\<rparr>)) (\<lambda>_.
     if epoll_ret < 0 then abort else setting (\<lambda>s. s\<lparr>fds := insert epoll_ret (fds s)\<rparr>))"

definition server_start :: "net_env \<Rightarrow> int \<Rightarrow> (room, unit) op" where
  "server_start env ctl_ret =
     bnd (getting fds) (\<lambda>F.
     case tcp_listen env F of (fd, F') \<Rightarrow>
     bnd (setting (\<lambda>s. s\<lparr>listen_fd := fd, fds := F'\<rparr>)) (\<lambda>_.
     if fd < 0 then abort
     else if ctl_ret < 0 then abort
     else setting (\<lambda>s. s\<lparr>interest := insert fd (interest s)\<rparr>)))"

section \<open>Reading and writing\<close>

text \<open>
  \<open>read\<close> of no bytes returns 0, and of a negative number of bytes (a size above the greatest) -1. The result is what
  \<open>read_from_fd\<close> returns, and the bytes that the kernel has stored.
\<close>

definition read_from_fd :: "int \<Rightarrow> int \<Rightarrow> (room, int \<times> string) op" where
  "read_from_fd fd len =
     (if len \<le> 0 then retn (-1, [])
      else
        bnd (getting (\<lambda>s. sys_read (nat len) (arrivals s fd))) (\<lambda>(g, r).
        bnd (setting (\<lambda>s. s\<lparr>arrivals := (arrivals s)(fd := r)\<rparr>)) (\<lambda>_.
        case g of
          Got b \<Rightarrow> retn (if b = [] then -1 else if int (length b) \<noteq> len then -1 else len, b)
        | Intr \<Rightarrow> retn (-1, [])
        | Fails \<Rightarrow> retn (-1, []))))"

text \<open>\<open>w\<close> is what \<open>write\<close> returns, \<open>soft\<close> whether the error is \<open>EINTR\<close> or \<open>EAGAIN\<close>.\<close>

definition write_to_fd :: "int \<Rightarrow> int \<Rightarrow> bool \<Rightarrow> string \<Rightarrow> (room, int) op" where
  "write_to_fd fd w soft b =
     bnd (when_op (0 < w) (setting (\<lambda>s. s\<lparr>answers := answers s @ [(fd, take (nat w) b)]\<rparr>))) (\<lambda>_.
     bnd (when_op (w = 0 \<or> (w = -1 \<and> \<not> soft)) (close fd)) (\<lambda>_.
     retn (if w \<noteq> int (length b) then -1 else w)))"

definition close_user_fd :: "int \<Rightarrow> (room, unit) op" where
  "close_user_fd fd = bnd (setting (\<lambda>s. s\<lparr>interest := interest s - {fd}\<rparr>)) (\<lambda>_. close fd)"

section \<open>Requests\<close>

text \<open>\<open>buffer\<close> is on the stack: a byte that was not written is None.\<close>

type_synonym buffer = "char option list"

definition store_at :: "nat \<Rightarrow> string \<Rightarrow> buffer \<Rightarrow> buffer result" where
  "store_at off b buf =
     (if off + length b \<le> length buf then Inr (take off buf @ map Some b @ drop (off + length b) buf)
      else Inl Buffer_Overflow)"

text \<open>The string that begins a part of it, as \<open>%s\<close> and \<open>strcmp\<close> read it.\<close>

fun text_from :: "buffer \<Rightarrow> string result" where
  "text_from [] = Inl Out_Of_Bounds"
| "text_from (None # r) = Inl Uninit_Read"
| "text_from (Some c # r) = (if c = CHR 0x00 then Inr [] else rbind (text_from r) (\<lambda>t. Inr (c # t)))"

definition refused :: string where
  "refused = utf8 [228, 184, 141, 232, 174, 169] @ '' zhangxue '' @ utf8 [230, 179, 168, 229, 134, 140] @ [newline]"

definition process_register :: "(nat \<Rightarrow> char) \<Rightarrow> buffer \<Rightarrow> (room, string) op" where
  "process_register heap buf =
     bnd (lifted (text_from (drop 12 buf))) (\<lambda>u.
     bnd (lifted (text_from (drop 44 buf))) (\<lambda>p.
     bnd (say (''want register, username: '' @ u @ '', password: '' @ p @ [newline])) (\<lambda>_.
     if u = ''zhangxue'' then
       bnd (say refused) (\<lambda>_. lifted (create_response_status (block heap 48) 1 ''user exist!''))
     else lifted (create_response_status (block heap 48) 0 ''success''))))"

text \<open>\<open>process_funcs\<close> has one entry.\<close>

definition process_user_request :: "(nat \<Rightarrow> char) \<Rightarrow> proto_head_t \<Rightarrow> buffer \<Rightarrow> (room, string option) op" where
  "process_user_request heap req buf =
     (let index = low_int (h_type req - 1000) in
      if index < 0 \<or> 1 \<le> index then retn None else bnd (process_register heap buf) (\<lambda>r. retn (Some r)))"

definition process_user_send_data :: "(nat \<Rightarrow> char) \<Rightarrow> int \<Rightarrow> int \<Rightarrow> bool \<Rightarrow> (room, unit) op" where
  "process_user_send_data heap fd w soft =
     bnd (read_from_fd fd 12) (\<lambda>(nread, b).
     bnd (lifted (store_at 0 b (replicate 1024 None))) (\<lambda>buf.
     if nread < 0 then close_user_fd fd
     else
       let req = decode_head b in
       if h_magic req \<noteq> CR_PROTO_HEAD then close_user_fd fd
       else
         bnd (read_from_fd fd (low_int (h_length req - 12))) (\<lambda>(nread, b).
         bnd (lifted (store_at 12 b buf)) (\<lambda>buf.
         if nread < 0 then close_user_fd fd
         else
           bnd (process_user_request heap req buf) (\<lambda>resp.
           case resp of
             None \<Rightarrow> close_user_fd fd
           | Some r \<Rightarrow> bnd (write_to_fd fd w soft r) (\<lambda>_. retn ()))))))"

section \<open>The loop\<close>

definition accept_new_connection :: "accepted list \<Rightarrow> int \<Rightarrow> (room, unit) op" where
  "accept_new_connection rs ctl_ret =
     bnd (lifted (tcp_accept rs)) (\<lambda>fd.
     if fd < 0 then abort
     else
       bnd (setting (\<lambda>s. s\<lparr>fds := insert fd (fds s)\<rparr>)) (\<lambda>_.
       if ctl_ret < 0 then abort else setting (\<lambda>s. s\<lparr>interest := insert fd (interest s)\<rparr>)))"

definition server_stop :: "(room, unit) op" where
  "server_stop = setting (\<lambda>s. s\<lparr>stop := True\<rparr>)"

definition signal_handle :: "(room, unit) op" where
  "signal_handle = server_stop"

text \<open>
  One entry of \<open>events\<close>: the listening socket or a client with \<open>EPOLLIN\<close> alone (and what accepting or writing
  will return), or a descriptor with other events.
\<close>

datatype epoll_event = New_Client "accepted list" int | Client_Sent int int bool | Other_Event int

definition room_event :: "(nat \<Rightarrow> char) \<Rightarrow> epoll_event \<Rightarrow> (room, unit) op" where
  "room_event heap e =
     (case e of
        New_Client rs ctl_ret \<Rightarrow> accept_new_connection rs ctl_ret
      | Client_Sent fd w soft \<Rightarrow> process_user_send_data heap fd w soft
      | Other_Event fd \<Rightarrow> bnd (setting (\<lambda>s. s\<lparr>interest := interest s - {fd}\<rparr>)) (\<lambda>_. close fd))"

text \<open>What happens: bytes arrive, the signal comes, \<open>epoll_wait\<close> returns events or fails.\<close>

datatype happening =
    Arrives int "arrival list"
  | Sigint
  | Poll "epoll_event list"
  | Poll_Eintr
  | Poll_Fails

definition happen :: "(nat \<Rightarrow> char) \<Rightarrow> happening \<Rightarrow> (room, bool) op" where
  "happen heap h =
     (case h of
        Arrives fd rs \<Rightarrow> bnd (setting (\<lambda>s. s\<lparr>arrivals := (arrivals s)(fd := arrivals s fd @ rs)\<rparr>)) (\<lambda>_. retn False)
      | Sigint \<Rightarrow> bnd signal_handle (\<lambda>_. retn False)
      | Poll es \<Rightarrow> bnd (each (room_event heap) es) (\<lambda>_. getting stop)
      | Poll_Eintr \<Rightarrow> getting stop
      | Poll_Fails \<Rightarrow> abort)"

text \<open>\<open>while (!server->stop)\<close>: the result says whether the loop was left, or the server waits in \<open>epoll_wait\<close>.\<close>

fun server_run :: "(nat \<Rightarrow> char) \<Rightarrow> happening list \<Rightarrow> (room, bool) op" where
  "server_run heap [] = retn False"
| "server_run heap (h # hs) = bnd (happen heap h) (\<lambda>left. if left then retn True else server_run heap hs)"

definition server_destory :: "(room, unit) op" where
  "server_destory = bnd (getting listen_fd) (\<lambda>l. bnd (getting epoll_fd) (\<lambda>e. bnd (close l) (\<lambda>_. close e)))"

definition room_main :: "(nat \<Rightarrow> char) \<Rightarrow> int \<Rightarrow> net_env \<Rightarrow> int \<Rightarrow> happening list \<Rightarrow> (room, bool) op" where
  "room_main heap epoll_ret env ctl_ret hs =
     bnd (server_init epoll_ret) (\<lambda>_. bnd (server_start env ctl_ret) (\<lambda>_.
     bnd (server_run heap hs) (\<lambda>left. if left then bnd server_destory (\<lambda>_. retn True) else retn False)))"

text \<open>The process before \<open>main\<close>: the standard descriptors; the global \<open>server\<close> is zero.\<close>

definition room0 :: room where
  "room0 = \<lparr>stop = False, listen_fd = 0, epoll_fd = 0, users = [], fds = {0, 1, 2}, interest = {},
     arrivals = (\<lambda>_. []), answers = [], stderr = []\<rparr>"

end
