(* ===== verification/Room_Client.thy ===== *)
theory Room_Client
  imports Room_Socket Talk_Client Talk_Text
begin

text \<open>
  The client of the third chat room, \<open>Solution/wuxinyue/chatroom/client.c\<close> and \<open>client_menu.c\<close>: its menus as a
  state machine over what is typed at a terminal, and the two requests it makes. Prompts, the time and the lines
  for the log are left out; of what is shown only the verdicts are kept.
\<close>

section \<open>State\<close>

record room_client =
  conn_fd :: int
  descriptors :: "int set"
  typed :: string
  in_stream :: "arrival list"
  outgoing_calls :: "taken list"
  requests :: string
  verdicts :: "string list"

definition stopped :: "(room_client, 'a) op" where
  "stopped = lifted (Inl (Exit 134))"

definition verdict_shown :: "string \<Rightarrow> (room_client, unit) op" where
  "verdict_shown t = setting (\<lambda>s. s\<lparr>verdicts := verdicts s @ [t]\<rparr>)"

definition room_client_init :: "(room_client, unit) op" where
  "room_client_init = setting (\<lambda>s. s\<lparr>conn_fd := 0\<rparr>)"

definition room_client_start :: "net_env \<Rightarrow> (room_client, unit) op" where
  "room_client_start env =
     bnd (getting descriptors) (\<lambda>F.
     case tcp_connect env F of (fd, F') \<Rightarrow>
     bnd (setting (\<lambda>s. s\<lparr>conn_fd := fd, descriptors := F'\<rparr>)) (\<lambda>_. if fd < 0 then stopped else retn ()))"

definition room_client_destroy :: "(room_client, unit) op" where
  "room_client_destroy = setting (\<lambda>s. s\<lparr>descriptors := tcp_close (conn_fd s) (descriptors s)\<rparr>)"

section \<open>Requests\<close>

text \<open>What the peer got when a call of \<open>write\<close> fails has left as well.\<close>

definition write_request :: "string \<Rightarrow> (room_client, int) op" where
  "write_request b =
     bnd (getting outgoing_calls) (\<lambda>ts. bnd (lifted (tcp_write b 0 ts)) (\<lambda>(n, sent, ts').
     bnd (setting (\<lambda>s. s\<lparr>requests := requests s @ sent, outgoing_calls := ts'\<rparr>)) (\<lambda>_. retn n)))"

definition read_response :: "nat \<Rightarrow> (room_client, int \<times> string) op" where
  "read_response count =
     bnd (getting (\<lambda>s. tcp_read count [] (in_stream s))) (\<lambda>(n, b, rs).
     bnd (setting (\<lambda>s. s\<lparr>in_stream := rs\<rparr>)) (\<lambda>_. retn (n, b)))"

text \<open>What \<open>user_register\<close> and \<open>user_login\<close> do with their request.\<close>

definition exchange_status :: "string \<Rightarrow> (room_client, int) op" where
  "exchange_status req =
     bnd (write_request req) (\<lambda>nwritten.
     if nwritten \<noteq> h_length (decode_head req) then stopped
     else
       bnd (read_response 48) (\<lambda>(nread, resp).
       if nread \<noteq> 48 then stopped
       else if h_type (decode_head resp) \<noteq> type_number RESP_STATUS then stopped
       else if h_magic (decode_head resp) \<noteq> CR_PROTO_HEAD then stopped
       else retn (signed_le (bytes_at 12 4 resp))))"

definition user_register :: "(nat \<Rightarrow> char) \<Rightarrow> string \<Rightarrow> string \<Rightarrow> (room_client, int) op" where
  "user_register heap u p =
     bnd (lifted (create_request_register (block heap 76) u p)) exchange_status"

text \<open>\<open>create_request_login\<close> takes no arguments: the name and the password are not used.\<close>

definition user_login :: "(nat \<Rightarrow> char) \<Rightarrow> string \<Rightarrow> string \<Rightarrow> (room_client, int) op" where
  "user_login heap u p =
     bnd (lifted (create_request_login (block heap 76))) exchange_status"

section \<open>Menus\<close>

definition clear_input_buffer :: "(room_client, unit) op" where
  "clear_input_buffer =
     bnd (getting typed) (\<lambda>ks.
     case dropWhile (\<lambda>c. c \<noteq> newline) ks of
       [] \<Rightarrow> lifted (Inl No_Return)
     | _ # r \<Rightarrow> setting (\<lambda>s. s\<lparr>typed := r\<rparr>))"

text \<open>\<open>scanf("%s", username)\<close>: 32 bytes\<close>

definition scan_name :: "(room_client, string) op" where
  "scan_name =
     bnd (getting typed) (\<lambda>ks.
     case scan_word ks of
       None \<Rightarrow> lifted (Inl No_Return)
     | Some (w, r) \<Rightarrow> bnd (lifted (strcpy 32 w)) (\<lambda>w. bnd (setting (\<lambda>s. s\<lparr>typed := r\<rparr>)) (\<lambda>_. retn w)))"

text \<open>\<open>scanf("%d", &choice)\<close>: a number too long is cut as \<open>strtol\<close> does, and then to 32 bits.\<close>

definition scan_choice :: "(room_client, int) op" where
  "scan_choice =
     bnd (getting typed) (\<lambda>ks.
     case scan_num ks of
       None \<Rightarrow> lifted (Inl No_Return)
     | Some (v, r) \<Rightarrow>
         bnd (setting (\<lambda>s. s\<lparr>typed := r\<rparr>)) (\<lambda>_.
         retn (case v of None \<Rightarrow> 0 | Some i \<Rightarrow> low_int (max (- (2 ^ 63)) (min (2 ^ 63 - 1) i)))))"

datatype cli_status_t = INIT | LOGIN | REGISTER | EXIT

definition register_failed :: string where
  "register_failed = utf8 [230, 179, 168, 229, 134, 140, 229, 164, 177, 232, 180, 165]"

definition login_failed :: string where
  "login_failed = utf8 [231, 153, 187, 229, 189, 149, 229, 164, 177, 232, 180, 165]"

definition wrong_choice :: string where
  "wrong_choice = utf8 [232, 190, 147, 229, 133, 165, 233, 148, 153, 232, 175, 175] @ ''!''"

definition show_register_menu :: "(nat \<Rightarrow> char) \<Rightarrow> (room_client, cli_status_t) op" where
  "show_register_menu heap =
     bnd scan_name (\<lambda>u. bnd scan_name (\<lambda>p. bnd (user_register heap u p) (\<lambda>status.
     bnd (verdict_shown (if status = 0 then regist_ok @ [newline] else register_failed @ [newline])) (\<lambda>_.
     retn INIT))))"

definition show_login_menu :: "(nat \<Rightarrow> char) \<Rightarrow> (room_client, cli_status_t) op" where
  "show_login_menu heap =
     bnd scan_name (\<lambda>u. bnd scan_name (\<lambda>p. bnd (user_login heap u p) (\<lambda>status.
     bnd (verdict_shown (if status = 0 then login_ok else login_failed)) (\<lambda>_.
     retn INIT))))"

definition show_init_menu :: "(room_client, cli_status_t) op" where
  "show_init_menu =
     bnd scan_choice (\<lambda>choice.
     if choice = 1 then retn REGISTER
     else if choice = 2 then retn LOGIN
     else if choice = 0 then retn EXIT
     else bnd (verdict_shown (wrong_choice @ [newline])) (\<lambda>_. retn INIT))"

definition show_menu :: "(nat \<Rightarrow> char) \<Rightarrow> cli_status_t \<Rightarrow> (room_client, cli_status_t) op" where
  "show_menu heap status =
     (case status of
        INIT \<Rightarrow> show_init_menu
      | REGISTER \<Rightarrow> show_register_menu heap
      | LOGIN \<Rightarrow> show_login_menu heap
      | EXIT \<Rightarrow> retn EXIT)"

text \<open>\<open>while (status != EXIT)\<close>; the number bounds the rounds, each of which reads a newline.\<close>

fun cli_menu_loop :: "(nat \<Rightarrow> char) \<Rightarrow> nat \<Rightarrow> cli_status_t \<Rightarrow> (room_client, unit) op" where
  "cli_menu_loop heap 0 status = lifted (Inl No_Return)"
| "cli_menu_loop heap (Suc k) status =
     (if status = EXIT then retn ()
      else bnd (show_menu heap status) (\<lambda>status'. bnd clear_input_buffer (\<lambda>_. cli_menu_loop heap k status')))"

definition cli_show_menu :: "(nat \<Rightarrow> char) \<Rightarrow> (room_client, unit) op" where
  "cli_show_menu heap = bnd (getting typed) (\<lambda>ks. cli_menu_loop heap (Suc (length ks)) INIT)"

definition room_client_main :: "(nat \<Rightarrow> char) \<Rightarrow> net_env \<Rightarrow> (room_client, unit) op" where
  "room_client_main heap env =
     bnd room_client_init (\<lambda>_. bnd (room_client_start env) (\<lambda>_.
     bnd (cli_show_menu heap) (\<lambda>_. room_client_destroy)))"

text \<open>The client when it starts, with what will be typed, what will arrive and what the calls of \<open>write\<close> take.\<close>

definition room_client0 :: "string \<Rightarrow> arrival list \<Rightarrow> taken list \<Rightarrow> room_client" where
  "room_client0 ks rs ts = \<lparr>conn_fd = 0, descriptors = {0, 1, 2}, typed = ks, in_stream = rs, outgoing_calls = ts,
     requests = [], verdicts = []\<rparr>"

end
