(* ===== verification/Room_Facts.thy ===== *)
theory Room_Facts
  imports Room_Server Room_Client
begin

text \<open>
  Facts on the third chat room: one request at the server, one exchange at the client, the menus, and the
  descriptors of the server.
\<close>

section \<open>A request at the server\<close>

lemma text_from_enc: "cstring n t \<Longrightarrow> text_from (map Some (enc_str n t) @ r) = Inr t"
proof -
  assume t: "cstring n t"
  then obtain k where k: "n = Suc (length t + k)" using less_iff_Suc_add [of "length t" n] by (auto simp: cstring_def fits_def)
  have "CHR 0x00 \<notin> set u \<Longrightarrow> text_from (map Some u @ Some (CHR 0x00) # r') = Inr u" for u r'
    by (induction u) auto
  with t show ?thesis by (simp add: enc_str_def k cstring_def)
qed

lemma read_from_fd_run:
  assumes "0 < len" "arrivals s fd = Run b # r" "nat len \<le> length b"
  shows "read_from_fd fd len s = Inr ((len, take (nat len) b), s\<lparr>arrivals := (arrivals s)(fd := (if length b = nat len then r else Run (drop (nat len) b) # r))\<rparr>)"
proof -
  have "b \<noteq> []" "nat len \<noteq> 0" using assms by auto
  with assms show ?thesis by (auto simp: read_from_fd_def op_simps)
qed

lemma read_from_fd_short:
  assumes "0 < len" "arrivals s fd = Run b # r" "length b < nat len"
  shows "read_from_fd fd len s = Inr ((-1, b), s\<lparr>arrivals := (arrivals s)(fd := r)\<rparr>)"
  using assms by (auto simp: read_from_fd_def op_simps)

lemma store_at_run:
  "off + length b \<le> length buf \<Longrightarrow> store_at off b buf = Inr (take off buf @ map Some b @ drop (off + length b) buf)"
  by (simp add: store_at_def)

text \<open>The head of a packet is read, and the rest is read into the buffer behind it.\<close>

definition head_buffer :: "proto_head_t \<Rightarrow> buffer" where
  "head_buffer h = map Some (encode_head h) @ replicate 1012 None"

lemma length_head_buffer [simp]: "length (head_buffer h) = 1024"
  by (simp add: head_buffer_def head_size_def)

definition after_head :: "(nat \<Rightarrow> char) \<Rightarrow> int \<Rightarrow> int \<Rightarrow> bool \<Rightarrow> proto_head_t \<Rightarrow> (room, unit) op" where
  "after_head heap fd w soft h =
     bnd (read_from_fd fd (low_int (h_length h - 12))) (\<lambda>(nread, b).
     bnd (lifted (store_at 12 b (head_buffer h))) (\<lambda>buf.
     if nread < 0 then close_user_fd fd
     else
       bnd (process_user_request heap h buf) (\<lambda>resp.
       case resp of
         None \<Rightarrow> close_user_fd fd
       | Some r \<Rightarrow> bnd (write_to_fd fd w soft r) (\<lambda>_. retn ()))))"

lemma head_read:
  assumes "head_ok h" "h_magic h = CR_PROTO_HEAD" "arrivals s fd = Run (encode_head h @ b) # r"
  shows "process_user_send_data heap fd w soft s
    = after_head heap fd w soft h (s\<lparr>arrivals := (arrivals s)(fd := (if b = [] then r else Run b # r))\<rparr>)"
proof -
  have read: "read_from_fd fd 12 s = Inr ((12, encode_head h), s\<lparr>arrivals := (arrivals s)(fd := (if b = [] then r else Run b # r))\<rparr>)"
    using read_from_fd_run [OF _ assms(3), of 12] by (simp add: head_size_def)
  have store: "store_at 0 (encode_head h) (replicate 1024 None) = Inr (head_buffer h)"
    by (simp add: store_at_def head_buffer_def head_size_def)
  have dec: "decode_head (encode_head h) = h" using decode_encode_head [OF assms(1), of "[]"] by simp
  show ?thesis
    by (simp add: process_user_send_data_def after_head_def bnd_def [of "read_from_fd fd 12"] read store op_simps dec assms(2))
qed

definition answer_to :: "string \<times> string \<Rightarrow> string" where
  "answer_to r = (if fst r = ''zhangxue'' then status_packet 1 ''user exist!'' else status_packet 0 ''success'')"

definition registration :: "string \<times> string \<Rightarrow> bool" where
  "registration r \<longleftrightarrow> cstring 32 (fst r) \<and> cstring 32 (snd r) \<and> fst r \<noteq> [] \<and> snd r \<noteq> []
     \<and> (\<forall>c \<in> set (fst r @ snd r). \<not> isspace c)"

definition request_of :: "string \<times> string \<Rightarrow> string" where
  "request_of r = register_packet (fst r) (snd r)"

definition answered :: "room \<Rightarrow> int \<Rightarrow> arrival list \<Rightarrow> string \<Rightarrow> room \<Rightarrow> bool" where
  "answered s fd r b t \<longleftrightarrow> (\<exists>e. t = s\<lparr>arrivals := (arrivals s)(fd := r), stderr := e, answers := answers s @ [(fd, b)]\<rparr>)"

lemma process_request_run:
  assumes "text_from (drop 12 buf) = Inr n" "text_from (drop 44 buf) = Inr p"
  shows "\<exists>e. process_user_request heap (packet_head REQ_REGISTER 76) buf s = Inr (Some (answer_to (n, p)), s\<lparr>stderr := e\<rparr>)"
  using assms
  by (simp add: process_user_request_def packet_head_def low_int_def process_register_def bnd_def op_simps say_def
      create_response_status_run answer_to_def) (intro conjI impI exI, (rule refl)+)

lemma write_to_fd_run:
  "write_to_fd fd 48 soft (answer_to r) s = Inr (48, s\<lparr>answers := answers s @ [(fd, answer_to r)]\<rparr>)"
  by (simp add: write_to_fd_def op_simps answer_to_def)

lemma request_answered:
  assumes "cstring 32 n" "cstring 32 p" "arrivals s fd = Run (enc_str 32 n @ enc_str 32 p) # r"
  shows "\<exists>t. after_head heap fd 48 soft (packet_head REQ_REGISTER 76) s = Inr ((), t) \<and> answered s fd r (answer_to (n, p)) t"
proof -
  let ?b = "enc_str 32 n @ enc_str 32 p" and ?h = "packet_head REQ_REGISTER 76"
  define buf where "buf = take 12 (head_buffer ?h) @ map Some ?b @ drop 76 (head_buffer ?h)"
  have len: "low_int (h_length ?h - 12) = 64" by (simp add: packet_head_def low_int_def)
  have read: "read_from_fd fd 64 s = Inr ((64, ?b), s\<lparr>arrivals := (arrivals s)(fd := r)\<rparr>)"
    using read_from_fd_run [OF _ assms(3), of 64] by simp
  have store: "store_at 12 ?b (head_buffer ?h) = Inr buf" by (simp add: store_at_run buf_def)
  have "drop 12 buf = map Some (enc_str 32 n) @ map Some (enc_str 32 p) @ drop 76 (head_buffer ?h)"
    "drop 44 buf = map Some (enc_str 32 p) @ drop 76 (head_buffer ?h)" by (simp_all add: buf_def)
  then have "text_from (drop 12 buf) = Inr n" "text_from (drop 44 buf) = Inr p"
    using text_from_enc assms(1,2) by simp_all
  from process_request_run [OF this] obtain e where
    "process_user_request heap ?h buf (s\<lparr>arrivals := (arrivals s)(fd := r)\<rparr>)
      = Inr (Some (answer_to (n, p)), s\<lparr>arrivals := (arrivals s)(fd := r), stderr := e\<rparr>)" by fastforce
  with store show ?thesis
    unfolding after_head_def len bnd_def [of "read_from_fd fd 64"] read
    by (auto simp: op_simps write_to_fd_run answered_def)
qed

lemma request_whole:
  assumes "registration rq" "arrivals s fd = Run (request_of rq) # r"
  shows "\<exists>t. process_user_send_data heap fd 48 soft s = Inr ((), t) \<and> answered s fd r (answer_to rq) t"
proof -
  obtain n p where rq: "rq = (n, p)" by (cases rq)
  let ?b = "enc_str 32 n @ enc_str 32 p" and ?h = "packet_head REQ_REGISTER 76"
  have "enc_str 32 n \<noteq> []" by (metis length_enc_str list.size(3) zero_neq_numeral)
  moreover have "arrivals s fd = Run (encode_head ?h @ ?b) # r"
    using assms(2) by (simp add: rq request_of_def register_packet_def)
  ultimately have "process_user_send_data heap fd 48 soft s
      = after_head heap fd 48 soft ?h (s\<lparr>arrivals := (arrivals s)(fd := Run ?b # r)\<rparr>)"
    using head_read [of ?h s fd ?b r heap 48 soft] packet_head_ok [of 76 REQ_REGISTER]
    by (simp add: uint32_def packet_head_def)
  moreover obtain t where "after_head heap fd 48 soft ?h (s\<lparr>arrivals := (arrivals s)(fd := Run ?b # r)\<rparr>) = Inr ((), t)"
    "answered (s\<lparr>arrivals := (arrivals s)(fd := Run ?b # r)\<rparr>) fd r (answer_to rq) t"
    using request_answered [of n p "s\<lparr>arrivals := (arrivals s)(fd := Run ?b # r)\<rparr>" fd r heap soft] assms(1)
    by (auto simp: rq registration_def)
  ultimately show ?thesis by (auto simp: answered_def)
qed

section \<open>An exchange at the client\<close>

lemma head_of_status: "decode_head (status_packet st msg) = packet_head RESP_STATUS 48"
  unfolding status_packet_def by (rule decode_encode_head) (simp add: packet_head_ok uint32_def)

lemma head_of_request: "decode_head (request_of r) = packet_head REQ_REGISTER 76"
  unfolding request_of_def register_packet_def by (rule decode_encode_head) (simp add: packet_head_ok uint32_def)

lemma status_of_packet: "int32 st \<Longrightarrow> signed_le (bytes_at 12 4 (status_packet st msg)) = st"
  by (simp add: status_packet_def bytes_at_def head_size_def signed_le_int32)

definition status_of :: "string \<times> string \<Rightarrow> int" where
  "status_of r = (if fst r = ''zhangxue'' then 1 else 0)"

definition verdict_on :: "string \<times> string \<Rightarrow> string" where
  "verdict_on r = (if fst r = ''zhangxue'' then register_failed else regist_ok) @ [newline]"

lemma answer_parts:
  "decode_head (answer_to r) = packet_head RESP_STATUS 48" "signed_le (bytes_at 12 4 (answer_to r)) = status_of r"
  "length (answer_to r) = 48" "length (request_of r) = 76"
  by (simp_all add: answer_to_def head_of_status status_of_packet status_of_def int32_def request_of_def)

text \<open>The client with the next bytes and calls.\<close>

definition ready :: "room_client \<Rightarrow> nat \<Rightarrow> string \<Rightarrow> bool" where
  "ready c k b \<longleftrightarrow> flowing (in_stream c) \<and> arriving (in_stream c) = b \<and> taking (outgoing_calls c) \<and> k \<le> takes_now (outgoing_calls c)"

lemma exchange_run:
  assumes "ready c (76 + k) (answer_to r @ b)"
  shows "\<exists>rs ts. exchange_status (request_of r) c
      = Inr (status_of r, c\<lparr>requests := requests c @ request_of r, outgoing_calls := ts, in_stream := rs\<rparr>)
    \<and> ready (c\<lparr>requests := requests c @ request_of r, outgoing_calls := ts, in_stream := rs\<rparr>) k b"
proof -
  have t: "taking (outgoing_calls c)" "76 + k \<le> takes_now (outgoing_calls c)" using assms by (simp_all add: ready_def)
  obtain ts where ts: "tcp_write (request_of r) 0 (outgoing_calls c) = Inr (76, request_of r, ts)" "taking ts" "k \<le> takes_now ts"
    using tcp_write_whole [of "outgoing_calls c" 0 "request_of r"] t by (auto simp: answer_parts)
  have "\<exists>rs. tcp_read 48 [] (in_stream c) = (int 48, [] @ answer_to r, rs) \<and> arriving rs = b \<and> flowing rs"
    by (rule tcp_read_whole) (use assms in \<open>auto simp: ready_def answer_parts\<close>)
  then obtain rs where rs: "tcp_read 48 [] (in_stream c) = (48, answer_to r, rs)" "arriving rs = b" "flowing rs" by auto
  have "exchange_status (request_of r) c
      = Inr (status_of r, c\<lparr>requests := requests c @ request_of r, outgoing_calls := ts, in_stream := rs\<rparr>)"
    by (simp add: exchange_status_def write_request_def read_response_def bnd_def op_simps ts rs head_of_request answer_parts
        packet_head_def)
  with ts rs show ?thesis by (auto simp: ready_def)
qed

section \<open>The menus\<close>

text \<open>What is typed to register each and then to leave.\<close>

definition typed_for :: "string \<times> string \<Rightarrow> string" where
  "typed_for r = ''1'' @ [newline] @ fst r @ [newline] @ snd r @ [newline]"

lemma digit_not_space: "is_digit c \<Longrightarrow> \<not> isspace c"
  by (auto simp: is_digit_def isspace_def)

lemma scan_word_run:
  assumes "w \<noteq> []" "\<forall>c \<in> set w. \<not> isspace c" "\<forall>c \<in> set l. isspace c" "isspace d"
  shows "scan_word (l @ w @ d # r) = Some (w, d # r)"
proof -
  have "dropWhile isspace (l @ w @ d # r) = w @ d # r"
    using assms(1-3) by (cases w) (auto simp: dropWhile_append)
  with assms(2,4) show ?thesis by (simp add: scan_word_def dropWhile_append takeWhile_append)
qed

lemma scan_name_run:
  assumes "cstring 32 w" "w \<noteq> []" "\<forall>c \<in> set w. \<not> isspace c" "\<forall>c \<in> set l. isspace c" "typed c = l @ w @ newline # r"
  shows "scan_name c = Inr (w, c\<lparr>typed := newline # r\<rparr>)"
  using assms scan_word_run [OF assms(2-4), of newline r] by (simp add: scan_name_def op_simps cstring_def)

lemma choice_run:
  assumes "typed c = d # newline # r" "d = CHR ''0'' \<or> d = CHR ''1'' \<or> d = CHR ''2''"
  shows "scan_choice c = Inr (of_char d - 48, c\<lparr>typed := newline # r\<rparr>)"
  using assms(2)
  by (elim disjE) (simp_all add: assms(1) scan_choice_def op_simps scan_num_def isspace_def is_digit_def newline_def low_int_def)

lemma clear_run: "typed c = newline # r \<Longrightarrow> clear_input_buffer c = Inr ((), c\<lparr>typed := r\<rparr>)"
  by (simp add: clear_input_buffer_def op_simps)

lemma register_round:
  assumes "registration rq" "typed c = typed_for rq @ tail" "ready c (76 + k) (answer_to rq @ b)"
  shows "\<exists>c'. cli_menu_loop heap (Suc (Suc n)) INIT c = cli_menu_loop heap n INIT c' \<and> typed c' = tail \<and> ready c' k b
    \<and> requests c' = requests c @ request_of rq \<and> verdicts c' = verdicts c @ [verdict_on rq]"
proof -
  obtain u p where rq: "rq = (u, p)" by (cases rq)
  have u: "cstring 32 u" "u \<noteq> []" "\<forall>x \<in> set u. \<not> isspace x" and p: "cstring 32 p" "p \<noteq> []" "\<forall>x \<in> set p. \<not> isspace x"
    using assms(1) by (auto simp: registration_def rq)
  have typed: "typed c = CHR ''1'' # newline # u @ newline # p @ newline # tail" using assms(2) by (simp add: typed_for_def rq)
  define c1 where "c1 = c\<lparr>typed := u @ newline # p @ newline # tail\<rparr>"
  define c2 where "c2 = c\<lparr>typed := newline # tail\<rparr>"
  have first: "cli_menu_loop heap (Suc (Suc n)) INIT c = cli_menu_loop heap (Suc n) REGISTER c1"
    by (simp add: show_menu_def show_init_menu_def bnd_def choice_run [OF typed] clear_run op_simps c1_def)
  have n1: "scan_name c1 = Inr (u, c1\<lparr>typed := newline # p @ newline # tail\<rparr>)"
    using scan_name_run [OF u, of "[]" c1] by (simp add: c1_def)
  have n2: "scan_name (c1\<lparr>typed := newline # p @ newline # tail\<rparr>) = Inr (p, c2)"
    using scan_name_run [OF p, of "[newline]" "c1\<lparr>typed := newline # p @ newline # tail\<rparr>"] by (simp add: c1_def c2_def)
  have "ready c2 (76 + k) (answer_to rq @ b)" using assms(3) by (simp add: ready_def c2_def)
  from exchange_run [OF this] obtain rs ts where
    ex: "exchange_status (request_of rq) c2 = Inr (status_of rq, c2\<lparr>requests := requests c2 @ request_of rq, outgoing_calls := ts, in_stream := rs\<rparr>)"
      "ready (c2\<lparr>requests := requests c2 @ request_of rq, outgoing_calls := ts, in_stream := rs\<rparr>) k b" by blast
  have reg: "user_register heap u p c2 = Inr (status_of rq, c2\<lparr>requests := requests c2 @ request_of rq, outgoing_calls := ts, in_stream := rs\<rparr>)"
    using ex(1) by (simp add: user_register_def op_simps create_request_register_run rq request_of_def)
  let ?c = "c\<lparr>requests := requests c @ request_of rq, outgoing_calls := ts, in_stream := rs, verdicts := verdicts c @ [verdict_on rq], typed := tail\<rparr>"
  have "cli_menu_loop heap (Suc n) REGISTER c1 = cli_menu_loop heap n INIT ?c"
    by (simp add: show_menu_def show_register_menu_def bnd_def n1 n2 [unfolded c2_def]
        reg [unfolded c2_def] verdict_shown_def op_simps clear_input_buffer_def verdict_on_def status_of_def rq)
  with first ex(2) show ?thesis
    by (intro exI [of _ ?c]) (simp add: ready_def c2_def)
qed

lemma leave_round: "typed c = ''0'' @ [newline] \<Longrightarrow> cli_menu_loop heap (Suc (Suc n)) INIT c = Inr ((), c\<lparr>typed := []\<rparr>)"
  by (simp add: show_menu_def show_init_menu_def bnd_def choice_run clear_run op_simps)

lemma register_session:
  assumes "\<forall>r \<in> set regs. registration r" "typed c = concat (map typed_for regs) @ ''0'' @ [newline]"
    "ready c (76 * length regs) (concat (map answer_to regs))" "2 * length regs + 2 \<le> k"
  shows "\<exists>c'. cli_menu_loop heap k INIT c = Inr ((), c') \<and> requests c' = requests c @ concat (map request_of regs)
    \<and> verdicts c' = verdicts c @ map verdict_on regs \<and> typed c' = []"
  using assms
proof (induction regs arbitrary: c k)
  case Nil
  then obtain n where "k = Suc (Suc n)" by (metis add_2_eq_Suc' le_Suc_ex mult_0_right list.size(3) add_Suc)
  with Nil show ?case by (auto simp: leave_round simp del: cli_menu_loop.simps)
next
  case (Cons r regs)
  obtain n where k: "k = Suc (Suc n)" "2 * length regs + 2 \<le> n"
    using Cons.prems(4) by (cases k; cases "k - 1") auto
  have "ready c (76 + 76 * length regs) (answer_to r @ concat (map answer_to regs))" using Cons.prems(3) by simp
  then obtain c' where c': "cli_menu_loop heap k INIT c = cli_menu_loop heap n INIT c'"
    "typed c' = concat (map typed_for regs) @ ''0'' @ [newline]" "ready c' (76 * length regs) (concat (map answer_to regs))"
    "requests c' = requests c @ request_of r" "verdicts c' = verdicts c @ [verdict_on r]"
    using register_round [of r c "concat (map typed_for regs) @ ''0'' @ [newline]"] Cons.prems(1,2) k(1) by fastforce
  from Cons.IH [OF _ c'(2,3) k(2)] Cons.prems(1) c'(1,4,5) show ?case by fastforce
qed

end
