(* ===== verification/Room_Claims.thy ===== *)
theory Room_Claims
  imports Room_Facts
begin

text \<open>
  What the third chat room's two programs do together, and what its server does with requests that are not
  what it expects.
\<close>

section \<open>A run of both programs\<close>

definition net_ok :: "net_env \<Rightarrow> bool" where
  "net_ok env \<longleftrightarrow> 0 \<le> socket_ret env \<and> 0 \<le> setsockopt_ret env \<and> 0 \<le> pton_ret env \<and> 0 \<le> connect_ret env
     \<and> 0 \<le> bind_ret env \<and> 0 \<le> listen_ret env"

text \<open>A client connects, sends its requests one after the other, and then the server gets the signal.\<close>

definition visit :: "int \<Rightarrow> string \<times> string \<Rightarrow> happening list" where
  "visit fd r = [Arrives fd [Run (request_of r)], Poll [Client_Sent fd 48 False]]"

definition server_day :: "int \<Rightarrow> (string \<times> string) list \<Rightarrow> happening list" where
  "server_day fd regs = Poll [New_Client [Accepted fd] 0] # concat (map (visit fd) regs) @ [Sigint, Poll_Eintr]"

lemma visit_run:
  assumes "registration r" "arrivals s fd = []" "\<not> stop s"
  shows "\<exists>t. server_run heap (visit fd r @ hs) s = server_run heap hs t \<and> arrivals t fd = [] \<and> \<not> stop t
    \<and> answers t = answers s @ [(fd, answer_to r)]"
proof -
  let ?s = "s\<lparr>arrivals := (arrivals s)(fd := [Run (request_of r)])\<rparr>"
  obtain t where t: "process_user_send_data heap fd 48 False ?s = Inr ((), t)" "answered ?s fd [] (answer_to r) t"
    using request_whole [OF assms(1), of ?s fd "[]" heap False] by auto
  then have "arrivals t fd = []" "\<not> stop t" "answers t = answers s @ [(fd, answer_to r)]"
    using assms(3) by (auto simp: answered_def)
  moreover have "server_run heap (visit fd r @ hs) s = server_run heap hs t"
    using t(1) assms(2) \<open>\<not> stop t\<close> by (simp add: visit_def happen_def bnd_def op_simps room_event_def)
  ultimately show ?thesis by blast
qed

lemma visits_run:
  "\<forall>r \<in> set regs. registration r \<Longrightarrow> arrivals s fd = [] \<Longrightarrow> \<not> stop s
   \<Longrightarrow> \<exists>t. server_run heap (concat (map (visit fd) regs) @ hs) s = server_run heap hs t
     \<and> answers t = answers s @ map (\<lambda>r. (fd, answer_to r)) regs"
proof (induction regs arbitrary: s)
  case (Cons r regs)
  obtain t where t: "server_run heap (visit fd r @ concat (map (visit fd) regs) @ hs) s = server_run heap (concat (map (visit fd) regs) @ hs) t"
    "arrivals t fd = []" "\<not> stop t" "answers t = answers s @ [(fd, answer_to r)]"
    using visit_run [of r s fd heap "concat (map (visit fd) regs) @ hs"] Cons.prems by auto
  with Cons.IH [of t] Cons.prems(1) show ?case by auto
qed auto

lemma room_main_run:
  assumes "net_ok env" "0 \<le> epoll_ret" "0 \<le> fd" "\<forall>r \<in> set regs. registration r"
  shows "\<exists>t. room_main heap epoll_ret env 0 (server_day fd regs) room0 = Inr (True, t)
    \<and> answers t = map (\<lambda>r. (fd, answer_to r)) regs"
proof -
  let ?l = "socket_ret env"
  define s where "s = room0\<lparr>users := replicate 1000 \<lparr>is_login = 0, user_name_32 = []\<rparr>, epoll_fd := epoll_ret, listen_fd := ?l,
    fds := insert fd (insert ?l (insert epoll_ret {0, 1, 2})), interest := {fd, ?l}\<rparr>"
  have listen: "tcp_listen env F = (?l, insert ?l F)" for F
    using assms(1) by (auto simp: net_ok_def tcp_listen_def tcp_socket_def tcp_reuse_addr_def Let_def)
  obtain t where t: "server_run heap (concat (map (visit fd) regs) @ [Sigint, Poll_Eintr]) s = server_run heap [Sigint, Poll_Eintr] t"
    "answers t = map (\<lambda>r. (fd, answer_to r)) regs"
    using visits_run [OF assms(4), of s fd heap "[Sigint, Poll_Eintr]"] by (auto simp: s_def room0_def)
  have "server_run heap (server_day fd regs) (s\<lparr>fds := insert ?l (insert epoll_ret {0, 1, 2}), interest := {?l}\<rparr>)
      = server_run heap (concat (map (visit fd) regs) @ [Sigint, Poll_Eintr]) s"
    using assms(3) by (simp add: server_day_def happen_def room_event_def accept_new_connection_def bnd_def op_simps s_def room0_def)
  moreover have "server_run heap [Sigint, Poll_Eintr] t = Inr (True, t\<lparr>stop := True\<rparr>)"
    by (simp add: happen_def signal_handle_def server_stop_def bnd_def op_simps)
  moreover have "server_init epoll_ret room0 = Inr ((), room0\<lparr>users := replicate 1000 \<lparr>is_login = 0, user_name_32 = []\<rparr>,
      epoll_fd := epoll_ret, fds := insert epoll_ret {0, 1, 2}\<rparr>)"
    using assms(2) by (simp add: server_init_def bnd_def op_simps room0_def)
  moreover have "server_start env 0 (room0\<lparr>users := replicate 1000 \<lparr>is_login = 0, user_name_32 = []\<rparr>,
      epoll_fd := epoll_ret, fds := insert epoll_ret {0, 1, 2}\<rparr>)
    = Inr ((), s\<lparr>fds := insert ?l (insert epoll_ret {0, 1, 2}), interest := {?l}\<rparr>)"
    using assms(1) by (simp add: server_start_def listen bnd_def op_simps s_def room0_def net_ok_def)
  ultimately show ?thesis
    using t by (simp add: room_main_def bnd_def op_simps server_destory_def close_def)
qed

lemma room_client_main_run:
  assumes "net_ok env" "\<forall>r \<in> set regs. registration r" "flowing rs" "arriving rs = concat (map answer_to regs)"
    "taking ts" "76 * length regs \<le> takes_now ts"
  shows "\<exists>c. room_client_main heap env (room_client0 (concat (map typed_for regs) @ ''0'' @ [newline]) rs ts) = Inr ((), c)
    \<and> requests c = concat (map request_of regs) \<and> verdicts c = map verdict_on regs"
proof -
  let ?ks = "concat (map typed_for regs) @ ''0'' @ [newline]"
  define c where "c = (room_client0 ?ks rs ts)\<lparr>conn_fd := socket_ret env, descriptors := insert (socket_ret env) {0, 1, 2}\<rparr>"
  have connect: "tcp_connect env F = (socket_ret env, insert (socket_ret env) F)" for F
    using assms(1) by (auto simp: net_ok_def tcp_connect_def tcp_generic_connect_def tcp_socket_def tcp_reuse_addr_def Let_def)
  have "2 * length regs \<le> length (concat (map typed_for regs))" by (induction regs) (simp_all add: typed_for_def)
  then have "\<exists>c'. cli_menu_loop heap (Suc (length ?ks)) INIT c = Inr ((), c') \<and> requests c' = requests c @ concat (map request_of regs)
      \<and> verdicts c' = verdicts c @ map verdict_on regs \<and> typed c' = []"
    by (intro register_session) (use assms in \<open>auto simp: c_def room_client0_def ready_def\<close>)
  then obtain c' where "cli_menu_loop heap (Suc (length ?ks)) INIT c = Inr ((), c')" "requests c' = concat (map request_of regs)"
    "verdicts c' = map verdict_on regs" by (auto simp: c_def room_client0_def)
  moreover have "typed c = ?ks" by (simp add: c_def room_client0_def)
  ultimately show ?thesis
    using assms(1) by (auto simp: room_client_main_def room_client_init_def room_client_start_def connect bnd_def op_simps
        net_ok_def cli_show_menu_def room_client_destroy_def c_def room_client0_def simp del: cli_menu_loop.simps)
qed

text \<open>
  C24: The two programs of the third chat room, with one connection on which requests come one after the other, each whole in one
  run of bytes before the server polls for it, and socket calls that succeed. Each registration (a name and a password of 1 to
  31 bytes without white space) is answered in turn, the name zhangxue with a refusal. And a client that is typed those
  registrations and then 0, to whom those answers come in any runs of bytes, with signals in between, and whose own writes the
  kernel takes in pieces of any size, has sent those requests, shows for each whether it succeeded, and ends.
\<close>

theorem registrations_answered:
  assumes "net_ok env" "0 \<le> epoll_ret" "0 \<le> fd" "\<forall>r \<in> set regs. registration r"
  shows "\<exists>t. room_main heap epoll_ret env 0 (server_day fd regs) room0 = Inr (True, t)
    \<and> answers t = map (\<lambda>r. (fd, answer_to r)) regs
    \<and> (\<forall>rs ts. flowing rs \<longrightarrow> arriving rs = concat (map snd (answers t)) \<longrightarrow> taking ts \<longrightarrow> 76 * length regs \<le> takes_now ts
        \<longrightarrow> (\<exists>c. room_client_main heap' env (room_client0 (concat (map typed_for regs) @ ''0'' @ [newline]) rs ts) = Inr ((), c)
              \<and> requests c = concat (map request_of regs) \<and> verdicts c = map verdict_on regs))"
proof -
  obtain t where t: "room_main heap epoll_ret env 0 (server_day fd regs) room0 = Inr (True, t)"
    "answers t = map (\<lambda>r. (fd, answer_to r)) regs" using room_main_run [OF assms] by blast
  moreover have "map snd (answers t) = map answer_to regs" using t(2) by (simp add: o_def)
  ultimately show ?thesis using room_client_main_run [OF assms(1,4)] by metis
qed

theorem registrations_answered_witness:
  "\<exists>t. room_main (\<lambda>_. CHR ''x'') 3 \<lparr>socket_ret = 4, setsockopt_ret = 0, pton_ret = 1, connect_ret = 0, bind_ret = 0, listen_ret = 0\<rparr> 0
      (server_day 5 [(''ann'', ''secret''), (''zhangxue'', ''pw'')]) room0 = Inr (True, t)
    \<and> answers t = [(5, status_packet 0 ''success''), (5, status_packet 1 ''user exist!'')]"
  using registrations_answered [of "\<lparr>socket_ret = 4, setsockopt_ret = 0, pton_ret = 1, connect_ret = 0, bind_ret = 0, listen_ret = 0\<rparr>"
      3 5 "[(''ann'', ''secret''), (''zhangxue'', ''pw'')]" "\<lambda>_. CHR ''x''" "\<lambda>_. CHR ''x''"]
  by (fastforce simp: net_ok_def registration_def cstring_def fits_def isspace_def answer_to_def)

section \<open>A packet on its way\<close>

text \<open>
  C26: What tcp_write hands to the kernel in any number of calls, tcp_read gets whole from any runs of bytes, with signals
  in between on both sides; what follows stays for the next packet.
\<close>

theorem packet_travels_whole:
  assumes "taking ts" "length b \<le> takes_now ts" "flowing rs" "arriving rs = sent @ rest"
    "tcp_write b 0 ts = Inr (n, sent, ts')"
  shows "n = int (length b) \<and> (\<exists>rs'. tcp_read (length b) [] rs = (n, b, rs') \<and> arriving rs' = rest)"
proof -
  have n: "n = int (length b)" "sent = b" using tcp_write_whole [OF assms(1), of 0 b] assms(2,5) by auto
  have "\<exists>rs'. tcp_read (length b) [] rs = (int (length b), [] @ b, rs') \<and> arriving rs' = rest \<and> flowing rs'"
    by (rule tcp_read_whole [OF assms(3)]) (use assms(4) n(2) in auto)
  with n(1) show ?thesis by auto
qed

theorem packet_travels_whole_witness:
  "\<exists>rs'. tcp_read 3 [] [Run ''a'', Eintr, Run ''bcd''] = (3, ''abc'', rs') \<and> arriving rs' = ''d''"
  using packet_travels_whole [of "[Took 2, W_Eintr, Took 9, Took 1]" "''abc''" "[Run ''a'', Eintr, Run ''bcd'']" "''abc''" "''d''" 3 "[Took 1]"]
  by (simp add: taking_def takes_now_def flowing_def numeral_3_eq_3)

section \<open>Requests that are not whole\<close>

lemma head_not_empty [simp]: "encode_head h \<noteq> []"
  by (metis length_encode_head head_size_def list.size(3) zero_neq_numeral)

lemma close_user_fd_run: "close_user_fd fd s = Inr ((), s\<lparr>fds := fds s - {fd}, interest := interest s - {fd}\<rparr>)"
  by (simp add: close_user_fd_def close_def bnd_def op_simps)

text \<open>
  C28: A registration that arrives in two pieces is answered only when the first is just the head; otherwise the connection is
  closed without an answer.
\<close>

theorem request_in_two_pieces:
  assumes "registration rq" "arrivals s fd = Run b1 # Run b2 # r" "b1 @ b2 = request_of rq" "b1 \<noteq> []" "b2 \<noteq> []"
  shows "\<exists>t. process_user_send_data heap fd 48 soft s = Inr ((), t)
    \<and> (if length b1 = 12 then answers t = answers s @ [(fd, answer_to rq)] \<and> fds t = fds s
       else answers t = answers s \<and> fds t = fds s - {fd} \<and> interest t = interest s - {fd})"
proof -
  let ?h = "packet_head REQ_REGISTER 76"
  obtain n p where rq: "rq = (n, p)" by (cases rq)
  let ?b = "enc_str 32 n @ enc_str 32 p"
  have all: "b1 @ b2 = encode_head ?h @ ?b" using assms(3) by (simp add: rq request_of_def register_packet_def)
  have len: "length b1 + length b2 = 76" using arg_cong [OF assms(3), of length] by (simp add: answer_parts)
  have ok: "head_ok ?h" "h_magic ?h = CR_PROTO_HEAD" by (simp_all add: packet_head_ok uint32_def) (simp add: packet_head_def)
  consider (short) "length b1 < 12" | (head) "length b1 = 12" | (long) "12 < length b1" by linarith
  then show ?thesis
  proof cases
    case short
    have "store_at 0 b1 (replicate 1024 None) = Inr (map Some b1 @ replicate (1024 - length b1) None)"
      using short by (simp add: store_at_def)
    with short show ?thesis
      by (simp add: process_user_send_data_def bnd_def [of "read_from_fd fd 12"] read_from_fd_short [OF _ assms(2)] op_simps
          close_user_fd_run)
  next
    case head
    with all have "b1 = encode_head ?h" "b2 = ?b" by (auto simp: head_size_def)
    then have b: "arrivals s fd = Run (encode_head ?h @ []) # Run ?b # r" using assms(2) by simp
    have "arrivals (s\<lparr>arrivals := (arrivals s)(fd := Run ?b # r)\<rparr>) fd = Run ?b # r" by simp
    from request_answered [OF _ _ this] assms(1) show ?thesis
      by (fastforce simp: head_read [OF ok b] head answered_def rq registration_def)
  next
    case long
    then obtain c where c: "b1 = encode_head ?h @ c" "c \<noteq> []" "length c < 64"
    proof -
      obtain c where "b1 = encode_head ?h @ c" "c \<noteq> []"
      proof -
        have "take 12 b1 = encode_head ?h"
          using arg_cong [OF all, of "take 12"] long by (simp add: head_size_def)
        then have "b1 = encode_head ?h @ drop 12 b1" by (metis append_take_drop_id)
        with that [of "drop 12 b1"] long show ?thesis by simp
      qed
      with len assms(5) show ?thesis by (intro that [of c]) (auto simp: head_size_def simp flip: length_greater_0_conv)
    qed
    let ?s = "s\<lparr>arrivals := (arrivals s)(fd := Run c # Run b2 # r)\<rparr>"
    have len: "low_int (h_length ?h - 12) = 64" by (simp add: packet_head_def low_int_def)
    have "after_head heap fd 48 soft ?h ?s = Inr ((), s\<lparr>arrivals := (arrivals s)(fd := Run b2 # r), fds := fds s - {fd}, interest := interest s - {fd}\<rparr>)"
      unfolding after_head_def len
      using c(3) by (simp add: bnd_def [of "read_from_fd fd 64"] read_from_fd_short store_at_run op_simps close_user_fd_run)
    with long c(2) show ?thesis using head_read [OF ok, of s fd c "Run b2 # r"] assms(2) c(1) by simp
  qed
qed

theorem request_in_two_pieces_witness:
  "\<exists>t. process_user_send_data (\<lambda>_. CHR ''x'') 5 48 False
      (room0\<lparr>arrivals := (\<lambda>_. [Run (take 20 (request_of (''ann'', ''pw''))), Run (drop 20 (request_of (''ann'', ''pw'')))])\<rparr>)
    = Inr ((), t) \<and> answers t = []"
proof -
  let ?b = "request_of (''ann'', ''pw'')"
  let ?s = "room0\<lparr>arrivals := (\<lambda>_. [Run (take 20 ?b), Run (drop 20 ?b)])\<rparr>"
  have "take 20 ?b \<noteq> []" "drop 20 ?b \<noteq> []" "length (take 20 ?b) = 20" by (auto simp: answer_parts simp flip: length_greater_0_conv)
  with request_in_two_pieces [of "(''ann'', ''pw'')" ?s 5 "take 20 ?b" "drop 20 ?b" "[]" "\<lambda>_. CHR ''x''" False]
  show ?thesis by (auto simp: registration_def cstring_def fits_def isspace_def room0_def)
qed

section \<open>Requests that lie about their length\<close>

lemma text_from_no_overflow: "text_from b \<noteq> Inl Buffer_Overflow"
  by (induction b rule: text_from.induct) (auto simp: rbind_eq_Inl)

lemma request_no_overflow: "process_user_request heap h buf s \<noteq> Inl Buffer_Overflow"
proof -
  have "process_register heap buf s \<noteq> Inl Buffer_Overflow"
    using text_from_no_overflow [of "drop 12 buf"] text_from_no_overflow [of "drop 44 buf"]
    by (auto simp: process_register_def bnd_def lifted_def rbind_eq_Inl say_def setting_def create_response_status_run split: if_splits)
  then show ?thesis by (auto simp: process_user_request_def bnd_def rbind_eq_Inl retn_def Let_def)
qed

lemma rest_no_overflow:
  "bnd (process_user_request heap h buf) (\<lambda>resp. case resp of None \<Rightarrow> close_user_fd fd
     | Some r \<Rightarrow> bnd (write_to_fd fd w soft r) (\<lambda>_. retn ())) s \<noteq> Inl Buffer_Overflow"
proof -
  have "write_to_fd fd w soft r t \<noteq> Inl Buffer_Overflow" for r t
    by (simp add: write_to_fd_def bnd_def when_op_def retn_def setting_def close_def)
  then show ?thesis
    using request_no_overflow
    by (auto simp: bnd_def rbind_eq_Inl close_user_fd_run retn_def split: option.splits)
qed

lemma low_int_length:
  assumes "uint32 l"
  shows "low_int (l - 12) = (if l < 2147483660 then l - 12 else l - 4294967308)"
proof (cases "l < 2147483660")
  case True
  with assms show ?thesis by (simp add: low_int_id int32_def uint32_def)
next
  case False
  have "(l + 2147483636) mod 4294967296 = (l - 2147483660) mod 4294967296"
    using mod_add_self2 [of "l - 2147483660" 4294967296] by (simp add: add.commute)
  also have "\<dots> = l - 2147483660" using False assms by (intro mod_pos_pos_trivial) (auto simp: uint32_def)
  finally show ?thesis using False by (simp add: low_int_def add.commute)
qed

lemma after_head_overflow:
  assumes "read_from_fd fd (low_int (h_length h - 12)) s = Inr ((n, b), t)"
  shows "after_head heap fd w soft h s = Inl Buffer_Overflow \<longleftrightarrow> 1012 < length b"
proof (cases "1012 < length b")
  case True
  then have "store_at 12 b (head_buffer h) = Inl Buffer_Overflow" by (simp add: store_at_def)
  with True show ?thesis by (simp add: after_head_def bnd_simps(1) [where m = "read_from_fd fd (low_int (h_length h - 12))", OF assms] op_simps)
next
  case False
  then obtain buf where "store_at 12 b (head_buffer h) = Inr buf" by (simp add: store_at_def)
  with False rest_no_overflow show ?thesis by (simp add: after_head_def bnd_simps(1) [where m = "read_from_fd fd (low_int (h_length h - 12))", OF assms] op_simps close_user_fd_run)
qed

text \<open>
  C27: The server trusts the length in the head: its buffer of 1024 bytes overflows exactly when the head claims more than
  it can hold (and less than what turns negative), and more than 1012 bytes follow the head at once.
\<close>

theorem length_overflows_buffer:
  assumes "head_ok h" "h_magic h = CR_PROTO_HEAD" "arrivals s fd = Run (encode_head h @ b) # r" "b \<noteq> []"
  shows "process_user_send_data heap fd w soft s = Inl Buffer_Overflow
    \<longleftrightarrow> 1024 < h_length h \<and> h_length h < 2147483660 \<and> 1012 < length b"
proof -
  let ?s = "s\<lparr>arrivals := (arrivals s)(fd := Run b # r)\<rparr>"
  define len where "len = low_int (h_length h - 12)"
  have L: "0 \<le> h_length h" "h_length h < 4294967296" using assms(1) by (simp_all add: head_ok_def uint32_def)
  have len: "len = (if h_length h < 2147483660 then h_length h - 12 else h_length h - 4294967308)"
    unfolding len_def using assms(1) by (intro low_int_length) (simp add: head_ok_def)
  have run: "process_user_send_data heap fd w soft s = after_head heap fd w soft h ?s"
    using head_read [OF assms(1-3)] assms(4) by simp
  define got where "got = take (nat len) b"
  have "\<exists>n t. read_from_fd fd len ?s = Inr ((n, got), t)"
  proof (cases "len \<le> 0")
    case True
    then show ?thesis by (simp add: read_from_fd_def op_simps got_def)
  next
    case False
    then show ?thesis
      using read_from_fd_run [of len ?s fd b r] read_from_fd_short [of len ?s fd b r]
      by (cases "nat len \<le> length b") (auto simp: got_def)
  qed
  then have "after_head heap fd w soft h ?s = Inl Buffer_Overflow \<longleftrightarrow> 1012 < length got"
    using after_head_overflow unfolding len_def by blast
  moreover have "1012 < length got \<longleftrightarrow> 1012 < nat len \<and> 1012 < length b" by (auto simp: got_def)
  moreover have "1012 < nat len \<longleftrightarrow> 1024 < h_length h \<and> h_length h < 2147483660" using L by (simp add: len zless_nat_eq_int_zless)
  ultimately show ?thesis using run by simp
qed

theorem length_overflows_buffer_witness:
  "process_user_send_data (\<lambda>_. CHR ''x'') 5 48 False
     (room0\<lparr>arrivals := (\<lambda>_. [Run (encode_head (packet_head REQ_REGISTER 4096) @ replicate 4084 (CHR ''a''))])\<rparr>)
   = Inl Buffer_Overflow"
  using length_overflows_buffer [of "packet_head REQ_REGISTER 4096"
      "room0\<lparr>arrivals := (\<lambda>_. [Run (encode_head (packet_head REQ_REGISTER 4096) @ replicate 4084 (CHR ''a''))])\<rparr>"
      5 "replicate 4084 (CHR ''a'')" "[]" "\<lambda>_. CHR ''x''" 48 False]
    packet_head_ok [of 4096 REQ_REGISTER]
  by (simp add: uint32_def packet_head_def)

section \<open>Logging in\<close>

definition login_packet :: "(nat \<Rightarrow> char) \<Rightarrow> string" where
  "login_packet heap = encode_head (packet_head REQ_LOGIN 76) @ drop 12 (block heap 76)"

lemma create_request_login_run: "create_request_login (block heap 76) = Inr (login_packet heap)"
  by (simp add: create_request_login_def init_packet_head_run uint32_def head_size_def login_packet_def)

lemma length_login_packet [simp]: "length (login_packet heap) = 76"
  by (simp add: login_packet_def head_size_def)

lemma login_at_server:
  assumes "arrivals s fd = [Run (login_packet heap)]"
  shows "process_user_send_data heap' fd w soft s
    = Inr ((), s\<lparr>arrivals := (arrivals s)(fd := []), fds := fds s - {fd}, interest := interest s - {fd}\<rparr>)"
proof -
  let ?h = "packet_head REQ_LOGIN 76" and ?b = "drop 12 (block heap 76)"
  let ?s = "s\<lparr>arrivals := (arrivals s)(fd := [Run ?b])\<rparr>"
  have "length ?b = 64" by simp
  then have b: "?b \<noteq> []" by (metis list.size(3) zero_neq_numeral)
  have run: "process_user_send_data heap' fd w soft s = after_head heap' fd w soft ?h ?s"
    using head_read [of ?h s fd ?b "[]"] assms b packet_head_ok [of 76 REQ_LOGIN] by (simp add: login_packet_def packet_head_def uint32_def)
  have len: "low_int (h_length ?h - 12) = 64" "low_int (h_type ?h - 1000) = 1" by (simp_all add: packet_head_def low_int_def)
  have "read_from_fd fd 64 ?s = Inr ((64, ?b), s\<lparr>arrivals := (arrivals s)(fd := [])\<rparr>)"
    using read_from_fd_run [of 64 ?s fd ?b "[]"] by simp
  then show ?thesis
    unfolding run after_head_def len(1)
    by (simp add: bnd_simps(1) [where m = "read_from_fd fd 64"] store_at_run op_simps process_user_request_def len(2) close_user_fd_run)
qed

text \<open>
  Nobody can log in: the request carries what the memory held instead of the name and the password, the server closes the
  connection without an answer, and the client, which then reads nothing, aborts.
\<close>

theorem login_aborts:
  assumes "taking (outgoing_calls c)" "76 \<le> takes_now (outgoing_calls c)" "in_stream c = []"
    "arrivals s fd = [Run (login_packet heap)]"
  shows "user_login heap u p c = Inl (Exit 134)
    \<and> (\<exists>ts. write_request (login_packet heap) c = Inr (76, c\<lparr>requests := requests c @ login_packet heap, outgoing_calls := ts\<rparr>))
    \<and> (\<exists>t. process_user_send_data heap' fd w soft s = Inr ((), t) \<and> answers t = answers s \<and> fd \<notin> fds t)"
proof -
  obtain ts where ts: "tcp_write (login_packet heap) 0 (outgoing_calls c) = Inr (76, login_packet heap, ts)"
    using tcp_write_whole [OF assms(1), of 0 "login_packet heap"] assms(2) by auto
  have w: "write_request (login_packet heap) c = Inr (76, c\<lparr>requests := requests c @ login_packet heap, outgoing_calls := ts\<rparr>)"
    by (simp add: write_request_def bnd_def op_simps ts)
  have h: "decode_head (login_packet heap) = packet_head REQ_LOGIN 76"
    unfolding login_packet_def by (rule decode_encode_head) (simp add: packet_head_ok uint32_def)
  have "tcp_read 48 [] [] = (0, [], [])" by (subst tcp_read.simps) simp
  then have "user_login heap u p c = Inl (Exit 134)"
    by (simp add: user_login_def create_request_login_run op_simps exchange_status_def bnd_simps(1) [where m = "write_request (login_packet heap)", OF w] h packet_head_def
        read_response_def assms(3) stopped_def)
  with w login_at_server [OF assms(4), of heap' w soft] show ?thesis by auto
qed

theorem login_aborts_witness:
  "user_login (\<lambda>_. CHR ''x'') ''ann'' ''secret'' (room_client0 [] [] (replicate 76 (Took 1))) = Inl (Exit 134)"
  using login_aborts [of "room_client0 [] [] (replicate 76 (Took 1))" "room0\<lparr>arrivals := (\<lambda>_. [Run (login_packet (\<lambda>_. CHR ''x''))])\<rparr>"
      5 "\<lambda>_. CHR ''x''" "''ann''" "''secret''" "\<lambda>_. CHR ''x''" 48 False]
  by (simp add: room_client0_def taking_def takes_now_def)

end
