(* ===== verification/Room_Reach.thy ===== *)
theory Room_Reach
  imports Room_Facts
begin

text \<open>
  The states that the third chat room's server reaches, from its start on and through any events: its descriptors
  and the answers it has sent.
\<close>

section \<open>Reachable states\<close>

text \<open>What epoll offers: descriptors it watches; \<open>accept\<close> returns one that is not open.\<close>

definition offered :: "room \<Rightarrow> epoll_event \<Rightarrow> bool" where
  "offered s e =
     (case e of
        New_Client rs ctl_ret \<Rightarrow> (case tcp_accept rs of Inr fd \<Rightarrow> fd < 0 \<or> fd \<notin> fds s | Inl x \<Rightarrow> True)
      | Client_Sent fd w soft \<Rightarrow> fd \<in> interest s \<and> fd \<noteq> listen_fd s
      | Other_Event fd \<Rightarrow> fd \<in> interest s)"

inductive room_reach :: "(nat \<Rightarrow> char) \<Rightarrow> room \<Rightarrow> bool" for heap where
  start: "server_init e room0 = Inr ((), s) \<Longrightarrow> server_start env ctl_ret s = Inr ((), t) \<Longrightarrow> e \<notin> {0, 1, 2}
    \<Longrightarrow> socket_ret env \<notin> {0, 1, 2, e} \<Longrightarrow> room_reach heap t"
| event: "room_reach heap s \<Longrightarrow> offered s e \<Longrightarrow> room_event heap e s = Inr ((), t) \<Longrightarrow> room_reach heap t"
| arrival: "room_reach heap s \<Longrightarrow> room_reach heap (s\<lparr>arrivals := (arrivals s)(fd := arrivals s fd @ rs)\<rparr>)"
| sigint: "room_reach heap s \<Longrightarrow> signal_handle s = Inr ((), t) \<Longrightarrow> room_reach heap t"

section \<open>Descriptors and answers\<close>

text \<open>
  Open are the standard descriptors, the one of epoll, and those that epoll watches: none is lost. Every answer
  is a packet about a registration, or what \<open>write\<close> took of one.
\<close>

definition answer_part :: "string \<Rightarrow> bool" where
  "answer_part b \<longleftrightarrow> (\<exists>r n. b = take n (answer_to r))"

definition room_ok :: "int \<Rightarrow> room \<Rightarrow> bool" where
  "room_ok e s \<longleftrightarrow> epoll_fd s = e \<and> fds s = {0, 1, 2, e} \<union> interest s \<and> interest s \<inter> {0, 1, 2, e} = {}
     \<and> (\<forall>(fd, b) \<in> set (answers s). answer_part b)"

definition room_keeps :: "int \<Rightarrow> room \<Rightarrow> room \<Rightarrow> bool" where
  "room_keeps e s t \<longleftrightarrow> (room_ok e s \<longrightarrow> room_ok e t)"

interpretation rk: move_law "room_keeps e" for e
  by unfold_locales (auto simp: room_keeps_def)

context move_law begin

lemma moves_bnd_value:
  "moves rel m \<Longrightarrow> (\<And>s x t. m s = Inr (x, t) \<Longrightarrow> Q x) \<Longrightarrow> (\<And>x. Q x \<Longrightarrow> moves rel (f x)) \<Longrightarrow> moves rel (bnd m f)"
  unfolding moves_def bnd_eq_Inr by (blast intro: rel_trans)

end

lemma close_keeps: "fd \<notin> {0, 1, 2, e} \<Longrightarrow> moves (room_keeps e) (close fd)"
  unfolding close_def by (rule rk.moves_setting) (auto simp: room_keeps_def room_ok_def)

lemma close_user_keeps: "fd \<notin> {0, 1, 2, e} \<Longrightarrow> moves (room_keeps e) (close_user_fd fd)"
  by (rule movesI) (auto simp: close_user_fd_def close_def bnd_def op_simps room_keeps_def room_ok_def)

lemma read_keeps: "moves (room_keeps e) (read_from_fd fd len)"
proof -
  have "moves (room_keeps e) (setting (\<lambda>s. s\<lparr>arrivals := (arrivals s)(fd := r)\<rparr>))" for r
    by (rule rk.moves_setting) (simp add: room_keeps_def room_ok_def)
  then show ?thesis
    unfolding read_from_fd_def
    by (auto intro!: rk.moves_if rk.moves_retn rk.moves_bnd rk.moves_getting split: got.split)
qed

lemma write_keeps:
  assumes "fd \<notin> {0, 1, 2, e}"
  shows "moves (room_keeps e) (write_to_fd fd w soft (answer_to r))"
proof -
  have "moves (room_keeps e) (setting (\<lambda>s. s\<lparr>answers := answers s @ [(fd, take (nat w) (answer_to r))]\<rparr>))"
    by (rule rk.moves_setting) (auto simp: room_keeps_def room_ok_def answer_part_def simp del: split_paired_Ex)
  then show ?thesis
    unfolding write_to_fd_def by (intro rk.moves_bnd rk.moves_when rk.moves_retn close_keeps assms)
qed

lemma say_keeps: "moves (room_keeps e) (say t)"
  unfolding say_def by (rule rk.moves_setting) (simp add: room_keeps_def room_ok_def)

lemma register_keeps: "moves (room_keeps e) (process_register heap buf)"
  unfolding process_register_def by (intro rk.moves_bnd rk.moves_if rk.moves_lifted say_keeps)

lemma register_answers: "process_register heap buf s = Inr (x, t) \<Longrightarrow> \<exists>r. x = answer_to r"
proof -
  assume "process_register heap buf s = Inr (x, t)"
  then have "x = answer_to (''zhangxue'', []) \<or> x = answer_to ([], [])"
    by (auto simp: process_register_def bnd_eq_Inr lifted_eq_Inr create_response_status_run answer_to_def split: if_splits)
  then show ?thesis by blast
qed

lemma request_keeps: "moves (room_keeps e) (process_user_request heap h buf)"
  unfolding process_user_request_def Let_def by (intro rk.moves_if rk.moves_bnd rk.moves_retn register_keeps)

lemma request_answers: "process_user_request heap h buf s = Inr (x, t) \<Longrightarrow> \<forall>b. x = Some b \<longrightarrow> (\<exists>r. b = answer_to r)"
  by (auto simp: process_user_request_def Let_def bnd_eq_Inr retn_def dest: register_answers split: if_splits simp del: split_paired_Ex)

lemma data_keeps:
  assumes "fd \<notin> {0, 1, 2, e}"
  shows "moves (room_keeps e) (process_user_send_data heap fd w soft)"
proof -
  have answer: "moves (room_keeps e) (bnd (process_user_request heap h buf) (\<lambda>resp. case resp of
      None \<Rightarrow> close_user_fd fd | Some r \<Rightarrow> bnd (write_to_fd fd w soft r) (\<lambda>_. retn ())))" for h buf
    by (rule rk.moves_bnd_value [OF request_keeps request_answers])
      (auto split: option.split intro!: rk.moves_bnd rk.moves_retn write_keeps close_user_keeps simp: assms [simplified])
  show ?thesis
    unfolding process_user_send_data_def Let_def case_prod_beta
    by (intro rk.moves_bnd rk.moves_if rk.moves_lifted read_keeps close_user_keeps assms answer)
qed

lemma accept_keeps:
  assumes "room_ok e s" "offered s (New_Client rs ctl_ret)" "accept_new_connection rs ctl_ret s = Inr ((), t)"
  shows "room_ok e t"
  using assms
  by (auto simp: accept_new_connection_def offered_def bnd_eq_Inr lifted_eq_Inr abort_def setting_def room_ok_def split: if_splits)

lemma room_event_keeps:
  assumes "room_ok e s" "offered s ev" "room_event heap ev s = Inr ((), t)"
  shows "room_ok e t"
proof (cases ev)
  case (New_Client rs ctl_ret)
  with assms accept_keeps show ?thesis by (simp add: room_event_def)
next
  case (Client_Sent fd w soft)
  with assms(1,2) have "fd \<notin> {0, 1, 2, e}" by (auto simp: offered_def room_ok_def)
  from movesD [OF data_keeps [OF this]] assms(1,3) Client_Sent show ?thesis
    by (auto simp: room_event_def room_keeps_def)
next
  case (Other_Event fd)
  with assms(1,2) have "fd \<notin> {0, 1, 2, e}" by (auto simp: offered_def room_ok_def)
  from movesD [OF close_user_keeps [OF this]] assms(1,3) Other_Event show ?thesis
    by (auto simp: room_event_def room_keeps_def close_user_fd_def)
qed

lemma start_ok:
  assumes "server_init e room0 = Inr ((), s)" "server_start env ctl_ret s = Inr ((), t)" "e \<notin> {0, 1, 2}"
    "socket_ret env \<notin> {0, 1, 2, e}"
  shows "room_ok e t"
  using assms
  by (auto simp: server_init_def server_start_def bnd_eq_Inr setting_def getting_def abort_def lifted_eq_Inr room0_def room_ok_def
      tcp_listen_def tcp_socket_def Let_def split: if_splits)

text \<open>
  C25: In every state the server reaches, the open descriptors are the standard ones, the one of epoll and those epoll watches
  (the listening socket and the clients), so that a client whose connection is given up is closed and no descriptor is
  lost; and whatever it has sent is, in whole or in part, one of the two answers about a registration.
\<close>

theorem room_descriptors:
  assumes "room_reach heap s"
  shows "fds s = {0, 1, 2, epoll_fd s} \<union> interest s \<and> interest s \<inter> {0, 1, 2, epoll_fd s} = {}
    \<and> (\<forall>(fd, b) \<in> set (answers s). answer_part b)"
proof -
  have "\<exists>e. room_ok e s" using assms
  proof induction
    case (start e s env ctl_ret t)
    then show ?case using start_ok by blast
  next
    case (event s ev t)
    then show ?case using room_event_keeps by blast
  next
    case (arrival s fd rs)
    then show ?case by (auto simp: room_ok_def)
  next
    case (sigint s t)
    then show ?case by (auto simp: signal_handle_def server_stop_def setting_def room_ok_def)
  qed
  then show ?thesis by (auto simp: room_ok_def)
qed

theorem room_descriptors_witness:
  "\<exists>s. room_reach (\<lambda>_. CHR ''x'') s \<and> interest s = {4, 5} \<and> fds s = {0, 1, 2, 3, 4, 5}"
proof -
  let ?env = "\<lparr>socket_ret = 4, setsockopt_ret = 0, pton_ret = 1, connect_ret = 0, bind_ret = 0, listen_ret = 0\<rparr>"
  define s where "s = room0\<lparr>users := replicate 1000 \<lparr>is_login = 0, user_name_32 = []\<rparr>, epoll_fd := 3, fds := {0, 1, 2, 3}\<rparr>"
  define t where "t = s\<lparr>listen_fd := 4, fds := {0, 1, 2, 3, 4}, interest := {4}\<rparr>"
  define u where "u = t\<lparr>fds := {0, 1, 2, 3, 4, 5}, interest := {4, 5}\<rparr>"
  have s: "server_init 3 room0 = Inr ((), s)"
    by (simp add: server_init_def bnd_def op_simps s_def room0_def insert_commute)
  have t: "server_start ?env 0 s = Inr ((), t)"
    by (simp add: server_start_def bnd_def op_simps tcp_listen_def tcp_socket_def tcp_reuse_addr_def Let_def t_def s_def room0_def
        insert_commute)
  have u: "room_event (\<lambda>_. CHR ''x'') (New_Client [Accepted 5] 0) t = Inr ((), u)"
    by (simp add: room_event_def accept_new_connection_def bnd_def op_simps u_def t_def insert_commute)
  have v: "fds t = {0, 1, 2, 3, 4}" "interest u = {4, 5}" "epoll_fd u = 3" by (simp_all add: s_def t_def u_def)
  have r: "room_reach (\<lambda>_. CHR ''x'') u"
    by (rule room_reach.event [OF room_reach.start [OF s t] _ u]) (simp_all add: offered_def v)
  have "fds u = {0, 1, 2, 3, 4, 5}" using room_descriptors [OF r] v by auto
  with r v show ?thesis by blast
qed

end
