(* ===== verification/Room_Log.thy ===== *)
theory Room_Log
  imports State_Ops
begin

text \<open>
  The log of the third chat room, \<open>Solution/wuxinyue/chatroom/log.c\<close>: where a line goes, which lines are written,
  and when a file is closed.
\<close>

section \<open>State\<close>

text \<open>
  \<open>logger_fp\<close>, the level, the streams that were closed, how many have been opened, how often
  \<open>close_log_file\<close> is registered with \<open>atexit\<close>, and the lines written.
\<close>

datatype log_stream = Standard_error | Log_file nat

record logger =
  logger_fp :: "log_stream option"
  curr_log_level :: int
  closed_files :: "nat set"
  opened_files :: nat
  at_exit :: nat
  log_lines :: "(log_stream \<times> string) list"

definition logger0 :: logger where
  "logger0 = \<lparr>logger_fp = None, curr_log_level = 1, closed_files = {}, opened_files = 0, at_exit = 0, log_lines = []\<rparr>"

section \<open>Operations\<close>

definition log_level_str :: "int \<Rightarrow> string result" where
  "log_level_str l =
     (if 0 \<le> l \<and> l < 4 then Inr ([''DEUBG'', ''INFO'', ''WARN'', ''ERROR''] ! nat l) else Inl Out_Of_Bounds)"

definition close_log_file :: "(logger, unit) op" where
  "close_log_file =
     bnd (getting logger_fp) (\<lambda>fp. bnd (getting closed_files) (\<lambda>F.
     case fp of
       Some (Log_file k) \<Rightarrow>
         if k \<in> F then lifted (Inl Use_After_Free) else setting (\<lambda>s. s\<lparr>closed_files := insert k (closed_files s)\<rparr>)
     | Some Standard_error \<Rightarrow> retn ()
     | None \<Rightarrow> retn ()))"

text \<open>\<open>ok\<close> says whether \<open>fopen\<close> succeeds.\<close>

definition set_log_filename :: "bool \<Rightarrow> (logger, int) op" where
  "set_log_filename ok =
     bnd close_log_file (\<lambda>_.
     if \<not> ok then retn (-1)
     else
       bnd (setting (\<lambda>s. s\<lparr>logger_fp := Some (Log_file (opened_files s)), opened_files := Suc (opened_files s),
         at_exit := Suc (at_exit s)\<rparr>)) (\<lambda>_. retn 0))"

definition set_log_level :: "int \<Rightarrow> (logger, unit) op" where
  "set_log_level l = setting (\<lambda>s. s\<lparr>curr_log_level := l\<rparr>)"

text \<open>The place of a call: the time and the thread, the file and its base name, the line, the function.\<close>

record log_place =
  datetime :: string
  tid :: int
  source_file :: string
  source_line :: int
  source_func :: string

definition base_name :: "string \<Rightarrow> string" where
  "base_name f = rev (takeWhile (\<lambda>c. c \<noteq> CHR ''/'') (rev f))"

text \<open>\<open>vsnprintf\<close> keeps 1023 bytes of the message.\<close>

definition log_message :: "int \<Rightarrow> log_place \<Rightarrow> string \<Rightarrow> (logger, unit) op" where
  "log_message l p msg =
     bnd (getting curr_log_level) (\<lambda>c.
     if l < c then retn ()
     else
       bnd (setting (\<lambda>s. s\<lparr>logger_fp := (case logger_fp s of None \<Rightarrow> Some Standard_error | Some x \<Rightarrow> Some x)\<rparr>)) (\<lambda>_.
       bnd (lifted (log_level_str l)) (\<lambda>name.
       bnd (getting (\<lambda>s. the (logger_fp s))) (\<lambda>fp. bnd (getting closed_files) (\<lambda>F.
       if (case fp of Log_file k \<Rightarrow> k \<in> F | Standard_error \<Rightarrow> False) then lifted (Inl Use_After_Free)
       else
         setting (\<lambda>s. s\<lparr>log_lines := log_lines s @
           [(fp, ''['' @ datetime p @ ''] '' @ name @ '' '' @ source_func p @ ''('' @ base_name (source_file p) @ '':'' @
              dec (source_line p) @ '') ['' @ dec (tid p) @ ''] '' @ take 1023 msg @ [newline])]\<rparr>))))))"

text \<open>The end of the program calls what \<open>atexit\<close> has registered.\<close>

definition log_exit :: "(logger, unit) op" where
  "log_exit = bnd (getting at_exit) (\<lambda>n. each (\<lambda>_. close_log_file) [0..<n])"

section \<open>Files closed twice\<close>

fun open_logs :: "nat \<Rightarrow> (logger, unit) op" where
  "open_logs 0 = retn ()"
| "open_logs (Suc n) = bnd (open_logs n) (\<lambda>_. bnd (set_log_filename True) (\<lambda>_. retn ()))"

lemma open_logs_run:
  "open_logs n logger0 = Inr ((), logger0\<lparr>logger_fp := (if n = 0 then None else Some (Log_file (n - 1))), closed_files := {0..<n - 1},
     opened_files := n, at_exit := n\<rparr>)"
proof (induction n)
  case (Suc n)
  then show ?case
    by (cases n) (auto simp: set_log_filename_def close_log_file_def bnd_def op_simps logger0_def atLeast0_lessThan_Suc)
qed (simp add: op_simps logger0_def)

lemma close_loop:
  assumes "logger_fp s = Some (Log_file k)" "k \<notin> closed_files s"
  shows "each (\<lambda>_. close_log_file) xs s = Inl Use_After_Free \<longleftrightarrow> 2 \<le> length xs"
proof (cases xs rule: remdups_adj.cases)
  case (3 x y ys)
  with assms show ?thesis by (simp add: close_log_file_def bnd_def op_simps)
qed (use assms in \<open>simp_all add: close_log_file_def bnd_def op_simps\<close>)

text \<open>
  Changing the file of the log twice, and nothing less, makes the program close a closed file when it ends, as every
  change registers the function that closes the last one. And after a change that fails the next line is written to a
  closed file, if there was one.
\<close>

theorem log_file_closed_twice:
  assumes "1 \<le> l" "l < 4"
  shows "(bnd (open_logs n) (\<lambda>_. log_exit) logger0 = Inl Use_After_Free \<longleftrightarrow> 2 \<le> n)
    \<and> (bnd (open_logs n) (\<lambda>_. bnd (set_log_filename False) (\<lambda>_. log_message l p msg)) logger0 = Inl Use_After_Free \<longleftrightarrow> 1 \<le> n)"
proof -
  define s where "s = logger0\<lparr>logger_fp := (if n = 0 then None else Some (Log_file (n - 1))), closed_files := {0..<n - 1},
     opened_files := n, at_exit := n\<rparr>"
  have run: "bnd (open_logs n) f logger0 = f () s" for f :: "unit \<Rightarrow> (logger, 'b) op"
    using open_logs_run [of n] by (simp add: bnd_def s_def)
  obtain name where name: "log_level_str l = Inr name" using assms by (simp add: log_level_str_def)
  have "log_exit s = each (\<lambda>_. close_log_file) [0..<n] s" by (simp add: log_exit_def op_simps s_def)
  moreover have "each (\<lambda>_. close_log_file) [0..<n] s = Inl Use_After_Free \<longleftrightarrow> 2 \<le> n"
  proof (cases n)
    case (Suc k)
    then have "logger_fp s = Some (Log_file k)" "k \<notin> closed_files s" by (simp_all add: s_def)
    from close_loop [OF this, of "[0..<n]"] show ?thesis by simp
  qed (simp add: op_simps)
  moreover have "bnd (set_log_filename False) (\<lambda>_. log_message l p msg) s = Inl Use_After_Free \<longleftrightarrow> 1 \<le> n"
    using assms name
    by (cases n) (simp_all add: s_def bnd_def set_log_filename_def close_log_file_def op_simps log_message_def logger0_def)
  ultimately show ?thesis unfolding run by simp
qed

theorem log_file_closed_twice_witness:
  "bnd (open_logs 2) (\<lambda>_. log_exit) logger0 = Inl Use_After_Free"
  using log_file_closed_twice [of 1 2] by simp

end
