(* ===== verification/Sol_Io.thy ===== *)
theory Sol_Io
  imports State_Ops "HOL-Library.Signed_Division" "HOL-Library.Multiset"
begin

text \<open>
  What the solutions of the weekly problems (\<open>Solution\<close>) share: numbers read with \<open>scanf\<close>, text printed,
  and the arithmetic of C at its width.
\<close>

section \<open>Input and output\<close>

text \<open>The numbers still to be read, and what has been printed.\<close>

record tio =
  unread :: "int list"
  answer :: string

definition asked :: "int list \<Rightarrow> tio" where
  "asked xs = \<lparr>unread = xs, answer = []\<rparr>"

definition in_int :: "nat \<Rightarrow> int \<Rightarrow> bool" where
  "in_int w x \<longleftrightarrow> - (2 ^ (w - 1)) \<le> x \<and> x < 2 ^ (w - 1)"

text \<open>
  \<open>scanf("%d", &x)\<close> (of \<open>w\<close> bits): at the end of the input the variable keeps what it had; a number that does not
  fit has no defined value.
\<close>

definition read_number :: "nat \<Rightarrow> int option \<Rightarrow> (tio, int option) op" where
  "read_number w old =
     bnd (getting unread) (\<lambda>xs.
       case xs of
         [] \<Rightarrow> retn old
       | x # r \<Rightarrow>
           if in_int w x then bnd (setting (\<lambda>s. s\<lparr>unread := r\<rparr>)) (\<lambda>_. retn (Some x)) else lifted (Inl Bad_Arith))"

definition put :: "string \<Rightarrow> (tio, unit) op" where
  "put t = setting (\<lambda>s. s\<lparr>answer := answer s @ t\<rparr>)"

definition put_line :: "string \<Rightarrow> (tio, unit) op" where
  "put_line t = put (t @ [newline])"

section \<open>Arithmetic\<close>

text \<open>The result of a signed operation on \<open>w\<close> bits; \<open>/\<close> and \<open>%\<close>, which round to zero.\<close>

definition arith :: "nat \<Rightarrow> int \<Rightarrow> int result" where
  "arith w x = (if in_int w x then Inr x else Inl Bad_Arith)"

definition c_div :: "nat \<Rightarrow> int \<Rightarrow> int \<Rightarrow> int result" where
  "c_div w a b = (if b = 0 then Inl Bad_Arith else arith w (a sdiv b))"

definition c_rem :: "nat \<Rightarrow> int \<Rightarrow> int \<Rightarrow> int result" where
  "c_rem w a b = (if b = 0 \<or> \<not> in_int w (a sdiv b) then Inl Bad_Arith else Inr (a smod b))"

lemma nonneg_division [simp]: "0 \<le> a \<Longrightarrow> 0 < b \<Longrightarrow> a sdiv b = a div b" "0 \<le> a \<Longrightarrow> 0 < b \<Longrightarrow> a smod b = a mod b" for a b :: int
  by (auto simp: signed_divide_int_def signed_modulo_int_def sgn_if)

lemma div_in_int: "0 \<le> a \<Longrightarrow> 0 < b \<Longrightarrow> in_int w a \<Longrightarrow> in_int w (a div b)" for a b :: int
proof -
  assume ab: "0 \<le> a" "0 < b" "in_int w a"
  have "a div b \<le> a" using ab(1,2) by (metis div_by_1 int_one_le_iff_zero_less zdiv_mono2 zero_less_one)
  moreover have "0 \<le> a div b" using ab(1,2) by (simp add: pos_imp_zdiv_nonneg_iff)
  ultimately show ?thesis using ab(3) by (auto simp: in_int_def intro: order_trans [OF _ \<open>0 \<le> a div b\<close>])
qed

lemma c_div_run: "0 \<le> a \<Longrightarrow> 0 < b \<Longrightarrow> in_int w a \<Longrightarrow> c_div w a b = Inr (a div b)"
  by (simp add: c_div_def arith_def div_in_int)

lemma c_rem_run: "0 \<le> a \<Longrightarrow> 0 < b \<Longrightarrow> in_int w a \<Longrightarrow> c_rem w a b = Inr (a mod b)"
  by (simp add: c_rem_def div_in_int)

lemma arith_run: "in_int w x \<Longrightarrow> arith w x = Inr x"
  by (simp add: arith_def)

lemma read_run [op_simps]:
  "in_int w x \<Longrightarrow> read_number w old \<lparr>unread = x # r, answer = t\<rparr> = Inr (Some x, \<lparr>unread = r, answer = t\<rparr>)"
  by (simp add: read_number_def bnd_def op_simps)

lemma put_run [op_simps]:
  "put u \<lparr>unread = r, answer = t\<rparr> = Inr ((), \<lparr>unread = r, answer = t @ u\<rparr>)"
  "put_line u \<lparr>unread = r, answer = t\<rparr> = Inr ((), \<lparr>unread = r, answer = t @ u @ [newline]\<rparr>)"
  by (simp_all add: put_line_def put_def op_simps)

section \<open>Loops\<close>

text \<open>\<open>while (C--)\<close>: a negative \<open>C\<close> overflows in the end.\<close>

definition times :: "int option \<Rightarrow> nat result" where
  "times c = rbind (written c) (\<lambda>k. if 0 \<le> k then Inr (nat k) else Inl Bad_Arith)"

fun repeat_op :: "nat \<Rightarrow> ('a \<Rightarrow> ('s, 'a) op) \<Rightarrow> 'a \<Rightarrow> ('s, 'a) op" where
  "repeat_op 0 f x = retn x"
| "repeat_op (Suc k) f x = bnd (f x) (repeat_op k f)"

lemma times_run: "times (Some (int k)) = Inr k"
  by (simp add: times_def written_def)

text \<open>Rounds that each read their numbers and print their answer.\<close>

lemma repeat_answers:
  assumes "\<And>c x r t. c \<in> set cs \<Longrightarrow> Q x
    \<Longrightarrow> \<exists>y. f x \<lparr>unread = given c @ r, answer = t\<rparr> = Inr (y, \<lparr>unread = r, answer = t @ said c\<rparr>) \<and> Q y"
    and "Q x"
  shows "\<exists>y. repeat_op (length cs) f x \<lparr>unread = concat (map given cs) @ r, answer = t\<rparr>
    = Inr (y, \<lparr>unread = r, answer = t @ concat (map said cs)\<rparr>) \<and> Q y"
  using assms
proof (induction cs arbitrary: x t)
  case (Cons c cs)
  obtain y where y: "f x \<lparr>unread = given c @ concat (map given cs) @ r, answer = t\<rparr>
      = Inr (y, \<lparr>unread = concat (map given cs) @ r, answer = t @ said c\<rparr>)" "Q y"
    using Cons.prems(1) [of c x "concat (map given cs) @ r" t] Cons.prems(2) by auto
  have "\<exists>z. repeat_op (length cs) f y \<lparr>unread = concat (map given cs) @ r, answer = t @ said c\<rparr>
      = Inr (z, \<lparr>unread = r, answer = (t @ said c) @ concat (map said cs)\<rparr>) \<and> Q z"
    by (rule Cons.IH) (use Cons.prems(1) y(2) in auto)
  with y(1) show ?case by (auto simp: op_simps)
qed (simp add: op_simps)

text \<open>Whole programs: a count, and as many rounds.\<close>

lemma main_answers:
  assumes "length cs < 2 ^ 31"
    and "\<And>c x r t. c \<in> set cs \<Longrightarrow> \<exists>y. f x \<lparr>unread = given c @ r, answer = t\<rparr> = Inr (y, \<lparr>unread = r, answer = t @ said c\<rparr>)"
  shows "bnd (read_number 32 None) (\<lambda>C. bnd (lifted (times C)) (\<lambda>k. bnd (repeat_op k f x0) (\<lambda>_. retn ())))
      (asked (int (length cs) # concat (map given cs))) = Inr ((), \<lparr>unread = [], answer = concat (map said cs)\<rparr>)"
proof -
  have "in_int 32 (int (length cs))" using assms(1) by (simp add: in_int_def)
  moreover have "\<exists>y. repeat_op (length cs) f x0 \<lparr>unread = concat (map given cs) @ [], answer = []\<rparr>
      = Inr (y, \<lparr>unread = [], answer = [] @ concat (map said cs)\<rparr>) \<and> True"
    by (rule repeat_answers) (use assms(2) in auto)
  ultimately show ?thesis by (auto simp: asked_def op_simps times_run)
qed

lemma for_answers:
  assumes "length cs < 2 ^ 31"
    and "\<And>c r t. c \<in> set cs \<Longrightarrow> f () \<lparr>unread = given c @ r, answer = t\<rparr> = Inr ((), \<lparr>unread = r, answer = t @ said c\<rparr>)"
  shows "bnd (read_number 32 None) (\<lambda>C. bnd (lifted (written C)) (\<lambda>k. repeat_op (nat k) f ()))
      (asked (int (length cs) # concat (map given cs))) = Inr ((), \<lparr>unread = [], answer = concat (map said cs)\<rparr>)"
proof -
  have "in_int 32 (int (length cs))" using assms(1) by (simp add: in_int_def)
  moreover have "\<exists>y. repeat_op (length cs) f () \<lparr>unread = concat (map given cs) @ [], answer = []\<rparr>
      = Inr (y, \<lparr>unread = [], answer = [] @ concat (map said cs)\<rparr>) \<and> True"
    by (rule repeat_answers) (use assms(2) in auto)
  ultimately show ?thesis by (auto simp: asked_def op_simps written_def)
qed

text \<open>The numbers of an array, read one by one into \<open>a[i]\<close>; the array has \<open>cap\<close> elements.\<close>

fun read_array :: "nat \<Rightarrow> nat \<Rightarrow> nat \<Rightarrow> int list \<Rightarrow> (tio, int list) op" where
  "read_array w cap 0 xs = retn xs"
| "read_array w cap (Suc k) xs =
     (if length xs < cap then bnd (read_number w None) (\<lambda>x. bnd (lifted (written x)) (\<lambda>v. read_array w cap k (xs @ [v])))
      else lifted (Inl Out_Of_Bounds))"

lemma read_array_run:
  "\<forall>y \<in> set ys. in_int w y \<Longrightarrow> length xs + length ys \<le> cap
   \<Longrightarrow> read_array w cap (length ys) xs \<lparr>unread = ys @ r, answer = t\<rparr> = Inr (xs @ ys, \<lparr>unread = r, answer = t\<rparr>)"
  by (induction ys arbitrary: xs) (simp_all add: op_simps written_def)

end
