(* ===== verification/Sol_Game.thy ===== *)
theory Sol_Game
  imports Sol_Io
begin

text \<open>
  The game of stones: \<open>Solution/huqingwei/week1/1_E.c\<close>, the same program as \<open>wuxinyue/week1E.c\<close>, and liuting's
  solution \<open>Solution/liuting\<close> of it; they name the winner.
\<close>

section \<open>The programs\<close>

text \<open>One game in \<open>1_E.c\<close>: \<open>n\<close> and \<open>m\<close> keep their values from the game before when nothing can be read.\<close>

definition game_E :: "int option \<times> int option \<Rightarrow> (tio, int option \<times> int option) op" where
  "game_E x =
     bnd (read_number 32 (fst x)) (\<lambda>n.
     bnd (read_number 32 (snd x)) (\<lambda>m.
     bnd (lifted (rbind (written n) (\<lambda>v. rbind (written m) (\<lambda>u. rbind (arith 32 (u + 1)) (c_rem 32 v))))) (\<lambda>r.
     bnd (if r = 0 then put_line ''second'' else put_line ''first'') (\<lambda>_. retn (n, m)))))"

definition main_E :: "(tio, unit) op" where
  "main_E =
     bnd (read_number 32 None) (\<lambda>C. bnd (lifted (times C)) (\<lambda>k.
     bnd (repeat_op k game_E (None, None)) (\<lambda>_. retn ())))"

text \<open>The other solution tests the remainder twice; its \<open>n\<close> and \<open>m\<close> are new in every game.\<close>

definition game_shizi :: "unit \<Rightarrow> (tio, unit) op" where
  "game_shizi _ =
     bnd (read_number 32 None) (\<lambda>n.
     bnd (read_number 32 None) (\<lambda>m.
     bnd (lifted (rbind (written n) (\<lambda>v. rbind (written m) (\<lambda>u. rbind (arith 32 (u + 1)) (\<lambda>d.
       rbind (c_rem 32 v d) (\<lambda>r. Inr (r, u))))))) (\<lambda>(r, u).
     if 0 < r \<and> r \<le> u then put_line ''first'' else put_line ''second'')))"

text \<open>\<open>for (i = 0; i < C; i++)\<close>\<close>

definition main_shizi :: "(tio, unit) op" where
  "main_shizi =
     bnd (read_number 32 None) (\<lambda>C. bnd (lifted (written C)) (\<lambda>c. repeat_op (nat c) game_shizi ()))"

section \<open>The game\<close>

text \<open>
  There are \<open>n\<close> stones; a move takes between 1 and \<open>m\<close> of them, and who cannot move has lost. A position is won
  when some move leads to a position that is not.
\<close>

definition game_move :: "nat \<Rightarrow> nat \<Rightarrow> nat \<Rightarrow> bool" where
  "game_move m n n' \<longleftrightarrow> (\<exists>k. 1 \<le> k \<and> k \<le> m \<and> n = n' + k)"

declare conj_cong [fundef_cong]

function won :: "nat \<Rightarrow> nat \<Rightarrow> bool" where
  "won m n \<longleftrightarrow> (\<exists>n'. n' < n \<and> game_move m n n' \<and> \<not> won m n')"
  by pat_completeness auto
termination
  by (relation "measure snd") auto

declare won.simps [simp del]

lemma won_iff: "won m n \<longleftrightarrow> n mod (m + 1) \<noteq> 0"
proof (induction n rule: less_induct)
  case (less n)
  let ?r = "n mod (m + 1)"
  have "won m n" if "?r \<noteq> 0"
  proof -
    have "?r \<le> n" "?r \<le> m" using mod_less_divisor [of "m + 1" n] by (simp_all add: less_Suc_eq_le del: mod_less_divisor)
    with that have "1 \<le> ?r" "n = n - ?r + ?r" "n - ?r < n" by linarith+
    then have "game_move m n (n - ?r)" "n - ?r < n" unfolding game_move_def using \<open>?r \<le> m\<close> by blast+
    moreover have "(n - ?r) mod (m + 1) = 0" by (metis minus_mod_eq_div_mult mod_mult_self2_is_0)
    ultimately show ?thesis using less.IH [of "n - ?r"] by (subst won.simps) auto
  qed
  moreover have "\<not> won m n" if zero: "?r = 0"
  proof
    assume "won m n"
    then obtain n' where n': "n' < n" "game_move m n n'" "\<not> won m n'" by (subst (asm) won.simps) auto
    then obtain k where k: "1 \<le> k" "k \<le> m" "n = n' + k" by (auto simp: game_move_def)
    have "n' mod (m + 1) = 0" using less.IH [OF n'(1)] n'(3) by simp
    with zero k(3) have "k mod (m + 1) = 0" by (metis add_0 mod_add_left_eq)
    with k(1,2) show False by simp
  qed
  ultimately show ?case by blast
qed

definition verdict :: "nat \<times> nat \<Rightarrow> string" where
  "verdict p = (if won (snd p) (fst p) then ''first'' else ''second'') @ [newline]"

definition game_numbers :: "nat \<times> nat \<Rightarrow> int list" where
  "game_numbers p = [int (fst p), int (snd p)]"

definition playable :: "nat \<times> nat \<Rightarrow> bool" where
  "playable p \<longleftrightarrow> fst p < 2 ^ 31 \<and> snd p < 2 ^ 31 - 1"

lemma playable_numbers:
  assumes "playable p"
  shows "in_int 32 (int (fst p))" "in_int 32 (int (snd p))" "in_int 32 (int (snd p) + 1)"
    "c_rem 32 (int (fst p)) (int (snd p) + 1) = Inr (int (fst p mod (snd p + 1)))"
  using assms by (auto simp: playable_def in_int_def c_rem_run zmod_int add.commute)

lemma game_E_run:
  assumes "playable p"
  shows "\<exists>y. game_E x \<lparr>unread = game_numbers p @ r, answer = t\<rparr> = Inr (y, \<lparr>unread = r, answer = t @ verdict p\<rparr>)"
  using playable_numbers [OF assms]
  by (simp add: game_E_def game_numbers_def op_simps written_def arith_run verdict_def won_iff)

lemma game_shizi_run:
  assumes "playable p"
  shows "game_shizi u \<lparr>unread = game_numbers p @ r, answer = t\<rparr> = Inr ((), \<lparr>unread = r, answer = t @ verdict p\<rparr>)"
proof -
  have "fst p mod (snd p + 1) \<le> snd p" using mod_less_divisor [of "snd p + 1" "fst p"] by linarith
  then show ?thesis
    using playable_numbers [OF assms]
    by (simp add: game_shizi_def game_numbers_def op_simps written_def arith_run verdict_def won_iff)
qed

text \<open>
  C32: Both programs print for each game the one who wins with best play, whatever the number of games and of stones.
\<close>

theorem stones_won:
  assumes "length games < 2 ^ 31" "\<forall>p \<in> set games. playable p"
  shows "main_E (asked (int (length games) # concat (map game_numbers games)))
      = Inr ((), \<lparr>unread = [], answer = concat (map verdict games)\<rparr>)
    \<and> main_shizi (asked (int (length games) # concat (map game_numbers games)))
      = Inr ((), \<lparr>unread = [], answer = concat (map verdict games)\<rparr>)"
  unfolding main_E_def main_shizi_def
  by (intro conjI main_answers for_answers) (use assms game_E_run game_shizi_run in blast)+

theorem stones_won_witness:
  "main_E (asked [2, 23, 2, 4, 3]) = Inr ((), \<lparr>unread = [], answer = ''first'' @ [newline] @ ''second'' @ [newline]\<rparr>)"
  using stones_won [of "[(23, 2), (4, 3)]"]
  by (simp add: playable_def game_numbers_def verdict_def won_iff)

end
