(* ===== verification/Sol_Divide.thy ===== *)
theory Sol_Divide
  imports Sol_Io
begin

text \<open>
  Dividing a number down to one: \<open>Solution/huqingwei/week1/1_A.c\<close> and \<open>Solution/wuxinyue/week1A.c\<close>, which try the
  divisors in different orders, and why the order does not matter.
\<close>

section \<open>The programs\<close>

definition ok :: "int \<Rightarrow> bool" where
  "ok n \<longleftrightarrow> n smod 2 = 0 \<or> n smod 3 = 0 \<or> n smod 5 = 0"

text \<open>\<open>n /= 2\<close>, \<open>n = n*2/3\<close>, \<open>n = n*4/5\<close> in 64 bits\<close>

definition halved :: "int \<Rightarrow> int result" where
  "halved n = c_div 64 n 2"

definition two_thirds :: "int \<Rightarrow> int result" where
  "two_thirds n = rbind (arith 64 (n * 2)) (\<lambda>d. c_div 64 d 3)"

definition four_fifths :: "int \<Rightarrow> int result" where
  "four_fifths n = rbind (arith 64 (n * 4)) (\<lambda>d. c_div 64 d 5)"

text \<open>The loop of \<open>1_A.c\<close>: what it leaves in \<open>n\<close> and \<open>step\<close>.\<close>

partial_function (option) divide_A :: "int \<Rightarrow> int \<Rightarrow> (int \<times> int) result option" where
  "divide_A n step =
     (if ok n then
        (case rbind (if n smod 2 = 0 then halved n else if n smod 3 = 0 then two_thirds n else four_fifths n)
            (\<lambda>n'. rbind (arith 32 (step + 1)) (\<lambda>s'. Inr (n', s'))) of
           Inl e \<Rightarrow> Some (Inl e)
         | Inr (n', s') \<Rightarrow> divide_A n' s')
      else Some (Inr (n, step)))"

definition test_A :: "int option \<Rightarrow> (tio, int option) op" where
  "test_A old =
     bnd (read_number 64 old) (\<lambda>n. bnd (lifted (rbind (written n) (\<lambda>v. returning (divide_A v 0)))) (\<lambda>(u, step).
     bnd (if u = 1 then put_line (dec step) else put_line ''-1'') (\<lambda>_. retn (Some u))))"

definition main_A :: "(tio, unit) op" where
  "main_A = bnd (read_number 32 None) (\<lambda>q. bnd (lifted (times q)) (\<lambda>k. bnd (repeat_op k test_A None) (\<lambda>_. retn ())))"

text \<open>The loop of \<open>week1A.c\<close>; the last part of the result says that it broke off.\<close>

partial_function (option) divide_W :: "int \<Rightarrow> int \<Rightarrow> (int \<times> int \<times> bool) result option" where
  "divide_W n i =
     (if n \<noteq> 1 \<and> n > 1 then
        (if ok n then
           (case rbind (if n smod 5 = 0 then four_fifths n else if n smod 3 = 0 then two_thirds n else halved n)
               (\<lambda>n'. rbind (arith 32 (i + 1)) (\<lambda>i'. Inr (n', i'))) of
              Inl e \<Rightarrow> Some (Inl e)
            | Inr (n', i') \<Rightarrow> divide_W n' i')
         else Some (Inr (n, i, True)))
      else Some (Inr (n, i, False)))"

definition test_W :: "int option \<Rightarrow> (tio, int option) op" where
  "test_W old =
     bnd (read_number 64 old) (\<lambda>n. bnd (lifted (written n)) (\<lambda>v.
       if v < 1 then bnd (put_line ''-1'') (\<lambda>_. retn n)
       else if v = 1 then bnd (put_line ''0'') (\<lambda>_. retn n)
       else bnd (lifted (returning (divide_W v 0))) (\<lambda>(u, i, broke).
         bnd (when_op broke (put_line ''-1'')) (\<lambda>_.
         bnd (when_op (u = 1) (put_line (dec i))) (\<lambda>_. retn (Some u))))))"

definition main_W :: "(tio, unit) op" where
  "main_W = bnd (read_number 32 None) (\<lambda>m. bnd (lifted (times m)) (\<lambda>k. bnd (repeat_op k test_W None) (\<lambda>_. retn ())))"

section \<open>Steps that commute\<close>

text \<open>
  When two different steps from one place can be joined by one step each, all ways to a place without steps have the
  same length and the same end.
\<close>

locale joined_steps =
  fixes step :: "'a \<Rightarrow> 'a \<Rightarrow> bool"
  assumes joined: "step x y \<Longrightarrow> step x z \<Longrightarrow> y \<noteq> z \<Longrightarrow> \<exists>u. step y u \<and> step z u"
begin

lemma one_step_less:
  assumes "(step ^^ k) x u" "\<nexists>v. step u v" "step x y"
  shows "\<exists>j. k = Suc j \<and> (step ^^ j) y u"
  using assms(1,3)
proof (induction k arbitrary: x y)
  case 0
  with assms(2) show ?case by simp
next
  case (Suc k)
  from Suc.prems(1) obtain x' where x': "step x x'" "(step ^^ k) x' u" by (metis relpowp_Suc_E2)
  show ?case
  proof (cases "y = x'")
    case True
    with x' show ?thesis by simp
  next
    case False
    with joined Suc.prems(2) x'(1) obtain w where w: "step y w" "step x' w" by blast
    from Suc.IH [OF x'(2) w(2)] obtain j where "k = Suc j" "(step ^^ j) w u" by blast
    with w(1) show ?thesis by (metis relpowp_Suc_I2)
  qed
qed

lemma one_end:
  assumes "\<nexists>w. step u w" "\<nexists>w. step v w"
  shows "(step ^^ k) x u \<Longrightarrow> (step ^^ j) x v \<Longrightarrow> k = j \<and> u = v"
proof (induction k arbitrary: j x)
  case 0
  show ?case
  proof (cases j)
    case (Suc i)
    with 0 obtain y where "step x y" by (metis relpowp_Suc_D2)
    with 0 assms(1) show ?thesis by auto
  qed (use 0 in auto)
next
  case (Suc k)
  from Suc.prems(1) obtain y where y: "step x y" "(step ^^ k) y u" by (metis relpowp_Suc_E2)
  from one_step_less [OF Suc.prems(2) assms(2) y(1)] obtain i where "j = Suc i" "(step ^^ i) y v" by blast
  with Suc.IH y(2) show ?case by blast
qed

end

section \<open>The moves\<close>

definition divided :: "int \<Rightarrow> int \<Rightarrow> bool" where
  "divided n n' \<longleftrightarrow> 2 dvd n \<and> n' = n div 2 \<or> 3 dvd n \<and> n' = 2 * n div 3 \<or> 5 dvd n \<and> n' = 4 * n div 5"

lemma divided_joins:
  fixes m :: int
  shows "divided (3 * m) (2 * m)" "divided (4 * m) (2 * m)" "divided (5 * m) (4 * m)" "divided (8 * m) (4 * m)"
    "divided (10 * m) (8 * m)" "divided (12 * m) (8 * m)"
  by (auto simp: divided_def)

lemma common_multiples:
  fixes n :: int
  shows "2 dvd n \<Longrightarrow> 3 dvd n \<Longrightarrow> \<exists>m. n = 6 * m" "2 dvd n \<Longrightarrow> 5 dvd n \<Longrightarrow> \<exists>m. n = 10 * m"
    "3 dvd n \<Longrightarrow> 5 dvd n \<Longrightarrow> \<exists>m. n = 15 * m"
  by presburger+

lemma divided_pairs:
  "2 dvd n \<Longrightarrow> 3 dvd n \<Longrightarrow> \<exists>u. divided (n div 2) u \<and> divided (2 * n div 3) u"
  "2 dvd n \<Longrightarrow> 5 dvd n \<Longrightarrow> \<exists>u. divided (n div 2) u \<and> divided (4 * n div 5) u"
  "3 dvd n \<Longrightarrow> 5 dvd n \<Longrightarrow> \<exists>u. divided (2 * n div 3) u \<and> divided (4 * n div 5) u"
proof -
  show "\<exists>u. divided (n div 2) u \<and> divided (2 * n div 3) u" if two_three: "2 dvd n" "3 dvd n"
  proof -
    obtain m where "n = 6 * m" using common_multiples(1) [OF two_three] by blast
    then have "n div 2 = 3 * m" "2 * n div 3 = 4 * m" by simp_all
    then show ?thesis using divided_joins(1,2) by metis
  qed
  show "\<exists>u. divided (n div 2) u \<and> divided (4 * n div 5) u" if two_five: "2 dvd n" "5 dvd n"
  proof -
    obtain m where "n = 10 * m" using common_multiples(2) [OF two_five] by blast
    then have "n div 2 = 5 * m" "4 * n div 5 = 8 * m" by simp_all
    then show ?thesis using divided_joins(3,4) by metis
  qed
  show "\<exists>u. divided (2 * n div 3) u \<and> divided (4 * n div 5) u" if three_five: "3 dvd n" "5 dvd n"
  proof -
    obtain m where "n = 15 * m" using common_multiples(3) [OF three_five] by blast
    then have "2 * n div 3 = 10 * m" "4 * n div 5 = 12 * m" by simp_all
    then show ?thesis using divided_joins(5,6) by metis
  qed
qed

interpretation division: joined_steps divided
proof
  fix x y z
  assume "divided x y" "divided x z" "y \<noteq> z"
  then show "\<exists>u. divided y u \<and> divided z u"
    using divided_pairs [of x] unfolding divided_def [of x] by blast
qed

lemma at_one: "\<nexists>n. divided 1 n"
  by (auto simp: divided_def)

text \<open>The fewest moves from \<open>n\<close> to 1, and -1 when 1 cannot be reached.\<close>

definition fewest :: "int \<Rightarrow> int" where
  "fewest n = (if \<exists>k. (divided ^^ k) n 1 then int (LEAST k. (divided ^^ k) n 1) else - 1)"

lemma fewest_by_any_way:
  assumes "(divided ^^ k) n u" "\<nexists>v. divided u v"
  shows "fewest n = (if u = 1 then int k else - 1)"
proof (cases "u = 1")
  case True
  have same: "j = k" if "(divided ^^ j) n 1" for j
    using division.one_end [OF at_one assms(2) that assms(1)] by blast
  have way: "(divided ^^ k) n 1" using assms(1) True by simp
  have "(LEAST j. (divided ^^ j) n 1) = k" 
  proof (rule Least_equality)
    show "(divided ^^ k) n 1" by (rule way)
    show "k \<le> j" if "(divided ^^ j) n 1" for j using same [OF that] by simp
  qed
  moreover have "\<exists>j. (divided ^^ j) n 1" using way by blast
  ultimately show ?thesis using True by (simp only: fewest_def if_True refl)
next
  case False
  then have "\<not> (divided ^^ j) n 1" for j
    using division.one_end [OF at_one assms(2) _ assms(1), of j] by blast
  then have "\<not> (\<exists>j. (divided ^^ j) n 1)" by blast
  with False show ?thesis by (simp only: fewest_def if_False)
qed

section \<open>The runs\<close>

lemma ok_iff: "1 \<le> n \<Longrightarrow> ok n \<longleftrightarrow> 2 dvd n \<or> 3 dvd n \<or> 5 dvd n"
  by (auto simp: ok_def dvd_eq_mod_eq_0)

lemma ok_divided: "1 \<le> n \<Longrightarrow> \<not> ok n \<longleftrightarrow> (\<nexists>v. divided n v)"
  by (auto simp: ok_iff divided_def)

text \<open>One pass through either loop is a move; \<open>4 ^ j * n < 5 ^ j\<close> says that fewer than \<open>j\<close> are left.\<close>

lemma one_move:
  assumes "1 \<le> n" "in_int 64 (4 * n)" "4 ^ Suc j * n < 5 ^ Suc j" "ok n"
    and "r = halved n \<and> 2 dvd n \<or> r = two_thirds n \<and> 3 dvd n \<or> r = four_fifths n \<and> 5 dvd n"
  shows "\<exists>n'. r = Inr n' \<and> divided n n' \<and> 1 \<le> n' \<and> in_int 64 (4 * n') \<and> 4 ^ j * n' < 5 ^ j"
proof -
  have range: "in_int 64 n" "in_int 64 (n * 2)" "in_int 64 (n * 4)" using assms(1,2) by (auto simp: in_int_def)
  have runs: "halved n = Inr (n div 2)" "two_thirds n = Inr (2 * n div 3)" "four_fifths n = Inr (4 * n div 5)"
    using assms(1) range by (simp_all add: halved_def two_thirds_def four_fifths_def c_div_run arith_run mult.commute)
  have less: "4 ^ j * m < 5 ^ j" if "5 * m \<le> 4 * n" for m :: int
  proof -
    have "4 ^ j * (5 * m) \<le> 4 ^ j * (4 * n)" using that by (intro mult_left_mono) simp_all
    then have "5 * (4 ^ j * m) \<le> 4 * (4 ^ j * n)" by (simp add: mult.left_commute)
    moreover have "4 * (4 ^ j * n) < 5 * 5 ^ j" using assms(3) by simp
    ultimately show ?thesis by linarith
  qed
  have moves: "divided n (n div 2) \<and> 5 * (n div 2) \<le> 4 * n \<and> 1 \<le> n div 2 \<and> n div 2 \<le> n" if "2 dvd n"
    using that assms(1) by (auto simp: divided_def)
  moreover have "divided n (2 * n div 3) \<and> 5 * (2 * n div 3) \<le> 4 * n \<and> 1 \<le> 2 * n div 3 \<and> 2 * n div 3 \<le> n" if "3 dvd n"
    using that assms(1) by (auto simp: divided_def)
  moreover have "divided n (4 * n div 5) \<and> 5 * (4 * n div 5) \<le> 4 * n \<and> 1 \<le> 4 * n div 5 \<and> 4 * n div 5 \<le> n" if "5 dvd n"
    using that assms(1) by (auto simp: divided_def)
  moreover have "in_int 64 (4 * m)" if "1 \<le> m" "m \<le> n" for m using that assms(2) by (auto simp: in_int_def)
  ultimately show ?thesis using assms(5) runs less by auto
qed

lemma divide_A_run:
  "1 \<le> n \<Longrightarrow> in_int 64 (4 * n) \<Longrightarrow> 4 ^ j * n < 5 ^ j \<Longrightarrow> 0 \<le> step \<Longrightarrow> in_int 32 (step + int j)
   \<Longrightarrow> \<exists>k u. divide_A n step = Some (Inr (u, step + int k)) \<and> (divided ^^ k) n u \<and> (\<nexists>v. divided u v)"
proof (induction j arbitrary: n step)
  case (Suc j)
  show ?case
  proof (cases "ok n")
    case True
    let ?r = "if n smod 2 = 0 then halved n else if n smod 3 = 0 then two_thirds n else four_fifths n"
    have "?r = halved n \<and> 2 dvd n \<or> ?r = two_thirds n \<and> 3 dvd n \<or> ?r = four_fifths n \<and> 5 dvd n"
      using True Suc.prems(1) by (auto simp: ok_def dvd_eq_mod_eq_0)
    from one_move [OF Suc.prems(1-3) True this] obtain n' where
      n': "?r = Inr n'" "divided n n'" "1 \<le> n'" "in_int 64 (4 * n')" "4 ^ j * n' < 5 ^ j" by blast
    have "in_int 32 (step + 1)" using Suc.prems(4,5) by (auto simp: in_int_def)
    then have run: "divide_A n step = divide_A n' (step + 1)"
      using True n'(1) by (subst divide_A.simps) (simp add: arith_run)
    have "\<exists>k u. divide_A n' (step + 1) = Some (Inr (u, step + 1 + int k)) \<and> (divided ^^ k) n' u \<and> (\<nexists>v. divided u v)"
      by (rule Suc.IH) (use n' Suc.prems(4,5) in \<open>auto simp: add.assoc\<close>)
    then obtain k u where "divide_A n' (step + 1) = Some (Inr (u, step + 1 + int k))" "(divided ^^ k) n' u"
      "\<nexists>v. divided u v" by blast
    moreover from this(2) have "(divided ^^ Suc k) n u" by (rule relpowp_Suc_I2 [where P = divided, OF n'(2)])
    ultimately have "divide_A n step = Some (Inr (u, step + int (Suc k))) \<and> (divided ^^ Suc k) n u \<and> (\<nexists>v. divided u v)"
      using run by (simp del: relpowp.simps)
    then show ?thesis by blast
  next
    case False
    then have "divide_A n step = Some (Inr (n, step + int 0))" by (subst divide_A.simps) simp
    moreover have "\<nexists>v. divided n v" using False ok_divided [OF Suc.prems(1)] by blast
    ultimately have "divide_A n step = Some (Inr (n, step + int 0)) \<and> (divided ^^ 0) n n \<and> (\<nexists>v. divided n v)" by simp
    then show ?thesis by blast
  qed
qed simp

lemma divide_W_run:
  "1 \<le> n \<Longrightarrow> in_int 64 (4 * n) \<Longrightarrow> 4 ^ j * n < 5 ^ j \<Longrightarrow> 0 \<le> i \<Longrightarrow> in_int 32 (i + int j)
   \<Longrightarrow> \<exists>k u. divide_W n i = Some (Inr (u, i + int k, u \<noteq> 1)) \<and> (divided ^^ k) n u \<and> (\<nexists>v. divided u v)"
proof (induction j arbitrary: n i)
  case (Suc j)
  consider "n = 1" | "n > 1" "ok n" | "n > 1" "\<not> ok n" using Suc.prems(1) by fastforce
  then show ?case
  proof cases
    case 1
    then have "divide_W n i = Some (Inr (n, i + int 0, n \<noteq> 1)) \<and> (divided ^^ 0) n n \<and> (\<nexists>v. divided n v)"
      using at_one by (subst divide_W.simps) simp
    then show ?thesis by blast
  next
    case 2
    let ?r = "if n smod 5 = 0 then four_fifths n else if n smod 3 = 0 then two_thirds n else halved n"
    have "?r = halved n \<and> 2 dvd n \<or> ?r = two_thirds n \<and> 3 dvd n \<or> ?r = four_fifths n \<and> 5 dvd n"
      using 2 by (auto simp: ok_def dvd_eq_mod_eq_0)
    from one_move [OF Suc.prems(1-3) 2(2) this] obtain n' where
      n': "?r = Inr n'" "divided n n'" "1 \<le> n'" "in_int 64 (4 * n')" "4 ^ j * n' < 5 ^ j" by blast
    have "in_int 32 (i + 1)" using Suc.prems(4,5) by (auto simp: in_int_def)
    then have run: "divide_W n i = divide_W n' (i + 1)"
      using 2 n'(1) by (subst divide_W.simps) (simp add: arith_run)
    have "\<exists>k u. divide_W n' (i + 1) = Some (Inr (u, i + 1 + int k, u \<noteq> 1)) \<and> (divided ^^ k) n' u \<and> (\<nexists>v. divided u v)"
      by (rule Suc.IH) (use n' Suc.prems(4,5) in \<open>auto simp: add.assoc\<close>)
    then obtain k u where "divide_W n' (i + 1) = Some (Inr (u, i + 1 + int k, u \<noteq> 1))" "(divided ^^ k) n' u"
      "\<nexists>v. divided u v" by blast
    moreover from this(2) have "(divided ^^ Suc k) n u" by (rule relpowp_Suc_I2 [where P = divided, OF n'(2)])
    ultimately have "divide_W n i = Some (Inr (u, i + int (Suc k), u \<noteq> 1)) \<and> (divided ^^ Suc k) n u \<and> (\<nexists>v. divided u v)"
      using run by (simp del: relpowp.simps)
    then show ?thesis by blast
  next
    case 3
    then have "divide_W n i = Some (Inr (n, i + int 0, n \<noteq> 1))" by (subst divide_W.simps) simp
    moreover have "\<nexists>v. divided n v" using 3 ok_divided [OF Suc.prems(1)] by blast
    ultimately have "divide_W n i = Some (Inr (n, i + int 0, n \<noteq> 1)) \<and> (divided ^^ 0) n n \<and> (\<nexists>v. divided n v)" by simp
    then show ?thesis by blast
  qed
qed simp

text \<open>A test of the two programs, and all of it.\<close>

definition divisible :: "int \<Rightarrow> bool" where
  "divisible n \<longleftrightarrow> 1 \<le> n \<and> n \<le> 10 ^ 18"

lemma divisible_range:
  assumes "divisible n"
  shows "1 \<le> n" "in_int 64 n" "in_int 64 (4 * n)" "4 ^ 200 * n < 5 ^ 200" "in_int 32 (0 + int 200)"
  using assms by (simp_all add: divisible_def in_int_def)

lemma tests_run:
  assumes "divisible n"
  shows "\<exists>y. test_A x \<lparr>unread = n # r, answer = t\<rparr> = Inr (y, \<lparr>unread = r, answer = t @ dec (fewest n) @ [newline]\<rparr>)"
    "\<exists>y. test_W x \<lparr>unread = n # r, answer = t\<rparr> = Inr (y, \<lparr>unread = r, answer = t @ dec (fewest n) @ [newline]\<rparr>)"
proof -
  note d = divisible_range [OF assms]
  have minus: "dec (- 1) = ''-1''" "dec 0 = ''0''" by code_simp+
  from divide_A_run [OF d(1,3,4) order_refl d(5)] obtain k u where
    k: "divide_A n 0 = Some (Inr (u, int k))" "(divided ^^ k) n u" "\<nexists>v. divided u v" by auto
  have "fewest n = (if u = 1 then int k else - 1)" by (rule fewest_by_any_way [OF k(2,3)])
  then show "\<exists>y. test_A x \<lparr>unread = n # r, answer = t\<rparr> = Inr (y, \<lparr>unread = r, answer = t @ dec (fewest n) @ [newline]\<rparr>)"
    using d(2) k(1) minus by (simp add: test_A_def op_simps written_def)
  from divide_W_run [OF d(1,3,4) order_refl d(5)] obtain j v where
    j: "divide_W n 0 = Some (Inr (v, int j, v \<noteq> 1))" "(divided ^^ j) n v" "\<nexists>w. divided v w" by auto
  have few: "fewest n = (if v = 1 then int j else - 1)" by (rule fewest_by_any_way [OF j(2,3)])
  have one: "fewest 1 = 0" using fewest_by_any_way [of 0 1 1] at_one by simp
  show "\<exists>y. test_W x \<lparr>unread = n # r, answer = t\<rparr> = Inr (y, \<lparr>unread = r, answer = t @ dec (fewest n) @ [newline]\<rparr>)"
    using d(1,2) j(1) few one minus by (cases "n = 1") (simp_all add: test_W_def op_simps written_def)
qed

text \<open>
  C31: Both programs print for each number up to ten to the power of 18 the length of the shortest way to 1, and -1 when there is
  none, although one divides by 2 first and the other by 5.
\<close>

theorem fewest_moves:
  assumes "length ns < 2 ^ 31" "\<forall>n \<in> set ns. divisible n"
  shows "main_A (asked (int (length ns) # ns))
      = Inr ((), \<lparr>unread = [], answer = concat (map (\<lambda>n. dec (fewest n) @ [newline]) ns)\<rparr>)
    \<and> main_W (asked (int (length ns) # ns))
      = Inr ((), \<lparr>unread = [], answer = concat (map (\<lambda>n. dec (fewest n) @ [newline]) ns)\<rparr>)"
proof -
  have one: "concat (map (\<lambda>n. [n]) ns) = ns" by (induction ns) simp_all
  show ?thesis
    unfolding main_A_def main_W_def using assms
      main_answers [of ns test_A "\<lambda>n. [n]" "\<lambda>n. dec (fewest n) @ [newline]" None]
      main_answers [of ns test_W "\<lambda>n. [n]" "\<lambda>n. dec (fewest n) @ [newline]" None]
    by (simp add: one tests_run)
qed

lemma fewest_examples: "fewest 10 = 4" "fewest 14 = - 1"
proof -
  have "divided 10 5" "divided 5 4" "divided 4 2" "divided 2 1" "divided 14 7" "\<nexists>v. divided 7 v" by (auto simp: divided_def)
  note steps = this
  have "(divided ^^ Suc (Suc (Suc (Suc 0)))) 10 1"
    by (rule relpowp_Suc_I2 [where P = divided, OF steps(1)] relpowp_Suc_I2 [where P = divided, OF steps(2)]
        relpowp_Suc_I2 [where P = divided, OF steps(3)] relpowp_Suc_I2 [where P = divided, OF steps(4)])+ simp
  from fewest_by_any_way [OF this at_one] show "fewest 10 = 4" by simp
  have "(divided ^^ Suc 0) 14 7" by (rule relpowp_Suc_I2 [where P = divided, OF steps(5)]) simp
  from fewest_by_any_way [OF this steps(6)] show "fewest 14 = - 1" by simp
qed

theorem fewest_moves_witness:
  "main_A (asked [2, 10, 14]) = Inr ((), \<lparr>unread = [], answer = dec 4 @ [newline] @ dec (- 1) @ [newline]\<rparr>)
   \<and> main_W (asked [2, 10, 14]) = Inr ((), \<lparr>unread = [], answer = dec 4 @ [newline] @ dec (- 1) @ [newline]\<rparr>)"
  using fewest_moves [of "[10, 14]"] by (simp add: divisible_def fewest_examples)

end
