(* ===== verification/Sol_Merge.thy ===== *)
theory Sol_Merge
  imports Sol_Io
begin

text \<open>
  Merging numbers into multiples of three: \<open>Solution/huqingwei/week1/1_B.c\<close>, \<open>Solution/wuxinyue/week1B.c\<close> and
  \<open>week1b.c\<close>, \<open>Solution/liuting/hehanshu.c\<close>; four programs that compute the same best number.
\<close>

section \<open>The programs\<close>

text \<open>\<open>1_B.c\<close>: the numbers go into an array of \<open>n\<close> elements and are counted by their remainder.\<close>

definition with_rest :: "int \<Rightarrow> int list \<Rightarrow> int" where
  "with_rest r xs = int (length (filter (\<lambda>x. x smod 3 = r) xs))"

definition groups_B :: "int list \<Rightarrow> int" where
  "groups_B xs =
     (let yu_1 = with_rest 1 xs; yu_2 = with_rest 2 xs in
      with_rest 0 xs + min yu_1 yu_2 + ((yu_1 - min yu_1 yu_2) sdiv 3 + (yu_2 - min yu_1 yu_2) sdiv 3))"

definition test_B :: "int option \<Rightarrow> (tio, int option) op" where
  "test_B old =
     bnd (read_number 32 old) (\<lambda>n. bnd (lifted (written n)) (\<lambda>k.
     bnd (read_array 64 (nat k) (nat k) []) (\<lambda>xs.
     bnd (put_line (dec (groups_B xs))) (\<lambda>_. retn n))))"

definition main_B :: "(tio, unit) op" where
  "main_B = bnd (read_number 32 None) (\<lambda>t. bnd (lifted (times t)) (\<lambda>k. bnd (repeat_op k test_B None) (\<lambda>_. retn ())))"

text \<open>\<open>a[flag%3]++\<close>: the numbers are read into \<open>flag\<close>, which keeps its value, and only counted.\<close>

fun count_rests :: "nat \<Rightarrow> int option \<times> (int \<times> int \<times> int) \<Rightarrow> (tio, int option \<times> (int \<times> int \<times> int)) op" where
  "count_rests 0 x = retn x"
| "count_rests (Suc k) (flag, a0, a1, a2) =
     bnd (read_number 32 flag) (\<lambda>f. bnd (lifted (written f)) (\<lambda>v.
       if v smod 3 = 0 then count_rests k (f, a0 + 1, a1, a2)
       else if v smod 3 = 1 then count_rests k (f, a0, a1 + 1, a2)
       else if v smod 3 = 2 then count_rests k (f, a0, a1, a2 + 1)
       else lifted (Inl Out_Of_Bounds)))"

text \<open>\<open>week1B.c\<close>\<close>

definition groups_W :: "int \<times> int \<times> int \<Rightarrow> int" where
  "groups_W a = (case a of (a0, a1, a2) \<Rightarrow>
     let count = (if a1 > a2 then a0 + a2 + (a1 - a2) sdiv 3 else 0);
         count = (if a2 > a1 then a0 + a1 + (a2 - a1) sdiv 3 else count)
     in if a2 = a1 then a2 + a0 else count)"

text \<open>\<open>week1b.c\<close>: the smaller of the two counters goes first.\<close>

definition groups_b :: "int \<times> int \<times> int \<Rightarrow> int" where
  "groups_b a = (case a of (a0, a1, a2) \<Rightarrow>
     (case (if a2 < a1 then (a2, a1) else (a1, a2)) of (b1, b2) \<Rightarrow> a0 + b1 + (b2 - b1) sdiv 3))"

definition test_counts :: "(int \<times> int \<times> int \<Rightarrow> int) \<Rightarrow> int option \<times> int option \<Rightarrow> (tio, int option \<times> int option) op" where
  "test_counts groups x =
     bnd (read_number 32 (fst x)) (\<lambda>n. bnd (lifted (written n)) (\<lambda>k.
     bnd (count_rests (nat k) (snd x, 0, 0, 0)) (\<lambda>(flag, a).
     bnd (put_line (dec (groups a))) (\<lambda>_. retn (n, flag)))))"

definition main_counts :: "(int \<times> int \<times> int \<Rightarrow> int) \<Rightarrow> (tio, unit) op" where
  "main_counts groups =
     bnd (read_number 32 None) (\<lambda>N. bnd (lifted (times N)) (\<lambda>k.
     bnd (repeat_op k (test_counts groups) (None, None)) (\<lambda>_. retn ())))"

text \<open>\<open>hehanshu.c\<close>: an array of 100 numbers; a rest of 2 counts as \<open>2/2\<close>.\<close>

definition groups_H :: "int list \<Rightarrow> int" where
  "groups_H xs =
     (let s = with_rest 0 xs; sum1 = with_rest 1 xs;
          sum2 = sum_list (map (\<lambda>x. if x smod 3 = 0 \<or> x smod 3 = 1 then 0 else (x smod 3) sdiv 2) xs)
      in if sum1 > sum2 then sum2 + s + (if sum1 - sum2 \<ge> 3 then (sum1 - sum2) sdiv 3 else 0)
         else sum1 + s + (if sum2 - sum1 \<ge> 3 then (sum2 - sum1) sdiv 3 else 0))"

definition test_H :: "unit \<Rightarrow> (tio, unit) op" where
  "test_H _ =
     bnd (read_number 32 None) (\<lambda>n. bnd (lifted (written n)) (\<lambda>k.
     bnd (read_array 32 100 (nat k) []) (\<lambda>xs. put_line (dec (groups_H xs)))))"

definition main_H :: "(tio, unit) op" where
  "main_H = bnd (read_number 32 None) (\<lambda>t. bnd (lifted (written t)) (\<lambda>k. repeat_op (nat k) test_H ()))"

section \<open>The best number of groups\<close>

text \<open>Groups of the numbers, each with a sum that three divides.\<close>

definition merging :: "int list \<Rightarrow> int list list \<Rightarrow> bool" where
  "merging xs gs \<longleftrightarrow> mset (concat gs) \<subseteq># mset xs \<and> (\<forall>g \<in> set gs. g \<noteq> [] \<and> 3 dvd sum_list g)"

definition most_groups :: "int list \<Rightarrow> nat" where
  "most_groups xs = (GREATEST k. \<exists>gs. merging xs gs \<and> length gs = k)"

definition cnt :: "int \<Rightarrow> int list \<Rightarrow> nat" where
  "cnt r xs = length (filter (\<lambda>x. x mod 3 = r) xs)"

text \<open>
  A bound by weights: a multiple of three weighs 3, and a number with remainder 1 weighs 1 and one with remainder 2
  weighs 2, or the other way round. The weight of a group is a multiple of three.
\<close>

definition weight :: "int \<Rightarrow> int \<Rightarrow> int" where
  "weight s x = (if x mod 3 = 0 then 3 else (s * x) mod 3)"

lemma weight_pos: "s = 1 \<or> s = 2 \<Longrightarrow> 1 \<le> weight s x"
proof -
  assume "s = 1 \<or> s = 2"
  moreover have "x mod 3 = 0 \<or> x mod 3 = 1 \<or> x mod 3 = 2" by presburger
  ultimately show ?thesis by (auto simp: weight_def) presburger+
qed

lemma weight_mod: "weight s x mod 3 = (s * x) mod 3"
  by (auto simp: weight_def mod_mult_right_eq [of s x 3, symmetric])

lemma three_up: "k mod 3 = 0 \<Longrightarrow> 1 \<le> k \<Longrightarrow> 3 \<le> k" for k :: int
  by presburger

lemma group_weight:
  assumes "s = 1 \<or> s = 2" "g \<noteq> []" "3 dvd sum_list g"
  shows "3 \<le> sum_list (map (weight s) g)"
proof -
  have "sum_list (map (weight s) xs) mod 3 = (s * sum_list xs) mod 3" for xs
    by (induction xs) (simp_all add: distrib_left, metis mod_add_eq weight_mod)
  then have "sum_list (map (weight s) g) mod 3 = 0" using assms(3) by (simp add: mod_eq_0_iff_dvd)
  moreover have "int (length xs) \<le> sum_list (map (weight s) xs)" for xs
    using weight_pos [OF assms(1)] by (induction xs) (simp_all add: add_mono)
  from this [of g] have "1 \<le> sum_list (map (weight s) g)" using assms(2) by (cases g) auto
  ultimately show ?thesis by (rule three_up)
qed

lemma total_weight:
  "sum_list (map (weight s) xs) = 3 * int (cnt 0 xs) + (s mod 3) * int (cnt 1 xs) + (2 * s mod 3) * int (cnt 2 xs)"
proof (induction xs)
  case (Cons x xs)
  have "x mod 3 = 0 \<or> x mod 3 = 1 \<or> x mod 3 = 2" by presburger
  moreover have "weight s x = s mod 3" if "x mod 3 = 1" using that by (auto simp: weight_def mod_mult_right_eq [of s x 3, symmetric])
  moreover have "weight s x = 2 * s mod 3" if "x mod 3 = 2"
    using that by (auto simp: weight_def mod_mult_right_eq [of s x 3, symmetric] mult.commute)
  ultimately show ?case using Cons by (auto simp: cnt_def weight_def distrib_left)
qed (simp add: cnt_def)

lemma merging_weight:
  assumes "merging xs gs" "s = 1 \<or> s = 2"
  shows "3 * int (length gs) \<le> sum_list (map (weight s) xs)"
proof -
  have "3 * int (length hs) \<le> sum_list (map (weight s) (concat hs))" if "\<forall>g \<in> set hs. g \<noteq> [] \<and> 3 dvd sum_list g" for hs
    using that
  proof (induction hs)
    case (Cons g hs)
    then have "3 \<le> sum_list (map (weight s) g)" by (intro group_weight [OF assms(2)]) simp_all
    with Cons show ?case by simp
  qed simp
  then have "3 * int (length gs) \<le> sum_list (map (weight s) (concat gs))" using assms(1) by (simp add: merging_def)
  also have "\<dots> = sum_mset (image_mset (weight s) (mset (concat gs)))" by (metis mset_map sum_mset_sum_list)
  also have "\<dots> \<le> sum_mset (image_mset (weight s) (mset xs))"
  proof -
    obtain rest where rest: "mset xs = mset (concat gs) + rest"
      using assms(1) by (auto simp: merging_def subset_mset.le_iff_add)
    have "0 \<le> weight s x" for x using weight_pos [OF assms(2), of x] by linarith
    then have "0 \<le> sum_mset (image_mset (weight s) rest)" by (induction rest) simp_all
    then show ?thesis by (simp add: rest)
  qed
  also have "\<dots> = sum_list (map (weight s) xs)" by (metis mset_map sum_mset_sum_list)
  finally show ?thesis .
qed

definition best :: "int list \<Rightarrow> nat" where
  "best xs = cnt 0 xs + min (cnt 1 xs) (cnt 2 xs) + (max (cnt 1 xs) (cnt 2 xs) - min (cnt 1 xs) (cnt 2 xs)) div 3"

lemma merging_bound: "merging xs gs \<Longrightarrow> length gs \<le> best xs"
proof -
  assume "merging xs gs"
  from merging_weight [OF this, of 1] merging_weight [OF this, of 2]
  have "3 * length gs \<le> 3 * cnt 0 xs + cnt 1 xs + 2 * cnt 2 xs" "3 * length gs \<le> 3 * cnt 0 xs + 2 * cnt 1 xs + cnt 2 xs"
    by (simp_all add: total_weight)
  then show ?thesis unfolding best_def by (cases "cnt 1 xs \<le> cnt 2 xs") (auto simp: min_def max_def)
qed

text \<open>The bound is reached: every multiple alone, pairs of the two remainders, and threes of what is left.\<close>

fun threes :: "int list \<Rightarrow> int list list" where
  "threes (x # y # z # r) = [x, y, z] # threes r"
| "threes r = []"

lemma threes_groups:
  "mset (concat (threes xs)) \<subseteq># mset xs \<and> length (threes xs) = length xs div 3
   \<and> ((\<forall>x \<in> set xs. x mod 3 = k) \<longrightarrow> (\<forall>g \<in> set (threes xs). g \<noteq> [] \<and> 3 dvd sum_list g))"
proof (induction xs rule: threes.induct)
  case (1 x y z r)
  have "3 dvd x + (y + z)" if "x mod 3 = k" "y mod 3 = k" "z mod 3 = k" using that by presburger
  with 1 show ?case by auto
qed simp_all

definition grouped :: "int list \<Rightarrow> int list list" where
  "grouped xs =
     (let ones = filter (\<lambda>x. x mod 3 = 1) xs; twos = filter (\<lambda>x. x mod 3 = 2) xs; k = min (length ones) (length twos)
      in map (\<lambda>x. [x]) (filter (\<lambda>x. x mod 3 = 0) xs) @ map (\<lambda>(x, y). [x, y]) (zip ones twos)
        @ threes (drop k ones) @ threes (drop k twos))"

lemma mset_pairs: "mset (concat (map (\<lambda>(x, y). [x, y]) (zip as bs))) = mset (take (length bs) as) + mset (take (length as) bs)"
  by (induction as arbitrary: bs) (case_tac bs; simp)+

lemma mset_rests:
  "mset xs = mset (filter (\<lambda>x :: int. x mod 3 = 0) xs) + mset (filter (\<lambda>x. x mod 3 = 1) xs) + mset (filter (\<lambda>x. x mod 3 = 2) xs)"
proof (induction xs)
  case (Cons x xs)
  have "x mod 3 = 0 \<or> x mod 3 = 1 \<or> x mod 3 = 2" by presburger
  with Cons show ?case by auto
qed simp

lemma regroup: "A + C = F \<Longrightarrow> B + D = G \<Longrightarrow> Z + (A + B) + C + D = Z + F + (G :: 'a multiset)"
  by (auto simp: ac_simps)

definition rests :: "int \<Rightarrow> int list \<Rightarrow> int list" where
  "rests r xs = filter (\<lambda>x. x mod 3 = r) xs"

definition pairs_of :: "int list \<Rightarrow> nat" where
  "pairs_of xs = min (length (rests 1 xs)) (length (rests 2 xs))"

lemma grouped_parts:
  "grouped xs = map (\<lambda>x. [x]) (rests 0 xs) @ map (\<lambda>(x, y). [x, y]) (zip (rests 1 xs) (rests 2 xs))
     @ threes (drop (pairs_of xs) (rests 1 xs)) @ threes (drop (pairs_of xs) (rests 2 xs))"
  by (simp add: grouped_def rests_def pairs_of_def Let_def)

lemma mset_pairs_rests:
  "mset (concat (map (\<lambda>(x, y). [x, y]) (zip (rests 1 xs) (rests 2 xs))))
   = mset (take (pairs_of xs) (rests 1 xs)) + mset (take (pairs_of xs) (rests 2 xs))"
  by (simp add: mset_pairs pairs_of_def min_def)

lemma take_drop_mset: "mset (take k ys) + mset (drop k ys) = mset ys"
  by (metis append_take_drop_id mset_append)

lemma grouped_subset: "mset (concat (grouped xs)) \<subseteq># mset xs"
proof -
  let ?k = "pairs_of xs"
  have singles: "mset (concat (map (\<lambda>x. [x]) ys)) = mset ys" for ys :: "int list" by (induction ys) simp_all
  have "mset (concat (grouped xs)) = mset (rests 0 xs) + (mset (take ?k (rests 1 xs)) + mset (take ?k (rests 2 xs)))
      + mset (concat (threes (drop ?k (rests 1 xs)))) + mset (concat (threes (drop ?k (rests 2 xs))))"
    unfolding grouped_parts concat_append mset_append singles mset_pairs_rests by (simp only: add.assoc)
  also have "\<dots> \<subseteq># mset (rests 0 xs) + (mset (take ?k (rests 1 xs)) + mset (take ?k (rests 2 xs)))
      + mset (drop ?k (rests 1 xs)) + mset (drop ?k (rests 2 xs))"
    by (intro subset_mset.add_mono subset_mset.order_refl threes_groups [THEN conjunct1])
  also have "\<dots> = mset (rests 0 xs) + mset (rests 1 xs) + mset (rests 2 xs)"
    by (rule regroup) (rule take_drop_mset)+
  also have "\<dots> = mset xs" using mset_rests [of xs] by (simp add: rests_def)
  finally show ?thesis .
qed

lemma grouped_good:
  assumes "g \<in> set (grouped xs)"
  shows "g \<noteq> [] \<and> 3 dvd sum_list g"
proof -
  have same: "\<forall>x \<in> set (drop (pairs_of xs) (rests r xs)). x mod 3 = r" for r by (auto simp: rests_def dest: in_set_dropD)
  from assms consider "g \<in> (\<lambda>x. [x]) ` set (rests 0 xs)" | "g \<in> (\<lambda>(x, y). [x, y]) ` set (zip (rests 1 xs) (rests 2 xs))"
    | r where "g \<in> set (threes (drop (pairs_of xs) (rests r xs)))"
    unfolding grouped_parts set_append set_map by blast
  then show ?thesis
  proof cases
    case 1
    then show ?thesis by (auto simp: rests_def mod_eq_0_iff_dvd)
  next
    case 2
    then obtain x y where xy: "(x, y) \<in> set (zip (rests 1 xs) (rests 2 xs))" "g = [x, y]" by auto
    have "x mod 3 = 1" "y mod 3 = 2" using set_zip_leftD [OF xy(1)] set_zip_rightD [OF xy(1)] by (simp_all add: rests_def)
    then have "3 dvd x + y" by presburger
    with xy(2) show ?thesis by simp
  next
    case 3
    with threes_groups [of "drop (pairs_of xs) (rests r xs)" r] same [of r] show ?thesis by blast
  qed
qed

lemma grouped_merging: "merging xs (grouped xs) \<and> length (grouped xs) = best xs"
proof
  show "merging xs (grouped xs)" using grouped_subset grouped_good by (simp add: merging_def)
  have three: "length (threes ys) = length ys div 3" for ys using threes_groups [of ys] by blast
  have "cnt r xs = length (rests r xs)" for r by (simp add: cnt_def rests_def)
  then show "length (grouped xs) = best xs"
    unfolding grouped_parts best_def pairs_of_def by (simp add: three min_def max_def)
qed

lemma most_groups_best: "most_groups xs = best xs"
  unfolding most_groups_def
proof (rule Greatest_equality)
  show "\<exists>gs. merging xs gs \<and> length gs = best xs" using grouped_merging by blast
  show "k \<le> best xs" if "\<exists>gs. merging xs gs \<and> length gs = k" for k using that merging_bound by blast
qed

section \<open>The runs\<close>

definition numbers_of :: "int list \<Rightarrow> int list" where
  "numbers_of xs = int (length xs) # xs"

definition problem :: "int list \<Rightarrow> bool" where
  "problem xs \<longleftrightarrow> length xs \<le> 100 \<and> (\<forall>x \<in> set xs. 0 \<le> x \<and> x < 2 ^ 31)"

definition group_line :: "int list \<Rightarrow> string" where
  "group_line xs = dec (int (most_groups xs)) @ [newline]"

lemma problem_range:
  assumes "problem xs"
  shows "in_int 32 (int (length xs))" "\<forall>x \<in> set xs. in_int 32 x" "\<forall>x \<in> set xs. in_int 64 x" "\<forall>x \<in> set xs. 0 \<le> x"
  using assms by (auto simp: problem_def in_int_def)

lemma with_rest_cnt: "\<forall>x \<in> set xs. 0 \<le> x \<Longrightarrow> with_rest r xs = int (cnt r xs)"
proof -
  assume "\<forall>x \<in> set xs. 0 \<le> x"
  then have "filter (\<lambda>x. x smod 3 = r) xs = filter (\<lambda>x. x mod 3 = r) xs" by (intro filter_cong) simp_all
  then show ?thesis by (simp add: with_rest_def cnt_def)
qed

text \<open>The four formulas.\<close>

lemma formulas:
  "groups_W (int z, int a, int b) = int (z + min a b + (max a b - min a b) div 3)"
  "groups_b (int z, int a, int b) = int (z + min a b + (max a b - min a b) div 3)"
  by (auto simp: groups_W_def groups_b_def Let_def min_def max_def zdiv_int of_nat_diff)

lemma groups_B_best: "\<forall>x \<in> set xs. 0 \<le> x \<Longrightarrow> groups_B xs = int (best xs)"
  by (auto simp: groups_B_def Let_def with_rest_cnt best_def min_def max_def zdiv_int of_nat_diff)

lemma second_sum:
  "\<forall>x \<in> set xs. 0 \<le> x \<Longrightarrow> sum_list (map (\<lambda>x. if x smod 3 = 0 \<or> x smod 3 = 1 then 0 else (x smod 3) sdiv 2) xs) = int (cnt 2 xs)"
proof (induction xs)
  case (Cons x xs)
  have "x mod 3 = 0 \<or> x mod 3 = 1 \<or> x mod 3 = 2" by presburger
  with Cons show ?case by (auto simp: cnt_def)
qed (simp add: cnt_def)

lemma groups_H_best: "\<forall>x \<in> set xs. 0 \<le> x \<Longrightarrow> groups_H xs = int (best xs)"
  by (auto simp: groups_H_def Let_def with_rest_cnt second_sum best_def min_def max_def zdiv_int of_nat_diff)

lemma count_rests_run:
  "\<forall>x \<in> set xs. 0 \<le> x \<and> in_int 32 x
   \<Longrightarrow> \<exists>f. count_rests (length xs) (flag, a0, a1, a2) \<lparr>unread = xs @ r, answer = t\<rparr>
     = Inr ((f, a0 + int (cnt 0 xs), a1 + int (cnt 1 xs), a2 + int (cnt 2 xs)), \<lparr>unread = r, answer = t\<rparr>)"
proof (induction xs arbitrary: flag a0 a1 a2)
  case (Cons x xs)
  have "x mod 3 = 0 \<or> x mod 3 = 1 \<or> x mod 3 = 2" by presburger
  moreover from Cons obtain f where "count_rests (length xs) (Some x, b0, b1, b2) \<lparr>unread = xs @ r, answer = t\<rparr>
     = Inr ((f b0 b1 b2, b0 + int (cnt 0 xs), b1 + int (cnt 1 xs), b2 + int (cnt 2 xs)), \<lparr>unread = r, answer = t\<rparr>)" for b0 b1 b2
    by (metis (mono_tags, lifting) list.set_intros(2))
  ultimately show ?case using Cons.prems by (auto simp: op_simps written_def cnt_def)
qed (simp add: op_simps cnt_def)

lemma test_B_run:
  "problem xs \<Longrightarrow> \<exists>y. test_B x \<lparr>unread = numbers_of xs @ r, answer = t\<rparr> = Inr (y, \<lparr>unread = r, answer = t @ group_line xs\<rparr>)"
  using problem_range [of xs] read_array_run [of xs 64 "[]" "length xs" r t]
  by (simp add: test_B_def numbers_of_def op_simps written_def groups_B_best group_line_def most_groups_best)

lemma test_H_run:
  "problem xs \<Longrightarrow> test_H u \<lparr>unread = numbers_of xs @ r, answer = t\<rparr> = Inr ((), \<lparr>unread = r, answer = t @ group_line xs\<rparr>)"
  using problem_range [of xs] read_array_run [of xs 32 "[]" 100 r t]
  by (simp add: test_H_def numbers_of_def op_simps written_def groups_H_best group_line_def most_groups_best problem_def)

lemma test_counts_run:
  assumes "problem xs" "groups = groups_W \<or> groups = groups_b"
  shows "\<exists>y. test_counts groups x \<lparr>unread = numbers_of xs @ r, answer = t\<rparr>
    = Inr (y, \<lparr>unread = r, answer = t @ group_line xs\<rparr>)"
proof -
  have "\<forall>x \<in> set xs. 0 \<le> x \<and> in_int 32 x" using problem_range [OF assms(1)] by blast
  from count_rests_run [OF this, of "snd x" 0 0 0] obtain f where
    "count_rests (length xs) (snd x, 0, 0, 0) \<lparr>unread = xs @ r, answer = t\<rparr>
      = Inr ((f, int (cnt 0 xs), int (cnt 1 xs), int (cnt 2 xs)), \<lparr>unread = r, answer = t\<rparr>)" by auto
  moreover have "groups (int (cnt 0 xs), int (cnt 1 xs), int (cnt 2 xs)) = int (best xs)"
    using assms(2) by (auto simp: formulas best_def)
  ultimately show ?thesis
    using problem_range(1) [OF assms(1)]
    by (simp add: test_counts_def numbers_of_def op_simps written_def group_line_def most_groups_best)
qed

text \<open>
  C29: The four programs print for each list of at most 100 numbers, each of 0 or more and an int, the greatest number of groups
  with a sum that three divides that can be made of them; there are fewer than 2^31 lists.
\<close>

theorem most_merges:
  assumes "length ps < 2 ^ 31" "\<forall>p \<in> set ps. problem p"
    and "program \<in> {main_B, main_counts groups_W, main_counts groups_b, main_H}"
  shows "program (asked (int (length ps) # concat (map numbers_of ps)))
    = Inr ((), \<lparr>unread = [], answer = concat (map group_line ps)\<rparr>)"
proof -
  have "main_B (asked (int (length ps) # concat (map numbers_of ps))) = Inr ((), \<lparr>unread = [], answer = concat (map group_line ps)\<rparr>)"
    unfolding main_B_def by (rule main_answers) (use assms test_B_run in auto)
  moreover have "main_counts groups (asked (int (length ps) # concat (map numbers_of ps)))
      = Inr ((), \<lparr>unread = [], answer = concat (map group_line ps)\<rparr>)" if "groups = groups_W \<or> groups = groups_b" for groups
    unfolding main_counts_def by (rule main_answers) (use assms test_counts_run [OF _ that] in auto)
  moreover have "main_H (asked (int (length ps) # concat (map numbers_of ps))) = Inr ((), \<lparr>unread = [], answer = concat (map group_line ps)\<rparr>)"
    unfolding main_H_def by (rule for_answers) (use assms test_H_run in auto)
  ultimately show ?thesis using assms(3) by blast
qed

theorem most_merges_witness:
  "main_B (asked [2, 5, 3, 1, 2, 3, 1, 7, 1, 1, 1, 1, 1, 2, 2])
    = Inr ((), \<lparr>unread = [], answer = dec 3 @ [newline] @ dec 3 @ [newline]\<rparr>)"
  using most_merges [of "[[3, 1, 2, 3, 1], [1, 1, 1, 1, 1, 2, 2]]" main_B]
  by (simp add: problem_def numbers_of_def group_line_def most_groups_best best_def cnt_def)

end
