(* ===== verification/Sol_Greedy.thy ===== *)
theory Sol_Greedy
  imports Sol_Io Ls_Sort
begin

text \<open>
  A greedy solution and why it is best: the most programmes that can be watched
  (\<open>Solution/huqingwei/week2/2_J.c\<close>).
\<close>

section \<open>Programmes: \<open>2_J.c\<close>\<close>

type_synonym jiemu = "int \<times> int"

text \<open>The array keeps what earlier rounds have left in it.\<close>

definition read_shows :: "nat \<Rightarrow> (int option \<times> int option) list \<Rightarrow> (tio, (int option \<times> int option) list) op" where
  "read_shows n a = fold_op (\<lambda>i a.
     if i < 1000 then
       bnd (read_number 32 (fst (a ! i))) (\<lambda>s. bnd (read_number 32 (snd (a ! i))) (\<lambda>e. retn (a[i := (s, e)])))
     else lifted (Inl Out_Of_Bounds)) [0..<n] a"

definition all_written :: "(int option \<times> int option) list \<Rightarrow> jiemu list result" where
  "all_written a = rfold (\<lambda>p xs. rbind (written (fst p)) (\<lambda>s. rbind (written (snd p)) (\<lambda>e. Inr (xs @ [(s, e)])))) a []"

text \<open>\<open>for (i < n-1) for (j < n-i-1) if (jiemu[j].end > jiemu[j+1].end)\<close> exchange\<close>

definition by_end :: "jiemu list \<Rightarrow> jiemu list" where
  "by_end xs = bubble snd (map (\<lambda>i. length xs - i - 1) [0..<length xs - 1]) xs"

fun watched :: "jiemu list \<Rightarrow> int \<Rightarrow> nat" where
  "watched [] e = 0"
| "watched (x # xs) e = (if e \<le> fst x then Suc (watched xs (snd x)) else watched xs e)"

definition show_count :: "jiemu list \<Rightarrow> nat" where
  "show_count xs = Suc (watched (tl xs) (snd (hd xs)))"

text \<open>
  \<open>scanf\<close> returns -1 at the end of the input, which is true: the program goes on for ever with the last \<open>n\<close>. The number
  bounds the rounds; each takes a number of the input.
\<close>

fun shows_loop :: "nat \<Rightarrow> int option \<times> (int option \<times> int option) list \<Rightarrow> (tio, unit) op" where
  "shows_loop 0 x = lifted (Inl No_Return)"
| "shows_loop (Suc k) (old, a) =
     bnd (getting unread) (\<lambda>left.
     bnd (read_number 32 old) (\<lambda>n. bnd (lifted (written n)) (\<lambda>v.
       if v = 0 then retn ()
       else if left = [] then lifted (Inl No_Return)
       else
         bnd (read_shows (nat v) a) (\<lambda>a.
         bnd (if 0 < v then lifted (all_written (take (nat v) a))
              else lifted (rbind (written (snd (hd a))) (\<lambda>_. Inr []))) (\<lambda>xs.
         let ys = by_end xs in
         bnd (put_line (dec (if v < 0 then 1 else int (show_count ys)))) (\<lambda>_.
           shows_loop k (n, map (\<lambda>(s, e). (Some s, Some e)) ys @ drop (length ys) a)))))))"

definition main_J :: "(tio, unit) op" where
  "main_J = bnd (getting unread) (\<lambda>xs. shows_loop (Suc (length xs)) (None, replicate 1000 (None, None)))"

section \<open>The most programmes\<close>

text \<open>Programmes one after the other, each begun when the one before is over.\<close>

fun watchable :: "int \<Rightarrow> jiemu list \<Rightarrow> bool" where
  "watchable e [] \<longleftrightarrow> True"
| "watchable e (y # ys) \<longleftrightarrow> e \<le> fst y \<and> watchable (snd y) ys"

definition one_by_one :: "jiemu list \<Rightarrow> bool" where
  "one_by_one ys \<longleftrightarrow> ys = [] \<or> watchable (fst (hd ys)) ys"

definition most_shows :: "jiemu list \<Rightarrow> nat" where
  "most_shows xs = (GREATEST k. \<exists>ys. mset ys \<subseteq># mset xs \<and> one_by_one ys \<and> length ys = k)"

lemma watchable_mono: "watchable e ys \<Longrightarrow> e' \<le> e \<Longrightarrow> watchable e' ys"
  by (cases ys) auto

lemma watchable_later: "watchable e ys \<Longrightarrow> \<forall>y \<in> set ys. fst y < snd y \<Longrightarrow> y \<in> set ys \<Longrightarrow> e \<le> fst y"
  by (induction ys arbitrary: e) force+

lemma subset_without:
  assumes "A \<subseteq># add_mset x B" "x \<notin># A"
  shows "A \<subseteq># B"
proof (rule mset_subset_eqI)
  fix a
  show "count A a \<le> count B a"
    using assms(2) mset_subset_eq_count [OF assms(1), of a] by (cases "a = x") (simp_all add: not_in_iff)
qed

text \<open>No choice is longer than the greedy one.\<close>

lemma watched_best:
  "sorted (map snd xs) \<Longrightarrow> \<forall>x \<in> set xs. fst x < snd x \<Longrightarrow> mset ys \<subseteq># mset xs \<Longrightarrow> watchable e ys
   \<Longrightarrow> length ys \<le> watched xs e"
proof (induction xs arbitrary: ys e)
  case (Cons x xs)
  show ?case
  proof (cases ys)
    case (Cons y zs)
    have sub: "set ys \<subseteq> set (x # xs)" using Cons.prems(3) by (metis set_mset_mono set_mset_mset)
    have first: "snd x \<le> snd y" using sub Cons.prems(1) \<open>ys = y # zs\<close> by auto
    show ?thesis
    proof (cases "x \<in> set ys")
      case True
      have "y = x"
      proof (rule ccontr)
        assume "y \<noteq> x"
        with True \<open>ys = y # zs\<close> have "x \<in> set zs" by simp
        moreover have "watchable (snd y) zs" "\<forall>z \<in> set zs. fst z < snd z"
          using Cons.prems(2,4) sub \<open>ys = y # zs\<close> by auto
        ultimately have "snd y \<le> fst x" using watchable_later by blast
        moreover have "fst x < snd x" using Cons.prems(2) by simp
        ultimately show False using first by simp
      qed
      with Cons.prems \<open>ys = y # zs\<close> show ?thesis using Cons.IH [of zs "snd x"] by auto
    next
      case False
      have "mset ys \<subseteq># mset xs"
      proof -
        have "mset ys \<subseteq># add_mset x (mset xs)" using Cons.prems(3) by simp
        moreover have "x \<notin># mset ys" using False by simp
        ultimately show ?thesis by (rule subset_without)
      qed
      then have sub: "mset zs \<subseteq># mset xs" "mset ys \<subseteq># mset xs"
        using \<open>ys = y # zs\<close> by (auto intro: subset_mset.order_trans [OF _ \<open>mset ys \<subseteq># mset xs\<close>])
      show ?thesis
      proof (cases "e \<le> fst x")
        case True
        have "watchable (snd x) zs" using Cons.prems(4) first \<open>ys = y # zs\<close> by (auto intro: watchable_mono)
        with Cons.IH [OF _ _ sub(1)] Cons.prems(1,2) True \<open>ys = y # zs\<close> show ?thesis by simp
      next
        case False
        with Cons.IH [OF _ _ sub(2) Cons.prems(4)] Cons.prems(1,2) show ?thesis by simp
      qed
    qed
  qed simp
qed simp

text \<open>And the greedy one is a choice.\<close>

lemma watched_way: "\<exists>ys. mset ys \<subseteq># mset xs \<and> watchable e ys \<and> length ys = watched xs e"
proof (induction xs arbitrary: e)
  case Nil
  show ?case by (rule exI [of _ "[]"]) simp
next
  case (Cons x xs)
  obtain ys where ys: "mset ys \<subseteq># mset xs" "watchable (snd x) ys" "length ys = watched xs (snd x)" using Cons by blast
  obtain zs where zs: "mset zs \<subseteq># mset xs" "watchable e zs" "length zs = watched xs e" using Cons by blast
  show ?case
  proof (cases "e \<le> fst x")
    case True
    with ys show ?thesis by (intro exI [of _ "x # ys"]) simp
  next
    case False
    with zs show ?thesis by (intro exI [of _ zs]) (auto intro: subset_mset.order_trans)
  qed
qed

lemma most_shows_greedy:
  assumes "sorted (map snd xs)" "\<forall>x \<in> set xs. fst x < snd x" "xs \<noteq> []"
  shows "most_shows xs = show_count xs"
  unfolding most_shows_def
proof (rule Greatest_equality)
  obtain x xs' where xs: "xs = x # xs'" using assms(3) by (cases xs) auto
  obtain ys where "mset ys \<subseteq># mset xs'" "watchable (snd x) ys" "length ys = watched xs' (snd x)"
    using watched_way by blast
  then show "\<exists>ys. mset ys \<subseteq># mset xs \<and> one_by_one ys \<and> length ys = show_count xs"
    by (intro exI [of _ "x # ys"]) (simp add: xs one_by_one_def show_count_def)
  fix k
  assume "\<exists>ys. mset ys \<subseteq># mset xs \<and> one_by_one ys \<and> length ys = k"
  then obtain ys where ys: "mset ys \<subseteq># mset xs" "one_by_one ys" "length ys = k" by blast
  let ?e = "min (fst (hd ys)) (fst x)"
  have "watchable ?e ys" using ys(2) by (auto simp: one_by_one_def intro: watchable_mono)
  from watched_best [OF assms(1,2) ys(1) this] show "k \<le> show_count xs" by (simp add: xs ys(3) show_count_def)
qed

lemma most_shows_mset: "mset xs = mset xs' \<Longrightarrow> most_shows xs = most_shows xs'"
  by (simp add: most_shows_def)

lemma by_end_sorts: "sorted (map snd (by_end xs)) \<and> mset (by_end xs) = mset xs"
  unfolding by_end_def by (rule bubble_sorts) auto

section \<open>The run of \<open>2_J.c\<close>\<close>

definition show_numbers :: "jiemu list \<Rightarrow> int list" where
  "show_numbers xs = int (length xs) # concat (map (\<lambda>(s, e). [s, e]) xs)"

definition programme :: "jiemu list \<Rightarrow> bool" where
  "programme xs \<longleftrightarrow> xs \<noteq> [] \<and> length xs \<le> 1000
     \<and> (\<forall>x \<in> set xs. in_int 32 (fst x) \<and> in_int 32 (snd x) \<and> fst x < snd x)"

definition show_line :: "jiemu list \<Rightarrow> string" where
  "show_line xs = dec (int (most_shows xs)) @ [newline]"

definition put_show :: "nat \<Rightarrow> (int option \<times> int option) list \<Rightarrow> (tio, (int option \<times> int option) list) op" where
  "put_show i a =
     (if i < 1000 then
       bnd (read_number 32 (fst (a ! i))) (\<lambda>s. bnd (read_number 32 (snd (a ! i))) (\<lambda>e. retn (a[i := (s, e)])))
      else lifted (Inl Out_Of_Bounds))"

lemma put_shows_run:
  "length before + length xs \<le> 1000 \<Longrightarrow> \<forall>x \<in> set xs. in_int 32 (fst x) \<and> in_int 32 (snd x) \<Longrightarrow> length xs \<le> length a
   \<Longrightarrow> fold_op put_show [length before..<length before + length xs] (before @ a)
       \<lparr>unread = concat (map (\<lambda>(s, e). [s, e]) xs) @ r, answer = t\<rparr>
     = Inr (before @ map (\<lambda>(s, e). (Some s, Some e)) xs @ drop (length xs) a, \<lparr>unread = r, answer = t\<rparr>)"
proof (induction xs arbitrary: before a)
  case (Cons x xs)
  obtain s e where x: "x = (s, e)" by (cases x)
  obtain y b where a: "a = y # b" using Cons.prems(3) by (cases a) auto
  have "put_show (length before) (before @ a) \<lparr>unread = s # e # concat (map (\<lambda>(s, e). [s, e]) xs) @ r, answer = t\<rparr>
      = Inr ((before @ [(Some s, Some e)]) @ b, \<lparr>unread = concat (map (\<lambda>(s, e). [s, e]) xs) @ r, answer = t\<rparr>)"
    using Cons.prems(1,2) by (simp add: put_show_def op_simps x a)
  moreover have "[length before..<length before + length (x # xs)] = length before # [Suc (length before)..<length before + length (x # xs)]"
    by (rule upt_conv_Cons) simp
  moreover have "fold_op put_show [length (before @ [(Some s, Some e)])..<length (before @ [(Some s, Some e)]) + length xs]
       ((before @ [(Some s, Some e)]) @ b) \<lparr>unread = concat (map (\<lambda>(s, e). [s, e]) xs) @ r, answer = t\<rparr>
     = Inr ((before @ [(Some s, Some e)]) @ map (\<lambda>(s, e). (Some s, Some e)) xs @ drop (length xs) b, \<lparr>unread = r, answer = t\<rparr>)"
    by (rule Cons.IH) (use Cons.prems a in auto)
  ultimately show ?case by (simp add: x a op_simps)
qed (simp add: op_simps)

lemma read_shows_run:
  assumes "length xs \<le> 1000" "\<forall>x \<in> set xs. in_int 32 (fst x) \<and> in_int 32 (snd x)" "length a = 1000"
  shows "read_shows (length xs) a \<lparr>unread = concat (map (\<lambda>(s, e). [s, e]) xs) @ r, answer = t\<rparr>
    = Inr (map (\<lambda>(s, e). (Some s, Some e)) xs @ drop (length xs) a, \<lparr>unread = r, answer = t\<rparr>)"
proof -
  have "read_shows n a = fold_op put_show [0..<n] a" for n
    unfolding read_shows_def put_show_def [abs_def] ..
  with put_shows_run [of "[]" xs a r t] assms show ?thesis by simp
qed

lemma all_written_run: "all_written (map (\<lambda>(s, e). (Some s, Some e)) xs) = Inr xs"
proof -
  have "rfold (\<lambda>p xs. rbind (written (fst p)) (\<lambda>s. rbind (written (snd p)) (\<lambda>e. Inr (xs @ [(s, e)]))))
      (map (\<lambda>(s, e). (Some s, Some e)) xs) ys = Inr (ys @ xs)" for ys
    by (induction xs arbitrary: ys) (auto simp: written_def)
  from this [of "[]"] show ?thesis by (simp add: all_written_def)
qed

lemma shows_loop_run:
  "\<forall>p \<in> set ps. programme p \<Longrightarrow> length a = 1000 \<Longrightarrow> length ps < k
   \<Longrightarrow> shows_loop k (old, a) \<lparr>unread = concat (map show_numbers ps) @ 0 # r, answer = t\<rparr>
     = Inr ((), \<lparr>unread = r, answer = t @ concat (map show_line ps)\<rparr>)"
proof (induction ps arbitrary: k old a t)
  case Nil
  then obtain j where "k = Suc j" by (cases k) auto
  moreover have "in_int 32 0" by (simp add: in_int_def)
  ultimately show ?case by (simp add: op_simps written_def)
next
  case (Cons p ps)
  obtain j where k: "k = Suc j" "length ps < j" using Cons.prems(3) by (cases k) auto
  have p: "p \<noteq> []" "length p \<le> 1000" "\<forall>x \<in> set p. in_int 32 (fst x) \<and> in_int 32 (snd x)" "\<forall>x \<in> set p. fst x < snd x"
    using Cons.prems(1) by (auto simp: programme_def)
  have size: "in_int 32 (int (length p))" "length p \<noteq> 0" using p(1,2) by (auto simp: in_int_def)
  note sorted = by_end_sorts [of p]
  have "by_end p \<noteq> []" using sorted p(1) by (metis mset_zero_iff)
  moreover have "\<forall>x \<in> set (by_end p). fst x < snd x" using sorted p(4) by (metis set_mset_mset)
  ultimately have best: "most_shows p = show_count (by_end p)"
    using sorted by (metis most_shows_greedy most_shows_mset)
  have len: "length (by_end p) = length p" using sorted by (metis size_mset)
  let ?a = "map (\<lambda>(s, e). (Some s, Some e)) (by_end p) @ drop (length p) (map (\<lambda>(s, e). (Some s, Some e)) p @ drop (length p) a)"
  have "shows_loop j (Some (int (length p)), ?a) \<lparr>unread = concat (map show_numbers ps) @ 0 # r, answer = t @ show_line p\<rparr>
      = Inr ((), \<lparr>unread = r, answer = (t @ show_line p) @ concat (map show_line ps)\<rparr>)"
    by (rule Cons.IH) (use Cons.prems(1,2) k(2) len p(2) in auto)
  then show ?case
    using size best len
    by (simp add: k(1) show_numbers_def [of p] bnd_def op_simps written_def all_written_run show_line_def [of p] Let_def
        read_shows_run [OF p(2,3) Cons.prems(2)])
qed

text \<open>
  C30: \<open>2_J.c\<close> prints for each list of 1 to 1000 programmes, each starting before it ends and both times ints, the most that
  can be watched whole, and ends when it reads 0.
\<close>

theorem most_programmes:
  assumes "\<forall>p \<in> set ps. programme p"
  shows "main_J (asked (concat (map show_numbers ps) @ 0 # r)) = Inr ((), \<lparr>unread = r, answer = concat (map show_line ps)\<rparr>)"
proof -
  have "length ps \<le> length (concat (map show_numbers ps))" by (induction ps) (simp_all add: show_numbers_def)
  then have "shows_loop (Suc (length (concat (map show_numbers ps) @ 0 # r))) (None, replicate 1000 (None, None))
      \<lparr>unread = concat (map show_numbers ps) @ 0 # r, answer = []\<rparr>
    = Inr ((), \<lparr>unread = r, answer = [] @ concat (map show_line ps)\<rparr>)"
    by (intro shows_loop_run assms) simp_all
  then show ?thesis by (simp add: main_J_def asked_def op_simps del: shows_loop.simps)
qed

theorem most_programmes_witness:
  "main_J (asked [3, 1, 3, 2, 4, 3, 5, 0]) = Inr ((), \<lparr>unread = [], answer = dec 2 @ [newline]\<rparr>)"
proof -
  have "most_shows [(1, 3), (2, 4), (3, 5)] = 2"
    by (subst most_shows_greedy) (simp_all add: show_count_def)
  then show ?thesis
    using most_programmes [of "[[(1, 3), (2, 4), (3, 5)]]" "[]"]
    by (simp add: programme_def in_int_def show_numbers_def show_line_def)
qed

end
