(* ===== verification/Sol_Search.thy ===== *)
theory Sol_Search
  imports Sol_Io
begin

text \<open>
  The fewest lines to write: with \<open>v\<close> lines, a program of \<open>v + v/k + v/k/k + ...\<close> lines gets done. Two binary
  searches, \<open>Solution/huqingwei/week1/1_G.c\<close> and \<open>Solution/wuxinyue/week1G.c\<close>, find the least \<open>v\<close>.
\<close>

section \<open>\<open>1_G.c\<close>\<close>

text \<open>\<open>while (v)\<close>\<close>

partial_function (option) wancheng_loop :: "int \<Rightarrow> int \<Rightarrow> int \<Rightarrow> int result option" where
  "wancheng_loop k v worked =
     (if v \<noteq> 0 then
        (case rbind (c_div 32 v k) (\<lambda>d. rbind (arith 32 (worked + d)) (\<lambda>w. Inr (d, w))) of
           Inl e \<Rightarrow> Some (Inl e)
         | Inr (d, w) \<Rightarrow> wancheng_loop k d w)
      else Some (Inr worked))"

definition wancheng :: "int \<Rightarrow> int \<Rightarrow> int \<Rightarrow> bool result" where
  "wancheng n k v = rbind (returning (wancheng_loop k v v)) (\<lambda>worked. Inr (worked \<ge> n))"

text \<open>\<open>while (head <= tail)\<close>; \<open>mid\<close> is half of an \<open>int\<close>, so the numbers next to it are too.\<close>

partial_function (option) search_G :: "int \<Rightarrow> int \<Rightarrow> int \<Rightarrow> int \<Rightarrow> int result option" where
  "search_G n k head tail =
     (if head \<le> tail then
        (case rbind (arith 32 (head + tail)) (\<lambda>s. rbind (c_div 32 s 2) (\<lambda>mid.
           rbind (wancheng n k mid) (\<lambda>b. Inr (mid, b)))) of
           Inl e \<Rightarrow> Some (Inl e)
         | Inr (mid, b) \<Rightarrow> if b then search_G n k head (mid - 1) else search_G n k (mid + 1) tail)
      else Some (Inr head))"

definition main_G :: "(tio, unit) op" where
  "main_G =
     bnd (read_number 32 None) (\<lambda>n. bnd (read_number 32 None) (\<lambda>k.
     bnd (lifted (rbind (written n) (\<lambda>n. rbind (written k) (\<lambda>k. returning (search_G n k 1 n))))) (\<lambda>head.
     put_line (dec head))))"

section \<open>\<open>week1G.c\<close>\<close>

partial_function (option) area_loop :: "int \<Rightarrow> int \<Rightarrow> int \<Rightarrow> int \<Rightarrow> int \<Rightarrow> int result option" where
  "area_loop c k num amount a =
     (case c_div 32 num a of
        Inl e \<Rightarrow> Some (Inl e)
      | Inr d \<Rightarrow>
          if d \<noteq> 0 \<and> amount < c then
            (case rbind (arith 32 (amount + d)) (\<lambda>s. rbind (arith 32 (a * k)) (\<lambda>a'. Inr (s, a'))) of
               Inl e \<Rightarrow> Some (Inl e)
             | Inr (s, a') \<Rightarrow> area_loop c k num s a')
          else Some (Inr amount))"

definition area :: "int \<Rightarrow> int \<Rightarrow> int \<Rightarrow> int result" where
  "area c k num = rbind (returning (area_loop c k num num k)) (\<lambda>amount. Inr (if amount \<ge> c then num else 0))"

text \<open>\<open>while (i <= n)\<close>; \<open>t\<close> and \<open>mid\<close> are of the last round.\<close>

partial_function (option) search_W :: "int \<Rightarrow> int \<Rightarrow> int \<Rightarrow> int \<Rightarrow> (int \<times> int) option \<Rightarrow> (int \<times> int) option result option" where
  "search_W c k i n found =
     (if i \<le> n then
        (case rbind (arith 32 (i + n)) (\<lambda>s. rbind (c_div 32 s 2) (\<lambda>mid. rbind (area c k mid) (\<lambda>t. Inr (mid, t)))) of
           Inl e \<Rightarrow> Some (Inl e)
         | Inr (mid, t) \<Rightarrow>
             if t > 0 then search_W c k i (mid - 1) (Some (t, mid)) else search_W c k (mid + 1) n (Some (t, mid)))
      else Some (Inr found))"

text \<open>\<open>c\<close> and \<open>k\<close> are global and 0 when nothing is read.\<close>

definition main_week1G :: "(tio, unit) op" where
  "main_week1G =
     bnd (read_number 32 (Some 0)) (\<lambda>c. bnd (read_number 32 (Some 0)) (\<lambda>k.
     bnd (lifted (rbind (written c) (\<lambda>c. rbind (written k) (\<lambda>k.
       rbind (returning (search_W c k 0 c None)) written)))) (\<lambda>(t, mid).
     put_line (dec (if t = 0 then mid + 1 else mid)))))"

section \<open>The least number of lines\<close>

definition lines :: "nat \<Rightarrow> nat \<Rightarrow> nat" where
  "lines k v = (\<Sum>i\<le>v. v div k ^ i)"

definition least_lines :: "nat \<Rightarrow> nat \<Rightarrow> nat" where
  "least_lines n k = (LEAST v. n \<le> lines k v)"

lemma power_beyond: "2 \<le> k \<Longrightarrow> v < k ^ v" for k v :: nat
  by (metis less_exp order_less_le_trans power_mono zero_le)

lemma lines_longer:
  assumes "2 \<le> k" "v \<le> m"
  shows "(\<Sum>i\<le>m. v div k ^ i) = lines k v"
  unfolding lines_def
proof (rule sum.mono_neutral_right)
  show "\<forall>i \<in> {..m} - {..v}. v div k ^ i = 0"
  proof
    fix i
    assume "i \<in> {..m} - {..v}"
    then have "k ^ v \<le> k ^ i" using assms(1) by (intro power_increasing) auto
    then have "v < k ^ i" using power_beyond [OF assms(1)] by (rule order_less_le_trans [rotated])
    then show "v div k ^ i = 0" by simp
  qed
qed (use assms(2) in auto)

lemma lines_step: "2 \<le> k \<Longrightarrow> lines k v = v + lines k (v div k)"
proof (cases v)
  case (Suc u)
  assume k: "2 \<le> k"
  have "lines k v = v + (\<Sum>i\<le>u. v div k ^ Suc i)"
    unfolding lines_def Suc by (subst sum.atMost_Suc_shift) simp
  also have "(\<Sum>i\<le>u. v div k ^ Suc i) = (\<Sum>i\<le>u. v div k div k ^ i)" by (simp add: div_mult2_eq)
  also have "\<dots> = lines k (v div k)"
  proof (rule lines_longer [OF k])
    have "v div k < v" using k Suc by (intro div_less_dividend) auto
    then show "v div k \<le> u" using Suc by simp
  qed
  finally show ?thesis .
qed (simp add: lines_def)

lemma lines_mono: "2 \<le> k \<Longrightarrow> v \<le> w \<Longrightarrow> lines k v \<le> lines k w"
proof -
  assume k: "2 \<le> k" and vw: "v \<le> w"
  have "lines k v = (\<Sum>i\<le>w. v div k ^ i)" using lines_longer [OF k vw] by simp
  also have "\<dots> \<le> lines k w" unfolding lines_def by (intro sum_mono div_le_mono vw)
  finally show ?thesis .
qed

lemma lines_at_least: "v \<le> lines k v"
  unfolding lines_def by (rule order_trans [OF _ member_le_sum [of 0]]) auto

lemma lines_at_most: "2 \<le> k \<Longrightarrow> lines k v \<le> 2 * v"
proof (induction v rule: less_induct)
  case (less v)
  show ?case
  proof (cases "v = 0")
    case False
    then have "v div k < v" using less.prems by (intro div_less_dividend) auto
    with less have "lines k (v div k) \<le> 2 * (v div k)" by simp
    moreover have "2 * (v div k) \<le> v" using less.prems by (metis mult.commute order_trans times_div_less_eq_dividend mult_le_mono2)
    ultimately show ?thesis using lines_step [OF less.prems, of v] by simp
  qed (simp add: lines_def)
qed

text \<open>What the searches have found out when they end.\<close>

lemma least_found:
  assumes "2 \<le> k" "\<forall>u < h. lines k u < n" "n \<le> lines k h"
  shows "least_lines n k = h"
  unfolding least_lines_def
  by (rule Least_equality) (use assms in \<open>auto simp: not_less [symmetric]\<close>)

section \<open>The runs\<close>

lemma small_in_int: "0 \<le> x \<Longrightarrow> x < 2147483648 \<Longrightarrow> in_int 32 x"
  by (simp add: in_int_def)

lemma wancheng_loop_run:
  "2 \<le> k \<Longrightarrow> k < 2147483648 \<Longrightarrow> w + lines k v < 2147483648 + v
   \<Longrightarrow> wancheng_loop (int k) (int v) (int w) = Some (Inr (int (w + lines k v - v)))"
proof (induction v arbitrary: w rule: less_induct)
  case (less v)
  show ?case
  proof (cases "v = 0")
    case True
    then show ?thesis by (subst wancheng_loop.simps) (simp add: lines_def)
  next
    case False
    let ?d = "v div k"
    have d: "?d < v" using less.prems(1) False by (intro div_less_dividend) auto
    have step: "lines k v = v + lines k ?d" using lines_step [OF less.prems(1)] .
    have "?d \<le> lines k ?d" by (rule lines_at_least)
    then have room: "w + ?d < 2147483648" "w + ?d + lines k ?d < 2147483648 + ?d" using less.prems(3) step by auto
    have "c_div 32 (int v) (int k) = Inr (int ?d)" if "v < 2147483648"
      using that less.prems(1) by (simp add: c_div_run small_in_int zdiv_int)
    moreover have "c_div 32 (int v) (int k) = Inr (int ?d)"
    proof -
      have "in_int 32 (int ?d)" using room(1) by (simp add: in_int_def)
      then show ?thesis using less.prems(1) by (simp add: c_div_def arith_def zdiv_int)
    qed
    moreover have "arith 32 (int w + int ?d) = Inr (int (w + ?d))" using room(1) by (simp add: arith_run small_in_int)
    moreover have "wancheng_loop (int k) (int ?d) (int (w + ?d)) = Some (Inr (int (w + ?d + lines k ?d - ?d)))"
      by (rule less.IH [OF d less.prems(1,2) room(2)])
    ultimately show ?thesis using False step by (subst wancheng_loop.simps) simp
  qed
qed

lemma wancheng_run:
  assumes "2 \<le> k" "k < 2147483648" "2 * v < 2147483648"
  shows "wancheng (int n) (int k) (int v) = Inr (n \<le> lines k v)"
proof -
  have "v + lines k v < 2147483648 + v" using lines_at_most [OF assms(1), of v] assms(3) by simp
  from wancheng_loop_run [OF assms(1,2) this] show ?thesis by (simp add: wancheng_def op_simps)
qed

lemma middle:
  assumes "h \<le> t + 1" "h < 2147483648" "2 * t < 2147483648" "int h \<le> int t"
  shows "rbind (arith 32 (int h + int t)) (\<lambda>s. rbind (c_div 32 s 2) f) = f (int ((h + t) div 2))"
proof -
  have "in_int 32 (int (h + t))" using assms by (intro small_in_int) auto
  then show ?thesis by (simp add: arith_run c_div_run zdiv_int)
qed

lemma search_G_run:
  assumes "2 \<le> k" "k < 2147483648" "2 * n < 2147483648"
  shows "\<forall>u < h. lines k u < n \<Longrightarrow> \<forall>u > t. n \<le> lines k u \<Longrightarrow> h \<le> t + 1 \<Longrightarrow> t \<le> n \<Longrightarrow> 1 \<le> h
    \<Longrightarrow> search_G (int n) (int k) (int h) (int t) = Some (Inr (int (least_lines n k)))"
proof (induction "t + 1 - h" arbitrary: h t rule: less_induct)
  case less
  show ?case
  proof (cases "h \<le> t")
    case False
    then have "least_lines n k = h" using less.prems by (intro least_found [OF assms(1)]) auto
    with False show ?thesis by (subst search_G.simps) simp
  next
    case True
    let ?m = "(h + t) div 2"
    have m: "h \<le> ?m" "?m \<le> t" using True by auto
    have w: "wancheng (int n) (int k) (int ?m) = Inr (n \<le> lines k ?m)"
      by (rule wancheng_run [OF assms(1,2)]) (use m less.prems(4) assms(3) in auto)
    have mid: "rbind (arith 32 (int h + int t)) (\<lambda>s. rbind (c_div 32 s 2) f) = f (int ?m)" for f :: "int \<Rightarrow> (int \<times> bool) result"
      by (rule middle) (use True less.prems(4) assms(3) in auto)
    show ?thesis
    proof (cases "n \<le> lines k ?m")
      case yes: True
      have ge: "\<forall>u > ?m - 1. n \<le> lines k u"
      proof (intro allI impI)
        fix u
        assume "u > ?m - 1"
        then have "?m \<le> u" by simp
        from lines_mono [OF assms(1) this] yes show "n \<le> lines k u" by simp
      qed
      have "search_G (int n) (int k) (int h) (int (?m - 1)) = Some (Inr (int (least_lines n k)))"
        by (rule less.hyps) (use ge m less.prems True in auto)
      moreover have "int (?m - 1) = int ?m - 1" using m less.prems(5) by simp
      ultimately show ?thesis using True yes w mid by (subst search_G.simps) simp
    next
      case no: False
      have lt: "\<forall>u < ?m + 1. lines k u < n"
      proof (intro allI impI)
        fix u
        assume "u < ?m + 1"
        then have "u \<le> ?m" by simp
        from lines_mono [OF assms(1) this] no show "lines k u < n" by simp
      qed
      have "search_G (int n) (int k) (int (?m + 1)) (int t) = Some (Inr (int (least_lines n k)))"
        by (rule less.hyps) (use lt m less.prems True in auto)
      then have "search_G (int n) (int k) (int ?m + 1) (int t) = Some (Inr (int (least_lines n k)))" by (simp add: add.commute)
      then show ?thesis using True no w mid by (subst search_G.simps) simp
    qed
  qed
qed

text \<open>The loop of \<open>area\<close> leaves off when the sum is enough; the rest of the sum is \<open>lines k (num div a)\<close>.\<close>

lemma area_loop_run:
  assumes "2 \<le> k" "c * k < 2147483648" "num \<le> c"
  shows "1 \<le> a \<Longrightarrow> s < 2147483648
    \<Longrightarrow> \<exists>r. area_loop (int c) (int k) (int num) (int s) (int a) = Some (Inr (int r)) \<and> (c \<le> r \<longleftrightarrow> c \<le> s + lines k (num div a))"
proof (induction "num div a" arbitrary: a s rule: less_induct)
  case less
  let ?d = "num div a"
  have "c \<le> c * k" "c * 2 \<le> c * k" using assms(1) by auto
  then have c: "num < 2147483648" "2 * c < 2147483648" using assms(2,3) by linarith+
  have d: "c_div 32 (int num) (int a) = Inr (int ?d)" using c less.prems(1) by (simp add: c_div_run small_in_int zdiv_int)
  have dn: "?d \<le> num" by simp
  show ?case
  proof (cases "?d = 0 \<or> c \<le> s")
    case True
    then show ?thesis using d by (subst area_loop.simps) (auto simp: lines_def)
  next
    case False
    have step: "lines k ?d = ?d + lines k (num div (a * k))" using lines_step [OF assms(1), of ?d] by (simp add: div_mult2_eq)
    have "a \<le> num" using False by (metis div_less not_less)
    then have "a * k \<le> c * k" using assms(3) by simp
    then have ak: "a * k < 2147483648" using assms(2) by linarith
    have "s + ?d < 2147483648" using False dn c assms(3) by linarith
    then have sd: "arith 32 (int s + int ?d) = Inr (int (s + ?d))" "s + ?d < 2147483648" by (simp_all add: arith_run small_in_int)
    have "num div (a * k) < ?d" using False assms(1) by (simp add: div_mult2_eq)
    moreover have "1 \<le> a * k" using less.prems(1) assms(1) by simp
    ultimately obtain r where "area_loop (int c) (int k) (int num) (int (s + ?d)) (int (a * k)) = Some (Inr (int r))"
      "c \<le> r \<longleftrightarrow> c \<le> s + ?d + lines k (num div (a * k))"
      using less.hyps sd(2) by blast
    moreover have "arith 32 (int a * int k) = Inr (int (a * k))"
      using arith_run [OF small_in_int, of "int (a * k)"] ak by (simp flip: of_nat_mult)
    ultimately show ?thesis using False d sd(1) step by (subst area_loop.simps) (auto simp: add.assoc)
  qed
qed

lemma area_run:
  assumes "2 \<le> k" "c * k < 2147483648" "num \<le> c"
  shows "area (int c) (int k) (int num) = Inr (if c \<le> lines k num then int num else 0)"
proof -
  have "c \<le> c * k" using assms(1) by simp
  then have "num < 2147483648" using assms(2,3) by linarith
  then obtain r where "area_loop (int c) (int k) (int num) (int num) (int k) = Some (Inr (int r))"
    "c \<le> r \<longleftrightarrow> c \<le> num + lines k (num div k)"
    using area_loop_run [OF assms, of k num] assms(1) by auto
  then show ?thesis using lines_step [OF assms(1), of num] by (simp add: area_def op_simps)
qed

text \<open>What the last round has left: the answer is \<open>mid + 1\<close> after a 0, else \<open>mid\<close>.\<close>

definition shown :: "int \<times> int \<Rightarrow> int" where
  "shown = (\<lambda>(t, mid). if t = 0 then mid + 1 else mid)"

lemma search_W_run:
  assumes "2 \<le> k" "n * k < 2147483648" "1 \<le> n"
  shows "\<forall>u < h. lines k u < n \<Longrightarrow> \<forall>u > t. n \<le> lines k u \<Longrightarrow> h \<le> t + 1 \<Longrightarrow> t \<le> n
    \<Longrightarrow> h \<le> t \<or> (\<exists>x. found = Some x \<and> shown x = int h)
    \<Longrightarrow> \<exists>x. search_W (int n) (int k) (int h) (int t) found = Some (Inr (Some x)) \<and> shown x = int (least_lines n k)"
proof (induction "t + 1 - h" arbitrary: h t found rule: less_induct)
  case less
  have "n * 2 \<le> n * k" using assms(1) by simp
  then have n: "2 * n < 2147483648" using assms(2) by linarith
  show ?case
  proof (cases "h \<le> t")
    case False
    then have "least_lines n k = h" using less.prems by (intro least_found [OF assms(1)]) auto
    with False less.prems(5) show ?thesis by (subst search_W.simps) auto
  next
    case True
    let ?m = "(h + t) div 2"
    have m: "h \<le> ?m" "?m \<le> t" using True by auto
    have w: "area (int n) (int k) (int ?m) = Inr (if n \<le> lines k ?m then int ?m else 0)"
      by (rule area_run [OF assms(1,2)]) (use m less.prems(4) in auto)
    have mid: "rbind (arith 32 (int h + int t)) (\<lambda>s. rbind (c_div 32 s 2) f) = f (int ?m)" for f :: "int \<Rightarrow> (int \<times> int) result"
      by (rule middle) (use True less.prems(4) n in auto)
    show ?thesis
    proof (cases "n \<le> lines k ?m")
      case yes: True
      have pos: "1 \<le> ?m"
      proof (rule ccontr)
        assume "\<not> 1 \<le> ?m"
        then have "?m = 0" by simp
        with yes assms(3) show False by (simp add: lines_def)
      qed
      have ge: "\<forall>u > ?m - 1. n \<le> lines k u"
      proof (intro allI impI)
        fix u
        assume "u > ?m - 1"
        then have "?m \<le> u" by simp
        from lines_mono [OF assms(1) this] yes show "n \<le> lines k u" by simp
      qed
      have shown: "h \<le> ?m - 1 \<or> (\<exists>x. Some (int ?m, int ?m) = Some x \<and> shown x = int h)"
        using m(1) pos by (auto simp: shown_def)
      have "\<exists>x. search_W (int n) (int k) (int h) (int (?m - 1)) (Some (int ?m, int ?m)) = Some (Inr (Some x))
        \<and> shown x = int (least_lines n k)"
        by (rule less.hyps [OF _ less.prems(1) ge _ _ shown]) (use pos m less.prems(4) True in auto)
      moreover have "int (?m - 1) = int ?m - 1" using pos by simp
      ultimately show ?thesis using True yes w mid pos by (subst search_W.simps) simp
    next
      case no: False
      have lt: "\<forall>u < ?m + 1. lines k u < n"
      proof (intro allI impI)
        fix u
        assume "u < ?m + 1"
        then have "u \<le> ?m" by simp
        from lines_mono [OF assms(1) this] no show "lines k u < n" by simp
      qed
      have shown: "?m + 1 \<le> t \<or> (\<exists>x. Some (0, int ?m) = Some x \<and> shown x = int (?m + 1))"
        by (simp add: shown_def)
      have "\<exists>x. search_W (int n) (int k) (int (?m + 1)) (int t) (Some (0, int ?m)) = Some (Inr (Some x))
        \<and> shown x = int (least_lines n k)"
        by (rule less.hyps [OF _ lt less.prems(2) _ _ shown]) (use m less.prems(4) True in auto)
      then have "\<exists>x. search_W (int n) (int k) (int ?m + 1) (int t) (Some (0, int ?m)) = Some (Inr (Some x))
        \<and> shown x = int (least_lines n k)" by (simp add: add.commute)
      then show ?thesis using True no w mid by (subst search_W.simps) simp
    qed
  qed
qed

section \<open>The answers\<close>

text \<open>With as many lines as there are to write, the work is done.\<close>

lemma enough_lines: "2 \<le> k \<Longrightarrow> n < u \<Longrightarrow> n \<le> lines k u"
  using lines_at_least [of u k] by simp

lemma main_G_run:
  assumes "2 \<le> k" "k < 2147483648" "2 * n < 2147483648" "1 \<le> n"
  shows "main_G (asked [int n, int k]) = Inr ((), \<lparr>unread = [], answer = dec (int (least_lines n k)) @ [newline]\<rparr>)"
proof -
  have "in_int 32 (int n)" "in_int 32 (int k)" using assms by (auto intro: small_in_int)
  moreover have "search_G (int n) (int k) (int 1) (int n) = Some (Inr (int (least_lines n k)))"
    by (rule search_G_run [OF assms(1-3)]) (use assms(1,4) enough_lines in \<open>auto simp: lines_def\<close>)
  ultimately show ?thesis by (simp add: main_G_def asked_def op_simps written_def)
qed

lemma main_week1G_run:
  assumes "2 \<le> k" "k < 2147483648" "n * k < 2147483648" "n < 2147483648" "1 \<le> n"
  shows "main_week1G (asked [int n, int k]) = Inr ((), \<lparr>unread = [], answer = dec (int (least_lines n k)) @ [newline]\<rparr>)"
proof -
  have int: "in_int 32 (int n)" "in_int 32 (int k)" using assms by (auto intro: small_in_int)
  have "\<exists>x. search_W (int n) (int k) (int 0) (int n) None = Some (Inr (Some x)) \<and> shown x = int (least_lines n k)"
    by (rule search_W_run [OF assms(1,3,5)]) (use assms(1) enough_lines in auto)
  then obtain t mid where "search_W (int n) (int k) 0 (int n) None = Some (Inr (Some (t, mid)))"
    "(if t = 0 then mid + 1 else mid) = int (least_lines n k)"
    by (auto simp: shown_def)
  with int show ?thesis by (simp add: main_week1G_def asked_def op_simps written_def)
qed

text \<open>
  C23: For \<open>n\<close> of 1 or more and \<open>k\<close> from 2 on, both ints, each of the two programs prints the least number of lines \<open>v\<close>
  for which \<open>v + v/k + v/k/k + ...\<close> is at least \<open>n\<close>: \<open>1_G.c\<close> when twice \<open>n\<close> fits into an int (the sum of the two
  ends of its search), and \<open>week1G.c\<close> when the product of \<open>n\<close> and \<open>k\<close> does.
\<close>

theorem fewest_lines:
  assumes "2 \<le> k" "k < 2 ^ 31" "1 \<le> n"
  shows "(2 * n < 2 ^ 31 \<longrightarrow>
        main_G (asked [int n, int k]) = Inr ((), \<lparr>unread = [], answer = dec (int (least_lines n k)) @ [newline]\<rparr>))
    \<and> (n * k < 2 ^ 31 \<longrightarrow>
        main_week1G (asked [int n, int k]) = Inr ((), \<lparr>unread = [], answer = dec (int (least_lines n k)) @ [newline]\<rparr>))"
proof (intro conjI impI)
  assume "2 * n < 2 ^ 31"
  with assms show "main_G (asked [int n, int k]) = Inr ((), \<lparr>unread = [], answer = dec (int (least_lines n k)) @ [newline]\<rparr>)"
    using main_G_run by simp
next
  assume p: "n * k < 2 ^ 31"
  from assms(1) have "n * 1 \<le> n * k" by (intro mult_le_mono2) simp
  from le_less_trans [OF this p] have "n < 2147483648" by simp
  with p assms show "main_week1G (asked [int n, int k]) = Inr ((), \<lparr>unread = [], answer = dec (int (least_lines n k)) @ [newline]\<rparr>)"
    using main_week1G_run by simp
qed

theorem fewest_lines_witness:
  "main_G (asked [20, 2]) = Inr ((), \<lparr>unread = [], answer = dec 12 @ [newline]\<rparr>)
   \<and> main_week1G (asked [20, 2]) = Inr ((), \<lparr>unread = [], answer = dec 12 @ [newline]\<rparr>)"
proof -
  have lines: "lines 2 11 = 19" "lines 2 12 = 22" by code_simp+
  have "\<forall>u < 12. lines 2 u < 20"
  proof (intro allI impI)
    fix u :: nat
    assume "u < 12"
    then show "lines 2 u < 20" using lines_mono [of 2 u 11] lines(1) by simp
  qed
  then have "least_lines 20 2 = 12" using lines(2) by (intro least_found) simp_all
  then show ?thesis using fewest_lines [of 2 20] by simp
qed

end
