(* ===== verification/Study_Dining.thy ===== *)
theory Study_Dining
  imports Prelude
begin

text \<open>
  The five philosophers of \<open>Code/huqingwei/test/zhexuejia.c\<close>: threads that take the left chopstick, try to take the
  right one, and put the left one back when they cannot. Each call on a mutex is one step, and the steps of the
  threads are interleaved in any order.
\<close>

section \<open>The threads\<close>

datatype phi = A | B | C | D | E

text \<open>\<open>get\<close>: the left and the right chopstick\<close>

fun get :: "phi \<Rightarrow> nat \<times> nat" where
  "get A = (5, 1)"
| "get B = (1, 2)"
| "get C = (2, 3)"
| "get D = (3, 4)"
| "get E = (4, 5)"

definition left :: "phi \<Rightarrow> nat" where
  "left p = fst (get p)"

definition right :: "phi \<Rightarrow> nat" where
  "right p = snd (get p)"

text \<open>
  Where a thread is in \<open>eat_think\<close>: before it locks the left one, before \<open>trylock\<close>, after \<open>EBUSY\<close>, with both,
  and with the right one only.
\<close>

datatype place = Thinking | Has_Left | Gives_Up | Eating | Left_Down

record table =
  chopstick :: "nat \<Rightarrow> phi option"
  at :: "phi \<Rightarrow> place"

definition lock :: "phi \<Rightarrow> nat \<Rightarrow> table \<Rightarrow> table" where
  "lock p c s = s\<lparr>chopstick := (chopstick s)(c := Some p)\<rparr>"

definition unlock :: "nat \<Rightarrow> table \<Rightarrow> table" where
  "unlock c s = s\<lparr>chopstick := (chopstick s)(c := None)\<rparr>"

definition go :: "phi \<Rightarrow> place \<Rightarrow> table \<Rightarrow> table" where
  "go p l s = s\<lparr>at := (at s)(p := l)\<rparr>"

text \<open>The next step of a thread; None when it waits for a mutex.\<close>

definition eat_think :: "phi \<Rightarrow> table \<Rightarrow> table option" where
  "eat_think p s =
     (case at s p of
        Thinking \<Rightarrow> if chopstick s (left p) = None then Some (go p Has_Left (lock p (left p) s)) else None
      | Has_Left \<Rightarrow>
          if chopstick s (right p) = None then Some (go p Eating (lock p (right p) s)) else Some (go p Gives_Up s)
      | Gives_Up \<Rightarrow> Some (go p Thinking (unlock (left p) s))
      | Eating \<Rightarrow> Some (go p Left_Down (unlock (left p) s))
      | Left_Down \<Rightarrow> Some (go p Thinking (unlock (right p) s)))"

definition table0 :: table where
  "table0 = \<lparr>chopstick = (\<lambda>_. None), at = (\<lambda>_. Thinking)\<rparr>"

inductive dine :: "table \<Rightarrow> table \<Rightarrow> bool" where
  step: "eat_think p s = Some t \<Longrightarrow> dine s t"

definition dinner :: "table \<Rightarrow> bool" where
  "dinner s \<longleftrightarrow> dine\<^sup>*\<^sup>* table0 s"

text \<open>The threads make their steps in the order given.\<close>

fun in_turn :: "phi list \<Rightarrow> table \<Rightarrow> table option" where
  "in_turn [] s = Some s"
| "in_turn (p # ps) s = (case eat_think p s of None \<Rightarrow> None | Some t \<Rightarrow> in_turn ps t)"

section \<open>Who holds what\<close>

definition holds_left :: "place \<Rightarrow> bool" where
  "holds_left l \<longleftrightarrow> l = Has_Left \<or> l = Gives_Up \<or> l = Eating"

definition holds_right :: "place \<Rightarrow> bool" where
  "holds_right l \<longleftrightarrow> l = Eating \<or> l = Left_Down"

definition has :: "table \<Rightarrow> phi \<Rightarrow> nat \<Rightarrow> bool" where
  "has s p c \<longleftrightarrow> holds_left (at s p) \<and> c = left p \<or> holds_right (at s p) \<and> c = right p"

definition held_right :: "table \<Rightarrow> bool" where
  "held_right s \<longleftrightarrow> (\<forall>c p. chopstick s c = Some p \<longleftrightarrow> has s p c)"

lemma left_right [simp]: "left p \<noteq> right p" "right p \<noteq> left p"
  by (cases p; simp add: left_def right_def)+

lemma has_go: "has (go p l s) q c \<longleftrightarrow> (if q = p then holds_left l \<and> c = left p \<or> holds_right l \<and> c = right p else has s q c)"
  by (simp add: has_def go_def)

lemma locked: "has (lock p c s) = has s" "has (unlock c s) = has s" "at (lock p c s) = at s" "at (unlock c s) = at s"
  by (auto simp: has_def lock_def unlock_def fun_eq_iff)

lemma sticks: "chopstick (go p l s) = chopstick s" "chopstick (lock p c s) = (chopstick s)(c := Some p)"
  "chopstick (unlock c s) = (chopstick s)(c := None)"
  by (simp_all add: go_def lock_def unlock_def)

lemma held_right_step:
  assumes "held_right s" "eat_think p s = Some t"
  shows "held_right t"
proof -
  have s: "chopstick s c = Some q \<longleftrightarrow> has s q c" for c q using assms(1) by (simp add: held_right_def)
  have p: "has s p c \<longleftrightarrow> holds_left (at s p) \<and> c = left p \<or> holds_right (at s p) \<and> c = right p" for c by (simp add: has_def)
  have free: "chopstick s c = None \<Longrightarrow> \<not> has s q c" for c q using s by (metis option.distinct(1))
  have one: "has s p c \<Longrightarrow> has s q c \<Longrightarrow> q = p" for c q using s by (metis option.inject)
  show ?thesis
    unfolding held_right_def
  proof (intro allI)
    fix c q
    show "chopstick t c = Some q \<longleftrightarrow> has t q c"
      using assms(2) s [of c q] p [of c] p [of "left p"] p [of "right p"] free [of c q] one [of c q]
      by (cases "at s p") (auto simp: eat_think_def has_go locked sticks holds_left_def holds_right_def split: if_splits)
  qed
qed

lemma dinner_held: "dinner s \<Longrightarrow> held_right s"
proof -
  have "held_right table0" by (simp add: held_right_def has_def table0_def holds_left_def holds_right_def)
  moreover have "dine\<^sup>*\<^sup>* s t \<Longrightarrow> held_right s \<Longrightarrow> held_right t" for s t
    by (induction rule: rtranclp_induct) (auto elim!: dine.cases dest: held_right_step)
  ultimately show "dinner s \<Longrightarrow> held_right s" by (simp add: dinner_def)
qed

text \<open>
  Whoever eats has both chopsticks for itself: two who eat at the same time are not neighbours.
\<close>

theorem neighbours_never_eat_together:
  assumes "dinner s" "at s p = Eating" "at s q = Eating" "p \<noteq> q"
  shows "chopstick s (left p) = Some p \<and> chopstick s (right p) = Some p \<and> left p \<noteq> right q \<and> right p \<noteq> left q"
proof -
  have "chopstick s c = Some r" if "has s r c" for c r
    using dinner_held [OF assms(1)] that by (simp add: held_right_def)
  then have "chopstick s (left r) = Some r" "chopstick s (right r) = Some r" if "at s r = Eating" for r
    using that by (simp_all add: has_def holds_left_def holds_right_def)
  with assms(2-4) show ?thesis by (metis option.inject)
qed

lemma in_turn_dine: "in_turn ps s = Some t \<Longrightarrow> dine\<^sup>*\<^sup>* s t"
  by (induction ps arbitrary: s) (auto split: option.splits intro: converse_rtranclp_into_rtranclp dine.step)

theorem neighbours_never_eat_together_witness:
  "\<exists>s. dinner s \<and> at s A = Eating \<and> at s C = Eating \<and> chopstick s 5 = Some A \<and> right A \<noteq> left C"
proof -
  obtain s where s: "in_turn [A, C, A, C] table0 = Some s" "at s A = Eating" "at s C = Eating"
    by (simp add: eat_think_def go_def lock_def table0_def left_def right_def)
  have "dinner s" using in_turn_dine [OF s(1)] by (simp add: dinner_def)
  from neighbours_never_eat_together [OF this s(2,3)] s this show ?thesis by (auto simp: left_def)
qed

section \<open>Who will eat\<close>

definition next_phi :: "phi \<Rightarrow> phi" where
  "next_phi p = (case p of A \<Rightarrow> B | B \<Rightarrow> C | C \<Rightarrow> D | D \<Rightarrow> E | E \<Rightarrow> A)"

lemma next_left: "left q = right p \<longleftrightarrow> q = next_phi p"
  by (cases p; cases q) (simp_all add: left_def right_def next_phi_def)

text \<open>Those who can put chopsticks down do so.\<close>

definition settle :: "phi \<Rightarrow> table \<Rightarrow> table" where
  "settle p s = (if at s p = Gives_Up \<or> at s p = Left_Down then the (eat_think p s) else s)"

lemma settle_step: "dine\<^sup>*\<^sup>* s (settle p s)"
proof (cases "at s p = Gives_Up \<or> at s p = Left_Down")
  case True
  then have "eat_think p s = Some (settle p s)" by (auto simp: settle_def eat_think_def)
  then show ?thesis by (intro r_into_rtranclp dine.step)
qed (simp add: settle_def)

lemma settle_at: "at (settle p s) q = (if q = p \<and> (at s p = Gives_Up \<or> at s p = Left_Down) then Thinking else at s q)"
  by (auto simp: settle_def eat_think_def go_def unlock_def)

lemma all_settle:
  "\<exists>t. dine\<^sup>*\<^sup>* s t \<and> (\<forall>p. at t p \<in> {Thinking, Has_Left, Eating})"
proof (intro exI conjI)
  let ?t = "settle E (settle D (settle C (settle B (settle A s))))"
  show "dine\<^sup>*\<^sup>* s ?t" by (meson settle_step rtranclp_trans)
  show "\<forall>p. at ?t p \<in> {Thinking, Has_Left, Eating}"
  proof
    fix p
    show "at ?t p \<in> {Thinking, Has_Left, Eating}" by (cases p; cases "at s p") (simp_all add: settle_at)
  qed
qed

lemma held_dine: "dine\<^sup>*\<^sup>* s t \<Longrightarrow> held_right s \<Longrightarrow> held_right t"
  by (induction rule: rtranclp_induct) (auto elim!: dine.cases dest: held_right_step)

lemma one_takes_both:
  assumes "held_right s" "\<forall>p. at s p \<in> {Thinking, Has_Left}"
  shows "\<exists>t p. dine\<^sup>*\<^sup>* s t \<and> at t p = Eating"
proof -
  have has: "chopstick s c = Some q \<longleftrightarrow> at s q = Has_Left \<and> c = left q" for c q
  proof -
    have "at s q = Thinking \<or> at s q = Has_Left" using assms(2) by blast
    then show ?thesis using assms(1) by (auto simp: held_right_def has_def holds_left_def holds_right_def)
  qed
  have free: "chopstick s c = None" if "\<And>q. c = left q \<Longrightarrow> at s q = Thinking" for c
    using that has by (metis not_Some_eq place.distinct(1))
  consider (waits) p where "at s p = Has_Left" "at s (next_phi p) = Thinking"
    | (all) "\<forall>p. at s p = Has_Left" | (none) "\<forall>p. at s p = Thinking"
  proof -
    have two: "at s p = Thinking \<or> at s p = Has_Left" for p using assms(2) by blast
    show thesis
    proof (cases "\<exists>p. at s p = Has_Left \<and> at s (next_phi p) = Thinking")
      case False
      then have ring: "at s p = Has_Left \<Longrightarrow> at s (next_phi p) = Has_Left" for p using two by blast
      show ?thesis
      proof (cases "\<exists>p. at s p = Has_Left")
        case True
        then obtain p where p: "at s p = Has_Left" ..
        note ps = p ring [OF p] ring [OF ring [OF p]] ring [OF ring [OF ring [OF p]]] ring [OF ring [OF ring [OF ring [OF p]]]]
        have "at s q = Has_Left" for q using ps by (cases p; cases q) (simp_all add: next_phi_def)
        then show ?thesis using that(2) by blast
      next
        case False
        then have "at s q = Thinking" for q using two [of q] by auto
        then show ?thesis using that(3) by blast
      qed
    qed (use that(1) in blast)
  qed
  then show ?thesis
  proof cases
    case waits
    have "chopstick s (right p) = None" by (rule free) (use waits next_left in metis)
    then have "eat_think p s = Some (go p Eating (lock p (right p) s))" using waits(1) by (simp add: eat_think_def)
    then have "dine\<^sup>*\<^sup>* s (go p Eating (lock p (right p) s))" by (intro r_into_rtranclp dine.step)
    moreover have "at (go p Eating (lock p (right p) s)) p = Eating" by (simp add: go_def)
    ultimately show ?thesis by blast
  next
    case all
    have "chopstick s 1 = Some B" "chopstick s 5 = Some A" using all by (simp_all add: has left_def)
    with all obtain t where "in_turn [A, A, E] s = Some t" "at t E = Eating"
      by (simp add: eat_think_def go_def unlock_def lock_def left_def right_def)
    then show ?thesis using in_turn_dine by blast
  next
    case none
    have "chopstick s 5 = None" "chopstick s 1 = None" by (rule free, use none in simp)+
    with none obtain t where "in_turn [A, A] s = Some t" "at t A = Eating"
      by (simp add: eat_think_def go_def unlock_def lock_def left_def right_def)
    then show ?thesis using in_turn_dine by blast
  qed
qed

text \<open>
  C33: The threads never block each other for good: from every state they reach, some of them can go on so that one eats.
\<close>

theorem someone_can_eat:
  assumes "dinner s"
  shows "\<exists>t p. dine\<^sup>*\<^sup>* s t \<and> at t p = Eating"
proof -
  obtain t where t: "dine\<^sup>*\<^sup>* s t" "\<forall>p. at t p \<in> {Thinking, Has_Left, Eating}" using all_settle by blast
  show ?thesis
  proof (cases "\<exists>p. at t p = Eating")
    case False
    then have "\<forall>p. at t p \<in> {Thinking, Has_Left}" using t(2) by blast
    moreover have "held_right t" using t(1) dinner_held [OF assms] by (rule held_dine)
    ultimately show ?thesis using one_takes_both t(1) by (meson rtranclp_trans)
  qed (use t(1) in blast)
qed

theorem someone_can_eat_witness:
  "\<exists>s t p. in_turn [A, B, C, D, E] table0 = Some s \<and> dine\<^sup>*\<^sup>* s t \<and> at t p = Eating"
proof -
  obtain s where s: "in_turn [A, B, C, D, E] table0 = Some s"
    by (simp add: eat_think_def go_def lock_def table0_def left_def right_def)
  have "dinner s" using in_turn_dine [OF s] by (simp add: dinner_def)
  from someone_can_eat [OF this] s show ?thesis by blast
qed

text \<open>The states on the way.\<close>

fun states_of :: "phi list \<Rightarrow> table \<Rightarrow> table list" where
  "states_of [] s = [s]"
| "states_of (p # ps) s = s # (case eat_think p s of None \<Rightarrow> [] | Some t \<Rightarrow> states_of ps t)"

text \<open>
  But they may all make steps for ever and nobody eats: each takes the left chopstick, finds the right one taken, and puts
  the left one back, and they are where they were.
\<close>

theorem nobody_need_eat:
  "in_turn ([A, B, C, D, E] @ [A, B, C, D, E] @ [A, B, C, D, E]) table0 = Some table0
   \<and> list_all (\<lambda>s. Eating \<notin> {at s A, at s B, at s C, at s D, at s E})
       (states_of ([A, B, C, D, E] @ [A, B, C, D, E] @ [A, B, C, D, E]) table0)"
  by (simp add: eat_think_def go_def lock_def unlock_def table0_def left_def right_def fun_upd_twist [of A] fun_eq_iff)

end
