(* ===== verification/Study_Lists.thy ===== *)
theory Study_Lists
  imports Node_Heap Sol_Io
begin

text \<open>
  Two programs that reverse a linked list in place, \<open>Code/huqingwei/shujujiegou/lianbiao_nizhi.c\<close> and
  \<open>Code/wuxinyue/\<close> (reversing a list), over the store of \<open>Node_Heap\<close>.
\<close>

section \<open>\<open>lianbiao_nizhi.c\<close>\<close>

text \<open>
  The loop of \<open>CreatList\<close>; \<open>prev\<close> is not initialised. The list is \<open>ph\<close>; the result is the list, the input left,
  and the store.
\<close>

fun CreatList :: "int list \<Rightarrow> nat option \<Rightarrow> nat option \<Rightarrow> int mem \<Rightarrow> (nat option \<times> int list \<times> int mem) result" where
  "CreatList [] ph prev m = Inr (ph, [], m)"
| "CreatList (ch # r) ph prev m =
     (if \<not> in_int 32 ch then Inl Bad_Arith
      else if ch = 0 then Inr (ph, r, m)
      else
        (case malloc m (Node ch None) of (current, m1) \<Rightarrow>
         (case ph of
            None \<Rightarrow> CreatList r (Some current) (Some current) m1
          | Some h \<Rightarrow>
              (case prev of
                 None \<Rightarrow> Inl Uninit_Read
               | Some b \<Rightarrow> rbind (set_next b (Some current) m1) (CreatList r ph (Some current))))))"

partial_function (option) PrintList :: "int mem \<Rightarrow> nat option \<Rightarrow> string \<Rightarrow> string result option" where
  "PrintList m current t =
     (case current of
        None \<Rightarrow> Some (Inr (t @ [newline]))
      | Some c \<Rightarrow>
          (case deref m current of
             Inl e \<Rightarrow> Some (Inl e)
           | Inr n \<Rightarrow> PrintList m (node_next n) (t @ dec (node_item n))))"

partial_function (option) NiZhiList :: "nat option \<Rightarrow> nat option \<Rightarrow> int mem \<Rightarrow> (nat option \<times> int mem) result option" where
  "NiZhiList current prev m =
     (case current of
        None \<Rightarrow> Some (Inr (prev, m))
      | Some c \<Rightarrow>
          (case deref m current of
             Inl e \<Rightarrow> Some (Inl e)
           | Inr n \<Rightarrow>
               (case set_next c prev m of
                  Inl e \<Rightarrow> Some (Inl e)
                | Inr m' \<Rightarrow> NiZhiList (node_next n) (Some c) m')))"

definition main_nizhi :: "int list \<Rightarrow> string result" where
  "main_nizhi input =
     rbind (CreatList input None None empty_mem) (\<lambda>(head, r, m).
     rbind (returning (PrintList m head [])) (\<lambda>t1.
     rbind (returning (NiZhiList head None m)) (\<lambda>(head, m).
     rbind (returning (PrintList m head [])) (\<lambda>t2. Inr (t1 @ t2)))))"

section \<open>The other program\<close>

text \<open>
  The loop of \<open>creat\<close>: the next number is read into the node \<open>pnew\<close>; without one it is not initialised. The last
  node, with the 0, is freed.
\<close>

fun creat :: "int list \<Rightarrow> nat \<Rightarrow> nat option \<Rightarrow> nat \<Rightarrow> nat \<Rightarrow> int mem \<Rightarrow> (nat option \<times> int mem) result" where
  "creat [] n phead pend pnew m = Inl Uninit_Read"
| "creat (x # r) n phead pend pnew m =
     (if \<not> in_int 32 x then Inl Bad_Arith
      else
        let m1 = store pnew (Node x None) m in
        if x = 0 then Inr (phead, free pnew m1)
        else
          rbind (if Suc n = 1 then Inr (Some pnew, m1)
                 else rbind (set_next pend (Some pnew) m1) (\<lambda>m2. Inr (phead, m2))) (\<lambda>(phead', m2).
          case malloc m2 (Node 0 None) of (new, m3) \<Rightarrow> creat r (Suc n) phead' pnew new m3))"

partial_function (option) reverse :: "nat option \<Rightarrow> nat option \<Rightarrow> nat option \<Rightarrow> int mem \<Rightarrow> (nat option \<times> int mem) result option" where
  "reverse phead ptemp pnew m =
     (case ptemp of
        None \<Rightarrow> Some (Inr (pnew, m))
      | Some c \<Rightarrow>
          (case deref m phead of
             Inl e \<Rightarrow> Some (Inl e)
           | Inr n \<Rightarrow>
               (case set_next c pnew m of
                  Inl e \<Rightarrow> Some (Inl e)
                | Inr m' \<Rightarrow> reverse (node_next n) (node_next n) ptemp m')))"

partial_function (option) print_nodes :: "int mem \<Rightarrow> nat option \<Rightarrow> string \<Rightarrow> string result option" where
  "print_nodes m ptemp t =
     (case ptemp of
        None \<Rightarrow> Some (Inr t)
      | Some c \<Rightarrow>
          (case deref m ptemp of
             Inl e \<Rightarrow> Some (Inl e)
           | Inr n \<Rightarrow> print_nodes m (node_next n) (t @ dec (node_item n) @ '' '')))"

text \<open>The first node and the one that \<open>pend\<close> points to at first come from \<open>malloc\<close>.\<close>

definition main_reverse :: "int list \<Rightarrow> string result" where
  "main_reverse input =
     (case malloc empty_mem (Node 0 None) of (pnew, m) \<Rightarrow>
      case malloc m (Node 0 None) of (pend, m) \<Rightarrow>
        rbind (creat input 0 None pend pnew m) (\<lambda>(phead, m).
        rbind (returning (reverse phead phead None m)) (\<lambda>(phead, m).
        returning (print_nodes m phead []))))"

section \<open>Reversal\<close>

text \<open>The nodes done so far point backwards, the others forwards; one node goes over at each step.\<close>

lemma NiZhiList_seg:
  "seg m cur as xs None \<Longrightarrow> seg m prev bs ys None \<Longrightarrow> distinct (as @ bs)
   \<Longrightarrow> \<exists>p m'. NiZhiList cur prev m = Some (Inr (p, m')) \<and> chain m' p (rev as @ bs) (rev xs @ ys)"
proof (induction "as" arbitrary: cur prev m xs bs ys)
  case Nil
  then show ?case by (subst NiZhiList.simps) (auto simp: chain_def)
next
  case (Cons a "as")
  then obtain x zs r where x: "cur = Some a" "xs = x # zs" "cells m a = Some (Node x r)" "seg m r as zs None" by auto
  let ?m = "store a (Node x prev) m"
  have "a \<notin> set as" "a \<notin> set bs" "distinct (as @ a # bs)" using Cons.prems(3) by auto
  then have "\<exists>p m'. NiZhiList r (Some a) ?m = Some (Inr (p, m')) \<and> chain m' p (rev as @ a # bs) (rev zs @ x # ys)"
    by (intro Cons.IH) (use x Cons.prems(2) in auto)
  with x show ?case by (subst NiZhiList.simps) simp
qed

lemma reverse_NiZhiList: "reverse p p pnew m = NiZhiList p pnew m" if "seg m p as xs None" "seg m pnew bs ys None" "distinct (as @ bs)"
  using that
proof (induction "as" arbitrary: p pnew m xs bs ys)
  case Nil
  then show ?case by (simp add: reverse.simps NiZhiList.simps)
next
  case (Cons a "as")
  then obtain x zs r where x: "p = Some a" "xs = x # zs" "cells m a = Some (Node x r)" "seg m r as zs None" by auto
  let ?m = "store a (Node x pnew) m"
  have "a \<notin> set as" "a \<notin> set bs" "distinct (as @ a # bs)" using Cons.prems(3) by auto
  then have "reverse r r (Some a) ?m = NiZhiList r (Some a) ?m"
    using Cons.IH [where p = r and m = ?m and xs = zs and bs = "a # bs" and ys = "x # ys" and pnew = "Some a"] x Cons.prems(2)
    by auto
  with x show ?case by (subst reverse.simps, subst NiZhiList.simps) simp
qed

lemma print_seg:
  "seg m p as xs None \<Longrightarrow> PrintList m p t = Some (Inr (t @ concat (map dec xs) @ [newline]))
     \<and> print_nodes m p t = Some (Inr (t @ concat (map (\<lambda>x. dec x @ '' '') xs)))"
proof (induction "as" arbitrary: p xs t)
  case Nil
  then show ?case by (auto simp: PrintList.simps print_nodes.simps)
next
  case (Cons a "as")
  then obtain x zs r where x: "p = Some a" "xs = x # zs" "cells m a = Some (Node x r)" "seg m r as zs None" by auto
  from Cons.IH [OF x(4)] x(1-3) show ?case by (subst PrintList.simps, subst print_nodes.simps) simp
qed

section \<open>Building the list\<close>

definition numbers :: "int list \<Rightarrow> bool" where
  "numbers xs \<longleftrightarrow> (\<forall>x \<in> set xs. x \<noteq> 0 \<and> in_int 32 x)"

lemma in_int_0 [simp]: "in_int 32 0"
  by (simp add: in_int_def)

text \<open>A new node goes behind the last.\<close>

lemma chain_snoc:
  assumes "chain m p (as @ [b]) (xs @ [y])" "cells m a = Some (Node x None)" "a \<notin> set (as @ [b])"
  shows "\<exists>m'. set_next b (Some a) m = Inr m' \<and> chain m' p (as @ [b, a]) (xs @ [y, x]) \<and> brk m' = brk m
    \<and> cells m' = (cells m)(b := Some (Node y (Some a)))"
proof -
  have len: "length as = length xs" using assms(1) seg_length by (fastforce simp: chain_def)
  have s: "seg m p (as @ [b]) (xs @ [y]) None" "distinct (as @ [b])" using assms(1) by (simp_all add: chain_def)
  then obtain r where r: "seg m p as xs (Some b)" "cells m b = Some (Node y r)"
    using len by (auto simp: seg_append)
  have set: "set_next b (Some a) m = Inr (store b (Node y (Some a)) m)" using r(2) by simp
  have "seg (store b (Node y (Some a)) m) p as xs (Some b)" using r(1) s(2) by simp
  then have "seg (store b (Node y (Some a)) m) p (as @ [b, a]) (xs @ [y, x]) None"
    using len assms(2,3) by (auto simp: seg_append)
  with set s(2) assms(3) show ?thesis by (auto simp: chain_def)
qed

lemma chain_none: "chain m None as xs \<longleftrightarrow> as = [] \<and> xs = []"
  by (cases "as") (auto simp: chain_def)

lemma mem_ok_linked: "mem_ok m \<Longrightarrow> cells m' = (cells m)(b := Some n) \<Longrightarrow> cells m b \<noteq> None \<Longrightarrow> brk m' = brk m \<Longrightarrow> mem_ok m'"
  by (auto simp: mem_ok_def split: if_splits)

lemma chain_last: "chain m p as ys \<Longrightarrow> as \<noteq> [] \<Longrightarrow> \<exists>bs b zs y. as = bs @ [b] \<and> ys = zs @ [y] \<and> last as = b"
  using seg_length [of m p "as" ys None] by (cases "as" rule: rev_cases; cases ys rule: rev_cases) (auto simp: chain_def)

text \<open>A node that holds a number is linked at the end.\<close>

lemma linked_at_end:
  assumes "chain m p as ys" "as \<noteq> []" "cells m a = Some (Node x None)" "a \<notin> set as" "mem_ok m"
  shows "\<exists>m'. set_next (last as) (Some a) m = Inr m' \<and> chain m' p (as @ [a]) (ys @ [x]) \<and> mem_ok m'"
proof -
  obtain bs b zs y where as: "as = bs @ [b]" "ys = zs @ [y]" "last as = b" using chain_last [OF assms(1,2)] by blast
  obtain m' where m': "set_next b (Some a) m = Inr m'" "chain m' p (bs @ [b, a]) (zs @ [y, x])" "brk m' = brk m"
    "cells m' = (cells m)(b := Some (Node y (Some a)))"
    using chain_snoc [of m p bs b zs y a x] assms(1,3,4) as by auto
  have "cells m b \<noteq> None" using assms(1) as(1) seg_cells by (fastforce simp: chain_def)
  then have "mem_ok m'" using mem_ok_linked m'(3,4) assms(5) by blast
  with m' as show ?thesis by auto
qed

lemma CreatList_run:
  "numbers xs \<Longrightarrow> mem_ok m \<Longrightarrow> chain m ph as ys \<Longrightarrow> as \<noteq> [] \<longrightarrow> prev = Some (last as)
   \<Longrightarrow> \<exists>p m' bs. CreatList (xs @ 0 # r) ph prev m = Inr (p, r, m') \<and> chain m' p bs (ys @ xs)"
proof (induction xs arbitrary: ph prev m "as" ys)
  case Nil
  then show ?case by (intro exI [of _ ph] exI [of _ m] exI [of _ "as"]) simp
next
  case (Cons x xs)
  have x: "x \<noteq> 0" "in_int 32 x" "numbers xs" using Cons.prems(1) by (simp_all add: numbers_def)
  obtain a m1 where ma: "malloc m (Node x None) = (a, m1)" by fastforce
  note m1 = chain_malloc [OF Cons.prems(3,2) ma]
  show ?case
  proof (cases ph)
    case None
    then have "as = []" "ys = []" using Cons.prems(3) by (auto simp: chain_none)
    moreover have "chain m1 (Some a) [a] [x]" using m1(2) by (simp add: chain_def)
    moreover have "CreatList ((x # xs) @ 0 # r) ph prev m = CreatList (xs @ 0 # r) (Some a) (Some a) m1"
      using x(1,2) None ma by simp
    moreover have "\<exists>p m' bs. CreatList (xs @ 0 # r) (Some a) (Some a) m1 = Inr (p, r, m') \<and> chain m' p bs ([x] @ xs)"
      by (rule Cons.IH [OF x(3) m1(4), of _ "[a]"]) (use m1(2) in \<open>simp_all add: chain_def\<close>)
    ultimately show ?thesis by (simp only: append_Nil append_Cons)
  next
    case (Some h)
    then have ne: "as \<noteq> []" using chain_head [OF Cons.prems(3)] by auto
    obtain m' where m': "set_next (last as) (Some a) m1 = Inr m'" "chain m' ph (as @ [a]) (ys @ [x])" "mem_ok m'"
      using linked_at_end [OF m1(1) ne m1(2,3,4)] by blast
    have "CreatList ((x # xs) @ 0 # r) ph prev m = CreatList (xs @ 0 # r) ph (Some a) m'"
      using x(1,2) Some ma ne m'(1) Cons.prems(4) by simp
    moreover have "\<exists>p m'' bs. CreatList (xs @ 0 # r) ph (Some a) m' = Inr (p, r, m'') \<and> chain m'' p bs ((ys @ [x]) @ xs)"
      by (rule Cons.IH [OF x(3) m'(3,2)]) simp
    ultimately show ?thesis by (simp only: append.simps append_assoc)
  qed
qed

lemma creat_run:
  "numbers xs \<Longrightarrow> mem_ok m \<Longrightarrow> chain m ph as ys \<Longrightarrow> cells m pnew \<noteq> None \<Longrightarrow> pnew \<notin> set as \<Longrightarrow> n = length as
   \<Longrightarrow> as \<noteq> [] \<longrightarrow> pend = last as
   \<Longrightarrow> \<exists>p m' bs. creat (xs @ 0 # r) n ph pend pnew m = Inr (p, m') \<and> chain m' p bs (ys @ xs)"
proof (induction xs arbitrary: ph pend pnew m "as" ys n)
  case Nil
  then have "chain (free pnew (store pnew (Node 0 None) m)) ph as ys" by (simp add: chain_def)
  then show ?case by (auto simp: Let_def)
next
  case (Cons x xs)
  have x: "x \<noteq> 0" "in_int 32 x" "numbers xs" using Cons.prems(1) by (simp_all add: numbers_def)
  let ?m1 = "store pnew (Node x None) m"
  have m1: "chain ?m1 ph as ys" "cells ?m1 pnew = Some (Node x None)" "mem_ok ?m1"
    using Cons.prems(2-5) by (auto simp: chain_def mem_ok_store)
  obtain p m2 where m2: "(if Suc n = 1 then Inr (Some pnew, ?m1) else rbind (set_next pend (Some pnew) ?m1) (\<lambda>m2. Inr (ph, m2))) = Inr (p, m2)"
    "chain m2 p (as @ [pnew]) (ys @ [x])" "mem_ok m2"
  proof (cases "as = []")
    case True
    then have "chain ?m1 (Some pnew) (as @ [pnew]) (ys @ [x])" using m1(1,2) by (simp add: chain_def)
    with that True Cons.prems(6) m1(3) show ?thesis by simp
  next
    case False
    with linked_at_end [OF m1(1) False m1(2) Cons.prems(5) m1(3)] that Cons.prems(6,7) show ?thesis by auto
  qed
  obtain new m3 where m3: "malloc m2 (Node 0 None) = (new, m3)" by fastforce
  note fresh = chain_malloc [OF m2(2,3) m3]
  have "\<exists>q m' bs. creat (xs @ 0 # r) (Suc n) p pnew new m3 = Inr (q, m') \<and> chain m' q bs ((ys @ [x]) @ xs)"
    by (rule Cons.IH [OF x(3) fresh(4,1) _ fresh(3)]) (use fresh(2) Cons.prems(6) in auto)
  with x m2(1) m3 show ?case by (simp add: Let_def)
qed

section \<open>The programs\<close>

text \<open>
  C34: For numbers up to a 0, the one program prints them and then prints them backwards, the other prints them backwards; both
  turn round the pointers of the nodes they have built, and no pointer is followed that leads nowhere.
\<close>

theorem lists_reversed:
  assumes "numbers xs"
  shows "main_nizhi (xs @ 0 # r) = Inr (concat (map dec xs) @ [newline] @ concat (map dec (rev xs)) @ [newline])
    \<and> main_reverse (xs @ 0 # r) = Inr (concat (map (\<lambda>x. dec x @ '' '') (rev xs)))"
proof
  have start: "chain m None [] []" for m :: "int mem" by (simp add: chain_def)
  obtain p m bs where c: "CreatList (xs @ 0 # r) None None empty_mem = Inr (p, r, m)" "chain m p bs xs"
    using CreatList_run [OF assms mem_ok_empty start, of None r] by auto
  then obtain q m' where q: "NiZhiList p None m = Some (Inr (q, m'))" "chain m' q (rev bs) (rev xs)"
    using NiZhiList_seg [of m p bs xs None "[]" "[]"] by (auto simp: chain_def)
  show "main_nizhi (xs @ 0 # r) = Inr (concat (map dec xs) @ [newline] @ concat (map dec (rev xs)) @ [newline])"
    using c q print_seg [of m p bs xs "[]"] print_seg [of m' q "rev bs" "rev xs" "[]"]
    by (simp add: main_nizhi_def op_simps chain_def)
  obtain a m1 where m1: "malloc empty_mem (Node (0 :: int) None) = (a, m1)" by fastforce
  obtain b m2 where m2: "malloc m1 (Node 0 None) = (b, m2)" by fastforce
  have ok: "mem_ok m2" "cells m2 a \<noteq> None"
    using m1 m2 mem_ok_malloc [OF mem_ok_malloc [OF mem_ok_empty m1] m2] by (auto simp: malloc_def)
  obtain p m bs where c: "creat (xs @ 0 # r) 0 None b a m2 = Inr (p, m)" "chain m p bs xs"
    using creat_run [OF assms ok(1) start ok(2), of 0 b r] by auto
  then obtain q m' where q: "reverse p p None m = Some (Inr (q, m'))" "chain m' q (rev bs) (rev xs)"
    using NiZhiList_seg [of m p bs xs None "[]" "[]"] reverse_NiZhiList [of m p bs xs None "[]" "[]"] by (auto simp: chain_def)
  show "main_reverse (xs @ 0 # r) = Inr (concat (map (\<lambda>x. dec x @ '' '') (rev xs)))"
    using c q m1 m2 print_seg [of m' q "rev bs" "rev xs" "[]"] by (simp add: main_reverse_def op_simps chain_def)
qed

theorem lists_reversed_witness:
  "main_nizhi [3, 5, 7, 0] = Inr (dec 3 @ dec 5 @ dec 7 @ [newline] @ dec 7 @ dec 5 @ dec 3 @ [newline])"
  using lists_reversed [of "[3, 5, 7]" "[]"] by (simp add: numbers_def in_int_def)

end
