(* ===== verification/Study_Trees.thy ===== *)
theory Study_Trees
  imports State_Ops
begin

text \<open>
  Binary trees that are read and traversed, \<open>Code/huqingwei/shujujiegou/BiTree.c\<close>, and the traversals of
  wuxinyue (of trees of numbers) under \<open>Code/wuxinyue\<close>. The nodes of a tree are its own, so a tree is a value.
\<close>

section \<open>The programs\<close>

datatype 'a bitree = NULL | BiTNode (item: 'a) (lchild: "'a bitree") (rchild: "'a bitree")

text \<open>
  \<open>scanf("%c", &ch)\<close> on what is typed. At the end of the input it leaves \<open>ch\<close> unwritten, and the program, which does
  not look at the result, goes on with what the stack held: \<open>u n\<close> is that character at the \<open>n\<close>th such reading. A
  state is the characters left and the number of readings that have failed.
\<close>

type_synonym reading = "string \<times> nat"

fun next_char :: "(nat \<Rightarrow> char) \<Rightarrow> reading \<Rightarrow> char \<times> reading" where
  "next_char u (ch # r, n) = (ch, r, n)"
| "next_char u ([], n) = (u n, [], Suc n)"

text \<open>\<open>CreateBiTree\<close>: a blank is an empty tree. \<open>None\<close>: the calls never come to an end.\<close>

partial_function (option) CreateBiTree :: "(nat \<Rightarrow> char) \<Rightarrow> reading \<Rightarrow> (char bitree \<times> reading) option" where
  "CreateBiTree u s =
     (case next_char u s of (ch, s1) \<Rightarrow>
        if ch = CHR '' '' then Some (NULL, s1)
        else
          Option.bind (CreateBiTree u s1) (\<lambda>(l, s2).
          Option.bind (CreateBiTree u s2) (\<lambda>(t, s3). Some (BiTNode ch l t, s3))))"

text \<open>\<open>InOrderTraverse\<close>, which prints a node before its subtrees; \<open>zhongxu\<close>; \<open>houxu\<close>\<close>

fun InOrderTraverse :: "char bitree \<Rightarrow> int \<Rightarrow> string" where
  "InOrderTraverse NULL level = []"
| "InOrderTraverse (BiTNode x l r) level = [x] @ InOrderTraverse l (level + 1) @ InOrderTraverse r (level + 1)"

fun zhongxu :: "char bitree \<Rightarrow> int \<Rightarrow> string" where
  "zhongxu NULL level = []"
| "zhongxu (BiTNode x l r) level = zhongxu l level @ [x] @ zhongxu r level"

fun houxu :: "char bitree \<Rightarrow> string" where
  "houxu NULL = []"
| "houxu (BiTNode x l r) = houxu l @ houxu r @ [x]"

definition main_bitree :: "(nat \<Rightarrow> char) \<Rightarrow> string \<Rightarrow> string result" where
  "main_bitree u input =
     (case CreateBiTree u (input, 0) of
        None \<Rightarrow> Inl No_Return
      | Some (T, s) \<Rightarrow> Inr (InOrderTraverse T 1 @ [newline] @ zhongxu T 1 @ [newline] @ houxu T))"

text \<open>The functions \<open>a\<close>, \<open>b\<close> and \<open>c\<close> of the other file.\<close>

definition tabbed :: "int \<Rightarrow> string" where
  "tabbed n = dec n @ [CHR 0x09]"

fun tree_a :: "int bitree \<Rightarrow> string" where
  "tree_a NULL = []"
| "tree_a (BiTNode n l r) = tabbed n @ tree_a l @ tree_a r"

fun tree_b :: "int bitree \<Rightarrow> string" where
  "tree_b NULL = []"
| "tree_b (BiTNode n l r) = tree_b l @ tabbed n @ tree_b r"

fun tree_c :: "int bitree \<Rightarrow> string" where
  "tree_c NULL = []"
| "tree_c (BiTNode n l r) = tree_c l @ tree_c r @ tabbed n"

section \<open>Reading and printing\<close>

text \<open>What is typed for a tree: a node, its subtrees, a blank for an empty one.\<close>

fun typed_tree :: "char bitree \<Rightarrow> string" where
  "typed_tree NULL = '' ''"
| "typed_tree (BiTNode x l r) = x # typed_tree l @ typed_tree r"

definition no_blanks :: "char bitree \<Rightarrow> bool" where
  "no_blanks t \<longleftrightarrow> CHR '' '' \<notin> set_bitree t"

text \<open>The next \<open>k\<close> characters that are read, typed or not, and what is left then.\<close>

fun ahead :: "(nat \<Rightarrow> char) \<Rightarrow> nat \<Rightarrow> reading \<Rightarrow> string \<times> reading" where
  "ahead u 0 s = ([], s)"
| "ahead u (Suc k) s = (case next_char u s of (c, s1) \<Rightarrow> case ahead u k s1 of (w, s2) \<Rightarrow> (c # w, s2))"

lemma ahead_add:
  "ahead u (i + j) s = (case ahead u i s of (v, s1) \<Rightarrow> case ahead u j s1 of (w, s2) \<Rightarrow> (v @ w, s2))"
  by (induction i arbitrary: s) (simp_all split: prod.splits)

lemma ahead_length: "ahead u k s = (w, s') \<Longrightarrow> length w = k"
  by (induction k arbitrary: s w) (auto split: prod.splits)

lemma ahead_typed: "ahead u (length w) (w @ r, n) = (w, r, n)"
  by (induction w) simp_all

text \<open>What is read ahead ends with a character that was not typed, when the input is too short.\<close>

lemma ahead_end:
  "ahead u k (cs, n) = (w, r, m) \<Longrightarrow> (cs = w @ r \<and> m = n) \<or> (w \<noteq> [] \<and> (\<exists>i. last w = u i))"
proof (induction k arbitrary: cs n w)
  case (Suc k)
  show ?case
  proof (cases cs)
    case Nil
    with Suc.prems obtain v where v: "w = u n # v" "ahead u k ([], Suc n) = (v, r, m)" by (auto split: prod.splits)
    with Suc.IH [OF v(2)] show ?thesis by (cases "v = []") auto
  next
    case (Cons c ds)
    with Suc.prems obtain v where v: "w = c # v" "ahead u k (ds, n) = (v, r, m)" by (auto split: prod.splits)
    with Suc.IH [OF v(2)] Cons show ?thesis by auto
  qed
qed simp

lemma typed_tree_last: "typed_tree t \<noteq> [] \<and> last (typed_tree t) = CHR '' ''"
  by (induction t) auto

lemma CreateBiTree_reads:
  "no_blanks t \<Longrightarrow> ahead u (length (typed_tree t)) s = (typed_tree t, s') \<Longrightarrow> CreateBiTree u s = Some (t, s')"
proof (induction t arbitrary: s s')
  case NULL
  then show ?case by (subst CreateBiTree.simps) (auto split: prod.splits)
next
  case (BiTNode x l t)
  obtain c s1 where 1: "next_char u s = (c, s1)" by (cases "next_char u s")
  obtain v s2 where 2: "ahead u (length (typed_tree l)) s1 = (v, s2)" by (cases "ahead u (length (typed_tree l)) s1")
  obtain w s3 where 3: "ahead u (length (typed_tree t)) s2 = (w, s3)" by (cases "ahead u (length (typed_tree t)) s2")
  have "c # v @ w = x # typed_tree l @ typed_tree t" "s' = s3"
    using BiTNode.prems(2) by (auto simp: 1 2 3 ahead_add)
  with ahead_length [OF 2] have "c = x" "v = typed_tree l" "w = typed_tree t" "s' = s3" by auto
  moreover have "c \<noteq> CHR '' ''" "no_blanks l" "no_blanks t"
    using BiTNode.prems(1) \<open>c = x\<close> by (auto simp: no_blanks_def)
  ultimately show ?case using 1 2 3 BiTNode.IH
    by (subst CreateBiTree.simps) simp
qed

text \<open>Whatever is read is a tree as it would be typed.\<close>

lemma CreateBiTree_typed:
  assumes "CreateBiTree u s = Some x"
  shows "no_blanks (fst x) \<and> ahead u (length (typed_tree (fst x))) s = (typed_tree (fst x), snd x)"
proof (rule CreateBiTree.raw_induct [where P = "\<lambda>u s x. no_blanks (fst x)
      \<and> ahead u (length (typed_tree (fst x))) s = (typed_tree (fst x), snd x)", OF _ assms])
  fix create u s x
  assume IH: "\<And>u s x. create u s = Some x
      \<Longrightarrow> no_blanks (fst x) \<and> ahead u (length (typed_tree (fst x))) s = (typed_tree (fst x), snd x)"
    and x: "(case next_char u s of (ch, s1) \<Rightarrow>
        if ch = CHR '' '' then Some (NULL, s1)
        else Option.bind (create u s1) (\<lambda>(l, s2).
          Option.bind (create u s2) (\<lambda>(t, s3). Some (BiTNode ch l t, s3)))) = Some x"
  obtain ch s1 where c: "next_char u s = (ch, s1)" by (cases "next_char u s")
  show "no_blanks (fst x) \<and> ahead u (length (typed_tree (fst x))) s = (typed_tree (fst x), snd x)"
  proof (cases "ch = CHR '' ''")
    case True
    with x c show ?thesis by (auto simp: no_blanks_def)
  next
    case False
    with x c obtain l s2 t s3 where s: "create u s1 = Some (l, s2)" "create u s2 = Some (t, s3)" "x = (BiTNode ch l t, s3)"
      by (auto simp: bind_eq_Some_conv)
    from IH [OF s(1)] IH [OF s(2)] s(3) c False show ?thesis by (auto simp: no_blanks_def ahead_add)
  qed
qed

text \<open>
  C38: \<open>CreateBiTree\<close> reads exactly what would be typed for a tree, in preorder with a blank for an empty one: it returns a tree
  just when the characters it reads, typed or left on the stack when the input has ended, are those typed for that tree. So
  what is typed for a tree without blanks in it is read back, and what follows stays; and when the input ends before a
  tree is complete and the stack never holds a blank, the calls never come to an end.
\<close>

theorem trees_read_back:
  "(CreateBiTree u s = Some (t, s') \<longleftrightarrow> no_blanks t \<and> ahead u (length (typed_tree t)) s = (typed_tree t, s'))
   \<and> (no_blanks t \<longrightarrow> CreateBiTree u (typed_tree t @ r, n) = Some (t, r, n))
   \<and> ((\<forall>i. u i \<noteq> CHR '' '') \<and> (\<forall>t r. no_blanks t \<longrightarrow> cs \<noteq> typed_tree t @ r) \<longrightarrow> CreateBiTree u (cs, n) = None)"
proof -
  have "CreateBiTree u (cs, n) = None" if u: "\<forall>i. u i \<noteq> CHR '' ''" and cs: "\<forall>t r. no_blanks t \<longrightarrow> cs \<noteq> typed_tree t @ r"
  proof (rule ccontr)
    assume "CreateBiTree u (cs, n) \<noteq> None"
    then obtain t r m where "CreateBiTree u (cs, n) = Some (t, r, m)" by auto
    from CreateBiTree_typed [OF this]
    have t: "no_blanks t" "ahead u (length (typed_tree t)) (cs, n) = (typed_tree t, r, m)" by simp_all
    from ahead_end [OF t(2)] typed_tree_last [of t] u have "cs = typed_tree t @ r" by metis
    with t(1) cs show False by blast
  qed
  then show ?thesis using CreateBiTree_reads CreateBiTree_typed ahead_typed by (metis fst_conv snd_conv)
qed

theorem trees_read_back_witness:
  "CreateBiTree (\<lambda>_. CHR ''#'') (''ab  c  !'', 0)
     = Some (BiTNode (CHR ''a'') (BiTNode (CHR ''b'') NULL NULL) (BiTNode (CHR ''c'') NULL NULL), ''!'', 0)
   \<and> CreateBiTree (\<lambda>_. CHR ''#'') ([], 0) = None"
proof
  show "CreateBiTree (\<lambda>_. CHR ''#'') (''ab  c  !'', 0)
     = Some (BiTNode (CHR ''a'') (BiTNode (CHR ''b'') NULL NULL) (BiTNode (CHR ''c'') NULL NULL), ''!'', 0)"
    using trees_read_back [of "\<lambda>_. CHR ''#''" "([], 0)" "BiTNode (CHR ''a'') (BiTNode (CHR ''b'') NULL NULL) (BiTNode (CHR ''c'') NULL NULL)"
      "([], 0)" "''!''" 0 "[]"]
    by (simp add: no_blanks_def)
  have "typed_tree t @ r \<noteq> []" for t r using typed_tree_last [of t] by simp
  then show "CreateBiTree (\<lambda>_. CHR ''#'') ([], 0) = None"
    using trees_read_back [of "\<lambda>_. CHR ''#''" "([], 0)" NULL "([], 0)" "[]" 0 "[]"] by simp
qed

end
