(* ===== verification/Spec2Isabelle.thy ===== *)
theory Spec2Isabelle
  imports Server_Main Client_Main Thread_Pool Talk_Friends Talk_Lists Talk_Laws Talk_Chat Shell_Claims Ls_Tree
    Room_Claims Room_Reach Room_Log Sol_Game Sol_Divide Sol_Merge Sol_Greedy Sol_Search
    Study_Dining Study_Lists Study_Trees
begin

text \<open>
  This development models and verifies the programs of the repository that are more than an
  exercise: three chat rooms, a thread pool, three shells and six listings of directories; some of the solutions
  of weekly problems that can be compared with what they are to compute; and some of the study programs. They are the chat room of
  \<open>Code/huqingwei/chat_room\<close> (\<open>chat.h\<close>, the server \<open>epoll.c\<close>, the client \<open>client1.c\<close>), the thread
  pool of \<open>Code/liuting1/lt_thread_pool\<close> (\<open>queue.c\<close>, \<open>thread_pool.c\<close>), and the second chat room,
  \<open>Code/liuting1/chatroom\<close> (\<open>dfi.h\<close>, \<open>MYSQL.c\<close>, \<open>server_deal.c\<close>, \<open>server_init.c\<close>, \<open>client_io.c\<close>,
  \<open>client_menu.c\<close>, \<open>client.c\<close>); the shells \<open>Code/huqingwei/study_jincheng/my_shell.c\<close>,
  \<open>Code/liuting1/my_shell.c\<close> and \<open>Code/wuxinyue/my_shell.c\<close>; the listings (\<open>ls\<close>)
  \<open>Code/huqingwei/study_file/my_ls3.c\<close>, \<open>Code/wuxinyue/LS.c\<close> and \<open>ls1.c\<close>, \<open>Code/liuting1/ls.c\<close>, \<open>lt_ls1.c\<close>
  and \<open>lt_ls.c\<close>; the third chat room, \<open>Solution/wuxinyue/chatroom\<close> (\<open>proto.c\<close>, \<open>socket.c\<close>, \<open>server.c\<close>, \<open>client.c\<close>,
  \<open>client_menu.c\<close>, \<open>log.c\<close>); and the solutions \<open>1_A.c\<close>, \<open>1_B.c\<close>, \<open>1_E.c\<close>, \<open>1_G.c\<close>, \<open>2_J.c\<close> of huqingwei, \<open>week1A.c\<close>, \<open>week1B.c\<close>,
  \<open>week1b.c\<close>, \<open>week1E.c\<close> and \<open>week1G.c\<close> of wuxinyue, \<open>hehanshu.c\<close> and the stones of liuting; the philosophers
  (\<open>test/zhexuejia.c\<close>), \<open>lianbiao_nizhi.c\<close> and \<open>BiTree.c\<close> (\<open>shujujiegou\<close>) of huqingwei, the list reversal and the tree
  traversals of wuxinyue.

  The first chat room. Clients hold one TCP connection each to the server and exchange packets of a
  single type, \<open>MSG\<close>, 1776 bytes long; its field \<open>cmd\<close> says what a packet asks for. The server is
  one thread: \<open>main\<close> reads four MySQL tables into linked lists, then waits with epoll, reads a
  packet and hands it to \<open>chuli_request\<close>, which calls one handler. A handler searches and changes
  the lists (users, friends, groups, members of groups, users online, requests that wait for
  someone offline), repeats the change as an SQL query, and sends packets to its client or to
  others. The client runs two threads: the menus, which ask for the fields of a packet and send
  it, and \<open>server_message\<close>, which shows what arrives and queues requests to be answered.

  The second chat room. Packets are of type \<open>PACK\<close>, 2120 bytes. The server keeps no tables of its
  own: each handler of \<open>server_deal.c\<close> asks MySQL through the functions of \<open>MYSQL.c\<close>. What it keeps
  is the table \<open>g\<close> of who chats in which group, the list of messages for friends off line
  (\<open>phead\<close>, \<open>pend\<close>), the descriptor of a file's receiver and the name of the last group. The server is
  one thread and receives a packet with \<open>MSG_WAITALL\<close>: while a client has sent part of a packet
  and keeps its connection open, nobody else is served. The client logs in from a menu that calls
  itself, then runs \<open>recv_PACK\<close> beside the main menu.

  The third chat room has packets of several types behind a common head with a magic number, a type and a
  length. The server reads the head, then as many bytes as it says, and calls one function of a table, which has
  a single entry, the registration; it answers with a status. The client goes from menu to menu (\<open>cli_status_t\<close>),
  sends a request and waits for the status.

  The shells read a line, cut it into words, find the redirection, the pipe and the \<open>&\<close> in it, and run
  the commands in child processes that they wait for or not. The listings read the entries of
  directories, sort the names or mean to, and print them in columns or with the attributes of
  \<open>stat\<close>; all but one follow directories into directories.

  The theories, in the order of the imports.

  \<^item> \<open>Prelude\<close>: faults (what C leaves undefined, calls of \<open>exit\<close>, waiting for ever) and results; C
    strings with \<open>strcpy\<close> and \<open>sprintf\<close> into arrays of a fixed size; decimal numbers, \<open>atoi\<close> and the
    cut of a \<open>long\<close> to an \<open>int\<close>; the first match in a list (search, removal, update).
  \<^item> \<open>Chat_Msg\<close>, \<open>Chat_Wire\<close>: the structs of \<open>chat.h\<close> as records with their array bounds
    (\<open>wf_MSG\<close>), the byte layout of a packet (\<open>encode_MSG\<close>, \<open>decode_MSG\<close>, lemma \<open>packet_encoding\<close>)
    and \<open>recv\<close> on a connection, which is a list of byte runs that arrive one after the other.
  \<^item> \<open>Node_Heap\<close>: a store of nodes, and over it \<open>charu_list\<close>, \<open>weicha_list\<close>, \<open>del_node\<close>,
    \<open>free_list\<close>, the unlinking loops of the handlers, the loop of \<open>break_group\<close>, the client's
    \<open>del_head\<close>. Following NULL, a freed node or an uninitialised pointer is a fault. Each routine
    is shown to compute a function on lists; the locale \<open>append_list\<close> is the interface of the
    three ways of appending.
  \<^item> \<open>Server_State\<close>: the server's globals as a record over lists (by the refinements of
    \<open>Node_Heap\<close>), with the log of its queries and of the packets sent; \<open>server_wf\<close>, the
    invariant; the preorder on states by their logs; the locale \<open>request_handler\<close>, the contract of
    a handler (it keeps the invariant and only appends to the logs). MySQL is not in the repository: which connections and queries fail
    is the parameter \<open>mysql_env\<close>.
  \<^item> \<open>Server_Account\<close>, \<open>Server_Friend\<close>, \<open>Server_Group\<close>, \<open>Server_File\<close>: the handlers of
    \<open>epoll.c\<close>, each under the name of its C function, each with an interpretation of
    \<open>request_handler\<close>, then the behaviour on its branches. \<open>Server_Demo\<close> has the concrete states
    the witnesses use.
  \<^item> \<open>Mysql_Rows\<close>: rows of strings, their columns copied or converted; \<open>Server_Load\<close>: the reads at
    the start; \<open>Server_Main\<close>: the dispatcher, the event loop, reachable states and the invariant
    of the whole server.
  \<^item> \<open>Client_State\<close>, \<open>Client_Requests\<close>, \<open>Client_Files\<close>, \<open>Client_Main\<close>: the client. The terminal is
    the string of keys still to come; an operation waits for ever (\<open>None\<close>), faults, or returns.
    The locale \<open>client_op\<close> is what every operation obeys: keys are only consumed, packets only
    appended. Client functions that share a name with a handler carry the prefix \<open>client_\<close>.
  \<^item> \<open>Thread_Queue\<close>: the queue over \<open>Node_Heap\<close>, its size a 64-bit word, and the locale \<open>fifo\<close>;
    \<open>Thread_Pool\<close>: workers, mutex and condition variable as a step machine (\<open>pool_step\<close>),
    reachable states under all interleavings.
  \<^item> \<open>State_Ops\<close>: operations on a state that may fault, in which the second chat room is written:
    sequencing, loops, arrays with their bounds; the locales \<open>step_law\<close> (an invariant and a
    relation that every step keeps) and \<open>move_law\<close> (a preorder along which every step moves).
  \<^item> \<open>Talk_Printf\<close>, \<open>Talk_Text\<close>, \<open>Talk_Pack\<close>: \<open>printf\<close> formats with their arguments, the messages of
    \<open>server_deal.c\<close> byte by byte, and \<open>PACK\<close> with its image in memory and \<open>MSG_WAITALL\<close>.
  \<^item> \<open>Message_Box\<close>: the linked list with a sentinel and an end pointer that occurs four times in the
    program (\<open>phead\<close> of the server; \<open>phead\<close>, \<open>fhead\<close>, \<open>ghead\<close> of the client), over \<open>Node_Heap\<close>, refined
    to a list (\<open>box_holds\<close>); the locale \<open>message_box\<close> is its interface.
  \<^item> \<open>Talk_State\<close>, \<open>Talk_Sql\<close>, \<open>Talk_Server\<close>, \<open>Talk_Groups\<close>: the structs and globals, \<open>MYSQL.c\<close>,
    the handlers of \<open>server_deal.c\<close>, and the dispatcher, \<open>recv_PACK\<close> and the loop.
    \<open>t_wire\<close> is what has arrived on each connection and was not taken; an event is a connection that can
    be read, with what arrives until the packet is whole or no more comes (\<open>wire\<close>). A wait for the rest of
    a packet that does not come is the fault \<open>No_Return\<close>.
  \<^item> \<open>Talk_Laws\<close>: every handler and the whole run keep the server's invariant and return, unless a packet is cut
    off, by interpretations of \<open>step_law\<close>; \<open>Talk_Facts\<close>, \<open>Talk_Session\<close>, \<open>Talk_Rooms\<close>, \<open>Talk_Lists\<close>,
    \<open>Talk_Friends\<close>: what the requests do; \<open>Talk_Demo\<close>: the concrete runs of the witnesses.
  \<^item> \<open>Talk_Client\<close>, \<open>Talk_Menu\<close>, \<open>Talk_Chat\<close>: the client, its menus, and their properties, some of
    them together with the server.

  \<^item> \<open>Shell_World\<close>: what the shells share: files and standard streams, the children that run, the
    step machine of a shell (a line typed, a child that ends; \<open>shell_step\<close>), \<open>chdir\<close>, \<open>open\<close>, \<open>execvp\<close>,
    \<open>wait\<close> and \<open>waitpid\<close>, and the plan that a line is parsed into. \<open>Shell_Hu\<close>, \<open>Shell_Liu\<close>, \<open>Shell_Wu\<close>:
    the three programs. \<open>Shell_Parse\<close>: their parsers against specifications of words and fields;
    \<open>Shell_Facts\<close>, \<open>Shell_Runs\<close>, \<open>Shell_Pipes\<close>: what a line does to the files and to the terminal;
    \<open>Shell_Claims\<close>: the properties.
  \<^item> \<open>Ls_World\<close>: \<open>stat\<close>, directories, accounts, what is printed, the mode bits as words of 32 bits and
    their text. \<open>Ls_Sort\<close>: the bubble sorts, over arrays and, with the cells of \<open>Node_Heap\<close>, over
    linked nodes. \<open>Ls_Hu\<close> (\<open>my_ls3.c\<close>), \<open>Ls_Wu\<close> (\<open>LS.c\<close>), \<open>Ls_Wu1\<close> (\<open>ls1.c\<close>), \<open>Ls_Liu\<close> (\<open>ls.c\<close>, \<open>lt_ls1.c\<close>), \<open>Ls_Lt\<close>
    (\<open>lt_ls.c\<close>): the programs. \<open>Ls_Facts\<close>: every listing only appends, and its bound on the depth is never what stops it, by an
    interpretation of \<open>step_law\<close>; \<open>Ls_Claims\<close>: the properties; \<open>Ls_Tree\<close>: the recursive listing on a tree of
    directories.
  \<^item> \<open>Room_Proto\<close>, \<open>Room_Socket\<close>, \<open>Room_Server\<close>, \<open>Room_Client\<close>, \<open>Room_Log\<close>: the files of the third chat room. A connection
    is a list of what the calls of \<open>read\<close> meet (bytes, signals, errors); the buffer on the stack has bytes that
    were not written. \<open>Room_Facts\<close>: one request at the server, one exchange and one round of the menus at the client;
    \<open>Room_Claims\<close>: runs of both programs, and requests the server does not expect; \<open>Room_Reach\<close>: reachable states
    and the descriptors, by an interpretation of \<open>move_law\<close>.
  \<^item> \<open>Sol_Io\<close>: numbers read, lines printed, arithmetic at its width with overflow as a fault. \<open>Sol_Game\<close>, \<open>Sol_Divide\<close>,
    \<open>Sol_Merge\<close>, \<open>Sol_Greedy\<close>, \<open>Sol_Search\<close>: the solutions, what is to be computed, and that they compute it; \<open>Sol_Divide\<close> has the
    locale \<open>joined_steps\<close> (steps that can be joined lead to one end by as many steps whatever the order).
  \<^item> \<open>Study_Dining\<close>: the philosophers as a step relation over the mutexes; \<open>Study_Lists\<close>: two list reversals over
    \<open>Node_Heap\<close>; \<open>Study_Trees\<close>: reading and traversing trees; what a failed \<open>scanf\<close> leaves in its variable is a
    parameter.

  What the properties show. Both servers stay consistent in every state they reach; logging in,
  private and group messages, friendship and files work, or fail in a stated way, from the keys
  typed to the packet shown; the relay of
  files does not depend on the segmentation of TCP; the pointer routines agree with lists; the
  pool keeps its tasks; the second server comes back to its loop unless a client sends part of a
  packet and waits, and its login menu ends;
  redirections and pipes of the shells put the output where the line says, and a command in the
  foreground is waited for; the sorts of the listings sort, by exchange of pointers too, their
  columns show the names there are, the letters of a mode can be read back, and a tree of directories is
  listed whole, each file once; in the third chat room registrations are answered, from the keys typed to the verdict shown, packets arrive whole however they are
  cut, and no descriptor is lost; the solutions, different as they are, compute the best answer of their problem; the philosophers can always come to eat, lists are reversed by
  exchange of pointers, and what is typed for a tree is read back as that tree.
  The others state what goes wrong: overflows, losses, misdirected messages and crashes that the
  code has, each with its exact condition.

  Loops and bounds. Loops over lists are recursive on the list; loops that consume keys or bytes
  are \<open>function\<close> with a measure (the length of the keys, of the bytes left); loops over pointers,
  which may run for ever on a cyclic list, and the menus of the first client are
  \<open>partial_function (option)\<close>, and the refinement lemmas prove that they return on chains.
  \<open>login_rounds\<close>, which counts the rounds of the login menu, is given as many as there are keys and
  one more, and the property proves that enough. Array sizes and SQL buffer sizes are those of
  the source. The listings that go into directories have fuel; it is the size of the array of the
  path and one more (4097, 1001, 257), and \<open>depth_bounds_suffice\<close> proves that it is never what stops a run, as every level makes
  the path longer; where a path does not fit, the model stops with \<open>Buffer_Overflow\<close> and the program
  writes past its array. Only \<open>display_R\<close> of \<open>ls1.c\<close>, which goes by the text of an unwritten block, may go
  on for ever; its fuel is an argument. The menus of the third client have as many rounds as there are keys and one
  more (each reads a newline), the rounds of \<open>2_J.c\<close> are bounded by the numbers to be read; the properties say that
  the programs end with these. \<open>tcp_read\<close> has a measure, what the calls of \<open>read\<close> have still to meet.

  Choices that differ from C. In the first chat room a \<open>char\<close> array is the string before its NUL
  byte; what lies behind the NUL is not modelled, and a packet read back has zeros there. In the
  second it has all its bytes. \<open>send\<close> takes the whole packet.
  The first server's lists are shared by no one else, so handlers work on lists and not on the
  store; searches that run off a list and are then followed are the fault \<open>Null_Deref\<close>. An event of
  \<open>epoll_wait\<close> names its descriptor and, for the bytes \<open>recv\<close> does not overwrite, what the
  packet variable held before. Where the second server reads a variable or a heap block that was never
  written, the n-th such reading takes its value from the parameter \<open>talk_env\<close>, which also has what
  MySQL answers; nothing is assumed of these values but that, in some properties, arrays have
  their size or a NUL. The counters of the bytes sent and received are of type \<open>int\<close>, and an overflow is
  the fault \<open>Bad_Arith\<close>. The clients' two threads are interleaved by whole operations (the second client's:
  by packets, menu choices and lines of a chat), and the threads of one \<open>thread_pool_start\<close> appear
  in one step.

  Not modelled: the text of prompts and of the servers' traces, socket set-up, \<open>mysql_close\<close> of the
  first server, \<open>get_mysql_result\<close>, \<open>online_user_list_num\<close>, \<open>bianli_list\<close> and \<open>recv_deal_PACK\<close> (not
  called). Of the shells: the prompts of liuting and wuxinyue, the line editing of
  \<open>readline\<close>, a \<open>fork\<close> that fails; a child acts on files and terminal at one moment, when it ends.
  What the unwritten memory holds that a shell or a listing reads is in their parameters
  (\<open>stack_args\<close>, \<open>flushed\<close>, \<open>slack\<close>, \<open>stack_rest\<close>, \<open>behind\<close>, \<open>row_text\<close>, \<open>block_text\<close>); the file
  system does not change while a listing runs. Earlier versions (\<open>my_ls.c\<close>, \<open>my_shell1.c\<close>, \<open>my_shell.c\<close> at the
  root, \<open>Code/liuting1/thread_pool.c\<close>) and the unfinished chat room of wuxinyue under \<open>Code\<close> are not modelled,
  nor is \<open>ls-1.c\<close>, which does not link; the remaining files are exercises around system calls
  and other solutions. Of the philosophers: the messages and the pauses. Of the third chat room: the lines its programs write to the log (\<open>Room_Log\<close> has the log itself),
  the addresses of clients, prompts and the time.
\<close>

section \<open>Requests that wait for the wrong user\<close>

text \<open>
  The answer to a request for friendship, when the one who asked is offline, is queued for
  the one who answered: the queue of the asker is unchanged, so no later login tells the asker,
  and the answerer is told about the own answer at the next login.
\<close>

theorem offline_answer_waits_for_answerer:
  assumes "deal_friend_request_y env fd m s = Inr s'" and "find_online (from_name m) s = None"
    and "from_name m \<noteq> to_name m"
  shows "waiting_for (from_name m) (head_request s') = waiting_for (from_name m) (head_request s)
    \<and> waiting_for (to_name m) (head_request s') = waiting_for (to_name m) (head_request s)
      @ [\<lparr>q_from_name = from_name m, q_to_name = to_name m, q_to_group_name = None, q_type = CHR ''y''\<rparr>]"
proof -
  obtain s1 where s1: "accept_row env m s = Inr s1" "head_request s1 = head_request s" "head s1 = head s"
    using assms(1) by (auto simp: deal_friend_request_y_def accept_row_def result_simps split: if_splits)
  have "head_request s' = head_request s @ [\<lparr>q_from_name = from_name m, q_to_name = to_name m,
      q_to_group_name = None, q_type = CHR ''y''\<rparr>]"
    using assms(1,2) s1
    by (auto simp: deal_friend_request_y_def result_simps Let_def find_online_def
        split: if_splits option.splits)
  with assms(3) show ?thesis by (simp add: waiting_for_def offline_cmd_def)
qed

theorem offline_answer_waits_for_answerer_witness:
  "\<exists>s'. deal_friend_request_y working_mysql 4 (chat_packet 311 ''bob'' ''ann'' []) (chat_server\<lparr>head := []\<rparr>)
      = Inr s' \<and> waiting_for ''bob'' (head_request s') = []
    \<and> length (waiting_for ''ann'' (head_request s')) = 1"
proof -
  let ?m = "chat_packet 311 ''bob'' ''ann'' []" and ?s = "chat_server\<lparr>head := []\<rparr>"
  have row: "row_status (to_name ?m) (from_name ?m) (head_friends ?s) \<noteq> None"
    by (simp add: demo_defs row_status_def is_friend_def)
  have ne: "to_name ?m \<noteq> from_name ?m" "from_name ?m \<noteq> to_name ?m" by (simp_all add: chat_packet_def)
  from accept_friend [OF working_mysql_works wf_chat_packet ne(1) row, of 4]
  obtain s' where s': "deal_friend_request_y working_mysql 4 ?m ?s = Inr s'" by auto
  have "find_online (from_name ?m) ?s = None" by (simp add: find_online_def)
  from offline_answer_waits_for_answerer [OF s' this ne(2)] s'
  show ?thesis by (auto simp: chat_packet_def chat_server_def demo_server_def waiting_for_def)
qed

text \<open>
  A request to join a group whose owner is offline loses the group: the queued node has none,
  and the packet the owner receives at the next login names whatever group the login packet
  happened to name.
\<close>

theorem offline_join_loses_group:
  assumes "find_first (in_group (to_group_name m) (from_name m)) (head_group_relationship s) = None"
    and "find_first (is_group (to_group_name m)) (head_user_groups s) = Some g"
    and "find_online (g_owner g) s = None" and "wf_MSG m" and "server_wf s"
    and "head_request s = []" and "name (user_infor l) = g_owner g"
    and "\<exists>u \<in> set (head_user s). u_name u = name (user_infor l) \<and> u_passworld u = password (user_infor l)"
  shows "\<exists>s1 s2 p. add_group env fd m s = Inr s1 \<and> login env fd' l s1 = Inr s2
    \<and> sent s2 = sent s @ [(fd', Packet (l\<lparr>cmd := 1002\<rparr>)), (fd', Packet p)]
    \<and> cmd p = 23 \<and> from_name p = from_name m \<and> to_group_name p = to_group_name l"
proof -
  have ow: "fits 20 (g_owner g)" "fits 20 (from_name m)"
    using assms(4,5) find_first_Some [OF assms(2)]
    by (auto simp: server_wf_defs wf_group_def wf_MSG_def)
  let ?q = "\<lparr>q_from_name = from_name m, q_to_name = g_owner g, q_to_group_name = None,
    q_type = CHR ''g''\<rparr>"
  have add: "add_group env fd m s = Inr (s\<lparr>head_request := [?q]\<rparr>)"
    using assms(1-3,6) ow by (simp add: add_group_def Let_def queue_request_def new_request_def)
  obtain u where u: "find_first (credentials (user_infor l)) (head_user s) = Some u"
    using find_first_not_None [of "credentials (user_infor l)" "head_user s"] assms(8)
    unfolding credentials_def by auto
  show ?thesis
    using add u ow assms(7)
    by (auto simp: login_def Let_def offline_message_def send_def
        intro!: exI [of _ "l\<lparr>cmd := 23, from_name := from_name m, to_name := g_owner g\<rparr>"])
qed

theorem offline_join_loses_group_witness:
  "\<exists>s1 s2 p. add_group working_mysql 5 (chat_packet 23 ''eve'' [] ''grp'') (chat_server\<lparr>head := []\<rparr>) = Inr s1
    \<and> login working_mysql 4 (demo_packet 2 ''ann'' ''pw'') s1 = Inr s2
    \<and> sent s2 = [(4, Packet (demo_packet 1002 ''ann'' ''pw'')), (4, Packet p)]
    \<and> cmd p = 23 \<and> from_name p = ''eve'' \<and> to_group_name p = []"
proof -
  let ?m = "chat_packet 23 ''eve'' [] ''grp''" and ?l = "demo_packet 2 ''ann'' ''pw''"
  let ?s = "chat_server\<lparr>head := []\<rparr>"
  have "server_wf ?s" using chat_server_wf by (simp add: server_wf_defs)
  moreover have "\<exists>u \<in> set (head_user ?s). u_name u = name (user_infor ?l) \<and> u_passworld u = password (user_infor ?l)"
    by (simp add: demo_defs)
  ultimately show ?thesis
    using offline_join_loses_group [of ?m ?s "\<lparr>g_name = ''grp'', g_owner = ''ann''\<rparr>" ?l working_mysql 5 4]
      wf_chat_packet [of "''eve''" "[]" "''grp''" 23]
    by (simp add: demo_defs in_group_def is_group_def find_online_def)
qed

section \<open>Client and server together\<close>

text \<open>
  What \<open>recv\<close> leaves in the client's variable, which holds the request, when the first run of the
  answer is \<open>b\<close>: the answer's command is there when its first two bytes, 1768 and 1769, have come.
\<close>

lemma answer_command:
  assumes "b @ c = encode_MSG (m\<lparr>cmd := 1002\<rparr>)" and "cmd m = 2"
  shows "cmd (decode_MSG (b @ drop (length b) (encode_MSG m)))
    = (if 1770 \<le> length b then 1002 else if length b = 1769 then 234 else 2)"
proof -
  define pre where "pre = take 1768 (encode_MSG m)"
  define post where "post = enc_str 4 [msg_type m]"
  have image: "encode_MSG (m\<lparr>cmd := i\<rparr>) = pre @ enc_int i @ post" for i
    by (simp add: pre_def post_def encode_MSG_def)
  have m: "m\<lparr>cmd := 2\<rparr> = m" using assms(2) by (cases m) simp
  have l: "length pre = 1768" by (simp add: pre_def MSG_size_def)
  have command: "cmd (decode_MSG (pre @ x @ post)) = dec_int x" if "length x = 4" for x
    using that l by (simp add: decode_MSG_def int_at_def)
  have bytes: "enc_int 1002 = [CHR 0xEA, CHR 0x03, CHR 0x00, CHR 0x00]" "enc_int 2 = [CHR 0x02, CHR 0x00, CHR 0x00, CHR 0x00]"
    by code_simp+
  have bc: "b = take (length b) (pre @ enc_int 1002 @ post)"
    using assms(1) unfolding image by (metis append_eq_conv_conj)
  have "b @ drop (length b) (encode_MSG m)
      = take (length b) (pre @ enc_int 1002 @ post) @ drop (length b) (pre @ enc_int 2 @ post)"
    using bc image [of 2] m by simp
  moreover have "take k (pre @ enc_int 1002 @ post) @ drop k (pre @ enc_int 2 @ post)
      = pre @ (if 1770 \<le> k then enc_int 1002 else if k = 1769 then [CHR 0xEA, CHR 0x00, CHR 0x00, CHR 0x00] else enc_int 2) @ post"
    for k
  proof -
    consider "k \<le> 1768" | "k = 1769" | "k = 1770" | "k = 1771" | "1772 \<le> k" by linarith
    then show ?thesis
    proof cases
      case 5
      then have "k = 1768 + 4 + (k - 1772)" by simp
      then obtain j where j: "k = 1768 + 4 + j" by blast
      then show ?thesis using l by (simp add: bytes take_Cons' drop_Cons')
    qed (use l in \<open>simp_all add: bytes\<close>)
  qed
  moreover have "dec_int (enc_int 1002) = 1002" "dec_int (enc_int 2) = 2"
    "dec_int [CHR 0xEA, CHR 0x00, CHR 0x00, CHR 0x00] = 234" by code_simp+
  ultimately show ?thesis by (simp add: command bytes)
qed

text \<open>
  C2: Logging in, end to end. A user types the name and the password; the packet the client sends
  reaches, in one piece, the event loop of a server that knows them (and whose waiting requests
  about a group name it), and its first answer is 1002. The client reads that answer with a single
  \<open>recv\<close>: if the first run of bytes that comes, \<open>b\<close>, has at least 1770 bytes of the answer (the
  beginning of the command included), the dialogue returns success and the name is remembered; if
  it is shorter, the dialogue ends without a result, although the server has listed the user as
  online.
\<close>

theorem login_end_to_end:
  assumes "keys c = n @ newline # p @ newline # newline # rest" and "word n" and "word p"
    and "cstring 20 n" and "cstring 20 p"
    and "m = zero_MSG\<lparr>cmd := 2, user_infor := zero_yonghu\<lparr>name := n, password := p\<rparr>\<rparr>"
    and "inbox (srv r) fd = encode_MSG m # later" and "length stale = MSG_size"
    and "server_wf (srv r)" and "\<exists>u \<in> set (head_user (srv r)). u_name u = n \<and> u_passworld u = p"
    and "\<forall>q \<in> set (head_request (srv r)). has_its_group q"
    and "b @ d = encode_MSG (m\<lparr>cmd := 1002\<rparr>)" and "b \<noteq> []"
  shows "\<exists>r' ms c'. handle_event env (event.Readable fd stale) r = Inr r'
    \<and> sent (srv r') = sent (srv r) @ (fd, Packet (m\<lparr>cmd := 1002\<rparr>)) # ms
    \<and> \<lparr>d_name = n, d_socket = fd\<rparr> \<in> set (head (srv r'))
    \<and> client_login (c\<lparr>incoming := b # segs\<rparr>) = Some (Inr (if 1770 \<le> length b then Some 1 else None, c'))
    \<and> out c' = out c @ [m] \<and> myname c' = n \<and> incoming c' = segs"
proof -
  have fits: "fits 256 n" "fits 256 p" "fits 20 n" "fits 20 p"
    using assms(4,5) by (auto simp: cstring_def fits_def)
  have name: "name (user_infor m) = n" "password (user_infor m) = p" "cmd m = 2" using assms(6) by simp_all
  have ok: "wire_ok m"
    using assms(4-6) by (simp add: wire_ok_def zero_MSG_def zero_yonghu_def cstring_def fits_def int32_def)
  let ?s = "(srv r)\<lparr>inbox := (inbox (srv r))(fd := later)\<rparr>"
  have "find_first (credentials (user_infor m)) (head_user ?s) \<noteq> None"
    unfolding find_first_not_None credentials_def name using assms(10) by simp
  moreover have "server_wf ?s" "\<forall>q \<in> set (head_request ?s). has_its_group q" using assms(9,11) by simp_all
  ultimately obtain s' ms where
    s': "login env fd m ?s = Inr s'" "sent s' = sent (srv r) @ (fd, Packet (m\<lparr>cmd := 1002\<rparr>)) # ms"
      "\<lparr>d_name = n, d_socket = fd\<rparr> \<in> set (head s')"
    using login_sends_waiting [of ?s m env fd] name(1) by auto
  have r': "handle_event env (event.Readable fd stale) r = Inr (r\<lparr>srv := s'\<rparr>)"
    using whole_packet_handled [OF ok assms(7,8)] s'(1) name(3) by (simp add: chuli_request_def)
  have len: "length b \<le> MSG_size" using arg_cong [OF assms(12), of length] by simp
  let ?c = "c\<lparr>incoming := b # segs\<rparr>"
  have a1: "ask 256 ?c = Some (Inr (n, ?c\<lparr>keys := p @ newline # newline # rest\<rparr>))"
    using ask_line [of ?c n "[]" "p @ newline # newline # rest" 256] assms(1,2) fits(1)
    by (simp add: line_end_def)
  let ?c1 = "?c\<lparr>keys := p @ newline # newline # rest, myname := n\<rparr>"
  have a2: "ask 256 ?c1 = Some (Inr (p, ?c1\<lparr>keys := newline # rest\<rparr>))"
    using ask_line [of ?c1 p "[]" "newline # rest" 256] assms(3) fits(2) by (simp add: line_end_def)
  have "\<exists>c'. client_login ?c = Some (Inr (if 1770 \<le> length b then Some 1 else None, c'))
    \<and> out c' = out c @ [m] \<and> myname c' = n \<and> incoming c' = segs"
    using a1 a2 fits len assms(13) answer_command [OF assms(12) name(3)]
    by (cases c) (simp add: client_login_def set_myname_def ask_into_def send_packet_def recv_packet_def
        getchar_def Let_def assms(6) [symmetric])
  with r' s' show ?thesis by (intro exI [of _ "r\<lparr>srv := s'\<rparr>"]) auto
qed

definition demo_login :: MSG where
  "demo_login = zero_MSG\<lparr>cmd := 2, user_infor := zero_yonghu\<lparr>name := ''ann'', password := ''pw''\<rparr>\<rparr>"

theorem login_end_to_end_witness:
  "\<exists>r' c' c''. handle_event working_mysql (event.Readable 9 (encode_MSG zero_MSG)) (demo_reactor [encode_MSG demo_login]) = Inr r'
    \<and> \<lparr>d_name = ''ann'', d_socket = 9\<rparr> \<in> set (head (srv r'))
    \<and> client_login ((demo_client (''ann'' @ newline # ''pw'' @ newline # newline # []))
        \<lparr>incoming := [encode_MSG (demo_login\<lparr>cmd := 1002\<rparr>)]\<rparr>) = Some (Inr (Some 1, c'))
    \<and> myname c' = ''ann''
    \<and> client_login ((demo_client (''ann'' @ newline # ''pw'' @ newline # newline # []))
        \<lparr>incoming := [take 5 (encode_MSG (demo_login\<lparr>cmd := 1002\<rparr>))]\<rparr>) = Some (Inr (None, c''))"
proof -
  let ?c = "demo_client (''ann'' @ newline # ''pw'' @ newline # newline # [])"
  let ?r = "demo_reactor [encode_MSG demo_login]" and ?e = "encode_MSG (demo_login\<lparr>cmd := 1002\<rparr>)"
  have k: "keys ?c = ''ann'' @ newline # ''pw'' @ newline # newline # []" by (simp add: demo_client_def)
  have w: "word ''ann''" "word ''pw''" by (simp_all add: word_def isspace_def)
  have n: "cstring 20 ''ann''" "cstring 20 ''pw''" by (simp_all add: cstring_def fits_def)
  have i: "inbox (srv ?r) 9 = encode_MSG demo_login # []" by (simp add: demo_reactor_def)
  have st: "length (encode_MSG zero_MSG) = MSG_size" by simp
  have wf: "server_wf (srv ?r)" using chat_server_wf by (simp add: demo_reactor_def)
  have u: "\<exists>u \<in> set (head_user (srv ?r)). u_name u = ''ann'' \<and> u_passworld u = ''pw''"
    by (simp add: demo_defs demo_reactor_def)
  have q: "\<forall>q \<in> set (head_request (srv ?r)). has_its_group q" by (simp add: chat_server_def demo_reactor_def)
  have l: "length (take 5 ?e) = 5" by (simp add: MSG_size_def)
  have "take 5 ?e \<noteq> []" by simp
  note run = login_end_to_end [OF k w n demo_login_def i st wf u q, of _ _ working_mysql "[]"]
  from run [of ?e "[]"] run [of "take 5 ?e" "drop 5 ?e"] l show ?thesis
    by (auto simp: MSG_size_def)
qed

lemma chunks_end:
  "length bs mod 1024 \<noteq> 0 \<Longrightarrow>
     \<exists>cs c. chunks bs = cs @ [c] \<and> (\<forall>x \<in> set cs. length x = 1024) \<and> length c < 1024"
proof (induction bs rule: chunks.induct)
  case (1 bs)
  then have ne: "bs \<noteq> []" by auto
  show ?case
  proof (cases "length bs < 1024")
    case True
    with ne show ?thesis by (simp add: chunks_short)
  next
    case False
    then have "length (drop 1024 bs) mod 1024 \<noteq> 0" using 1(2) by (simp add: le_mod_geq)
    from 1(1) [OF ne this] obtain cs c where "chunks (drop 1024 bs) = cs @ [c]"
      "\<forall>x \<in> set cs. length x = 1024" "length c < 1024" by blast
    moreover have "chunks bs = take 1024 bs # chunks (drop 1024 bs)" using ne by (simp add: chunks.simps [of bs])
    ultimately show ?thesis using False
      by (intro exI [of _ "take 1024 bs # cs"] exI [of _ c]) auto
  qed
qed

lemma frames_snoc:
  "\<exists>m'. frames m (cs @ [c]) = frames m cs
     @ [m'\<lparr>send_end := 0, news := c, once_len := int (htons (length c))\<rparr>]"
  by (induction m cs rule: frames.induct) auto

lemma frames_full:
  "\<forall>x \<in> set cs. length x = 1024 \<Longrightarrow> f \<in> set (frames m cs) \<Longrightarrow> full_frame (encode_MSG f)"
proof (induction m cs rule: frames.induct)
  case (1 m)
  then show ?case by simp
next
  case (2 m c cs)
  with frame_fields(1) [of c m] show ?case by (auto simp: full_frame_def)
qed

text \<open>
  C19: A file sent between two clients loses its end. For every file whose length is not a
  multiple of 1024, with the receiver online, the server passes on all the packets the sender
  makes of the file, and the receiver writes the whole multiples of 1024 bytes and nothing of
  the rest.
\<close>

theorem file_end_to_end:
  assumes "get_file_name (file_path m) = Inr n" and "find_online (to_name m) s = Some d"
    and "inbox s fd = map encode_MSG (frames p (chunks bytes))" and "length bytes mod 1024 \<noteq> 0"
  shows "\<exists>s' fs. send_file env fd m s = Inr s'
    \<and> sent s' = sent s @ (d_socket d, Packet (m\<lparr>file_name := n\<rparr>)) # map (\<lambda>f. (d_socket d, Frame f)) fs
    \<and> recv_frames [] fs = Inr (take (1024 * (length bytes div 1024)) bytes, [])"
proof -
  from chunks_end [OF assms(4)] obtain cs c where cs: "chunks bytes = cs @ [c]"
    "\<forall>x \<in> set cs. length x = 1024" "length c < 1024" by blast
  from frames_snoc [of p cs c] obtain p' where fr: "frames p (chunks bytes) = frames p cs
     @ [p'\<lparr>send_end := 0, news := c, once_len := int (htons (length c))\<rparr>]" (is "_ = _ @ [?l]")
    using cs(1) by auto
  have "last_frame (encode_MSG ?l)" using frame_fields(1) [of c p'] cs(3) by (simp add: last_frame_def)
  moreover have "\<forall>g \<in> set (map encode_MSG (frames p cs)). full_frame g"
    using frames_full [OF cs(2)] by auto
  moreover have "[] \<notin> set (inbox s fd)"
    unfolding assms(3) using encode_MSG_nonempty by (metis (no_types, lifting) imageE set_map)
  moreover have "concat (inbox s fd) = concat (map encode_MSG (frames p cs)) @ encode_MSG ?l @ []"
    unfolding assms(3) fr by simp
  ultimately obtain rest where
    "relay (Some (d_socket d)) [] (inbox s fd) = Inr (map encode_MSG (frames p cs) @ [encode_MSG ?l], rest)"
    using relay_frames by blast
  from send_file_online [OF assms(1,2) this, of env]
  have "\<exists>s'. send_file env fd m s = Inr s' \<and> sent s' = sent s @ (d_socket d, Packet (m\<lparr>file_name := n\<rparr>)) #
      map (\<lambda>f. (d_socket d, Frame f)) (map encode_MSG (frames p (chunks bytes)))"
    unfolding fr by simp
  with recv_frames_sent [of p bytes] show ?thesis by blast
qed

theorem file_end_to_end_witness:
  "\<exists>s' fs. send_file working_mysql 5 demo_file_packet
      (demo_transfer (map encode_MSG (frames zero_MSG (chunks ''abc'')))) = Inr s'
    \<and> sent s' = (4, Packet (demo_file_packet\<lparr>file_name := ''b''\<rparr>)) # map (\<lambda>f. (4, Frame f)) fs
    \<and> recv_frames [] fs = Inr ([], [])"
proof -
  let ?s = "demo_transfer (map encode_MSG (frames zero_MSG (chunks ''abc'')))"
  have "inbox ?s 5 = map encode_MSG (frames zero_MSG (chunks ''abc''))" "sent ?s = []"
    by (simp_all add: demo_transfer_def chat_server_def demo_server_def)
  with file_end_to_end [OF demo_file_name demo_find_online this(1), of working_mysql]
  show ?thesis by simp
qed

end
